(* ===== verification/Prelude.thy ===== *)
theory Prelude
  imports Main "HOL-Library.Word" "HOL-Library.Monad_Syntax"
begin

unbundle bit_operations_syntax

text \<open>
  Shared vocabulary of the development: the machine integer types of \<open>x86.h\<close>, the error
  codes of \<open>error.h\<close>, little-endian access to byte-addressed memory (the layout of every
  on-disk structure and of every page table), and the generic facts the component theories
  use.  Conventions:

  \<^item> an operation that can panic, or that dereferences a pointer the hardware faults on, returns
    an \<open>option\<close>; \<open>None\<close> is "the program stops here" (\<open>panic\<close> never returns);
  \<^item> state is passed explicitly, and \<open>do\<close>-notation of the option monad sequences the calls;
  \<^item> an \<open>int\<close> result carries the C convention: negative values are \<open>-E_...\<close> error codes.
\<close>

section \<open>Automation\<close>

named_theorems mem_simps "reading a memory cell after a write"
named_theorems err_defs "numeric values of the error codes"

section \<open>Machine integers (x86.h)\<close>

type_synonym u8 = "8 word"
type_synonym u16 = "16 word"
type_synonym u32 = "32 word"
type_synonym i32 = "32 word"
  \<comment> \<open>a C \<open>int\<close>: the same 32 bits, read with \<open>sint\<close>\<close>

section \<open>Error codes (error.h)\<close>

definition E_UNSPECIFIED :: int where "E_UNSPECIFIED = 1"
definition E_BAD_ENV :: int where "E_BAD_ENV = 2"
definition E_INVAL :: int where "E_INVAL = 3"
definition E_NO_MEM :: int where "E_NO_MEM = 4"
definition E_NO_FREE_ENV :: int where "E_NO_FREE_ENV = 5"
definition E_FAULT :: int where "E_FAULT = 6"
definition E_IPC_NOT_RECV :: int where "E_IPC_NOT_RECV = 7"
definition E_EOF :: int where "E_EOF = 8"
definition E_NO_DISK :: int where "E_NO_DISK = 9"
definition E_NO_INODE :: int where "E_NO_INODE = 10"
definition E_MAX_OPEN :: int where "E_MAX_OPEN = 11"
definition E_NOT_FOUND :: int where "E_NOT_FOUND = 12"
definition E_BAD_PATH :: int where "E_BAD_PATH = 13"
definition E_BAD_NAME :: int where "E_BAD_NAME = 14"
definition E_FILE_EXISTS :: int where "E_FILE_EXISTS = 15"
definition E_NOT_EXEC :: int where "E_NOT_EXEC = 16"
definition E_NOT_SUPP :: int where "E_NOT_SUPP = 17"
definition MAXERROR :: int where "MAXERROR = 18"

lemmas E_defs [err_defs] =
  E_UNSPECIFIED_def E_BAD_ENV_def E_INVAL_def E_NO_MEM_def E_NO_FREE_ENV_def E_FAULT_def
  E_IPC_NOT_RECV_def E_EOF_def E_NO_DISK_def E_NO_INODE_def E_MAX_OPEN_def E_NOT_FOUND_def
  E_BAD_PATH_def E_BAD_NAME_def E_FILE_EXISTS_def E_NOT_EXEC_def E_NOT_SUPP_def MAXERROR_def

section \<open>Byte-addressed little-endian memory\<close>

type_synonym bytemem = "nat \<Rightarrow> u8"

definition get16 :: "bytemem \<Rightarrow> nat \<Rightarrow> u16" where
  "get16 m a = ucast (m a) OR push_bit 8 (ucast (m (a + 1)))"

definition set16 :: "nat \<Rightarrow> u16 \<Rightarrow> bytemem \<Rightarrow> bytemem" where
  "set16 a v m = m(a := ucast v, a + 1 := ucast (drop_bit 8 v))"

definition get32 :: "bytemem \<Rightarrow> nat \<Rightarrow> u32" where
  "get32 m a = ucast (get16 m a) OR push_bit 16 (ucast (get16 m (a + 2)))"

definition set32 :: "nat \<Rightarrow> u32 \<Rightarrow> bytemem \<Rightarrow> bytemem" where
  "set32 a v m = set16 (a + 2) (ucast (drop_bit 16 v)) (set16 a (ucast v) m)"

definition get_bytes :: "bytemem \<Rightarrow> nat \<Rightarrow> nat \<Rightarrow> u8 list" where
  "get_bytes m a n = map m [a..<a + n]"

fun set_bytes :: "nat \<Rightarrow> u8 list \<Rightarrow> bytemem \<Rightarrow> bytemem" where
  "set_bytes a [] m = m"
| "set_bytes a (b # bs) m = set_bytes (Suc a) bs (m(a := b))"

lemma get16_set16_same [mem_simps]: "get16 (set16 a v m) a = v"
  unfolding get16_def set16_def
  by (rule bit_word_eqI) (auto simp: bit_simps)

lemma set16_get16: "set16 a (get16 m a) m = m"
proof -
  have "ucast (get16 m a) = m a"
    by (rule bit_word_eqI) (auto simp: get16_def bit_simps)
  moreover have "ucast (drop_bit 8 (get16 m a)) = m (a + 1)"
    by (rule bit_word_eqI) (auto simp: get16_def bit_simps dest: bit_imp_le_length)
  ultimately show ?thesis by (auto simp: set16_def)
qed

lemma get16_zero [mem_simps]: "get16 (\<lambda>_. 0) a = 0"
  by (simp add: get16_def)

lemma get16_cong: "m a = m' a \<Longrightarrow> m (Suc a) = m' (Suc a) \<Longrightarrow> get16 m a = get16 m' a"
  by (simp add: get16_def)

lemma get32_cong:
  assumes "\<And>i. i < 4 \<Longrightarrow> m (a + i) = m' (a + i)"
  shows "get32 m a = get32 m' a"
proof -
  have "m a = m' a" "m (Suc a) = m' (Suc a)"
    using assms [of 0] assms [of 1] by simp_all
  moreover have "m (a + 2) = m' (a + 2)" "m (Suc (a + 2)) = m' (Suc (a + 2))"
    using assms [of 2] assms [of 3] by (simp_all add: numeral_3_eq_3)
  ultimately show ?thesis
    using get16_cong [of m a m'] get16_cong [of m "a + 2" m'] by (simp add: get32_def)
qed

lemma set16_apply [mem_simps]:
  "set16 a v m x = (if x = a then ucast v else if x = a + 1 then ucast (drop_bit 8 v) else m x)"
  by (simp add: set16_def)

lemma set16_other: "x \<noteq> a \<Longrightarrow> x \<noteq> Suc a \<Longrightarrow> set16 a v m x = m x"
  by (simp add: set16_def)

lemma get16_set16_other [mem_simps]:
  "a + 2 \<le> b \<or> b + 2 \<le> a \<Longrightarrow> get16 (set16 a v m) b = get16 m b"
  by (auto intro!: get16_cong simp: set16_def)

lemma get32_set32_same [mem_simps]: "get32 (set32 a v m) a = v"
  unfolding get32_def set32_def
  by (rule bit_word_eqI) (auto simp: bit_simps mem_simps)

lemma set32_set32: "set32 a v (set32 a w m) = set32 a v m"
  by (auto simp: set32_def set16_def fun_eq_iff)

lemma set32_get32: "set32 a (get32 m a) m = m"
proof -
  have "ucast (get32 m a) = get16 m a"
    by (rule bit_word_eqI) (auto simp: get32_def bit_simps)
  moreover have "ucast (drop_bit 16 (get32 m a)) = get16 m (a + 2)"
    by (rule bit_word_eqI) (auto simp: get32_def bit_simps dest: bit_imp_le_length)
  ultimately show ?thesis by (simp only: set32_def set16_get16)
qed

lemma set32_other: "x < a \<or> a + 4 \<le> x \<Longrightarrow> set32 a v m x = m x"
  by (auto simp: set32_def set16_def)

lemma get16_set32_other [mem_simps]:
  "a + 4 \<le> b \<or> b + 2 \<le> a \<Longrightarrow> get16 (set32 a v m) b = get16 m b"
  by (auto intro!: get16_cong simp: set32_other)

lemma get32_set16_other [mem_simps]:
  "a + 2 \<le> b \<or> b + 4 \<le> a \<Longrightarrow> get32 (set16 a v m) b = get32 m b"
  by (auto intro!: get32_cong simp: set16_def)

lemma get32_set32_other [mem_simps]:
  "a + 4 \<le> b \<or> b + 4 \<le> a \<Longrightarrow> get32 (set32 a v m) b = get32 m b"
  by (auto intro!: get32_cong simp: set32_other)

lemma length_get_bytes [simp]: "length (get_bytes m a n) = n"
  by (simp add: get_bytes_def)

lemma nth_get_bytes [simp]: "i < n \<Longrightarrow> get_bytes m a n ! i = m (a + i)"
  by (simp add: get_bytes_def)

lemma get_bytes_0 [simp]: "get_bytes m a 0 = []"
  by (simp add: get_bytes_def)

lemma get_bytes_Suc: "get_bytes m a (Suc n) = m a # get_bytes m (Suc a) n"
  by (rule nth_equalityI) (auto simp: nth_Cons split: nat.splits)

lemma set_bytes_apply:
  "set_bytes a bs m x = (if a \<le> x \<and> x < a + length bs then bs ! (x - a) else m x)"
proof (induction bs arbitrary: a m)
  case Nil
  then show ?case by auto
next
  case (Cons b bs)
  show ?case
    by (auto simp: Cons.IH nth_Cons')
qed

lemma set_bytes_outside [mem_simps]:
  "x < a \<or> a + length bs \<le> x \<Longrightarrow> set_bytes a bs m x = m x"
  by (auto simp: set_bytes_apply)

lemma get_bytes_set_bytes_same: "get_bytes (set_bytes a bs m) a (length bs) = bs"
  by (rule nth_equalityI) (auto simp: set_bytes_apply)

lemma get_bytes_cong:
  "(\<And>i. i < n \<Longrightarrow> m (a + i) = m' (a + i)) \<Longrightarrow> get_bytes m a n = get_bytes m' a n"
  by (rule nth_equalityI) auto

lemma get_bytes_set_bytes_other:
  "a + length bs \<le> b \<or> b + n \<le> a \<Longrightarrow> get_bytes (set_bytes a bs m) b n = get_bytes m b n"
  by (rule get_bytes_cong) (auto simp: set_bytes_apply)

section \<open>C arithmetic\<close>

text \<open>Signed division and remainder of C truncate towards zero.\<close>

definition c_div :: "int \<Rightarrow> int \<Rightarrow> int" where
  "c_div a b = sgn a * sgn b * (\<bar>a\<bar> div \<bar>b\<bar>)"

definition c_mod :: "int \<Rightarrow> int \<Rightarrow> int" where
  "c_mod a b = a - c_div a b * b"

lemma c_div_nonneg: "0 \<le> a \<Longrightarrow> 0 < b \<Longrightarrow> c_div a b = a div b"
  by (cases "a = 0") (auto simp: c_div_def)

lemma c_mod_nonneg: "0 \<le> a \<Longrightarrow> 0 < b \<Longrightarrow> c_mod a b = a mod b"
  by (simp add: c_mod_def c_div_nonneg minus_div_mult_eq_mod)

lemma c_div_int: "0 < b \<Longrightarrow> c_div (int a) (int b) = int (a div b)"
  by (simp add: c_div_nonneg zdiv_int)

lemma c_mod_int: "0 < b \<Longrightarrow> c_mod (int a) (int b) = int (a mod b)"
  by (simp add: c_mod_nonneg zmod_int)

lemma c_mod_lower: "0 < b \<Longrightarrow> - b < c_mod a b"
proof (cases "0 \<le> a")
  case True
  then show "0 < b \<Longrightarrow> - b < c_mod a b" by (simp add: c_mod_nonneg less_le_trans [OF _ pos_mod_sign])
next
  case False
  assume b: "0 < b"
  with False have "c_mod a b = - ((- a) mod b)"
    by (simp add: c_mod_def c_div_def minus_div_mult_eq_mod [symmetric])
  with b show "- b < c_mod a b" by (simp add: pos_mod_bound)
qed

lemma c_mod_upper: "0 < b \<Longrightarrow> c_mod a b < b"
proof (cases "0 \<le> a")
  case True
  then show "0 < b \<Longrightarrow> c_mod a b < b" by (simp add: c_mod_nonneg)
next
  case False
  assume b: "0 < b"
  with False have "c_mod a b = - ((- a) mod b)"
    by (simp add: c_mod_def c_div_def minus_div_mult_eq_mod [symmetric])
  with b show "c_mod a b < b" by (smt (verit) pos_mod_sign)
qed

section \<open>The option monad\<close>

lemma bind_Some_iff:
  "(m \<bind> f) = Some y \<longleftrightarrow> (\<exists>x. m = Some x \<and> f x = Some y)"
  by (cases m) auto

lemma bind_None_iff:
  "(m \<bind> f) = None \<longleftrightarrow> (m = None \<or> (\<exists>x. m = Some x \<and> f x = None))"
  by (cases m) auto

section \<open>Words and naturals\<close>

lemma unat_of_nat_u16: "n < 65536 \<Longrightarrow> unat (of_nat n :: u16) = n"
  by (simp add: unat_of_nat)

lemma unat_of_nat_u32: "n < 4294967296 \<Longrightarrow> unat (of_nat n :: u32) = n"
  by (simp add: unat_of_nat)

lemma unat_u16_bound [simp]: "unat (w :: u16) < 65536"
  using unsigned_less [of w] by simp

lemma less_unat_u16_measure: "n < unat (w :: u16) \<Longrightarrow> 65535 - n < 65536 - n"
  using unat_u16_bound [of w] by linarith

lemma unat_u32_bound [simp]: "unat (w :: u32) < 4294967296"
  using unsigned_less [of w] by simp

lemma unat_ucast_16_32 [simp]: "unat (ucast (w :: u16) :: u32) = unat w"
  by transfer (simp add: take_bit_nat_eq_self_iff min_def)

lemma sint_small:
  assumes "unat (w :: u32) < 2147483648"
  shows "sint w = int (unat w)"
proof -
  have lt: "uint w < 2147483648" using assms unfolding uint_nat by linarith
  have "signed_take_bit 31 (uint w) = uint w"
    by (rule signed_take_bit_int_eq_self, rule order_trans [OF _ uint_ge_0]) (use lt in simp_all)
  then show ?thesis unfolding sint_uint by simp
qed

text \<open>Setting and clearing one bit of a word, as the bitmap code does with \<open>1 << k\<close>.\<close>

lemma bit_or_push_1:
  "k < LENGTH('a) \<Longrightarrow> bit (w OR 2 ^ k :: 'a :: len word) j = (bit w j \<or> j = k)"
  by (auto simp: bit_simps)

lemma bit_and_not_push_1:
  "k < LENGTH('a) \<Longrightarrow> bit (w AND NOT (2 ^ k) :: 'a :: len word) j = (bit w j \<and> j \<noteq> k)"
  by (auto simp: bit_simps dest: bit_imp_le_length)

lemma and_push_1_eq_0:
  "k < LENGTH('a) \<Longrightarrow> w AND 2 ^ k = (0 :: 'a :: len word) \<longleftrightarrow> \<not> bit w k"
proof -
  assume k: "k < LENGTH('a)"
  have *: "bit (w AND 2 ^ k) n = (bit w n \<and> n = k)" for n
    using k by (auto simp: bit_simps)
  show ?thesis
  proof
    assume "w AND 2 ^ k = 0"
    then show "\<not> bit w k" using * [of k] by (metis bit_0_eq bot_apply bot_bool_def)
  next
    assume "\<not> bit w k"
    then show "w AND 2 ^ k = 0" using * by (metis bit_word_eqI bit_0_eq bot_apply bot_bool_def)
  qed
qed

section \<open>Linked free lists\<close>

text \<open>
  The kernel keeps free pages and free environments on lists linked through the array elements.
  \<open>chain link p xs\<close>: following \<open>link\<close> from \<open>p\<close> visits \<open>xs\<close>.  The locale states what taking
  and giving back an element do to the links; the sequence of free elements then is a stack.
\<close>

fun chain :: "(nat \<Rightarrow> nat option) \<Rightarrow> nat option \<Rightarrow> nat list \<Rightarrow> bool" where
  "chain link p [] = (p = None)"
| "chain link p (x # xs) = (p = Some x \<and> chain link (link x) xs)"

lemma chain_cong: "(\<And>x. x \<in> set xs \<Longrightarrow> link' x = link x) \<Longrightarrow> chain link' p xs = chain link p xs"
  by (induction xs arbitrary: p) auto

lemma chain_unique: "chain link p xs \<Longrightarrow> chain link p ys \<Longrightarrow> xs = ys"
  by (induction xs arbitrary: p ys) (case_tac ys, auto)+

locale free_stack =
  fixes head :: "'s \<Rightarrow> nat option" and link :: "'s \<Rightarrow> nat \<Rightarrow> nat option"
    and pop :: "'s \<Rightarrow> nat option \<times> 's" and push :: "nat \<Rightarrow> 's \<Rightarrow> 's option"
    and pushable :: "nat \<Rightarrow> 's \<Rightarrow> bool"
  assumes pop_empty: "head s = None \<Longrightarrow> pop s = (None, s)"
    and pop_head: "head s = Some p \<Longrightarrow>
      \<exists>s'. pop s = (Some p, s') \<and> head s' = link s p \<and> (\<forall>q. q \<noteq> p \<longrightarrow> link s' q = link s q)"
    and push_head: "pushable p s \<Longrightarrow>
      \<exists>s'. push p s = Some s' \<and> head s' = Some p \<and> link s' p = head s \<and> (\<forall>q. q \<noteq> p \<longrightarrow> link s' q = link s q)"
begin

definition holds :: "'s \<Rightarrow> nat list \<Rightarrow> bool" where
  "holds s xs \<longleftrightarrow> chain (link s) (head s) xs \<and> distinct xs"

lemma holds_unique: "holds s xs \<Longrightarrow> holds s ys \<Longrightarrow> xs = ys"
  by (auto simp: holds_def dest: chain_unique)

lemma pop_holds:
  assumes "holds s xs"
  shows "case xs of [] \<Rightarrow> pop s = (None, s) | x # ys \<Rightarrow> \<exists>s'. pop s = (Some x, s') \<and> holds s' ys"
proof (cases xs)
  case Nil
  then show ?thesis using assms pop_empty [of s] by (simp add: holds_def)
next
  case (Cons x ys)
  then have "head s = Some x" "chain (link s) (link s x) ys" "x \<notin> set ys" "distinct ys"
    using assms by (auto simp: holds_def)
  moreover from pop_head [OF this(1)] obtain s' where
    s': "pop s = (Some x, s')" "head s' = link s x" "\<forall>q. q \<noteq> x \<longrightarrow> link s' q = link s q" by blast
  moreover have "chain (link s') q ys = chain (link s) q ys" for q
    by (rule chain_cong) (use s'(3) \<open>x \<notin> set ys\<close> in metis)
  ultimately have "holds s' ys" by (simp add: holds_def)
  with s'(1) Cons show ?thesis by auto
qed

lemma push_holds:
  assumes "holds s xs" "p \<notin> set xs" "pushable p s"
  shows "\<exists>s'. push p s = Some s' \<and> holds s' (p # xs)"
proof -
  from push_head [OF assms(3)] obtain s' where
    s': "push p s = Some s'" "head s' = Some p" "link s' p = head s" "\<forall>q. q \<noteq> p \<longrightarrow> link s' q = link s q" by blast
  have "chain (link s') q xs = chain (link s) q xs" for q
    by (rule chain_cong) (use s'(4) assms(2) in metis)
  then have "chain (link s') (head s) xs" using assms(1) by (simp add: holds_def)
  with s' assms show ?thesis by (auto simp: holds_def)
qed

end

end
