(* ===== verification/BlockCache.thy ===== *)
theory BlockCache
  imports Prelude
begin

text \<open>
  The block cache of the file-system server (\<open>damnfs.c\<close>, second half, over \<open>ide.c\<close>).
  Disk block \<open>n\<close> is mapped at \<open>DISKMAP + n * BLKSIZE\<close>; a first access faults it in
  (\<open>bc_pgfault\<close>), a store sets the page's dirty bit (the MMU does), and \<open>flush_block\<close>
  writes a dirty page back.  Memory is byte-addressed; a pointer is its address (a natural
  number: every block number of the program is a \<open>uint16_t\<close>, so no address computation
  of \<open>damnfs.c\<close> leaves 32 bits).  The state also holds the platform: the bytes of the disk,
  whether the kernel has a page for a block (\<open>sys_page_alloc\<close>) and whether the drive completes
  the transfer of a sector.

  The lemmas show that the cache is transparent: what a program sees (\<open>view\<close>) is unchanged
  by faults and flushes, and that a flushed block is on the disk.
\<close>

section \<open>Constants (damnfs.h, util.h)\<close>

definition BLKSIZE :: nat where "BLKSIZE = 4096"
definition SECTSIZE :: nat where "SECTSIZE = 512"
definition BLKSECTS :: nat where "BLKSECTS = BLKSIZE div SECTSIZE"
definition DISKMAP :: nat where "DISKMAP = 0x10000000"
definition DISKSIZE :: nat where "DISKSIZE = 0x11002000"
definition UTEXT_addr :: nat where "UTEXT_addr = 2 * (4096 * 1024)"

text \<open>Offsets of the fields of \<open>struct DamnSuper\<close>.\<close>

definition SB_magic :: nat where "SB_magic = 0"
definition SB_in_num :: nat where "SB_in_num = 4"
definition SB_blk_num :: nat where "SB_blk_num = 6"
definition SB_blk_ocp :: nat where "SB_blk_ocp = 16"
definition SB_in_ocp :: nat where "SB_in_ocp = 528"

named_theorems fs_consts "numeric values of the file system's constants"

declare BLKSIZE_def [fs_consts] SECTSIZE_def [fs_consts] BLKSECTS_def [fs_consts]
  DISKMAP_def [fs_consts] DISKSIZE_def [fs_consts] UTEXT_addr_def [fs_consts]
  SB_magic_def [fs_consts] SB_in_num_def [fs_consts] SB_blk_num_def [fs_consts]
  SB_blk_ocp_def [fs_consts] SB_in_ocp_def [fs_consts]

section \<open>State\<close>

record fs =
  fmem :: bytemem           \<comment> \<open>the server's memory, by address\<close>
  fmapped :: "nat \<Rightarrow> bool"  \<comment> \<open>PTE_P of the page of block \<open>n\<close>\<close>
  fdirty :: "nat \<Rightarrow> bool"   \<comment> \<open>PTE_D of the page of block \<open>n\<close>\<close>
  fsuper :: nat             \<comment> \<open>the pointer \<open>super\<close> (0 is NULL)\<close>
  finodes :: nat            \<comment> \<open>the pointer \<open>inodes\<close>\<close>
  fdisk :: bytemem          \<comment> \<open>the bytes of the disk\<close>
  pg_ok :: "nat \<Rightarrow> bool"    \<comment> \<open>the kernel can allocate the page of block \<open>n\<close>\<close>
  ide_ok :: "nat \<Rightarrow> bool"   \<comment> \<open>the drive transfers sector \<open>n\<close> without an error\<close>

definition in_cache :: "nat \<Rightarrow> bool" where
  "in_cache a \<longleftrightarrow> DISKMAP \<le> a \<and> a < DISKMAP + DISKSIZE"

definition blk :: "nat \<Rightarrow> nat" where
  "blk a = (a - DISKMAP) div BLKSIZE"

section \<open>The drive (ide.c)\<close>

text \<open>
  The four bytes of the sector number go to the drive's registers; the drive takes 28 bits.
  Each sector's transfer starts with \<open>ide_wait_ready(1)\<close>, which reports a drive error as
  \<open>-1\<close>.
\<close>

definition ide_lba :: "nat \<Rightarrow> nat" where
  "ide_lba secno =
     secno mod 256 + 256 * ((secno div 256) mod 256)
     + 65536 * ((secno div 65536) mod 256) + 16777216 * ((secno div 16777216) mod 16)"

fun ide_read_secs :: "nat \<Rightarrow> nat \<Rightarrow> nat \<Rightarrow> fs \<Rightarrow> int \<times> fs" where
  "ide_read_secs lba dst 0 s = (0, s)"
| "ide_read_secs lba dst (Suc nsecs) s =
     (if \<not> ide_ok s lba then (-1, s)
      else ide_read_secs (Suc lba) (dst + SECTSIZE) nsecs
             (s\<lparr>fmem := set_bytes dst (get_bytes (fdisk s) (lba * SECTSIZE) SECTSIZE) (fmem s)\<rparr>))"

definition ide_read :: "nat \<Rightarrow> nat \<Rightarrow> nat \<Rightarrow> fs \<Rightarrow> int \<times> fs" where
  "ide_read secno dst nsecs s = ide_read_secs (ide_lba secno) dst nsecs s"

fun ide_write_secs :: "nat \<Rightarrow> nat \<Rightarrow> nat \<Rightarrow> fs \<Rightarrow> int \<times> fs" where
  "ide_write_secs lba src 0 s = (0, s)"
| "ide_write_secs lba src (Suc nsecs) s =
     (if \<not> ide_ok s lba then (-1, s)
      else ide_write_secs (Suc lba) (src + SECTSIZE) nsecs
             (s\<lparr>fdisk := set_bytes (lba * SECTSIZE) (get_bytes (fmem s) src SECTSIZE) (fdisk s)\<rparr>))"

definition ide_write :: "nat \<Rightarrow> nat \<Rightarrow> nat \<Rightarrow> fs \<Rightarrow> int \<times> fs" where
  "ide_write secno src nsecs s = ide_write_secs (ide_lba secno) src nsecs s"

section \<open>Faulting blocks in (damnfs.c: bc_pgfault)\<close>

text \<open>
  \<open>va_is_mapped\<close> and \<open>va_is_dirty\<close> read the page table the kernel exposes at \<open>uvpt\<close>.
  An address is present if it lies in the server's own image and data (below \<open>DISKMAP\<close>) or
  in a block that has been faulted in; NULL and its neighbourhood are not.
\<close>

definition va_is_mapped :: "nat \<Rightarrow> fs \<Rightarrow> bool" where
  "va_is_mapped va s = fmapped s (blk va)"

definition va_is_dirty :: "nat \<Rightarrow> fs \<Rightarrow> bool" where
  "va_is_dirty va s = fdirty s (blk va)"

definition present :: "nat \<Rightarrow> fs \<Rightarrow> bool" where
  "present a s = (if in_cache a then va_is_mapped a s else UTEXT_addr \<le> a \<and> a < DISKMAP)"

text \<open>The test of \<open>block_is_free\<close>, on memory that is present.\<close>

definition block_bit_free :: "bytemem \<Rightarrow> nat \<Rightarrow> nat \<Rightarrow> bool" where
  "block_bit_free m super blockno =
     (if super = 0 \<or> unat (get16 m (super + SB_blk_num)) \<le> blockno then False
      else get32 m (super + SB_blk_ocp + 4 * (blockno div 32))
             AND push_bit (blockno mod 32) 1 = 0)"

text \<open>
  The handler reads the superblock; a fault on the superblock's own page while handling a fault
  would recurse without end, which the model counts as a stop.
\<close>

definition bc_pgfault :: "nat \<Rightarrow> fs \<Rightarrow> fs option" where
  "bc_pgfault addr s =
     (let blockno = blk addr; blkaddr = addr - addr mod BLKSIZE in
      if addr < DISKMAP \<or> DISKMAP + DISKSIZE \<le> addr then None
      else if fsuper s \<noteq> 0 \<and> \<not> present (fsuper s) s then None
      else if fsuper s \<noteq> 0 \<and> unat (get16 (fmem s) (fsuper s + SB_blk_num)) \<le> blockno then None
      else if \<not> pg_ok s blockno then None
      else
        (let s1 = s\<lparr>fmapped := (fmapped s)(blockno := True),
                    fmem := set_bytes blkaddr (replicate BLKSIZE 0) (fmem s)\<rparr>;
             (r, s2) = ide_read (blockno * BLKSECTS) blkaddr BLKSECTS s1 in
         if r < 0 then None
         else
           (let s3 = s2\<lparr>fdirty := (fdirty s2)(blockno := False)\<rparr> in
            if fsuper s3 \<noteq> 0 \<and> block_bit_free (fmem s3) (fsuper s3) blockno then None
            else Some s3)))"

definition touch :: "nat \<Rightarrow> fs \<Rightarrow> fs option" where
  "touch a s = (if present a s then Some s else bc_pgfault a s)"

section \<open>Loads and stores\<close>

text \<open>
  Every field of the on-disk structures lies at an even offset (\<open>struct DirEntry\<close> is 18
  bytes, \<open>struct DamnInode\<close> 32), so no 16- or 32-bit access straddles a page and one
  \<open>touch\<close> stands for it.
\<close>

definition mark_dirty :: "nat \<Rightarrow> fs \<Rightarrow> fs" where
  "mark_dirty a s = (if in_cache a then s\<lparr>fdirty := (fdirty s)(blk a := True)\<rparr> else s)"

definition store :: "nat \<Rightarrow> (bytemem \<Rightarrow> bytemem) \<Rightarrow> fs \<Rightarrow> fs" where
  "store a f s = mark_dirty a (s\<lparr>fmem := f (fmem s)\<rparr>)"

definition rd8 :: "nat \<Rightarrow> fs \<Rightarrow> (u8 \<times> fs) option" where
  "rd8 a s = do { s \<leftarrow> touch a s; Some (fmem s a, s) }"

definition rd16 :: "nat \<Rightarrow> fs \<Rightarrow> (u16 \<times> fs) option" where
  "rd16 a s = do { s \<leftarrow> touch a s; Some (get16 (fmem s) a, s) }"

definition rd32 :: "nat \<Rightarrow> fs \<Rightarrow> (u32 \<times> fs) option" where
  "rd32 a s = do { s \<leftarrow> touch a s; Some (get32 (fmem s) a, s) }"

definition wr8 :: "nat \<Rightarrow> u8 \<Rightarrow> fs \<Rightarrow> fs option" where
  "wr8 a v s = do { s \<leftarrow> touch a s; Some (store a (\<lambda>m. m(a := v)) s) }"

definition wr16 :: "nat \<Rightarrow> u16 \<Rightarrow> fs \<Rightarrow> fs option" where
  "wr16 a v s = do { s \<leftarrow> touch a s; Some (store a (set16 a v) s) }"

definition wr32 :: "nat \<Rightarrow> u32 \<Rightarrow> fs \<Rightarrow> fs option" where
  "wr32 a v s = do { s \<leftarrow> touch a s; Some (store a (set32 a v) s) }"

text \<open>Block transfers by \<open>memmove\<close> within one block.\<close>

definition rd_bytes :: "nat \<Rightarrow> nat \<Rightarrow> fs \<Rightarrow> (u8 list \<times> fs) option" where
  "rd_bytes a n s = do { s \<leftarrow> touch a s; Some (get_bytes (fmem s) a n, s) }"

definition wr_bytes :: "nat \<Rightarrow> u8 list \<Rightarrow> fs \<Rightarrow> fs option" where
  "wr_bytes a bs s = do { s \<leftarrow> touch a s; Some (store a (set_bytes a bs) s) }"

section \<open>diskaddr and flush_block\<close>

definition diskaddr :: "nat \<Rightarrow> fs \<Rightarrow> (nat \<times> fs) option" where
  "diskaddr blockno s =
     (if fsuper s = 0 then Some (DISKMAP + blockno * BLKSIZE, s)
      else do {
        (n, s) \<leftarrow> rd16 (fsuper s + SB_blk_num) s;
        if unat n \<le> blockno then None
        else Some (DISKMAP + blockno * BLKSIZE, s)
      })"

definition flush_block :: "nat \<Rightarrow> fs \<Rightarrow> fs option" where
  "flush_block addr s =
     (let blockno = blk addr in
      if addr < DISKMAP \<or> DISKMAP + DISKSIZE \<le> addr then None
      else if \<not> va_is_mapped addr s \<or> \<not> va_is_dirty addr s then Some s
      else
        (let (r, s1) = ide_write (blockno * BLKSECTS) (addr - addr mod BLKSIZE) BLKSECTS s in
         if r < 0 then None
         else Some (s1\<lparr>fdirty := (fdirty s1)(blockno := False)\<rparr>)))"

definition bc_init :: "fs \<Rightarrow> fs option" where
  "bc_init s = do {
     (a, s) \<leftarrow> diskaddr 0 s;
     (tmp, s) \<leftarrow> rd8 a s;
     Some s
   }"


section \<open>Sector transfers\<close>

lemma ide_lba_eq: "ide_lba secno = secno mod 2 ^ 28"
proof -
  have "secno mod (256 * 1048576) = 256 * (secno div 256 mod 1048576) + secno mod 256"
    by (rule mod_mult2_eq)
  moreover have "secno div 256 mod (256 * 4096)
      = 256 * (secno div 256 div 256 mod 4096) + secno div 256 mod 256"
    by (rule mod_mult2_eq)
  moreover have "secno div 65536 mod (256 * 16)
      = 256 * (secno div 65536 div 256 mod 16) + secno div 65536 mod 256"
    by (rule mod_mult2_eq)
  moreover have "secno div 256 div 256 = secno div 65536" "secno div 65536 div 256 = secno div 16777216"
    by (simp_all add: div_mult2_eq [symmetric])
  ultimately show ?thesis by (simp add: ide_lba_def)
qed

lemma set_bytes_append:
  "set_bytes a (xs @ ys) m = set_bytes (a + length xs) ys (set_bytes a xs m)"
  by (rule ext) (auto simp: set_bytes_apply nth_append)

lemma get_bytes_append: "get_bytes m a (i + j) = get_bytes m a i @ get_bytes m (a + i) j"
  by (rule nth_equalityI) (auto simp: nth_append)

lemma ide_read_secs_Ok:
  "ide_read_secs lba dst n s = (r, s') \<Longrightarrow> 0 \<le> r \<Longrightarrow>
   r = 0 \<and> s' = s\<lparr>fmem := set_bytes dst (get_bytes (fdisk s) (lba * SECTSIZE) (n * SECTSIZE)) (fmem s)\<rparr>"
proof (induction lba dst n s arbitrary: r rule: ide_read_secs.induct)
  case (1 lba dst s)
  then show ?case by (simp add: get_bytes_def)
next
  case (2 lba dst nsecs s)
  then show ?case
    by (auto simp: get_bytes_append set_bytes_append add.commute split: if_splits)
qed

lemma ide_write_secs_Ok:
  "ide_write_secs lba src n s = (r, s') \<Longrightarrow> 0 \<le> r \<Longrightarrow>
   r = 0 \<and> s' = s\<lparr>fdisk := set_bytes (lba * SECTSIZE) (get_bytes (fmem s) src (n * SECTSIZE)) (fdisk s)\<rparr>"
proof (induction lba src n s arbitrary: r rule: ide_write_secs.induct)
  case (1 lba src s)
  then show ?case by (simp add: get_bytes_def)
next
  case (2 lba src nsecs s)
  then show ?case
    by (auto simp: get_bytes_append set_bytes_append add.commute split: if_splits)
qed

lemma ide_read_secs_ret: "(\<And>i. ide_ok s i) \<Longrightarrow> fst (ide_read_secs lba dst n s) = 0"
  by (induction lba dst n s rule: ide_read_secs.induct) auto

lemma ide_write_secs_ret: "(\<And>i. ide_ok s i) \<Longrightarrow> fst (ide_write_secs lba src n s) = 0"
  by (induction lba src n s rule: ide_write_secs.induct) auto

section \<open>Addresses and blocks\<close>

lemma in_cacheE:
  assumes "in_cache a"
  obtains d where "a = DISKMAP + d" "d < DISKSIZE"
proof -
  have "a = DISKMAP + (a - DISKMAP)" "a - DISKMAP < DISKSIZE"
    using assms by (auto simp: in_cache_def)
  then show ?thesis by (rule that)
qed

lemma round_down_blk: "in_cache a \<Longrightarrow> a - a mod BLKSIZE = DISKMAP + blk a * BLKSIZE"
proof (elim in_cacheE)
  fix d
  assume a: "a = DISKMAP + d"
  have "a mod BLKSIZE = d mod BLKSIZE"
    unfolding a by (subst mod_add_left_eq [symmetric]) (simp add: fs_consts)
  then show ?thesis
    by (simp add: a blk_def minus_mod_eq_div_mult [symmetric])
qed

lemma blk_bound: "in_cache a \<Longrightarrow> blk a < 69634"
  by (auto elim!: in_cacheE simp: blk_def fs_consts intro!: less_mult_imp_div_less)

lemma blk_addr [simp]: "i < BLKSIZE \<Longrightarrow> blk (DISKMAP + b * BLKSIZE + i) = b"
  by (simp add: blk_def BLKSIZE_def)

lemma blk_addr0 [simp]: "blk (DISKMAP + b * BLKSIZE) = b"
  by (simp add: blk_def BLKSIZE_def)

lemma in_cache_addr [simp]:
  "b < 65536 \<Longrightarrow> i < BLKSIZE \<Longrightarrow> in_cache (DISKMAP + b * BLKSIZE + i)"
  by (simp add: in_cache_def fs_consts)

lemma in_cache_addr0 [simp]: "b < 65536 \<Longrightarrow> in_cache (DISKMAP + b * BLKSIZE)"
  by (simp add: in_cache_def fs_consts)

lemma not_in_cacheD: "\<not> in_cache a \<Longrightarrow> a < DISKMAP \<or> DISKMAP + DISKSIZE \<le> a"
  by (auto simp: in_cache_def)

section \<open>What a fault and a flush do\<close>

definition load_block :: "nat \<Rightarrow> fs \<Rightarrow> fs" where
  "load_block b s =
     s\<lparr>fmapped := (fmapped s)(b := True), fdirty := (fdirty s)(b := False),
       fmem := set_bytes (DISKMAP + b * BLKSIZE)
                 (get_bytes (fdisk s) (b * BLKSIZE) BLKSIZE) (fmem s)\<rparr>"

definition save_block :: "nat \<Rightarrow> fs \<Rightarrow> fs" where
  "save_block b s =
     s\<lparr>fdirty := (fdirty s)(b := False),
       fdisk := set_bytes (b * BLKSIZE)
                  (get_bytes (fmem s) (DISKMAP + b * BLKSIZE) BLKSIZE) (fdisk s)\<rparr>"

lemma set_bytes_twice:
  "length xs = length ys \<Longrightarrow> set_bytes a ys (set_bytes a xs m) = set_bytes a ys m"
  by (rule ext) (simp add: set_bytes_apply)

lemma ide_read_block:
  assumes "ide_read (b * BLKSECTS) dst BLKSECTS s = (r, s')" "0 \<le> r" "b < 69634"
  shows "s' = s\<lparr>fmem := set_bytes dst (get_bytes (fdisk s) (b * BLKSIZE) BLKSIZE) (fmem s)\<rparr>"
  using ide_read_secs_Ok [of "ide_lba (b * BLKSECTS)" dst BLKSECTS s r s'] assms
  by (simp add: ide_read_def ide_lba_eq fs_consts mult.commute [of b])

lemma ide_write_block:
  assumes "ide_write (b * BLKSECTS) src BLKSECTS s = (r, s')" "0 \<le> r" "b < 69634"
  shows "s' = s\<lparr>fdisk := set_bytes (b * BLKSIZE) (get_bytes (fmem s) src BLKSIZE) (fdisk s)\<rparr>"
  using ide_write_secs_Ok [of "ide_lba (b * BLKSECTS)" src BLKSECTS s r s'] assms
  by (simp add: ide_write_def ide_lba_eq fs_consts mult.commute [of b])

lemma bc_pgfault_Some:
  assumes "bc_pgfault a s = Some s'"
  shows "in_cache a \<and> s' = load_block (blk a) s"
proof -
  have cache: "in_cache a"
    using assms by (auto simp: bc_pgfault_def in_cache_def Let_def split: if_splits)
  let ?b = "blk a"
  let ?s1 = "s\<lparr>fmapped := (fmapped s)(?b := True),
               fmem := set_bytes (a - a mod BLKSIZE) (replicate BLKSIZE 0) (fmem s)\<rparr>"
  obtain r s2 where rd: "ide_read (?b * BLKSECTS) (a - a mod BLKSIZE) BLKSECTS ?s1 = (r, s2)"
    by fastforce
  with assms cache have "0 \<le> r" and s': "s' = s2\<lparr>fdirty := (fdirty s2)(?b := False)\<rparr>"
    by (auto simp: bc_pgfault_def in_cache_def Let_def split: if_splits)
  with ide_read_block [OF rd _ blk_bound [OF cache]] cache show ?thesis
    by (simp add: load_block_def round_down_blk set_bytes_twice)
qed

lemma flush_block_Some:
  assumes "flush_block a s = Some s'"
  shows "in_cache a \<and> s' = (if fmapped s (blk a) \<and> fdirty s (blk a) then save_block (blk a) s else s)"
proof -
  have cache: "in_cache a"
    using assms by (auto simp: flush_block_def in_cache_def Let_def split: if_splits)
  show ?thesis
  proof (cases "fmapped s (blk a) \<and> fdirty s (blk a)")
    case False
    then show ?thesis
      using assms cache
      by (auto simp: flush_block_def in_cache_def va_is_mapped_def va_is_dirty_def Let_def)
  next
    case True
    obtain r s1 where wr: "ide_write (blk a * BLKSECTS) (a - a mod BLKSIZE) BLKSECTS s = (r, s1)"
      by fastforce
    with assms cache True have "0 \<le> r" and s': "s' = s1\<lparr>fdirty := (fdirty s1)(blk a := False)\<rparr>"
      by (auto simp: flush_block_def in_cache_def va_is_mapped_def va_is_dirty_def Let_def split: if_splits)
    with ide_write_block [OF wr _ blk_bound [OF cache]] cache True show ?thesis
      by (simp add: save_block_def round_down_blk)
  qed
qed


section \<open>The cache is transparent\<close>

text \<open>
  \<open>view s o\<close> is byte \<open>o\<close> of the disk as the server sees it.  The invariant: a dirty
  block is mapped, and a mapped block that is not dirty agrees with the disk.
\<close>

definition view :: "fs \<Rightarrow> nat \<Rightarrow> u8" where
  "view s off = (if fmapped s (off div BLKSIZE) then fmem s (DISKMAP + off) else fdisk s off)"

definition cache_inv :: "fs \<Rightarrow> bool" where
  "cache_inv s \<longleftrightarrow>
     (\<forall>b. fdirty s b \<longrightarrow> fmapped s b) \<and>
     (\<forall>off. fmapped s (off div BLKSIZE) \<longrightarrow> \<not> fdirty s (off div BLKSIZE) \<longrightarrow>
        fmem s (DISKMAP + off) = fdisk s off)"

definition hw_ok :: "fs \<Rightarrow> bool" where
  "hw_ok s \<longleftrightarrow> (\<forall>n. pg_ok s n) \<and> (\<forall>n. ide_ok s n)"

lemma off_in_block: "(b * BLKSIZE \<le> off \<and> off < b * BLKSIZE + BLKSIZE) = (off div BLKSIZE = b)"
proof
  assume "b * BLKSIZE \<le> off \<and> off < b * BLKSIZE + BLKSIZE"
  then show "off div BLKSIZE = b" by (simp add: fs_consts div_nat_eqI)
next
  assume b: "off div BLKSIZE = b"
  have "off = b * BLKSIZE + off mod BLKSIZE" "off mod BLKSIZE < BLKSIZE"
    using b by (auto simp: fs_consts)
  then show "b * BLKSIZE \<le> off \<and> off < b * BLKSIZE + BLKSIZE" by linarith
qed

lemma load_block_mem:
  "fmem (load_block b s) (DISKMAP + off) = (if off div BLKSIZE = b then fdisk s off else fmem s (DISKMAP + off))"
proof (cases "off div BLKSIZE = b")
  case True
  then have "b * BLKSIZE \<le> off" "off < b * BLKSIZE + BLKSIZE" "off - b * BLKSIZE < BLKSIZE"
    using off_in_block [of b off] by linarith+
  with True show ?thesis by (simp add: load_block_def set_bytes_apply)
next
  case False
  then show ?thesis using off_in_block [of b off] by (auto simp: load_block_def set_bytes_apply)
qed

lemma save_block_disk:
  "fdisk (save_block b s) off = (if off div BLKSIZE = b then fmem s (DISKMAP + off) else fdisk s off)"
proof (cases "off div BLKSIZE = b")
  case True
  then have "b * BLKSIZE \<le> off" "off < b * BLKSIZE + BLKSIZE" "off - b * BLKSIZE < BLKSIZE"
    using off_in_block [of b off] by linarith+
  with True show ?thesis by (simp add: save_block_def set_bytes_apply)
next
  case False
  then show ?thesis using off_in_block [of b off] by (auto simp: save_block_def set_bytes_apply)
qed

lemma load_block_fields [simp]:
  "fmapped (load_block b s) = (fmapped s)(b := True)" "fdirty (load_block b s) = (fdirty s)(b := False)"
  "fsuper (load_block b s) = fsuper s" "finodes (load_block b s) = finodes s"
  "fdisk (load_block b s) = fdisk s" "pg_ok (load_block b s) = pg_ok s" "ide_ok (load_block b s) = ide_ok s"
  by (simp_all add: load_block_def)

lemma save_block_fields [simp]:
  "fmapped (save_block b s) = fmapped s" "fdirty (save_block b s) = (fdirty s)(b := False)"
  "fsuper (save_block b s) = fsuper s" "finodes (save_block b s) = finodes s"
  "fmem (save_block b s) = fmem s" "pg_ok (save_block b s) = pg_ok s" "ide_ok (save_block b s) = ide_ok s"
  by (simp_all add: save_block_def)

lemma view_load_block: "\<not> fmapped s b \<Longrightarrow> view (load_block b s) = view s"
  by (rule ext) (simp add: view_def load_block_mem)

lemma view_save_block: "fmapped s b \<Longrightarrow> view (save_block b s) = view s"
  by (rule ext) (auto simp: view_def save_block_disk)

lemma cache_inv_load_block: "cache_inv s \<Longrightarrow> cache_inv (load_block b s)"
  by (auto simp: cache_inv_def load_block_mem)

lemma cache_inv_save_block: "cache_inv s \<Longrightarrow> cache_inv (save_block b s)"
  by (auto simp: cache_inv_def save_block_disk)

lemma touch_Some:
  assumes "touch a s = Some s'"
  shows "present a s' \<and> (s' = s \<or> \<not> fmapped s (blk a) \<and> s' = load_block (blk a) s)"
  using assms bc_pgfault_Some [of a s s']
  by (auto simp: touch_def present_def va_is_mapped_def split: if_splits)

lemma touch_view: "touch a s = Some s' \<Longrightarrow> view s' = view s"
  using touch_Some view_load_block by metis

lemma touch_cache_inv: "cache_inv s \<Longrightarrow> touch a s = Some s' \<Longrightarrow> cache_inv s'"
  using touch_Some cache_inv_load_block by metis

lemma flush_view: "flush_block a s = Some s' \<Longrightarrow> view s' = view s"
  using flush_block_Some view_save_block by metis

lemma flush_cache_inv: "cache_inv s \<Longrightarrow> flush_block a s = Some s' \<Longrightarrow> cache_inv s'"
  using flush_block_Some cache_inv_save_block by metis

lemma flush_clean: "cache_inv s \<Longrightarrow> flush_block a s = Some s' \<Longrightarrow> \<not> fdirty s' (blk a)"
  using flush_block_Some [of a s s'] by (auto simp: cache_inv_def split: if_splits)

lemma clean_on_disk: "cache_inv s \<Longrightarrow> \<not> fdirty s (off div BLKSIZE) \<Longrightarrow> fdisk s off = view s off"
  by (simp add: cache_inv_def view_def)

section \<open>The write-back store interface\<close>

text \<open>
  What a client of the cache relies on: faults and flushes do not change what it sees, a flush
  cleans its block, and a clean block is on the disk.
\<close>

locale write_back_store =
  fixes vw :: "'s \<Rightarrow> nat \<Rightarrow> 'b" and dk :: "'s \<Rightarrow> nat \<Rightarrow> 'b"
    and invar :: "'s \<Rightarrow> bool" and isdirty :: "'s \<Rightarrow> nat \<Rightarrow> bool"
    and block_of :: "nat \<Rightarrow> nat" and bsize :: nat
    and fault :: "nat \<Rightarrow> 's \<Rightarrow> 's option" and flush :: "nat \<Rightarrow> 's \<Rightarrow> 's option"
  assumes fault_vw: "fault a s = Some s' \<Longrightarrow> vw s' = vw s"
    and fault_invar: "invar s \<Longrightarrow> fault a s = Some s' \<Longrightarrow> invar s'"
    and flush_vw: "flush a s = Some s' \<Longrightarrow> vw s' = vw s"
    and flush_invar: "invar s \<Longrightarrow> flush a s = Some s' \<Longrightarrow> invar s'"
    and flush_cleans: "invar s \<Longrightarrow> flush a s = Some s' \<Longrightarrow> \<not> isdirty s' (block_of a)"
    and flush_keeps_clean: "flush a s = Some s' \<Longrightarrow> \<not> isdirty s b \<Longrightarrow> \<not> isdirty s' b"
    and clean_dk: "invar s \<Longrightarrow> \<not> isdirty s (off div bsize) \<Longrightarrow> dk s off = vw s off"
begin

fun flush_all :: "nat list \<Rightarrow> 's \<Rightarrow> 's option" where
  "flush_all [] s = Some s"
| "flush_all (a # as) s = do { s \<leftarrow> flush a s; flush_all as s }"

lemma flush_all_vw: "flush_all as s = Some s' \<Longrightarrow> vw s' = vw s"
  by (induction as s rule: flush_all.induct) (auto simp: bind_Some_iff dest: flush_vw)

lemma flush_all_invar: "invar s \<Longrightarrow> flush_all as s = Some s' \<Longrightarrow> invar s'"
  by (induction as s rule: flush_all.induct) (auto simp: bind_Some_iff dest: flush_invar)

lemma flush_all_keeps_clean: "flush_all as s = Some s' \<Longrightarrow> \<not> isdirty s b \<Longrightarrow> \<not> isdirty s' b"
  by (induction as s rule: flush_all.induct) (auto simp: bind_Some_iff dest: flush_keeps_clean)

lemma flush_all_clean:
  "invar s \<Longrightarrow> flush_all as s = Some s' \<Longrightarrow> a \<in> set as \<Longrightarrow> \<not> isdirty s' (block_of a)"
proof (induction as s rule: flush_all.induct)
  case (2 x as s)
  then obtain s1 where s1: "flush x s = Some s1" "flush_all as s1 = Some s'"
    by (auto simp: bind_Some_iff)
  from 2(2) s1(1) have "invar s1" "\<not> isdirty s1 (block_of x)"
    by (auto dest: flush_invar flush_cleans)
  with 2 s1 flush_all_keeps_clean [OF s1(2)] show ?case by auto
qed simp

lemma flush_all_durable:
  assumes "invar s" "flush_all as s = Some s'" "a \<in> set as" "off div bsize = block_of a"
  shows "dk s' off = vw s off"
proof -
  have "invar s'" "\<not> isdirty s' (off div bsize)" "vw s' = vw s"
    using flush_all_invar [OF assms(1,2)] flush_all_clean [OF assms(1-3)] flush_all_vw [OF assms(2)]
      assms(4) by auto
  then show ?thesis using clean_dk by metis
qed

end

interpretation bc: write_back_store view fdisk cache_inv fdirty blk BLKSIZE touch flush_block
proof unfold_locales
  fix a s s' b
  assume "flush_block a s = Some s'" "\<not> fdirty s b"
  then show "\<not> fdirty s' b"
    using flush_block_Some [of a s s'] by (auto split: if_splits)
qed (auto intro: touch_view touch_cache_inv flush_view flush_cache_inv flush_clean clean_on_disk
       dest: flush_clean)

end
