(* ===== verification/Bitmap.thy ===== *)
theory Bitmap
  imports BlockCache
begin

text \<open>
  The superblock and its two bitmaps (\<open>damnfs.c\<close>, first part): blocks and inodes are
  allocated first-fit, and the changed superblock is flushed at once.  The bitmap words are
  reached through the pointer \<open>super\<close>, so every access goes through the block cache.

  Abstractly each bitmap is the set of its free numbers; allocation takes the least one.  The
  laws are the locale \<open>first_fit\<close>, interpreted for blocks and for inodes.
\<close>

section \<open>Operations\<close>

definition DAMN_MAGIC :: u32 where "DAMN_MAGIC = 0x89ABCDEF"

definition check_super :: "fs \<Rightarrow> fs option" where
  "check_super s = do {
     (m, s) \<leftarrow> rd32 (fsuper s + SB_magic) s;
     if m \<noteq> DAMN_MAGIC then None
     else do {
       (n, s) \<leftarrow> rd16 (fsuper s + SB_blk_num) s;
       if DISKSIZE div BLKSIZE < unat n then None else Some s
     }
   }"

definition block_is_free :: "nat \<Rightarrow> fs \<Rightarrow> (bool \<times> fs) option" where
  "block_is_free blockno s =
     (if fsuper s = 0 then Some (False, s)
      else do {
        (n, s) \<leftarrow> rd16 (fsuper s + SB_blk_num) s;
        if unat n \<le> blockno then Some (False, s)
        else do {
          (w, s) \<leftarrow> rd32 (fsuper s + SB_blk_ocp + 4 * (blockno div 32)) s;
          Some (w AND push_bit (blockno mod 32) 1 = 0, s)
        }
      })"

definition free_block :: "nat \<Rightarrow> fs \<Rightarrow> fs option" where
  "free_block blockno s =
     (if blockno = 0 then None
      else do {
        let a = fsuper s + SB_blk_ocp + 4 * (blockno div 32);
        (w, s) \<leftarrow> rd32 a s;
        s \<leftarrow> wr32 a (w AND NOT (push_bit (blockno mod 32) 1)) s;
        flush_block (fsuper s) s
      })"

definition inode_is_free :: "nat \<Rightarrow> fs \<Rightarrow> (bool \<times> fs) option" where
  "inode_is_free inodeno s =
     (if fsuper s = 0 then Some (False, s)
      else do {
        (n, s) \<leftarrow> rd16 (fsuper s + SB_in_num) s;
        if unat n \<le> inodeno then Some (False, s)
        else do {
          (w, s) \<leftarrow> rd32 (fsuper s + SB_in_ocp + 4 * (inodeno div 32)) s;
          Some (w AND push_bit (inodeno mod 32) 1 = 0, s)
        }
      })"

definition free_inode :: "nat \<Rightarrow> fs \<Rightarrow> fs option" where
  "free_inode inodeno s =
     (if inodeno = 0 then None
      else do {
        let a = fsuper s + SB_in_ocp + 4 * (inodeno div 32);
        (w, s) \<leftarrow> rd32 a s;
        s \<leftarrow> wr32 a (w AND NOT (push_bit (inodeno mod 32) 1)) s;
        flush_block (fsuper s) s
      })"

text \<open>The loops re-read the limit, which is a \<open>uint16_t\<close>, in every iteration.\<close>

function alloc_block_loop :: "nat \<Rightarrow> fs \<Rightarrow> (int \<times> fs) option" where
  "alloc_block_loop blockno s = do {
     (n, s) \<leftarrow> rd16 (fsuper s + SB_blk_num) s;
     if blockno < unat n then do {
       (fr, s) \<leftarrow> block_is_free blockno s;
       if fr then do {
         let a = fsuper s + SB_blk_ocp + 4 * (blockno div 32);
         (w, s) \<leftarrow> rd32 a s;
         s \<leftarrow> wr32 a (w OR push_bit (blockno mod 32) 1) s;
         s \<leftarrow> flush_block (fsuper s) s;
         Some (int blockno, s)
       }
       else alloc_block_loop (Suc blockno) s
     }
     else Some (- E_NO_DISK, s)
   }"
  by pat_completeness auto
termination
  by (relation "measure (\<lambda>(blockno, s). 65536 - blockno)")
     (auto intro: less_unat_u16_measure)

definition alloc_block :: "fs \<Rightarrow> (int \<times> fs) option" where
  "alloc_block s = alloc_block_loop 0 s"

function alloc_inode_loop :: "nat \<Rightarrow> fs \<Rightarrow> (int \<times> fs) option" where
  "alloc_inode_loop inodeno s = do {
     (n, s) \<leftarrow> rd16 (fsuper s + SB_in_num) s;
     if inodeno < unat n then do {
       (fr, s) \<leftarrow> inode_is_free inodeno s;
       if fr then do {
         let a = fsuper s + SB_in_ocp + 4 * (inodeno div 32);
         (w, s) \<leftarrow> rd32 a s;
         s \<leftarrow> wr32 a (w OR push_bit (inodeno mod 32) 1) s;
         s \<leftarrow> flush_block (fsuper s) s;
         Some (int inodeno, s)
       }
       else alloc_inode_loop (Suc inodeno) s
     }
     else Some (- E_NO_INODE, s)
   }"
  by pat_completeness auto
termination
  by (relation "measure (\<lambda>(inodeno, s). 65536 - inodeno)")
     (auto intro: less_unat_u16_measure)

definition alloc_inode :: "fs \<Rightarrow> (int \<times> fs) option" where
  "alloc_inode s = alloc_inode_loop 0 s"

declare alloc_block_loop.simps [simp del] alloc_inode_loop.simps [simp del]

section \<open>The metadata blocks are resident\<close>

text \<open>
  After \<open>fs_init\<close> the superblock and the inode block are mapped at the first two pages of
  the disk map, and no page is ever unmapped again.
\<close>

definition meta_ok :: "fs \<Rightarrow> bool" where
  "meta_ok s \<longleftrightarrow> fsuper s = DISKMAP \<and> finodes s = DISKMAP + BLKSIZE \<and> fmapped s 0 \<and> fmapped s 1"

lemma blk_meta: "DISKMAP \<le> a \<Longrightarrow> a < DISKMAP + 8192 \<Longrightarrow> blk a = 0 \<or> blk a = 1"
  by (auto simp: blk_def fs_consts)

lemma in_cache_meta: "DISKMAP \<le> a \<Longrightarrow> a < DISKMAP + 8192 \<Longrightarrow> in_cache a"
  by (simp add: in_cache_def fs_consts)

lemma present_meta: "meta_ok s \<Longrightarrow> DISKMAP \<le> a \<Longrightarrow> a < DISKMAP + 8192 \<Longrightarrow> present a s"
  using blk_meta [of a] by (auto simp: meta_ok_def present_def va_is_mapped_def in_cache_meta)

lemma rd_present:
  assumes "present a s"
  shows "rd8 a s = Some (fmem s a, s)" "rd16 a s = Some (get16 (fmem s) a, s)"
    "rd32 a s = Some (get32 (fmem s) a, s)" "rd_bytes a n s = Some (get_bytes (fmem s) a n, s)"
  using assms by (simp_all add: rd8_def rd16_def rd32_def rd_bytes_def touch_def)

lemma wr_present:
  assumes "present a s"
  shows "wr8 a v s = Some (store a (\<lambda>m. m(a := v)) s)" "wr16 a x s = Some (store a (set16 a x) s)"
    "wr32 a y s = Some (store a (set32 a y) s)" "wr_bytes a bs s = Some (store a (set_bytes a bs) s)"
  using assms by (simp_all add: wr8_def wr16_def wr32_def wr_bytes_def touch_def)

lemma store_fields [simp]:
  "fmem (store a f s) = f (fmem s)" "fmapped (store a f s) = fmapped s"
  "fsuper (store a f s) = fsuper s" "finodes (store a f s) = finodes s"
  "fdisk (store a f s) = fdisk s" "pg_ok (store a f s) = pg_ok s" "ide_ok (store a f s) = ide_ok s"
  by (simp_all add: store_def mark_dirty_def)

lemma store_dirty [simp]:
  "fdirty (store a f s) = (if in_cache a then (fdirty s)(blk a := True) else fdirty s)"
  by (simp add: store_def mark_dirty_def)

lemma present_store [simp]: "present x (store a f s) = present x s"
  by (simp add: present_def va_is_mapped_def)

lemma meta_ok_store [simp]: "meta_ok (store a f s) = meta_ok s"
  by (simp add: meta_ok_def)

lemma hw_ok_store [simp]: "hw_ok (store a f s) = hw_ok s"
  by (simp add: hw_ok_def)

lemma meta_ok_save [simp]: "meta_ok (save_block b s) = meta_ok s"
  by (simp add: meta_ok_def)

lemma hw_ok_save [simp]: "hw_ok (save_block b s) = hw_ok s"
  by (simp add: hw_ok_def)

lemma hw_ok_load [simp]: "hw_ok (load_block b s) = hw_ok s"
  by (simp add: hw_ok_def)

lemma present_save [simp]: "present x (save_block b s) = present x s"
  by (simp add: present_def va_is_mapped_def)

text \<open>With a drive that works, a flush of an address of the disk map always succeeds.\<close>

definition flushed :: "nat \<Rightarrow> fs \<Rightarrow> fs" where
  "flushed b s = (if fmapped s b \<and> fdirty s b then save_block b s else s)"

lemma flushed_fields [simp]:
  "fmapped (flushed b s) = fmapped s" "fsuper (flushed b s) = fsuper s"
  "finodes (flushed b s) = finodes s" "fmem (flushed b s) = fmem s"
  "pg_ok (flushed b s) = pg_ok s" "ide_ok (flushed b s) = ide_ok s"
  "meta_ok (flushed b s) = meta_ok s" "hw_ok (flushed b s) = hw_ok s"
  "present x (flushed b s) = present x s"
  by (simp_all add: flushed_def)

lemma flush_block_hw:
  assumes "hw_ok s" "in_cache a"
  shows "flush_block a s = Some (flushed (blk a) s)"
proof (cases "fmapped s (blk a) \<and> fdirty s (blk a)")
  case True
  obtain r s1 where wr: "ide_write (blk a * BLKSECTS) (a - a mod BLKSIZE) BLKSECTS s = (r, s1)"
    by fastforce
  then have "r = 0"
    using ide_write_secs_ret [of s "ide_lba (blk a * BLKSECTS)" "a - a mod BLKSIZE" BLKSECTS] assms(1)
    by (simp add: ide_write_def hw_ok_def)
  then have "flush_block a s = Some (s1\<lparr>fdirty := (fdirty s1)(blk a := False)\<rparr>)"
    using wr True assms(2)
    by (auto simp: flush_block_def va_is_mapped_def va_is_dirty_def in_cache_def Let_def)
  then show ?thesis
    using flush_block_Some [of a s] True by (simp add: flushed_def)
next
  case False
  then show ?thesis
    using assms(2)
    by (auto simp: flush_block_def va_is_mapped_def va_is_dirty_def in_cache_def flushed_def Let_def)
qed


section \<open>Bitmaps as sets\<close>

definition bm_addr :: "nat \<Rightarrow> nat \<Rightarrow> nat" where
  "bm_addr base n = DISKMAP + base + 4 * (n div 32)"

definition bm_bit :: "bytemem \<Rightarrow> nat \<Rightarrow> nat \<Rightarrow> bool" where
  "bm_bit m base n = bit (get32 m (bm_addr base n)) (n mod 32)"

definition bm_set :: "nat \<Rightarrow> nat \<Rightarrow> bytemem \<Rightarrow> bytemem" where
  "bm_set base n m = set32 (bm_addr base n) (get32 m (bm_addr base n) OR push_bit (n mod 32) 1) m"

definition bm_clear :: "nat \<Rightarrow> nat \<Rightarrow> bytemem \<Rightarrow> bytemem" where
  "bm_clear base n m =
     set32 (bm_addr base n) (get32 m (bm_addr base n) AND NOT (push_bit (n mod 32) 1)) m"

lemma bm_addr_cases:
  "bm_addr base n = bm_addr base k \<and> n div 32 = k div 32
   \<or> bm_addr base n + 4 \<le> bm_addr base k \<or> bm_addr base k + 4 \<le> bm_addr base n"
  by (auto simp: bm_addr_def)

lemma same_bit_index: "n div 32 = k div 32 \<Longrightarrow> (n mod 32 = k mod 32) = (n = (k :: nat))"
  by (metis div_mult_mod_eq)

lemma bm_bit_set: "bm_bit (bm_set base n m) base k = (bm_bit m base k \<or> k = n)"
  using bm_addr_cases [of base n k]
proof (elim disjE conjE)
  assume "bm_addr base n = bm_addr base k" "n div 32 = k div 32"
  then show ?thesis
    using same_bit_index [of k n]
    by (simp add: bm_bit_def bm_set_def get32_set32_same bit_or_push_1)
qed (auto simp: bm_bit_def bm_set_def get32_set32_other)

lemma bm_bit_clear: "bm_bit (bm_clear base n m) base k = (bm_bit m base k \<and> k \<noteq> n)"
  using bm_addr_cases [of base n k]
proof (elim disjE conjE)
  assume "bm_addr base n = bm_addr base k" "n div 32 = k div 32"
  then show ?thesis
    using same_bit_index [of k n]
    by (simp add: bm_bit_def bm_clear_def get32_set32_same bit_and_not_push_1)
qed (auto simp: bm_bit_def bm_clear_def get32_set32_other)

text \<open>Clearing a bit that was clear before it was set restores the memory, not only the set.\<close>

lemma bm_clear_set: "\<not> bm_bit m base n \<Longrightarrow> bm_clear base n (bm_set base n m) = m"
proof -
  assume n: "\<not> bm_bit m base n"
  let ?a = "bm_addr base n" and ?w = "get32 m (bm_addr base n)"
  have "(?w OR 2 ^ (n mod 32)) AND NOT (2 ^ (n mod 32)) = ?w"
    using n by (intro bit_word_eqI) (auto simp: bit_or_push_1 bit_and_not_push_1 bm_bit_def)
  then have "bm_clear base n (bm_set base n m) = set32 ?a ?w (set32 ?a (?w OR 2 ^ (n mod 32)) m)"
    by (simp add: bm_clear_def bm_set_def get32_set32_same)
  also have "\<dots> = set32 ?a ?w m" by (rule set32_set32)
  also have "\<dots> = m" by (rule set32_get32)
  finally show ?thesis .
qed

lemma bm_outside:
  assumes "x < bm_addr base n \<or> bm_addr base n + 4 \<le> x"
  shows "bm_set base n m x = m x" "bm_clear base n m x = m x"
  using assms by (simp_all add: bm_set_def bm_clear_def set32_other)

lemma bm_get16_outside:
  assumes "x + 2 \<le> bm_addr base n \<or> bm_addr base n + 4 \<le> x"
  shows "get16 (bm_set base n m) x = get16 m x" "get16 (bm_clear base n m) x = get16 m x"
  using assms by (auto simp: bm_set_def bm_clear_def get16_set32_other)

lemma bm_other_map:
  assumes "bm_addr base' k + 4 \<le> bm_addr base n \<or> bm_addr base n + 4 \<le> bm_addr base' k"
  shows "bm_bit (bm_set base n m) base' k = bm_bit m base' k"
    "bm_bit (bm_clear base n m) base' k = bm_bit m base' k"
  using assms by (auto simp: bm_bit_def bm_set_def bm_clear_def get32_set32_other)

section \<open>Free blocks and free inodes\<close>

definition blk_num :: "fs \<Rightarrow> nat" where "blk_num s = unat (get16 (fmem s) (DISKMAP + SB_blk_num))"
definition in_num :: "fs \<Rightarrow> nat" where "in_num s = unat (get16 (fmem s) (DISKMAP + SB_in_num))"

definition blk_taken :: "fs \<Rightarrow> nat \<Rightarrow> bool" where "blk_taken s b = bm_bit (fmem s) SB_blk_ocp b"
definition ino_taken :: "fs \<Rightarrow> nat \<Rightarrow> bool" where "ino_taken s i = bm_bit (fmem s) SB_in_ocp i"

definition free_blocks :: "fs \<Rightarrow> nat set" where "free_blocks s = {b. b < blk_num s \<and> \<not> blk_taken s b}"
definition free_inodes :: "fs \<Rightarrow> nat set" where "free_inodes s = {i. i < in_num s \<and> \<not> ino_taken s i}"

text \<open>The geometry of the image: both bitmaps fit the arrays of the superblock.\<close>

definition geom_ok :: "fs \<Rightarrow> bool" where
  "geom_ok s \<longleftrightarrow> meta_ok s \<and> hw_ok s \<and> blk_num s \<le> 4096 \<and> in_num s \<le> 128"

lemma finite_free_blocks [simp]: "finite (free_blocks s)"
  by (simp add: free_blocks_def)

lemma finite_free_inodes [simp]: "finite (free_inodes s)"
  by (simp add: free_inodes_def)

lemma bm_addr_blk: "b < 4096 \<Longrightarrow> DISKMAP + 16 \<le> bm_addr SB_blk_ocp b \<and> bm_addr SB_blk_ocp b + 4 \<le> DISKMAP + 528"
  by (auto simp: bm_addr_def fs_consts dest!: less_mult_imp_div_less [of b 128 32, simplified])

lemma bm_addr_ino: "i < 128 \<Longrightarrow> DISKMAP + 528 \<le> bm_addr SB_in_ocp i \<and> bm_addr SB_in_ocp i + 4 \<le> DISKMAP + 544"
  by (auto simp: bm_addr_def fs_consts dest!: less_mult_imp_div_less [of i 4 32, simplified])

lemma present_bm:
  assumes "meta_ok s"
  shows "b < 4096 \<Longrightarrow> present (bm_addr SB_blk_ocp b) s" "i < 128 \<Longrightarrow> present (bm_addr SB_in_ocp i) s"
  using present_meta [OF assms] bm_addr_blk [of b] bm_addr_ino [of i] by auto

lemma present_sb:
  assumes "meta_ok s"
  shows "present (DISKMAP + SB_blk_num) s" "present (DISKMAP + SB_in_num) s"
  using present_meta [OF assms] by (simp_all add: fs_consts)

lemma blk_bm:
  shows "b < 4096 \<Longrightarrow> in_cache (bm_addr SB_blk_ocp b) \<and> blk (bm_addr SB_blk_ocp b) = 0"
    "i < 128 \<Longrightarrow> in_cache (bm_addr SB_in_ocp i) \<and> blk (bm_addr SB_in_ocp i) = 0"
  using bm_addr_blk [of b] bm_addr_ino [of i]
  by (auto simp: in_cache_def blk_def fs_consts)

lemma in_cache_super [simp]: "in_cache DISKMAP" "blk DISKMAP = 0"
  by (simp_all add: in_cache_def blk_def fs_consts)

text \<open>The effect of a bitmap update: the word is stored and the superblock written back.\<close>

definition bm_commit :: "(bytemem \<Rightarrow> bytemem) \<Rightarrow> fs \<Rightarrow> fs" where
  "bm_commit f s = flushed 0 (store DISKMAP f s)"

lemma bm_commit_fields [simp]:
  "fmem (bm_commit f s) = f (fmem s)" "fmapped (bm_commit f s) = fmapped s"
  "fsuper (bm_commit f s) = fsuper s" "finodes (bm_commit f s) = finodes s"
  "pg_ok (bm_commit f s) = pg_ok s" "ide_ok (bm_commit f s) = ide_ok s"
  "meta_ok (bm_commit f s) = meta_ok s" "hw_ok (bm_commit f s) = hw_ok s"
  by (simp_all add: bm_commit_def)

lemma store_block0: "in_cache a \<Longrightarrow> blk a = 0 \<Longrightarrow> store a f s = store DISKMAP f s"
  by (simp add: store_def mark_dirty_def)


section \<open>The operations on a resident superblock\<close>

lemma DISKMAP_pos [simp]: "0 < DISKMAP" "DISKMAP \<noteq> 0"
  by (simp_all add: DISKMAP_def)

lemma meta_ok_super: "meta_ok s \<Longrightarrow> fsuper s = DISKMAP"
  by (simp add: meta_ok_def)

lemma rd_sb:
  assumes "meta_ok s"
  shows "rd16 (DISKMAP + SB_blk_num) s = Some (get16 (fmem s) (DISKMAP + SB_blk_num), s)"
    "rd16 (DISKMAP + SB_in_num) s = Some (get16 (fmem s) (DISKMAP + SB_in_num), s)"
  using rd_present(2) [OF present_sb(1) [OF assms]] rd_present(2) [OF present_sb(2) [OF assms]]
  by simp_all

text \<open>The read-modify-write of one bitmap word, followed by the flush of the superblock.\<close>

lemma bm_update:
  assumes "meta_ok s" "hw_ok s" "present a s" "in_cache a \<and> blk a = 0"
  shows "rd32 a s = Some (get32 (fmem s) a, s)"
    "wr32 a w s = Some (store DISKMAP (set32 a w) s)"
    "flush_block DISKMAP (store DISKMAP f s) = Some (bm_commit f s)"
proof -
  show "rd32 a s = Some (get32 (fmem s) a, s)"
    using assms by (simp add: rd_present)
  show "wr32 a w s = Some (store DISKMAP (set32 a w) s)"
    using assms store_block0 [of a "set32 a w" s] by (simp add: wr_present)
  show "flush_block DISKMAP (store DISKMAP f s) = Some (bm_commit f s)"
    using flush_block_hw [of "store DISKMAP f s" DISKMAP] assms by (simp add: bm_commit_def)
qed

lemma bm_commit_at: "bm_commit (\<lambda>m. set32 a (g (get32 m a)) m) s = bm_commit (set32 a (g (get32 (fmem s) a))) s"
  by (simp add: bm_commit_def store_def)

lemma bm_commit_set:
  "bm_commit (set32 (bm_addr base n) (get32 (fmem s) (bm_addr base n) OR push_bit (n mod 32) 1)) s
   = bm_commit (bm_set base n) s"
  unfolding bm_set_def [abs_def] by (rule bm_commit_at [symmetric])

lemma bm_commit_clear:
  "bm_commit (set32 (bm_addr base n) (get32 (fmem s) (bm_addr base n) AND NOT (push_bit (n mod 32) 1))) s
   = bm_commit (bm_clear base n) s"
  unfolding bm_clear_def [abs_def] by (rule bm_commit_at [symmetric])

lemma bm_addr_fold: "DISKMAP + base + 4 * (n div 32) = bm_addr base n"
  by (simp add: bm_addr_def)

lemma block_is_free_eq:
  assumes "meta_ok s" "blk_num s \<le> 4096"
  shows "block_is_free b s = Some (b \<in> free_blocks s, s)"
proof (cases "b < blk_num s")
  case True
  then have b: "b < 4096" using assms by simp
  show ?thesis
    using True
    by (simp add: block_is_free_def meta_ok_super assms rd_sb bm_addr_fold
        rd_present(3) [OF present_bm(1) [OF assms(1) b]] free_blocks_def blk_taken_def bm_bit_def
        blk_num_def and_push_1_eq_0)
next
  case False
  then show ?thesis
    by (simp add: block_is_free_def meta_ok_super assms rd_sb free_blocks_def blk_num_def)
qed

lemma inode_is_free_eq:
  assumes "meta_ok s" "in_num s \<le> 128"
  shows "inode_is_free i s = Some (i \<in> free_inodes s, s)"
proof (cases "i < in_num s")
  case True
  then have i: "i < 128" using assms by simp
  show ?thesis
    using True
    by (simp add: inode_is_free_def meta_ok_super assms rd_sb bm_addr_fold
        rd_present(3) [OF present_bm(2) [OF assms(1) i]] free_inodes_def ino_taken_def bm_bit_def
        in_num_def and_push_1_eq_0)
next
  case False
  then show ?thesis
    by (simp add: inode_is_free_def meta_ok_super assms rd_sb free_inodes_def in_num_def)
qed

lemma alloc_block_step:
  assumes "geom_ok s"
  shows "alloc_block_loop b s =
    (if b < blk_num s then
       if b \<in> free_blocks s then Some (int b, bm_commit (bm_set SB_blk_ocp b) s)
       else alloc_block_loop (Suc b) s
     else Some (- E_NO_DISK, s))"
proof -
  have m: "meta_ok s" "hw_ok s" "blk_num s \<le> 4096"
    using assms by (auto simp: geom_ok_def)
  note head = alloc_block_loop.simps [of b] meta_ok_super [OF m(1)] rd_sb [OF m(1)]
    blk_num_def [symmetric] block_is_free_eq [OF m(1,3)] bm_addr_fold
  show ?thesis
  proof (cases "b < blk_num s")
    case True
    then have b: "b < 4096" using m(3) by simp
    note up = bm_update [OF m(1,2) present_bm(1) [OF m(1) b] blk_bm(1) [OF b]]
    show ?thesis
      by (simp add: head True up bm_commit_set del: push_bit_of_1)
  qed (simp add: head)
qed

lemma alloc_inode_step:
  assumes "geom_ok s"
  shows "alloc_inode_loop i s =
    (if i < in_num s then
       if i \<in> free_inodes s then Some (int i, bm_commit (bm_set SB_in_ocp i) s)
       else alloc_inode_loop (Suc i) s
     else Some (- E_NO_INODE, s))"
proof -
  have m: "meta_ok s" "hw_ok s" "in_num s \<le> 128"
    using assms by (auto simp: geom_ok_def)
  note head = alloc_inode_loop.simps [of i] meta_ok_super [OF m(1)] rd_sb [OF m(1)]
    in_num_def [symmetric] inode_is_free_eq [OF m(1,3)] bm_addr_fold
  show ?thesis
  proof (cases "i < in_num s")
    case True
    then have i: "i < 128" using m(3) by simp
    note up = bm_update [OF m(1,2) present_bm(2) [OF m(1) i] blk_bm(2) [OF i]]
    show ?thesis
      by (simp add: head True up bm_commit_set del: push_bit_of_1)
  qed (simp add: head)
qed

lemma free_block_eq:
  assumes "meta_ok s" "hw_ok s" "b \<noteq> 0" "b < 4096"
  shows "free_block b s = Some (bm_commit (bm_clear SB_blk_ocp b) s)"
  using assms(3)
  by (simp add: free_block_def meta_ok_super [OF assms(1)] bm_addr_fold bm_commit_clear
      bm_update [OF assms(1,2) present_bm(1) [OF assms(1,4)] blk_bm(1) [OF assms(4)]]
      del: push_bit_of_1)

lemma free_inode_eq:
  assumes "meta_ok s" "hw_ok s" "i \<noteq> 0" "i < 128"
  shows "free_inode i s = Some (bm_commit (bm_clear SB_in_ocp i) s)"
  using assms(3)
  by (simp add: free_inode_def meta_ok_super [OF assms(1)] bm_addr_fold bm_commit_clear
      bm_update [OF assms(1,2) present_bm(2) [OF assms(1,4)] blk_bm(2) [OF assms(4)]]
      del: push_bit_of_1)

text \<open>A scan that skips taken numbers and takes the first free one.\<close>

lemma first_fit_scan:
  fixes F :: "nat set"
  assumes fin: "finite F" and bound: "\<And>x. x \<in> F \<Longrightarrow> x < n"
    and step: "\<And>b. loop b = (if b < n then if b \<in> F then hit b else loop (Suc b) else miss)"
  shows "loop 0 = (if F = {} then miss else hit (Min F))"
proof (cases "F = {}")
  case True
  have "loop b = miss" if "b \<le> n" for b
    using that
  proof (induction rule: inc_induct)
    case base
    show ?case by (simp add: assms(3) [of n])
  next
    case (step k)
    then show ?case by (simp add: assms(3) [of k] True)
  qed
  from this [of 0] True show ?thesis by simp
next
  case False
  then have min: "Min F \<in> F" "Min F < n" using fin bound by auto
  have "loop b = hit (Min F)" if "b \<le> Min F" for b
    using that
  proof (induction rule: inc_induct)
    case base
    show ?case using min by (simp add: step [of "Min F"])
  next
    case (step k)
    then have "k < n" "k \<notin> F" using min fin by (auto simp: not_le [symmetric])
    with step.IH show ?case by (simp add: assms(3) [of k])
  qed
  with False show ?thesis by simp
qed

lemma alloc_block_eq:
  assumes "geom_ok s"
  shows "alloc_block s =
    (if free_blocks s = {} then Some (- E_NO_DISK, s)
     else Some (int (Min (free_blocks s)), bm_commit (bm_set SB_blk_ocp (Min (free_blocks s))) s))"
  unfolding alloc_block_def
  by (rule first_fit_scan [where n = "blk_num s" and loop = "\<lambda>b. alloc_block_loop b s"
        and hit = "\<lambda>b. Some (int b, bm_commit (bm_set SB_blk_ocp b) s)"])
     (use alloc_block_step [OF assms] in \<open>auto simp: free_blocks_def\<close>)

lemma alloc_inode_eq:
  assumes "geom_ok s"
  shows "alloc_inode s =
    (if free_inodes s = {} then Some (- E_NO_INODE, s)
     else Some (int (Min (free_inodes s)), bm_commit (bm_set SB_in_ocp (Min (free_inodes s))) s))"
  unfolding alloc_inode_def
  by (rule first_fit_scan [where n = "in_num s" and loop = "\<lambda>i. alloc_inode_loop i s"
        and hit = "\<lambda>i. Some (int i, bm_commit (bm_set SB_in_ocp i) s)"])
     (use alloc_inode_step [OF assms] in \<open>auto simp: free_inodes_def\<close>)


section \<open>The allocator interface\<close>

text \<open>
  What the callers of the bitmaps rely on: allocation takes the least free number and nothing
  else changes hands; freeing gives a number back; an empty set is reported with the allocator's
  error code.
\<close>

locale first_fit =
  fixes alloc :: "'s \<Rightarrow> (int \<times> 's) option" and release :: "nat \<Rightarrow> 's \<Rightarrow> 's option"
    and freeset :: "'s \<Rightarrow> nat set" and lim :: "'s \<Rightarrow> nat" and invar :: "'s \<Rightarrow> bool" and err :: int
  assumes freeset_lim: "invar s \<Longrightarrow> x \<in> freeset s \<Longrightarrow> x < lim s"
    and alloc_empty: "invar s \<Longrightarrow> freeset s = {} \<Longrightarrow> alloc s = Some (- err, s)"
    and alloc_least: "invar s \<Longrightarrow> freeset s \<noteq> {} \<Longrightarrow>
      \<exists>s'. alloc s = Some (int (Min (freeset s)), s') \<and> invar s' \<and> lim s' = lim s
           \<and> freeset s' = freeset s - {Min (freeset s)}"
    and release_ok: "invar s \<Longrightarrow> 0 < x \<Longrightarrow> x < lim s \<Longrightarrow>
      \<exists>s'. release x s = Some s' \<and> invar s' \<and> lim s' = lim s \<and> freeset s' = insert x (freeset s)"
    and release_zero: "release 0 s = None"
    and err_pos: "0 < err"
begin

lemma finite_freeset: "invar s \<Longrightarrow> finite (freeset s)"
  by (rule finite_subset [of _ "{..<lim s}"]) (auto dest: freeset_lim)

lemma alloc_cases:
  assumes "invar s"
  obtains (empty) "freeset s = {}" "alloc s = Some (- err, s)"
  | (found) n s' where "n \<in> freeset s" "\<And>k. k \<in> freeset s \<Longrightarrow> n \<le> k" "alloc s = Some (int n, s')"
      "invar s'" "lim s' = lim s" "freeset s' = freeset s - {n}"
  using alloc_empty [OF assms] alloc_least [OF assms] finite_freeset [OF assms] Min_in Min_le by metis

lemma alloc_total:
  assumes "invar s"
  obtains r s' where "alloc s = Some (r, s')" "invar s'" "lim s' = lim s" "freeset s' \<subseteq> freeset s"
  using assms by (cases rule: alloc_cases [OF assms]) auto

lemma alloc_release:
  assumes "invar s" "alloc s = Some (int n, s')" "0 < n"
  shows "\<exists>s''. release n s' = Some s'' \<and> invar s'' \<and> freeset s'' = freeset s"
  using assms(1)
proof (cases rule: alloc_cases)
  case empty
  with assms(2) err_pos show ?thesis by auto
next
  case (found k t)
  with assms(2) have "k = n" "t = s'" by auto
  with found release_ok [of s' n] freeset_lim [of s n] assms show ?thesis
    by (metis insert_Diff)
qed

text \<open>A run of \<open>k\<close> allocations.\<close>

fun alloc_many :: "nat \<Rightarrow> 's \<Rightarrow> (nat list \<times> 's) option" where
  "alloc_many 0 s = Some ([], s)"
| "alloc_many (Suc k) s = do {
     (r, s) \<leftarrow> alloc s;
     if r < 0 then None
     else do { (rs, s) \<leftarrow> alloc_many k s; Some (nat r # rs, s) }
   }"

lemma alloc_many_ok:
  "invar s \<Longrightarrow> k \<le> card (freeset s) \<Longrightarrow>
   \<exists>rs s'. alloc_many k s = Some (rs, s') \<and> invar s' \<and> length rs = k \<and> sorted_wrt (<) rs
     \<and> set rs \<subseteq> freeset s \<and> freeset s' = freeset s - set rs"
proof (induction k arbitrary: s)
  case 0
  then show ?case by simp
next
  case (Suc k)
  from Suc.prems(1) show ?case
  proof (cases rule: alloc_cases)
    case empty
    with Suc.prems show ?thesis by simp
  next
    case (found n t)
    then have "k \<le> card (freeset t)"
      using Suc.prems(2) finite_freeset [OF Suc.prems(1)] by simp
    from Suc.IH [OF found(4) this] obtain rs u where rs:
      "alloc_many k t = Some (rs, u)" "invar u" "length rs = k" "sorted_wrt (<) rs"
      "set rs \<subseteq> freeset t" "freeset u = freeset t - set rs"
      by blast
    have "n < x" if "x \<in> set rs" for x
    proof -
      have "x \<in> freeset s" "x \<noteq> n" using rs(5) found(6) that by auto
      with found(2) [of x] show ?thesis by simp
    qed
    with rs found(1,3,6) show ?thesis by auto
  qed
qed

end

section \<open>Blocks and inodes are first-fit allocators\<close>

definition bm_inv :: "fs \<Rightarrow> bool" where
  "bm_inv s \<longleftrightarrow> geom_ok s \<and> cache_inv s"

lemma bm_addr_in_super:
  assumes "b < 4096 \<and> base = SB_blk_ocp \<or> b < 128 \<and> base = SB_in_ocp" "DISKMAP + BLKSIZE \<le> x"
  shows "bm_set base b m x = m x" "bm_clear base b m x = m x"
  using assms bm_addr_blk [of b] bm_addr_ino [of b]
  by (auto intro!: bm_outside simp: BLKSIZE_def)

lemma bm_commit_cache_inv:
  assumes "cache_inv s" "fmapped s 0" "\<And>x. DISKMAP + BLKSIZE \<le> x \<Longrightarrow> f (fmem s) x = fmem s x"
  shows "cache_inv (bm_commit f s)"
proof -
  have "f (fmem s) (DISKMAP + off) = fmem s (DISKMAP + off)" if "0 < off div BLKSIZE" for off
    using that by (intro assms(3)) (simp add: fs_consts div_greater_zero_iff)
  then show ?thesis
    using assms(1,2) by (simp add: bm_commit_def flushed_def cache_inv_def save_block_disk)
qed

lemma bm_commit_nums:
  assumes "b < 4096 \<and> base = SB_blk_ocp \<or> b < 128 \<and> base = SB_in_ocp"
  shows "blk_num (bm_commit (bm_set base b) s) = blk_num s" "in_num (bm_commit (bm_set base b) s) = in_num s"
    "blk_num (bm_commit (bm_clear base b) s) = blk_num s" "in_num (bm_commit (bm_clear base b) s) = in_num s"
proof -
  have "DISKMAP + SB_blk_num + 2 \<le> bm_addr base b" "DISKMAP + SB_in_num + 2 \<le> bm_addr base b"
    using assms bm_addr_blk [of b] bm_addr_ino [of b] by (auto simp: SB_blk_num_def SB_in_num_def)
  then show "blk_num (bm_commit (bm_set base b) s) = blk_num s" "in_num (bm_commit (bm_set base b) s) = in_num s"
    "blk_num (bm_commit (bm_clear base b) s) = blk_num s" "in_num (bm_commit (bm_clear base b) s) = in_num s"
    by (simp_all add: blk_num_def in_num_def bm_get16_outside)
qed

lemma bm_commit_inv:
  assumes "bm_inv s" "b < 4096 \<and> base = SB_blk_ocp \<or> b < 128 \<and> base = SB_in_ocp"
  shows "bm_inv (bm_commit (bm_set base b) s)" "bm_inv (bm_commit (bm_clear base b) s)"
  using assms bm_commit_nums [OF assms(2), of s] bm_addr_in_super [OF assms(2)]
  by (auto simp: bm_inv_def geom_ok_def meta_ok_def hw_ok_def intro!: bm_commit_cache_inv)

text \<open>Each update changes its own free set at one number, and the other one not at all.\<close>

lemma free_blocks_commit:
  assumes "b < 4096"
  shows "free_blocks (bm_commit (bm_set SB_blk_ocp b) s) = free_blocks s - {b}"
    "b < blk_num s \<Longrightarrow> free_blocks (bm_commit (bm_clear SB_blk_ocp b) s) = insert b (free_blocks s)"
  using assms bm_commit_nums [of b SB_blk_ocp s]
  by (auto simp: free_blocks_def blk_taken_def bm_bit_set bm_bit_clear)

lemma free_inodes_commit:
  assumes "i < 128"
  shows "free_inodes (bm_commit (bm_set SB_in_ocp i) s) = free_inodes s - {i}"
    "i < in_num s \<Longrightarrow> free_inodes (bm_commit (bm_clear SB_in_ocp i) s) = insert i (free_inodes s)"
  using assms bm_commit_nums [of i SB_in_ocp s]
  by (auto simp: free_inodes_def ino_taken_def bm_bit_set bm_bit_clear)

lemma free_inodes_blk_commit:
  assumes "b < 4096" "in_num s \<le> 128"
  shows "free_inodes (bm_commit (bm_set SB_blk_ocp b) s) = free_inodes s"
    "free_inodes (bm_commit (bm_clear SB_blk_ocp b) s) = free_inodes s"
proof -
  have "bm_addr SB_blk_ocp b + 4 \<le> bm_addr SB_in_ocp i" if "i < in_num s" for i
    using bm_addr_blk [of b] bm_addr_ino [of i] assms that by linarith
  then show "free_inodes (bm_commit (bm_set SB_blk_ocp b) s) = free_inodes s"
    "free_inodes (bm_commit (bm_clear SB_blk_ocp b) s) = free_inodes s"
    using assms bm_commit_nums [of b SB_blk_ocp s]
    by (auto simp: free_inodes_def ino_taken_def bm_other_map)
qed

lemma free_blocks_ino_commit:
  assumes "i < 128" "blk_num s \<le> 4096"
  shows "free_blocks (bm_commit (bm_set SB_in_ocp i) s) = free_blocks s"
    "free_blocks (bm_commit (bm_clear SB_in_ocp i) s) = free_blocks s"
proof -
  have "bm_addr SB_blk_ocp b + 4 \<le> bm_addr SB_in_ocp i" if "b < blk_num s" for b
    using bm_addr_blk [of b] bm_addr_ino [of i] assms that by linarith
  then show "free_blocks (bm_commit (bm_set SB_in_ocp i) s) = free_blocks s"
    "free_blocks (bm_commit (bm_clear SB_in_ocp i) s) = free_blocks s"
    using assms bm_commit_nums [of i SB_in_ocp s]
    by (auto simp: free_blocks_def blk_taken_def bm_other_map)
qed

lemma free_blocks_bound: "bm_inv s \<Longrightarrow> b \<in> free_blocks s \<Longrightarrow> b < 4096 \<and> b < blk_num s"
  by (auto simp: bm_inv_def geom_ok_def free_blocks_def)

lemma free_inodes_bound: "bm_inv s \<Longrightarrow> i \<in> free_inodes s \<Longrightarrow> i < 128 \<and> i < in_num s"
  by (auto simp: bm_inv_def geom_ok_def free_inodes_def)

interpretation blocks: first_fit alloc_block free_block free_blocks blk_num bm_inv E_NO_DISK
proof unfold_locales
  fix s x
  assume inv: "bm_inv s"
  then have g: "geom_ok s" by (simp add: bm_inv_def)
  show "x \<in> free_blocks s \<Longrightarrow> x < blk_num s" by (simp add: free_blocks_def)
  show "alloc_block s = Some (- E_NO_DISK, s)" if "free_blocks s = {}"
    using that by (simp add: alloc_block_eq [OF g])
  show "\<exists>s'. alloc_block s = Some (int (Min (free_blocks s)), s') \<and> bm_inv s' \<and> blk_num s' = blk_num s
      \<and> free_blocks s' = free_blocks s - {Min (free_blocks s)}" if "free_blocks s \<noteq> {}"
    using that free_blocks_bound [OF inv Min_in] inv
    by (simp add: alloc_block_eq [OF g] bm_commit_inv bm_commit_nums free_blocks_commit)
  show "\<exists>s'. free_block x s = Some s' \<and> bm_inv s' \<and> blk_num s' = blk_num s
      \<and> free_blocks s' = insert x (free_blocks s)" if "0 < x" "x < blk_num s"
  proof -
    have "x < 4096" using that g by (simp add: geom_ok_def)
    with that inv g show ?thesis
      by (simp add: free_block_eq geom_ok_def bm_commit_inv bm_commit_nums free_blocks_commit)
  qed
qed (simp_all add: free_block_def err_defs)

interpretation inodes: first_fit alloc_inode free_inode free_inodes in_num bm_inv E_NO_INODE
proof unfold_locales
  fix s x
  assume inv: "bm_inv s"
  then have g: "geom_ok s" by (simp add: bm_inv_def)
  show "x \<in> free_inodes s \<Longrightarrow> x < in_num s" by (simp add: free_inodes_def)
  show "alloc_inode s = Some (- E_NO_INODE, s)" if "free_inodes s = {}"
    using that by (simp add: alloc_inode_eq [OF g])
  show "\<exists>s'. alloc_inode s = Some (int (Min (free_inodes s)), s') \<and> bm_inv s' \<and> in_num s' = in_num s
      \<and> free_inodes s' = free_inodes s - {Min (free_inodes s)}" if "free_inodes s \<noteq> {}"
    using that free_inodes_bound [OF inv Min_in] inv
    by (simp add: alloc_inode_eq [OF g] bm_commit_inv bm_commit_nums free_inodes_commit)
  show "\<exists>s'. free_inode x s = Some s' \<and> bm_inv s' \<and> in_num s' = in_num s
      \<and> free_inodes s' = insert x (free_inodes s)" if "0 < x" "x < in_num s"
  proof -
    have "x < 128" using that g by (simp add: geom_ok_def)
    with that inv g show ?thesis
      by (simp add: free_inode_eq geom_ok_def bm_commit_inv bm_commit_nums free_inodes_commit)
  qed
qed (simp_all add: free_inode_def err_defs)

end
