(* ===== verification/FsView.thy ===== *)
theory FsView
  imports Bitmap
begin

text \<open>
  The file system as a plain memory.  \<open>vmem s\<close> is the content of every address the server can
  name, wherever the byte currently lives (cached page or disk); \<open>sees s m\<close> says that the cache
  is consistent and shows the memory \<open>m\<close>.  Every load, store, flush and allocation on a
  state that sees \<open>m\<close> behaves as on \<open>m\<close> itself: faults and write-backs are invisible.
  The predicates \<open>runs\<close> and \<open>goes\<close> compose these facts along the code's sequences of
  calls; they state that the code returns, not only what it returns.
\<close>

section \<open>The memory a state shows\<close>

definition vmem :: "fs \<Rightarrow> bytemem" where
  "vmem s a = (if in_cache a then view s (a - DISKMAP) else fmem s a)"

definition sees :: "fs \<Rightarrow> bytemem \<Rightarrow> bool" where
  "sees s m \<longleftrightarrow> meta_ok s \<and> hw_ok s \<and> cache_inv s \<and> vmem s = m"

text \<open>The superblock's numbers and bitmaps, read off a memory.\<close>

definition m_blk_num :: "bytemem \<Rightarrow> nat" where "m_blk_num m = unat (get16 m (DISKMAP + SB_blk_num))"
definition m_in_num :: "bytemem \<Rightarrow> nat" where "m_in_num m = unat (get16 m (DISKMAP + SB_in_num))"
definition m_free :: "bytemem \<Rightarrow> nat set" where
  "m_free m = {b. b < m_blk_num m \<and> \<not> bm_bit m SB_blk_ocp b}"
definition m_ifree :: "bytemem \<Rightarrow> nat set" where
  "m_ifree m = {i. i < m_in_num m \<and> \<not> bm_bit m SB_in_ocp i}"

definition m_geom :: "bytemem \<Rightarrow> bool" where
  "m_geom m \<longleftrightarrow> m_blk_num m \<le> 4096 \<and> m_in_num m \<le> 128"

text \<open>An address the server may use: in the image, and its block is allocated.\<close>

definition m_addr :: "bytemem \<Rightarrow> nat \<Rightarrow> bool" where
  "m_addr m a \<longleftrightarrow> in_cache a \<and> blk a < m_blk_num m \<and> bm_bit m SB_blk_ocp (blk a)"

lemma present_vmem: "present a s \<Longrightarrow> vmem s a = fmem s a"
  by (auto simp: present_def vmem_def va_is_mapped_def view_def blk_def in_cache_def split: if_splits)

lemma meta_vmem: "meta_ok s \<Longrightarrow> DISKMAP \<le> a \<Longrightarrow> a < DISKMAP + 8192 \<Longrightarrow> vmem s a = fmem s a"
  by (rule present_vmem) (rule present_meta)

lemma meta_get16: "meta_ok s \<Longrightarrow> DISKMAP \<le> a \<Longrightarrow> a + 2 \<le> DISKMAP + 8192 \<Longrightarrow> get16 (fmem s) a = get16 (vmem s) a"
  by (rule get16_cong) (simp_all add: meta_vmem)

lemma meta_get32: "meta_ok s \<Longrightarrow> DISKMAP \<le> a \<Longrightarrow> a + 4 \<le> DISKMAP + 8192 \<Longrightarrow> get32 (fmem s) a = get32 (vmem s) a"
  by (rule get32_cong) (simp add: meta_vmem)

lemma sees_nums: "sees s m \<Longrightarrow> blk_num s = m_blk_num m" "sees s m \<Longrightarrow> in_num s = m_in_num m"
  by (auto simp: sees_def blk_num_def in_num_def m_blk_num_def m_in_num_def fs_consts meta_get16)

lemma sees_bits:
  assumes "sees s m"
  shows "b < 4096 \<Longrightarrow> bm_bit (fmem s) SB_blk_ocp b = bm_bit m SB_blk_ocp b"
    "i < 128 \<Longrightarrow> bm_bit (fmem s) SB_in_ocp i = bm_bit m SB_in_ocp i"
proof -
  have m: "meta_ok s" "vmem s = m" using assms by (auto simp: sees_def)
  show "bm_bit (fmem s) SB_blk_ocp b = bm_bit m SB_blk_ocp b" if "b < 4096"
    using bm_addr_blk [OF that] meta_get32 [OF m(1), of "bm_addr SB_blk_ocp b"] m(2)
    by (simp add: bm_bit_def)
  show "bm_bit (fmem s) SB_in_ocp i = bm_bit m SB_in_ocp i" if "i < 128"
    using bm_addr_ino [OF that] meta_get32 [OF m(1), of "bm_addr SB_in_ocp i"] m(2)
    by (simp add: bm_bit_def)
qed

lemma sees_free:
  assumes "sees s m" "m_geom m"
  shows "free_blocks s = m_free m" "free_inodes s = m_ifree m" "bm_inv s"
  using assms sees_nums [OF assms(1)] sees_bits [OF assms(1)]
  by (auto simp: free_blocks_def free_inodes_def m_free_def m_ifree_def blk_taken_def ino_taken_def
      m_geom_def bm_inv_def geom_ok_def sees_def)

lemma seesI: "meta_ok s \<Longrightarrow> hw_ok s \<Longrightarrow> cache_inv s \<Longrightarrow> vmem s = m \<Longrightarrow> sees s m"
  by (simp add: sees_def)

section \<open>Faults, loads, stores and flushes\<close>

lemma vmem_load_block:
  assumes "\<not> fmapped s b" "b < 69634"
  shows "vmem (load_block b s) = vmem s"
proof
  fix a
  show "vmem (load_block b s) a = vmem s a"
  proof (cases "in_cache a")
    case True
    then show ?thesis using view_load_block [OF assms(1)] by (simp add: vmem_def)
  next
    case False
    then have "a < DISKMAP + b * BLKSIZE \<or> DISKMAP + b * BLKSIZE + BLKSIZE \<le> a"
      using assms(2) by (auto simp: in_cache_def fs_consts)
    with False show ?thesis by (simp add: vmem_def load_block_def set_bytes_outside)
  qed
qed

lemma vmem_save_block: "fmapped s b \<Longrightarrow> vmem (save_block b s) = vmem s"
  using view_save_block [of s b] by (auto simp: vmem_def fun_eq_iff)

lemma sees_flushed: "sees s m \<Longrightarrow> sees (flushed b s) m"
  by (auto simp: sees_def flushed_def cache_inv_save_block vmem_save_block)

text \<open>
  A fault on an allocated block of the image succeeds: the superblock is resident, the page
  and the sectors are there, and the block is not free.
\<close>

lemma block_bit_free_eq:
  assumes "b < 4096" "unat (get16 m (DISKMAP + SB_blk_num)) > b" "bm_bit m SB_blk_ocp b"
  shows "\<not> block_bit_free m DISKMAP b"
  using assms by (simp add: block_bit_free_def bm_addr_fold and_push_1_eq_0 bm_bit_def)

lemma bc_pgfault_ok:
  assumes s: "sees s m" and g: "m_geom m" and a: "m_addr m a" and nm: "\<not> fmapped s (blk a)"
  shows "bc_pgfault a s = Some (load_block (blk a) s)"
proof -
  have cache: "in_cache a" and lim: "blk a < m_blk_num m" "blk a < 4096"
    using a g by (auto simp: m_addr_def m_geom_def)
  have hw: "meta_ok s" "hw_ok s" "fsuper s = DISKMAP" "fmapped s 0"
    using s by (auto simp: sees_def meta_ok_def)
  have pos: "0 < blk a" using hw(4) nm by (cases "blk a") auto
  let ?s1 = "s\<lparr>fmapped := (fmapped s)(blk a := True),
               fmem := set_bytes (a - a mod BLKSIZE) (replicate BLKSIZE 0) (fmem s)\<rparr>"
  obtain r s2 where rd: "ide_read (blk a * BLKSECTS) (a - a mod BLKSIZE) BLKSECTS ?s1 = (r, s2)"
    by fastforce
  have r: "r = 0"
    using ide_read_secs_ret [of ?s1 "ide_lba (blk a * BLKSECTS)" "a - a mod BLKSIZE" BLKSECTS] rd hw(2)
    by (simp add: ide_read_def hw_ok_def)
  let ?s3 = "s2\<lparr>fdirty := (fdirty s2)(blk a := False)\<rparr>"
  have s3: "?s3 = load_block (blk a) s"
    using ide_read_block [OF rd _ blk_bound [OF cache]] r cache
    by (simp add: load_block_def round_down_blk set_bytes_twice)
  have sup: "fsuper s2 = DISKMAP" using arg_cong [OF s3, of fsuper] hw by simp
  have same: "fmem ?s3 x = fmem s x" if "x < DISKMAP + BLKSIZE" for x
    using that pos unfolding s3 load_block_def by (simp add: set_bytes_outside BLKSIZE_def)
  have num: "get16 (fmem s2) (DISKMAP + SB_blk_num) = get16 m (DISKMAP + SB_blk_num)"
    using get16_cong [of "fmem s2" "DISKMAP + SB_blk_num" "fmem s"] same meta_get16 [OF hw(1), of "DISKMAP + SB_blk_num"] s
    by (simp add: fs_consts sees_def)
  have "get32 (fmem s2) (bm_addr SB_blk_ocp (blk a)) = get32 (fmem s) (bm_addr SB_blk_ocp (blk a))"
    using bm_addr_blk [OF lim(2)] same by (intro get32_cong) (simp add: BLKSIZE_def)
  then have "bm_bit (fmem s2) SB_blk_ocp (blk a)"
    using sees_bits(1) [OF s lim(2)] a by (simp add: m_addr_def bm_bit_def)
  then have nf: "\<not> block_bit_free (fmem s2) DISKMAP (blk a)"
    using lim num by (intro block_bit_free_eq) (simp_all add: m_blk_num_def)
  have "present DISKMAP s" using present_meta [OF hw(1), of DISKMAP] by simp
  moreover have "blk a < unat (get16 (fmem s) (DISKMAP + SB_blk_num))"
    using sees_nums(1) [OF s] lim by (simp add: blk_num_def)
  ultimately show ?thesis
    using cache rd r hw nf sup s3
    by (simp add: bc_pgfault_def Let_def in_cache_def hw_ok_def not_le)
qed

lemma touch_sees:
  assumes "sees s m" "m_geom m" "m_addr m a"
  shows "\<exists>s'. touch a s = Some s' \<and> present a s' \<and> sees s' m"
proof (cases "fmapped s (blk a)")
  case True
  then show ?thesis using assms by (simp add: touch_def present_def m_addr_def va_is_mapped_def)
next
  case False
  have c: "in_cache a" using assms by (simp add: m_addr_def)
  have "sees (load_block (blk a) s) m"
    using assms(1) False vmem_load_block [OF False blk_bound [OF c]]
    by (auto simp: sees_def meta_ok_def cache_inv_load_block)
  with False c bc_pgfault_ok [OF assms False] show ?thesis
    by (simp add: touch_def present_def va_is_mapped_def)
qed

text \<open>A store writes a span of addresses of one block, whatever the memory was.\<close>

definition writes :: "(bytemem \<Rightarrow> bytemem) \<Rightarrow> nat \<Rightarrow> nat \<Rightarrow> bool" where
  "writes f a n \<longleftrightarrow> (\<forall>m m' x. f m x = (if a \<le> x \<and> x < a + n then f m' x else m x))"

definition one_block :: "nat \<Rightarrow> nat \<Rightarrow> bool" where
  "one_block a n \<longleftrightarrow> a mod BLKSIZE + n \<le> BLKSIZE"

lemma writes_set_bytes: "writes (set_bytes a bs) a (length bs)"
  by (simp add: writes_def set_bytes_apply)

lemma writes_set16: "writes (set16 a v) a 2"
  by (simp add: writes_def set16_def)

lemma writes_set32: "writes (set32 a v) a 4"
  by (simp add: writes_def set32_def set16_def)

lemma writes_upd: "writes (\<lambda>m. m(a := v)) a 1"
  by (simp add: writes_def)

lemma one_block_blk: "in_cache a \<Longrightarrow> one_block a n \<Longrightarrow> i < n \<Longrightarrow> in_cache (a + i) \<and> blk (a + i) = blk a"
proof (elim in_cacheE)
  fix d
  assume a: "a = DISKMAP + d" and d: "d < DISKSIZE" and ob: "one_block a n" and i: "i < n"
  have "a mod BLKSIZE = d mod BLKSIZE"
    unfolding a by (subst mod_add_left_eq [symmetric]) (simp add: fs_consts)
  then have lt: "d mod BLKSIZE + i < BLKSIZE" using ob i by (simp add: one_block_def)
  have split: "d + i = d div BLKSIZE * BLKSIZE + (d mod BLKSIZE + i)" by simp
  have q: "(d + i) div BLKSIZE = d div BLKSIZE"
    using lt by (subst split, subst div_mult_self3) (simp_all add: BLKSIZE_def)
  have "d div BLKSIZE < 69634" using d by (intro less_mult_imp_div_less) (simp add: fs_consts)
  then have "d div BLKSIZE * BLKSIZE + BLKSIZE \<le> DISKSIZE" by (simp add: fs_consts)
  then have "d + i < DISKSIZE" using lt split by linarith
  with q show ?thesis by (simp add: a blk_def in_cache_def)
qed

lemma store_sees:
  assumes "sees s m" "present a s" "in_cache a" "writes f a n" "one_block a n"
  shows "sees (store a f s) (f m)"
proof (rule seesI)
  have s: "meta_ok s" "hw_ok s" "cache_inv s" "vmem s = m" using assms(1) by (auto simp: sees_def)
  have mp: "fmapped s (blk a)" using assms(2,3) by (simp add: present_def va_is_mapped_def)
  have inb: "in_cache x \<and> blk x = blk a" if "a \<le> x" "x < a + n" for x
    using one_block_blk [OF assms(3,5), of "x - a"] that by simp
  have eq: "f (fmem s) x = (if a \<le> x \<and> x < a + n then f m x else fmem s x)" for x
    using assms(4) unfolding writes_def by metis
  have eqm: "f m x = (if a \<le> x \<and> x < a + n then f m x else m x)" for x
    using assms(4) unfolding writes_def by metis
  show "meta_ok (store a f s)" "hw_ok (store a f s)" using s by simp_all
  have "f (fmem s) (DISKMAP + off) = fmem s (DISKMAP + off)" if "off div BLKSIZE \<noteq> blk a" for off
    using inb [of "DISKMAP + off"] that by (auto simp: eq blk_def)
  then show "cache_inv (store a f s)"
    using s(3) mp assms(3) by (auto simp: cache_inv_def)
  show "vmem (store a f s) = f m"
  proof
    fix x
    have "vmem s x = m x" using s(4) by simp
    then show "vmem (store a f s) x = f m x"
      using inb [of x] mp eqm [of x]
      by (auto simp: vmem_def view_def eq blk_def in_cache_def split: if_splits)
  qed
qed

section \<open>Composing calls\<close>

declare Option.bind_assoc [simp del]

definition goes :: "fs option \<Rightarrow> bytemem \<Rightarrow> bool" where
  "goes c m \<longleftrightarrow> (\<exists>s'. c = Some s' \<and> sees s' m)"

definition runs :: "('a \<times> fs) option \<Rightarrow> 'a \<Rightarrow> bytemem \<Rightarrow> bool" where
  "runs c r m \<longleftrightarrow> (\<exists>s'. c = Some (r, s') \<and> sees s' m)"

named_theorems run_rules "what one step does to the memory a state shows"

lemma runs_bind: "runs c r m \<Longrightarrow> (\<And>s'. sees s' m \<Longrightarrow> runs (k r s') r' m') \<Longrightarrow> runs (c \<bind> (\<lambda>(r, s). k r s)) r' m'"
  by (fastforce simp: runs_def)

lemma runs_bind_: "goes c m \<Longrightarrow> (\<And>s'. sees s' m \<Longrightarrow> runs (k s') r' m') \<Longrightarrow> runs (c \<bind> k) r' m'"
  by (fastforce simp: runs_def goes_def)

lemma goes_bind: "runs c r m \<Longrightarrow> (\<And>s'. sees s' m \<Longrightarrow> goes (k r s') m') \<Longrightarrow> goes (c \<bind> (\<lambda>(r, s). k r s)) m'"
  by (fastforce simp: runs_def goes_def)

lemma goes_bind_: "goes c m \<Longrightarrow> (\<And>s'. sees s' m \<Longrightarrow> goes (k s') m') \<Longrightarrow> goes (c \<bind> k) m'"
  by (fastforce simp: goes_def)

lemma runs_Some: "sees s m \<Longrightarrow> runs (Some (r, s)) r m"
  by (simp add: runs_def)

lemma goes_Some: "sees s m \<Longrightarrow> goes (Some s) m"
  by (simp add: goes_def)

lemma runsE: "runs c r m \<Longrightarrow> (\<And>s'. c = Some (r, s') \<Longrightarrow> sees s' m \<Longrightarrow> P) \<Longrightarrow> P"
  by (auto simp: runs_def)

lemma goesE: "goes c m \<Longrightarrow> (\<And>s'. c = Some s' \<Longrightarrow> sees s' m \<Longrightarrow> P) \<Longrightarrow> P"
  by (auto simp: goes_def)

lemmas run_binds = runs_bind runs_bind_ goes_bind goes_bind_ runs_Some goes_Some

lemma present_same_block:
  "present a s \<Longrightarrow> in_cache a \<Longrightarrow> one_block a n \<Longrightarrow> i < n \<Longrightarrow> present (a + i) s"
  using one_block_blk [of a n i] by (simp add: present_def va_is_mapped_def)

lemma present_get16: "present a s \<Longrightarrow> in_cache a \<Longrightarrow> one_block a 2 \<Longrightarrow> get16 (fmem s) a = get16 (vmem s) a"
  using present_same_block [of a s 2 1] by (intro get16_cong) (simp_all add: present_vmem)

lemma present_get32: "present a s \<Longrightarrow> in_cache a \<Longrightarrow> one_block a 4 \<Longrightarrow> get32 (fmem s) a = get32 (vmem s) a"
  using present_same_block [of a s 4] by (intro get32_cong) (simp add: present_vmem)

lemma present_get_bytes: "present a s \<Longrightarrow> in_cache a \<Longrightarrow> one_block a n \<Longrightarrow> get_bytes (fmem s) a n = get_bytes (vmem s) a n"
  using present_same_block [of a s n] by (intro get_bytes_cong) (simp add: present_vmem)

lemma rd8_run: "sees s m \<Longrightarrow> m_geom m \<Longrightarrow> m_addr m a \<Longrightarrow> runs (rd8 a s) (m a) m"
  using touch_sees [of s m a] by (auto simp: rd8_def runs_def sees_def present_vmem [symmetric])

lemma rd16_run: "sees s m \<Longrightarrow> m_geom m \<Longrightarrow> m_addr m a \<Longrightarrow> one_block a 2 \<Longrightarrow> runs (rd16 a s) (get16 m a) m"
  using touch_sees [of s m a] present_get16 [of a] by (auto simp: rd16_def runs_def sees_def m_addr_def)

lemma rd32_run: "sees s m \<Longrightarrow> m_geom m \<Longrightarrow> m_addr m a \<Longrightarrow> one_block a 4 \<Longrightarrow> runs (rd32 a s) (get32 m a) m"
  using touch_sees [of s m a] present_get32 [of a] by (auto simp: rd32_def runs_def sees_def m_addr_def)

lemma rd_bytes_run: "sees s m \<Longrightarrow> m_geom m \<Longrightarrow> m_addr m a \<Longrightarrow> one_block a n \<Longrightarrow> runs (rd_bytes a n s) (get_bytes m a n) m"
  using touch_sees [of s m a] present_get_bytes [of a] by (auto simp: rd_bytes_def runs_def sees_def m_addr_def)

lemma wr_run:
  assumes "sees s m" "m_geom m" "m_addr m a" "writes f a n" "one_block a n"
  shows "goes (touch a s \<bind> (\<lambda>s. Some (store a f s))) (f m)"
  using touch_sees [OF assms(1-3)] store_sees [OF _ _ _ assms(4,5)] assms(3) by (auto simp: goes_def m_addr_def)

lemma wr8_run: "sees s m \<Longrightarrow> m_geom m \<Longrightarrow> m_addr m a \<Longrightarrow> goes (wr8 a v s) (m(a := v))"
  unfolding wr8_def by (rule wr_run [OF _ _ _ writes_upd]) (simp_all add: one_block_def BLKSIZE_def Suc_leI)

lemma wr16_run: "sees s m \<Longrightarrow> m_geom m \<Longrightarrow> m_addr m a \<Longrightarrow> one_block a 2 \<Longrightarrow> goes (wr16 a w s) (set16 a w m)"
  unfolding wr16_def by (rule wr_run [OF _ _ _ writes_set16])

lemma wr_bytes_run: "sees s m \<Longrightarrow> m_geom m \<Longrightarrow> m_addr m a \<Longrightarrow> one_block a (length bs) \<Longrightarrow> goes (wr_bytes a bs s) (set_bytes a bs m)"
  unfolding wr_bytes_def by (rule wr_run [OF _ _ _ writes_set_bytes])


lemma flush_run: "sees s m \<Longrightarrow> in_cache a \<Longrightarrow> goes (flush_block a s) m"
  using flush_block_hw [of s a] sees_flushed [of s m] by (auto simp: goes_def sees_def)

text \<open>Allocation and release, on the memory.\<close>

lemma vmem_bm_commit:
  assumes "meta_ok s" "\<And>x. DISKMAP + BLKSIZE \<le> x \<or> x < DISKMAP \<Longrightarrow> f (fmem s) x = fmem s x"
    "\<And>x. DISKMAP \<le> x \<Longrightarrow> x < DISKMAP + BLKSIZE \<Longrightarrow> f (fmem s) x = f (vmem s) x"
    "\<And>x. DISKMAP + BLKSIZE \<le> x \<or> x < DISKMAP \<Longrightarrow> f (vmem s) x = vmem s x"
  shows "vmem (bm_commit f s) = f (vmem s)"
proof
  fix x
  have z: "fmapped (store DISKMAP f s) 0" using assms(1) by (simp add: meta_ok_def)
  have v: "vmem (bm_commit f s) = vmem (store DISKMAP f s)"
    using vmem_save_block [OF z] by (simp add: bm_commit_def flushed_def)
  show "vmem (bm_commit f s) x = f (vmem s) x"
  proof (cases "DISKMAP \<le> x \<and> x < DISKMAP + BLKSIZE")
    case True
    then have "present x s" using present_meta [OF assms(1), of x] by (simp add: BLKSIZE_def)
    then show ?thesis using True assms(3) present_vmem [of x "store DISKMAP f s"] by (simp add: v)
  next
    case False
    then show ?thesis
      using assms(2) [of x] assms(4) [of x] by (auto simp: v vmem_def view_def in_cache_def)
  qed
qed

lemma bm_commit_sees:
  assumes s: "sees s m" and b: "b < 4096 \<and> base = SB_blk_ocp \<or> b < 128 \<and> base = SB_in_ocp"
  shows "sees (bm_commit (bm_set base b) s) (bm_set base b m)"
    "sees (bm_commit (bm_clear base b) s) (bm_clear base b m)"
proof -
  have m: "meta_ok s" "hw_ok s" "cache_inv s" "vmem s = m" "fmapped s 0"
    using s by (auto simp: sees_def meta_ok_def)
  have lo: "DISKMAP \<le> bm_addr base b" "bm_addr base b + 4 \<le> DISKMAP + BLKSIZE"
    using b bm_addr_blk [of b] bm_addr_ino [of b] by (auto simp: BLKSIZE_def)
  have w: "get32 (fmem s) (bm_addr base b) = get32 (vmem s) (bm_addr base b)"
    using lo by (intro meta_get32 [OF m(1)]) (simp_all add: BLKSIZE_def)
  have eq: "x < DISKMAP + BLKSIZE \<Longrightarrow> DISKMAP \<le> x \<Longrightarrow> fmem s x = vmem s x" for x
    using meta_vmem [OF m(1), of x] by (simp add: BLKSIZE_def)
  show "sees (bm_commit (bm_set base b) s) (bm_set base b m)"
  proof (rule seesI)
    show "vmem (bm_commit (bm_set base b) s) = bm_set base b m"
      using lo unfolding m(4) [symmetric]
      by (intro vmem_bm_commit [OF m(1)])
         (auto simp: bm_outside, auto simp: bm_set_def w set32_def set16_def eq)
  qed (use m lo in \<open>auto intro!: bm_commit_cache_inv bm_outside\<close>)
  show "sees (bm_commit (bm_clear base b) s) (bm_clear base b m)"
  proof (rule seesI)
    show "vmem (bm_commit (bm_clear base b) s) = bm_clear base b m"
      using lo unfolding m(4) [symmetric]
      by (intro vmem_bm_commit [OF m(1)])
         (auto simp: bm_outside, auto simp: bm_clear_def w set32_def set16_def eq)
  qed (use m lo in \<open>auto intro!: bm_commit_cache_inv bm_outside\<close>)
qed

lemma finite_m_free [simp]: "finite (m_free m)" "finite (m_ifree m)"
  by (simp_all add: m_free_def m_ifree_def)

lemma m_free_bound: "m_geom m \<Longrightarrow> b \<in> m_free m \<Longrightarrow> b < 4096" "m_geom m \<Longrightarrow> i \<in> m_ifree m \<Longrightarrow> i < 128"
  by (auto simp: m_free_def m_ifree_def m_geom_def)

lemma alloc_block_run:
  assumes "sees s m" "m_geom m"
  shows "m_free m = {} \<Longrightarrow> runs (alloc_block s) (- E_NO_DISK) m"
    "m_free m \<noteq> {} \<Longrightarrow> runs (alloc_block s) (int (Min (m_free m))) (bm_set SB_blk_ocp (Min (m_free m)) m)"
  using assms alloc_block_eq [of s] sees_free [OF assms] bm_commit_sees(1) [OF assms(1), of "Min (m_free m)" SB_blk_ocp]
    m_free_bound(1) [OF assms(2) Min_in]
  by (auto simp: runs_def bm_inv_def)

lemma alloc_inode_run:
  assumes "sees s m" "m_geom m"
  shows "m_ifree m = {} \<Longrightarrow> runs (alloc_inode s) (- E_NO_INODE) m"
    "m_ifree m \<noteq> {} \<Longrightarrow> runs (alloc_inode s) (int (Min (m_ifree m))) (bm_set SB_in_ocp (Min (m_ifree m)) m)"
  using assms alloc_inode_eq [of s] sees_free [OF assms] bm_commit_sees(1) [OF assms(1), of "Min (m_ifree m)" SB_in_ocp]
    m_free_bound(2) [OF assms(2) Min_in]
  by (auto simp: runs_def bm_inv_def)

lemma free_block_run:
  "sees s m \<Longrightarrow> 0 < b \<Longrightarrow> b < 4096 \<Longrightarrow> goes (free_block b s) (bm_clear SB_blk_ocp b m)"
  using free_block_eq [of s b] bm_commit_sees(2) [of s m b SB_blk_ocp] by (auto simp: goes_def sees_def)

lemma free_inode_run:
  "sees s m \<Longrightarrow> 0 < i \<Longrightarrow> i < 128 \<Longrightarrow> goes (free_inode i s) (bm_clear SB_in_ocp i m)"
  using free_inode_eq [of s i] bm_commit_sees(2) [of s m i SB_in_ocp] by (auto simp: goes_def sees_def)

lemma diskaddr_run:
  assumes "sees s m" "b < m_blk_num m"
  shows "runs (diskaddr b s) (DISKMAP + b * BLKSIZE) m"
  using assms sees_nums(1) [OF assms(1)]
  by (simp add: diskaddr_def meta_ok_super sees_def rd_sb runs_def blk_num_def)

text \<open>The geometry and the other bitmap under an update of one bitmap.\<close>

lemma m_nums_bm:
  assumes "b < 4096 \<and> base = SB_blk_ocp \<or> b < 128 \<and> base = SB_in_ocp"
  shows "m_blk_num (bm_set base b m) = m_blk_num m" "m_in_num (bm_set base b m) = m_in_num m"
    "m_blk_num (bm_clear base b m) = m_blk_num m" "m_in_num (bm_clear base b m) = m_in_num m"
proof -
  have "DISKMAP + SB_blk_num + 2 \<le> bm_addr base b" "DISKMAP + SB_in_num + 2 \<le> bm_addr base b"
    using assms bm_addr_blk [of b] bm_addr_ino [of b] by (auto simp: SB_blk_num_def SB_in_num_def)
  then show "m_blk_num (bm_set base b m) = m_blk_num m" "m_in_num (bm_set base b m) = m_in_num m"
    "m_blk_num (bm_clear base b m) = m_blk_num m" "m_in_num (bm_clear base b m) = m_in_num m"
    by (simp_all add: m_blk_num_def m_in_num_def bm_get16_outside)
qed

text \<open>A write outside the superblock changes neither the geometry nor the bitmaps.\<close>

lemma outside_super:
  assumes "\<And>x. DISKMAP \<le> x \<Longrightarrow> x < DISKMAP + BLKSIZE \<Longrightarrow> m' x = m x"
  shows "m_blk_num m' = m_blk_num m" "m_in_num m' = m_in_num m"
    "b < 4096 \<Longrightarrow> bm_bit m' SB_blk_ocp b = bm_bit m SB_blk_ocp b"
    "i < 128 \<Longrightarrow> bm_bit m' SB_in_ocp i = bm_bit m SB_in_ocp i"
proof -
  show "m_blk_num m' = m_blk_num m" "m_in_num m' = m_in_num m"
    using get16_cong [of m' "DISKMAP + SB_blk_num" m] get16_cong [of m' "DISKMAP + SB_in_num" m] assms
    by (simp_all add: m_blk_num_def m_in_num_def fs_consts)
  show "bm_bit m' SB_blk_ocp b = bm_bit m SB_blk_ocp b" if "b < 4096"
    using get32_cong [of m' "bm_addr SB_blk_ocp b" m] assms bm_addr_blk [OF that]
    by (simp add: bm_bit_def BLKSIZE_def)
  show "bm_bit m' SB_in_ocp i = bm_bit m SB_in_ocp i" if "i < 128"
    using get32_cong [of m' "bm_addr SB_in_ocp i" m] assms bm_addr_ino [OF that]
    by (simp add: bm_bit_def BLKSIZE_def)
qed

end
