(* ===== verification/DamnFS.thy ===== *)
theory DamnFS
  imports FsView
begin

text \<open>
  The file operations of \<open>damnfs.c\<close>: inode blocks, directories, path names, and creating,
  reading, writing, truncating, removing and flushing files.  Inodes and directory entries are
  pointers into the disk map, as in the code: \<open>&inodes[i]\<close> is \<open>inode_ptr i\<close>, an entry
  is the address of its 18 bytes, NULL is 0.  A path or a name is the list of its characters
  before the terminating NUL.  A pointer argument \<open>T **p\<close> the code only writes through is a
  component of the result.  The caller's buffer of \<open>file_read\<close> and \<open>file_write\<close> is the
  request page, which lies outside the disk map: it is a memory of its own, indexed from 0.
\<close>

section \<open>Layout (damnfs.h)\<close>

definition MAXNAMELEN :: nat where "MAXNAMELEN = 16"
definition NDIRECT :: nat where "NDIRECT = 13"
definition INSIZE :: nat where "INSIZE = 32"
definition DIRESIZE :: nat where "DIRESIZE = 18"
definition BLKFILES :: nat where "BLKFILES = BLKSIZE div DIRESIZE"
definition FTYPE_REG :: u16 where "FTYPE_REG = 102"
definition FTYPE_DIR :: u16 where "FTYPE_DIR = 100"

definition IN_type :: nat where "IN_type = 0"
definition IN_size :: nat where "IN_size = 2"
definition IN_blk_used :: nat where "IN_blk_used = 4"
definition IN_blk_ind :: nat where "IN_blk_ind = 6"
definition DE_in_ind :: nat where "DE_in_ind = 16"

declare MAXNAMELEN_def [fs_consts] NDIRECT_def [fs_consts] INSIZE_def [fs_consts]
  DIRESIZE_def [fs_consts] BLKFILES_def [fs_consts] IN_type_def [fs_consts] IN_size_def [fs_consts]
  IN_blk_used_def [fs_consts] IN_blk_ind_def [fs_consts] DE_in_ind_def [fs_consts]

definition inode_ptr :: "u16 \<Rightarrow> fs \<Rightarrow> nat" where
  "inode_ptr i s = finodes s + INSIZE * unat i"

definition CH_SLASH :: u8 where "CH_SLASH = 47"
definition CH_SPACE :: u8 where "CH_SPACE = 32"
definition CH_DOT :: u8 where "CH_DOT = 46"

section \<open>Strings in the disk map (string.c)\<close>

text \<open>\<open>strcmp(p, q)\<close> with \<open>p\<close> in the disk map and \<open>q\<close> a local string.\<close>

fun strcmp_at :: "nat \<Rightarrow> u8 list \<Rightarrow> fs \<Rightarrow> (int \<times> fs) option" where
  "strcmp_at p [] s = do { (c, s) \<leftarrow> rd8 p s; Some (uint c, s) }"
| "strcmp_at p (q # qs) s = do {
     (c, s) \<leftarrow> rd8 p s;
     if c \<noteq> 0 \<and> c = q then strcmp_at (p + 1) qs s
     else Some (uint c - uint q, s)
   }"

fun strcpy_to :: "nat \<Rightarrow> u8 list \<Rightarrow> fs \<Rightarrow> fs option" where
  "strcpy_to dst [] s = wr8 dst 0 s"
| "strcpy_to dst (c # cs) s = do { s \<leftarrow> wr8 dst c s; strcpy_to (dst + 1) cs s }"

section \<open>Initialisation\<close>

text \<open>\<open>fdisk\<close> is the content of the drive that \<open>ide_probe_disk1\<close> selects.\<close>

definition fs_init :: "fs \<Rightarrow> fs option" where
  "fs_init s = do {
     s \<leftarrow> bc_init s;
     (a, s) \<leftarrow> diskaddr 0 s;
     let s = s\<lparr>fsuper := a\<rparr>;
     (magic, s) \<leftarrow> rd32 (fsuper s + SB_magic) s;
     (a, s) \<leftarrow> diskaddr 1 s;
     let s = s\<lparr>finodes := a\<rparr>;
     (bs, s) \<leftarrow> rd_bytes (finodes s) INSIZE s;
     Some s
   }"

section \<open>Inode blocks\<close>

definition file_block_walk :: "nat \<Rightarrow> u16 \<Rightarrow> int \<times> nat" where
  "file_block_walk inode blockind =
     (if unat blockind < NDIRECT then (0, inode + IN_blk_ind + 2 * unat blockind)
      else (- E_INVAL, 0))"

definition file_get_block :: "nat \<Rightarrow> u16 \<Rightarrow> fs \<Rightarrow> ((int \<times> nat) \<times> fs) option" where
  "file_get_block inode blockind s =
     (let (r, slot) = file_block_walk inode blockind in
      if r < 0 then Some ((r, 0), s)
      else do {
        (v, s) \<leftarrow> rd16 slot s;
        (r, s) \<leftarrow> (if v = 0 then do {
             (r, s) \<leftarrow> alloc_block s;
             if r < 0 then Some (r, s)
             else do {
               s \<leftarrow> wr16 slot (word_of_int r) s;
               (u, s) \<leftarrow> rd16 (inode + IN_blk_used) s;
               s \<leftarrow> wr16 (inode + IN_blk_used) (u + 1) s;
               Some (0, s)
             }
           }
           else Some (0, s));
        if r < 0 then Some ((r, 0), s)
        else do {
          (v, s) \<leftarrow> rd16 slot s;
          (a, s) \<leftarrow> diskaddr (unat v) s;
          s \<leftarrow> flush_block inode s;
          Some ((0, a), s)
        }
      })"

section \<open>Directories\<close>

fun lookup_entries :: "nat \<Rightarrow> u8 list \<Rightarrow> nat list \<Rightarrow> fs \<Rightarrow> (nat option \<times> fs) option" where
  "lookup_entries f name [] s = Some (None, s)"
| "lookup_entries f name (j # js) s = do {
     (c, s) \<leftarrow> strcmp_at (f + DIRESIZE * j) name s;
     if c = 0 then Some (Some (f + DIRESIZE * j), s)
     else lookup_entries f name js s
   }"

fun lookup_blocks :: "nat \<Rightarrow> u8 list \<Rightarrow> nat list \<Rightarrow> fs \<Rightarrow> ((int \<times> nat) \<times> fs) option" where
  "lookup_blocks dir name [] s = Some ((- E_NOT_FOUND, 0), s)"
| "lookup_blocks dir name (i # is) s = do {
     ((r, b), s) \<leftarrow> file_get_block dir (of_nat i) s;
     if r < 0 then Some ((r, 0), s)
     else do {
       (e, s) \<leftarrow> lookup_entries b name [0..<BLKFILES] s;
       case e of Some p \<Rightarrow> Some ((0, p), s) | None \<Rightarrow> lookup_blocks dir name is s
     }
   }"

definition dir_lookup :: "nat \<Rightarrow> u8 list \<Rightarrow> fs \<Rightarrow> ((int \<times> nat) \<times> fs) option" where
  "dir_lookup dir name s = do {
     (nblock, s) \<leftarrow> rd16 (dir + IN_blk_used) s;
     lookup_blocks dir name [0..<unat nblock] s
   }"

fun free_entry :: "nat \<Rightarrow> nat list \<Rightarrow> fs \<Rightarrow> (nat option \<times> fs) option" where
  "free_entry f [] s = Some (None, s)"
| "free_entry f (j # js) s = do {
     (c, s) \<leftarrow> rd8 (f + DIRESIZE * j) s;
     if c = 0 then Some (Some (f + DIRESIZE * j), s) else free_entry f js s
   }"

definition add_dir_size :: "nat \<Rightarrow> fs \<Rightarrow> fs option" where
  "add_dir_size dir s = do {
     (z, s) \<leftarrow> rd16 (dir + IN_size) s;
     wr16 (dir + IN_size) (z + of_nat DIRESIZE) s
   }"

fun alloc_entry_blocks :: "nat \<Rightarrow> nat list \<Rightarrow> fs \<Rightarrow> ((int \<times> nat) option \<times> fs) option" where
  "alloc_entry_blocks dir [] s = Some (None, s)"
| "alloc_entry_blocks dir (i # is) s = do {
     ((r, b), s) \<leftarrow> file_get_block dir (of_nat i) s;
     if r < 0 then Some (Some (r, 0), s)
     else do {
       (e, s) \<leftarrow> free_entry b [0..<BLKFILES] s;
       case e of
         Some p \<Rightarrow> do { s \<leftarrow> add_dir_size dir s; Some (Some (0, p), s) }
       | None \<Rightarrow> alloc_entry_blocks dir is s
     }
   }"

definition dir_alloc_entry :: "nat \<Rightarrow> fs \<Rightarrow> ((int \<times> nat) \<times> fs) option" where
  "dir_alloc_entry dir s = do {
     (nblock, s) \<leftarrow> rd16 (dir + IN_blk_used) s;
     (found, s) \<leftarrow> alloc_entry_blocks dir [0..<unat nblock] s;
     case found of
       Some res \<Rightarrow> Some (res, s)
     | None \<Rightarrow> do {
         (u, s) \<leftarrow> rd16 (dir + IN_blk_used) s;
         s \<leftarrow> wr16 (dir + IN_blk_used) (u + 1) s;
         s \<leftarrow> add_dir_size dir s;
         ((r, b), s) \<leftarrow> file_get_block dir nblock s;
         if r < 0 then Some ((r, 0), s) else Some ((0, b), s)
       }
   }"

section \<open>Path names\<close>

fun skip_slash :: "u8 list \<Rightarrow> u8 list" where
  "skip_slash [] = []"
| "skip_slash (c # cs) = (if c = CH_SLASH then skip_slash cs else c # cs)"

definition name_is_valid :: "u8 list \<Rightarrow> bool" where
  "name_is_valid name =
     (if MAXNAMELEN \<le> length name \<or> name = [CH_DOT, CH_DOT] \<or> name = [CH_DOT] then False
      else list_all (\<lambda>c. \<not> (c = CH_SLASH \<or> c = CH_SPACE)) name)"

text \<open>The scan over one path element: \<open>path\<close> ends at a slash or at the end.\<close>

fun scan_elem :: "u8 list \<Rightarrow> u8 list \<times> u8 list" where
  "scan_elem [] = ([], [])"
| "scan_elem (c # cs) =
     (if c = CH_SLASH then ([], c # cs)
      else (let (e, rest) = scan_elem cs in (c # e, rest)))"

lemma skip_slash_length: "length (skip_slash p) \<le> length p"
  by (induction p) auto

lemma scan_elem_length: "length (snd (scan_elem p)) \<le> length p"
  by (induction p) (auto simp: Let_def split: prod.splits)

lemma scan_elem_less: "p \<noteq> [] \<Longrightarrow> hd p \<noteq> CH_SLASH \<Longrightarrow> length (snd (scan_elem p)) < length p"
  using scan_elem_length [of "tl p"] by (cases p) (auto simp: Let_def less_Suc_eq_le split: prod.splits)

lemma walk_measure:
  assumes "(e, y) = scan_elem p" "p \<noteq> []" "hd p \<noteq> CH_SLASH"
  shows "length (skip_slash y) < length p"
  using scan_elem_less [OF assms(2,3)] skip_slash_length [of y]
  by (simp add: assms(1) [symmetric])

text \<open>What \<open>walk_path\<close> hands back: result, \<open>*pdir\<close>, \<open>*pf\<close>, and \<open>lastelem\<close> when written.\<close>

record walk_result =
  w_ret :: int
  w_dir :: nat
  w_entry :: nat
  w_last :: "u8 list option"

text \<open>
  Each round consumes a non-empty element: the loop enters with a path that does not start with a
  slash, which the recursion keeps explicit.
\<close>

function walk_loop :: "u8 list \<Rightarrow> nat \<Rightarrow> nat \<Rightarrow> nat \<Rightarrow> fs \<Rightarrow> (walk_result \<times> fs) option" where
  "walk_loop path f dir entry s =
     (if path = [] \<or> hd path = CH_SLASH
      then Some (\<lparr>w_ret = 0, w_dir = dir, w_entry = entry, w_last = None\<rparr>, s)
      else
        (let dir = f; (name, rest) = scan_elem path; rest' = skip_slash rest in
         if MAXNAMELEN \<le> length name
         then Some (\<lparr>w_ret = - E_BAD_PATH, w_dir = 0, w_entry = 0, w_last = None\<rparr>, s)
         else do {
           (ty, s) \<leftarrow> rd16 (dir + IN_type) s;
           if ty \<noteq> FTYPE_DIR
           then Some (\<lparr>w_ret = - E_NOT_FOUND, w_dir = 0, w_entry = 0, w_last = None\<rparr>, s)
           else do {
             ((r, e), s) \<leftarrow> dir_lookup dir name s;
             if r < 0 then
               if r = - E_NOT_FOUND \<and> rest' = []
               then Some (\<lparr>w_ret = r, w_dir = dir, w_entry = 0, w_last = Some name\<rparr>, s)
               else Some (\<lparr>w_ret = r, w_dir = 0, w_entry = 0, w_last = None\<rparr>, s)
             else do {
               (i, s) \<leftarrow> rd16 (e + DE_in_ind) s;
               walk_loop rest' (inode_ptr i s) dir e s
             }
           }
         }))"
  by pat_completeness auto
termination
  by (relation "measure (\<lambda>(path, _). length path)")
     (auto dest: walk_measure)

declare walk_loop.simps [simp del]

definition walk_path :: "u8 list \<Rightarrow> fs \<Rightarrow> (walk_result \<times> fs) option" where
  "walk_path path s =
     (if path = [] \<or> hd path \<noteq> CH_SLASH
      then Some (\<lparr>w_ret = - E_BAD_PATH, w_dir = 0, w_entry = 0, w_last = None\<rparr>, s)
      else walk_loop (skip_slash path) (inode_ptr 0 s) 0 0 s)"

section \<open>Sizes, blocks and flushing\<close>

function file_flush_loop :: "nat \<Rightarrow> nat \<Rightarrow> fs \<Rightarrow> fs option" where
  "file_flush_loop inode i s = do {
     (z, s) \<leftarrow> rd16 (inode + IN_size) s;
     if i < (unat z + BLKSIZE - 1) div BLKSIZE then
       (let (r, slot) = file_block_walk inode (of_nat i) in
        if r < 0 \<or> slot = 0 then file_flush_loop inode (Suc i) s
        else do {
          (v, s) \<leftarrow> rd16 slot s;
          if v = 0 then file_flush_loop inode (Suc i) s
          else do {
            (v, s) \<leftarrow> rd16 slot s;
            (a, s) \<leftarrow> diskaddr (unat v) s;
            s \<leftarrow> flush_block a s;
            file_flush_loop inode (Suc i) s
          }
        })
     else Some s
   }"
  by pat_completeness auto

lemma size_blocks_le: "(unat (z :: u16) + BLKSIZE - 1) div BLKSIZE \<le> 16"
proof -
  have "unat z + BLKSIZE - 1 < 17 * BLKSIZE"
    using unat_u16_bound [of z] by (simp add: BLKSIZE_def del: unat_u16_bound)
  then show ?thesis using less_mult_imp_div_less by fastforce
qed

lemma size_blocks_measure: "i < (unat (z :: u16) + BLKSIZE - Suc 0) div BLKSIZE \<Longrightarrow> 16 - i < 17 - i"
  using size_blocks_le [of z] by simp

termination file_flush_loop
  by (relation "measure (\<lambda>(inode, i, s). 17 - i)") (auto dest: size_blocks_measure)

declare file_flush_loop.simps [simp del]

definition file_flush :: "nat \<Rightarrow> fs \<Rightarrow> fs option" where
  "file_flush f s = do {
     (i, s) \<leftarrow> rd16 (f + DE_in_ind) s;
     let inode = inode_ptr i s;
     s \<leftarrow> file_flush_loop inode 0 s;
     s \<leftarrow> flush_block inode s;
     flush_block f s
   }"

definition file_free_block :: "nat \<Rightarrow> u16 \<Rightarrow> fs \<Rightarrow> (int \<times> fs) option" where
  "file_free_block f blockno s = do {
     (i, s) \<leftarrow> rd16 (f + DE_in_ind) s;
     let inode = inode_ptr i s;
     let (r, ptr) = file_block_walk inode blockno;
     if r < 0 then Some (r, s)
     else do {
       (v, s) \<leftarrow> rd16 ptr s;
       if v \<noteq> 0 then do {
         (v, s) \<leftarrow> rd16 ptr s;
         s \<leftarrow> free_block (unat v) s;
         s \<leftarrow> wr16 ptr 0 s;
         Some (0, s)
       }
       else Some (0, s)
     }
   }"

text \<open>The result of \<open>file_free_block\<close> only decides whether a warning is printed.\<close>

fun truncate_loop :: "nat \<Rightarrow> nat list \<Rightarrow> fs \<Rightarrow> fs option" where
  "truncate_loop f [] s = Some s"
| "truncate_loop f (bno # bnos) s = do {
     (r, s) \<leftarrow> file_free_block f (of_nat bno) s;
     truncate_loop f bnos s
   }"

text \<open>\<open>newsize\<close> is an \<open>off_t\<close>: the sum wraps and the division truncates towards zero.\<close>

definition nblocks_of :: "i32 \<Rightarrow> u16" where
  "nblocks_of newsize = word_of_int (c_div (sint (newsize + of_nat BLKSIZE - 1)) (int BLKSIZE))"

definition file_truncate_blocks :: "nat \<Rightarrow> i32 \<Rightarrow> fs \<Rightarrow> fs option" where
  "file_truncate_blocks f newsize s = do {
     (i, s) \<leftarrow> rd16 (f + DE_in_ind) s;
     let inode = inode_ptr i s;
     (z, s) \<leftarrow> rd16 (inode + IN_size) s;
     let old_nblocks = nblocks_of (ucast z);
     let new_nblocks = nblocks_of newsize;
     truncate_loop f [unat new_nblocks..<unat old_nblocks] s
   }"

definition file_set_size :: "nat \<Rightarrow> i32 \<Rightarrow> fs \<Rightarrow> (int \<times> fs) option" where
  "file_set_size f newsize s = do {
     (i, s) \<leftarrow> rd16 (f + DE_in_ind) s;
     let inode = inode_ptr i s;
     (z, s) \<leftarrow> rd16 (inode + IN_size) s;
     s \<leftarrow> (if sint newsize < uint z then file_truncate_blocks f newsize s else Some s);
     s \<leftarrow> wr16 (inode + IN_size) (ucast newsize) s;
     s \<leftarrow> flush_block f s;
     Some (0, s)
   }"

section \<open>Creating, removing, opening\<close>

definition file_create :: "u8 list \<Rightarrow> u16 \<Rightarrow> fs \<Rightarrow> ((int \<times> nat option) \<times> fs) option" where
  "file_create path type s = do {
     (w, s) \<leftarrow> walk_path path s;
     if w_ret w = 0 then Some ((- E_FILE_EXISTS, None), s)
     else if w_ret w \<noteq> - E_NOT_FOUND \<or> w_dir w = 0 then Some ((w_ret w, None), s)
     else case w_last w of None \<Rightarrow> None | Some name \<Rightarrow>
       if \<not> name_is_valid name then Some ((- E_BAD_NAME, None), s)
       else do {
         ((r, entry), s) \<leftarrow> dir_alloc_entry (w_dir w) s;
         if r < 0 then Some ((r, None), s)
         else do {
           (r, s) \<leftarrow> alloc_inode s;
           if r < 0 then Some ((r, None), s)
           else do {
             let inodeno = (word_of_int r :: u16);
             (r, s) \<leftarrow> (if type = FTYPE_DIR then do {
                  ((r, blk), s) \<leftarrow> file_get_block (inode_ptr inodeno s) 0 s;
                  if r < 0 then do { s \<leftarrow> free_inode (unat inodeno) s; Some (r, s) }
                  else do {
                    s \<leftarrow> strcpy_to blk [CH_DOT, CH_DOT] s;
                    s \<leftarrow> strcpy_to (blk + DIRESIZE) [CH_DOT] s;
                    s \<leftarrow> wr16 (blk + DIRESIZE + DE_in_ind) inodeno s;
                    s \<leftarrow> wr16 (blk + DE_in_ind) inodeno s;
                    s \<leftarrow> wr16 (inode_ptr inodeno s + IN_size) (2 * of_nat DIRESIZE) s;
                    Some (0, s)
                  }
                }
                else Some (0, s));
             if r < 0 then Some ((r, None), s)
             else do {
               s \<leftarrow> strcpy_to entry name s;
               s \<leftarrow> wr16 (entry + DE_in_ind) inodeno s;
               s \<leftarrow> wr16 (inode_ptr inodeno s + IN_type) type s;
               s \<leftarrow> file_flush entry s;
               Some ((0, Some entry), s)
             }
           }
         }
       }
   }"

definition file_remove :: "u8 list \<Rightarrow> fs \<Rightarrow> (int \<times> fs) option" where
  "file_remove path s = do {
     (w, s) \<leftarrow> walk_path path s;
     if w_ret w < 0 then Some (w_ret w, s)
     else do {
       let f = w_entry w;
       (r, s) \<leftarrow> file_set_size f 0 s;
       s \<leftarrow> wr8 f 0 s;
       (i, s) \<leftarrow> rd16 (f + DE_in_ind) s;
       s \<leftarrow> wr16 (inode_ptr i s + IN_size) 0 s;
       s \<leftarrow> flush_block f s;
       s \<leftarrow> flush_block (finodes s) s;
       Some (0, s)
     }
   }"

definition file_open :: "u8 list \<Rightarrow> fs \<Rightarrow> ((int \<times> nat) \<times> fs) option" where
  "file_open path s = do {
     (w, s) \<leftarrow> walk_path path s;
     Some ((w_ret w, w_entry w), s)
   }"

section \<open>Reading and writing\<close>

text \<open>\<open>memmove\<close> between the request page and the disk map, a byte at a time.\<close>

fun rd_mem :: "nat \<Rightarrow> nat \<Rightarrow> fs \<Rightarrow> (u8 list \<times> fs) option" where
  "rd_mem a 0 s = Some ([], s)"
| "rd_mem a (Suc n) s = do {
     (c, s) \<leftarrow> rd8 a s;
     (cs, s) \<leftarrow> rd_mem (Suc a) n s;
     Some (c # cs, s)
   }"

fun wr_mem :: "nat \<Rightarrow> u8 list \<Rightarrow> fs \<Rightarrow> fs option" where
  "wr_mem a [] s = Some s"
| "wr_mem a (c # cs) s = do { s \<leftarrow> wr8 a c s; wr_mem (Suc a) cs s }"

text \<open>
  \<open>pos\<close>, \<open>offset\<close> are \<open>off_t\<close> (signed), \<open>count\<close> is a \<open>size_t\<close>: the loop test and the
  minimum compare unsigned, the division and the remainder are signed.
\<close>

definition pos_block :: "u32 \<Rightarrow> u16" where
  "pos_block pos = word_of_int (c_div (sint pos) (int BLKSIZE))"

definition pos_off :: "u32 \<Rightarrow> int" where
  "pos_off pos = c_mod (sint pos) (int BLKSIZE)"

definition chunk :: "u32 \<Rightarrow> u32 \<Rightarrow> u32" where
  "chunk pos endp = min (word_of_int (int BLKSIZE - pos_off pos)) (endp - pos)"

lemma pos_off_bounds: "- 4096 < pos_off pos" "pos_off pos < 4096"
  using c_mod_lower [of "int BLKSIZE" "sint pos"] c_mod_upper [of "int BLKSIZE" "sint pos"]
  by (simp_all add: pos_off_def BLKSIZE_def)

lemma chunk_pos: "pos < endp \<Longrightarrow> 0 < chunk pos endp"
proof -
  assume "pos < endp"
  then have "0 < endp - pos" by (simp add: word_greater_zero_iff)
  moreover have "uint (word_of_int (int BLKSIZE - pos_off pos) :: u32) = int BLKSIZE - pos_off pos"
    using pos_off_bounds [of pos] unfolding uint_word_of_int by (simp add: BLKSIZE_def)
  then have "0 < (word_of_int (int BLKSIZE - pos_off pos) :: u32)"
    using pos_off_bounds [of pos] unfolding word_less_def BLKSIZE_def by simp
  ultimately show ?thesis unfolding chunk_def by (rule min_less_iff_conj [THEN iffD2, OF conjI, rotated])
qed

lemma chunk_less:
  assumes "pos < endp"
  shows "unat (endp - (pos + chunk pos endp)) < unat (endp - pos)"
proof -
  let ?c = "chunk pos endp"
  have le: "?c \<le> endp - pos" by (simp add: chunk_def)
  have "unat (endp - (pos + ?c)) = unat (endp - pos) - unat ?c"
    using unat_sub [OF le] by (simp only: diff_diff_eq)
  moreover have "0 < unat ?c" "unat ?c \<le> unat (endp - pos)"
    using chunk_pos [OF assms] le by (simp_all add: word_less_nat_alt word_le_nat_alt)
  ultimately show ?thesis by linarith
qed

function file_read_loop ::
    "nat \<Rightarrow> u32 \<Rightarrow> u32 \<Rightarrow> nat \<Rightarrow> bytemem \<Rightarrow> fs \<Rightarrow> ((int \<times> bytemem) \<times> fs) option" where
  "file_read_loop inode endp pos k buf s =
     (if pos < endp then do {
        ((r, b), s) \<leftarrow> file_get_block inode (pos_block pos) s;
        if r < 0 then Some ((r, buf), s)
        else do {
          let bn = chunk pos endp;
          (bs, s) \<leftarrow> rd_mem (nat (int b + pos_off pos)) (unat bn) s;
          file_read_loop inode endp (pos + bn) (k + unat bn) (set_bytes k bs buf) s
        }
      }
      else Some ((0, buf), s))"
  by pat_completeness auto
termination
  by (relation "measure (\<lambda>(inode, endp, pos, k, buf, s). unat (endp - pos))")
     (auto dest: chunk_less)

declare file_read_loop.simps [simp del]

definition file_read :: "nat \<Rightarrow> bytemem \<Rightarrow> u32 \<Rightarrow> i32 \<Rightarrow> fs \<Rightarrow> ((int \<times> bytemem) \<times> fs) option" where
  "file_read f buf count offset s = do {
     (i, s) \<leftarrow> rd16 (f + DE_in_ind) s;
     let inode = inode_ptr i s;
     (z, s) \<leftarrow> rd16 (inode + IN_size) s;
     if uint z \<le> sint offset then Some ((0, buf), s)
     else do {
       let count = min count (ucast z - offset);
       ((r, buf), s) \<leftarrow> file_read_loop inode (offset + count) offset 0 buf s;
       if r < 0 then Some ((r, buf), s) else Some ((sint count, buf), s)
     }
   }"

function file_write_loop :: "nat \<Rightarrow> u32 \<Rightarrow> u32 \<Rightarrow> nat \<Rightarrow> bytemem \<Rightarrow> fs \<Rightarrow> (int \<times> fs) option" where
  "file_write_loop inode endp pos k buf s =
     (if pos < endp then do {
        ((r, b), s) \<leftarrow> file_get_block inode (pos_block pos) s;
        if r < 0 then Some (r, s)
        else do {
          let bn = chunk pos endp;
          s \<leftarrow> wr_mem (nat (int b + pos_off pos)) (get_bytes buf k (unat bn)) s;
          file_write_loop inode endp (pos + bn) (k + unat bn) buf s
        }
      }
      else Some (0, s))"
  by pat_completeness auto
termination
  by (relation "measure (\<lambda>(inode, endp, pos, k, buf, s). unat (endp - pos))")
     (auto dest: chunk_less)

declare file_write_loop.simps [simp del]

definition file_write :: "nat \<Rightarrow> bytemem \<Rightarrow> u32 \<Rightarrow> i32 \<Rightarrow> fs \<Rightarrow> (int \<times> fs) option" where
  "file_write f buf count offset s = do {
     (i, s) \<leftarrow> rd16 (f + DE_in_ind) s;
     let inode = inode_ptr i s;
     (z, s) \<leftarrow> rd16 (inode + IN_size) s;
     (r, s) \<leftarrow> (if ucast z < offset + count then file_set_size f (offset + count) s else Some (0, s));
     if r < 0 then Some (r, s)
     else do {
       (r, s) \<leftarrow> file_write_loop inode (offset + count) offset 0 buf s;
       if r < 0 then Some (r, s)
       else do {
         s \<leftarrow> file_flush f s;
         Some (sint count, s)
       }
     }
   }"

section \<open>Syncing\<close>

function fs_sync_loop :: "nat \<Rightarrow> fs \<Rightarrow> fs option" where
  "fs_sync_loop i s = do {
     (n, s) \<leftarrow> rd16 (fsuper s + SB_blk_num) s;
     if i < unat n then do {
       (a, s) \<leftarrow> diskaddr i s;
       s \<leftarrow> flush_block a s;
       fs_sync_loop (Suc i) s
     }
     else Some s
   }"
  by pat_completeness auto
termination
  by (relation "measure (\<lambda>(i, s). 65536 - i)") (auto intro: less_unat_u16_measure)

declare fs_sync_loop.simps [simp del]

definition fs_sync :: "fs \<Rightarrow> fs option" where
  "fs_sync s = fs_sync_loop 1 s"

end
