(* ===== verification/FileOps.thy ===== *)
theory FileOps
  imports DamnFS
begin

text \<open>
  What the file operations do to the memory a state shows: fields of inodes and blocks of files
  are read off the memory, and each operation is given by an update of it.  The invariant
  \<open>m_file\<close> says that a directory entry names an inode whose block slots are allocated,
  distinct and disjoint from the metadata and from the entry's own block.
\<close>

section \<open>Inodes in memory\<close>

definition iaddr :: "nat \<Rightarrow> nat" where "iaddr i = DISKMAP + BLKSIZE + INSIZE * i"

definition m_type :: "bytemem \<Rightarrow> nat \<Rightarrow> u16" where "m_type m i = get16 m (iaddr i + IN_type)"
definition m_size :: "bytemem \<Rightarrow> nat \<Rightarrow> u16" where "m_size m i = get16 m (iaddr i + IN_size)"
definition m_used :: "bytemem \<Rightarrow> nat \<Rightarrow> u16" where "m_used m i = get16 m (iaddr i + IN_blk_used)"
definition slot_addr :: "nat \<Rightarrow> nat \<Rightarrow> nat" where "slot_addr i k = iaddr i + IN_blk_ind + 2 * k"
definition m_slot :: "bytemem \<Rightarrow> nat \<Rightarrow> nat \<Rightarrow> nat" where "m_slot m i k = unat (get16 m (slot_addr i k))"

text \<open>The image's geometry is sound and the superblock and the inode block are marked in use.\<close>

definition m_wf :: "bytemem \<Rightarrow> bool" where
  "m_wf m \<longleftrightarrow> m_geom m \<and> 2 \<le> m_blk_num m \<and> bm_bit m SB_blk_ocp 0 \<and> bm_bit m SB_blk_ocp 1"

lemma m_wf_geom: "m_wf m \<Longrightarrow> m_geom m"
  by (simp add: m_wf_def)

lemma inode_field_range: "i < 128 \<Longrightarrow> k < 32 \<Longrightarrow> DISKMAP + BLKSIZE \<le> iaddr i + k \<and> iaddr i + k < DISKMAP + 2 * BLKSIZE"
  by (simp add: iaddr_def fs_consts)

lemma blk_inode: "i < 128 \<Longrightarrow> k < 32 \<Longrightarrow> in_cache (iaddr i + k) \<and> blk (iaddr i + k) = 1"
  by (simp add: iaddr_def in_cache_def blk_def fs_consts)

lemma m_addr_inode: "m_wf m \<Longrightarrow> i < 128 \<Longrightarrow> k < 32 \<Longrightarrow> m_addr m (iaddr i + k)"
  using blk_inode [of i k] by (auto simp: m_addr_def m_wf_def)

lemma one_block_inode:
  assumes "i < 128" "k + 2 \<le> 32"
  shows "one_block (iaddr i + k) 2"
proof -
  have "(iaddr i + k) mod BLKSIZE = (INSIZE * i + k) mod BLKSIZE"
  proof -
    have "iaddr i + k = INSIZE * i + k + 65537 * BLKSIZE" by (simp add: iaddr_def fs_consts)
    then show ?thesis by (simp only: mod_mult_self1)
  qed
  then show ?thesis using assms by (simp add: one_block_def fs_consts)
qed

lemma inode_ptr_eq: "sees s m \<Longrightarrow> inode_ptr w s = iaddr (unat w)"
  by (simp add: inode_ptr_def iaddr_def sees_def meta_ok_def)

lemma walk_slot: "unat k < NDIRECT \<Longrightarrow> file_block_walk (iaddr i) k = (0, slot_addr i (unat k))"
  by (simp add: file_block_walk_def slot_addr_def)

lemma slot_addr_field: "k < NDIRECT \<Longrightarrow> slot_addr i k = iaddr i + (6 + 2 * k) \<and> 6 + 2 * k + 2 \<le> 32"
  by (simp add: slot_addr_def fs_consts)

lemma m_addr_slot: "m_wf m \<Longrightarrow> i < 128 \<Longrightarrow> k < NDIRECT \<Longrightarrow> m_addr m (slot_addr i k) \<and> one_block (slot_addr i k) 2"
  using slot_addr_field [of k i] m_addr_inode [of m i "6 + 2 * k"] one_block_inode [of i "6 + 2 * k"] by simp

lemma m_addr_fields:
  assumes "m_wf m" "i < 128"
  shows "m_addr m (iaddr i + IN_size) \<and> one_block (iaddr i + IN_size) 2"
    "m_addr m (iaddr i + IN_blk_used) \<and> one_block (iaddr i + IN_blk_used) 2"
    "m_addr m (iaddr i + IN_type) \<and> one_block (iaddr i + IN_type) 2"
  using assms m_addr_inode [of m i IN_size] one_block_inode [of i IN_size]
    m_addr_inode [of m i IN_blk_used] one_block_inode [of i IN_blk_used]
    m_addr_inode [of m i IN_type] one_block_inode [of i IN_type]
  by (simp_all add: IN_size_def IN_blk_used_def IN_type_def)

section \<open>file_get_block\<close>

text \<open>The effect of attaching block \<open>b\<close> to slot \<open>k\<close> of inode \<open>i\<close>.\<close>

definition m_grow :: "nat \<Rightarrow> nat \<Rightarrow> nat \<Rightarrow> bytemem \<Rightarrow> bytemem" where
  "m_grow i k b m =
     (let m1 = set16 (slot_addr i k) (of_nat b) (bm_set SB_blk_ocp b m) in
      set16 (iaddr i + IN_blk_used) (get16 m1 (iaddr i + IN_blk_used) + 1) m1)"

text \<open>Updates of the inode block keep the superblock.\<close>

lemma set16_inode_super:
  assumes "i < 128" "k + 2 \<le> 32" "x < DISKMAP + BLKSIZE \<or> DISKMAP + 2 * BLKSIZE \<le> x"
  shows "set16 (iaddr i + k) v m x = m x"
  using inode_field_range [of i k] inode_field_range [of i "k + 1"] assms by (intro set16_other) auto

lemma m_wf_cong:
  assumes "m_wf m" "\<And>x. DISKMAP \<le> x \<Longrightarrow> x < DISKMAP + BLKSIZE \<Longrightarrow> m' x = m x"
  shows "m_wf m'"
  using assms(1) outside_super [OF assms(2)] by (simp add: m_wf_def m_geom_def)

lemma m_wf_set16: "m_wf m \<Longrightarrow> i < 128 \<Longrightarrow> k + 2 \<le> 32 \<Longrightarrow> m_wf (set16 (iaddr i + k) v m)"
  by (erule m_wf_cong) (simp add: set16_inode_super)

lemma m_wf_bm_set: "m_wf m \<Longrightarrow> b < 4096 \<Longrightarrow> m_wf (bm_set SB_blk_ocp b m)"
  by (simp add: m_wf_def m_geom_def m_nums_bm bm_bit_set)

lemma m_wf_bm_clear: "m_wf m \<Longrightarrow> 2 \<le> b \<Longrightarrow> b < 4096 \<Longrightarrow> m_wf (bm_clear SB_blk_ocp b m)"
  by (simp add: m_wf_def m_geom_def m_nums_bm bm_bit_clear)

lemma m_wf_ibm: "m_wf m \<Longrightarrow> i < 128 \<Longrightarrow> m_wf (bm_set SB_in_ocp i m)"
  using bm_addr_ino [of i] bm_addr_blk [of 0] bm_addr_blk [of 1]
  by (simp add: m_wf_def m_geom_def m_nums_bm bm_other_map)

lemma m_free_ge2: "m_wf m \<Longrightarrow> b \<in> m_free m \<Longrightarrow> 2 \<le> b \<and> b < 4096 \<and> b < m_blk_num m"
  using m_free_bound(1) [of m b] by (cases b; cases "b - 1") (auto simp: m_wf_def m_free_def)

lemma file_get_block_run:
  assumes s: "sees s m" and wf: "m_wf m" and i: "i < 128"
  shows "NDIRECT \<le> unat k \<Longrightarrow> runs (file_get_block (iaddr i) k s) (- E_INVAL, 0) m"
    and "unat k < NDIRECT \<Longrightarrow> m_slot m i (unat k) \<noteq> 0 \<Longrightarrow> m_slot m i (unat k) < m_blk_num m \<Longrightarrow>
      runs (file_get_block (iaddr i) k s) (0, DISKMAP + m_slot m i (unat k) * BLKSIZE) m"
    and "unat k < NDIRECT \<Longrightarrow> m_slot m i (unat k) = 0 \<Longrightarrow> m_free m = {} \<Longrightarrow>
      runs (file_get_block (iaddr i) k s) (- E_NO_DISK, 0) m"
    and "unat k < NDIRECT \<Longrightarrow> m_slot m i (unat k) = 0 \<Longrightarrow> m_free m \<noteq> {} \<Longrightarrow>
      runs (file_get_block (iaddr i) k s) (0, DISKMAP + Min (m_free m) * BLKSIZE)
        (m_grow i (unat k) (Min (m_free m)) m)"
proof -
  note g = m_wf_geom [OF wf]
  show "runs (file_get_block (iaddr i) k s) (- E_INVAL, 0) m" if "NDIRECT \<le> unat k"
    using that s by (simp add: file_get_block_def file_block_walk_def runs_Some err_defs)
  assume k: "unat k < NDIRECT"
  note sl = m_addr_slot [OF wf i k]
  note walk = walk_slot [OF k]
  have ci: "in_cache (iaddr i)" using blk_inode [OF i, of 0] by simp
  show "runs (file_get_block (iaddr i) k s) (0, DISKMAP + m_slot m i (unat k) * BLKSIZE) m"
    if "m_slot m i (unat k) \<noteq> 0" "m_slot m i (unat k) < m_blk_num m"
    using that s g sl ci unfolding file_get_block_def walk m_slot_def
    by (auto intro!: runs_bind [OF rd16_run] runs_bind [OF runs_Some] runs_bind [OF diskaddr_run]
        runs_bind_ [OF flush_run] runs_Some)
  from rd16_run [OF s g, of "slot_addr i (unat k)"] sl obtain s1
    where s1: "rd16 (slot_addr i (unat k)) s = Some (get16 m (slot_addr i (unat k)), s1)" "sees s1 m"
    by (auto elim: runsE)
  show "runs (file_get_block (iaddr i) k s) (- E_NO_DISK, 0) m"
    if "m_slot m i (unat k) = 0" "m_free m = {}"
    using that alloc_block_run(1) [OF s1(2) g that(2)] unfolding file_get_block_def walk m_slot_def
    by (auto elim!: runsE simp: s1 err_defs unat_eq_0 runs_Some)
  show "runs (file_get_block (iaddr i) k s) (0, DISKMAP + Min (m_free m) * BLKSIZE)
        (m_grow i (unat k) (Min (m_free m)) m)"
    if z: "m_slot m i (unat k) = 0" and ne: "m_free m \<noteq> {}"
  proof -
    let ?b = "Min (m_free m)"
    let ?m1 = "bm_set SB_blk_ocp ?b m" and ?a = "slot_addr i (unat k)" and ?u = "iaddr i + IN_blk_used"
    let ?m2 = "set16 ?a (of_nat ?b) ?m1"
    let ?m3 = "m_grow i (unat k) ?b m"
    have b: "2 \<le> ?b" "?b < 4096" "?b < m_blk_num m"
      using m_free_ge2 [OF wf Min_in] ne by auto
    have wf1: "m_wf ?m1" by (rule m_wf_bm_set [OF wf b(2)])
    have wf2: "m_wf ?m2" using m_wf_set16 [OF wf1 i] slot_addr_field [OF k, of i] by simp
    have wf3: "m_wf ?m3" unfolding m_grow_def Let_def
      using m_wf_set16 [OF wf2 i, of IN_blk_used] by (simp add: IN_blk_used_def)
    have num: "m_blk_num ?m3 = m_blk_num m"
    proof -
      have "m_blk_num ?m3 = m_blk_num ?m1" unfolding m_grow_def Let_def
        by (rule outside_super(1))
           (use set16_inode_super [OF i] slot_addr_field [OF k, of i] in \<open>simp add: IN_blk_used_def\<close>)
      then show ?thesis using m_nums_bm(1) b(2) by simp
    qed
    have rd: "get16 ?m3 ?a = of_nat ?b"
      by (simp add: m_grow_def Let_def mem_simps slot_addr_def fs_consts)
    from alloc_block_run(2) [OF s1(2) g ne] obtain s2
      where s2: "alloc_block s1 = Some (int ?b, s2)" "sees s2 ?m1" by (rule runsE)
    from wr16_run [OF s2(2) m_wf_geom [OF wf1], of ?a "of_nat ?b"] m_addr_slot [OF wf1 i k] obtain s3
      where s3: "wr16 ?a (of_nat ?b) s2 = Some s3" "sees s3 ?m2" by (auto elim: goesE)
    from rd16_run [OF s3(2) m_wf_geom [OF wf2], of ?u] m_addr_fields(2) [OF wf2 i] obtain s4
      where s4: "rd16 ?u s3 = Some (get16 ?m2 ?u, s4)" "sees s4 ?m2" by (auto elim: runsE)
    from wr16_run [OF s4(2) m_wf_geom [OF wf2], of ?u "get16 ?m2 ?u + 1"] m_addr_fields(2) [OF wf2 i] obtain s5
      where s5: "wr16 ?u (get16 ?m2 ?u + 1) s4 = Some s5" "sees s5 ?m3"
      by (auto elim: goesE simp: m_grow_def Let_def)
    from rd16_run [OF s5(2) m_wf_geom [OF wf3], of ?a] m_addr_slot [OF wf3 i k] rd obtain s6
      where s6: "rd16 ?a s5 = Some (of_nat ?b, s6)" "sees s6 ?m3" by (auto elim: runsE)
    from diskaddr_run [OF s6(2), of ?b] b num obtain s7
      where s7: "diskaddr ?b s6 = Some (DISKMAP + ?b * BLKSIZE, s7)" "sees s7 ?m3" by (auto elim: runsE)
    from flush_run [OF s7(2) ci] obtain s8
      where s8: "flush_block (iaddr i) s7 = Some s8" "sees s8 ?m3" by (rule goesE)
    have "get16 m ?a = 0" using z by (simp add: m_slot_def unat_eq_0)
    then show ?thesis
      using b(2) by (simp add: file_get_block_def walk s1 s2 s3 s4 s5 s6 s7 s8 unat_of_nat_u16 runs_Some)
  qed
qed

section \<open>Files\<close>

definition m_file :: "bytemem \<Rightarrow> nat \<Rightarrow> nat \<Rightarrow> bool" where
  "m_file m f i \<longleftrightarrow>
     m_wf m \<and> i < 128 \<and> m_addr m f \<and> 2 \<le> blk f \<and> one_block f DIRESIZE
     \<and> get16 m (f + DE_in_ind) = of_nat i
     \<and> (\<forall>k<NDIRECT. m_slot m i k \<noteq> 0 \<longrightarrow>
          2 \<le> m_slot m i k \<and> m_slot m i k < m_blk_num m
          \<and> bm_bit m SB_blk_ocp (m_slot m i k) \<and> m_slot m i k \<noteq> blk f)
     \<and> (\<forall>j<NDIRECT. \<forall>k<NDIRECT. j \<noteq> k \<longrightarrow> m_slot m i j = m_slot m i k \<longrightarrow> m_slot m i j = 0)"

text \<open>Byte \<open>p\<close> of the file, if its block is there.\<close>

definition m_byte :: "bytemem \<Rightarrow> nat \<Rightarrow> nat \<Rightarrow> u8" where
  "m_byte m i p = m (DISKMAP + m_slot m i (p div BLKSIZE) * BLKSIZE + p mod BLKSIZE)"

definition has_block :: "bytemem \<Rightarrow> nat \<Rightarrow> nat \<Rightarrow> bool" where
  "has_block m i p \<longleftrightarrow> m_slot m i (p div BLKSIZE) \<noteq> 0"

definition MAXSIZE :: nat where "MAXSIZE = NDIRECT * BLKSIZE"

lemma MAXSIZE_eq: "MAXSIZE = 53248"
  by (simp add: MAXSIZE_def fs_consts)

lemma pos_slot: "p < MAXSIZE \<Longrightarrow> p div BLKSIZE < NDIRECT"
  unfolding MAXSIZE_def by (rule less_mult_imp_div_less)

lemma blkoff [simp]: "p mod BLKSIZE < BLKSIZE"
  by (simp add: BLKSIZE_def)

text \<open>Two data addresses agree only if their blocks and offsets do.\<close>

lemma data_addr_eq:
  "x < BLKSIZE \<Longrightarrow> y < BLKSIZE \<Longrightarrow>
   (DISKMAP + b * BLKSIZE + x = DISKMAP + c * BLKSIZE + y) = (b = c \<and> x = y)"
  by (metis add_left_cancel blk_addr)

lemma blk_ge2: "2 \<le> blk a \<Longrightarrow> DISKMAP + 2 * BLKSIZE \<le> a"
proof -
  assume "2 \<le> blk a"
  then have "2 * BLKSIZE \<le> (a - DISKMAP)"
    unfolding blk_def by (simp add: BLKSIZE_def less_eq_div_iff_mult_less_eq)
  then show ?thesis by (simp add: BLKSIZE_def)
qed

lemma entry_addr:
  assumes "m_file m f i" "k < DIRESIZE"
  shows "m_addr m (f + k)" "blk (f + k) = blk f" "DISKMAP + 2 * BLKSIZE \<le> f + k"
proof -
  have "in_cache (f + k) \<and> blk (f + k) = blk f"
    using assms one_block_blk [of f DIRESIZE k] by (auto simp: m_file_def m_addr_def)
  then show "m_addr m (f + k)" "blk (f + k) = blk f" "DISKMAP + 2 * BLKSIZE \<le> f + k"
    using assms blk_ge2 [of f] by (auto simp: m_file_def m_addr_def)
qed

lemma entry_in_ind:
  assumes "m_file m f i"
  shows "m_addr m (f + DE_in_ind)" "one_block (f + DE_in_ind) 2"
proof -
  show "m_addr m (f + DE_in_ind)" using entry_addr(1) [OF assms] by (simp add: fs_consts)
  have "f mod BLKSIZE + 18 \<le> BLKSIZE" using assms by (simp add: m_file_def one_block_def DIRESIZE_def)
  then have "(f + 16) mod BLKSIZE = f mod BLKSIZE + 16"
    by (simp add: mod_add_eq [symmetric, of f 16] BLKSIZE_def)
  with \<open>f mod BLKSIZE + 18 \<le> BLKSIZE\<close> show "one_block (f + DE_in_ind) 2"
    by (simp add: one_block_def DE_in_ind_def)
qed

lemma m_file_wf: "m_file m f i \<Longrightarrow> m_wf m" "m_file m f i \<Longrightarrow> m_geom m" "m_file m f i \<Longrightarrow> i < 128"
  by (auto simp: m_file_def m_wf_def)

lemma m_file_slot:
  assumes "m_file m f i" "k < NDIRECT" "m_slot m i k \<noteq> 0"
  shows "2 \<le> m_slot m i k" "m_slot m i k < m_blk_num m" "m_slot m i k < 4096"
    "bm_bit m SB_blk_ocp (m_slot m i k)" "m_slot m i k \<noteq> blk f"
  using assms by (auto simp: m_file_def m_wf_def m_geom_def)

text \<open>Writing within one data block of the file.\<close>

definition m_put :: "nat \<Rightarrow> nat \<Rightarrow> u8 list \<Rightarrow> bytemem \<Rightarrow> bytemem" where
  "m_put b off bs m = set_bytes (DISKMAP + b * BLKSIZE + off) bs m"

lemma m_put_meta: "2 \<le> b \<Longrightarrow> x < DISKMAP + 2 * BLKSIZE \<Longrightarrow> m_put b off bs m x = m x"
proof -
  assume "2 \<le> b" "x < DISKMAP + 2 * BLKSIZE"
  moreover from this(1) have "2 * BLKSIZE \<le> b * BLKSIZE" by (rule mult_le_mono1)
  ultimately show ?thesis unfolding m_put_def by (intro set_bytes_outside) linarith
qed

lemma m_put_other_block:
  assumes "off + length bs \<le> BLKSIZE" "DISKMAP \<le> x" "blk x \<noteq> b"
  shows "m_put b off bs m x = m x"
proof -
  have "x < DISKMAP + b * BLKSIZE \<or> DISKMAP + b * BLKSIZE + BLKSIZE \<le> x"
    using off_in_block [of b "x - DISKMAP"] assms(2,3) by (auto simp: blk_def)
  with assms(1) show ?thesis unfolding m_put_def by (intro set_bytes_outside) linarith
qed

lemma m_inode_cong:
  assumes "\<And>x. DISKMAP + BLKSIZE \<le> x \<Longrightarrow> x < DISKMAP + 2 * BLKSIZE \<Longrightarrow> m' x = m x" "i < 128"
  shows "m_size m' i = m_size m i" "m_used m' i = m_used m i" "m_type m' i = m_type m i"
    "k < NDIRECT \<Longrightarrow> m_slot m' i k = m_slot m i k"
proof -
  have f: "get16 m' (iaddr i + c) = get16 m (iaddr i + c)" if "c + 2 \<le> 32" for c
    using inode_field_range [OF assms(2), of c] inode_field_range [OF assms(2), of "c + 1"] that
    by (intro get16_cong assms(1)) auto
  show "m_size m' i = m_size m i" "m_used m' i = m_used m i" "m_type m' i = m_type m i"
    by (simp_all only: m_size_def m_used_def m_type_def f IN_size_def IN_blk_used_def IN_type_def)
  show "m_slot m' i k = m_slot m i k" if "k < NDIRECT"
    using slot_addr_field [OF that, of i] f [of "6 + 2 * k"] by (simp add: m_slot_def)
qed

lemma m_file_cong:
  assumes "m_file m f i"
    and super: "m_blk_num m' = m_blk_num m" "m_in_num m' = m_in_num m"
      "\<And>b. b < 4096 \<Longrightarrow> bm_bit m' SB_blk_ocp b = bm_bit m SB_blk_ocp b"
    and slots: "\<And>k. k < NDIRECT \<Longrightarrow> m_slot m' i k = m_slot m i k"
    and entry: "get16 m' (f + DE_in_ind) = get16 m (f + DE_in_ind)"
  shows "m_file m' f i"
proof -
  have lim: "m_blk_num m \<le> 4096" using assms(1) by (simp add: m_file_def m_wf_def m_geom_def)
  have bits: "bm_bit m' SB_blk_ocp b = bm_bit m SB_blk_ocp b" if "b < m_blk_num m" for b
    using that super(3) [of b] lim by simp
  have "blk f < m_blk_num m" "2 \<le> m_blk_num m" using assms(1) by (auto simp: m_file_def m_addr_def m_wf_def)
  with assms(1) super(1,2) bits slots entry bits [of 0] bits [of 1] show ?thesis
    by (auto simp: m_file_def m_wf_def m_geom_def m_addr_def)
qed

lemma in_ind_range: "DE_in_ind < DIRESIZE" "Suc DE_in_ind < DIRESIZE"
  by (simp_all add: fs_consts)

lemma in_ind_cong:
  assumes "\<And>c. c < DIRESIZE \<Longrightarrow> m' (f + c) = m (f + c)"
  shows "get16 m' (f + DE_in_ind) = get16 m (f + DE_in_ind)"
  using assms [of DE_in_ind] assms [of "Suc DE_in_ind"] in_ind_range by (intro get16_cong) auto

lemma m_file_put:
  assumes m: "m_file m f i" and k: "k < NDIRECT" "m_slot m i k \<noteq> 0" and len: "off + length bs \<le> BLKSIZE"
  defines "m' \<equiv> m_put (m_slot m i k) off bs m"
  shows "m_file m' f i" "\<And>j. j < NDIRECT \<Longrightarrow> m_slot m' i j = m_slot m i j" "m_size m' i = m_size m i"
    "m_free m' = m_free m"
    "\<And>p. p < MAXSIZE \<Longrightarrow> has_block m i p \<Longrightarrow>
       m_byte m' i p = (if p div BLKSIZE = k \<and> off \<le> p mod BLKSIZE \<and> p mod BLKSIZE < off + length bs
                        then bs ! (p mod BLKSIZE - off) else m_byte m i p)"
proof -
  note b = m_file_slot [OF m k]
  have meta: "m' x = m x" if "x < DISKMAP + 2 * BLKSIZE" for x
    unfolding m'_def using that by (rule m_put_meta [OF b(1)])
  note sup = outside_super [of m' m, OF meta]
  show slots: "m_slot m' i j = m_slot m i j" if "j < NDIRECT" for j
    using m_inode_cong(4) [of m' m i j] meta m_file_wf(3) [OF m] that by auto
  show "m_size m' i = m_size m i"
    using m_inode_cong(1) [of m' m i] meta m_file_wf(3) [OF m] by auto
  have entry: "m' (f + c) = m (f + c)" if "c < DIRESIZE" for c
    unfolding m'_def using entry_addr(2,3) [OF m that] b(5) by (intro m_put_other_block [OF len]) auto
  show "m_file m' f i"
    using slots sup entry by (intro m_file_cong [OF m] in_ind_cong) (auto simp: BLKSIZE_def)
  show "m_free m' = m_free m"
    using sup m_file_wf(2) [OF m] by (auto simp: m_free_def m_geom_def BLKSIZE_def)
  fix p
  assume p: "p < MAXSIZE" "has_block m i p"
  let ?j = "p div BLKSIZE"
  have "m_slot m i ?j \<noteq> 0" using p by (simp add: has_block_def)
  then have inj: "(m_slot m i ?j = m_slot m i k) = (?j = k)"
    using m k(1) pos_slot [OF p(1)] unfolding m_file_def by metis
  show "m_byte m' i p = (if ?j = k \<and> off \<le> p mod BLKSIZE \<and> p mod BLKSIZE < off + length bs
                        then bs ! (p mod BLKSIZE - off) else m_byte m i p)"
  proof (cases "?j = k")
    case True
    then show ?thesis
      using slots [OF pos_slot [OF p(1)]]
      by (auto simp: m_byte_def m'_def m_put_def set_bytes_apply)
  next
    case False
    then have "blk (DISKMAP + m_slot m i ?j * BLKSIZE + p mod BLKSIZE) \<noteq> m_slot m i k"
      using inj by simp
    then show ?thesis
      using m_put_other_block [OF len] slots [OF pos_slot [OF p(1)]] False
      by (simp add: m_byte_def m'_def)
  qed
qed


text \<open>Attaching a free block to an empty slot.\<close>

lemma m_grow_super:
  assumes "i < 128" "k < NDIRECT" "x < DISKMAP + BLKSIZE \<or> DISKMAP + 2 * BLKSIZE \<le> x"
  shows "m_grow i k b m x = bm_set SB_blk_ocp b m x"
  using set16_inode_super [OF assms(1) _ assms(3)] slot_addr_field [OF assms(2), of i]
  by (simp add: m_grow_def Let_def IN_blk_used_def)

lemma bm_set_data: "b < 4096 \<Longrightarrow> DISKMAP + BLKSIZE \<le> x \<Longrightarrow> bm_set SB_blk_ocp b m x = m x"
  by (rule bm_addr_in_super(1)) auto

lemma m_grow_data:
  "i < 128 \<Longrightarrow> k < NDIRECT \<Longrightarrow> b < 4096 \<Longrightarrow> DISKMAP + 2 * BLKSIZE \<le> x \<Longrightarrow> m_grow i k b m x = m x"
  by (simp add: m_grow_super bm_set_data)

text \<open>Outside the 32 bytes of the inode, the inode block keeps its content.\<close>

lemma m_grow_inodes:
  assumes "k < NDIRECT" "b < 4096" "DISKMAP + BLKSIZE \<le> x" "x < iaddr i \<or> iaddr i + INSIZE \<le> x"
  shows "m_grow i k b m x = m x"
proof -
  have "set16 (iaddr i + c) v n x = n x" if "c + 2 \<le> 32" for c v n
    using assms(4) that by (intro set16_other) (auto simp: INSIZE_def)
  then show ?thesis
    using slot_addr_field [OF assms(1), of i] assms(2,3)
    by (simp add: m_grow_def Let_def IN_blk_used_def bm_set_data)
qed

lemma m_grow_fields:
  assumes "i < 128" "k < NDIRECT" "b < 4096"
  shows "j < NDIRECT \<Longrightarrow> m_slot (m_grow i k b m) i j = (if j = k then b else m_slot m i j)"
    "m_size (m_grow i k b m) i = m_size m i" "m_type (m_grow i k b m) i = m_type m i"
    "m_used (m_grow i k b m) i = m_used m i + 1"
proof -
  let ?m1 = "bm_set SB_blk_ocp b m"
  have same: "\<And>x. DISKMAP + BLKSIZE \<le> x \<Longrightarrow> x < DISKMAP + 2 * BLKSIZE \<Longrightarrow> ?m1 x = m x"
    using assms(3) by (simp add: bm_set_data)
  note base = m_inode_cong [of ?m1 m, OF same assms(1), unfolded m_slot_def m_size_def m_type_def m_used_def]
  show "m_slot (m_grow i k b m) i j = (if j = k then b else m_slot m i j)" if "j < NDIRECT"
    using that assms base(4) [of j]
    by (cases j k rule: linorder_cases)
       (simp_all add: m_slot_def m_grow_def Let_def mem_simps slot_addr_def IN_blk_used_def IN_blk_ind_def
         unat_of_nat_u16)
  show "m_size (m_grow i k b m) i = m_size m i" "m_type (m_grow i k b m) i = m_type m i"
    "m_used (m_grow i k b m) i = m_used m i + 1"
    using base by (simp_all add: m_size_def m_type_def m_used_def m_grow_def Let_def mem_simps slot_addr_def fs_consts)
qed

lemma m_grow_bits:
  assumes "i < 128" "k < NDIRECT" "b < 4096"
  shows "m_blk_num (m_grow i k b m) = m_blk_num m" "m_in_num (m_grow i k b m) = m_in_num m"
    "c < 4096 \<Longrightarrow> bm_bit (m_grow i k b m) SB_blk_ocp c = (bm_bit m SB_blk_ocp c \<or> c = b)"
  using outside_super [of "m_grow i k b m" "bm_set SB_blk_ocp b m"] m_grow_super [OF assms(1,2)]
    m_nums_bm [of b SB_blk_ocp m] assms(3)
  by (simp_all add: bm_bit_set)

lemma m_file_grow:
  assumes m: "m_file m f i" and k: "k < NDIRECT" "m_slot m i k = 0" and b: "b \<in> m_free m"
  defines "m' \<equiv> m_grow i k b m"
  shows "m_file m' f i" "m_free m' = m_free m - {b}"
    "\<And>p. p < MAXSIZE \<Longrightarrow> has_block m i p \<Longrightarrow> m_byte m' i p = m_byte m i p"
proof -
  note lim = m_free_ge2 [OF m_file_wf(1) [OF m] b]
  have b4: "b < 4096" using lim by simp
  note i = m_file_wf(3) [OF m]
  note bits = m_grow_bits [OF i k(1) b4, where m = m, folded m'_def]
  note fields = m_grow_fields [OF i k(1) b4, where m = m, folded m'_def]
  have nt: "\<not> bm_bit m SB_blk_ocp b" using b by (simp add: m_free_def)
  have geom: "m_blk_num m \<le> 4096" using m by (simp add: m_file_def m_wf_def m_geom_def)
  have data: "m' x = m x" if "DISKMAP + 2 * BLKSIZE \<le> x" for x
    unfolding m'_def by (rule m_grow_data [OF i k(1) b4 that])
  have wf: "m_wf m'"
    using m_file_wf(1) [OF m] bits by (auto simp: m_wf_def m_geom_def)
  have e: "get16 m' (f + DE_in_ind) = of_nat i"
    using m in_ind_cong [of m' f m] entry_addr(3) [OF m] data by (simp add: m_file_def)
  have fb: "m_addr m' f" "blk f \<noteq> b"
    using m bits(1,3) nt geom by (auto simp: m_file_def m_addr_def)
  have new: "m_slot m i j \<noteq> b" if "j < NDIRECT" for j
    using m_file_slot(4) [OF m that] nt lim by (cases "m_slot m i j = 0") auto
  show "m_file m' f i"
    unfolding m_file_def
  proof (intro conjI allI impI)
    fix j
    assume j: "j < NDIRECT" "m_slot m' i j \<noteq> 0"
    show "2 \<le> m_slot m' i j" "m_slot m' i j < m_blk_num m'" "bm_bit m' SB_blk_ocp (m_slot m' i j)"
      "m_slot m' i j \<noteq> blk f"
      using j lim fb(2) bits m_file_slot [OF m j(1)] by (auto simp: fields(1) split: if_splits)
  next
    fix j l
    assume "j < NDIRECT" "l < NDIRECT" "j \<noteq> l" "m_slot m' i j = m_slot m' i l"
    then show "m_slot m' i j = 0"
      using new [of j] new [of l] m unfolding m_file_def by (auto simp: fields(1) split: if_splits)
  qed (use m wf e fb in \<open>auto simp: m_file_def\<close>)
  show "m_free m' = m_free m - {b}"
    using bits geom by (auto simp: m_free_def)
  show "m_byte m' i p = m_byte m i p" if p: "p < MAXSIZE" "has_block m i p" for p
  proof -
    let ?j = "p div BLKSIZE"
    have h: "m_slot m i ?j \<noteq> 0" "?j \<noteq> k" using p k by (auto simp: has_block_def)
    then have "2 * BLKSIZE \<le> m_slot m i ?j * BLKSIZE"
      using m_file_slot(1) [OF m pos_slot [OF p(1)]] by (intro mult_le_mono1) simp
    then have "DISKMAP + 2 * BLKSIZE \<le> DISKMAP + m_slot m i ?j * BLKSIZE + p mod BLKSIZE" by linarith
    with h show ?thesis using fields(1) [OF pos_slot [OF p(1)]] data by (simp add: m_byte_def)
  qed
qed

section \<open>Growing a file: what is kept\<close>

text \<open>
  \<open>wrote m m' f i lo hi d\<close>: from \<open>m\<close> to \<open>m'\<close>, bytes \<open>lo..<hi\<close> of the file became
  \<open>d\<close>, possibly in freshly allocated blocks, and nothing else changed hands: the file's other
  bytes, every other allocated block and every other inode are as before.
\<close>

definition m_keeps :: "bytemem \<Rightarrow> bytemem \<Rightarrow> nat \<Rightarrow> bool" where
  "m_keeps m m' i \<longleftrightarrow>
     m_blk_num m' = m_blk_num m \<and> m_in_num m' = m_in_num m
     \<and> (\<forall>b<4096. bm_bit m SB_blk_ocp b \<longrightarrow> bm_bit m' SB_blk_ocp b)
     \<and> (\<forall>k<NDIRECT. m_slot m' i k = m_slot m i k \<or> m_slot m i k = 0 \<and> m_slot m' i k \<in> m_free m)
     \<and> (\<forall>x. 2 \<le> blk x \<and> blk x < m_blk_num m \<and> bm_bit m SB_blk_ocp (blk x)
            \<and> (\<forall>k<NDIRECT. m_slot m i k \<noteq> blk x) \<longrightarrow> m' x = m x)
     \<and> (\<forall>x. DISKMAP + BLKSIZE \<le> x \<and> x < DISKMAP + 2 * BLKSIZE \<and> (x < iaddr i \<or> iaddr i + INSIZE \<le> x)
            \<longrightarrow> m' x = m x)"

definition wrote :: "bytemem \<Rightarrow> bytemem \<Rightarrow> nat \<Rightarrow> nat \<Rightarrow> nat \<Rightarrow> nat \<Rightarrow> (nat \<Rightarrow> u8) \<Rightarrow> bool" where
  "wrote m m' f i lo hi d \<longleftrightarrow>
     m_file m' f i \<and> m_size m' i = m_size m i \<and> m_keeps m m' i
     \<and> (\<forall>p<MAXSIZE. lo \<le> p \<and> p < hi \<longrightarrow> has_block m' i p \<and> m_byte m' i p = d p)
     \<and> (\<forall>p<MAXSIZE. has_block m i p \<and> \<not> (lo \<le> p \<and> p < hi) \<longrightarrow> m_byte m' i p = m_byte m i p)"

lemma m_keeps_refl: "m_keeps m m i"
  by (simp add: m_keeps_def)

lemma m_keeps_trans:
  assumes "m_keeps m m1 i" "m_keeps m1 m2 i" "m_blk_num m \<le> 4096"
  shows "m_keeps m m2 i"
  unfolding m_keeps_def
proof (intro conjI allI impI)
  show "m_blk_num m2 = m_blk_num m" "m_in_num m2 = m_in_num m"
    using assms by (auto simp: m_keeps_def)
  show "\<And>b. b < 4096 \<Longrightarrow> bm_bit m SB_blk_ocp b \<Longrightarrow> bm_bit m2 SB_blk_ocp b"
    using assms by (auto simp: m_keeps_def)
  have free: "b \<in> m_free m" if "b \<in> m_free m1" for b
    using that assms by (auto simp: m_keeps_def m_free_def)
  show "m_slot m2 i k = m_slot m i k \<or> m_slot m i k = 0 \<and> m_slot m2 i k \<in> m_free m" if "k < NDIRECT" for k
    using assms(1,2) free [of "m_slot m2 i k"] that unfolding m_keeps_def by metis
  fix x
  assume x: "2 \<le> blk x \<and> blk x < m_blk_num m \<and> bm_bit m SB_blk_ocp (blk x) \<and> (\<forall>k<NDIRECT. m_slot m i k \<noteq> blk x)"
  then have "bm_bit m1 SB_blk_ocp (blk x)" "blk x < m_blk_num m1" "m1 x = m x"
    using assms(1,3) by (auto simp: m_keeps_def)
  moreover have "m_slot m1 i k \<noteq> blk x" if "k < NDIRECT" for k
    using assms(1) x that unfolding m_keeps_def by (auto simp: m_free_def)
  ultimately show "m2 x = m x"
    using assms(2) x by (auto simp: m_keeps_def)
next
  fix x
  assume "DISKMAP + BLKSIZE \<le> x \<and> x < DISKMAP + 2 * BLKSIZE \<and> (x < iaddr i \<or> iaddr i + INSIZE \<le> x)"
  then show "m2 x = m x" using assms(1,2) by (auto simp: m_keeps_def)
qed

lemma m_keeps_has: "m_keeps m m' i \<Longrightarrow> p < MAXSIZE \<Longrightarrow> has_block m i p \<Longrightarrow> has_block m' i p"
  using pos_slot [of p] by (auto simp: m_keeps_def has_block_def)

lemma wrote_trans:
  assumes "wrote m m1 f i lo mid d" "wrote m1 m2 f i mid hi d" "lo \<le> mid" "mid \<le> hi" "m_file m f i"
  shows "wrote m m2 f i lo hi d"
  unfolding wrote_def
proof (intro conjI allI impI)
  have lim: "m_blk_num m \<le> 4096" using assms(5) by (simp add: m_file_def m_wf_def m_geom_def)
  show "m_file m2 f i" "m_size m2 i = m_size m i" using assms by (auto simp: wrote_def)
  show k: "m_keeps m m2 i" using assms lim by (auto simp: wrote_def intro: m_keeps_trans)
  have k1: "m_keeps m m1 i" and k2: "m_keeps m1 m2 i" using assms by (auto simp: wrote_def)
  fix p
  assume p: "p < MAXSIZE"
  show "has_block m2 i p" "m_byte m2 i p = d p" if "lo \<le> p \<and> p < hi"
    using that assms(1,2) p m_keeps_has [OF k2 p] by (cases "p < mid"; auto simp: wrote_def)+
  show "m_byte m2 i p = m_byte m i p" if "has_block m i p \<and> \<not> (lo \<le> p \<and> p < hi)"
    using that assms p m_keeps_has [OF k1 p] by (auto simp: wrote_def)
qed

lemma wrote_grow:
  assumes m: "m_file m f i" and k: "k < NDIRECT" "m_slot m i k = 0" and b: "b \<in> m_free m"
  shows "wrote m (m_grow i k b m) f i lo lo d"
proof -
  note lim = m_free_ge2 [OF m_file_wf(1) [OF m] b] and i = m_file_wf(3) [OF m]
  have b4: "b < 4096" using lim by simp
  have "m_keeps m (m_grow i k b m) i"
    unfolding m_keeps_def
    using m_grow_bits [OF i k(1) b4] m_grow_fields(1) [OF i k(1) b4] m_grow_data [OF i k(1) b4]
      m_grow_inodes [OF k(1) b4] k b blk_ge2 by auto
  then show ?thesis
    using m_file_grow [OF m k b] m_grow_fields(2) [OF i k(1) b4] by (auto simp: wrote_def)
qed

lemma same_block:
  assumes "p mod BLKSIZE + n \<le> BLKSIZE" "p \<le> q" "q < p + n"
  shows "q div BLKSIZE = p div BLKSIZE" "q mod BLKSIZE = p mod BLKSIZE + (q - p)"
proof -
  have q: "q = p div BLKSIZE * BLKSIZE + (p mod BLKSIZE + (q - p))" using assms(2) by simp
  have lt: "p mod BLKSIZE + (q - p) < BLKSIZE" using assms by linarith
  show "q div BLKSIZE = p div BLKSIZE"
    by (rule off_in_block [THEN iffD1]) (use q lt in linarith)
  then show "q mod BLKSIZE = p mod BLKSIZE + (q - p)"
    using q by (metis add_left_cancel div_mult_mod_eq)
qed

lemma same_block_conv:
  assumes "q div BLKSIZE = p div BLKSIZE" "p mod BLKSIZE \<le> q mod BLKSIZE" "q mod BLKSIZE < p mod BLKSIZE + n"
  shows "p \<le> q \<and> q < p + n"
  using assms div_mult_mod_eq [of p BLKSIZE] div_mult_mod_eq [of q BLKSIZE] by (metis add_le_cancel_left add_less_cancel_left add.assoc)

lemma wrote_put:
  assumes m: "m_file m f i" and k: "k < NDIRECT" "m_slot m i k \<noteq> 0"
    and len: "p mod BLKSIZE + length bs \<le> BLKSIZE" and p: "p div BLKSIZE = k"
    and d: "\<And>j. j < length bs \<Longrightarrow> bs ! j = d (p + j)"
  shows "wrote m (m_put (m_slot m i k) (p mod BLKSIZE) bs m) f i p (p + length bs) d"
proof -
  let ?m = "m_put (m_slot m i k) (p mod BLKSIZE) bs m"
  note put = m_file_put [OF m k len]
  note b = m_file_slot [OF m k]
  have meta: "?m x = m x" if "x < DISKMAP + 2 * BLKSIZE" for x
    using that by (rule m_put_meta [OF b(1)])
  have other: "?m x = m x" if "2 \<le> blk x" "blk x \<noteq> m_slot m i k" for x
    using blk_ge2 [OF that(1)] that(2) by (intro m_put_other_block [OF len]) auto
  have "m_keeps m ?m i"
    unfolding m_keeps_def
    using outside_super [of ?m m, OF meta] put(2) meta other k(1)
    by (auto simp: BLKSIZE_def)
  moreover have "has_block ?m i q \<and> m_byte ?m i q = d q" if "q < MAXSIZE" "p \<le> q" "q < p + length bs" for q
  proof -
    have r: "q div BLKSIZE = k" "p mod BLKSIZE \<le> q mod BLKSIZE" "q mod BLKSIZE < p mod BLKSIZE + length bs"
      "q mod BLKSIZE - p mod BLKSIZE = q - p"
      using same_block [OF len, of q] that p by auto
    then have h: "has_block m i q" using k by (simp add: has_block_def)
    have "bs ! (q - p) = d q" using d [of "q - p"] that by simp
    with put(5) [OF that(1) h] r put(2) [OF k(1)] k show ?thesis by (simp add: has_block_def)
  qed
  moreover have "m_byte ?m i q = m_byte m i q" if "q < MAXSIZE" "has_block m i q" "\<not> (p \<le> q \<and> q < p + length bs)" for q
    using put(5) [OF that(1,2)] same_block_conv [of q p "length bs"] that(3) p by auto
  ultimately show ?thesis
    using put(1,3) by (auto simp: wrote_def)
qed

section \<open>The copy loops\<close>

lemma m_addr_cong:
  assumes "m_geom m" "m_addr m a" "\<And>x. DISKMAP \<le> x \<Longrightarrow> x < DISKMAP + BLKSIZE \<Longrightarrow> m' x = m x"
  shows "m_addr m' a" "m_geom m'"
  using assms(1,2) outside_super [OF assms(3)] by (auto simp: m_addr_def m_geom_def)

lemma wr_mem_run:
  "sees s m \<Longrightarrow> m_geom m \<Longrightarrow> (\<And>j. j < length bs \<Longrightarrow> m_addr m (a + j) \<and> 2 \<le> blk (a + j)) \<Longrightarrow>
   goes (wr_mem a bs s) (set_bytes a bs m)"
proof (induction bs arbitrary: a s m)
  case Nil
  then show ?case by (simp add: goes_Some)
next
  case (Cons c cs)
  have a: "m_addr m a" "2 \<le> blk a" using Cons.prems(3) [of 0] by auto
  from wr8_run [OF Cons.prems(1,2) a(1), of c] obtain s1
    where s1: "wr8 a c s = Some s1" "sees s1 (m(a := c))" by (rule goesE)
  have sup: "(m(a := c)) x = m x" if "x < DISKMAP + BLKSIZE" for x
    using blk_ge2 [OF a(2)] that by (auto simp: BLKSIZE_def)
  have "m_addr (m(a := c)) (Suc a + j) \<and> 2 \<le> blk (Suc a + j)" if "j < length cs" for j
    using Cons.prems(3) [of "Suc j"] that
      m_addr_cong(1) [where m' = "m(a := c)" and a = "Suc a + j", OF Cons.prems(2) _ sup] by simp
  from Cons.IH [OF s1(2) m_addr_cong(2) [where m' = "m(a := c)", OF Cons.prems(2) a(1) sup] this] s1(1)
  show ?case by (simp add: fun_upd_def)
qed

lemma rd_mem_run:
  "sees s m \<Longrightarrow> m_geom m \<Longrightarrow> (\<And>j. j < n \<Longrightarrow> m_addr m (a + j)) \<Longrightarrow>
   runs (rd_mem a n s) (get_bytes m a n) m"
proof (induction n arbitrary: a s)
  case 0
  then show ?case by (simp add: runs_Some get_bytes_def)
next
  case (Suc n)
  from rd8_run [OF Suc.prems(1,2), of a] Suc.prems(3) [of 0] obtain s1
    where s1: "rd8 a s = Some (m a, s1)" "sees s1 m" by (auto elim: runsE)
  have "\<And>j. j < n \<Longrightarrow> m_addr m (Suc a + j)" using Suc.prems(3) [of "Suc _"] by auto
  from Suc.IH [OF s1(2) Suc.prems(2) this] s1(1) show ?case
    by (auto simp: runs_def get_bytes_Suc)
qed

text \<open>Positions below the largest file size stay clear of every wrap-around.\<close>

lemma BLKSIZE_pos: "0 < BLKSIZE"
  by (simp add: BLKSIZE_def)

lemma pos_nat:
  assumes "unat pos \<le> MAXSIZE"
  shows "pos_block pos = of_nat (unat pos div BLKSIZE)" "pos_off pos = int (unat pos mod BLKSIZE)"
proof -
  have s: "sint pos = int (unat pos)" using assms by (intro sint_small) (simp add: MAXSIZE_eq)
  show "pos_block pos = of_nat (unat pos div BLKSIZE)"
    unfolding pos_block_def s by (simp only: c_div_int [OF BLKSIZE_pos] of_int_of_nat_eq)
  show "pos_off pos = int (unat pos mod BLKSIZE)"
    unfolding pos_off_def s by (rule c_mod_int [OF BLKSIZE_pos])
qed

lemma chunk_nat:
  assumes "unat pos < unat endp" "unat endp \<le> MAXSIZE"
  shows "unat (chunk pos endp) = min (BLKSIZE - unat pos mod BLKSIZE) (unat endp - unat pos)"
    "unat (pos + chunk pos endp) = unat pos + unat (chunk pos endp)"
proof -
  have le: "pos \<le> endp" using assms(1) by (simp add: word_le_nat_alt)
  have "int BLKSIZE - pos_off pos = int (BLKSIZE - unat pos mod BLKSIZE)"
    using pos_nat(2) [of pos] assms blkoff [of "unat pos"] by (simp add: of_nat_diff less_imp_le)
  then have "word_of_int (int BLKSIZE - pos_off pos) = (of_nat (BLKSIZE - unat pos mod BLKSIZE) :: u32)"
    by (simp only: of_int_of_nat_eq)
  moreover have "BLKSIZE - unat pos mod BLKSIZE < 4294967296" by (simp add: BLKSIZE_def)
  ultimately have w: "unat (word_of_int (int BLKSIZE - pos_off pos) :: u32) = BLKSIZE - unat pos mod BLKSIZE"
    using unat_of_nat_u32 by presburger
  show c: "unat (chunk pos endp) = min (BLKSIZE - unat pos mod BLKSIZE) (unat endp - unat pos)"
    unfolding chunk_def by (simp only: min_def word_le_nat_alt w unat_sub [OF le] split: if_split) simp
  have "unat pos + unat (chunk pos endp) < 4294967296" using c assms by (simp add: MAXSIZE_eq)
  then show "unat (pos + chunk pos endp) = unat pos + unat (chunk pos endp)"
    by (simp add: unat_word_ariths)
qed

text \<open>The empty slots a transfer of \<open>lo..<hi\<close> has to fill.\<close>

definition need :: "bytemem \<Rightarrow> nat \<Rightarrow> nat \<Rightarrow> nat \<Rightarrow> nat set" where
  "need m i lo hi = {k. k < NDIRECT \<and> m_slot m i k = 0 \<and> lo div BLKSIZE \<le> k \<and> k * BLKSIZE < hi}"

lemma finite_need [simp]: "finite (need m i lo hi)"
  by (simp add: need_def)

lemma of_nat_slot: "k < NDIRECT \<Longrightarrow> unat (of_nat k :: u16) = k"
  by (simp add: unat_of_nat_u16 NDIRECT_def)

lemma get_block_step:
  assumes s: "sees s m" and m: "m_file m f i" and k: "k < NDIRECT"
    and free: "m_slot m i k = 0 \<longrightarrow> m_free m \<noteq> {}"
  shows "\<exists>m1. runs (file_get_block (iaddr i) (of_nat k) s) (0, DISKMAP + m_slot m1 i k * BLKSIZE) m1
           \<and> wrote m m1 f i lo lo d \<and> m_slot m1 i k \<noteq> 0 \<and> m_free m1 = m_free m - {m_slot m1 i k}
           \<and> (\<forall>j<NDIRECT. j \<noteq> k \<longrightarrow> m_slot m1 i j = m_slot m i j)
           \<and> (m_slot m i k = 0 \<longrightarrow> m_slot m1 i k \<in> m_free m)"
proof (cases "m_slot m i k = 0")
  case True
  let ?b = "Min (m_free m)"
  have b: "?b \<in> m_free m" using free True by simp
  note lim = m_free_ge2 [OF m_file_wf(1) [OF m] b]
  have "m_slot (m_grow i k ?b m) i k = ?b"
    using m_grow_fields(1) [OF m_file_wf(3) [OF m] k, of ?b k] k lim by simp
  moreover have "m_slot (m_grow i k ?b m) i j = m_slot m i j" if "j < NDIRECT" "j \<noteq> k" for j
    using m_grow_fields(1) [OF m_file_wf(3) [OF m] k, of ?b j] that lim by simp
  ultimately show ?thesis
    using file_get_block_run(4) [OF s m_file_wf(1,3) [OF m], of "of_nat k"] wrote_grow [OF m k True b]
      m_file_grow(2) [OF m k True b] lim free True b k
    by (intro exI [of _ "m_grow i k ?b m"]) (fastforce simp: of_nat_slot)
next
  case False
  note sl = m_file_slot [OF m k False]
  have "m_slot m i k \<notin> m_free m" using sl by (simp add: m_free_def)
  then show ?thesis
    using file_get_block_run(2) [OF s m_file_wf(1,3) [OF m], of "of_nat k"] sl False k m
    by (intro exI [of _ m]) (auto simp: of_nat_slot wrote_def m_keeps_refl)
qed

lemma data_addr_ok:
  assumes m: "m_file m f i" and k: "k < NDIRECT" "m_slot m i k \<noteq> 0" and x: "x < BLKSIZE"
  shows "m_addr m (DISKMAP + m_slot m i k * BLKSIZE + x) \<and> 2 \<le> blk (DISKMAP + m_slot m i k * BLKSIZE + x)"
  using m_file_slot [OF m k] x by (simp add: m_addr_def)

lemma need_step:
  assumes "card (need m i lo hi) \<le> card (m_free m)" "lo < hi" "hi \<le> MAXSIZE" "lo \<le> lo'"
    and "m_slot m1 i (lo div BLKSIZE) \<noteq> 0"
    and free: "m_free m1 = m_free m - {m_slot m1 i (lo div BLKSIZE)}"
    and other: "\<forall>j<NDIRECT. j \<noteq> lo div BLKSIZE \<longrightarrow> m_slot m1 i j = m_slot m i j"
    and new: "m_slot m i (lo div BLKSIZE) = 0 \<longrightarrow> m_slot m1 i (lo div BLKSIZE) \<in> m_free m"
    and old: "m_slot m i (lo div BLKSIZE) \<noteq> 0 \<longrightarrow> m_free m1 = m_free m"
  shows "card (need m1 i lo' hi) \<le> card (m_free m1)"
proof -
  let ?k = "lo div BLKSIZE"
  have mono: "lo div BLKSIZE \<le> lo' div BLKSIZE" using assms(4) by (rule div_le_mono)
  have sub: "need m1 i lo' hi \<subseteq> need m i lo hi - {?k}"
  proof
    fix j
    assume "j \<in> need m1 i lo' hi"
    then have "j < NDIRECT" "m_slot m1 i j = 0" "lo' div BLKSIZE \<le> j" "j * BLKSIZE < hi" "j \<noteq> ?k"
      using assms(5) by (auto simp: need_def)
    with other mono show "j \<in> need m i lo hi - {?k}" by (auto simp: need_def)
  qed
  show ?thesis
  proof (cases "m_slot m i ?k = 0")
    case True
    have "?k * BLKSIZE < hi" using assms(2) by (rule le_less_trans [OF div_times_less_eq_dividend])
    with True assms(2,3) have k: "?k \<in> need m i lo hi" using pos_slot [of lo] by (simp add: need_def)
    have "card (need m1 i lo' hi) \<le> card (need m i lo hi - {?k})" by (rule card_mono [OF _ sub]) simp
    also have "\<dots> = card (need m i lo hi) - 1" using k by simp
    also have "\<dots> \<le> card (m_free m1)" using free new True assms(1) by simp
    finally show ?thesis .
  next
    case False
    have "card (need m1 i lo' hi) \<le> card (need m i lo hi)" by (rule card_mono) (use sub in auto)
    with False old assms(1) show ?thesis by simp
  qed
qed

lemma chunk_bounds:
  assumes "unat pos < unat endp" "unat endp \<le> MAXSIZE"
  shows "0 < unat (chunk pos endp)" "unat pos mod BLKSIZE + unat (chunk pos endp) \<le> BLKSIZE"
    "unat pos + unat (chunk pos endp) \<le> unat endp"
  using chunk_nat(1) [OF assms] assms(1) blkoff [of "unat pos"] by linarith+

text \<open>Storing one chunk into a block the file has.\<close>

lemma put_step:
  assumes s: "sees s m" and f: "m_file m f i" and p: "p div BLKSIZE < NDIRECT" "m_slot m i (p div BLKSIZE) \<noteq> 0"
    and len: "p mod BLKSIZE + length bs \<le> BLKSIZE" and d: "\<And>j. j < length bs \<Longrightarrow> bs ! j = d (p + j)"
  shows "\<exists>m'. goes (wr_mem (DISKMAP + m_slot m i (p div BLKSIZE) * BLKSIZE + p mod BLKSIZE) bs s) m'
           \<and> wrote m m' f i p (p + length bs) d \<and> m_free m' = m_free m
           \<and> (\<forall>j<NDIRECT. m_slot m' i j = m_slot m i j)"
proof -
  let ?b = "m_slot m i (p div BLKSIZE)"
  let ?a = "DISKMAP + ?b * BLKSIZE + p mod BLKSIZE"
  have "m_addr m (?a + j) \<and> 2 \<le> blk (?a + j)" if "j < length bs" for j
    using data_addr_ok [OF f p, of "p mod BLKSIZE + j"] len that by (simp add: add.assoc)
  then have "goes (wr_mem ?a bs s) (m_put ?b (p mod BLKSIZE) bs m)"
    using wr_mem_run [OF s m_file_wf(2) [OF f], of bs ?a] by (simp add: m_put_def)
  with wrote_put [OF f p len refl d] m_file_put(2,4) [OF f p len] show ?thesis by blast
qed

lemma write_step:
  assumes s: "sees s m" and m: "m_file m f i" and lt: "unat pos < unat endp" "unat endp \<le> MAXSIZE"
    and free: "card (need m i (unat pos) (unat endp)) \<le> card (m_free m)"
    and d: "\<And>j. d (unat pos + j) = buf (k + j)"
  defines "p \<equiv> unat pos" and "bn \<equiv> unat (chunk pos endp)"
  shows "\<exists>a s1 s2 m2. file_get_block (iaddr i) (pos_block pos) s = Some ((0, a), s1)
           \<and> wr_mem (nat (int a + pos_off pos)) (get_bytes buf k bn) s1 = Some s2 \<and> sees s2 m2
           \<and> wrote m m2 f i p (p + bn) d \<and> card (need m2 i (p + bn) (unat endp)) \<le> card (m_free m2)"
proof -
  let ?k = "p div BLKSIZE"
  have p: "p < MAXSIZE" "?k < NDIRECT" using lt pos_slot [of p] by (auto simp: p_def)
  note pos = pos_nat [of pos, folded p_def]
  note bn = chunk_bounds [OF lt, folded p_def bn_def]
  have ne: "m_slot m i ?k = 0 \<longrightarrow> m_free m \<noteq> {}"
  proof
    assume z: "m_slot m i ?k = 0"
    have "?k * BLKSIZE < unat endp" using lt(1) p_def by (metis le_less_trans div_times_less_eq_dividend)
    with z p have "?k \<in> need m i p (unat endp)" by (simp add: need_def)
    then have "card (need m i p (unat endp)) \<noteq> 0" by auto
    with free show "m_free m \<noteq> {}" by (auto simp: p_def)
  qed
  from get_block_step [OF s m p(2) ne, of p d] obtain m1 where
    g: "runs (file_get_block (iaddr i) (of_nat ?k) s) (0, DISKMAP + m_slot m1 i ?k * BLKSIZE) m1"
    and m1: "wrote m m1 f i p p d" "m_slot m1 i ?k \<noteq> 0" "m_free m1 = m_free m - {m_slot m1 i ?k}"
      "\<forall>j<NDIRECT. j \<noteq> ?k \<longrightarrow> m_slot m1 i j = m_slot m i j"
      "m_slot m i ?k = 0 \<longrightarrow> m_slot m1 i ?k \<in> m_free m"
    by (elim exE conjE) (rule that)
  from g obtain s1 where
    s1: "file_get_block (iaddr i) (of_nat ?k) s = Some ((0, DISKMAP + m_slot m1 i ?k * BLKSIZE), s1)" "sees s1 m1"
    by (rule runsE)
  have f1: "m_file m1 f i" using m1(1) by (simp add: wrote_def)
  have dj: "get_bytes buf k bn ! j = d (p + j)" if "j < bn" for j using that d by (simp add: p_def)
  from put_step [OF s1(2) f1 p(2) m1(2), of "get_bytes buf k bn" d] bn(2) dj obtain m2 s2 where
    s2: "wr_mem (DISKMAP + m_slot m1 i ?k * BLKSIZE + p mod BLKSIZE) (get_bytes buf k bn) s1 = Some s2" "sees s2 m2"
    and m2: "wrote m1 m2 f i p (p + bn) d" "m_free m2 = m_free m1" "\<forall>j<NDIRECT. m_slot m2 i j = m_slot m1 i j"
    by (auto elim!: goesE)
  have w: "wrote m m2 f i p (p + bn) d" by (rule wrote_trans [OF m1(1) m2(1) _ _ m]) auto
  have old: "m_slot m i ?k \<noteq> 0 \<longrightarrow> m_free m1 = m_free m"
    using m_file_slot(4) [OF m p(2)] m1(1,3) p(2) by (auto simp: wrote_def m_keeps_def m_free_def)
  have "card (need m2 i (p + bn) (unat endp)) \<le> card (m_free m2)"
    by (rule need_step [of m i p]) (use free lt m1 m2 p old in \<open>auto simp: p_def\<close>)
  moreover have "nat (int (DISKMAP + m_slot m1 i ?k * BLKSIZE) + pos_off pos)
      = DISKMAP + m_slot m1 i ?k * BLKSIZE + p mod BLKSIZE"
    using pos(2) p(1) by (simp only: of_nat_add [symmetric] nat_int less_imp_le)
  ultimately show ?thesis using s1(1) s2 w pos p(1) by (auto simp: p_def)
qed

lemma file_write_loop_run:
  "sees s m \<Longrightarrow> m_file m f i \<Longrightarrow> unat pos \<le> unat endp \<Longrightarrow> unat endp \<le> MAXSIZE \<Longrightarrow>
   card (need m i (unat pos) (unat endp)) \<le> card (m_free m) \<Longrightarrow> (\<And>j. d (unat pos + j) = buf (k + j)) \<Longrightarrow>
   \<exists>m'. runs (file_write_loop (iaddr i) endp pos k buf s) 0 m' \<and> wrote m m' f i (unat pos) (unat endp) d"
proof (induction "unat endp - unat pos" arbitrary: s m pos k rule: less_induct)
  case less
  note s = less.prems(1) and m = less.prems(2)
  show ?case
  proof (cases "unat pos < unat endp")
    case False
    then have "unat pos = unat endp" using less.prems(3) by simp
    with False s m show ?thesis
      by (subst file_write_loop.simps)
         (auto simp: word_less_nat_alt runs_Some wrote_def m_keeps_refl intro!: exI [of _ m])
  next
    case True
    let ?bn = "unat (chunk pos endp)" and ?pos = "pos + chunk pos endp"
    note pos = chunk_nat(2) [OF True less.prems(4)] and bn = chunk_bounds [OF True less.prems(4)]
    from write_step [where d = d and buf = buf and k = k, OF s m True less.prems(4-6)] obtain a s1 s2 m2 where
      s1: "file_get_block (iaddr i) (pos_block pos) s = Some ((0, a), s1)"
      and s2: "wr_mem (nat (int a + pos_off pos)) (get_bytes buf k ?bn) s1 = Some s2" "sees s2 m2"
      and w: "wrote m m2 f i (unat pos) (unat pos + ?bn) d"
      and fr: "card (need m2 i (unat pos + ?bn) (unat endp)) \<le> card (m_free m2)"
      by blast
    have f2: "m_file m2 f i" using w by (simp add: wrote_def)
    have d2: "d (unat ?pos + j) = buf (k + ?bn + j)" for j
      using less.prems(6) [of "?bn + j"] pos by (simp add: add.assoc)
    obtain m' where m': "runs (file_write_loop (iaddr i) endp ?pos (k + ?bn) buf s2) 0 m'"
      "wrote m2 m' f i (unat ?pos) (unat endp) d"
      using less.hyps [of ?pos s2 m2 "k + ?bn", OF _ s2(2) f2 _ less.prems(4) _ d2] bn pos fr by fastforce
    have "wrote m m' f i (unat pos) (unat endp) d"
      by (rule wrote_trans [OF w _ _ _ m]) (use m'(2) pos bn in auto)
    with m'(1) show ?thesis
      using True by (subst file_write_loop.simps) (auto simp: s1 s2 word_less_nat_alt Let_def)
  qed
qed

text \<open>Reading a range whose blocks are all there.\<close>

definition has_range :: "bytemem \<Rightarrow> nat \<Rightarrow> nat \<Rightarrow> nat \<Rightarrow> bool" where
  "has_range m i lo hi \<longleftrightarrow> (\<forall>p. lo \<le> p \<and> p < hi \<longrightarrow> has_block m i p)"

definition m_read :: "bytemem \<Rightarrow> nat \<Rightarrow> nat \<Rightarrow> nat \<Rightarrow> u8 list" where
  "m_read m i p n = map (m_byte m i) [p..<p + n]"

lemma m_read_chunk:
  assumes "p mod BLKSIZE + n \<le> BLKSIZE"
  shows "get_bytes m (DISKMAP + m_slot m i (p div BLKSIZE) * BLKSIZE + p mod BLKSIZE) n = m_read m i p n"
proof (rule nth_equalityI)
  fix j
  assume "j < length (get_bytes m (DISKMAP + m_slot m i (p div BLKSIZE) * BLKSIZE + p mod BLKSIZE) n)"
  then have j: "j < n" by simp
  with same_block [OF assms, of "p + j"] show
    "get_bytes m (DISKMAP + m_slot m i (p div BLKSIZE) * BLKSIZE + p mod BLKSIZE) n ! j = m_read m i p n ! j"
    by (simp add: m_read_def m_byte_def add.assoc)
qed (simp add: m_read_def)

lemma m_read_append: "m_read m i p (a + b) = m_read m i p a @ m_read m i (p + a) b"
  by (rule nth_equalityI) (auto simp: m_read_def nth_append add.assoc)

lemma length_m_read [simp]: "length (m_read m i p n) = n"
  by (simp add: m_read_def)

lemma read_step:
  assumes s: "sees s m" and m: "m_file m f i" and lt: "unat pos < unat endp" "unat endp \<le> MAXSIZE"
    and has: "has_block m i (unat pos)"
  defines "p \<equiv> unat pos" and "bn \<equiv> unat (chunk pos endp)"
  shows "\<exists>a s1 s2. file_get_block (iaddr i) (pos_block pos) s = Some ((0, a), s1)
           \<and> rd_mem (nat (int a + pos_off pos)) bn s1 = Some (m_read m i p bn, s2) \<and> sees s2 m"
proof -
  let ?k = "p div BLKSIZE"
  let ?a = "DISKMAP + m_slot m i ?k * BLKSIZE"
  have p: "p < MAXSIZE" "?k < NDIRECT" using lt pos_slot [of p] by (auto simp: p_def)
  note pos = pos_nat [of pos, folded p_def]
  note bn = chunk_bounds [OF lt, folded p_def bn_def]
  have k: "m_slot m i ?k \<noteq> 0" using has by (simp add: has_block_def p_def)
  from file_get_block_run(2) [OF s m_file_wf(1,3) [OF m], of "of_nat ?k"] m_file_slot(2) [OF m p(2) k] k p(2)
  obtain s1 where s1: "file_get_block (iaddr i) (of_nat ?k) s = Some ((0, ?a), s1)" "sees s1 m"
    by (auto elim: runsE simp: of_nat_slot)
  have addr: "m_addr m (?a + p mod BLKSIZE + j)" if "j < bn" for j
    using data_addr_ok [OF m p(2) k, of "p mod BLKSIZE + j"] bn(2) that by (simp add: add.assoc)
  have "runs (rd_mem (?a + p mod BLKSIZE) bn s1) (m_read m i p bn) m"
    unfolding m_read_chunk [OF bn(2), symmetric] by (rule rd_mem_run [OF s1(2) m_file_wf(2) [OF m] addr])
  then obtain s2 where s2: "rd_mem (?a + p mod BLKSIZE) bn s1 = Some (m_read m i p bn, s2)" "sees s2 m"
    by (rule runsE)
  have "nat (int ?a + pos_off pos) = ?a + p mod BLKSIZE"
    using pos(2) p(1) by (simp only: of_nat_add [symmetric] nat_int less_imp_le)
  with s1 s2 pos p(1) show ?thesis by (auto simp: p_def)
qed

lemma file_read_loop_run:
  "sees s m \<Longrightarrow> m_file m f i \<Longrightarrow> unat pos \<le> unat endp \<Longrightarrow> unat endp \<le> MAXSIZE \<Longrightarrow>
   has_range m i (unat pos) (unat endp) \<Longrightarrow>
   runs (file_read_loop (iaddr i) endp pos k buf s)
     (0, set_bytes k (m_read m i (unat pos) (unat endp - unat pos)) buf) m"
proof (induction "unat endp - unat pos" arbitrary: s pos k buf rule: less_induct)
  case less
  note s = less.prems(1) and m = less.prems(2)
  show ?case
  proof (cases "unat pos < unat endp")
    case False
    then show ?thesis using s
      by (subst file_read_loop.simps) (simp add: word_less_nat_alt runs_Some m_read_def)
  next
    case True
    let ?bn = "unat (chunk pos endp)" and ?pos = "pos + chunk pos endp"
    note pos = chunk_nat(2) [OF True less.prems(4)] and bn = chunk_bounds [OF True less.prems(4)]
    have "has_block m i (unat pos)" using less.prems(5) True by (simp add: has_range_def)
    from read_step [OF s m True less.prems(4) this] obtain a s1 s2 where
      s1: "file_get_block (iaddr i) (pos_block pos) s = Some ((0, a), s1)"
      and s2: "rd_mem (nat (int a + pos_off pos)) ?bn s1 = Some (m_read m i (unat pos) ?bn, s2)" "sees s2 m"
      by blast
    have split: "m_read m i (unat pos) (unat endp - unat pos)
        = m_read m i (unat pos) ?bn @ m_read m i (unat ?pos) (unat endp - unat ?pos)"
      using m_read_append [of m i "unat pos" ?bn "unat endp - unat ?pos"] pos bn by simp
    have "runs (file_read_loop (iaddr i) endp ?pos (k + ?bn) (set_bytes k (m_read m i (unat pos) ?bn) buf) s2)
      (0, set_bytes (k + ?bn) (m_read m i (unat ?pos) (unat endp - unat ?pos))
             (set_bytes k (m_read m i (unat pos) ?bn) buf)) m"
      by (rule less.hyps [OF _ s2(2) m]) (use pos bn less.prems(4,5) True in \<open>auto simp: has_range_def\<close>)
    then show ?thesis
      using True by (subst file_read_loop.simps) (simp add: s1 s2 word_less_nat_alt Let_def split set_bytes_append)
  qed
qed

end
