(* ===== verification/FileSpec.thy ===== *)
theory FileSpec
  imports FileOps
begin

text \<open>
  The specifications of the file operations: flushing, resizing, truncating, writing and reading,
  each as an update of the memory the state shows, and the properties built on them.
\<close>

section \<open>Flushing\<close>

lemma entry_inode_run:
  assumes "sees s m" "m_file m f i"
  shows "runs (rd16 (f + DE_in_ind) s) (of_nat i) m"
  using rd16_run [OF assms(1) m_file_wf(2) [OF assms(2)] entry_in_ind [OF assms(2)]] assms(2)
  by (simp add: m_file_def)

lemma inode_ptr_of: "sees s m \<Longrightarrow> i < 128 \<Longrightarrow> inode_ptr (of_nat i) s = iaddr i"
  by (simp add: inode_ptr_eq unat_of_nat_u16)

lemma size_run:
  assumes "sees s m" "m_wf m" "i < 128"
  shows "runs (rd16 (iaddr i + IN_size) s) (m_size m i) m"
  using rd16_run [OF assms(1) m_wf_geom [OF assms(2)]] m_addr_fields(1) [OF assms(2,3)] by (simp add: m_size_def)

lemma slot_run:
  assumes "sees s m" "m_wf m" "i < 128" "k < NDIRECT"
  shows "runs (rd16 (slot_addr i k) s) (get16 m (slot_addr i k)) m"
  using rd16_run [OF assms(1) m_wf_geom [OF assms(2)]] m_addr_slot [OF assms(2-4)] by simp

lemma slot_flush_run:
  assumes s: "sees s m" and m: "m_file m f i" and k: "k < NDIRECT" and nz: "m_slot m i k \<noteq> 0"
  shows "\<exists>s1 s2 s3. rd16 (slot_addr i k) s = Some (get16 m (slot_addr i k), s1)
     \<and> diskaddr (m_slot m i k) s1 = Some (DISKMAP + m_slot m i k * BLKSIZE, s2)
     \<and> flush_block (DISKMAP + m_slot m i k * BLKSIZE) s2 = Some s3 \<and> sees s3 m"
proof -
  note wf = m_file_wf(1,3) [OF m]
  obtain s1 where s1: "rd16 (slot_addr i k) s = Some (get16 m (slot_addr i k), s1)" "sees s1 m"
    using slot_run [OF s wf k] by (rule runsE)
  obtain s2 where s2: "diskaddr (m_slot m i k) s1 = Some (DISKMAP + m_slot m i k * BLKSIZE, s2)" "sees s2 m"
    using diskaddr_run [OF s1(2) m_file_slot(2) [OF m k nz]] by (rule runsE)
  have "in_cache (DISKMAP + m_slot m i k * BLKSIZE)"
    using m_file_slot(3) [OF m k nz] by (intro in_cache_addr0) simp
  from flush_run [OF s2(2) this] s1(1) s2(1) show ?thesis by (auto elim: goesE)
qed

lemma file_flush_loop_run:
  "sees s m \<Longrightarrow> m_file m f i \<Longrightarrow> goes (file_flush_loop (iaddr i) k s) m"
proof (induction "17 - k" arbitrary: s k rule: less_induct)
  case less
  note s = less.prems(1) and m = less.prems(2)
  note wf = m_file_wf(1,3) [OF m]
  obtain s1 where s1: "rd16 (iaddr i + IN_size) s = Some (m_size m i, s1)" "sees s1 m"
    using size_run [OF s wf] by (rule runsE)
  show ?case
  proof (cases "k < (unat (m_size m i) + BLKSIZE - 1) div BLKSIZE")
    case False
    then show ?thesis by (subst file_flush_loop.simps) (simp add: s1 goes_Some)
  next
    case True
    then have k16: "k < 16" using size_blocks_le [of "m_size m i"] by simp
    then have dec: "17 - Suc k < 17 - k" and uk: "unat (of_nat k :: u16) = k" by (simp_all add: unat_of_nat_u16)
    note IH = less.hyps [OF dec _ m]
    show ?thesis
    proof (cases "k < NDIRECT")
      case False
      then have "file_block_walk (iaddr i) (of_nat k) = (- E_INVAL, 0)" by (simp add: file_block_walk_def uk)
      then show ?thesis using True IH [OF s1(2)]
        by (subst file_flush_loop.simps) (simp add: s1 err_defs)
    next
      case k: True
      then have walk: "file_block_walk (iaddr i) (of_nat k) = (0, slot_addr i k)" "slot_addr i k \<noteq> 0"
        using walk_slot [of "of_nat k" i] uk by (simp_all add: slot_addr_def iaddr_def fs_consts)
      obtain s2 where s2: "rd16 (slot_addr i k) s1 = Some (get16 m (slot_addr i k), s2)" "sees s2 m"
        using slot_run [OF s1(2) wf k] by (rule runsE)
      show ?thesis
      proof (cases "get16 m (slot_addr i k) = 0")
        case z: True
        show ?thesis using True IH [OF s2(2)] by (subst file_flush_loop.simps) (simp add: s1 s2 walk z)
      next
        case nz: False
        then have "m_slot m i k \<noteq> 0" by (simp add: m_slot_def unat_eq_0)
        from slot_flush_run [OF s2(2) m k this] nz True IH show ?thesis
          by (subst file_flush_loop.simps) (auto simp: s1 s2 walk m_slot_def)
      qed
    qed
  qed
qed

lemma entry_in_cache: "m_file m f i \<Longrightarrow> in_cache f"
  by (simp add: m_file_def m_addr_def)

lemma iaddr_in_cache: "i < 128 \<Longrightarrow> in_cache (iaddr i)"
  using blk_inode [of i 0] by simp

lemma file_flush_run:
  assumes s: "sees s m" and m: "m_file m f i"
  shows "goes (file_flush f s) m"
proof -
  obtain s1 where s1: "rd16 (f + DE_in_ind) s = Some (of_nat i, s1)" "sees s1 m"
    using entry_inode_run [OF s m] by (rule runsE)
  obtain s2 where s2: "file_flush_loop (iaddr i) 0 s1 = Some s2" "sees s2 m"
    using file_flush_loop_run [OF s1(2) m] by (rule goesE)
  obtain s3 where s3: "flush_block (iaddr i) s2 = Some s3" "sees s3 m"
    using flush_run [OF s2(2) iaddr_in_cache [OF m_file_wf(3) [OF m]]] by (rule goesE)
  from flush_run [OF s3(2) entry_in_cache [OF m]] show ?thesis
    by (simp add: file_flush_def s1 s2 s3 inode_ptr_of [OF s1(2) m_file_wf(3) [OF m]])
qed

section \<open>Resizing\<close>

definition m_resize :: "nat \<Rightarrow> u16 \<Rightarrow> bytemem \<Rightarrow> bytemem" where
  "m_resize i z m = set16 (iaddr i + IN_size) z m"

lemma m_resize_outside:
  assumes "i < 128" "x < iaddr i \<or> iaddr i + INSIZE \<le> x"
  shows "m_resize i z m x = m x"
  using assms by (auto simp: m_resize_def IN_size_def INSIZE_def set16_def)

lemma m_resize_super:
  "i < 128 \<Longrightarrow> x < DISKMAP + BLKSIZE \<or> DISKMAP + 2 * BLKSIZE \<le> x \<Longrightarrow> m_resize i z m x = m x"
  unfolding m_resize_def by (rule set16_inode_super) (simp_all add: IN_size_def)

lemma m_resize_slot [simp]: "k < NDIRECT \<Longrightarrow> m_slot (m_resize i z m) i k = m_slot m i k"
  by (simp add: m_slot_def m_resize_def mem_simps slot_addr_def fs_consts)

lemma m_resize_size [simp]: "m_size (m_resize i z m) i = z"
  by (simp add: m_size_def m_resize_def mem_simps)

lemma m_resize_file:
  assumes m: "m_file m f i"
  shows "m_file (m_resize i z m) f i" "m_free (m_resize i z m) = m_free m"
    "p < MAXSIZE \<Longrightarrow> has_block m i p \<Longrightarrow> m_byte (m_resize i z m) i p = m_byte m i p"
    "m_keeps m (m_resize i z m) i"
proof -
  let ?m = "m_resize i z m"
  note i = m_file_wf(3) [OF m]
  have sup: "?m x = m x" if "x < DISKMAP + BLKSIZE" for x using that m_resize_super [OF i] by simp
  have data: "?m x = m x" if "DISKMAP + 2 * BLKSIZE \<le> x" for x using that m_resize_super [OF i] by simp
  note num = outside_super [of ?m m, OF sup]
  have "get16 ?m (f + DE_in_ind) = get16 m (f + DE_in_ind)"
    by (rule in_ind_cong) (simp add: data entry_addr(3) [OF m])
  then show "m_file ?m f i" using num by (intro m_file_cong [OF m]) auto
  show "m_free ?m = m_free m" using num m_file_wf(2) [OF m] by (auto simp: m_free_def m_geom_def)
  show "m_byte ?m i p = m_byte m i p" if p: "p < MAXSIZE" "has_block m i p"
  proof -
    have "2 * BLKSIZE \<le> m_slot m i (p div BLKSIZE) * BLKSIZE"
      using m_file_slot(1) [OF m pos_slot [OF p(1)]] p(2) by (intro mult_le_mono1) (simp add: has_block_def)
    then have "DISKMAP + 2 * BLKSIZE \<le> DISKMAP + m_slot m i (p div BLKSIZE) * BLKSIZE + p mod BLKSIZE" by linarith
    then show ?thesis using data pos_slot [OF p(1)] by (simp add: m_byte_def)
  qed
  show "m_keeps m ?m i"
    unfolding m_keeps_def using num data blk_ge2 m_resize_outside [OF i] by auto
qed

lemma size_write_run:
  assumes "sees s m" "m_wf m" "i < 128"
  shows "goes (wr16 (iaddr i + IN_size) z s) (m_resize i z m)"
  using wr16_run [OF assms(1) m_wf_geom [OF assms(2)]] m_addr_fields(1) [OF assms(2,3)] by (simp add: m_resize_def)

lemma file_set_size_extend:
  assumes s: "sees s m" and m: "m_file m f i" and le: "uint (m_size m i) \<le> sint n"
  shows "runs (file_set_size f n s) 0 (m_resize i (ucast n) m)"
proof -
  note wf = m_file_wf(1,3) [OF m]
  obtain s1 where s1: "rd16 (f + DE_in_ind) s = Some (of_nat i, s1)" "sees s1 m"
    using entry_inode_run [OF s m] by (rule runsE)
  obtain s2 where s2: "rd16 (iaddr i + IN_size) s1 = Some (m_size m i, s2)" "sees s2 m"
    using size_run [OF s1(2) wf] by (rule runsE)
  obtain s3 where s3: "wr16 (iaddr i + IN_size) (ucast n) s2 = Some s3" "sees s3 (m_resize i (ucast n) m)"
    using size_write_run [OF s2(2) wf] by (rule goesE)
  obtain s4 where s4: "flush_block f s3 = Some s4" "sees s4 (m_resize i (ucast n) m)"
    using flush_run [OF s3(2) entry_in_cache [OF m]] by (rule goesE)
  show ?thesis
    using le by (simp add: file_set_size_def s1 s2 s3 s4 inode_ptr_of [OF s1(2) wf(2)] runs_Some Let_def)
qed

section \<open>Truncating\<close>

text \<open>Freeing the block of one slot.\<close>

definition m_drop :: "nat \<Rightarrow> nat \<Rightarrow> bytemem \<Rightarrow> bytemem" where
  "m_drop i k m =
     (if k < NDIRECT \<and> m_slot m i k \<noteq> 0
      then set16 (slot_addr i k) 0 (bm_clear SB_blk_ocp (m_slot m i k) m) else m)"

lemma bm_clear_data: "b < 4096 \<Longrightarrow> DISKMAP + BLKSIZE \<le> x \<Longrightarrow> bm_clear SB_blk_ocp b m x = m x"
  by (rule bm_addr_in_super(2)) auto

lemma file_free_block_run:
  assumes s: "sees s m" and m: "m_file m f i" and k: "k < 65536"
  shows "\<exists>r. runs (file_free_block f (of_nat k) s) r (m_drop i k m)"
proof -
  note wf = m_file_wf(1,3) [OF m]
  obtain s1 where s1: "rd16 (f + DE_in_ind) s = Some (of_nat i, s1)" "sees s1 m"
    using entry_inode_run [OF s m] by (rule runsE)
  note ptr = inode_ptr_of [OF s1(2) wf(2)]
  have uk: "unat (of_nat k :: u16) = k" using k by (simp add: unat_of_nat_u16)
  show ?thesis
  proof (cases "k < NDIRECT")
    case False
    then show ?thesis
      by (simp add: file_free_block_def s1 ptr file_block_walk_def uk m_drop_def runs_def err_defs)
  next
    case True
    have walk: "file_block_walk (iaddr i) (of_nat k) = (0, slot_addr i k)"
      using walk_slot [of "of_nat k" i] uk True by simp
    obtain s2 where s2: "rd16 (slot_addr i k) s1 = Some (get16 m (slot_addr i k), s2)" "sees s2 m"
      using slot_run [OF s1(2) wf True] by (rule runsE)
    show ?thesis
    proof (cases "m_slot m i k = 0")
      case z: True
      then have "get16 m (slot_addr i k) = 0" by (simp add: m_slot_def unat_eq_0)
      then show ?thesis
        by (simp add: file_free_block_def s1 s2 ptr walk m_drop_def runs_def z)
    next
      case nz: False
      let ?b = "m_slot m i k"
      note b = m_file_slot [OF m True nz]
      obtain s3 where s3: "rd16 (slot_addr i k) s2 = Some (get16 m (slot_addr i k), s3)" "sees s3 m"
        using slot_run [OF s2(2) wf True] by (rule runsE)
      obtain s4 where s4: "free_block ?b s3 = Some s4" "sees s4 (bm_clear SB_blk_ocp ?b m)"
        using free_block_run [OF s3(2) _ b(3)] b(1) by (auto elim: goesE)
      have wf4: "m_wf (bm_clear SB_blk_ocp ?b m)" by (rule m_wf_bm_clear [OF wf(1) b(1,3)])
      obtain s5 where "wr16 (slot_addr i k) 0 s4 = Some s5" "sees s5 (m_drop i k m)"
        using wr16_run [OF s4(2) m_wf_geom [OF wf4]] m_addr_slot [OF wf4 wf(2) True] True nz
        by (auto elim!: goesE simp: m_drop_def)
      moreover have "get16 m (slot_addr i k) \<noteq> 0" using nz by (simp add: m_slot_def unat_eq_0)
      ultimately show ?thesis
        using s4(1) by (simp add: file_free_block_def s1 s2 s3 ptr walk runs_def m_slot_def)
    qed
  qed
qed

text \<open>
  \<open>dropped m m' f i ks\<close>: exactly the slots \<open>ks\<close> of the file were emptied, their blocks are
  free again, and every byte of the file outside them is kept.
\<close>

definition dropped :: "bytemem \<Rightarrow> bytemem \<Rightarrow> nat \<Rightarrow> nat \<Rightarrow> nat set \<Rightarrow> bool" where
  "dropped m m' f i ks \<longleftrightarrow>
     m_file m' f i \<and> m_size m' i = m_size m i
     \<and> (\<forall>k<NDIRECT. m_slot m' i k = (if k \<in> ks then 0 else m_slot m i k))
     \<and> m_free m' = m_free m \<union> {m_slot m i k | k. k < NDIRECT \<and> k \<in> ks \<and> m_slot m i k \<noteq> 0}
     \<and> (\<forall>x. DISKMAP + 2 * BLKSIZE \<le> x \<longrightarrow> m' x = m x)
     \<and> (\<forall>x. DISKMAP + BLKSIZE \<le> x \<and> (x < iaddr i \<or> iaddr i + INSIZE \<le> x) \<longrightarrow> m' x = m x)"

lemma dropped_refl: "m_file m f i \<Longrightarrow> dropped m m f i {}"
  by (simp add: dropped_def)

lemma dropped_trans:
  assumes "dropped m m1 f i A" "dropped m1 m2 f i B"
  shows "dropped m m2 f i (A \<union> B)"
proof -
  note d1 = assms(1) [unfolded dropped_def] and d2 = assms(2) [unfolded dropped_def]
  have sl: "m_slot m1 i k = (if k \<in> A then 0 else m_slot m i k)" if "k < NDIRECT" for k
    using d1 that by blast
  have "{m_slot m1 i k | k. k < NDIRECT \<and> k \<in> B \<and> m_slot m1 i k \<noteq> 0}
      = {m_slot m i k | k. k < NDIRECT \<and> k \<in> B \<and> k \<notin> A \<and> m_slot m i k \<noteq> 0}"
    using sl by (intro Collect_cong) metis
  moreover have "m_free m1 = m_free m \<union> {m_slot m i k | k. k < NDIRECT \<and> k \<in> A \<and> m_slot m i k \<noteq> 0}"
    "m_free m2 = m_free m1 \<union> {m_slot m1 i k | k. k < NDIRECT \<and> k \<in> B \<and> m_slot m1 i k \<noteq> 0}"
    using d1 d2 by simp_all
  ultimately have "m_free m2 = m_free m \<union> {m_slot m i k | k. k < NDIRECT \<and> k \<in> A \<and> m_slot m i k \<noteq> 0}
      \<union> {m_slot m i k | k. k < NDIRECT \<and> k \<in> B \<and> k \<notin> A \<and> m_slot m i k \<noteq> 0}"
    by simp
  then have "m_free m2 = m_free m \<union> {m_slot m i k | k. k < NDIRECT \<and> k \<in> A \<union> B \<and> m_slot m i k \<noteq> 0}"
    by blast
  moreover have "m_slot m2 i k = (if k \<in> A \<union> B then 0 else m_slot m i k)" if "k < NDIRECT" for k
    using d2 sl that by simp
  moreover have "m2 x = m x" if "DISKMAP + 2 * BLKSIZE \<le> x" for x
    using d1 d2 that by simp
  moreover have "m2 x = m x" if "DISKMAP + BLKSIZE \<le> x" "x < iaddr i \<or> iaddr i + INSIZE \<le> x" for x
    using d1 d2 that by metis
  ultimately show ?thesis using d1 d2 unfolding dropped_def by metis
qed

lemma m_drop_dropped:
  assumes m: "m_file m f i"
  shows "dropped m (m_drop i k m) f i {k}"
proof (cases "k < NDIRECT \<and> m_slot m i k \<noteq> 0")
  case False
  then show ?thesis using m by (auto simp: dropped_def m_drop_def)
next
  case True
  then have k: "k < NDIRECT" "m_slot m i k \<noteq> 0" by auto
  let ?b = "m_slot m i k" and ?m1 = "bm_clear SB_blk_ocp (m_slot m i k) m"
  let ?m2 = "m_drop i k m"
  note b = m_file_slot [OF m k] and i = m_file_wf(3) [OF m]
  have eq: "?m2 = set16 (iaddr i + (6 + 2 * k)) 0 ?m1" and kr: "6 + 2 * k + 2 \<le> 32"
    using True slot_addr_field [OF k(1), of i] by (auto simp: m_drop_def)
  have sup: "?m2 x = ?m1 x" if "x < DISKMAP + BLKSIZE" for x
    unfolding eq by (rule set16_inode_super [OF i kr]) (use that in simp)
  have data: "?m2 x = m x" if "DISKMAP + 2 * BLKSIZE \<le> x" for x
    using that bm_clear_data [OF b(3), of x] unfolding eq by (simp add: set16_inode_super [OF i kr])
  have ino: "?m2 x = m x" if "DISKMAP + BLKSIZE \<le> x" "x < iaddr i \<or> iaddr i + INSIZE \<le> x" for x
    using that kr bm_clear_data [OF b(3) that(1)] unfolding eq by (subst set16_other) (auto simp: INSIZE_def)
  have bits: "bm_bit ?m2 SB_blk_ocp c = (bm_bit m SB_blk_ocp c \<and> c \<noteq> ?b)" if "c < 4096" for c
    using outside_super(3) [of ?m2 ?m1 c] sup that by (simp add: bm_bit_clear)
  have n: "m_blk_num ?m2 = m_blk_num m" "m_in_num ?m2 = m_in_num m"
    using outside_super(1,2) [of ?m2 ?m1] sup m_nums_bm(3,4) [of ?b SB_blk_ocp m] b(3) by simp_all
  have same: "?m1 x = m x" if "DISKMAP + BLKSIZE \<le> x" for x by (rule bm_clear_data [OF b(3) that])
  have slot: "m_slot ?m2 i j = (if j = k then 0 else m_slot m i j)" if "j < NDIRECT" for j
    using m_inode_cong(4) [of ?m1 m i j, OF same i] that True
    by (cases j k rule: linorder_cases) (simp_all add: m_slot_def m_drop_def slot_addr_def mem_simps)
  have size: "m_size ?m2 i = m_size m i"
    using m_inode_cong(1) [of ?m1 m i, OF same i] True
    by (simp add: m_size_def m_drop_def slot_addr_def mem_simps fs_consts)
  have lim: "m_blk_num m \<le> 4096" using m by (simp add: m_file_def m_wf_def m_geom_def)
  have "m_free ?m2 = insert ?b (m_free m)"
    using bits n lim b(2) by (auto simp: m_free_def)
  then have free: "m_free ?m2 = m_free m \<union> {m_slot m i j | j. j < NDIRECT \<and> j \<in> {k} \<and> m_slot m i j \<noteq> 0}"
    using k by auto
  have inj: "m_slot m i j \<noteq> ?b" if "j < NDIRECT" "j \<noteq> k" for j
    using m k that unfolding m_file_def by metis
  have e: "get16 ?m2 (f + DE_in_ind) = get16 m (f + DE_in_ind)"
    by (rule in_ind_cong) (simp add: data entry_addr(3) [OF m])
  have "m_file ?m2 f i"
    unfolding m_file_def
  proof (intro conjI allI impI)
    show "m_wf ?m2" using m_file_wf(1) [OF m] n bits b(1) by (auto simp: m_wf_def m_geom_def)
    show "m_addr ?m2 f" using m b(5) bits [of "blk f"] n lim by (auto simp: m_file_def m_addr_def)
    fix j
    assume j: "j < NDIRECT" "m_slot ?m2 i j \<noteq> 0"
    show "2 \<le> m_slot ?m2 i j" "m_slot ?m2 i j < m_blk_num ?m2" "bm_bit ?m2 SB_blk_ocp (m_slot ?m2 i j)"
      "m_slot ?m2 i j \<noteq> blk f"
      using j slot [OF j(1)] m_file_slot [OF m j(1)] inj [OF j(1)] n bits by (auto split: if_splits)
  next
    fix j l
    assume "j < NDIRECT" "l < NDIRECT" "j \<noteq> l" "m_slot ?m2 i j = m_slot ?m2 i l"
    then show "m_slot ?m2 i j = 0" using slot m unfolding m_file_def by (metis (mono_tags, lifting))
  qed (use m e in \<open>auto simp: m_file_def\<close>)
  with free slot size data ino show ?thesis by (auto simp: dropped_def)
qed

lemma truncate_loop_run:
  "sees s m \<Longrightarrow> m_file m f i \<Longrightarrow> (\<And>k. k \<in> set ks \<Longrightarrow> k < 65536) \<Longrightarrow>
   \<exists>m'. goes (truncate_loop f ks s) m' \<and> dropped m m' f i (set ks)"
proof (induction ks arbitrary: s m)
  case Nil
  then show ?case using dropped_refl [of m f i] by (auto intro: goes_Some)
next
  case (Cons k ks)
  from file_free_block_run [OF Cons.prems(1,2), of k] Cons.prems(3) obtain r s1
    where s1: "file_free_block f (of_nat k) s = Some (r, s1)" "sees s1 (m_drop i k m)"
    by (auto elim: runsE)
  note d = m_drop_dropped [OF Cons.prems(2), of k]
  have "m_file (m_drop i k m) f i" using d by (simp add: dropped_def)
  from Cons.IH [OF s1(2) this] Cons.prems(3) obtain m' where
    "goes (truncate_loop f ks s1) m'" "dropped (m_drop i k m) m' f i (set ks)" by auto
  with dropped_trans [OF d this(2)] s1(1) show ?case by auto
qed

lemma nblocks_nat: "unat n \<le> 65536 \<Longrightarrow> unat (nblocks_of n) = (unat n + BLKSIZE - 1) div BLKSIZE"
proof -
  assume n: "unat n \<le> 65536"
  have w: "unat (n + of_nat BLKSIZE - 1) = unat n + 4095"
  proof -
    have "n + of_nat BLKSIZE - 1 = n + 4095" by (simp add: BLKSIZE_def)
    then show ?thesis using n by (simp add: unat_word_ariths)
  qed
  then have "sint (n + of_nat BLKSIZE - 1) = int (unat n + 4095)"
    using n sint_small [of "n + of_nat BLKSIZE - 1"] by simp
  then have "nblocks_of n = of_nat ((unat n + 4095) div 4096)"
    unfolding nblocks_of_def BLKSIZE_def
    by (simp only: c_div_int [of 4096] zero_less_numeral of_int_of_nat_eq)
  moreover have "(unat n + 4095) div 4096 < 65536"
    using n by (intro less_mult_imp_div_less) simp
  ultimately show ?thesis by (simp add: unat_of_nat_u16 BLKSIZE_def)
qed

lemma file_truncate_blocks_run:
  assumes s: "sees s m" and m: "m_file m f i" and n: "unat n \<le> 65536"
  shows "\<exists>m'. goes (file_truncate_blocks f n s) m'
     \<and> dropped m m' f i {k. (unat n + BLKSIZE - 1) div BLKSIZE \<le> k \<and> k < (unat (m_size m i) + BLKSIZE - 1) div BLKSIZE}"
proof -
  note wf = m_file_wf(1,3) [OF m]
  obtain s1 where s1: "rd16 (f + DE_in_ind) s = Some (of_nat i, s1)" "sees s1 m"
    using entry_inode_run [OF s m] by (rule runsE)
  obtain s2 where s2: "rd16 (iaddr i + IN_size) s1 = Some (m_size m i, s2)" "sees s2 m"
    using size_run [OF s1(2) wf] by (rule runsE)
  let ?ks = "[(unat n + BLKSIZE - 1) div BLKSIZE..<(unat (m_size m i) + BLKSIZE - 1) div BLKSIZE]"
  have old: "unat (nblocks_of (ucast (m_size m i))) = (unat (m_size m i) + BLKSIZE - 1) div BLKSIZE"
    using nblocks_nat [of "ucast (m_size m i)"] unat_u16_bound [of "m_size m i"]
    by (simp add: less_imp_le del: unat_u16_bound)
  have "\<exists>m'. goes (truncate_loop f ?ks s2) m' \<and> dropped m m' f i (set ?ks)"
    using size_blocks_le [of "m_size m i"] by (intro truncate_loop_run [OF s2(2) m]) auto
  moreover have "set ?ks = {k. (unat n + BLKSIZE - 1) div BLKSIZE \<le> k \<and> k < (unat (m_size m i) + BLKSIZE - 1) div BLKSIZE}"
    by auto
  ultimately show ?thesis
    by (simp add: file_truncate_blocks_def s1 s2 inode_ptr_of [OF s1(2) wf(2)] nblocks_nat [OF n] old Let_def)
qed

abbreviation nblk :: "nat \<Rightarrow> nat" where
  "nblk n \<equiv> (n + BLKSIZE - 1) div BLKSIZE"

lemma nblk_mono: "a \<le> b \<Longrightarrow> nblk a \<le> nblk b"
  by (intro div_le_mono) simp

lemma below_nblk: "p < n \<Longrightarrow> p div BLKSIZE < nblk n"
proof -
  assume "p < n"
  then have "p + BLKSIZE \<le> n + BLKSIZE - 1 + (if n = 0 then 1 else 0)" by (simp add: BLKSIZE_def)
  with \<open>p < n\<close> have "(p + BLKSIZE) div BLKSIZE \<le> nblk n" by (intro div_le_mono) simp
  then show ?thesis by (simp add: BLKSIZE_def)
qed

lemma unat_ucast_32_16: "unat (n :: u32) < 65536 \<Longrightarrow> unat (ucast n :: u16) = unat n"
  by transfer (simp add: take_bit_eq_mod)

lemma file_set_size_run:
  assumes s: "sees s m" and m: "m_file m f i" and n: "unat n < 65536"
  shows "\<exists>m1. runs (file_set_size f n s) 0 (m_resize i (ucast n) m1)
     \<and> dropped m m1 f i {k. nblk (unat n) \<le> k \<and> k < nblk (unat (m_size m i))}"
proof (cases "unat n < unat (m_size m i)")
  case False
  then have "nblk (unat (m_size m i)) \<le> nblk (unat n)" by (intro nblk_mono) simp
  then have none: "{k. nblk (unat n) \<le> k \<and> k < nblk (unat (m_size m i))} = {}" by auto
  have "sint n = int (unat n)" using n by (intro sint_small) simp
  moreover have "int (unat (m_size m i)) \<le> int (unat n)" using False by (simp only: zle_int not_less)
  ultimately have "uint (m_size m i) \<le> sint n" by simp
  from file_set_size_extend [OF s m this] dropped_refl [OF m] show ?thesis unfolding none by auto
next
  case True
  note wf = m_file_wf(1,3) [OF m]
  obtain s1 where s1: "rd16 (f + DE_in_ind) s = Some (of_nat i, s1)" "sees s1 m"
    using entry_inode_run [OF s m] by (rule runsE)
  obtain s2 where s2: "rd16 (iaddr i + IN_size) s1 = Some (m_size m i, s2)" "sees s2 m"
    using size_run [OF s1(2) wf] by (rule runsE)
  obtain m1 s3 where s3: "file_truncate_blocks f n s2 = Some s3" "sees s3 m1"
    and d: "dropped m m1 f i {k. nblk (unat n) \<le> k \<and> k < nblk (unat (m_size m i))}"
    using file_truncate_blocks_run [OF s2(2) m, of n] n by (auto elim: goesE)
  have f1: "m_file m1 f i" using d by (simp add: dropped_def)
  obtain s4 where s4: "wr16 (iaddr i + IN_size) (ucast n) s3 = Some s4" "sees s4 (m_resize i (ucast n) m1)"
    using size_write_run [OF s3(2) m_file_wf(1,3) [OF f1]] by (rule goesE)
  obtain s5 where s5: "flush_block f s4 = Some s5" "sees s5 (m_resize i (ucast n) m1)"
    using flush_run [OF s4(2) entry_in_cache [OF m]] by (rule goesE)
  have "sint n = int (unat n)" using n by (intro sint_small) simp
  then have "sint n < uint (m_size m i)" using True unfolding uint_nat by linarith
  then have "runs (file_set_size f n s) 0 (m_resize i (ucast n) m1)"
    by (simp add: file_set_size_def s1 s2 s3 s4 s5 inode_ptr_of [OF s1(2) wf(2)] runs_Some Let_def)
  with d show ?thesis by blast
qed

section \<open>Writing and reading\<close>

lemma wrote_resize:
  assumes m: "m_file m f i" and w: "wrote (m_resize i z m) m' f i lo hi d"
  shows "m_file m' f i" "m_size m' i = z" "m_keeps m m' i"
    "\<And>p. p < MAXSIZE \<Longrightarrow> lo \<le> p \<Longrightarrow> p < hi \<Longrightarrow> has_block m' i p \<and> m_byte m' i p = d p"
    "\<And>p. p < MAXSIZE \<Longrightarrow> has_block m i p \<Longrightarrow> \<not> (lo \<le> p \<and> p < hi) \<Longrightarrow> m_byte m' i p = m_byte m i p"
proof -
  note r = m_resize_file [OF m]
  show "m_file m' f i" "m_size m' i = z" using w by (auto simp: wrote_def)
  show "m_keeps m m' i"
    using m_keeps_trans [OF r(4)] w m by (auto simp: wrote_def m_file_def m_wf_def m_geom_def)
  show "has_block m' i p \<and> m_byte m' i p = d p" if "p < MAXSIZE" "lo \<le> p" "p < hi" for p
    using w that by (auto simp: wrote_def)
  show "m_byte m' i p = m_byte m i p" if "p < MAXSIZE" "has_block m i p" "\<not> (lo \<le> p \<and> p < hi)" for p
  proof -
    have "has_block (m_resize i z m) i p" using that(2) pos_slot [OF that(1)] by (simp add: has_block_def)
    with w that r(3) [OF that(1,2)] show ?thesis by (auto simp: wrote_def)
  qed
qed

lemma need_resize: "need (m_resize i z m) i lo hi = need m i lo hi"
  by (auto simp: need_def)

lemma file_write_run:
  assumes s: "sees s m" and m: "m_file m f i" and lim: "unat off + unat cnt \<le> MAXSIZE"
    and free: "card (need m i (unat off) (unat off + unat cnt)) \<le> card (m_free m)"
  shows "\<exists>m'. runs (file_write f buf cnt off s) (int (unat cnt)) m'
     \<and> wrote (m_resize i (of_nat (max (unat (m_size m i)) (unat off + unat cnt))) m) m' f i
         (unat off) (unat off + unat cnt) (\<lambda>p. buf (p - unat off))"
proof -
  note wf = m_file_wf(1,3) [OF m]
  let ?fin = "off + cnt" and ?e = "unat off + unat cnt"
  have e: "unat ?fin = ?e" using lim by (simp add: unat_word_ariths MAXSIZE_eq)
  let ?mr = "m_resize i (of_nat (max (unat (m_size m i)) ?e)) m"
  obtain s1 where s1: "rd16 (f + DE_in_ind) s = Some (of_nat i, s1)" "sees s1 m"
    using entry_inode_run [OF s m] by (rule runsE)
  obtain s2 where s2: "rd16 (iaddr i + IN_size) s1 = Some (m_size m i, s2)" "sees s2 m"
    using size_run [OF s1(2) wf] by (rule runsE)
  have small: "sint ?fin = int ?e" "sint cnt = int (unat cnt)"
    using lim e sint_small [of ?fin] sint_small [of cnt] by (simp_all add: MAXSIZE_eq)
  have "\<exists>s3. (if ucast (m_size m i) < ?fin then file_set_size f ?fin s2 else Some (0, s2)) = Some (0, s3) \<and> sees s3 ?mr"
  proof (cases "unat (m_size m i) < ?e")
    case True
    then have "uint (m_size m i) \<le> sint ?fin" unfolding small uint_nat by linarith
    moreover have "of_nat (max (unat (m_size m i)) ?e) = (ucast ?fin :: u16)"
    proof -
      have "unat (ucast ?fin :: u16) = ?e"
        using unat_ucast_32_16 [of ?fin] e lim unfolding MAXSIZE_eq by linarith
      then have "max (unat (m_size m i)) ?e = unat (ucast ?fin :: u16)" using True by (simp only: max_def) simp
      then show ?thesis by (simp only: of_nat_unat ucast_id)
    qed
    ultimately show ?thesis
      using file_set_size_extend [OF s2(2) m, of ?fin] True e by (auto elim!: runsE simp: word_less_nat_alt)
  next
    case False
    have "of_nat (max (unat (m_size m i)) ?e) = m_size m i" using False by (simp add: max_def)
    moreover have "m_resize i (m_size m i) m = m" by (simp add: m_resize_def m_size_def set16_get16)
    ultimately show ?thesis using False e s2(2) by (simp add: word_less_nat_alt)
  qed
  then obtain s3 where s3: "(if ucast (m_size m i) < ?fin then file_set_size f ?fin s2 else Some (0, s2)) = Some (0, s3)"
    "sees s3 ?mr" by blast
  have "unat off \<le> unat ?fin" "unat ?fin \<le> MAXSIZE" using e lim by simp_all
  moreover have "card (need ?mr i (unat off) (unat ?fin)) \<le> card (m_free ?mr)"
    using free m_resize_file(2) [OF m] by (simp add: need_resize e)
  moreover have "buf (unat off + j - unat off) = buf (0 + j)" for j by simp
  ultimately obtain m' where "runs (file_write_loop (iaddr i) ?fin off 0 buf s3) 0 m'"
    and w: "wrote ?mr m' f i (unat off) ?e (\<lambda>p. buf (p - unat off))"
    using file_write_loop_run [OF s3(2) m_resize_file(1) [OF m], of off ?fin "\<lambda>p. buf (p - unat off)" buf 0]
    unfolding e by blast
  then obtain s4 where s4: "file_write_loop (iaddr i) ?fin off 0 buf s3 = Some (0, s4)" "sees s4 m'"
    by (auto elim: runsE)
  have "m_file m' f i" using w by (simp add: wrote_def)
  from file_flush_run [OF s4(2) this] obtain s5 where s5: "file_flush f s4 = Some s5" "sees s5 m'" by (rule goesE)
  have "runs (file_write f buf cnt off s) (int (unat cnt)) m'"
    unfolding file_write_def
    by (simp add: s1 s2 s3(1) s4 s5 inode_ptr_of [OF s1(2) wf(2)] runs_Some small Let_def)
  with w show ?thesis by blast
qed

lemma file_read_run:
  assumes s: "sees s m" and m: "m_file m f i" and off: "unat off < unat (m_size m i)"
    and n: "n = min (unat cnt) (unat (m_size m i) - unat off)"
    and lim: "unat off + n \<le> MAXSIZE" and has: "has_range m i (unat off) (unat off + n)"
  shows "runs (file_read f buf cnt off s) (int n, set_bytes 0 (m_read m i (unat off) n) buf) m"
proof -
  note wf = m_file_wf(1,3) [OF m]
  obtain s1 where s1: "rd16 (f + DE_in_ind) s = Some (of_nat i, s1)" "sees s1 m"
    using entry_inode_run [OF s m] by (rule runsE)
  obtain s2 where s2: "rd16 (iaddr i + IN_size) s1 = Some (m_size m i, s2)" "sees s2 m"
    using size_run [OF s1(2) wf] by (rule runsE)
  have so: "sint off = int (unat off)" using lim by (intro sint_small) (simp add: MAXSIZE_eq)
  have "sint off < uint (m_size m i)" using off unfolding so uint_nat by linarith
  then have c: "\<not> uint (m_size m i) \<le> sint off" by simp
  let ?c = "min cnt (ucast (m_size m i) - off)"
  have "off \<le> ucast (m_size m i)" using off by (simp add: word_le_nat_alt)
  then have uc: "unat ?c = n"
    unfolding n by (simp only: min_def word_le_nat_alt unat_sub unat_ucast_16_32 split: if_split) simp
  then have sc: "sint ?c = int n" using lim sint_small [of ?c] by (simp add: MAXSIZE_eq)
  have e: "unat (off + ?c) = unat off + n"
    using uc lim by (simp add: unat_word_ariths MAXSIZE_eq)
  obtain s3 where s3: "file_read_loop (iaddr i) (off + ?c) off 0 buf s2
      = Some ((0, set_bytes 0 (m_read m i (unat off) n) buf), s3)" "sees s3 m"
    using file_read_loop_run [OF s2(2) m, of off "off + ?c" 0 buf] e lim has by (auto elim: runsE)
  show ?thesis
    unfolding file_read_def
    by (simp add: s1 s2 s3(1) inode_ptr_of [OF s1(2) wf(2)] c Let_def sc runs_Some [OF s3(2)])
qed

lemma file_read_eof:
  assumes s: "sees s m" and m: "m_file m f i" and off: "uint (m_size m i) \<le> sint off"
  shows "runs (file_read f buf cnt off s) (0, buf) m"
proof -
  note wf = m_file_wf(1,3) [OF m]
  obtain s1 where s1: "rd16 (f + DE_in_ind) s = Some (of_nat i, s1)" "sees s1 m"
    using entry_inode_run [OF s m] by (rule runsE)
  obtain s2 where s2: "rd16 (iaddr i + IN_size) s1 = Some (m_size m i, s2)" "sees s2 m"
    using size_run [OF s1(2) wf] by (rule runsE)
  show ?thesis using off by (simp add: file_read_def s1 s2 inode_ptr_of [OF s1(2) wf(2)] Let_def runs_Some)
qed

end
