(* ===== verification/FsProps.thy ===== *)
theory FsProps
  imports FileSpec
begin

text \<open>
  The properties of the file system, over the states the server can be in, and a small disk image
  on which each of them applies: 16 blocks of which the superblock, the inode block and one
  directory block are in use, 8 inodes of which two are, and a directory with one empty regular
  file whose name is the letter a.
\<close>

section \<open>A disk image\<close>

definition img_entry :: nat where "img_entry = DISKMAP + 2 * BLKSIZE"

definition img_mem :: bytemem where
  "img_mem =
     set16 (DISKMAP + SB_blk_num) 16 (set16 (DISKMAP + SB_in_num) 8
       (set32 (DISKMAP + SB_blk_ocp) 7 (set32 (DISKMAP + SB_in_ocp) 3
         (set16 (iaddr 0 + IN_type) FTYPE_DIR (set16 (iaddr 0 + IN_blk_used) 1 (set16 (slot_addr 0 0) 2
           (set16 (iaddr 1 + IN_type) FTYPE_REG
             (set16 (img_entry + DE_in_ind) 1 (set16 img_entry 97 (\<lambda>_. 0))))))))))"

definition img :: fs where
  "img = \<lparr>fmem = img_mem, fmapped = (\<lambda>b. b < 2), fdirty = (\<lambda>_. False), fsuper = DISKMAP,
          finodes = DISKMAP + BLKSIZE, fdisk = (\<lambda>off. img_mem (DISKMAP + off)),
          pg_ok = (\<lambda>_. True), ide_ok = (\<lambda>_. True)\<rparr>"

lemma img_vmem: "vmem img = img_mem"
  by (auto simp: fun_eq_iff vmem_def view_def img_def in_cache_def)

lemma sees_img: "sees img img_mem"
  by (rule seesI) (simp_all add: img_vmem, simp_all add: img_def meta_ok_def hw_ok_def cache_inv_def)

lemma img_nums: "m_blk_num img_mem = 16" "m_in_num img_mem = 8"
  by (simp_all add: m_blk_num_def m_in_num_def img_mem_def mem_simps fs_consts)

lemma img_words:
  "get32 img_mem (DISKMAP + SB_blk_ocp) = 7" "get32 img_mem (DISKMAP + SB_in_ocp) = 3"
  by (simp_all add: img_mem_def mem_simps fs_consts)

lemma img_bits:
  "b < 32 \<Longrightarrow> bm_bit img_mem SB_blk_ocp b = (b < 3)" "i < 32 \<Longrightarrow> bm_bit img_mem SB_in_ocp i = (i < 2)"
proof -
  have "(7 :: u32) = mask 3" "(3 :: u32) = mask 2" by (simp_all add: mask_eq_exp_minus_1)
  then have b: "bit (7 :: u32) n \<longleftrightarrow> n < 3" "bit (3 :: u32) n \<longleftrightarrow> n < 2" for n
    by (simp_all only: bit_mask_iff) auto
  show "b < 32 \<Longrightarrow> bm_bit img_mem SB_blk_ocp b = (b < 3)" "i < 32 \<Longrightarrow> bm_bit img_mem SB_in_ocp i = (i < 2)"
    by (simp_all only: bm_bit_def bm_addr_def div_less mod_less mult_0_right add_0_right img_words b)
qed

lemma img_free: "m_free img_mem = {3..<16}" "m_ifree img_mem = {2..<8}"
  using img_bits by (auto simp: m_free_def m_ifree_def img_nums)

lemma img_wf: "m_wf img_mem"
  using img_bits(1) [of 0] img_bits(1) [of 1] by (simp add: m_wf_def m_geom_def img_nums)

lemma img_slots: "k < NDIRECT \<Longrightarrow> m_slot img_mem 1 k = 0" "m_size img_mem 1 = 0"
  by (simp_all add: m_slot_def m_size_def img_mem_def mem_simps slot_addr_def iaddr_def img_entry_def fs_consts)

lemma img_file: "m_file img_mem img_entry 1"
proof -
  have "in_cache img_entry" "blk img_entry = 2" "one_block img_entry DIRESIZE"
    by (simp_all add: img_entry_def in_cache_def blk_def one_block_def fs_consts)
  moreover have "get16 img_mem (img_entry + DE_in_ind) = 1"
    by (simp add: img_mem_def mem_simps slot_addr_def iaddr_def img_entry_def fs_consts)
  ultimately show ?thesis
    using img_wf img_bits(1) [of 2] img_slots by (simp add: m_file_def m_addr_def img_nums)
qed

lemma img_bm_inv: "bm_inv img"
  using sees_free(3) [OF sees_img] img_wf by (simp add: m_wf_def)

section \<open>The block cache\<close>

text \<open>
  C13: a page fault is transparent.  When the handler returns, the page is present, the cache is
  consistent, and every byte of the disk looks to the server as it did before.
\<close>

theorem fault_transparent:
  assumes "cache_inv s" "touch a s = Some s'"
  shows "present a s' \<and> cache_inv s' \<and> view s' = view s"
  using bc.fault_vw [OF assms(2)] bc.fault_invar [OF assms] touch_Some [OF assms(2)] by simp

lemma img_cache_inv: "cache_inv img"
  using sees_img by (simp add: sees_def)

theorem fault_transparent_witness:
  "\<not> present img_entry img \<and> (\<exists>s'. touch img_entry img = Some s' \<and> present img_entry s' \<and> view s' = view img)"
proof -
  have "m_addr img_mem img_entry" using img_file by (simp add: m_file_def)
  with touch_sees [OF sees_img m_wf_geom [OF img_wf]] obtain s' where s': "touch img_entry img = Some s'" by auto
  have "\<not> present img_entry img"
    by (simp add: present_def va_is_mapped_def img_def img_entry_def in_cache_def blk_def fs_consts)
  with fault_transparent [OF img_cache_inv s'] s' show ?thesis by blast
qed

text \<open>
  C14: a flush is durable.  When \<open>flush_block\<close> returns, what the server sees is unchanged, the
  cache is consistent, and the disk holds the server's bytes of the whole block.
\<close>

theorem flush_durable:
  assumes "cache_inv s" "flush_block a s = Some s'"
  shows "cache_inv s' \<and> view s' = view s \<and> (\<forall>off. off div BLKSIZE = blk a \<longrightarrow> fdisk s' off = view s off)"
proof -
  have "bc.flush_all [a] s = Some s'" using assms(2) by simp
  with bc.flush_invar [OF assms] bc.flush_vw [OF assms(2)] bc.flush_all_durable [OF assms(1), of "[a]"]
  show ?thesis by auto
qed

definition img_dirty :: fs where
  "img_dirty = store DISKMAP (\<lambda>m. m(DISKMAP := 5)) img"

lemma sees_img_dirty: "sees img_dirty (img_mem(DISKMAP := 5))"
  unfolding img_dirty_def
proof (rule store_sees [OF sees_img _ _ writes_upd])
  show "present DISKMAP img" using sees_img present_meta [of img DISKMAP] by (simp add: sees_def)
qed (simp_all add: in_cache_def one_block_def fs_consts)

theorem flush_durable_witness:
  "\<exists>s'. flush_block DISKMAP img_dirty = Some s' \<and> fdisk img_dirty 0 = 0 \<and> fdisk s' 0 = 5"
proof -
  have inv: "cache_inv img_dirty" "hw_ok img_dirty" using sees_img_dirty by (auto simp: sees_def)
  from flush_block_hw [OF inv(2), of DISKMAP] obtain s' where s': "flush_block DISKMAP img_dirty = Some s'" by simp
  have "view img_dirty 0 = 5" "fdisk img_dirty 0 = 0"
    by (simp_all add: view_def img_dirty_def img_def img_mem_def set32_other set16_other iaddr_def
        slot_addr_def img_entry_def fs_consts)
  moreover have "(0 :: nat) div BLKSIZE = blk DISKMAP" by simp
  ultimately show ?thesis using flush_durable [OF inv(1) s'] s' by metis
qed

section \<open>The bitmaps\<close>

text \<open>
  \<open>alloc_block\<close> is a first-fit allocator that commits its bitmap.  On a full disk it returns
  \<open>-E_NO_DISK\<close> and changes nothing; otherwise it returns the least free block, takes exactly
  this block from the free set, leaves the inode bitmap alone, and the superblock on the disk is
  the one in memory.
\<close>

theorem alloc_block_first_fit:
  assumes "bm_inv s"
  shows "\<exists>r s'. alloc_block s = Some (r, s') \<and> bm_inv s' \<and>
    (if free_blocks s = {} then r = - E_NO_DISK \<and> s' = s
     else r = int (Min (free_blocks s)) \<and> free_blocks s' = free_blocks s - {Min (free_blocks s)}
       \<and> free_inodes s' = free_inodes s \<and> (\<forall>off<BLKSIZE. fdisk s' off = fmem s' (DISKMAP + off)))"
proof (cases "free_blocks s = {}")
  case True
  then show ?thesis using blocks.alloc_empty [OF assms] assms by auto
next
  case False
  let ?b = "Min (free_blocks s)"
  let ?s = "bm_commit (bm_set SB_blk_ocp ?b) s"
  have g: "geom_ok s" using assms by (simp add: bm_inv_def)
  have b: "?b < 4096" using free_blocks_bound [OF assms Min_in] False by simp
  have eq: "alloc_block s = Some (int ?b, ?s)" using False by (simp add: alloc_block_eq [OF g])
  have "fdisk ?s off = fmem ?s (DISKMAP + off)" if "off < BLKSIZE" for off
    using that g by (simp add: bm_commit_def flushed_def save_block_disk geom_ok_def meta_ok_def)
  moreover have "free_inodes ?s = free_inodes s"
    using free_inodes_blk_commit(1) [OF b] g by (simp add: geom_ok_def)
  ultimately show ?thesis using blocks.alloc_least [OF assms False] False by (auto simp: eq)
qed

lemma img_frees: "free_blocks img = {3..<16}" "free_inodes img = {2..<8}"
  using sees_free [OF sees_img m_wf_geom [OF img_wf]] img_free by simp_all

theorem alloc_block_first_fit_witness:
  "\<exists>s'. alloc_block img = Some (3, s') \<and> free_blocks s' = {4..<16}"
proof -
  have "Min {3..<16::nat} = 3" "{3..<16} - {3::nat} = {4..<16}" by (auto intro: Min_eqI)
  then show ?thesis using alloc_block_first_fit [OF img_bm_inv] by (auto simp: img_frees)
qed

text \<open>
  Freeing the block an allocation returned undoes it: the server sees the same disk, byte for
  byte, as before the allocation.
\<close>

theorem alloc_free_block_roundtrip:
  assumes "sees s m" "m_wf m" "m_free m \<noteq> {}"
  shows "\<exists>n s1 s2. alloc_block s = Some (int n, s1) \<and> n \<in> m_free m \<and> free_block n s1 = Some s2 \<and> sees s2 m"
proof -
  let ?b = "Min (m_free m)"
  have b: "?b \<in> m_free m" using assms(3) by simp
  note lim = m_free_ge2 [OF assms(2) b]
  obtain s1 where s1: "alloc_block s = Some (int ?b, s1)" "sees s1 (bm_set SB_blk_ocp ?b m)"
    using alloc_block_run(2) [OF assms(1) m_wf_geom [OF assms(2)] assms(3)] by (rule runsE)
  obtain s2 where s2: "free_block ?b s1 = Some s2" "sees s2 (bm_clear SB_blk_ocp ?b (bm_set SB_blk_ocp ?b m))"
    using free_block_run [OF s1(2), of ?b] lim by (auto elim: goesE)
  have "bm_clear SB_blk_ocp ?b (bm_set SB_blk_ocp ?b m) = m"
    using b by (intro bm_clear_set) (simp add: m_free_def)
  with s1(1) s2 b show ?thesis by auto
qed

theorem alloc_free_block_roundtrip_witness:
  "\<exists>n s1 s2. alloc_block img = Some (int n, s1) \<and> 3 \<le> n \<and> free_block n s1 = Some s2 \<and> vmem s2 = vmem img"
  using alloc_free_block_roundtrip [OF sees_img img_wf] img_vmem by (auto simp: img_free sees_def)

text \<open>
  \<open>alloc_inode\<close> hands out the least free inode number or reports \<open>-E_NO_INODE\<close>, does not
  touch the block bitmap, and \<open>free_inode\<close> gives the number back; freeing inode 0 panics.
\<close>

theorem alloc_inode_first_fit:
  assumes "bm_inv s"
  shows "free_inode 0 s = None \<and>
    (\<exists>r s'. alloc_inode s = Some (r, s') \<and> bm_inv s' \<and>
      (if free_inodes s = {} then r = - E_NO_INODE \<and> s' = s
       else r = int (Min (free_inodes s)) \<and> free_inodes s' = free_inodes s - {Min (free_inodes s)}
         \<and> free_blocks s' = free_blocks s
         \<and> (r \<noteq> 0 \<longrightarrow> (\<exists>s''. free_inode (nat r) s' = Some s'' \<and> bm_inv s'' \<and> free_inodes s'' = free_inodes s))))"
proof (cases "free_inodes s = {}")
  case True
  then show ?thesis using inodes.alloc_empty [OF assms] inodes.release_zero assms by auto
next
  case False
  let ?i = "Min (free_inodes s)"
  let ?s = "bm_commit (bm_set SB_in_ocp ?i) s"
  have g: "geom_ok s" using assms by (simp add: bm_inv_def)
  have i: "?i < 128" using free_inodes_bound [OF assms Min_in] False by simp
  have eq: "alloc_inode s = Some (int ?i, ?s)" using False by (simp add: alloc_inode_eq [OF g])
  have "free_blocks ?s = free_blocks s" using free_blocks_ino_commit(1) [OF i] g by (simp add: geom_ok_def)
  with inodes.alloc_least [OF assms False] inodes.alloc_release [OF assms eq] inodes.release_zero False
  show ?thesis by (auto simp: eq)
qed

theorem alloc_inode_first_fit_witness:
  "\<exists>s'. alloc_inode img = Some (2, s') \<and> free_inodes s' = {3..<8}"
proof -
  have "Min {2..<8::nat} = 2" "{2..<8} - {2::nat} = {3..<8}" by (auto intro: Min_eqI)
  then show ?thesis using alloc_inode_first_fit [OF img_bm_inv] by (auto simp: img_frees)
qed

section \<open>Inode blocks\<close>

text \<open>
  C25: \<open>file_get_block\<close> on every branch.  Past the last direct slot it reports \<open>-E_INVAL\<close>;
  a filled slot gives the block's address and changes nothing the server sees; an empty slot on a
  full disk reports \<open>-E_NO_DISK\<close> and changes nothing; otherwise the least free block is put
  into the slot, \<open>blk_used\<close> grows by one, and the address of that block is returned.
\<close>

theorem file_get_block_spec:
  assumes "sees s m" "m_wf m" "i < 128" "unat k < NDIRECT \<longrightarrow> m_slot m i (unat k) < m_blk_num m"
  shows "\<exists>r a s' m'. file_get_block (iaddr i) k s = Some ((r, a), s') \<and> sees s' m' \<and>
    (if NDIRECT \<le> unat k then r = - E_INVAL \<and> m' = m
     else if m_slot m i (unat k) \<noteq> 0 then r = 0 \<and> a = DISKMAP + m_slot m i (unat k) * BLKSIZE \<and> m' = m
     else if m_free m = {} then r = - E_NO_DISK \<and> m' = m
     else r = 0 \<and> a = DISKMAP + Min (m_free m) * BLKSIZE \<and> m_slot m' i (unat k) = Min (m_free m)
       \<and> m_used m' i = m_used m i + 1 \<and> m_free m' = m_free m - {Min (m_free m)}
       \<and> (\<forall>j<NDIRECT. j \<noteq> unat k \<longrightarrow> m_slot m' i j = m_slot m i j)
       \<and> (\<forall>x. DISKMAP + 2 * BLKSIZE \<le> x \<longrightarrow> m' x = m x))"
proof -
  note run = file_get_block_run [OF assms(1-3), of k]
  consider (range) "NDIRECT \<le> unat k"
    | (there) "unat k < NDIRECT" "m_slot m i (unat k) \<noteq> 0"
    | (full) "unat k < NDIRECT" "m_slot m i (unat k) = 0" "m_free m = {}"
    | (grow) "unat k < NDIRECT" "m_slot m i (unat k) = 0" "m_free m \<noteq> {}" by linarith
  then show ?thesis
  proof cases
    case range
    then show ?thesis using run(1) by (auto simp: runs_def)
  next
    case there
    then show ?thesis using run(2) assms(4) by (auto simp: runs_def)
  next
    case full
    then show ?thesis using run(3) by (auto simp: runs_def)
  next
    case grow
    let ?b = "Min (m_free m)"
    let ?m = "m_grow i (unat k) ?b m"
    have b: "?b < 4096" "?b < m_blk_num m" using m_free_ge2 [OF assms(2) Min_in] grow(3) by simp_all
    have lim: "m_blk_num m \<le> 4096" using assms(2) by (simp add: m_wf_def m_geom_def)
    have "m_free ?m = m_free m - {?b}"
      using m_grow_bits [OF assms(3) grow(1) b(1)] lim by (auto simp: m_free_def)
    moreover obtain s' where
      "file_get_block (iaddr i) k s = Some ((0, DISKMAP + ?b * BLKSIZE), s')" "sees s' ?m"
      using run(4) [OF grow] by (rule runsE)
    ultimately show ?thesis
      using m_grow_fields [OF assms(3) grow(1) b(1)] m_grow_data [OF assms(3) grow(1) b(1)] grow
      by (intro exI [of _ 0] exI [of _ "DISKMAP + ?b * BLKSIZE"] exI [of _ s'] exI [of _ ?m]) simp
  qed
qed

theorem file_get_block_spec_witness:
  "\<exists>s' m'. file_get_block (iaddr 1) 0 img = Some ((0, DISKMAP + 3 * BLKSIZE), s') \<and> sees s' m' \<and> m_slot m' 1 0 = 3"
proof -
  have "Min {3..<16::nat} = 3" by (auto intro: Min_eqI)
  with file_get_block_spec [OF sees_img img_wf, of 1 0] show ?thesis
    by (auto simp: img_slots img_free img_nums NDIRECT_def simp del: One_nat_def)
qed

section \<open>File contents\<close>

lemma write_then_read:
  assumes "sees s m" "m_file m f i" "unat off + unat cnt \<le> MAXSIZE" "0 < unat cnt"
    and "card (need m i (unat off) (unat off + unat cnt)) \<le> card (m_free m)"
  shows "\<exists>s1 s2 buf''. file_write f buf cnt off s = Some (int (unat cnt), s1)
     \<and> file_read f buf' cnt off s1 = Some ((int (unat cnt), buf''), s2)
     \<and> get_bytes buf'' 0 (unat cnt) = get_bytes buf 0 (unat cnt)"
proof -
  let ?z = "of_nat (max (unat (m_size m i)) (unat off + unat cnt)) :: u16"
  obtain m' where run: "runs (file_write f buf cnt off s) (int (unat cnt)) m'"
    and w: "wrote (m_resize i ?z m) m' f i (unat off) (unat off + unat cnt) (\<lambda>p. buf (p - unat off))"
    using file_write_run [OF assms(1-3,5)] by blast
  obtain s1 where s1: "file_write f buf cnt off s = Some (int (unat cnt), s1)" "sees s1 m'"
    using run by (rule runsE)
  note wr = wrote_resize [OF assms(2) w]
  have "unat (m_size m' i) = max (unat (m_size m i)) (unat off + unat cnt)"
    unfolding wr(2) using assms(3) unat_u16_bound [of "m_size m i"]
    by (intro unat_of_nat_u16) (simp add: MAXSIZE_eq)
  then have n: "unat off < unat (m_size m' i)" "unat cnt = min (unat cnt) (unat (m_size m' i) - unat off)"
    using assms(4) by simp_all
  have bytes: "has_block m' i p \<and> m_byte m' i p = buf (p - unat off)"
    if "unat off \<le> p" "p < unat off + unat cnt" for p
    using wr(4) [of p] that assms(3) by simp
  then have "has_range m' i (unat off) (unat off + unat cnt)" by (simp add: has_range_def)
  from file_read_run [OF s1(2) wr(1) n(1,2) assms(3) this, of buf'] obtain s2 where
    s2: "file_read f buf' cnt off s1
      = Some ((int (unat cnt), set_bytes 0 (m_read m' i (unat off) (unat cnt)) buf'), s2)"
    by (rule runsE)
  have "get_bytes (set_bytes 0 (m_read m' i (unat off) (unat cnt)) buf') 0 (unat cnt)
      = m_read m' i (unat off) (unat cnt)"
    using get_bytes_set_bytes_same [of 0 "m_read m' i (unat off) (unat cnt)" buf'] by simp
  also have "\<dots> = get_bytes buf 0 (unat cnt)"
    by (rule nth_equalityI) (auto simp: m_read_def bytes)
  finally show ?thesis using s1(1) s2 by blast
qed

text \<open>
  C1: what was written is what is read.  If the range fits the largest file and the disk has a free
  block for every slot the range has to fill, \<open>file_write\<close> writes all bytes, and a following
  \<open>file_read\<close> of the range returns exactly them.
\<close>

theorem file_write_read:
  assumes "sees s m" "m_file m f i" "unat off + unat cnt \<le> MAXSIZE" "0 < unat cnt"
    and "card (need m i (unat off) (unat off + unat cnt)) \<le> card (m_free m)"
  shows "\<exists>s1 s2 buf''. file_write f buf cnt off s = Some (int (unat cnt), s1)
     \<and> file_read f buf' cnt off s1 = Some ((int (unat cnt), buf''), s2)
     \<and> get_bytes buf'' 0 (unat cnt) = get_bytes buf 0 (unat cnt)"
  using write_then_read [OF assms] .

lemma img_need: "card (need img_mem 1 lo hi) \<le> card (m_free img_mem)"
proof -
  have "card (need img_mem 1 lo hi) \<le> card {..<NDIRECT}" by (rule card_mono) (auto simp: need_def)
  then show ?thesis by (simp add: img_free NDIRECT_def)
qed

theorem file_write_read_witness:
  "\<exists>s1 s2 buf''. file_write img_entry (\<lambda>j. of_nat j) 5000 100 img = Some (5000, s1)
     \<and> file_read img_entry (\<lambda>_. 0) 5000 100 s1 = Some ((5000, buf''), s2)
     \<and> get_bytes buf'' 0 5000 = get_bytes (\<lambda>j. of_nat j) 0 5000"
  using file_write_read [OF sees_img img_file, of 100 5000 "\<lambda>j. of_nat j" "\<lambda>_. 0"] img_need
  by (simp add: MAXSIZE_eq)

text \<open>
  C12: writes are isolated.  A successful \<open>file_write\<close> sets the size to the larger of the old size
  and the end of the range, stores the bytes, keeps the file's other bytes, and changes neither
  the 32 bytes of any other inode nor any block in use that is not the file's own.
\<close>

theorem file_write_isolated:
  assumes "sees s m" "m_file m f i" "unat off + unat cnt \<le> MAXSIZE"
    and "card (need m i (unat off) (unat off + unat cnt)) \<le> card (m_free m)"
  shows "\<exists>s' m'. file_write f buf cnt off s = Some (int (unat cnt), s') \<and> sees s' m' \<and> m_file m' f i
     \<and> unat (m_size m' i) = max (unat (m_size m i)) (unat off + unat cnt)
     \<and> (\<forall>p. unat off \<le> p \<and> p < unat off + unat cnt \<longrightarrow> m_byte m' i p = buf (p - unat off))
     \<and> (\<forall>p<MAXSIZE. has_block m i p \<and> \<not> (unat off \<le> p \<and> p < unat off + unat cnt) \<longrightarrow> m_byte m' i p = m_byte m i p)
     \<and> (\<forall>x. DISKMAP + BLKSIZE \<le> x \<and> x < DISKMAP + 2 * BLKSIZE \<and> (x < iaddr i \<or> iaddr i + INSIZE \<le> x)
            \<longrightarrow> m' x = m x)
     \<and> (\<forall>x. 2 \<le> blk x \<and> blk x < m_blk_num m \<and> bm_bit m SB_blk_ocp (blk x)
            \<and> (\<forall>k<NDIRECT. m_slot m i k \<noteq> blk x) \<longrightarrow> m' x = m x)"
proof -
  let ?z = "of_nat (max (unat (m_size m i)) (unat off + unat cnt)) :: u16"
  obtain m' where run: "runs (file_write f buf cnt off s) (int (unat cnt)) m'"
    and w: "wrote (m_resize i ?z m) m' f i (unat off) (unat off + unat cnt) (\<lambda>p. buf (p - unat off))"
    using file_write_run [OF assms] by blast
  note wr = wrote_resize [OF assms(2) w]
  have "unat (m_size m' i) = max (unat (m_size m i)) (unat off + unat cnt)"
    unfolding wr(2) using assms(3) unat_u16_bound [of "m_size m i"]
    by (intro unat_of_nat_u16) (simp add: MAXSIZE_eq)
  moreover have "m_byte m' i p = buf (p - unat off)" if "unat off \<le> p" "p < unat off + unat cnt" for p
    using wr(4) [of p] that assms(3) by simp
  ultimately show ?thesis
    using run wr(1,3,5) unfolding runs_def m_keeps_def by blast
qed

theorem file_write_isolated_witness:
  "\<exists>s' m'. file_write img_entry (\<lambda>_. 7) 10 4090 img = Some (10, s') \<and> sees s' m'
     \<and> unat (m_size m' 1) = 4100 \<and> m_byte m' 1 4099 = 7 \<and> m' img_entry = 97"
proof -
  have e: "img_mem img_entry = 97"
    by (simp add: img_mem_def mem_simps set32_other slot_addr_def iaddr_def img_entry_def fs_consts)
  have b: "blk img_entry = 2" by (simp add: img_entry_def blk_def fs_consts)
  obtain s' m' where w: "file_write img_entry (\<lambda>_. 7) 10 4090 img = Some (10, s')" "sees s' m'"
    "unat (m_size m' 1) = 4100" "\<forall>p. 4090 \<le> p \<and> p < 4100 \<longrightarrow> m_byte m' 1 p = 7"
    "\<forall>x. 2 \<le> blk x \<and> blk x < 16 \<and> bm_bit img_mem SB_blk_ocp (blk x)
       \<and> (\<forall>k<NDIRECT. m_slot img_mem 1 k \<noteq> blk x) \<longrightarrow> m' x = img_mem x"
    using file_write_isolated [OF sees_img img_file, of 4090 10 "\<lambda>_. 7"] img_need
    by (auto simp: MAXSIZE_eq img_slots img_nums simp del: One_nat_def)
  have "m' img_entry = 97" using w(5) b e img_bits(1) [of 2] img_slots(1) by simp
  with w(1-3) w(4) [rule_format, of 4099] show ?thesis by auto
qed

text \<open>
  \<open>file_set_size\<close> to a 16-bit size truncates or extends.  The blocks past the new size go back
  to the free set and their slots are emptied, no other slot changes, and the bytes below the new
  size are kept.
\<close>

theorem file_set_size_spec:
  assumes "sees s m" "m_file m f i" "unat n < 65536"
  shows "\<exists>s' m'. file_set_size f n s = Some (0, s') \<and> sees s' m' \<and> m_file m' f i \<and> unat (m_size m' i) = unat n
     \<and> (\<forall>k<NDIRECT. m_slot m' i k =
          (if nblk (unat n) \<le> k \<and> k < nblk (unat (m_size m i)) then 0 else m_slot m i k))
     \<and> m_free m' = m_free m \<union> {m_slot m i k | k. k < NDIRECT \<and> nblk (unat n) \<le> k
          \<and> k < nblk (unat (m_size m i)) \<and> m_slot m i k \<noteq> 0}
     \<and> (\<forall>p<MAXSIZE. p < unat n \<and> has_block m i p \<longrightarrow> m_byte m' i p = m_byte m i p)"
proof -
  let ?K = "{k. nblk (unat n) \<le> k \<and> k < nblk (unat (m_size m i))}"
  obtain m1 where run: "runs (file_set_size f n s) 0 (m_resize i (ucast n) m1)" and d: "dropped m m1 f i ?K"
    using file_set_size_run [OF assms] by blast
  let ?m = "m_resize i (ucast n) m1"
  have f1: "m_file m1 f i" using d by (simp add: dropped_def)
  note r = m_resize_file [OF f1, where z = "ucast n"]
  have "m_byte ?m i p = m_byte m i p" if p: "p < MAXSIZE" "p < unat n" "has_block m i p" for p
  proof -
    have k: "p div BLKSIZE < NDIRECT" "p div BLKSIZE \<notin> ?K"
      using pos_slot [OF p(1)] below_nblk [OF p(2)] by simp_all
    then have sl: "m_slot m1 i (p div BLKSIZE) = m_slot m i (p div BLKSIZE)" using d by (auto simp: dropped_def)
    have "2 * BLKSIZE \<le> m_slot m i (p div BLKSIZE) * BLKSIZE"
      using m_file_slot(1) [OF assms(2) k(1)] p(3) by (intro mult_le_mono1) (simp add: has_block_def)
    then have "DISKMAP + 2 * BLKSIZE \<le> DISKMAP + m_slot m i (p div BLKSIZE) * BLKSIZE + p mod BLKSIZE" by linarith
    then have "m_byte m1 i p = m_byte m i p" using d sl by (simp add: dropped_def m_byte_def)
    with r(3) [OF p(1)] p(3) sl show ?thesis by (simp add: has_block_def)
  qed
  moreover have "m_free ?m = m_free m \<union> {m_slot m i k | k. k < NDIRECT \<and> nblk (unat n) \<le> k
          \<and> k < nblk (unat (m_size m i)) \<and> m_slot m i k \<noteq> 0}"
    using d r(2) unfolding dropped_def by (auto simp: conj_assoc)
  moreover have "m_slot ?m i k = (if nblk (unat n) \<le> k \<and> k < nblk (unat (m_size m i)) then 0 else m_slot m i k)"
    if "k < NDIRECT" for k
    using d that by (auto simp: dropped_def)
  ultimately show ?thesis
    using run r(1) unat_ucast_32_16 [OF assms(3)]
    by (intro exI [of _ "snd (the (file_set_size f n s))"] exI [of _ ?m]) (auto elim!: runsE)
qed

theorem file_set_size_spec_witness:
  "\<exists>s1 s2 m1. file_write img_entry (\<lambda>_. 7) 10 4090 img = Some (10, s1)
     \<and> file_set_size img_entry 5 s1 = Some (0, s2) \<and> sees s2 m1 \<and> m_slot m1 1 1 = 0 \<and> unat (m_size m1 1) = 5"
proof -
  obtain m' where run: "runs (file_write img_entry (\<lambda>_. 7) 10 4090 img) 10 m'" "m_file m' img_entry 1"
    "m_size m' 1 = 4100"
    using file_write_run [OF sees_img img_file, of 4090 10 "\<lambda>_. 7"] img_need
      wrote_resize [OF img_file] by (fastforce simp: MAXSIZE_eq img_slots simp del: One_nat_def)
  from run(1) obtain s1 where s1: "file_write img_entry (\<lambda>_. 7) 10 4090 img = Some (10, s1)" "sees s1 m'"
    by (rule runsE)
  from file_set_size_spec [OF s1(2) run(2), of 5] run(3) obtain s2 m1 where
    s2: "file_set_size img_entry 5 s1 = Some (0, s2)" "sees s2 m1" "unat (m_size m1 1) = 5"
    "\<forall>k<13. m_slot m1 1 k = (if 1 \<le> k \<and> k < 2 then 0 else m_slot m' 1 k)"
    by (auto simp: fs_consts simp del: One_nat_def)
  from s2(4) have "m_slot m1 1 1 = 0" by simp
  with s1 s2(1-3) show ?thesis by blast
qed

end
