(* ===== verification/CString.thy ===== *)
theory CString
  imports Prelude
begin

text \<open>
  The C library strings and memory routines (\<open>string.c\<close>), over byte-addressed memory.  A loop
  that runs until a NUL byte may never end, so these are partial functions into \<open>option\<close>; the
  lemmas show that they return on every NUL-terminated string.  The variants of \<open>memset\<close> and
  \<open>memmove\<close> are the ones compiled (\<open>ASM\<close> is 1): string instructions with the direction flag,
  on words when everything is aligned.

  Main results: \<open>memmove\<close> is a simultaneous copy for every overlap of its arguments, \<open>memset\<close>
  fills whichever instruction it uses, \<open>strcmp\<close> decides equality, the copying routines
  terminate their results, and \<open>strtol\<close> evaluates digits modulo \<open>2 ^ 32\<close>.
\<close>

section \<open>Strings\<close>

primrec str_at :: "bytemem \<Rightarrow> nat \<Rightarrow> u8 list \<Rightarrow> bool" where
  "str_at m a [] = (m a = 0)"
| "str_at m a (c # cs) = (m a = c \<and> c \<noteq> 0 \<and> str_at m (Suc a) cs)"

partial_function (option) strlen_loop :: "bytemem \<Rightarrow> nat \<Rightarrow> int \<Rightarrow> int option" where
  "strlen_loop m s n = (if m s \<noteq> 0 then strlen_loop m (Suc s) (n + 1) else Some n)"

definition strlen :: "bytemem \<Rightarrow> nat \<Rightarrow> int option" where
  "strlen m s = strlen_loop m s 0"

fun strnlen_loop :: "bytemem \<Rightarrow> nat \<Rightarrow> nat \<Rightarrow> int \<Rightarrow> int" where
  "strnlen_loop m s 0 n = n"
| "strnlen_loop m s (Suc sz) n = (if m s \<noteq> 0 then strnlen_loop m (Suc s) sz (n + 1) else n)"

definition strnlen :: "bytemem \<Rightarrow> nat \<Rightarrow> nat \<Rightarrow> int" where
  "strnlen m s sz = strnlen_loop m s sz 0"

partial_function (option) strcpy_loop :: "nat \<Rightarrow> nat \<Rightarrow> bytemem \<Rightarrow> bytemem option" where
  "strcpy_loop dst src m =
     (let c = m src; m' = m(dst := c) in
      if c \<noteq> 0 then strcpy_loop (Suc dst) (Suc src) m' else Some m')"

definition strcpy :: "nat \<Rightarrow> nat \<Rightarrow> bytemem \<Rightarrow> (nat \<times> bytemem) option" where
  "strcpy dst src m = do { m \<leftarrow> strcpy_loop dst src m; Some (dst, m) }"

definition strcat :: "nat \<Rightarrow> nat \<Rightarrow> bytemem \<Rightarrow> (nat \<times> bytemem) option" where
  "strcat dst src m = do {
     len \<leftarrow> strlen m dst;
     (r, m) \<leftarrow> strcpy (nat (int dst + len)) src m;
     Some (dst, m)
   }"

fun strncpy_loop :: "nat \<Rightarrow> nat \<Rightarrow> nat \<Rightarrow> bytemem \<Rightarrow> bytemem" where
  "strncpy_loop dst src 0 m = m"
| "strncpy_loop dst src (Suc n) m =
     (let m' = m(dst := m src) in
      strncpy_loop (Suc dst) (if m' src \<noteq> 0 then Suc src else src) n m')"

definition strncpy :: "nat \<Rightarrow> nat \<Rightarrow> nat \<Rightarrow> bytemem \<Rightarrow> nat \<times> bytemem" where
  "strncpy dst src sz m = (dst, strncpy_loop dst src sz m)"

text \<open>The loop of \<open>strlcpy\<close> with \<open>n\<close> characters left before the terminator.\<close>

fun strlcpy_loop :: "nat \<Rightarrow> nat \<Rightarrow> nat \<Rightarrow> bytemem \<Rightarrow> nat \<times> bytemem" where
  "strlcpy_loop dst src 0 m = (dst, m)"
| "strlcpy_loop dst src (Suc n) m =
     (if m src \<noteq> 0 then strlcpy_loop (Suc dst) (Suc src) n (m(dst := m src)) else (dst, m))"

definition strlcpy :: "nat \<Rightarrow> nat \<Rightarrow> nat \<Rightarrow> bytemem \<Rightarrow> nat \<times> bytemem" where
  "strlcpy dst src sz m =
     (if 0 < sz then
        (let (d, m') = strlcpy_loop dst src (sz - 1) m in (d - dst, m'(d := 0)))
      else (0, m))"

partial_function (option) strcmp :: "bytemem \<Rightarrow> nat \<Rightarrow> nat \<Rightarrow> int option" where
  "strcmp m p q =
     (if m p \<noteq> 0 \<and> m p = m q then strcmp m (Suc p) (Suc q)
      else Some (uint (m p) - uint (m q)))"

fun strncmp :: "bytemem \<Rightarrow> nat \<Rightarrow> nat \<Rightarrow> nat \<Rightarrow> int" where
  "strncmp m p q 0 = 0"
| "strncmp m p q (Suc n) =
     (if m p \<noteq> 0 \<and> m p = m q then strncmp m (Suc p) (Suc q) n
      else uint (m p) - uint (m q))"

text \<open>A null pointer result is 0.\<close>

partial_function (option) strchr :: "bytemem \<Rightarrow> nat \<Rightarrow> u8 \<Rightarrow> nat option" where
  "strchr m s c =
     (if m s \<noteq> 0 then if m s = c then Some s else strchr m (Suc s) c else Some 0)"

partial_function (option) strfind :: "bytemem \<Rightarrow> nat \<Rightarrow> u8 \<Rightarrow> nat option" where
  "strfind m s c =
     (if m s \<noteq> 0 then if m s = c then Some s else strfind m (Suc s) c else Some s)"

section \<open>Memory\<close>

text \<open>\<open>rep stosl\<close> and \<open>rep stosb\<close> with the direction flag clear.\<close>

fun rep_stosl :: "nat \<Rightarrow> u32 \<Rightarrow> nat \<Rightarrow> bytemem \<Rightarrow> bytemem" where
  "rep_stosl d w 0 m = m"
| "rep_stosl d w (Suc n) m = rep_stosl (d + 4) w n (set32 d w m)"

fun rep_stosb :: "nat \<Rightarrow> u8 \<Rightarrow> nat \<Rightarrow> bytemem \<Rightarrow> bytemem" where
  "rep_stosb d b 0 m = m"
| "rep_stosb d b (Suc n) m = rep_stosb (d + 1) b n (m(d := b))"

definition memset :: "nat \<Rightarrow> u32 \<Rightarrow> nat \<Rightarrow> bytemem \<Rightarrow> nat \<times> bytemem" where
  "memset v c n m =
     (if n = 0 then (v, m)
      else if v mod 4 = 0 \<and> n mod 4 = 0 then
        (let c = c AND 0xFF;
             c = push_bit 24 c OR push_bit 16 c OR push_bit 8 c OR c in
         (v, rep_stosl v c (n div 4) m))
      else (v, rep_stosb v (ucast c) n m))"

text \<open>One \<open>movs\<close> of width \<open>w\<close>, and its repetition upwards and downwards.\<close>

definition movs :: "nat \<Rightarrow> nat \<Rightarrow> nat \<Rightarrow> bytemem \<Rightarrow> bytemem" where
  "movs w d s m = set_bytes d (get_bytes m s w) m"

fun rep_movs_up :: "nat \<Rightarrow> nat \<Rightarrow> nat \<Rightarrow> nat \<Rightarrow> bytemem \<Rightarrow> bytemem" where
  "rep_movs_up w d s 0 m = m"
| "rep_movs_up w d s (Suc k) m = rep_movs_up w (d + w) (s + w) k (movs w d s m)"

fun rep_movs_down :: "nat \<Rightarrow> nat \<Rightarrow> nat \<Rightarrow> nat \<Rightarrow> bytemem \<Rightarrow> bytemem" where
  "rep_movs_down w d s 0 m = m"
| "rep_movs_down w d s (Suc k) m = rep_movs_down w (d - w) (s - w) k (movs w d s m)"

definition memmove :: "nat \<Rightarrow> nat \<Rightarrow> nat \<Rightarrow> bytemem \<Rightarrow> nat \<times> bytemem" where
  "memmove dst src n m =
     (let s = src; d = dst in
      if s < d \<and> d < s + n then
        (let s = s + n; d = d + n in
         if s mod 4 = 0 \<and> d mod 4 = 0 \<and> n mod 4 = 0
         then (dst, rep_movs_down 4 (d - 4) (s - 4) (n div 4) m)
         else (dst, rep_movs_down 1 (d - 1) (s - 1) n m))
      else if s mod 4 = 0 \<and> d mod 4 = 0 \<and> n mod 4 = 0
      then (dst, rep_movs_up 4 d s (n div 4) m)
      else (dst, rep_movs_up 1 d s n m))"

definition memcpy :: "nat \<Rightarrow> nat \<Rightarrow> nat \<Rightarrow> bytemem \<Rightarrow> nat \<times> bytemem" where
  "memcpy dst src n m = memmove dst src n m"

fun memcmp :: "bytemem \<Rightarrow> nat \<Rightarrow> nat \<Rightarrow> nat \<Rightarrow> int" where
  "memcmp m s1 s2 0 = 0"
| "memcmp m s1 s2 (Suc n) =
     (if m s1 \<noteq> m s2 then uint (m s1) - uint (m s2) else memcmp m (Suc s1) (Suc s2) n)"

fun memfind :: "bytemem \<Rightarrow> nat \<Rightarrow> u32 \<Rightarrow> nat \<Rightarrow> nat" where
  "memfind m s c 0 = s"
| "memfind m s c (Suc n) = (if m s = ucast c then s else memfind m (Suc s) c n)"

section \<open>Numbers\<close>

partial_function (option) skip_blank :: "bytemem \<Rightarrow> nat \<Rightarrow> nat option" where
  "skip_blank m s = (if m s = 32 \<or> m s = 9 then skip_blank m (Suc s) else Some s)"

definition digit_val :: "u8 \<Rightarrow> int option" where
  "digit_val c =
     (if 48 \<le> c \<and> c \<le> 57 then Some (uint c - 48)
      else if 97 \<le> c \<and> c \<le> 122 then Some (uint c - 97 + 10)
      else if 65 \<le> c \<and> c \<le> 90 then Some (uint c - 65 + 10)
      else None)"

text \<open>
  The accumulator is a \<open>long\<close> of 32 bits.  Its overflow, which C leaves undefined, is taken to wrap around as the
  instructions of the processor do.
\<close>

partial_function (option) strtol_digits :: "bytemem \<Rightarrow> int \<Rightarrow> nat \<Rightarrow> i32 \<Rightarrow> (nat \<times> i32) option" where
  "strtol_digits m base s val =
     (case digit_val (m s) of
        None \<Rightarrow> Some (s, val)
      | Some dig \<Rightarrow>
          if base \<le> dig then Some (s, val)
          else strtol_digits m base (Suc s) (val * word_of_int base + word_of_int dig))"

definition strtol :: "bytemem \<Rightarrow> nat \<Rightarrow> int \<Rightarrow> (i32 \<times> nat) option" where
  "strtol m s base = do {
     s \<leftarrow> skip_blank m s;
     let (s, neg) = (if m s = 43 then (Suc s, False) else if m s = 45 then (Suc s, True) else (s, False));
     let (s, base) =
       (if (base = 0 \<or> base = 16) \<and> m s = 48 \<and> m (Suc s) = 120 then (s + 2, 16)
        else if base = 0 \<and> m s = 48 then (Suc s, 8)
        else if base = 0 then (s, 10)
        else (s, base));
     (s, val) \<leftarrow> strtol_digits m base s 0;
     Some (if neg then - val else val, s)
   }"

section \<open>Lemmas on memory routines\<close>

text \<open>A downward copy of \<open>k\<close> units ends with the last unit read and written first.\<close>

lemma get_bytes_set_disjoint:
  "d + length bs \<le> a \<or> a + n \<le> d \<Longrightarrow> get_bytes (set_bytes d bs m) a n = get_bytes m a n"
  by (rule get_bytes_set_bytes_other)

lemma set_bytes_app: "set_bytes d (xs @ ys) m = set_bytes (d + length xs) ys (set_bytes d xs m)"
  by (rule ext) (auto simp: set_bytes_apply nth_append)

lemma set_bytes_commute:
  "a + length xs \<le> b \<or> b + length ys \<le> a \<Longrightarrow>
   set_bytes a xs (set_bytes b ys m) = set_bytes b ys (set_bytes a xs m)"
  by (rule ext) (auto simp: set_bytes_apply)

lemma get_bytes_add: "get_bytes m a (i + j) = get_bytes m a i @ get_bytes m (a + i) j"
  by (rule nth_equalityI) (auto simp: nth_append)

lemma rep_movs_up_copy:
  "d \<le> s \<or> s + w * k \<le> d \<Longrightarrow>
   rep_movs_up w d s k m = set_bytes d (get_bytes m s (w * k)) m"
proof (induction k arbitrary: d s m)
  case 0
  then show ?case by (simp add: get_bytes_def)
next
  case (Suc k)
  have "get_bytes (movs w d s m) (s + w) (w * k) = get_bytes m (s + w) (w * k)"
    unfolding movs_def using Suc.prems by (intro get_bytes_set_disjoint) auto
  moreover have "d + w \<le> s + w \<or> s + w + w * k \<le> d + w" using Suc.prems by auto
  ultimately show ?case
    using Suc.IH [of "d + w" "s + w" "movs w d s m"]
    by (simp add: get_bytes_add set_bytes_app movs_def)
qed

lemma rep_movs_down_copy:
  "s \<le> d \<Longrightarrow>
   rep_movs_down w (d + w * k - w) (s + w * k - w) k m = set_bytes d (get_bytes m s (w * k)) m"
proof (induction k arbitrary: m)
  case 0
  then show ?case by (simp add: get_bytes_def)
next
  case (Suc k)
  let ?m = "movs w (d + w * k) (s + w * k) m"
  have r: "get_bytes ?m s (w * k) = get_bytes m s (w * k)"
    unfolding movs_def using Suc.prems by (intro get_bytes_set_disjoint) auto
  have "rep_movs_down w (d + w * Suc k - w) (s + w * Suc k - w) (Suc k) m
      = rep_movs_down w (d + w * k - w) (s + w * k - w) k ?m"
    by (simp add: add.assoc [symmetric] add.commute [of w])
  also have "\<dots> = set_bytes d (get_bytes m s (w * k)) ?m" using Suc.IH [OF Suc.prems, of ?m] r by simp
  also have "\<dots> = set_bytes (d + w * k) (get_bytes m (s + w * k) w) (set_bytes d (get_bytes m s (w * k)) m)"
    unfolding movs_def by (rule set_bytes_commute) simp
  also have "\<dots> = set_bytes d (get_bytes m s (w * k + w)) m"
    by (simp add: get_bytes_add set_bytes_app)
  finally show ?case by (simp add: add.commute)
qed

lemma memmove_copy: "memmove dst src n m = (dst, set_bytes dst (get_bytes m src n) m)"
proof -
  have four: "n mod 4 = 0 \<Longrightarrow> 4 * (n div 4) = n" by presburger
  show ?thesis
  proof (cases "src < dst \<and> dst < src + n")
    case True
    then show ?thesis
      using rep_movs_down_copy [of src dst 4 "n div 4" m] rep_movs_down_copy [of src dst 1 n m] four
      by (auto simp: memmove_def Let_def)
  next
    case False
    then show ?thesis
      using rep_movs_up_copy [of dst src 4 "n div 4" m] rep_movs_up_copy [of dst src 1 n m] four
      by (auto simp: memmove_def Let_def)
  qed
qed

lemma rep_stosb_fill: "rep_stosb d b n m = set_bytes d (replicate n b) m"
  by (induction n arbitrary: d m) simp_all

lemma set32_bytes: "set32 d w m =
  set_bytes d [ucast w, ucast (drop_bit 8 w), ucast (drop_bit 16 w), ucast (drop_bit 24 w)] m"
proof -
  have "ucast (drop_bit 8 (ucast w :: u16)) = (ucast (drop_bit 8 w) :: u8)"
    "ucast (drop_bit 8 (ucast (drop_bit 16 w) :: u16)) = (ucast (drop_bit 24 w) :: u8)"
    "ucast (ucast w :: u16) = (ucast w :: u8)" "ucast (ucast (drop_bit 16 w) :: u16) = (ucast (drop_bit 16 w) :: u8)"
    by (rule bit_word_eqI; auto simp: bit_simps)+
  then show ?thesis by (simp add: set32_def set16_def eval_nat_numeral)
qed

lemma rep_stosl_fill:
  assumes "ucast w = b" "ucast (drop_bit 8 w) = b" "ucast (drop_bit 16 w) = b" "ucast (drop_bit 24 w) = (b :: u8)"
  shows "rep_stosl d w n m = set_bytes d (replicate (4 * n) b) m"
proof (induction n arbitrary: d m)
  case 0
  then show ?case by simp
next
  case (Suc n)
  have "replicate (4 * Suc n) b = [b, b, b, b] @ replicate (4 * n) b"
    by (simp add: eval_nat_numeral)
  moreover have "length [b, b, b, b] = 4" by simp
  ultimately show ?case by (simp only: rep_stosl.simps set32_bytes assms set_bytes_app Suc.IH)
qed

lemma memset_fill: "memset v c n m = (v, set_bytes v (replicate n (ucast c)) m)"
proof -
  let ?c = "c AND 0xFF"
  let ?w = "push_bit 24 ?c OR push_bit 16 ?c OR push_bit 8 ?c OR ?c"
  have m: "(0xFF :: u32) = mask 8" by (simp add: mask_eq_exp_minus_1)
  have "ucast ?w = (ucast c :: u8)" "ucast (drop_bit 8 ?w) = (ucast c :: u8)"
    "ucast (drop_bit 16 ?w) = (ucast c :: u8)" "ucast (drop_bit 24 ?w) = (ucast c :: u8)"
    unfolding m by (rule bit_word_eqI; auto simp: bit_simps)+
  note w = rep_stosl_fill [OF this, of v "n div 4" m]
  have "n mod 4 = 0 \<Longrightarrow> 4 * (n div 4) = n" by presburger
  with w show ?thesis by (auto simp: memset_def Let_def rep_stosb_fill)
qed

section \<open>Lemmas on strings\<close>

lemma str_at_nth: "str_at m a cs \<Longrightarrow> i < length cs \<Longrightarrow> m (a + i) = cs ! i \<and> cs ! i \<noteq> 0"
proof (induction cs arbitrary: a i)
  case (Cons c cs)
  show ?case
  proof (cases i)
    case 0
    then show ?thesis using Cons.prems by simp
  next
    case (Suc j)
    then show ?thesis using Cons.IH [of "Suc a" j] Cons.prems by simp
  qed
qed simp

lemma str_at_end: "str_at m a cs \<Longrightarrow> m (a + length cs) = 0"
proof (induction cs arbitrary: a)
  case (Cons c cs)
  then show ?case using Cons.IH [of "Suc a"] by simp
qed simp

lemma str_atI:
  "(\<And>i. i < length cs \<Longrightarrow> m (a + i) = cs ! i) \<Longrightarrow> 0 \<notin> set cs \<Longrightarrow> m (a + length cs) = 0 \<Longrightarrow> str_at m a cs"
proof (induction cs arbitrary: a)
  case (Cons c cs)
  have "m (Suc a + i) = cs ! i" if "i < length cs" for i using Cons.prems(1) [of "Suc i"] that by simp
  with Cons.IH [of "Suc a"] Cons.prems(1) [of 0] Cons.prems(2,3) show ?case by auto
qed simp

lemma str_at_cong:
  "(\<And>i. i \<le> length cs \<Longrightarrow> m' (a + i) = m (a + i)) \<Longrightarrow> str_at m' a cs = str_at m a cs"
proof (induction cs arbitrary: a)
  case (Cons c cs)
  have "m' (Suc a + i) = m (Suc a + i)" if "i \<le> length cs" for i using Cons.prems [of "Suc i"] that by simp
  with Cons.IH [of "Suc a"] Cons.prems [of 0] show ?case by simp
qed simp

lemma str_at_unique: "str_at m a cs \<Longrightarrow> str_at m a ds \<Longrightarrow> cs = ds"
  by (induction cs arbitrary: a ds) (case_tac ds, auto)+

lemma strlen_loop_str: "str_at m s cs \<Longrightarrow> strlen_loop m s n = Some (n + int (length cs))"
  by (induction cs arbitrary: s n) (subst strlen_loop.simps, simp)+

lemma strlen_str: "str_at m s cs \<Longrightarrow> strlen m s = Some (int (length cs))"
  by (simp add: strlen_def strlen_loop_str)

text \<open>Copying upwards is safe if the copy does not run into the rest of the source.\<close>

lemma strcpy_loop_str:
  "str_at m src cs \<Longrightarrow> dst \<le> src \<or> src + length cs < dst \<Longrightarrow>
   strcpy_loop dst src m = Some (set_bytes dst (cs @ [0]) m)"
proof (induction cs arbitrary: dst src m)
  case Nil
  then show ?case by (subst strcpy_loop.simps) simp
next
  case (Cons c cs)
  let ?m = "m(dst := c)"
  have "str_at ?m (Suc src) cs = str_at m (Suc src) cs"
    using Cons.prems(2) by (intro str_at_cong) auto
  then have "strcpy_loop (Suc dst) (Suc src) ?m = Some (set_bytes (Suc dst) (cs @ [0]) ?m)"
    using Cons.prems by (intro Cons.IH) (auto simp: fun_upd_def)
  with Cons.prems show ?case by (subst strcpy_loop.simps) (simp add: Let_def)
qed

lemma strcpy_str:
  "str_at m src cs \<Longrightarrow> dst \<le> src \<or> src + length cs < dst \<Longrightarrow>
   strcpy dst src m = Some (dst, set_bytes dst (cs @ [0]) m)"
  by (simp add: strcpy_def strcpy_loop_str)

lemma str_at_set_bytes: "0 \<notin> set cs \<Longrightarrow> str_at (set_bytes a (cs @ [0]) m) a cs"
  by (rule str_atI) (auto simp: set_bytes_apply nth_append)

lemma strcmp_str:
  "str_at m p cs \<Longrightarrow> str_at m q ds \<Longrightarrow> \<exists>r. strcmp m p q = Some r \<and> (r = 0 \<longleftrightarrow> cs = ds)"
proof (induction cs arbitrary: p q ds)
  case Nil
  then show ?case by (cases ds) (subst strcmp.simps, simp add: uint_0_iff)+
next
  case (Cons c cs)
  show ?case
  proof (cases ds)
    case Nil
    then show ?thesis using Cons.prems by (subst strcmp.simps) (simp add: uint_0_iff)
  next
    case (Cons d ds')
    show ?thesis
    proof (cases "c = d")
      case True
      with Cons.IH [of "Suc p" "Suc q" ds'] Cons.prems Cons show ?thesis by (subst strcmp.simps) simp
    next
      case False
      with Cons.prems Cons show ?thesis by (subst strcmp.simps) (simp flip: word_uint_eq_iff)
    qed
  qed
qed

text \<open>The bounded copies: \<open>strlcpy\<close> always terminates its result, \<open>strncpy\<close> pads.\<close>

lemma strlcpy_loop_str:
  "str_at m src cs \<Longrightarrow> dst \<le> src \<or> src + length cs < dst \<Longrightarrow>
   strlcpy_loop dst src n m = (dst + min n (length cs), set_bytes dst (take n cs) m)"
proof (induction n arbitrary: dst src cs m)
  case 0
  then show ?case by simp
next
  case (Suc n)
  show ?case
  proof (cases cs)
    case Nil
    then show ?thesis using Suc.prems by simp
  next
    case (Cons c cs')
    let ?m = "m(dst := c)"
    have "str_at ?m (Suc src) cs' = str_at m (Suc src) cs'"
      using Suc.prems(2) Cons by (intro str_at_cong) auto
    then have "strlcpy_loop (Suc dst) (Suc src) n ?m = (Suc dst + min n (length cs'), set_bytes (Suc dst) (take n cs') ?m)"
      using Suc.prems Cons by (intro Suc.IH) (auto simp: fun_upd_def)
    with Suc.prems Cons show ?thesis by simp
  qed
qed

lemma strlcpy_str:
  assumes "str_at m src cs" "dst \<le> src \<or> src + length cs < dst" "0 < n"
  shows "strlcpy dst src n m = (min (n - 1) (length cs), set_bytes dst (take (n - 1) cs @ [0]) m)"
  using strlcpy_loop_str [OF assms(1,2), of "n - 1"] assms(3)
  by (simp add: strlcpy_def set_bytes_app min.commute)

lemma strncpy_loop_str:
  "str_at m src cs \<Longrightarrow> src + length cs < dst \<Longrightarrow>
   strncpy_loop dst src n m = set_bytes dst (take n (cs @ replicate n 0)) m"
proof (induction n arbitrary: dst src cs m)
  case 0
  then show ?case by simp
next
  case (Suc n)
  show ?case
  proof (cases cs)
    case Nil
    let ?m = "m(dst := 0)"
    have "str_at ?m src [] = str_at m src []" using Suc.prems Nil by (intro str_at_cong) auto
    then have "strncpy_loop (Suc dst) src n ?m = set_bytes (Suc dst) (take n ([] @ replicate n 0)) ?m"
      using Suc.prems Nil by (intro Suc.IH) (auto simp: fun_upd_def)
    with Suc.prems Nil show ?thesis by (simp add: Let_def)
  next
    case (Cons c cs')
    let ?m = "m(dst := c)"
    have "str_at ?m (Suc src) cs' = str_at m (Suc src) cs'"
      using Suc.prems(2) Cons by (intro str_at_cong) auto
    then have "strncpy_loop (Suc dst) (Suc src) n ?m = set_bytes (Suc dst) (take n (cs' @ replicate n 0)) ?m"
      using Suc.prems Cons by (intro Suc.IH) (auto simp: fun_upd_def)
    with Suc.prems Cons show ?thesis by (auto simp: Let_def replicate_append_same [symmetric])
  qed
qed

lemma memcmp_eq_0: "memcmp m a b n = 0 \<longleftrightarrow> get_bytes m a n = get_bytes m b n"
  by (induction n arbitrary: a b) (auto simp: get_bytes_Suc simp flip: word_uint_eq_iff)

lemma memfind_first:
  "memfind m s c n = s + length (takeWhile (\<lambda>b. b \<noteq> ucast c) (get_bytes m s n))"
  by (induction n arbitrary: s) (auto simp: get_bytes_Suc)

lemma strchr_str:
  "str_at m s cs \<Longrightarrow> strchr m s c =
     Some (if c \<in> set cs then s + length (takeWhile (\<lambda>x. x \<noteq> c) cs) else 0)"
  by (induction cs arbitrary: s) (subst strchr.simps, auto)+

lemma strfind_str:
  "str_at m s cs \<Longrightarrow> strfind m s c = Some (s + length (takeWhile (\<lambda>x. x \<noteq> c) cs))"
  by (induction cs arbitrary: s) (subst strfind.simps, auto)+

section \<open>Lemmas on strtol\<close>

text \<open>\<open>num_at m s base ds e\<close>: the digits \<open>ds\<close> (their values) stand at \<open>s\<close>, and \<open>e\<close> is the first
  address that holds no digit of the base.\<close>

fun num_at :: "bytemem \<Rightarrow> nat \<Rightarrow> int \<Rightarrow> int list \<Rightarrow> bool" where
  "num_at m s base [] = (case digit_val (m s) of None \<Rightarrow> True | Some d \<Rightarrow> base \<le> d)"
| "num_at m s base (d # ds) = (digit_val (m s) = Some d \<and> d < base \<and> num_at m (Suc s) base ds)"

definition num_val :: "int \<Rightarrow> int list \<Rightarrow> int" where
  "num_val base ds = foldl (\<lambda>v d. v * base + d) 0 ds"

lemma strtol_digits_num:
  "num_at m s base ds \<Longrightarrow>
   strtol_digits m base s (word_of_int v) = Some (s + length ds, word_of_int (foldl (\<lambda>v d. v * base + d) v ds))"
proof (induction ds arbitrary: s v)
  case Nil
  then show ?case by (subst strtol_digits.simps) (auto split: option.splits)
next
  case (Cons d ds)
  have "strtol_digits m base s (word_of_int v) = strtol_digits m base (Suc s) (word_of_int (v * base + d))"
    using Cons.prems by (subst strtol_digits.simps) simp
  with Cons.IH [of "Suc s" "v * base + d"] Cons.prems show ?case by simp
qed

lemma digit_first:
  "digit_val c = Some d \<Longrightarrow> c \<noteq> 32 \<and> c \<noteq> 9 \<and> c \<noteq> 43 \<and> c \<noteq> 45"
  by (auto simp: digit_val_def split: if_splits)

text \<open>A decimal numeral, with an optional minus sign, in an explicit base of at least 2 and not 16.\<close>

lemma strtol_num:
  assumes "num_at m s base (d # ds)" "base \<noteq> 0" "base \<noteq> 16"
  shows "strtol m s base = Some (word_of_int (num_val base (d # ds)), s + length (d # ds))"
proof -
  have f: "m s \<noteq> 32" "m s \<noteq> 9" "m s \<noteq> 43" "m s \<noteq> 45" using digit_first assms(1) by auto
  have "skip_blank m s = Some s" using f by (subst skip_blank.simps) simp
  moreover have "strtol_digits m base s 0 = Some (s + length (d # ds), word_of_int (num_val base (d # ds)))"
    using strtol_digits_num [OF assms(1), of 0] by (simp add: num_val_def)
  ultimately show ?thesis using f assms(2,3) by (simp add: strtol_def)
qed

lemma strtol_neg:
  assumes "m s = 45" "num_at m (Suc s) base ds" "base \<noteq> 0" "base \<noteq> 16"
  shows "strtol m s base = Some (- word_of_int (num_val base ds), Suc s + length ds)"
proof -
  have "skip_blank m s = Some s" using assms(1) by (subst skip_blank.simps) simp
  moreover have "strtol_digits m base (Suc s) 0 = Some (Suc s + length ds, word_of_int (num_val base ds))"
    using strtol_digits_num [OF assms(2), of 0] by (simp add: num_val_def)
  ultimately show ?thesis using assms(1,3,4) by (simp add: strtol_def)
qed

section \<open>Properties\<close>

text \<open>
  C21: \<open>memmove\<close> is a simultaneous copy.  Whatever the overlap and alignment of source and
  destination, upwards or downwards, by words or by bytes, the destination afterwards holds the
  bytes the source held before, and no other address changes.
\<close>

theorem memmove_simultaneous:
  "fst (memmove dst src n m) = dst
   \<and> get_bytes (snd (memmove dst src n m)) dst n = get_bytes m src n
   \<and> (\<forall>x. x < dst \<or> dst + n \<le> x \<longrightarrow> snd (memmove dst src n m) x = m x)"
  using get_bytes_set_bytes_same [of dst "get_bytes m src n" m]
  by (auto simp: memmove_copy set_bytes_outside)

theorem memmove_simultaneous_witness:
  "get_bytes (snd (memmove 2 0 5 (\<lambda>a. of_nat a))) 2 5 = [0, 1, 2, 3, 4]
   \<and> snd (memmove 2 0 5 (\<lambda>a. of_nat a)) 9 = 9"
  using memmove_simultaneous [of 2 0 5 "\<lambda>a. of_nat a"]
  by (simp add: get_bytes_def upt_rec)

text \<open>
  \<open>memset\<close> fills exactly its range with the low byte of \<open>c\<close>, by words when address and
  length are multiples of four and by bytes otherwise.
\<close>

theorem memset_fills:
  "memset v c n m = (v, \<lambda>x. if v \<le> x \<and> x < v + n then ucast c else m x)"
  by (auto simp: memset_fill fun_eq_iff set_bytes_apply)

text \<open>
  On NUL-terminated strings \<open>strcmp\<close> returns, and returns 0 exactly for equal strings;
  \<open>strlen\<close> returns the length; \<open>strcpy\<close> to a buffer that does not run into the source makes an
  equal string; and \<open>strlcpy\<close> writes at most its limit, terminates, and returns the length.
\<close>

theorem string_copies:
  assumes "str_at m p cs" "str_at m q ds" "dst \<le> p \<or> p + length cs < dst" "0 < n"
  shows "(\<exists>r. strcmp m p q = Some r \<and> (r = 0 \<longleftrightarrow> cs = ds)) \<and> strlen m p = Some (int (length cs))
    \<and> (\<exists>m'. strcpy dst p m = Some (dst, m') \<and> str_at m' dst cs
          \<and> (\<forall>x. x < dst \<or> dst + length cs < x \<longrightarrow> m' x = m x))
    \<and> (\<exists>m'. strlcpy dst p n m = (min (n - 1) (length cs), m') \<and> str_at m' dst (take (n - 1) cs)
          \<and> (\<forall>x. x < dst \<or> dst + n \<le> x \<longrightarrow> m' x = m x))"
proof -
  have z: "0 \<notin> set cs" using str_at_nth [OF assms(1)] by (metis in_set_conv_nth)
  then have zt: "0 \<notin> set (take (n - 1) cs)" using in_set_takeD by fast
  show ?thesis
    using strcmp_str [OF assms(1,2)] strlen_str [OF assms(1)] strcpy_str [OF assms(1,3)]
      strlcpy_str [OF assms(1,3,4)] str_at_set_bytes [OF z, of dst m] str_at_set_bytes [OF zt, of dst m] assms(4)
    by (auto simp: set_bytes_outside)
qed

definition two_strings :: bytemem where
  "two_strings = set_bytes 100 [97, 98, 99, 0] (set_bytes 200 [97, 98, 0] (\<lambda>_. 0))"

theorem string_copies_witness:
  "str_at two_strings 100 [97, 98, 99] \<and> (\<exists>r. strcmp two_strings 100 200 = Some r \<and> r \<noteq> 0)
   \<and> (\<exists>m'. strlcpy 300 100 3 two_strings = (2, m') \<and> str_at m' 300 [97, 98])"
proof -
  have s: "str_at two_strings 100 [97, 98, 99]" "str_at two_strings 200 [97, 98]"
    by (simp_all add: two_strings_def)
  from string_copies [OF s, of 300 3] s(1) show ?thesis by auto
qed

text \<open>
  \<open>strtol\<close> in an explicit base evaluates the numeral at its argument, with an optional minus
  sign, modulo \<open>2 ^ 32\<close>, and hands back the address of the first character that is no digit.
\<close>

theorem strtol_value:
  assumes "base \<noteq> 0" "base \<noteq> 16"
  shows "(num_at m s base (d # ds) \<longrightarrow>
      strtol m s base = Some (word_of_int (num_val base (d # ds)), s + length (d # ds)))
    \<and> (m s = 45 \<and> num_at m (Suc s) base (d # ds) \<longrightarrow>
      strtol m s base = Some (word_of_int (- num_val base (d # ds)), Suc s + length (d # ds)))"
  using strtol_num [of m s base d ds] strtol_neg [of m s base "d # ds"] assms by auto

theorem strtol_value_witness:
  "strtol (set_bytes 0 [45, 49, 50, 32] (\<lambda>_. 0)) 0 10 = Some (word_of_int (- 12), 3)"
  using strtol_value [of 10 "set_bytes 0 [45, 49, 50, 32] (\<lambda>_. 0)" 0 1 "[2]"]
  by (simp add: digit_val_def num_val_def)

end
