(* ===== verification/DirProps.thy ===== *)
theory DirProps
  imports FsProps CString
begin

text \<open>
  Directories and path names.  The entries of a directory are the 227 slots of each of its blocks, in
  order; a path is resolved one component at a time, each by the first entry of that name.

  Lemmas: \<open>dir_lookup\<close> and \<open>walk_path\<close> leave what the server sees unchanged, provided the directories
  they meet have all their blocks, and find what the specification finds.
\<close>

section \<open>Specification\<close>

definition m_ent :: "bytemem \<Rightarrow> nat \<Rightarrow> nat \<Rightarrow> nat \<Rightarrow> nat" where
  "m_ent m i k j = DISKMAP + m_slot m i k * BLKSIZE + DIRESIZE * j"

definition m_entries :: "bytemem \<Rightarrow> nat \<Rightarrow> nat list" where
  "m_entries m i = concat (map (\<lambda>k. map (m_ent m i k) [0..<BLKFILES]) [0..<unat (m_used m i)])"

definition m_find :: "bytemem \<Rightarrow> nat \<Rightarrow> u8 list \<Rightarrow> nat option" where
  "m_find m i name = find (\<lambda>e. str_at m e name) (m_entries m i)"

definition m_dir :: "bytemem \<Rightarrow> nat \<Rightarrow> bool" where
  "m_dir m i \<longleftrightarrow> m_wf m \<and> i < 128 \<and> unat (m_used m i) \<le> NDIRECT
     \<and> (\<forall>k<unat (m_used m i). 2 \<le> m_slot m i k \<and> m_slot m i k < m_blk_num m \<and> bm_bit m SB_blk_ocp (m_slot m i k))"

text \<open>The components of a path: the stretches between slashes.\<close>

fun elems :: "u8 list \<Rightarrow> u8 list \<Rightarrow> u8 list list" where
  "elems acc [] = (if acc = [] then [] else [acc])"
| "elems acc (c # cs) =
     (if c = CH_SLASH then (if acc = [] then elems [] cs else acc # elems [] cs) else elems (acc @ [c]) cs)"

fun m_resolve :: "bytemem \<Rightarrow> nat \<Rightarrow> nat \<Rightarrow> u8 list list \<Rightarrow> int \<times> nat" where
  "m_resolve m i e [] = (0, e)"
| "m_resolve m i e (n # ns) =
     (if MAXNAMELEN \<le> length n then (- E_BAD_PATH, 0)
      else if m_type m i \<noteq> FTYPE_DIR then (- E_NOT_FOUND, 0)
      else (case m_find m i n of
              None \<Rightarrow> (- E_NOT_FOUND, 0)
            | Some e \<Rightarrow> m_resolve m (unat (get16 m (e + DE_in_ind))) e ns))"

text \<open>What \<open>walk_path\<close> hands back, and the inode the components of a path lead to.\<close>

fun m_walk :: "bytemem \<Rightarrow> nat \<Rightarrow> nat \<Rightarrow> nat \<Rightarrow> u8 list list \<Rightarrow> walk_result" where
  "m_walk m i dir e [] = \<lparr>w_ret = 0, w_dir = dir, w_entry = e, w_last = None\<rparr>"
| "m_walk m i dir e (n # ns) =
     (if MAXNAMELEN \<le> length n then \<lparr>w_ret = - E_BAD_PATH, w_dir = 0, w_entry = 0, w_last = None\<rparr>
      else if m_type m i \<noteq> FTYPE_DIR then \<lparr>w_ret = - E_NOT_FOUND, w_dir = 0, w_entry = 0, w_last = None\<rparr>
      else (case m_find m i n of
              None \<Rightarrow> \<lparr>w_ret = - E_NOT_FOUND, w_dir = (if ns = [] then iaddr i else 0), w_entry = 0,
                       w_last = (if ns = [] then Some n else None)\<rparr>
            | Some e \<Rightarrow> m_walk m (unat (get16 m (e + DE_in_ind))) (iaddr i) e ns))"

fun m_follow :: "bytemem \<Rightarrow> nat \<Rightarrow> u8 list list \<Rightarrow> nat option" where
  "m_follow m i [] = Some i"
| "m_follow m i (n # ns) =
     (if MAXNAMELEN \<le> length n \<or> m_type m i \<noteq> FTYPE_DIR then None
      else (case m_find m i n of None \<Rightarrow> None | Some e \<Rightarrow> m_follow m (unat (get16 m (e + DE_in_ind))) ns))"

text \<open>Every directory has its blocks, and every entry with a name leads to an inode.\<close>

definition m_tree :: "bytemem \<Rightarrow> bool" where
  "m_tree m \<longleftrightarrow> m_wf m \<and> (\<forall>i<128. m_type m i = FTYPE_DIR \<longrightarrow> m_dir m i
     \<and> (\<forall>e\<in>set (m_entries m i). m e \<noteq> 0 \<longrightarrow> unat (get16 m (e + DE_in_ind)) < 128))"

section \<open>Looking up a name\<close>

lemma ent_range:
  assumes "j < BLKFILES" "l < DIRESIZE"
  shows "DIRESIZE * j + l < BLKSIZE"
  using assms by (simp add: fs_consts)

lemma m_ent_addr:
  assumes "m_dir m i" "k < unat (m_used m i)" "j < BLKFILES" "l < DIRESIZE"
  shows "m_addr m (m_ent m i k j + l)" "blk (m_ent m i k j + l) = m_slot m i k"
proof -
  have s: "m_slot m i k < m_blk_num m" "bm_bit m SB_blk_ocp (m_slot m i k)" "m_geom m"
    using assms(1,2) by (auto simp: m_dir_def m_wf_def)
  have e: "m_ent m i k j + l = DISKMAP + m_slot m i k * BLKSIZE + (DIRESIZE * j + l)" by (simp add: m_ent_def)
  show b: "blk (m_ent m i k j + l) = m_slot m i k"
    unfolding e using ent_range [OF assms(3,4)] by (simp add: blk_addr)
  have "m_slot m i k < 4096" using s by (simp add: m_geom_def)
  then have "in_cache (m_ent m i k j + l)"
    unfolding e using ent_range [OF assms(3,4)] by (simp add: in_cache_def fs_consts)
  with b s show "m_addr m (m_ent m i k j + l)" by (simp add: m_addr_def)
qed

lemma strcmp_at_run:
  "\<lbrakk>sees s m; m_geom m; \<forall>l\<le>length name. m_addr m (p + l); 0 \<notin> set name\<rbrakk> \<Longrightarrow>
   \<exists>c. runs (strcmp_at p name s) c m \<and> (c = 0 \<longleftrightarrow> str_at m p name)"
proof (induction name arbitrary: p s)
  case Nil
  from rd8_run [OF Nil(1,2), of p] Nil(3) obtain s1 where "rd8 p s = Some (m p, s1)" "sees s1 m"
    by (auto elim: runsE)
  then show ?case by (intro exI [of _ "uint (m p)"]) (simp add: runs_Some uint_0_iff)
next
  case (Cons q qs)
  from rd8_run [OF Cons.prems(1,2), of p] Cons.prems(3) [rule_format, of 0] obtain s1 where
    s1: "rd8 p s = Some (m p, s1)" "sees s1 m" by (auto elim: runsE)
  show ?case
  proof (cases "m p \<noteq> 0 \<and> m p = q")
    case True
    have "m_addr m (Suc p + l)" if "l \<le> length qs" for l using Cons.prems(3) [rule_format, of "Suc l"] that by simp
    with Cons.IH [OF s1(2) Cons.prems(2), of "Suc p"] Cons.prems(4) True s1(1) show ?thesis by auto
  next
    case False
    then show ?thesis using s1 Cons.prems(4)
      by (intro exI [of _ "uint (m p) - uint q"]) (auto simp: runs_Some uint_0_iff simp flip: word_uint_eq_iff)
  qed
qed

lemma lookup_entries_run:
  assumes "m_geom m" "0 \<notin> set name"
  shows "sees s m \<Longrightarrow> \<forall>j\<in>set js. \<forall>l\<le>length name. m_addr m (f + DIRESIZE * j + l) \<Longrightarrow>
    runs (lookup_entries f name js s) (find (\<lambda>e. str_at m e name) (map (\<lambda>j. f + DIRESIZE * j) js)) m"
proof (induction js arbitrary: s)
  case (Cons j js)
  from strcmp_at_run [OF Cons.prems(1) assms(1) _ assms(2), of "f + DIRESIZE * j"] Cons.prems(2) obtain c s1 where
    c: "strcmp_at (f + DIRESIZE * j) name s = Some (c, s1)" "sees s1 m" "c = 0 \<longleftrightarrow> str_at m (f + DIRESIZE * j) name"
    by (auto simp: runs_def)
  with Cons.IH [OF c(2)] Cons.prems(2) show ?case by (simp add: runs_Some)
qed (simp add: runs_Some)

lemma find_concat:
  "find P (concat (xs # xss)) = (case find P xs of Some x \<Rightarrow> Some x | None \<Rightarrow> find P (concat xss))"
  by (induction xs) auto

lemma lookup_blocks_run:
  assumes d: "m_dir m i" and n: "0 \<notin> set name" "length name < MAXNAMELEN"
  shows "sees s m \<Longrightarrow> \<forall>k\<in>set ks. k < unat (m_used m i) \<Longrightarrow>
    runs (lookup_blocks (iaddr i) name ks s)
      (case find (\<lambda>e. str_at m e name) (concat (map (\<lambda>k. map (m_ent m i k) [0..<BLKFILES]) ks)) of
         None \<Rightarrow> (- E_NOT_FOUND, 0) | Some e \<Rightarrow> (0, e)) m"
proof (induction ks arbitrary: s)
  case (Cons k ks)
  have wf: "m_wf m" "i < 128" "m_geom m" using d by (auto simp: m_dir_def m_wf_def)
  have k: "k < unat (m_used m i)" "k < NDIRECT" "m_slot m i k \<noteq> 0" "m_slot m i k < m_blk_num m"
    using Cons.prems(2) d by (auto simp: m_dir_def)
  have u: "unat (of_nat k :: u16) = k" using k(2) by (intro unat_of_nat_u16) (simp add: NDIRECT_def)
  let ?b = "DISKMAP + m_slot m i k * BLKSIZE"
  from file_get_block_run(2) [OF Cons.prems(1) wf(1,2), of "of_nat k"] k u obtain s1 where
    s1: "file_get_block (iaddr i) (of_nat k) s = Some ((0, ?b), s1)" "sees s1 m" by (auto elim: runsE)
  have e: "(\<lambda>j. ?b + DIRESIZE * j) = m_ent m i k" by (simp add: fun_eq_iff m_ent_def)
  have "m_addr m (?b + DIRESIZE * j + l)" if "j < BLKFILES" "l \<le> length name" for j l
    using m_ent_addr(1) [OF d k(1) that(1), of l] that(2) n(2) by (simp add: m_ent_def fs_consts)
  then have "runs (lookup_entries ?b name [0..<BLKFILES] s1) (find (\<lambda>e. str_at m e name) (map (m_ent m i k) [0..<BLKFILES])) m"
    using lookup_entries_run [OF wf(3) n(1) s1(2), of "[0..<BLKFILES]" ?b] unfolding e by simp
  then obtain s2 where
    s2: "lookup_entries ?b name [0..<BLKFILES] s1 = Some (find (\<lambda>e. str_at m e name) (map (m_ent m i k) [0..<BLKFILES]), s2)" "sees s2 m"
    by (rule runsE)
  show ?case
    using s1(1) s2 Cons.IH [OF s2(2)] Cons.prems(2)
    by (cases "find (\<lambda>e. str_at m e name) (map (m_ent m i k) [0..<BLKFILES])")
      (simp_all add: find_concat runs_Some del: concat.simps)
qed (simp add: runs_Some)

lemma dir_lookup_run:
  assumes "sees s m" "m_dir m i" "0 \<notin> set name" "length name < MAXNAMELEN"
  shows "runs (dir_lookup (iaddr i) name s) (case m_find m i name of None \<Rightarrow> (- E_NOT_FOUND, 0) | Some e \<Rightarrow> (0, e)) m"
proof -
  have wf: "m_wf m" "i < 128" "m_geom m" using assms(2) by (auto simp: m_dir_def m_wf_def)
  from rd16_run [OF assms(1) wf(3)] m_addr_fields(2) [OF wf(1,2)] obtain s1 where
    s1: "rd16 (iaddr i + IN_blk_used) s = Some (m_used m i, s1)" "sees s1 m"
    by (auto simp: m_used_def elim: runsE)
  show ?thesis
    using lookup_blocks_run [OF assms(2-4) s1(2), of "[0..<unat (m_used m i)]"] s1(1)
    by (simp add: dir_lookup_def m_find_def m_entries_def)
qed

section \<open>Resolving a path\<close>

lemma elems_scan:
  "elems acc p = (if acc @ fst (scan_elem p) = [] then elems [] (skip_slash (snd (scan_elem p)))
     else (acc @ fst (scan_elem p)) # elems [] (skip_slash (snd (scan_elem p))))"
proof -
  have skip: "elems [] (skip_slash q) = elems [] q" for q by (induction q) auto
  show ?thesis
  proof (induction p arbitrary: acc)
    case (Cons c cs)
    show ?case
    proof (cases "c = CH_SLASH")
      case False
      obtain e r where "scan_elem cs = (e, r)" by fastforce
      then show ?thesis using Cons.IH [of "acc @ [c]"] False by (simp add: skip)
    qed (simp add: skip)
  qed simp
qed

lemma scan_elem_set: "set (fst (scan_elem p)) \<subseteq> set p" "set (snd (scan_elem p)) \<subseteq> set p"
  by (induction p) (auto split: prod.splits)

lemma skip_slash_set: "set (skip_slash p) \<subseteq> set p"
  by (induction p) auto

lemma skip_slash_hd: "skip_slash p = [] \<or> hd (skip_slash p) \<noteq> CH_SLASH"
  by (induction p) auto

lemma find_SomeD: "find P xs = Some x \<Longrightarrow> x \<in> set xs \<and> P x"
  by (induction xs) (auto split: if_splits)

lemma m_entries_in_ind:
  assumes "m_dir m i" "e \<in> set (m_entries m i)"
  shows "m_addr m (e + DE_in_ind) \<and> one_block (e + DE_in_ind) 2"
proof -
  from assms(2) obtain k j where e: "k < unat (m_used m i)" "j < BLKFILES" "e = m_ent m i k j" by (auto simp: m_entries_def)
  have "(e + DE_in_ind) mod BLKSIZE = DIRESIZE * j + DE_in_ind"
  proof -
    have "e + DE_in_ind = DIRESIZE * j + DE_in_ind + (65536 + m_slot m i k) * BLKSIZE"
      by (simp add: e(3) m_ent_def DISKMAP_def BLKSIZE_def algebra_simps)
    then have "(e + DE_in_ind) mod BLKSIZE = (DIRESIZE * j + DE_in_ind) mod BLKSIZE" by (simp only: mod_mult_self1)
    then show ?thesis using ent_range [OF e(2), of DE_in_ind] by (simp add: DE_in_ind_def DIRESIZE_def)
  qed
  moreover have "DIRESIZE * j + DE_in_ind + 2 \<le> BLKSIZE" using e(2) by (simp add: fs_consts)
  ultimately show ?thesis using m_ent_addr(1) [OF assms(1) e(1,2), of DE_in_ind] e(3) by (simp add: one_block_def fs_consts)
qed

lemma elems_Nil: "p = [] \<or> hd p \<noteq> CH_SLASH \<Longrightarrow> elems [] p = [] \<longleftrightarrow> p = []"
proof (cases p)
  case (Cons c cs)
  moreover assume "p = [] \<or> hd p \<noteq> CH_SLASH"
  moreover have "acc \<noteq> [] \<Longrightarrow> elems acc cs \<noteq> []" for acc by (induction acc cs rule: elems.induct) auto
  ultimately show ?thesis by simp
qed simp

lemma walk_loop_run:
  assumes t: "m_tree m"
  shows "\<lbrakk>sees s m; i < 128; 0 \<notin> set path; path = [] \<or> hd path \<noteq> CH_SLASH\<rbrakk> \<Longrightarrow>
    runs (walk_loop path (iaddr i) dir entry s) (m_walk m i dir entry (elems [] path)) m"
proof (induction "length path" arbitrary: path i dir entry s rule: less_induct)
  case less
  show ?case
  proof (cases "path = []")
    case True
    then show ?thesis using less.prems(1) by (simp add: walk_loop.simps runs_Some)
  next
    case False
    then have h: "hd path \<noteq> CH_SLASH" using less.prems(4) by simp
    obtain name rest where sc: "scan_elem path = (name, rest)" by fastforce
    have ne: "name \<noteq> []" using sc False h by (cases path) (auto split: prod.splits)
    let ?rest = "skip_slash rest"
    have el: "elems [] path = name # elems [] ?rest" using elems_scan [of "[]" path] sc ne by simp
    have z: "0 \<notin> set name" "0 \<notin> set ?rest"
      using scan_elem_set [of path] skip_slash_set [of rest] sc less.prems(3) by auto
    note hr = skip_slash_hd [of rest]
    note er = elems_Nil [OF hr]
    have len: "length ?rest < length path" using walk_measure [of name rest path] sc False h by simp
    have wf: "m_wf m" "m_geom m" using t by (auto simp: m_tree_def m_wf_def)
    from rd16_run [OF less.prems(1) wf(2)] m_addr_fields(3) [OF wf(1) less.prems(2)] obtain s1 where
      s1: "rd16 (iaddr i + IN_type) s = Some (m_type m i, s1)" "sees s1 m" by (auto simp: m_type_def elim: runsE)
    note simps = walk_loop.simps [of path] False h sc el er
    consider "MAXNAMELEN \<le> length name" | "length name < MAXNAMELEN" "m_type m i \<noteq> FTYPE_DIR"
      | "length name < MAXNAMELEN" "m_type m i = FTYPE_DIR" by fastforce
    then show ?thesis
    proof cases
      case 1
      then show ?thesis using less.prems(1) by (simp add: simps runs_Some)
    next
      case 2
      then show ?thesis using s1 by (simp add: simps runs_Some)
    next
      case 3
      have d: "m_dir m i" using t 3 less.prems(2) by (simp add: m_tree_def)
      from dir_lookup_run [OF s1(2) d z(1) 3(1)] obtain s2 where
        s2: "dir_lookup (iaddr i) name s1 = Some (case m_find m i name of None \<Rightarrow> (- E_NOT_FOUND, 0) | Some e \<Rightarrow> (0, e), s2)" "sees s2 m"
        by (rule runsE)
      show ?thesis
      proof (cases "m_find m i name")
        case None
        then show ?thesis using 3 s1(1) s2 by (simp add: simps E_NOT_FOUND_def runs_Some)
      next
        case (Some e)
        then have e: "e \<in> set (m_entries m i)" "str_at m e name" using find_SomeD [of _ "m_entries m i" e] by (auto simp: m_find_def)
        then have "m e \<noteq> 0" using ne by (cases name) auto
        then have ino: "unat (get16 m (e + DE_in_ind)) < 128" using t e(1) 3(2) less.prems(2) by (auto simp: m_tree_def)
        have "m_addr m (e + DE_in_ind) \<and> one_block (e + DE_in_ind) 2" using m_entries_in_ind [OF d e(1)] .
        with rd16_run [OF s2(2) wf(2)] obtain s3 where
          s3: "rd16 (e + DE_in_ind) s2 = Some (get16 m (e + DE_in_ind), s3)" "sees s3 m" by (auto elim: runsE)
        from less.hyps [OF len s3(2) ino z(2) hr, of "iaddr i" e] show ?thesis
          using 3 Some s1(1) s2 s3(1) by (simp add: simps inode_ptr_eq [OF s3(2)])
      qed
    qed
  qed
qed

lemma m_walk_resolve: "(w_ret (m_walk m i dir e ns), w_entry (m_walk m i dir e ns)) = m_resolve m i e ns"
  by (induction ns arbitrary: i dir e) (auto split: option.splits)

lemma walk_path_run:
  assumes "sees s m" "m_tree m" "0 \<notin> set path" "path \<noteq> []" "hd path = CH_SLASH"
  shows "runs (walk_path path s) (m_walk m 0 0 0 (elems [] path)) m"
proof -
  have sk: "0 \<notin> set (skip_slash path)" using skip_slash_set [of path] assms(3) by auto
  have el: "elems [] (skip_slash path) = elems [] path" by (induction path) auto
  have i0: "inode_ptr 0 s = iaddr 0" using inode_ptr_eq [OF assms(1), of 0] by simp
  from walk_loop_run [OF assms(2,1) _ sk skip_slash_hd, of 0 0 0] show ?thesis
    using assms(4,5) by (simp add: walk_path_def i0 el)
qed

lemma file_open_run:
  assumes "sees s m" "m_tree m" "0 \<notin> set path" "path \<noteq> []" "hd path = CH_SLASH"
  shows "runs (file_open path s) (m_resolve m 0 0 (elems [] path)) m"
  using walk_path_run [OF assms] by (rule runsE) (simp add: file_open_def runs_Some m_walk_resolve)

text \<open>
  C16: \<open>file_open\<close> implements path resolution.  In a file system whose directories have all their blocks,
  a path that does not start with a slash is refused with \<open>-E_BAD_PATH\<close>; any other path is followed
  component by component from the root, and the result, an entry or the error of the first component
  that fails, is the specification's.  The file system is left as it was.
\<close>

theorem file_open_resolves:
  assumes "sees s m" "m_tree m" "0 \<notin> set path"
  shows "\<exists>s'. sees s' m \<and> file_open path s =
     Some (if path = [] \<or> hd path \<noteq> CH_SLASH then (- E_BAD_PATH, 0) else m_resolve m 0 0 (elems [] path), s')"
proof (cases "path = [] \<or> hd path \<noteq> CH_SLASH")
  case True
  then show ?thesis using assms(1) by (auto simp: file_open_def walk_path_def)
next
  case False
  with file_open_run [OF assms] show ?thesis by (auto elim: runsE)
qed

lemma img_types: "i < 128 \<Longrightarrow> m_type img_mem i = (if i = 0 then FTYPE_DIR else if i = 1 then FTYPE_REG else 0)"
  by (simp add: m_type_def img_mem_def mem_simps slot_addr_def iaddr_def img_entry_def fs_consts)

lemma img_root: "m_used img_mem 0 = 1" "m_slot img_mem 0 0 = 2"
  by (simp_all add: m_used_def m_slot_def img_mem_def mem_simps slot_addr_def iaddr_def img_entry_def fs_consts)

lemma img_entries: "m_entries img_mem 0 = map (\<lambda>j. img_entry + DIRESIZE * j) [0..<BLKFILES]"
  by (simp add: m_entries_def img_root m_ent_def img_entry_def)

lemma img_names: "j < BLKFILES \<Longrightarrow> l < 16 \<Longrightarrow>
  img_mem (img_entry + DIRESIZE * j + l) = (if j = 0 \<and> l = 0 then 97 else 0)"
  by (simp add: img_mem_def set16_other set32_other mem_simps slot_addr_def iaddr_def img_entry_def fs_consts) presburger

lemma img_tree: "m_tree img_mem"
  unfolding m_tree_def
proof (intro conjI allI impI ballI)
  show "m_wf img_mem" by (rule img_wf)
next
  fix i assume "i < 128" "m_type img_mem i = FTYPE_DIR"
  then have i: "i = 0" by (simp add: img_types FTYPE_DIR_def FTYPE_REG_def split: if_splits)
  show "m_dir img_mem i"
    using img_wf img_bits(1) [of 2] by (simp add: i m_dir_def img_root img_nums fs_consts)
  fix e assume "e \<in> set (m_entries img_mem i)" "img_mem e \<noteq> 0"
  then have "e = img_entry" using img_names [of _ 0] by (auto simp: i img_entries split: if_splits)
  then show "unat (get16 img_mem (e + DE_in_ind)) < 128" using img_file by (simp add: m_file_def)
qed

theorem file_open_resolves_witness:
  "\<exists>s1 s2 s3. file_open [CH_SLASH, 97] img = Some ((0, img_entry), s1)
     \<and> file_open [97] img = Some ((- E_BAD_PATH, 0), s2)
     \<and> file_open [CH_SLASH, 97, CH_SLASH, 97] img = Some ((- E_NOT_FOUND, 0), s3)"
proof -
  have run: "\<exists>s'. file_open path img = Some (if path = [] \<or> hd path \<noteq> CH_SLASH then (- E_BAD_PATH, 0)
      else m_resolve img_mem 0 0 (elems [] path), s')" if "0 \<notin> set path" for path
    using file_open_resolves [OF sees_img img_tree that] by blast
  have "find (\<lambda>e. str_at img_mem e [97]) (map (\<lambda>j. img_entry + DIRESIZE * j) (0 # [1..<BLKFILES])) = Some img_entry"
    using img_names [of 0 0] img_names [of 0 1] by (simp add: fs_consts)
  then have fnd: "m_find img_mem 0 [97] = Some img_entry"
    by (simp add: m_find_def img_entries upt_conv_Cons fs_consts)
  have "get16 img_mem (img_entry + DE_in_ind) = 1" using img_file by (simp add: m_file_def)
  note e = this fnd img_types [of 0] img_types [of 1]
  show ?thesis
    using run [of "[CH_SLASH, 97]"] run [of "[97]"] run [of "[CH_SLASH, 97, CH_SLASH, 97]"]
    by (simp add: e CH_SLASH_def MAXNAMELEN_def FTYPE_DIR_def FTYPE_REG_def del: One_nat_def)
qed

end
