(* ===== verification/CreateProps.thy ===== *)
theory CreateProps
  imports DirProps
begin

text \<open>
  Creating a file: the entry that \<open>dir_alloc_entry\<close> finds, the memory after \<open>file_create\<close>, and that the
  name can be opened afterwards.
\<close>

section \<open>Finding a free entry\<close>

lemma free_entry_run:
  assumes "m_geom m"
  shows "sees s m \<Longrightarrow> \<forall>j\<in>set js. m_addr m (f + DIRESIZE * j) \<Longrightarrow>
    runs (free_entry f js s) (find (\<lambda>e. m e = 0) (map (\<lambda>j. f + DIRESIZE * j) js)) m"
proof (induction js arbitrary: s)
  case (Cons j js)
  from rd8_run [OF Cons.prems(1) assms, of "f + DIRESIZE * j"] Cons.prems(2) obtain s1 where
    "rd8 (f + DIRESIZE * j) s = Some (m (f + DIRESIZE * j), s1)" "sees s1 m" by (auto elim: runsE)
  with Cons show ?case by (simp add: runs_Some)
qed (simp add: runs_Some)

lemma add_dir_size_run:
  assumes "sees s m" "m_wf m" "d < 128"
  shows "goes (add_dir_size (iaddr d) s) (m_resize d (m_size m d + of_nat DIRESIZE) m)"
  using size_run [OF assms]
proof (rule runsE)
  fix s1 assume s1: "rd16 (iaddr d + IN_size) s = Some (m_size m d, s1)" "sees s1 m"
  show ?thesis using size_write_run [OF s1(2) assms(2,3)] s1(1) by (simp add: add_dir_size_def)
qed

lemma alloc_entry_blocks_run:
  assumes d: "m_dir m i"
  shows "sees s m \<Longrightarrow> \<forall>k\<in>set ks. k < unat (m_used m i) \<Longrightarrow>
    find (\<lambda>e. m e = 0) (concat (map (\<lambda>k. map (m_ent m i k) [0..<BLKFILES]) ks)) = Some e \<Longrightarrow>
    runs (alloc_entry_blocks (iaddr i) ks s) (Some (0, e)) (m_resize i (m_size m i + of_nat DIRESIZE) m)"
proof (induction ks arbitrary: s)
  case (Cons k ks)
  have wf: "m_wf m" "i < 128" "m_geom m" using d by (auto simp: m_dir_def m_wf_def)
  have k: "k < unat (m_used m i)" "k < NDIRECT" "m_slot m i k \<noteq> 0" "m_slot m i k < m_blk_num m"
    using Cons.prems(2) d by (auto simp: m_dir_def)
  have u: "unat (of_nat k :: u16) = k" using k(2) by (intro unat_of_nat_u16) (simp add: NDIRECT_def)
  let ?b = "DISKMAP + m_slot m i k * BLKSIZE"
  from file_get_block_run(2) [OF Cons.prems(1) wf(1,2), of "of_nat k"] k u obtain s1 where
    s1: "file_get_block (iaddr i) (of_nat k) s = Some ((0, ?b), s1)" "sees s1 m" by (auto elim: runsE)
  have e: "(\<lambda>j. ?b + DIRESIZE * j) = m_ent m i k" by (simp add: fun_eq_iff m_ent_def)
  have "m_addr m (?b + DIRESIZE * j)" if "j < BLKFILES" for j
    using m_ent_addr(1) [OF d k(1) that, of 0] by (simp add: m_ent_def fs_consts)
  then have "runs (free_entry ?b [0..<BLKFILES] s1) (find (\<lambda>e. m e = 0) (map (m_ent m i k) [0..<BLKFILES])) m"
    using free_entry_run [OF wf(3) s1(2), of "[0..<BLKFILES]" ?b] unfolding e by simp
  then obtain s2 where
    s2: "free_entry ?b [0..<BLKFILES] s1 = Some (find (\<lambda>e. m e = 0) (map (m_ent m i k) [0..<BLKFILES]), s2)" "sees s2 m"
    by (rule runsE)
  show ?case
  proof (cases "find (\<lambda>e. m e = 0) (map (m_ent m i k) [0..<BLKFILES])")
    case None
    then show ?thesis using s1(1) s2 Cons.IH [OF s2(2)] Cons.prems(2,3)
      by (simp add: find_concat del: concat.simps)
  next
    case (Some e')
    obtain s3 where "add_dir_size (iaddr i) s2 = Some s3" "sees s3 (m_resize i (m_size m i + of_nat DIRESIZE) m)"
      using add_dir_size_run [OF s2(2) wf(1,2)] by (rule goesE)
    with Some show ?thesis using s1(1) s2 Cons.prems(3)
      by (simp add: find_concat runs_Some del: concat.simps)
  qed
qed simp

lemma dir_alloc_entry_run:
  assumes "sees s m" "m_dir m i" "find (\<lambda>e. m e = 0) (m_entries m i) = Some e"
  shows "runs (dir_alloc_entry (iaddr i) s) (0, e) (m_resize i (m_size m i + of_nat DIRESIZE) m)"
proof -
  have wf: "m_wf m" "i < 128" "m_geom m" using assms(2) by (auto simp: m_dir_def m_wf_def)
  from rd16_run [OF assms(1) wf(3)] m_addr_fields(2) [OF wf(1,2)] obtain s1 where
    s1: "rd16 (iaddr i + IN_blk_used) s = Some (m_used m i, s1)" "sees s1 m"
    by (auto simp: m_used_def elim: runsE)
  from alloc_entry_blocks_run [OF assms(2) s1(2), of "[0..<unat (m_used m i)]" e] assms(3) obtain s2 where
    "alloc_entry_blocks (iaddr i) [0..<unat (m_used m i)] s1 = Some (Some (0, e), s2)"
    "sees s2 (m_resize i (m_size m i + of_nat DIRESIZE) m)"
    by (auto simp: m_entries_def elim: runsE)
  then show ?thesis using s1(1) by (simp add: dir_alloc_entry_def runs_Some)
qed

lemma strcpy_to_wr_mem: "strcpy_to a cs s = wr_mem a (cs @ [0]) s"
proof (induction cs arbitrary: a s)
  case Nil
  show ?case by (cases "wr8 a 0 s") simp_all
next
  case (Cons c cs)
  then show ?case by (cases "wr8 a c s") simp_all
qed

section \<open>The memory after a creation\<close>

text \<open>The effect on the memory: size of the directory, bit of the inode, name, number, type.\<close>

definition m_created :: "nat \<Rightarrow> nat \<Rightarrow> nat \<Rightarrow> u8 list \<Rightarrow> u16 \<Rightarrow> bytemem \<Rightarrow> bytemem" where
  "m_created d i e name ty m =
     set16 (iaddr i + IN_type) ty (set16 (e + DE_in_ind) (of_nat i) (set_bytes e (name @ [0])
       (bm_set SB_in_ocp i (m_resize d (m_size m d + of_nat DIRESIZE) m))))"


lemma created_super:
  fixes name :: "u8 list" and ty :: u16
  assumes "m_wf m" "d < 128" "i < 128" "DISKMAP + 2 * BLKSIZE \<le> e"
  defines "m' \<equiv> m_created d i e name ty m"
  shows "m_blk_num m' = m_blk_num m" "m_in_num m' = m_in_num m"
    "b < 4096 \<Longrightarrow> bm_bit m' SB_blk_ocp b = bm_bit m SB_blk_ocp b"
    "k < 128 \<Longrightarrow> bm_bit m' SB_in_ocp k = (bm_bit m SB_in_ocp k \<or> k = i)"
proof -
  let ?r = "m_resize d (m_size m d + of_nat DIRESIZE) m"
  let ?b = "bm_set SB_in_ocp i ?r"
  have 1: "m' x = ?b x" if "x < DISKMAP + BLKSIZE" for x
    using that assms(4) set16_inode_super [OF assms(3), of IN_type x]
    by (simp add: m'_def m_created_def IN_type_def set16_other set_bytes_outside BLKSIZE_def)
  have 2: "?r x = m x" if "x < DISKMAP + BLKSIZE" for x using that m_resize_super [OF assms(2)] by simp
  note o1 = outside_super [of m' ?b, OF 1] and o2 = outside_super [of ?r m, OF 2]
  show "m_blk_num m' = m_blk_num m" "m_in_num m' = m_in_num m" using o1(1,2) o2(1,2) assms(3) by (simp_all add: m_nums_bm)
  show "bm_bit m' SB_blk_ocp b = bm_bit m SB_blk_ocp b" if "b < 4096"
    using o1(3) o2(3) that bm_addr_ino [OF assms(3)] bm_addr_blk [OF that] by (simp add: bm_other_map)
  show "bm_bit m' SB_in_ocp k = (bm_bit m SB_in_ocp k \<or> k = i)" if "k < 128"
    using o1(4) o2(4) that by (simp add: bm_bit_set)
qed

lemma created_inode_block:
  assumes "d < 128" "i < 128" "DISKMAP + 2 * BLKSIZE \<le> e" "DISKMAP + BLKSIZE \<le> x" "x < DISKMAP + 2 * BLKSIZE"
  shows "m_created d i e name ty m x = set16 (iaddr i + IN_type) ty (m_resize d (m_size m d + of_nat DIRESIZE) m) x"
  using assms bm_addr_in_super(1) [of i SB_in_ocp x]
  by (simp add: m_created_def set16_def set_bytes_outside)

lemma created_fields:
  fixes m :: bytemem and name :: "u8 list" and ty :: u16
  assumes "d < 128" "i < 128" "DISKMAP + 2 * BLKSIZE \<le> e" "k < 128"
  defines "m' \<equiv> m_created d i e name ty m"
  shows "m_used m' k = m_used m k" "m_type m' k = (if k = i then ty else m_type m k)"
    "l < NDIRECT \<Longrightarrow> m_slot m' k l = m_slot m k l"
proof -
  let ?c = "set16 (iaddr i + IN_type) ty (m_resize d (m_size m d + of_nat DIRESIZE) m)"
  have "m' x = ?c x" if "DISKMAP + BLKSIZE \<le> x" "x < DISKMAP + 2 * BLKSIZE" for x
    unfolding m'_def using created_inode_block [OF assms(1-3) that] .
  note c = m_inode_cong [of m' ?c, OF this assms(4)]
  have ne: "iaddr k + 32 \<le> iaddr j \<or> iaddr j + 32 \<le> iaddr k \<or> j = k" for j
    by (auto simp: iaddr_def INSIZE_def neq_iff)
  note simps = m_used_def m_type_def m_slot_def m_resize_def mem_simps slot_addr_def fs_consts
  show "m_used m' k = m_used m k" by (rule trans [OF c(2)]) (use ne [of i] ne [of d] in \<open>auto simp: simps\<close>)
  show "m_type m' k = (if k = i then ty else m_type m k)"
    by (rule trans [OF c(3)]) (use ne [of i] ne [of d] in \<open>auto simp: simps\<close>)
  show "m_slot m' k l = m_slot m k l" if "l < NDIRECT"
    by (rule trans [OF c(4) [OF _ _ that]]) (use that ne [of i] ne [of d] in \<open>auto simp: simps\<close>)
qed

lemma created_data:
  fixes m :: bytemem and ty :: u16
  assumes "d < 128" "i < 128" "DISKMAP + 2 * BLKSIZE \<le> e" "length name < MAXNAMELEN" "0 \<notin> set name"
  defines "m' \<equiv> m_created d i e name ty m"
  shows "DISKMAP + 2 * BLKSIZE \<le> x \<Longrightarrow> x < e \<or> e + DIRESIZE \<le> x \<Longrightarrow> m' x = m x"
    "str_at m' e name" "get16 m' (e + DE_in_ind) = of_nat i"
proof -
  have ty: "m' x = set16 (e + DE_in_ind) (of_nat i) (set_bytes e (name @ [0])
      (bm_set SB_in_ocp i (m_resize d (m_size m d + of_nat DIRESIZE) m))) x" if "DISKMAP + 2 * BLKSIZE \<le> x" for x
    using set16_inode_super [OF assms(2), of IN_type x] that by (simp add: m'_def m_created_def IN_type_def)
  show "m' x = m x" if "DISKMAP + 2 * BLKSIZE \<le> x" "x < e \<or> e + DIRESIZE \<le> x"
    using that assms(2,4) bm_addr_in_super(1) [of i SB_in_ocp x] m_resize_super [OF assms(1), of x]
    by (auto simp: ty set16_def set_bytes_apply fs_consts)
  have n: "m' (e + l) = (name @ [0]) ! l" if "l \<le> length name" for l
    using that assms(3,4) by (simp add: ty set16_def set_bytes_apply fs_consts)
  show "str_at m' e name"
    by (rule str_atI) (use n assms(5) in \<open>auto simp: nth_append\<close>)
  have "get16 m' (e + DE_in_ind) = get16 (set16 (e + DE_in_ind) (of_nat i) (set_bytes e (name @ [0])
      (bm_set SB_in_ocp i (m_resize d (m_size m d + of_nat DIRESIZE) m)))) (e + DE_in_ind)"
    using assms(3) by (intro get16_cong) (simp_all add: ty)
  then show "get16 m' (e + DE_in_ind) = of_nat i" by (simp add: mem_simps)
qed

text \<open>Entries are at the same offsets of every block, so two of them are equal or disjoint.\<close>

lemma dirents_apart:
  assumes "x \<in> set (m_entries m i)" "y \<in> set (m_entries m' i')" "x \<noteq> y"
  shows "x + DIRESIZE \<le> y \<or> y + DIRESIZE \<le> x"
proof -
  have ex: "\<exists>b j. j < BLKFILES \<and> z = DISKMAP + b * BLKSIZE + DIRESIZE * j" if "z \<in> set (m_entries m i)" for z m i
    using that by (auto simp: m_entries_def m_ent_def) blast
  from ex [OF assms(1)] ex [OF assms(2)] obtain b j b' j' where
    e: "j < BLKFILES" "x = DISKMAP + b * BLKSIZE + DIRESIZE * j" "j' < BLKFILES" "y = DISKMAP + b' * BLKSIZE + DIRESIZE * j'"
    by blast
  consider "b < b'" | "b' < b" | "b = b'" "j < j'" | "b = b'" "j' < j" using assms(3) e by fastforce
  then show ?thesis using e(1,3) unfolding e(2,4) by cases (simp_all add: fs_consts)
qed

lemma m_entries_range:
  assumes "m_dir m i" "e \<in> set (m_entries m i)"
  shows "m_addr m e" "2 \<le> blk e" "DISKMAP + 2 * BLKSIZE \<le> e" "one_block e DIRESIZE"
    "l < DIRESIZE \<Longrightarrow> m_addr m (e + l)" "l < DIRESIZE \<Longrightarrow> 2 \<le> blk (e + l)"
proof -
  from assms(2) obtain k j where e: "k < unat (m_used m i)" "j < BLKFILES" "e = m_ent m i k j" by (auto simp: m_entries_def)
  have s: "2 \<le> m_slot m i k" using assms(1) e(1) by (simp add: m_dir_def)
  show a: "m_addr m (e + l)" and b: "2 \<le> blk (e + l)" if "l < DIRESIZE" for l
    using m_ent_addr [OF assms(1) e(1,2) that] s by (simp_all add: e(3))
  show "m_addr m e" "2 \<le> blk e" using a [of 0] b [of 0] by (simp_all add: DIRESIZE_def)
  have "2 * BLKSIZE \<le> m_slot m i k * BLKSIZE" using s by (rule mult_le_mono1)
  then show "DISKMAP + 2 * BLKSIZE \<le> e" unfolding e(3) m_ent_def by linarith
  have "e = DIRESIZE * j + (65536 + m_slot m i k) * BLKSIZE"
    by (simp add: e(3) m_ent_def DISKMAP_def BLKSIZE_def algebra_simps)
  then have "e mod BLKSIZE = (DIRESIZE * j) mod BLKSIZE" by (simp only: mod_mult_self1)
  then show "one_block e DIRESIZE" using e(2) by (simp add: one_block_def fs_consts)
qed

section \<open>The directory tree after a creation\<close>

text \<open>
  A name can be created in directory \<open>d\<close>: no entry has it, \<open>e\<close> is the first free entry and no other
  directory's, and the first free inode \<open>i\<close> is blank.
\<close>

definition m_creatable :: "bytemem \<Rightarrow> nat \<Rightarrow> nat \<Rightarrow> nat \<Rightarrow> u8 list \<Rightarrow> bool" where
  "m_creatable m d i e name \<longleftrightarrow>
     m_tree m \<and> d < 128 \<and> m_type m d = FTYPE_DIR \<and> m_find m d name = None
     \<and> find (\<lambda>e. m e = 0) (m_entries m d) = Some e
     \<and> (\<forall>k<128. m_type m k = FTYPE_DIR \<and> k \<noteq> d \<longrightarrow> e \<notin> set (m_entries m k))
     \<and> m_ifree m \<noteq> {} \<and> i = Min (m_ifree m) \<and> m_type m i \<noteq> FTYPE_DIR \<and> (\<forall>l<NDIRECT. m_slot m i l = 0)"

lemma creatableD:
  assumes "m_creatable m d i e name"
  shows "m_tree m" "m_wf m" "d < 128" "i < 128" "m_dir m d" "e \<in> set (m_entries m d)" "m e = 0"
    "DISKMAP + 2 * BLKSIZE \<le> e" "m_type m i \<noteq> FTYPE_DIR" "m_find m d name = None"
    "\<not> str_at m x name \<or> x \<notin> set (m_entries m d)" "l < NDIRECT \<Longrightarrow> m_slot m i l = 0"
proof -
  show t: "m_tree m" and d: "d < 128" and "m_type m i \<noteq> FTYPE_DIR" and f: "m_find m d name = None"
    using assms by (auto simp: m_creatable_def)
  show "l < NDIRECT \<Longrightarrow> m_slot m i l = 0" using assms by (auto simp: m_creatable_def)
  show wf: "m_wf m" and dir: "m_dir m d" using assms by (auto simp: m_creatable_def m_tree_def)
  show "i < 128" using assms m_free_bound(2) [OF m_wf_geom [OF wf] Min_in] by (auto simp: m_creatable_def m_ifree_def)
  have "find (\<lambda>e. m e = 0) (m_entries m d) = Some e" using assms by (simp add: m_creatable_def)
  from find_SomeD [OF this] show e: "e \<in> set (m_entries m d)" and "m e = 0" by simp_all
  show "DISKMAP + 2 * BLKSIZE \<le> e" by (rule m_entries_range(3) [OF dir e])
  show "\<not> str_at m x name \<or> x \<notin> set (m_entries m d)" using f by (auto simp: m_find_def find_None_iff)
qed

lemma created_dir:
  fixes ty :: u16
  assumes c: "m_creatable m d i e name" and k: "k < 128" "m_dir m k"
  defines "m' \<equiv> m_created d i e name ty m"
  shows "m_wf m'" "m_entries m' k = m_entries m k" "m_dir m' k"
proof -
  note D = creatableD [OF c]
  note sup = created_super [where name = name and ty = ty, OF D(2,3,4,8), folded m'_def]
  note fld = created_fields [where name = name and ty = ty and m = m, OF D(3,4,8) k(1), folded m'_def]
  show wf: "m_wf m'" using D(2) sup by (simp add: m_wf_def m_geom_def)
  have u: "l < unat (m_used m k) \<Longrightarrow> l < NDIRECT" for l using k(2) by (simp add: m_dir_def)
  show "m_entries m' k = m_entries m k"
    unfolding m_entries_def fld(1) using fld(3) u by (intro arg_cong [of _ _ concat] map_cong) (auto simp: m_ent_def fun_eq_iff)
  have "m_slot m k l < 4096" if "l < unat (m_used m k)" for l
    using k(2) that by (fastforce simp: m_dir_def m_wf_def m_geom_def)
  then show "m_dir m' k" using k(2) wf sup fld u by (simp add: m_dir_def)
qed

lemma created_entry:
  fixes ty :: u16
  assumes c: "m_creatable m d i e name" and n: "length name < MAXNAMELEN" "0 \<notin> set name"
    and k: "k < 128" "m_dir m k" "x \<in> set (m_entries m k)"
  defines "m' \<equiv> m_created d i e name ty m"
  shows "length n' < MAXNAMELEN \<Longrightarrow> n' \<noteq> [] \<Longrightarrow> str_at m' x n' = (if x = e then n' = name else str_at m x n')"
    "get16 m' (x + DE_in_ind) = (if x = e then of_nat i else get16 m (x + DE_in_ind))"
    "x \<noteq> e \<Longrightarrow> m' x = m x"
proof -
  note D = creatableD [OF c]
  note dat = created_data [where ty = ty and m = m, OF D(3,4,8) n, folded m'_def]
  have same: "m' (x + l) = m (x + l)" if "x \<noteq> e" "l < DIRESIZE" for l
    using dat(1) [of "x + l"] dirents_apart [OF k(3) D(6) that(1)] that(2) m_entries_range(3) [OF k(2,3)] by auto
  show "str_at m' x n' = (if x = e then n' = name else str_at m x n')" if "length n' < MAXNAMELEN" "n' \<noteq> []"
    using dat(2) str_at_unique [of m' e n' name] same str_at_cong [of n' m' x m] that(1)
    by (auto simp: fs_consts)
  show "get16 m' (x + DE_in_ind) = (if x = e then of_nat i else get16 m (x + DE_in_ind))"
    using dat(3) in_ind_cong [of m' x m] same by auto
  show "x \<noteq> e \<Longrightarrow> m' x = m x" using same [of 0] by (simp add: DIRESIZE_def)
qed

lemma created_tree:
  assumes c: "m_creatable m d i e name" and n: "length name < MAXNAMELEN" "0 \<notin> set name" and ty: "ty \<noteq> FTYPE_DIR"
  shows "m_tree (m_created d i e name ty m)"
  unfolding m_tree_def
proof (intro conjI allI impI ballI)
  note D = creatableD [OF c]
  let ?m = "m_created d i e name ty m"
  show "m_wf ?m" by (rule created_dir(1) [OF c D(3,5)])
  fix k assume k: "k < 128" "m_type ?m k = FTYPE_DIR"
  have "m_type m k = FTYPE_DIR" using k ty created_fields(2) [OF D(3,4,8) k(1)] by (auto split: if_splits)
  then have dir: "m_dir m k" and leads: "\<And>x. x \<in> set (m_entries m k) \<Longrightarrow> m x \<noteq> 0 \<Longrightarrow> unat (get16 m (x + DE_in_ind)) < 128"
    using D(1) k(1) by (auto simp: m_tree_def)
  show "m_dir ?m k" by (rule created_dir(3) [OF c k(1) dir])
  fix x assume x: "x \<in> set (m_entries ?m k)" "?m x \<noteq> 0"
  then have x': "x \<in> set (m_entries m k)" by (simp add: created_dir(2) [OF c k(1) dir])
  note E = created_entry [OF c n k(1) dir x', where ty = ty]
  show "unat (get16 ?m (x + DE_in_ind)) < 128"
    using E(2,3) x(2) leads [OF x'] D(4) by (auto simp: unat_of_nat_u16)
qed

lemma find_cong_set: "xs = ys \<Longrightarrow> (\<And>x. x \<in> set ys \<Longrightarrow> P x = Q x) \<Longrightarrow> find P xs = find Q ys"
  by (induction ys arbitrary: xs) auto

lemma created_find:
  assumes c: "m_creatable m d i e name" and n: "length name < MAXNAMELEN" "0 \<notin> set name"
    and k: "k < 128" "m_type m k = FTYPE_DIR" and n': "length n' < MAXNAMELEN" "n' \<noteq> []"
  shows "m_find (m_created d i e name ty m) k n' = (if k = d \<and> n' = name then Some e else m_find m k n')"
proof -
  note D = creatableD [OF c]
  have dir: "m_dir m k" using D(1) k by (simp add: m_tree_def)
  note E = created_entry(1) [OF c n k(1) dir _ n', where ty = ty]
  let ?m = "m_created d i e name ty m"
  have ent: "m_find ?m k n' = find (\<lambda>x. str_at ?m x n') (m_entries m k)" by (simp add: m_find_def created_dir(2) [OF c k(1) dir])
  show ?thesis
  proof (cases "k = d \<and> n' = name")
    case True
    then have "find (\<lambda>x. str_at ?m x n') (m_entries m k) = find (\<lambda>x. x = e) (m_entries m d)"
      using E D(11) by (intro find_cong_set) auto
    moreover have "x \<in> set xs \<Longrightarrow> find (\<lambda>y. y = x) xs = Some x" for x and xs :: "nat list" by (induction xs) auto
    ultimately show ?thesis using True D(6) ent by simp
  next
    case False
    have "str_at ?m x n' = str_at m x n'" if "x \<in> set (m_entries m k)" for x
    proof (cases "x = e")
      case True
      then have "k = d" using c k that by (auto simp: m_creatable_def)
      then show ?thesis using False True E [OF that] D(7) n'(2) by (cases n') auto
    qed (use E [OF that] in simp)
    then have "m_find ?m k n' = m_find m k n'" unfolding ent by (simp add: m_find_def cong: find_cong_set)
    then show ?thesis using False by (simp only: if_False)
  qed
qed

lemma created_follow:
  assumes c: "m_creatable m d i e name" and n: "length name < MAXNAMELEN" "0 \<notin> set name"
  shows "k < 128 \<Longrightarrow> m_follow m k ns = Some d \<Longrightarrow> [] \<notin> set ns \<Longrightarrow> m_follow (m_created d i e name ty m) k ns = Some d"
proof (induction ns arbitrary: k)
  case (Cons n' ns)
  note D = creatableD [OF c]
  from Cons.prems(2) obtain x where
    x: "length n' < MAXNAMELEN" "m_type m k = FTYPE_DIR" "m_find m k n' = Some x" "m_follow m (unat (get16 m (x + DE_in_ind))) ns = Some d"
    by (auto split: if_splits option.splits)
  from x(3) have mem: "x \<in> set (m_entries m k)" "str_at m x n'" using find_SomeD [of _ "m_entries m k" x] by (auto simp: m_find_def)
  have nz: "m x \<noteq> 0" "n' \<noteq> []" using mem(2) Cons.prems(3) by (cases n'; auto)+
  have dir: "m_dir m k" "unat (get16 m (x + DE_in_ind)) < 128" using D(1) x(2) Cons.prems(1) mem(1) nz(1) by (auto simp: m_tree_def)
  have "\<not> (k = d \<and> n' = name)" using x(3) D(10) by auto
  moreover have "x \<noteq> e" "k \<noteq> i" using nz(1) D(7,9) x(2) by auto
  ultimately show ?case
    using x Cons.IH [OF dir(2) x(4)] Cons.prems created_find [OF c n Cons.prems(1) x(2,1) nz(2), of ty]
      created_fields(2) [OF D(3,4,8) Cons.prems(1), of name ty m]
      created_entry(2) [OF c n Cons.prems(1) dir(1) mem(1), of ty]
    by auto
qed simp

lemma m_walk_miss:
  "m_follow m k ns = Some d \<Longrightarrow> length n < MAXNAMELEN \<Longrightarrow> m_type m d = FTYPE_DIR \<Longrightarrow> m_find m d n = None \<Longrightarrow>
   m_walk m k dir e (ns @ [n]) = \<lparr>w_ret = - E_NOT_FOUND, w_dir = iaddr d, w_entry = 0, w_last = Some n\<rparr>"
  by (induction ns arbitrary: k dir e) (auto split: if_splits option.splits)

lemma m_resolve_hit:
  "m_follow m k ns = Some d \<Longrightarrow> length n < MAXNAMELEN \<Longrightarrow> m_type m d = FTYPE_DIR \<Longrightarrow> m_find m d n = Some x \<Longrightarrow>
   m_resolve m k e (ns @ [n]) = (0, x)"
  by (induction ns arbitrary: k e) (auto split: if_splits option.splits)

lemma elems_set: "n \<in> set (elems acc p) \<Longrightarrow> n \<noteq> [] \<and> set n \<subseteq> set acc \<union> set p"
  by (induction acc p rule: elems.induct) (auto split: if_splits)

section \<open>The run of file_create\<close>

lemma created_file:
  assumes c: "m_creatable m d i e name" and n: "length name < MAXNAMELEN" "0 \<notin> set name"
  shows "m_file (m_created d i e name ty m) e i"
proof -
  note D = creatableD [OF c]
  note R = m_entries_range [OF D(5,6)]
  note sup = created_super [where name = name and ty = ty, OF D(2,3,4,8)]
  have "blk e < 4096" using R(1) D(2) by (auto simp: m_addr_def m_wf_def m_geom_def)
  then have "m_addr (m_created d i e name ty m) e" using R(1) sup by (simp add: m_addr_def)
  moreover have "m_slot (m_created d i e name ty m) i l = 0" if "l < NDIRECT" for l
    using D(12) [OF that] created_fields(3) [OF D(3,4,8) D(4) that] by simp
  ultimately show ?thesis
    using created_dir(1) [OF c D(3,5)] R(2,4) D(4) created_data(3) [OF D(3,4,8) n] by (simp add: m_file_def)
qed

lemma file_create_run:
  assumes s: "sees s m" and c: "m_creatable m d i e name" and p: "0 \<notin> set path" "path \<noteq> []" "hd path = CH_SLASH"
    and el: "elems [] path = ns @ [name]" and fo: "m_follow m 0 ns = Some d"
    and v: "name_is_valid name" and ty: "ty \<noteq> FTYPE_DIR"
  shows "runs (file_create path ty s) (0, Some e) (m_created d i e name ty m) \<and> m_file (m_created d i e name ty m) e i"
proof -
  note D = creatableD [OF c]
  let ?r = "m_resize d (m_size m d + of_nat DIRESIZE) m"
  let ?m = "m_created d i e name ty m"
  have n: "length name < MAXNAMELEN" "0 \<notin> set name"
    using v elems_set [of name "[]" path] el p(1) by (auto simp: name_is_valid_def split: if_splits)
  obtain s1 where s1: "walk_path path s = Some (\<lparr>w_ret = - E_NOT_FOUND, w_dir = iaddr d, w_entry = 0, w_last = Some name\<rparr>, s1)" "sees s1 m"
    using walk_path_run [OF s D(1) p] m_walk_miss [OF fo n(1) _ D(10)] c el by (auto simp: m_creatable_def elim: runsE)
  obtain s2 where s2: "dir_alloc_entry (iaddr d) s1 = Some ((0, e), s2)" "sees s2 ?r"
    using dir_alloc_entry_run [OF s1(2) D(5), of e] c by (auto simp: m_creatable_def elim: runsE)
  have r0: "?r x = m x" if "x < DISKMAP + BLKSIZE" for x using that m_resize_super [OF D(3)] by simp
  note ro = outside_super [of ?r m, OF r0]
  have wr: "m_wf ?r" "m_ifree ?r = m_ifree m"
    using m_wf_cong [OF D(2) r0] ro D(2) by (auto simp: m_ifree_def m_wf_def m_geom_def)
  let ?b = "bm_set SB_in_ocp i ?r"
  obtain s3 where s3: "alloc_inode s2 = Some (int i, s3)" "sees s3 ?b"
    using alloc_inode_run(2) [OF s2(2) m_wf_geom [OF wr(1)]] wr(2) c by (auto simp: m_creatable_def elim: runsE)
  have sb: "m_blk_num ?b = m_blk_num m" "b < 4096 \<Longrightarrow> bm_bit ?b SB_blk_ocp b = bm_bit m SB_blk_ocp b" for b
    using ro D(4) bm_addr_ino [OF D(4)] bm_addr_blk [of b]
    by (simp_all add: m_nums_bm bm_other_map)
  have ab: "m_addr ?b (e + l)" "2 \<le> blk (e + l)" if "l < DIRESIZE" for l
    using m_entries_range(5,6) [OF D(5,6) that] sb D(2) by (auto simp: m_addr_def m_wf_def m_geom_def)
  note wb = m_wf_ibm [OF wr(1) D(4)]
  let ?w = "set_bytes e (name @ [0]) ?b"
  let ?q = "set16 (e + DE_in_ind) (of_nat i) ?w"
  have low: "?w x = ?b x" "?q x = ?b x" if "x < DISKMAP + BLKSIZE" for x
    using that D(8) by (simp_all add: set16_def set_bytes_outside fs_consts)
  have wwf: "m_wf ?w" "m_wf ?q" by (rule m_wf_cong [OF wb], simp add: low)+
  have inb: "m_addr ?w (e + DE_in_ind)" "one_block (e + DE_in_ind) 2"
    using m_addr_cong(1) [OF m_wf_geom [OF wb] ab(1), of DE_in_ind ?w] low(1) m_entries_in_ind [OF D(5,6)]
    by (auto simp: fs_consts)
  obtain s4 where s4: "strcpy_to e name s3 = Some s4" "sees s4 ?w"
    using wr_mem_run [OF s3(2) m_wf_geom [OF wb], of "name @ [0]" e] ab n(1)
    by (auto simp: strcpy_to_wr_mem fs_consts elim: goesE)
  obtain s5 where s5: "wr16 (e + DE_in_ind) (of_nat i) s4 = Some s5" "sees s5 ?q"
    using wr16_run [OF s4(2) m_wf_geom [OF wwf(1)] inb] by (rule goesE)
  obtain s6 where s6: "wr16 (iaddr i + IN_type) ty s5 = Some s6" "sees s6 ?m"
    using wr16_run [OF s5(2) m_wf_geom [OF wwf(2)], of "iaddr i + IN_type" ty] m_addr_fields(3) [OF wwf(2) D(4)]
    by (auto simp: m_created_def elim: goesE)
  obtain s7 where s7: "file_flush e s6 = Some s7" "sees s7 ?m"
    using file_flush_run [OF s6(2) created_file [OF c n]] by (rule goesE)
  have u: "unat (of_nat i :: u16) = i" using D(4) by (simp add: unat_of_nat_u16)
  have "inode_ptr (of_nat i) s5 = iaddr i" by (simp add: inode_ptr_eq [OF s5(2)] u)
  moreover have "0 < iaddr d" by (simp add: iaddr_def DISKMAP_def)
  ultimately show ?thesis
    using s1(1) s2(1) s3(1) s4(1) s5(1) s6(1) s7 v ty created_file [OF c n]
    by (simp add: file_create_def runs_Some E_NOT_FOUND_def)
qed

text \<open>
  C17: a created file can be opened.  If the path leads to a directory that has no entry of its last
  component, but a free entry, and a blank inode is free, then \<open>file_create\<close> of a regular file takes the first free entry and
  the first free inode, the entry is a well-formed file of the requested type, \<open>file_open\<close> of the same path
  returns it, and no other inode is taken.
\<close>

theorem file_create_open:
  assumes "sees s m" "m_creatable m d i e name" "0 \<notin> set path" "path \<noteq> []" "hd path = CH_SLASH"
    and "elems [] path = ns @ [name]" "m_follow m 0 ns = Some d" "name_is_valid name" "ty \<noteq> FTYPE_DIR"
  shows "\<exists>s1 m1 s2. file_create path ty s = Some ((0, Some e), s1) \<and> sees s1 m1 \<and> m_file m1 e i
     \<and> m_type m1 i = ty \<and> m_ifree m1 = m_ifree m - {i} \<and> m_free m1 = m_free m
     \<and> file_open path s1 = Some ((0, e), s2)"
proof -
  note D = creatableD [OF assms(2)]
  let ?m = "m_created d i e name ty m"
  have n: "length name < MAXNAMELEN" "0 \<notin> set name" "name \<noteq> []" "[] \<notin> set ns"
    using assms(8,3) elems_set [of name "[]" path] elems_set [of "[]" "[]" path] assms(6)
    by (auto simp: name_is_valid_def split: if_splits)
  obtain s1 where s1: "file_create path ty s = Some ((0, Some e), s1)" "sees s1 ?m" "m_file ?m e i"
    using file_create_run [OF assms] by (auto elim: runsE)
  have d: "m_type m d = FTYPE_DIR" "d \<noteq> i" using assms(2) by (auto simp: m_creatable_def)
  have "m_resolve ?m 0 0 (elems [] path) = (0, e)"
    unfolding assms(6) using d created_fields(2) [OF D(3,4,8,3)] created_find [OF assms(2) n(1,2) D(3) d(1) n(1,3)]
    by (intro m_resolve_hit [OF created_follow [OF assms(2) n(1,2) _ assms(7) n(4)] n(1)]) simp_all
  with file_open_run [OF s1(2) created_tree [OF assms(2) n(1,2) assms(9)] assms(3-5)] obtain s2 where
    "file_open path s1 = Some ((0, e), s2)" by (auto elim: runsE)
  moreover have "m_ifree ?m = m_ifree m - {i}" "m_free ?m = m_free m"
    using created_super [where name = name and ty = ty, OF D(2,3,4,8)] D(2) by (auto simp: m_ifree_def m_free_def m_wf_def m_geom_def)
  moreover have "m_type ?m i = ty" using created_fields(2) [OF D(3,4,8,4)] by simp
  ultimately show ?thesis using s1 by blast
qed

lemma img_creatable: "m_creatable img_mem 0 2 (img_entry + DIRESIZE) [98]"
proof -
  have "m_slot img_mem 2 l = 0" if "l < NDIRECT" for l
    using that by (simp add: m_slot_def img_mem_def mem_simps slot_addr_def iaddr_def img_entry_def fs_consts)
  moreover have "find (\<lambda>e. img_mem e = 0) (map (\<lambda>j. img_entry + DIRESIZE * j) (0 # 1 # [2..<BLKFILES])) = Some (img_entry + DIRESIZE)"
    using img_names [of 0 0] img_names [of 1 0] by (simp add: fs_consts)
  then have "find (\<lambda>e. img_mem e = 0) (m_entries img_mem 0) = Some (img_entry + DIRESIZE)"
    by (simp add: img_entries upt_conv_Cons fs_consts numeral_2_eq_2)
  moreover have "m_find img_mem 0 [98] = None"
    using img_names [of _ 0] by (auto simp: m_find_def img_entries find_None_iff split: if_splits)
  moreover have "Min (m_ifree img_mem) = 2" unfolding img_free by (rule Min_eqI) auto
  ultimately show ?thesis
    using img_tree img_types by (auto simp: m_creatable_def img_free FTYPE_DIR_def FTYPE_REG_def)
qed

theorem file_create_open_witness:
  "\<exists>s1 s2. file_create [CH_SLASH, 98] FTYPE_REG img = Some ((0, Some (img_entry + DIRESIZE)), s1)
     \<and> file_open [CH_SLASH, 98] s1 = Some ((0, img_entry + DIRESIZE), s2)"
  using file_create_open [OF sees_img img_creatable, of "[CH_SLASH, 98]" "[]" FTYPE_REG]
  by (auto simp: CH_SLASH_def CH_SPACE_def CH_DOT_def name_is_valid_def MAXNAMELEN_def FTYPE_REG_def FTYPE_DIR_def)

end
