(* ===== verification/Args.thy ===== *)
theory Args
  imports Prelude
begin

text \<open>
  Command-line options (\<open>args.c\<close>).  \<open>argv\<close> is the array of argument strings with its NULL
  entry (\<open>None\<close>); \<open>curarg\<close> points into the argument being taken apart (the characters that are
  left) and is \<open>None\<close> when no option is left.

  The main result describes a whole run of \<open>argnext\<close>: the option letters come out in order and
  what remains in \<open>argv\<close> are the other arguments.
\<close>

record argstate =
  as_argc :: nat
  as_argv :: "nat \<Rightarrow> u8 list option"
  as_curarg :: "u8 list option"
  as_argvalue :: "u8 list option"

definition argstart :: "nat \<Rightarrow> (nat \<Rightarrow> u8 list option) \<Rightarrow> argstate" where
  "argstart argc argv =
     \<lparr>as_argc = argc, as_argv = argv, as_curarg = (if 1 < argc then Some [] else None), as_argvalue = None\<rparr>"

text \<open>\<open>memmove(argv + 1, argv + 2, 4 * (argc - 1))\<close> followed by \<open>argc--\<close>.\<close>

definition shift_args :: "argstate \<Rightarrow> argstate" where
  "shift_args a =
     a\<lparr>as_argv := (\<lambda>i. if 1 \<le> i \<and> i < as_argc a then as_argv a (i + 1) else as_argv a i),
       as_argc := as_argc a - 1\<rparr>"

definition CH_MINUS :: u8 where "CH_MINUS = 45"

text \<open>A string read at an offset past its end gives the NUL at its end for the offsets used here.\<close>

definition char_at :: "u8 list \<Rightarrow> nat \<Rightarrow> u8" where
  "char_at cs i = (if i < length cs then cs ! i else 0)"

definition next_char :: "argstate \<Rightarrow> (int \<times> argstate) option" where
  "next_char a =
     (case as_curarg a of
        Some (c # cs) \<Rightarrow> Some (uint c, a\<lparr>as_curarg := Some cs\<rparr>)
      | _ \<Rightarrow> None)"

definition endofargs :: "argstate \<Rightarrow> (int \<times> argstate) option" where
  "endofargs a = Some (-1, a\<lparr>as_curarg := None\<rparr>)"

text \<open>\<open>None\<close> stands for dereferencing a NULL entry of \<open>argv\<close>.\<close>

definition argnext :: "argstate \<Rightarrow> (int \<times> argstate) option" where
  "argnext a0 =
     (let a = a0\<lparr>as_argvalue := None\<rparr> in
      case as_curarg a of
        None \<Rightarrow> Some (-1, a)
      | Some cur \<Rightarrow>
          if cur = [] then
            if as_argc a = 1 then endofargs a
            else
              (case as_argv a 1 of
                 None \<Rightarrow> None
               | Some arg \<Rightarrow>
                   if char_at arg 0 \<noteq> CH_MINUS \<or> char_at arg 1 = 0 then endofargs a
                   else
                     (let a = shift_args (a\<lparr>as_curarg := Some (tl arg)\<rparr>) in
                      if char_at (tl arg) 0 = CH_MINUS \<and> char_at (tl arg) 1 = 0 then endofargs a
                      else next_char a))
          else next_char a)"

definition argnextvalue :: "argstate \<Rightarrow> u8 list option \<times> argstate" where
  "argnextvalue a =
     (case as_curarg a of
        None \<Rightarrow> (None, a)
      | Some cur \<Rightarrow>
          if cur \<noteq> [] then
            (let a = a\<lparr>as_argvalue := Some cur, as_curarg := Some []\<rparr> in (as_argvalue a, a))
          else if 1 < as_argc a then
            (let a = shift_args (a\<lparr>as_argvalue := as_argv a 1\<rparr>) in (as_argvalue a, a))
          else
            (let a = a\<lparr>as_argvalue := None, as_curarg := None\<rparr> in (as_argvalue a, a)))"

definition argvalue :: "argstate \<Rightarrow> u8 list option \<times> argstate" where
  "argvalue a = (case as_argvalue a of Some v \<Rightarrow> (Some v, a) | None \<Rightarrow> argnextvalue a)"

section \<open>Argument arrays\<close>

text \<open>\<open>args_ok a as\<close>: the array holds program name and arguments \<open>as\<close>, then NULL; no argument
  contains a NUL character.\<close>

definition args_ok :: "argstate \<Rightarrow> u8 list \<Rightarrow> u8 list list \<Rightarrow> bool" where
  "args_ok a prog as \<longleftrightarrow>
     as_argc a = Suc (length as) \<and> as_argv a 0 = Some prog \<and> as_argv a (as_argc a) = None
     \<and> (\<forall>i<length as. as_argv a (Suc i) = Some (as ! i)) \<and> (\<forall>s\<in>set as. 0 \<notin> set s)"

lemma args_ok_upd [simp]:
  "args_ok (a\<lparr>as_curarg := c\<rparr>) prog as = args_ok a prog as"
  "args_ok (a\<lparr>as_argvalue := v\<rparr>) prog as = args_ok a prog as"
  by (simp_all add: args_ok_def)

lemma shift_args_ok: "args_ok a prog (s # as) \<Longrightarrow> args_ok (shift_args a) prog as"
  by (auto simp: args_ok_def shift_args_def nth_Cons')

lemma shift_args_fields [simp]:
  "as_curarg (shift_args a) = as_curarg a" "as_argvalue (shift_args a) = as_argvalue a"
  by (simp_all add: shift_args_def)

section \<open>A whole run\<close>

text \<open>
  What the options of an argument list are: an argument with a leading minus and more characters
  contributes its letters; \<open>--\<close> is swallowed and ends the options; anything else ends them.
\<close>

fun split_options :: "u8 list list \<Rightarrow> u8 list \<times> u8 list list" where
  "split_options [] = ([], [])"
| "split_options (s # as) =
     (if char_at s 0 \<noteq> CH_MINUS \<or> char_at s 1 = 0 then ([], s # as)
      else if char_at (tl s) 0 = CH_MINUS \<and> char_at (tl s) 1 = 0 then ([], as)
      else (let (os, rest) = split_options as in (tl s @ os, rest)))"

text \<open>\<open>argnext\<close> until it returns -1.\<close>

fun argnext_all :: "nat \<Rightarrow> argstate \<Rightarrow> (int list \<times> argstate) option" where
  "argnext_all 0 a = None"
| "argnext_all (Suc n) a = do {
     (c, a) \<leftarrow> argnext a;
     if c = -1 then Some ([], a)
     else do { (cs, a) \<leftarrow> argnext_all n a; Some (c # cs, a) }
   }"

lemma char_at_0: "0 \<notin> set s \<Longrightarrow> char_at s i = 0 \<longleftrightarrow> length s \<le> i"
  by (auto simp: char_at_def) (metis nth_mem)

lemma argnext_letter:
  assumes "as_curarg a = Some (c # cs)"
  shows "argnext a = Some (uint c, a\<lparr>as_argvalue := None, as_curarg := Some cs\<rparr>)"
  using assms by (simp add: argnext_def next_char_def Let_def)

lemma uint_not_neg: "uint (c :: u8) \<noteq> -1"
  using uint_ge_0 [of c] by linarith

lemma argnext_all_letters:
  "as_curarg a = Some cs \<Longrightarrow> args_ok a prog as \<Longrightarrow>
   (\<And>b. as_curarg b = Some [] \<Longrightarrow> args_ok b prog as \<Longrightarrow>
      \<exists>b'. argnext_all n b = Some (out, b') \<and> args_ok b' prog rest) \<Longrightarrow>
   \<exists>a'. argnext_all (length cs + n) a = Some (map uint cs @ out, a') \<and> args_ok a' prog rest"
proof (induction cs arbitrary: a)
  case Nil
  then show ?case by simp
next
  case (Cons c cs)
  let ?a = "a\<lparr>as_argvalue := None, as_curarg := Some cs\<rparr>"
  have "\<exists>a'. argnext_all (length cs + n) ?a = Some (map uint cs @ out, a') \<and> args_ok a' prog rest"
    by (rule Cons.IH [OF _ _ Cons.prems(3)]) (use Cons.prems(2) in simp_all)
  then show ?case
    using argnext_letter [OF Cons.prems(1)] uint_not_neg [of c] by auto
qed

lemma argnext_all_options:
  "as_curarg a = Some [] \<Longrightarrow> args_ok a prog as \<Longrightarrow> sum_list (map length as) < n \<Longrightarrow>
   \<exists>a'. argnext_all n a = Some (map uint (fst (split_options as)), a')
        \<and> args_ok a' prog (snd (split_options as))"
proof (induction as arbitrary: a n)
  case Nil
  then have "argnext a = Some (-1, a\<lparr>as_argvalue := None, as_curarg := None\<rparr>)"
    by (simp add: argnext_def endofargs_def args_ok_def Let_def)
  with Nil show ?case by (cases n) auto
next
  case (Cons s as)
  let ?a = "a\<lparr>as_argvalue := None\<rparr>"
  obtain k where n: "n = Suc k" using Cons.prems(3) by (cases n) auto
  have arg: "as_argv a 1 = Some s" "as_argc a \<noteq> 1" "0 \<notin> set s" using Cons.prems(2) by (auto simp: args_ok_def)
  show ?case
  proof (cases "char_at s 0 \<noteq> CH_MINUS \<or> char_at s 1 = 0")
    case True
    then have "argnext a = Some (-1, ?a\<lparr>as_curarg := None\<rparr>)"
      using Cons.prems(1) arg by (simp add: argnext_def endofargs_def Let_def)
    with True Cons.prems(2) n show ?thesis by auto
  next
    case False
    let ?b = "shift_args (?a\<lparr>as_curarg := Some (tl s)\<rparr>)"
    have ok: "args_ok ?b prog as" using Cons.prems(2) by (intro shift_args_ok) simp
    show ?thesis
    proof (cases "char_at (tl s) 0 = CH_MINUS \<and> char_at (tl s) 1 = 0")
      case True
      then have "argnext a = Some (-1, ?b\<lparr>as_curarg := None\<rparr>)"
        using Cons.prems(1) arg False by (simp add: argnext_def endofargs_def Let_def)
      with True False ok n show ?thesis by auto
    next
      case opt: False
      obtain c cs where tl: "tl s = c # cs" and s: "length s = Suc (Suc (length cs))"
        using False char_at_0 [OF arg(3), of 1] by (cases s; cases "tl s") auto
      let ?out = "map uint (fst (split_options as))" and ?rest = "snd (split_options as)"
      have step: "argnext a = Some (uint c, ?b\<lparr>as_curarg := Some cs\<rparr>)"
        using Cons.prems(1) arg False opt tl by (auto simp: argnext_def next_char_def Let_def)
      let ?k = "k - length cs"
      have k: "sum_list (map length as) < ?k" "k = length cs + ?k" using Cons.prems(3) n s by auto
      have "\<exists>a'. argnext_all (length cs + ?k) (?b\<lparr>as_curarg := Some cs\<rparr>) = Some (map uint cs @ ?out, a')
          \<and> args_ok a' prog ?rest"
        by (rule argnext_all_letters [where as = as]) (use ok Cons.IH k(1) in auto)
      then show ?thesis
        using step n k(2) uint_not_neg [of c] False opt tl by (auto simp: Let_def split: prod.splits)
    qed
  qed
qed

text \<open>
  C31: option parsing.  Started on an argument array, repeated calls of \<open>argnext\<close> return exactly the
  letters of the leading option arguments in order and then -1, and leave the other arguments in
  place, with \<open>--\<close> removed.
\<close>

theorem argnext_run:
  assumes "args_ok (argstart argc argv) prog as" "as \<noteq> []"
  shows "\<exists>a'. argnext_all (Suc (sum_list (map length as))) (argstart argc argv)
          = Some (map uint (fst (split_options as)), a')
        \<and> args_ok a' prog (snd (split_options as))"
proof (rule argnext_all_options [OF _ assms(1)])
  show "as_curarg (argstart argc argv) = Some []"
    using assms by (auto simp: argstart_def args_ok_def)
qed simp

theorem argnext_run_witness:
  "\<exists>a'. argnext_all 9 (argstart 4 [0 \<mapsto> [97], 1 \<mapsto> [45, 108, 100], 2 \<mapsto> [45, 45], 3 \<mapsto> [120, 121, 122]])
      = Some ([108, 100], a') \<and> args_ok a' [97] [[120, 121, 122]]"
proof -
  let ?argv = "[0 \<mapsto> [97], 1 \<mapsto> [45, 108, 100], 2 \<mapsto> [45, 45], 3 \<mapsto> [120, 121, 122]] :: nat \<Rightarrow> u8 list option"
  let ?as = "[[45, 108, 100], [45, 45], [120, 121, 122]] :: u8 list list"
  have ok: "args_ok (argstart 4 ?argv) [97] ?as"
    by (simp add: args_ok_def argstart_def All_less_Suc)
  have n: "Suc (sum_list (map length ?as)) = 9" by simp
  have split: "split_options ?as = ([108, 100], [[120, 121, 122]])" by (simp add: char_at_def CH_MINUS_def)
  have "\<exists>a'. argnext_all (Suc (sum_list (map length ?as))) (argstart 4 ?argv)
      = Some (map uint (fst (split_options ?as)), a') \<and> args_ok a' [97] (snd (split_options ?as))"
    by (rule argnext_run [OF ok]) simp
  then show ?thesis unfolding n split by simp
qed

end
