(* ===== verification/Mmu.thy ===== *)
theory Mmu
  imports Prelude
begin

text \<open>
  Memory-management constants and macros (\<open>util.h\<close>): page sizes, page-table flags, the layout of
  the address space, and the decomposition of a linear address into directory index, table index
  and offset.  Addresses are 32-bit words.
\<close>

definition PGSIZE :: u32 where "PGSIZE = 4096"
definition NPDENTRIES :: nat where "NPDENTRIES = 1024"
definition NPTENTRIES :: nat where "NPTENTRIES = 1024"
definition PTSIZE :: u32 where "PTSIZE = PGSIZE * 1024"

definition KERNBASE :: u32 where "KERNBASE = 0xF0000000"
definition KSTACKTOP :: u32 where "KSTACKTOP = KERNBASE"
definition KSTKSIZE :: u32 where "KSTKSIZE = 8 * PGSIZE"
definition IOPHYSMEM :: u32 where "IOPHYSMEM = 0x0A0000"
definition EXTPHYSMEM :: u32 where "EXTPHYSMEM = 0x100000"
definition MMIOLIM :: u32 where "MMIOLIM = KSTACKTOP - PTSIZE"
definition MMIOBASE :: u32 where "MMIOBASE = MMIOLIM - PTSIZE"
definition ULIM :: u32 where "ULIM = MMIOBASE"
definition UVPT :: u32 where "UVPT = ULIM - PTSIZE"
definition UPAGES :: u32 where "UPAGES = UVPT - PTSIZE"
definition UENVS :: u32 where "UENVS = UPAGES - PTSIZE"
definition UTOP :: u32 where "UTOP = UENVS"
definition UXSTACKTOP :: u32 where "UXSTACKTOP = UTOP"
definition USTACKTOP :: u32 where "USTACKTOP = UTOP - 2 * PGSIZE"
definition UTEXT :: u32 where "UTEXT = 2 * PTSIZE"
definition UTEMP :: u32 where "UTEMP = PTSIZE"
definition PFTEMP :: u32 where "PFTEMP = UTEMP + PTSIZE - PGSIZE"

definition PTE_P :: u32 where "PTE_P = 0x001"
definition PTE_W :: u32 where "PTE_W = 0x002"
definition PTE_U :: u32 where "PTE_U = 0x004"
definition PTE_PWT :: u32 where "PTE_PWT = 0x008"
definition PTE_PCD :: u32 where "PTE_PCD = 0x010"
definition PTE_D :: u32 where "PTE_D = 0x040"
definition PTE_AVAIL :: u32 where "PTE_AVAIL = 0xE00"
definition PTE_SYSCALL :: u32 where "PTE_SYSCALL = PTE_AVAIL OR PTE_P OR PTE_W OR PTE_U"

named_theorems mmu_consts "values of the memory layout"

declare PGSIZE_def [mmu_consts] NPDENTRIES_def [mmu_consts] NPTENTRIES_def [mmu_consts] PTSIZE_def [mmu_consts]
  KERNBASE_def [mmu_consts] KSTACKTOP_def [mmu_consts] KSTKSIZE_def [mmu_consts] IOPHYSMEM_def [mmu_consts]
  EXTPHYSMEM_def [mmu_consts] MMIOLIM_def [mmu_consts] MMIOBASE_def [mmu_consts] ULIM_def [mmu_consts]
  UVPT_def [mmu_consts] UPAGES_def [mmu_consts] UENVS_def [mmu_consts] UTOP_def [mmu_consts]
  UXSTACKTOP_def [mmu_consts] USTACKTOP_def [mmu_consts] UTEXT_def [mmu_consts] UTEMP_def [mmu_consts]
  PFTEMP_def [mmu_consts] PTE_P_def [mmu_consts] PTE_W_def [mmu_consts] PTE_U_def [mmu_consts]
  PTE_PWT_def [mmu_consts] PTE_PCD_def [mmu_consts] PTE_D_def [mmu_consts] PTE_AVAIL_def [mmu_consts]
  PTE_SYSCALL_def [mmu_consts]

section \<open>Macros\<close>

definition ROUNDDOWN :: "u32 \<Rightarrow> u32 \<Rightarrow> u32" where "ROUNDDOWN a n = a - a mod n"
definition ROUNDUP :: "u32 \<Rightarrow> u32 \<Rightarrow> u32" where "ROUNDUP a n = ROUNDDOWN (a + n - 1) n"

definition PTE_ADDR :: "u32 \<Rightarrow> u32" where "PTE_ADDR pte = pte AND NOT 0xFFF"
definition PGNUM :: "u32 \<Rightarrow> u32" where "PGNUM la = drop_bit 12 la"
definition PDX :: "u32 \<Rightarrow> u32" where "PDX la = drop_bit 22 la AND 0x3FF"
definition PTX :: "u32 \<Rightarrow> u32" where "PTX la = drop_bit 12 la AND 0x3FF"
definition PGOFF :: "u32 \<Rightarrow> u32" where "PGOFF la = la AND 0xFFF"
definition PGADDR :: "u32 \<Rightarrow> u32 \<Rightarrow> u32 \<Rightarrow> u32" where
  "PGADDR d t off = push_bit 22 d OR push_bit 12 t OR off"

section \<open>Lemmas\<close>

lemma mask_consts: "(0x3FF :: u32) = mask 10" "(0xFFF :: u32) = mask 12"
  by (simp_all add: mask_eq_exp_minus_1)

lemma PGADDR_split: "PGADDR (PDX la) (PTX la) (PGOFF la) = la"
  unfolding PGADDR_def PDX_def PTX_def PGOFF_def mask_consts
proof (rule bit_word_eqI)
  fix n
  assume "n < LENGTH(32)"
  then show "bit (push_bit 22 (drop_bit 22 la AND mask 10) OR push_bit 12 (drop_bit 12 la AND mask 10)
      OR (la AND mask 12)) n = bit la n"
    by (cases "22 \<le> n") (auto simp: bit_simps)
qed

lemma PTE_ADDR_off: "PTE_ADDR la OR PGOFF la = la"
  unfolding PTE_ADDR_def PGOFF_def mask_consts by (rule bit_word_eqI) (auto simp: bit_simps)

lemma ROUNDDOWN_page: "ROUNDDOWN a PGSIZE = PTE_ADDR a"
proof -
  have "a mod PGSIZE = a AND mask 12"
    unfolding take_bit_eq_mask [symmetric] by (simp add: PGSIZE_def take_bit_eq_mod)
  moreover have "push_bit 12 (drop_bit 12 a) = a AND NOT (mask 12)"
    by (rule bit_word_eqI) (auto simp: bit_simps)
  then have "a - (a AND mask 12) = a AND NOT (mask 12)"
    using bits_ident [of 12 a] unfolding take_bit_eq_mask by (metis add_diff_cancel_right')
  ultimately show ?thesis unfolding ROUNDDOWN_def PTE_ADDR_def mask_consts by simp
qed

lemma unat_PGOFF: "unat (PGOFF la) = unat la mod 4096"
  unfolding PGOFF_def mask_consts take_bit_eq_mask [symmetric]
  by (simp add: unsigned_take_bit_eq take_bit_eq_mod unat_mod)

lemma unat_PDX: "unat (PDX la) = unat la div 2 ^ 22 mod 1024"
  unfolding PDX_def mask_consts take_bit_eq_mask [symmetric]
  by (simp add: unsigned_take_bit_eq unsigned_drop_bit_eq take_bit_eq_mod drop_bit_eq_div unat_div unat_mod)

lemma unat_PTX: "unat (PTX la) = unat la div 2 ^ 12 mod 1024"
  unfolding PTX_def mask_consts take_bit_eq_mask [symmetric]
  by (simp add: unsigned_take_bit_eq unsigned_drop_bit_eq take_bit_eq_mod drop_bit_eq_div unat_div unat_mod)

lemma unat_PGNUM: "unat (PGNUM la) = unat la div 4096"
  by (simp add: PGNUM_def unsigned_drop_bit_eq drop_bit_eq_div unat_div)

lemma index_bounds: "unat (PDX la) < 1024" "unat (PTX la) < 1024"
  by (simp_all add: unat_PDX unat_PTX)

text \<open>Two addresses with the same indices are on the same page.\<close>

lemma same_page: "PDX a = PDX b \<and> PTX a = PTX b \<longleftrightarrow> PTE_ADDR a = PTE_ADDR b"
proof
  assume "PDX a = PDX b \<and> PTX a = PTX b"
  moreover have "PTE_ADDR x = push_bit 22 (PDX x) OR push_bit 12 (PTX x)" for x
    unfolding PTE_ADDR_def PDX_def PTX_def mask_consts
  proof (rule bit_word_eqI)
    fix n
    assume "n < LENGTH(32)"
    then show "bit (x AND NOT (mask 12)) n
        = bit (push_bit 22 (drop_bit 22 x AND mask 10) OR push_bit 12 (drop_bit 12 x AND mask 10)) n"
      by (cases "22 \<le> n") (auto simp: bit_simps)
  qed
  ultimately show "PTE_ADDR a = PTE_ADDR b" by simp
next
  assume eq: "PTE_ADDR a = PTE_ADDR b"
  have "PDX x = PDX (PTE_ADDR x)" "PTX x = PTX (PTE_ADDR x)" for x
    unfolding PTE_ADDR_def PDX_def PTX_def mask_consts by (rule bit_word_eqI; auto simp: bit_simps)+
  with eq show "PDX a = PDX b \<and> PTX a = PTX b" by metis
qed

end
