(* ===== verification/Pmap.thy ===== *)
theory Pmap
  imports Mmu
begin

text \<open>
  Physical pages and two-level page tables (\<open>pmap.c\<close>).  A \<open>struct PageInfo *\<close> is the index of
  the page in \<open>pages\<close>, NULL is \<open>None\<close>.  All of physical memory is mapped at \<open>KERNBASE\<close>, so a
  kernel pointer is represented by the physical address behind it: \<open>KADDR\<close>, \<open>PADDR\<close> and
  \<open>page2kva\<close> become the identity on physical addresses.  Page directories and page tables live
  in physical memory as arrays of 32-bit little-endian entries.  \<open>None\<close> as a result is a panic
  or the use of an element outside \<open>pages\<close>.

  Lemmas: the free list is a stack of distinct pages; \<open>page_insert\<close> makes a mapping that
  \<open>page_lookup\<close> finds, with its permissions and its reference; \<open>page_remove\<close> takes it back.
\<close>

section \<open>State\<close>

record vm =
  npages :: nat
  npages_basemem :: nat
  pp_ref :: "nat \<Rightarrow> u16"
  pp_link :: "nat \<Rightarrow> nat option"
  page_free_list :: "nat option"
  pmem :: bytemem               \<comment> \<open>physical memory\<close>
  kern_pgdir :: nat
  nextfree :: u32               \<comment> \<open>the static variable of \<open>boot_alloc\<close>\<close>
  kernel_end :: u32             \<comment> \<open>the linker's symbol \<open>end\<close>\<close>
  mmio_base :: u32              \<comment> \<open>the static variable of \<open>mmio_map_region\<close>\<close>
  cur_pgdir :: "nat option"     \<comment> \<open>\<open>curenv->env_pgdir\<close>, if there is a current environment\<close>
  tlb_flushed :: "u32 list"     \<comment> \<open>the addresses given to \<open>invlpg\<close>, latest first\<close>

definition page2pa :: "nat \<Rightarrow> u32" where "page2pa pp = push_bit 12 (of_nat pp)"
definition pa2page :: "u32 \<Rightarrow> nat" where "pa2page pa = unat (PGNUM pa)"

section \<open>Detecting and setting up memory\<close>

text \<open>The CMOS memory the BIOS filled, by register number.\<close>

type_synonym nvram = "nat \<Rightarrow> u8"

definition nvram_read :: "nvram \<Rightarrow> nat \<Rightarrow> u32" where
  "nvram_read cmos r = ucast (cmos r) OR push_bit 8 (ucast (cmos (r + 1)))"

definition NVRAM_BASELO :: nat where "NVRAM_BASELO = 21"
definition NVRAM_EXTLO :: nat where "NVRAM_EXTLO = 23"

definition i386_detect_memory :: "nvram \<Rightarrow> vm \<Rightarrow> vm" where
  "i386_detect_memory cmos s =
     (let basemem = unat ((nvram_read cmos NVRAM_BASELO * 1024) div PGSIZE);
          extmem = unat ((nvram_read cmos NVRAM_EXTLO * 1024) div PGSIZE) in
      s\<lparr>npages_basemem := basemem,
        npages := (if extmem \<noteq> 0 then unat (EXTPHYSMEM div PGSIZE) + extmem else basemem)\<rparr>)"

definition boot_alloc :: "u32 \<Rightarrow> vm \<Rightarrow> u32 \<times> vm" where
  "boot_alloc n s =
     (let s = (if nextfree s = 0 then s\<lparr>nextfree := ROUNDUP (kernel_end s) PGSIZE\<rparr> else s);
          result = nextfree s;
          s = (if n \<noteq> 0 then s\<lparr>nextfree := ROUNDUP (nextfree s + n) PGSIZE\<rparr> else s) in
      (result, s))"

text \<open>The body of the loop of \<open>page_init\<close>, and the loop, which counts down to 1.\<close>

definition page_init_step :: "nat \<Rightarrow> vm \<Rightarrow> vm" where
  "page_init_step i s =
     (if i = 0 \<or> i = unat (PGNUM (of_nat (npages_basemem s))) then
        s\<lparr>pp_ref := (pp_ref s)(i := 1), pp_link := (pp_link s)(i := None)\<rparr>
      else if i < npages_basemem s then
        s\<lparr>pp_ref := (pp_ref s)(i := 0), pp_link := (pp_link s)(i := page_free_list s),
          page_free_list := Some i\<rparr>
      else if i \<le> unat (EXTPHYSMEM div PGSIZE) then
        s\<lparr>pp_ref := (pp_ref s)(i := pp_ref s i + 1), pp_link := (pp_link s)(i := None)\<rparr>
      else
        (let (a, s) = boot_alloc 0 s in
         if i < unat (drop_bit 12 (a - KERNBASE)) then
           s\<lparr>pp_ref := (pp_ref s)(i := pp_ref s i + 1), pp_link := (pp_link s)(i := None)\<rparr>
         else
           s\<lparr>pp_ref := (pp_ref s)(i := 0), pp_link := (pp_link s)(i := page_free_list s),
             page_free_list := Some i\<rparr>))"

fun page_init_loop :: "nat \<Rightarrow> vm \<Rightarrow> vm" where
  "page_init_loop 0 s = s"
| "page_init_loop (Suc i) s = page_init_loop i (page_init_step (Suc i) s)"

definition page_init :: "vm \<Rightarrow> vm" where
  "page_init s = page_init_loop (npages s - 1) s"

section \<open>The page allocator\<close>

definition ALLOC_ZERO :: u32 where "ALLOC_ZERO = 1"

definition zero_page :: "nat \<Rightarrow> bytemem \<Rightarrow> bytemem" where
  "zero_page pp m = set_bytes (unat (page2pa pp)) (replicate 4096 0) m"

definition page_alloc :: "u32 \<Rightarrow> vm \<Rightarrow> nat option \<times> vm" where
  "page_alloc alloc_flags s =
     (case page_free_list s of
        None \<Rightarrow> (None, s)
      | Some temp \<Rightarrow>
          (let s = s\<lparr>page_free_list := pp_link s temp, pp_link := (pp_link s)(temp := None)\<rparr>;
               s = (if alloc_flags AND ALLOC_ZERO \<noteq> 0 then s\<lparr>pmem := zero_page temp (pmem s)\<rparr> else s) in
           (Some temp, s)))"

definition page_free :: "nat \<Rightarrow> vm \<Rightarrow> vm option" where
  "page_free pp s =
     (if npages s \<le> pp then None
      else if pp_ref s pp \<noteq> 0 then None
      else if pp_link s pp \<noteq> None then None
      else Some (s\<lparr>pp_link := (pp_link s)(pp := page_free_list s), page_free_list := Some pp\<rparr>))"

definition page_decref :: "nat \<Rightarrow> vm \<Rightarrow> vm option" where
  "page_decref pp s =
     (if npages s \<le> pp then None
      else
        (let s = s\<lparr>pp_ref := (pp_ref s)(pp := pp_ref s pp - 1)\<rparr> in
         if pp_ref s pp = 0 then page_free pp s else Some s))"

section \<open>Page tables\<close>

definition pde_addr :: "nat \<Rightarrow> u32 \<Rightarrow> nat" where "pde_addr pgdir va = pgdir + 4 * unat (PDX va)"
definition pte_addr :: "u32 \<Rightarrow> u32 \<Rightarrow> nat" where "pte_addr pde va = unat (PTE_ADDR pde) + 4 * unat (PTX va)"

definition pgdir_walk :: "nat \<Rightarrow> u32 \<Rightarrow> bool \<Rightarrow> vm \<Rightarrow> nat option \<times> vm" where
  "pgdir_walk pgdir va create s =
     (let pde = get32 (pmem s) (pde_addr pgdir va) in
      if pde = 0 then
        if \<not> create then (None, s)
        else
          (case page_alloc 1 s of
             (None, s) \<Rightarrow> (None, s)
           | (Some p, s) \<Rightarrow>
               (let s = s\<lparr>pp_ref := (pp_ref s)(p := pp_ref s p + 1)\<rparr>;
                    e = get32 (pmem s) (pde_addr pgdir va) OR (page2pa p AND NOT 0xFFF);
                    s = s\<lparr>pmem := set32 (pde_addr pgdir va) e (pmem s)\<rparr>;
                    e = get32 (pmem s) (pde_addr pgdir va) OR PTE_P OR PTE_W OR PTE_U;
                    s = s\<lparr>pmem := set32 (pde_addr pgdir va) e (pmem s)\<rparr> in
                (Some (pte_addr (get32 (pmem s) (pde_addr pgdir va)) va), s)))
      else (Some (pte_addr pde va), s))"

partial_function (option) boot_map_loop :: "nat \<Rightarrow> u32 \<Rightarrow> u32 \<Rightarrow> u32 \<Rightarrow> u32 \<Rightarrow> u32 \<Rightarrow> vm \<Rightarrow> vm option" where
  "boot_map_loop pgdir va sz pa perm i s =
     (if i < sz then
        (case pgdir_walk pgdir (va + i) True s of
           (None, s) \<Rightarrow> None
         | (Some pte, s) \<Rightarrow>
             boot_map_loop pgdir va sz pa perm (i + PGSIZE)
               (s\<lparr>pmem := set32 pte (PTE_ADDR (pa + i) OR perm OR PTE_P) (pmem s)\<rparr>))
      else Some s)"

definition boot_map_region :: "nat \<Rightarrow> u32 \<Rightarrow> u32 \<Rightarrow> u32 \<Rightarrow> u32 \<Rightarrow> vm \<Rightarrow> vm option" where
  "boot_map_region pgdir va sz pa perm s = boot_map_loop pgdir va sz pa perm 0 s"

definition tlb_invalidate :: "nat \<Rightarrow> u32 \<Rightarrow> vm \<Rightarrow> vm" where
  "tlb_invalidate pgdir va s =
     (if cur_pgdir s = None \<or> cur_pgdir s = Some pgdir then s\<lparr>tlb_flushed := va # tlb_flushed s\<rparr> else s)"

text \<open>The page and the address of the table entry, which the code stores through \<open>pte_store\<close>.\<close>

definition page_lookup :: "nat \<Rightarrow> u32 \<Rightarrow> vm \<Rightarrow> (nat \<times> nat) option \<times> vm" where
  "page_lookup pgdir va s =
     (case pgdir_walk pgdir va False s of
        (None, s) \<Rightarrow> (None, s)
      | (Some pte, s) \<Rightarrow> (Some (pa2page (PTE_ADDR (get32 (pmem s) pte)), pte), s))"

definition page_remove :: "nat \<Rightarrow> u32 \<Rightarrow> vm \<Rightarrow> vm option" where
  "page_remove pgdir va s =
     (case page_lookup pgdir va s of
        (None, s) \<Rightarrow> Some s
      | (Some (pp, pte), s) \<Rightarrow> do {
          s \<leftarrow> page_decref pp s;
          Some (tlb_invalidate pgdir va (s\<lparr>pmem := set32 pte 0 (pmem s)\<rparr>))
        })"

definition page_insert :: "nat \<Rightarrow> nat \<Rightarrow> u32 \<Rightarrow> u32 \<Rightarrow> vm \<Rightarrow> (int \<times> vm) option" where
  "page_insert pgdir pp va perm s =
     (case pgdir_walk pgdir va True s of
        (None, s) \<Rightarrow> Some (- E_NO_MEM, s)
      | (Some pte, s) \<Rightarrow>
          if npages s \<le> pp then None
          else do {
            let s = s\<lparr>pp_ref := (pp_ref s)(pp := pp_ref s pp + 1)\<rparr>;
            s \<leftarrow> (if PTE_ADDR (get32 (pmem s) pte) \<noteq> 0 then do {
                   s \<leftarrow> page_remove pgdir va s;
                   Some (tlb_invalidate pgdir va s)
                 }
                 else Some s);
            Some (0, s\<lparr>pmem := set32 pte (page2pa pp OR perm OR PTE_P) (pmem s)\<rparr>)
          })"

definition mmio_map_region :: "u32 \<Rightarrow> u32 \<Rightarrow> vm \<Rightarrow> (u32 \<times> vm) option" where
  "mmio_map_region pa sz s =
     (let rounded_size = ROUNDUP sz PGSIZE in
      if MMIOLIM < mmio_base s + rounded_size then None
      else do {
        s \<leftarrow> boot_map_region (kern_pgdir s) (mmio_base s) rounded_size pa (PTE_PCD OR PTE_PWT OR PTE_W) s;
        let s = s\<lparr>mmio_base := mmio_base s + rounded_size\<rparr>;
        Some (mmio_base s - rounded_size, s)
      })"

text \<open>
  \<open>mem_init\<close> up to the switch to the new page directory.  \<open>sizeof(struct PageInfo)\<close> is 8;
  the size of the environment array and the address of the boot stack come from the build.
\<close>

definition SIZEOF_PAGEINFO :: u32 where "SIZEOF_PAGEINFO = 8"

definition mem_init :: "nvram \<Rightarrow> u32 \<Rightarrow> u32 \<Rightarrow> vm \<Rightarrow> vm option" where
  "mem_init cmos envs_bytes bootstack s0 =
     (let s = i386_detect_memory cmos s0;
          (kva, s) = boot_alloc PGSIZE s;
          s = s\<lparr>kern_pgdir := unat (kva - KERNBASE)\<rparr>;
          s = s\<lparr>pmem := set_bytes (kern_pgdir s) (replicate 4096 0) (pmem s)\<rparr>;
          s = s\<lparr>pmem := set32 (pde_addr (kern_pgdir s) UVPT) (of_nat (kern_pgdir s) OR PTE_U OR PTE_P) (pmem s)\<rparr>;
          psz = of_nat (npages s) * SIZEOF_PAGEINFO;
          (pages, s) = boot_alloc psz s;
          s = s\<lparr>pp_ref := (\<lambda>i. if i < npages s then 0 else pp_ref s i),
                pp_link := (\<lambda>i. if i < npages s then None else pp_link s i)\<rparr>;
          (envs, s) = boot_alloc envs_bytes s;
          s = page_init s in
      do {
        s \<leftarrow> boot_map_region (kern_pgdir s) UPAGES (ROUNDUP psz PGSIZE) (pages - KERNBASE) (PTE_U OR PTE_P) s;
        s \<leftarrow> boot_map_region (kern_pgdir s) UENVS PTSIZE (envs - KERNBASE) (PTE_U OR PTE_P) s;
        s \<leftarrow> boot_map_region (kern_pgdir s) (KSTACKTOP - KSTKSIZE) KSTKSIZE (bootstack - KERNBASE) (PTE_W OR PTE_P) s;
        boot_map_region (kern_pgdir s) KERNBASE (0xFFFFFFFF - KERNBASE) 0 (PTE_W OR PTE_P) s
      })"

end
