(* ===== verification/PmapProps.thy ===== *)
theory PmapProps
  imports Pmap
begin

text \<open>
  Properties of the physical page allocator and of the page tables.
\<close>

section \<open>The free list is a stack\<close>

lemma page_alloc_fields:
  "pp_ref (snd (page_alloc f s)) = pp_ref s" "npages (snd (page_alloc f s)) = npages s"
  "cur_pgdir (snd (page_alloc f s)) = cur_pgdir s"
  by (auto simp: page_alloc_def Let_def split: option.splits)

interpretation pgs: free_stack page_free_list pp_link "page_alloc f" page_free
  "\<lambda>p s. p < npages s \<and> pp_ref s p = 0 \<and> pp_link s p = None" for f
proof unfold_locales
  fix s p
  show "page_alloc f s = (None, s)" if "page_free_list s = None"
    using that by (simp add: page_alloc_def)
  show "\<exists>s'. page_alloc f s = (Some p, s') \<and> page_free_list s' = pp_link s p
      \<and> (\<forall>q. q \<noteq> p \<longrightarrow> pp_link s' q = pp_link s q)" if "page_free_list s = Some p"
    using that by (auto simp: page_alloc_def Let_def)
  show "\<exists>s'. page_free p s = Some s' \<and> page_free_list s' = Some p \<and> pp_link s' p = page_free_list s
      \<and> (\<forall>q. q \<noteq> p \<longrightarrow> pp_link s' q = pp_link s q)"
    if "p < npages s \<and> pp_ref s p = 0 \<and> pp_link s p = None"
    using that by (auto simp: page_free_def)
qed

definition free_pages :: "vm \<Rightarrow> nat list \<Rightarrow> bool" where
  "free_pages s xs \<longleftrightarrow> chain (pp_link s) (page_free_list s) xs \<and> distinct xs"

lemma free_pages_holds: "free_pages s xs = pgs.holds s xs"
  by (simp add: free_pages_def pgs.holds_def)

lemma zero_page_get:
  "x < 4096 \<Longrightarrow> zero_page p m (unat (page2pa p) + x) = 0"
  by (simp add: zero_page_def set_bytes_apply)

section \<open>page_init\<close>

definition usable :: "vm \<Rightarrow> nat \<Rightarrow> bool" where
  "usable s i \<longleftrightarrow>
     i \<noteq> unat (PGNUM (of_nat (npages_basemem s))) \<and>
     (i < npages_basemem s
      \<or> unat (EXTPHYSMEM div PGSIZE) < i \<and> unat (drop_bit 12 (fst (boot_alloc 0 s) - KERNBASE)) \<le> i)"

lemma page_init_step_usable:
  assumes "0 < i"
  shows "usable (page_init_step i s) = usable s"
proof -
  have "npages_basemem (page_init_step i s) = npages_basemem s"
    by (simp add: page_init_step_def boot_alloc_def Let_def split: prod.splits)
  moreover have "fst (boot_alloc 0 (page_init_step i s)) = fst (boot_alloc 0 s)"
    by (auto simp: page_init_step_def boot_alloc_def Let_def split: prod.splits)
  ultimately show ?thesis by (simp add: usable_def fun_eq_iff)
qed

lemma page_init_step_links:
  assumes "0 < i"
  shows "page_free_list (page_init_step i s) = (if usable s i then Some i else page_free_list s)"
    "usable s i \<Longrightarrow> pp_link (page_init_step i s) i = page_free_list s \<and> pp_ref (page_init_step i s) i = 0"
    "q \<noteq> i \<Longrightarrow> pp_link (page_init_step i s) q = pp_link s q \<and> pp_ref (page_init_step i s) q = pp_ref s q"
    "npages (page_init_step i s) = npages s"
  using assms by (auto simp: page_init_step_def usable_def boot_alloc_def Let_def not_le not_less split: prod.splits)

lemma page_init_loop_list:
  "free_pages s xs \<Longrightarrow> (\<And>x. x \<in> set xs \<Longrightarrow> n < x \<and> pp_ref s x = 0) \<Longrightarrow>
   free_pages (page_init_loop n s) (filter (usable s) [1..<Suc n] @ xs)
   \<and> (\<forall>x\<in>set (filter (usable s) [1..<Suc n] @ xs). pp_ref (page_init_loop n s) x = 0)"
proof (induction n arbitrary: s xs)
  case 0
  then show ?case by simp
next
  case (Suc n)
  let ?s = "page_init_step (Suc n) s"
  let ?xs = "if usable s (Suc n) then Suc n # xs else xs"
  note st = page_init_step_links [where i = "Suc n" and s = s]
  have ne: "x \<noteq> Suc n" if "x \<in> set xs" for x using Suc.prems(2) [OF that] by simp
  have "chain (pp_link ?s) p xs = chain (pp_link s) p xs" for p
    by (rule chain_cong) (use st(3) ne in simp)
  then have "free_pages ?s ?xs"
    using Suc.prems(1) st(1,2) ne by (auto simp: free_pages_def)
  moreover have "n < x \<and> pp_ref ?s x = 0" if "x \<in> set ?xs" for x
    using that st(2,3) Suc.prems(2) ne by (auto split: if_splits dest: Suc_lessD)
  ultimately have "free_pages (page_init_loop n ?s) (filter (usable ?s) [1..<Suc n] @ ?xs)
     \<and> (\<forall>x\<in>set (filter (usable ?s) [1..<Suc n] @ ?xs). pp_ref (page_init_loop n ?s) x = 0)"
    by (rule Suc.IH)
  moreover have "filter (usable s) [1..<Suc (Suc n)] @ xs = filter (usable s) [1..<Suc n] @ ?xs" by simp
  ultimately show ?case by (simp add: page_init_step_usable)
qed

section \<open>Page-table entries\<close>

lemma page2pa_nat: "pp < 1048576 \<Longrightarrow> unat (page2pa pp) = pp * 4096"
proof -
  assume pp: "pp < 1048576"
  have "page2pa pp = of_nat (pp * 4096)" by (simp add: page2pa_def push_bit_eq_mult)
  then show ?thesis using pp by (simp only: unat_of_nat_u32)
qed

lemma PTE_ADDR_low: "perm AND NOT 0xFFF = 0 \<Longrightarrow> PTE_ADDR (page2pa pp OR perm OR PTE_P) = page2pa pp"
proof -
  assume p: "perm AND NOT 0xFFF = 0"
  have "bit (perm AND NOT (mask 12)) n = False" for n using p by (simp only: mask_consts) simp
  then have lo: "bit perm n \<Longrightarrow> n < 12" for n
    using bit_imp_le_length [of perm n] by (auto simp: bit_simps)
  have one: "bit PTE_P n = (n = 0)" for n by (simp add: PTE_P_def bit_1_iff)
  show ?thesis
    unfolding PTE_ADDR_def mask_consts page2pa_def
    by (rule bit_word_eqI) (auto simp: bit_simps one dest: lo)
qed

lemma pa2page_page2pa: "pp < 1048576 \<Longrightarrow> pa2page (page2pa pp) = pp"
  by (simp add: pa2page_def unat_PGNUM page2pa_nat)

lemma pa2page_addr: "pa2page (PTE_ADDR e) = pa2page e"
  unfolding pa2page_def PGNUM_def PTE_ADDR_def mask_consts
  by (rule arg_cong [of _ _ unat], rule bit_word_eqI) (auto simp: bit_simps dest: bit_imp_le_length)

text \<open>
  What the walk relies on: the page directory is a page of its own, apart from every page table
  in use and from the page at the head of the free list.
\<close>

definition pde_of :: "vm \<Rightarrow> nat \<Rightarrow> u32 \<Rightarrow> u32" where
  "pde_of s pgdir va = get32 (pmem s) (pde_addr pgdir va)"

definition dir_ok :: "vm \<Rightarrow> nat \<Rightarrow> bool" where
  "dir_ok s pgdir \<longleftrightarrow>
     pgdir mod 4096 = 0 \<and> npages s \<le> 1048576
     \<and> (\<forall>va. pde_of s pgdir va \<noteq> 0 \<longrightarrow> unat (PTE_ADDR (pde_of s pgdir va)) \<noteq> pgdir)
     \<and> (\<forall>p. page_free_list s = Some p \<longrightarrow> p < npages s \<and> p * 4096 \<noteq> pgdir)"

lemma PTE_ADDR_aligned: "unat (PTE_ADDR e) mod 4096 = 0"
proof -
  have "PTE_ADDR e = e - e mod 4096" using ROUNDDOWN_page [of e] by (simp add: ROUNDDOWN_def PGSIZE_def)
  moreover have "e mod 4096 \<le> e" by (simp add: word_le_nat_alt unat_mod)
  ultimately have "unat (PTE_ADDR e) = unat e - unat e mod 4096"
    by (simp add: unat_sub unat_mod)
  then show ?thesis by simp
qed

text \<open>Entries of two different pages do not overlap.\<close>

lemma pages_apart:
  assumes "a mod 4096 = 0" "b mod 4096 = (0 :: nat)" "a \<noteq> b"
  shows "a + 4096 \<le> b \<or> b + 4096 \<le> a"
proof -
  obtain x y where xy: "a = 4096 * x" "b = 4096 * y" using assms(1,2) by (metis mod_0_imp_dvd dvd_def)
  then have "x \<noteq> y" using assms(3) by simp
  then have "Suc x \<le> y \<or> Suc y \<le> x" by linarith
  then have "4096 * Suc x \<le> 4096 * y \<or> 4096 * Suc y \<le> 4096 * x" using mult_le_mono2 by blast
  then show ?thesis by (simp add: xy add.commute)
qed

lemma entries_apart:
  assumes "a mod 4096 = 0" "b mod 4096 = (0 :: nat)" "a \<noteq> b" "i < 1024" "j < 1024"
  shows "a + 4 * i + 4 \<le> b + 4 * j \<or> b + 4 * j + 4 \<le> a + 4 * i"
  using pages_apart [OF assms(1-3)] assms(4,5) by linarith

lemma pte_pde_apart:
  assumes "pgdir mod 4096 = 0" "unat (PTE_ADDR e) \<noteq> pgdir"
  shows "pte_addr e va + 4 \<le> pde_addr pgdir va' \<or> pde_addr pgdir va' + 4 \<le> pte_addr e va"
  unfolding pte_addr_def pde_addr_def
  using entries_apart [OF PTE_ADDR_aligned assms(1,2)] index_bounds by blast

text \<open>The walk that creates a missing page table.\<close>

definition new_pde :: "nat \<Rightarrow> u32" where
  "new_pde p = page2pa p OR (PTE_P OR PTE_W OR PTE_U)"

lemma new_pde_addr: "PTE_ADDR (new_pde p) = page2pa p" "new_pde p \<noteq> 0"
proof -
  have "(PTE_W OR PTE_U) AND NOT 0xFFF = 0" by (simp add: PTE_W_def PTE_U_def)
  then have "PTE_ADDR (page2pa p OR (PTE_W OR PTE_U) OR PTE_P) = page2pa p" by (rule PTE_ADDR_low)
  moreover have "page2pa p OR (PTE_W OR PTE_U) OR PTE_P = new_pde p"
    unfolding new_pde_def by (simp add: ac_simps)
  ultimately show "PTE_ADDR (new_pde p) = page2pa p" by metis
  have "bit (new_pde p) 0" by (simp add: new_pde_def bit_simps PTE_P_def bit_1_iff)
  then show "new_pde p \<noteq> 0" by auto
qed

lemma page2pa_low: "page2pa p AND NOT 0xFFF = page2pa p"
  unfolding page2pa_def mask_consts by (rule bit_word_eqI) (auto simp: bit_simps)

lemma page2pa_low': "page2pa p AND - 4096 = page2pa p"
  using page2pa_low [of p] by simp

lemma walk_create:
  assumes ok: "dir_ok s pgdir" and z: "pde_of s pgdir va = 0" and h: "page_free_list s = Some p"
  defines "a \<equiv> pte_addr (new_pde p) va"
  shows "\<exists>s'. pgdir_walk pgdir va True s = (Some a, s') \<and> pde_of s' pgdir va = new_pde p
     \<and> get32 (pmem s') a = 0 \<and> npages s' = npages s \<and> page_free_list s' = pp_link s p
     \<and> pp_ref s' = (pp_ref s)(p := pp_ref s p + 1) \<and> pp_link s' = (pp_link s)(p := None)"
proof -
  let ?d = "pde_addr pgdir va"
  let ?m0 = "zero_page p (pmem s)"
  have p: "p < 1048576" "p * 4096 \<noteq> pgdir" "pgdir mod 4096 = 0" using ok h by (auto simp: dir_ok_def)
  then have pg: "unat (page2pa p) = p * 4096" by (simp add: page2pa_nat)
  have ap: "pte_addr (new_pde p) v + 4 \<le> ?d \<or> ?d + 4 \<le> pte_addr (new_pde p) v" for v
    using pte_pde_apart [OF p(3)] p(2) pg new_pde_addr(1) [of p] by simp
  have out: "?d + 4 \<le> unat (page2pa p) \<or> unat (page2pa p) + 4096 \<le> ?d"
    using pages_apart [of pgdir "p * 4096", OF p(3) _ p(2) [symmetric]] pg index_bounds(1) [of va]
    unfolding pde_addr_def by (simp, linarith)
  have d0: "get32 ?m0 ?d = 0"
    using z get32_cong [of ?m0 ?d "pmem s"] out by (auto simp: pde_of_def zero_page_def set_bytes_outside)
  have a0: "get32 ?m0 a = 0"
  proof -
    have "get32 ?m0 a = get32 (\<lambda>_. 0) a"
    proof (rule get32_cong)
      fix i :: nat
      assume "i < 4"
      then have "a + i = unat (page2pa p) + (4 * unat (PTX va) + i)" "4 * unat (PTX va) + i < 4096"
        using index_bounds(2) [of va] new_pde_addr(1) [of p] by (auto simp: a_def pte_addr_def)
      then show "?m0 (a + i) = 0" using zero_page_get [of "4 * unat (PTX va) + i" p "pmem s"] by (simp add: add.assoc)
    qed
    then show ?thesis by (simp add: get32_def get16_def)
  qed
  let ?m1 = "set32 ?d (page2pa p) ?m0"
  let ?s = "s\<lparr>page_free_list := pp_link s p, pp_link := (pp_link s)(p := None),
      pmem := set32 ?d (new_pde p) ?m1, pp_ref := (pp_ref s)(p := pp_ref s p + 1)\<rparr>"
  have "pgdir_walk pgdir va True s = (Some a, ?s)"
    using z h d0 by (simp add: pgdir_walk_def page_alloc_def ALLOC_ZERO_def Let_def pde_of_def get32_set32_same
        page2pa_low' new_pde_def a_def)
  moreover have "get32 (pmem ?s) a = 0" using a0 ap [of va] by (auto simp: a_def get32_set32_other)
  ultimately show ?thesis by (simp add: pde_of_def get32_set32_same)
qed

section \<open>Inserting and looking up\<close>

lemma page_lookup_found:
  assumes "pde_of s pgdir va \<noteq> 0"
  shows "page_lookup pgdir va s =
    (Some (pa2page (PTE_ADDR (get32 (pmem s) (pte_addr (pde_of s pgdir va) va))), pte_addr (pde_of s pgdir va) va), s)"
  using assms by (simp add: page_lookup_def pgdir_walk_def Let_def pde_of_def)

lemma page_decref_fields:
  assumes "page_decref pp s = Some s'"
  shows "pmem s' = pmem s" "npages s' = npages s" "pp_ref s' = (pp_ref s)(pp := pp_ref s pp - 1)"
    "cur_pgdir s' = cur_pgdir s"
  using assms by (auto simp: page_decref_def page_free_def Let_def split: if_splits)

lemma tlb_invalidate_fields [simp]:
  "pmem (tlb_invalidate d va s) = pmem s" "npages (tlb_invalidate d va s) = npages s"
  "pp_ref (tlb_invalidate d va s) = pp_ref s" "pp_link (tlb_invalidate d va s) = pp_link s"
  "page_free_list (tlb_invalidate d va s) = page_free_list s" "cur_pgdir (tlb_invalidate d va s) = cur_pgdir s"
  by (simp_all add: tlb_invalidate_def)

text \<open>Writing an entry of the page table of \<open>va\<close> does not change the directory entry.\<close>

lemma pde_of_set_pte:
  assumes "dir_ok s pgdir" "pde_of s pgdir va \<noteq> 0" "s' = s\<lparr>pmem := set32 (pte_addr (pde_of s pgdir va) va) e m\<rparr>"
    "m = pmem s"
  shows "pde_of s' pgdir va' = pde_of s pgdir va'"
proof -
  have "pgdir mod 4096 = 0" "unat (PTE_ADDR (pde_of s pgdir va)) \<noteq> pgdir" using assms(1,2) by (auto simp: dir_ok_def)
  from pte_pde_apart [OF this, of va va'] show ?thesis
    unfolding assms(3,4) by (simp add: pde_of_def get32_set32_other)
qed

lemma page_decref_ok:
  assumes "pp < npages s" "pp_link s pp = None"
  shows "\<exists>s'. page_decref pp s = Some s'"
  using assms by (auto simp: page_decref_def page_free_def Let_def)

text \<open>The insertion itself, once the page table is there.\<close>

lemma page_insert_present:
  assumes ok: "pgdir mod 4096 = 0" "unat (PTE_ADDR (pde_of s pgdir va)) \<noteq> pgdir" and pde: "pde_of s pgdir va \<noteq> 0"
    and walk: "pgdir_walk pgdir va True s0 = (Some (pte_addr (pde_of s pgdir va) va), s)"
    and pp: "pp < npages s" "npages s \<le> 1048576" and perm: "perm AND NOT 0xFFF = 0"
    and old: "PTE_ADDR (get32 (pmem s) (pte_addr (pde_of s pgdir va) va)) \<noteq> 0 \<longrightarrow>
      pa2page (get32 (pmem s) (pte_addr (pde_of s pgdir va) va)) < npages s
      \<and> pp_link s (pa2page (get32 (pmem s) (pte_addr (pde_of s pgdir va) va))) = None"
  defines "a \<equiv> pte_addr (pde_of s pgdir va) va"
  defines "o1 \<equiv> pa2page (get32 (pmem s) a)"
  shows "\<exists>s'. page_insert pgdir pp va perm s0 = Some (0, s')
     \<and> get32 (pmem s') a = page2pa pp OR perm OR PTE_P
     \<and> page_lookup pgdir va s' = (Some (pp, a), s')
     \<and> pp_ref s' = (if PTE_ADDR (get32 (pmem s) a) \<noteq> 0
          then (pp_ref s)(pp := pp_ref s pp + 1, o1 := ((pp_ref s)(pp := pp_ref s pp + 1)) o1 - 1)
          else (pp_ref s)(pp := pp_ref s pp + 1))"
proof -
  let ?s1 = "s\<lparr>pp_ref := (pp_ref s)(pp := pp_ref s pp + 1)\<rparr>"
  let ?e = "page2pa pp OR perm OR PTE_P"
  note ap = pte_pde_apart [OF ok, of va va, folded a_def]
  have "\<exists>s2. (if PTE_ADDR (get32 (pmem s) a) \<noteq> 0 then do { s \<leftarrow> page_remove pgdir va ?s1; Some (tlb_invalidate pgdir va s) }
         else Some ?s1) = Some s2 \<and> (pmem s2 = pmem s \<or> pmem s2 = set32 a 0 (pmem s))
       \<and> pp_ref s2 = (if PTE_ADDR (get32 (pmem s) a) \<noteq> 0
          then (pp_ref s)(pp := pp_ref s pp + 1, o1 := ((pp_ref s)(pp := pp_ref s pp + 1)) o1 - 1)
          else (pp_ref s)(pp := pp_ref s pp + 1))"
  proof (cases "PTE_ADDR (get32 (pmem s) a) = 0")
    case False
    then have o: "o1 < npages ?s1" "pp_link ?s1 o1 = None" using old by (auto simp: a_def o1_def)
    from page_decref_ok [OF o] obtain s2 where s2: "page_decref o1 ?s1 = Some s2" by blast
    have "pde_of ?s1 pgdir va = pde_of s pgdir va" by (simp add: pde_of_def)
    with pde page_lookup_found [of ?s1 pgdir va] have l: "page_lookup pgdir va ?s1 = (Some (o1, a), ?s1)"
      by (simp add: a_def o1_def pa2page_addr)
    show ?thesis using False s2 page_decref_fields [OF s2] by (simp add: page_remove_def l)
  qed auto
  then obtain s2 where s2: "(if PTE_ADDR (get32 (pmem s) a) \<noteq> 0 then do { s \<leftarrow> page_remove pgdir va ?s1; Some (tlb_invalidate pgdir va s) }
         else Some ?s1) = Some s2" "pmem s2 = pmem s \<or> pmem s2 = set32 a 0 (pmem s)"
    "pp_ref s2 = (if PTE_ADDR (get32 (pmem s) a) \<noteq> 0
          then (pp_ref s)(pp := pp_ref s pp + 1, o1 := ((pp_ref s)(pp := pp_ref s pp + 1)) o1 - 1)
          else (pp_ref s)(pp := pp_ref s pp + 1))" by blast
  let ?s3 = "s2\<lparr>pmem := set32 a ?e (pmem s2)\<rparr>"
  have ins: "page_insert pgdir pp va perm s0 = Some (0, ?s3)"
    using pp s2(1) by (simp add: page_insert_def walk a_def [symmetric] Let_def)
  have d: "pde_of ?s3 pgdir va = pde_of s pgdir va"
    using ap s2(2) by (auto simp: pde_of_def get32_set32_other)
  have "page_lookup pgdir va ?s3 = (Some (pp, a), ?s3)"
    using page_lookup_found [of ?s3 pgdir va] pde pp perm
    by (simp add: d a_def [symmetric] get32_set32_same PTE_ADDR_low pa2page_page2pa)
  with ins s2(3) show ?thesis by (auto simp: get32_set32_same)
qed

section \<open>Properties\<close>

text \<open>
  The physical page allocator is a stack of free pages.  \<open>page_alloc\<close> hands out the top page,
  zero-filled on request, without touching any reference count, and returns NULL exactly when no
  page is free; \<open>page_free\<close> of an unreferenced page that is not on the list puts it on top.
\<close>

theorem page_alloc_free:
  assumes "free_pages s xs"
  shows "(case xs of [] \<Rightarrow> page_alloc f s = (None, s)
      | x # ys \<Rightarrow> \<exists>s'. page_alloc f s = (Some x, s') \<and> free_pages s' ys \<and> pp_ref s' = pp_ref s
          \<and> (f AND ALLOC_ZERO \<noteq> 0 \<longrightarrow> (\<forall>j<4096. pmem s' (unat (page2pa x) + j) = 0)))
    \<and> (\<forall>p. p < npages s \<and> pp_ref s p = 0 \<and> pp_link s p = None \<and> p \<notin> set xs \<longrightarrow>
        (\<exists>s'. page_free p s = Some s' \<and> free_pages s' (p # xs)))"
proof
  show "case xs of [] \<Rightarrow> page_alloc f s = (None, s)
      | x # ys \<Rightarrow> \<exists>s'. page_alloc f s = (Some x, s') \<and> free_pages s' ys \<and> pp_ref s' = pp_ref s
          \<and> (f AND ALLOC_ZERO \<noteq> 0 \<longrightarrow> (\<forall>j<4096. pmem s' (unat (page2pa x) + j) = 0))"
  proof (cases xs)
    case Nil
    then show ?thesis using pgs.pop_holds [of s xs f] assms by (simp add: free_pages_holds)
  next
    case (Cons x ys)
    then obtain s' where s': "page_alloc f s = (Some x, s')" "free_pages s' ys"
      using pgs.pop_holds [of s xs f] assms by (auto simp: free_pages_holds)
    then have "page_free_list s = Some x" by (auto simp: page_alloc_def Let_def split: option.splits)
    with s' have "f AND ALLOC_ZERO \<noteq> 0 \<longrightarrow> (\<forall>j<4096. pmem s' (unat (page2pa x) + j) = 0)"
      by (auto simp: page_alloc_def Let_def zero_page_get)
    with s' page_alloc_fields(1) [of f s] Cons show ?thesis by simp
  qed
  show "\<forall>p. p < npages s \<and> pp_ref s p = 0 \<and> pp_link s p = None \<and> p \<notin> set xs \<longrightarrow>
        (\<exists>s'. page_free p s = Some s' \<and> free_pages s' (p # xs))"
    using pgs.push_holds [of s xs] assms by (auto simp: free_pages_holds)
qed

definition vm_small :: vm where
  "vm_small = \<lparr>npages = 16, npages_basemem = 8, pp_ref = (\<lambda>_. 0), pp_link = [2 \<mapsto> 3], page_free_list = Some 2,
     pmem = (\<lambda>_. 1), kern_pgdir = 4096, nextfree = 0, kernel_end = 0, mmio_base = MMIOBASE,
     cur_pgdir = None, tlb_flushed = []\<rparr>"

lemma vm_small_free: "free_pages vm_small [2, 3]"
  by (simp add: free_pages_def vm_small_def)

theorem page_alloc_free_witness:
  "\<exists>s'. page_alloc 1 vm_small = (Some 2, s') \<and> free_pages s' [3] \<and> pmem s' 8192 = 0
    \<and> (\<exists>s''. page_free 5 vm_small = Some s'' \<and> free_pages s'' [5, 2, 3])"
proof -
  have f: "5 < npages vm_small \<and> pp_ref vm_small 5 = 0 \<and> pp_link vm_small 5 = None" by (simp add: vm_small_def)
  obtain s' where "page_alloc 1 vm_small = (Some 2, s')" "free_pages s' [3]"
    "\<forall>j<4096. pmem s' (unat (page2pa 2) + j) = 0" "\<exists>s''. page_free 5 vm_small = Some s'' \<and> free_pages s'' [5, 2, 3]"
    using page_alloc_free [OF vm_small_free, of 1] f by (auto simp: ALLOC_ZERO_def)
  moreover from this(3) have "pmem s' 8192 = 0" using page2pa_nat [of 2] by (auto dest: spec [of _ 0])
  ultimately show ?thesis by blast
qed

text \<open>
  After \<open>page_init\<close> the free list holds exactly the usable pages in increasing order, each with
  no reference: the pages of base memory except page 0 and the page \<open>PGNUM(npages_basemem)\<close>, and
  the pages above the I/O hole that lie past the kernel's boot allocations.
\<close>

theorem page_init_free_list:
  assumes "page_free_list s = None"
  shows "free_pages (page_init s) (filter (usable s) [1..<npages s])
    \<and> (\<forall>x\<in>set (filter (usable s) [1..<npages s]). pp_ref (page_init s) x = 0)"
proof (cases "npages s")
  case 0
  then show ?thesis using assms by (simp add: page_init_def free_pages_def)
next
  case (Suc n)
  have "free_pages s []" using assms by (simp add: free_pages_def)
  from page_init_loop_list [OF this, of n] Suc show ?thesis by (simp add: page_init_def)
qed

theorem page_init_free_list_witness:
  "free_pages (page_init (vm_small\<lparr>page_free_list := None, npages := 6\<rparr>)) [1, 2, 3, 4, 5]"
proof -
  let ?s = "vm_small\<lparr>page_free_list := None, npages := 6\<rparr>"
  have "filter (usable ?s) [1..<npages ?s] = [1, 2, 3, 4, 5]"
    by (simp add: usable_def vm_small_def upt_rec unat_PGNUM)
  with page_init_free_list [of ?s] show ?thesis by simp
qed

text \<open>
  \<open>page_insert\<close> and \<open>page_lookup\<close>.  Without a page table and without a free page the insertion
  reports \<open>-E_NO_MEM\<close> and changes nothing.  Otherwise it returns 0, the entry holds the page's
  address with the permissions and \<open>PTE_P\<close>, and \<open>page_lookup\<close> finds the page at that address.
\<close>

theorem page_insert_lookup:
  assumes "dir_ok s pgdir" "pp < npages s" "perm AND NOT 0xFFF = 0"
    and "pde_of s pgdir va \<noteq> 0 \<and> PTE_ADDR (get32 (pmem s) (pte_addr (pde_of s pgdir va) va)) \<noteq> 0 \<longrightarrow>
      pa2page (get32 (pmem s) (pte_addr (pde_of s pgdir va) va)) < npages s
      \<and> pp_link s (pa2page (get32 (pmem s) (pte_addr (pde_of s pgdir va) va))) = None"
  shows "if pde_of s pgdir va = 0 \<and> page_free_list s = None
    then page_insert pgdir pp va perm s = Some (- E_NO_MEM, s)
    else \<exists>s' a. page_insert pgdir pp va perm s = Some (0, s')
      \<and> get32 (pmem s') a = page2pa pp OR perm OR PTE_P \<and> page_lookup pgdir va s' = (Some (pp, a), s')"
proof (cases "pde_of s pgdir va = 0")
  case False
  have walk: "pgdir_walk pgdir va True s = (Some (pte_addr (pde_of s pgdir va) va), s)"
    using False by (simp add: pgdir_walk_def pde_of_def Let_def)
  have d: "pgdir mod 4096 = 0" "unat (PTE_ADDR (pde_of s pgdir va)) \<noteq> pgdir" "npages s \<le> 1048576"
    using assms(1) False by (auto simp: dir_ok_def)
  from page_insert_present [OF d(1,2) False walk assms(2) d(3) assms(3)] assms(4) False show ?thesis by auto
next
  case True
  show ?thesis
  proof (cases "page_free_list s")
    case None
    then have "pgdir_walk pgdir va True s = (None, s)"
      using True by (simp add: pgdir_walk_def pde_of_def page_alloc_def Let_def)
    then show ?thesis using True None by (simp add: page_insert_def)
  next
    case (Some p)
    obtain s1 where s1: "pgdir_walk pgdir va True s = (Some (pte_addr (new_pde p) va), s1)"
      "pde_of s1 pgdir va = new_pde p" "get32 (pmem s1) (pte_addr (new_pde p) va) = 0" "npages s1 = npages s"
      using walk_create [OF assms(1) True Some] by blast
    have d: "pgdir mod 4096 = 0" "unat (PTE_ADDR (pde_of s1 pgdir va)) \<noteq> pgdir" "npages s1 \<le> 1048576"
      using assms(1) Some s1 new_pde_addr(1) [of p] by (auto simp: dir_ok_def page2pa_nat)
    have nz: "pde_of s1 pgdir va \<noteq> 0" using s1(2) new_pde_addr(2) by simp
    have walk: "pgdir_walk pgdir va True s = (Some (pte_addr (pde_of s1 pgdir va) va), s1)" using s1 by simp
    have z: "PTE_ADDR (get32 (pmem s1) (pte_addr (pde_of s1 pgdir va) va)) = 0" using s1 by (simp add: PTE_ADDR_def)
    have "\<exists>s'. page_insert pgdir pp va perm s = Some (0, s')
        \<and> get32 (pmem s') (pte_addr (pde_of s1 pgdir va) va) = page2pa pp OR perm OR PTE_P
        \<and> page_lookup pgdir va s' = (Some (pp, pte_addr (pde_of s1 pgdir va) va), s')"
      using page_insert_present [OF d(1,2) nz walk _ d(3) assms(3), of pp] assms(2) s1(4) z by auto
    then show ?thesis using True Some by auto
  qed
qed

definition vm_dir :: vm where
  "vm_dir = vm_small\<lparr>pmem := (\<lambda>_. 0)\<rparr>"

lemma vm_dir_ok: "dir_ok vm_dir 4096" "pde_of vm_dir d va = 0" "pp_link vm_dir 2 = Some 3"
  by (simp_all add: dir_ok_def vm_dir_def vm_small_def pde_of_def get32_def get16_def)

theorem page_insert_lookup_witness:
  "\<exists>s' a. page_insert 4096 7 0x800000 PTE_U vm_dir = Some (0, s')
    \<and> get32 (pmem s') a = page2pa 7 OR PTE_U OR PTE_P \<and> page_lookup 4096 0x800000 s' = (Some (7, a), s')"
proof -
  have "7 < npages vm_dir" "PTE_U AND NOT 0xFFF = 0" "page_free_list vm_dir \<noteq> None"
    by (simp_all add: vm_dir_def vm_small_def PTE_U_def)
  with page_insert_lookup [OF vm_dir_ok(1), of 7 PTE_U "0x800000"] show ?thesis by (simp add: vm_dir_ok(2))
qed

text \<open>
  \<open>page_remove\<close> on an address with a page table clears the entry, drops one reference of the
  page, puts the page on the free list exactly when this was the last one, and invalidates the TLB
  entry if the directory is the current one.
\<close>

theorem page_remove_unmaps:
  assumes "dir_ok s pgdir" "pde_of s pgdir va \<noteq> 0" "a = pte_addr (pde_of s pgdir va) va"
    "pp = pa2page (get32 (pmem s) a)" "pp < npages s" "pp_link s pp = None" "free_pages s xs" "pp \<notin> set xs"
  shows "\<exists>s'. page_remove pgdir va s = Some s' \<and> get32 (pmem s') a = 0
     \<and> pp_ref s' = (pp_ref s)(pp := pp_ref s pp - 1)
     \<and> free_pages s' (if pp_ref s pp = 1 then pp # xs else xs)
     \<and> tlb_flushed s' = (if cur_pgdir s = None \<or> cur_pgdir s = Some pgdir then [va] else []) @ tlb_flushed s"
proof -
  let ?s1 = "s\<lparr>pp_ref := (pp_ref s)(pp := pp_ref s pp - 1)\<rparr>"
  have l: "page_lookup pgdir va s = (Some (pp, a), s)"
    using page_lookup_found [OF assms(2)] assms(3,4) by (simp add: pa2page_addr)
  have one: "pp_ref s pp - 1 = 0 \<longleftrightarrow> pp_ref s pp = 1" by simp
  have "\<exists>s2. page_decref pp s = Some s2 \<and> pp_ref s2 = (pp_ref s)(pp := pp_ref s pp - 1)
      \<and> free_pages s2 (if pp_ref s pp = 1 then pp # xs else xs)
      \<and> cur_pgdir s2 = cur_pgdir s \<and> tlb_flushed s2 = tlb_flushed s"
  proof (cases "pp_ref s pp = 1")
    case True
    have "free_pages ?s1 xs" using assms(7) by (simp add: free_pages_def)
    then obtain s2 where s2: "page_free pp ?s1 = Some s2" "free_pages s2 (pp # xs)"
      using pgs.push_holds [of ?s1 xs pp] assms(5,6,8) True by (auto simp: free_pages_holds)
    moreover have "pp_ref s2 = pp_ref ?s1 \<and> cur_pgdir s2 = cur_pgdir s \<and> tlb_flushed s2 = tlb_flushed s"
      using s2(1) by (auto simp: page_free_def split: if_splits)
    ultimately show ?thesis using True assms(5) by (auto simp: page_decref_def Let_def)
  next
    case False
    then show ?thesis using assms(5,7) one by (auto simp: page_decref_def Let_def free_pages_def)
  qed
  then obtain s2 where s2: "page_decref pp s = Some s2" "pp_ref s2 = (pp_ref s)(pp := pp_ref s pp - 1)"
    "free_pages s2 (if pp_ref s pp = 1 then pp # xs else xs)" "cur_pgdir s2 = cur_pgdir s" "tlb_flushed s2 = tlb_flushed s"
    by blast
  then show ?thesis
    by (simp add: page_remove_def l get32_set32_same) (auto simp: tlb_invalidate_def free_pages_def split: if_splits)
qed

theorem page_remove_unmaps_witness:
  "\<exists>s' a. page_remove 4096 0x800000 (vm_dir\<lparr>pmem := set32 4104 (page2pa 9 OR 7) (set32 36864 0x5007 (\<lambda>_. 0)),
       pp_ref := (\<lambda>_. 1)\<rparr>) = Some s' \<and> get32 (pmem s') a = 0 \<and> free_pages s' [5, 2, 3]"
proof -
  let ?s = "vm_dir\<lparr>pmem := set32 4104 (page2pa 9 OR 7) (set32 36864 0x5007 (\<lambda>_. 0)), pp_ref := (\<lambda>_. 1)\<rparr>"
  have e: "page2pa 9 OR 7 = (0x9007 :: u32)" by (simp add: page2pa_def)
  have idx: "unat (PDX 0x800000) = 2" "unat (PTX 0x800000) = 0" by (simp_all add: unat_PDX unat_PTX)
  have pde: "pde_of ?s 4096 0x800000 = 0x9007" by (simp add: pde_of_def pde_addr_def idx e get32_set32_same)
  have a: "pte_addr 0x9007 0x800000 = 36864" by (simp add: pte_addr_def idx PTE_ADDR_def)
  have g: "get32 (pmem ?s) 36864 = 0x5007" by (simp add: get32_set32_same get32_set32_other)
  have z: "unat (PTE_ADDR (pde_of ?s 4096 v)) \<noteq> 4096" for v
  proof (cases "unat (PDX v) = 2")
    case True
    then show ?thesis by (simp add: pde_of_def pde_addr_def e get32_set32_same PTE_ADDR_def)
  next
    case False
    then have "get32 (pmem ?s) (pde_addr 4096 v) = get32 (\<lambda>_. 0) (pde_addr 4096 v)"
      using index_bounds(1) [of v]
      by (intro get32_cong; cases "unat (PDX v) < 2") (simp_all add: pde_addr_def set32_other)
    then show ?thesis by (simp add: pde_of_def PTE_ADDR_def get32_def get16_def)
  qed
  have ok: "dir_ok ?s 4096" using z by (simp add: dir_ok_def vm_dir_def vm_small_def)
  have "free_pages ?s [2, 3]" using vm_small_free by (simp add: free_pages_def vm_dir_def)
  moreover have "pa2page 0x5007 = 5" by (simp add: pa2page_def unat_PGNUM)
  moreover have "5 < npages ?s" "pp_link ?s 5 = None" "pp_ref ?s 5 = 1" by (simp_all add: vm_dir_def vm_small_def)
  ultimately have "\<exists>s'. page_remove 4096 0x800000 ?s = Some s' \<and> get32 (pmem s') 36864 = 0 \<and> free_pages s' [5, 2, 3]"
    using page_remove_unmaps [OF ok, of "0x800000" 36864 5 "[2, 3]"] pde a g by auto
  then show ?thesis by blast
qed

text \<open>
  On an address whose page table exists but whose entry is empty, \<open>page_lookup\<close> does not report
  that nothing is mapped: it returns page 0, and \<open>page_remove\<close> drops a reference of page 0.  The
  comments of both functions promise NULL and doing nothing.
\<close>

theorem page_lookup_empty_entry:
  assumes "pde_of s pgdir va \<noteq> 0" "get32 (pmem s) (pte_addr (pde_of s pgdir va) va) = 0"
  shows "page_lookup pgdir va s = (Some (0, pte_addr (pde_of s pgdir va) va), s)
    \<and> (\<forall>s'. page_remove pgdir va s = Some s' \<longrightarrow> pp_ref s' 0 = pp_ref s 0 - 1)"
proof -
  have l: "page_lookup pgdir va s = (Some (0, pte_addr (pde_of s pgdir va) va), s)"
    using page_lookup_found [OF assms(1)] assms(2) by (simp add: PTE_ADDR_def pa2page_def PGNUM_def)
  then show ?thesis by (auto simp: page_remove_def bind_Some_iff dest: page_decref_fields(3))
qed

theorem page_lookup_empty_entry_witness:
  "page_lookup 4096 0x800000 (vm_dir\<lparr>pmem := set32 4104 0x9007 (\<lambda>_. 0)\<rparr>)
     = (Some (0, 36864), vm_dir\<lparr>pmem := set32 4104 0x9007 (\<lambda>_. 0)\<rparr>)"
proof -
  let ?s = "vm_dir\<lparr>pmem := set32 4104 0x9007 (\<lambda>_. 0)\<rparr>"
  have idx: "unat (PDX 0x800000) = 2" "unat (PTX 0x800000) = 0" by (simp_all add: unat_PDX unat_PTX)
  have pde: "pde_of ?s 4096 0x800000 = 0x9007" by (simp add: pde_of_def pde_addr_def idx get32_set32_same)
  have a: "pte_addr 0x9007 0x800000 = 36864" by (simp add: pte_addr_def idx PTE_ADDR_def)
  have "get32 (pmem ?s) 36864 = 0" by (simp add: get32_set32_other) (simp add: get32_def get16_def)
  with page_lookup_empty_entry [of ?s 4096 "0x800000"] pde a show ?thesis by simp
qed

end
