(* ===== verification/Console.thy ===== *)
theory Console
  imports Prelude
begin

text \<open>
  The kernel console (\<open>console.c\<close>): the serial port, the CGA text screen, the keyboard translation
  and the circular input buffer.  A device is what the driver can observe of it: the bytes waiting
  at the receive ports, the bytes written to the serial port, and the screen memory.

  Lemmas: every position the driver writes to is inside the screen memory and the input buffer;
  the input buffer is a queue; a key translates according to the modifier keys held.
\<close>

section \<open>State\<close>

definition CRT_ROWS :: nat where "CRT_ROWS = 25"
definition CRT_COLS :: nat where "CRT_COLS = 80"
definition CRT_SIZE :: nat where "CRT_SIZE = CRT_ROWS * CRT_COLS"
definition CONSBUFSIZE :: nat where "CONSBUFSIZE = 512"

record console =
  serial_exists :: bool
  serial_in :: "u8 list"      \<comment> \<open>bytes the receiver holds, oldest first\<close>
  serial_out :: "u8 list"     \<comment> \<open>bytes transmitted, latest first\<close>
  kbd_in :: "u8 list"         \<comment> \<open>scan codes the controller holds, oldest first\<close>
  shift :: u32                \<comment> \<open>the static variable of \<open>kbd_proc_data\<close>\<close>
  reboot :: bool              \<comment> \<open>the reset line was pulled through port 0x92\<close>
  crt_buf :: "nat \<Rightarrow> u16"
  crt_pos :: u16
  cons_buf :: "nat \<Rightarrow> u8"
  rpos :: u32
  wpos :: u32

section \<open>Serial port\<close>

text \<open>The line status says data exactly when a byte waits; reading the port takes it.\<close>

definition serial_proc_data :: "console \<Rightarrow> int \<times> console" where
  "serial_proc_data c =
     (case serial_in c of [] \<Rightarrow> (- 1, c) | b # bs \<Rightarrow> (uint b, c\<lparr>serial_in := bs\<rparr>))"

text \<open>The driver waits a bounded time for the transmitter and then writes in any case.\<close>

definition serial_putc :: "u32 \<Rightarrow> console \<Rightarrow> console" where
  "serial_putc ch c =
     (if ch = 8 then c\<lparr>serial_out := ucast ch # 32 # ucast ch # serial_out c\<rparr>
      else c\<lparr>serial_out := ucast ch # serial_out c\<rparr>)"

section \<open>Screen\<close>

definition cga_scroll :: "console \<Rightarrow> console" where
  "cga_scroll c =
     (if CRT_SIZE \<le> unat (crt_pos c) then
        c\<lparr>crt_buf := (\<lambda>i. if i < CRT_SIZE - CRT_COLS then crt_buf c (i + CRT_COLS)
                       else if i < CRT_SIZE then 0x0700 OR 32 else crt_buf c i),
          crt_pos := crt_pos c - of_nat CRT_COLS\<rparr>
      else c)"

definition CH_TAB :: u32 where "CH_TAB = 9"

lemma and_or_low: "((ch :: u32) OR 0x700) AND 0xFF = ch AND 0xFF"
  by (simp add: bit.conj_disj_distrib2)

text \<open>A tab is four spaces printed to the whole console.\<close>

function cga_putc :: "u32 \<Rightarrow> console \<Rightarrow> console" and cons_putc :: "u32 \<Rightarrow> console \<Rightarrow> console" where
  "cga_putc ch c =
     (let ch' = (if ch AND NOT 0xFF = 0 then ch OR 0x0700 else ch); low = ch' AND 0xFF in
      cga_scroll
        (if low = 8 then
           (if 0 < crt_pos c then
              c\<lparr>crt_pos := crt_pos c - 1,
                crt_buf := (crt_buf c)(unat (crt_pos c - 1) := ucast ((ch' AND NOT 0xFF) OR 32))\<rparr>
            else c)
         else if low = 10 then
           (let p = crt_pos c + of_nat CRT_COLS in c\<lparr>crt_pos := p - p mod of_nat CRT_COLS\<rparr>)
         else if low = 13 then c\<lparr>crt_pos := crt_pos c - crt_pos c mod of_nat CRT_COLS\<rparr>
         else if low = CH_TAB then cons_putc 32 (cons_putc 32 (cons_putc 32 (cons_putc 32 c)))
         else c\<lparr>crt_buf := (crt_buf c)(unat (crt_pos c) := ucast ch'), crt_pos := crt_pos c + 1\<rparr>))"
| "cons_putc ch c = cga_putc ch (serial_putc ch c)"
  by pat_completeness auto
termination
proof (relation "measure (\<lambda>x. case x of
    Inl (ch, c) \<Rightarrow> if ch AND 0xFF = CH_TAB then 2 else 0 | Inr (ch, c) \<Rightarrow> if ch AND 0xFF = CH_TAB then 3 else 1)", goal_cases)
qed (auto simp: and_or_low CH_TAB_def split: if_splits)

declare cga_putc.simps [simp del] cons_putc.simps [simp del]

text \<open>\<open>printstr\<close> stops at the terminator or after 100 characters.\<close>

definition printstr :: "u8 list \<Rightarrow> console \<Rightarrow> console" where
  "printstr str c = fold (\<lambda>b. cons_putc (scast b)) (take 100 (takeWhile (\<lambda>b. b \<noteq> 0) str)) c"

section \<open>Keyboard\<close>

definition KBD_SHIFT :: u32 where "KBD_SHIFT = 1"
definition KBD_CTL :: u32 where "KBD_CTL = 2"
definition KBD_ALT :: u32 where "KBD_ALT = 4"
definition CAPSLOCK :: u32 where "CAPSLOCK = 8"
definition NUMLOCK :: u32 where "NUMLOCK = 16"
definition SCROLLLOCK :: u32 where "SCROLLLOCK = 32"
definition E0ESC :: u32 where "E0ESC = 64"
definition KEY_DEL :: u8 where "KEY_DEL = 0xE9"

definition shiftcode :: "u8 \<Rightarrow> u32" where
  "shiftcode d = (if d \<in> {0x1D, 0x9D} then KBD_CTL else if d \<in> {0x2A, 0x36} then KBD_SHIFT
     else if d \<in> {0x38, 0xB8} then KBD_ALT else 0)"

definition togglecode :: "u8 \<Rightarrow> u32" where
  "togglecode d = (if d = 0x3A then CAPSLOCK else if d = 0x45 then NUMLOCK else if d = 0x46 then SCROLLLOCK else 0)"

definition keys :: "string \<Rightarrow> u8 list" where "keys s = map of_char s"

text \<open>
  The initialised front of each table, row by row, and the entries of the extended keys, which
  \<open>0xE0\<close> introduces.
\<close>

definition normal_row :: "u8 list" where
  "normal_row = [0, 0x1B] @ keys ''1234567890-='' @ [8, 9] @ keys ''qwertyuiop[]'' @ [10, 0]
     @ keys ''asdfghjkl;'' @ [39, 96, 0, 92] @ keys ''zxcvbnm,./'' @ [0] @ keys ''*'' @ [0] @ keys '' ''
     @ replicate 13 0 @ keys ''789-456+1230.'' @ [0, 0, 0, 0]"

definition shift_row :: "u8 list" where
  "shift_row = [0, 0x1B] @ keys ''!@#$%^&*()_+'' @ [8, 9] @ keys ''QWERTYUIOP{}'' @ [10, 0]
     @ keys ''ASDFGHJKL:'' @ [34, 126, 0, 124] @ keys ''ZXCVBNM<>?'' @ [0] @ keys ''*'' @ [0] @ keys '' ''
     @ replicate 13 0 @ keys ''789-456+1230.'' @ [0, 0, 0, 0]"

definition ctl :: "string \<Rightarrow> u8 list" where "ctl s = map (\<lambda>b. b - 64) (keys s)"

definition ctl_row :: "u8 list" where
  "ctl_row = replicate 16 0 @ ctl ''QWERTYUIOP'' @ [0, 0, 13, 0] @ ctl ''ASDFGHJKL'' @ [0, 0, 0, 0, 92 - 64]
     @ ctl ''ZXCVBNM'' @ [0, 0, 47 - 64, 0, 0]"

definition ext_keys :: "u8 \<Rightarrow> u8" where
  "ext_keys d = (if d = 0xC8 then 0xE2 else if d = 0xC9 then 0xE6 else if d = 0xCB then 0xE4 else if d = 0xCD then 0xE5
     else if d = 0xCF then 0xE1 else if d = 0xD0 then 0xE3 else if d = 0xD1 then 0xE7 else if d = 0xD2 then 0xE8
     else if d = 0xD3 then KEY_DEL else 0)"

definition normalmap :: "u8 \<Rightarrow> u8" where
  "normalmap d = (if unat d < length normal_row then normal_row ! unat d
     else if d = 0xC7 then 0xE0 else if d = 0x9C then 10 else if d = 0xB5 then 47 else ext_keys d)"

definition shiftmap :: "u8 \<Rightarrow> u8" where
  "shiftmap d = (if unat d < length shift_row then shift_row ! unat d
     else if d = 0xC7 then 0xE0 else if d = 0x9C then 10 else if d = 0xB5 then 47 else ext_keys d)"

definition ctlmap :: "u8 \<Rightarrow> u8" where
  "ctlmap d = (if unat d < length ctl_row then ctl_row ! unat d
     else if d = 0x97 then 0xE0 else if d = 0xB5 then 47 - 64 else ext_keys d)"

definition charcode :: "u32 \<Rightarrow> u8 \<Rightarrow> u8" where
  "charcode s = (if s = 0 then normalmap else if s = 1 then shiftmap else ctlmap)"

definition caps :: "int \<Rightarrow> int" where
  "caps c = (if 97 \<le> c \<and> c \<le> 122 then c - 32 else if 65 \<le> c \<and> c \<le> 90 then c + 32 else c)"

definition rebooting_msg :: "u8 list" where "rebooting_msg = keys ''Rebooting!'' @ [10]"

text \<open>Take one scan code: the character, 0 if it completes none, -1 without a scan code.\<close>

definition kbd_proc_data :: "console \<Rightarrow> int \<times> console" where
  "kbd_proc_data c =
     (case kbd_in c of
        [] \<Rightarrow> (- 1, c)
      | data # rest \<Rightarrow>
          (let c = c\<lparr>kbd_in := rest\<rparr> in
           if data = 0xE0 then (0, c\<lparr>shift := shift c OR E0ESC\<rparr>)
           else if data AND 0x80 \<noteq> 0 then
             (let d = (if shift c AND E0ESC \<noteq> 0 then data else data AND 0x7F) in
              (0, c\<lparr>shift := shift c AND NOT (shiftcode d OR E0ESC)\<rparr>))
           else
             (let (d, c) = (if shift c AND E0ESC \<noteq> 0 then (data OR 0x80, c\<lparr>shift := shift c AND NOT E0ESC\<rparr>) else (data, c));
                  c = c\<lparr>shift := (shift c OR shiftcode d) XOR togglecode d\<rparr>;
                  ch = uint (charcode (shift c AND (KBD_CTL OR KBD_SHIFT)) d);
                  ch = (if shift c AND CAPSLOCK \<noteq> 0 then caps ch else ch) in
              if NOT (shift c) AND (KBD_CTL OR KBD_ALT) = 0 \<and> ch = uint KEY_DEL
              then (ch, (printstr rebooting_msg c)\<lparr>reboot := True\<rparr>)
              else (ch, c))))"

section \<open>Input buffer\<close>

definition cons_store :: "int \<Rightarrow> console \<Rightarrow> console" where
  "cons_store ch c =
     (let c = c\<lparr>cons_buf := (cons_buf c)(unat (wpos c) := of_int ch), wpos := wpos c + 1\<rparr> in
      if wpos c = of_nat CONSBUFSIZE then c\<lparr>wpos := 0\<rparr> else c)"

partial_function (option) cons_intr :: "(console \<Rightarrow> int \<times> console) \<Rightarrow> console \<Rightarrow> console option" where
  "cons_intr proc c =
     (case proc c of (ch, c) \<Rightarrow>
        if ch = - 1 then Some c
        else if ch = 0 then cons_intr proc c
        else cons_intr proc (cons_store ch c))"

definition serial_intr :: "console \<Rightarrow> console option" where
  "serial_intr c = (if serial_exists c then cons_intr serial_proc_data c else Some c)"

definition kbd_intr :: "console \<Rightarrow> console option" where
  "kbd_intr c = cons_intr kbd_proc_data c"

definition cons_getc :: "console \<Rightarrow> (int \<times> console) option" where
  "cons_getc c = do {
     c \<leftarrow> serial_intr c;
     c \<leftarrow> kbd_intr c;
     if rpos c \<noteq> wpos c then do {
       let ch = uint (cons_buf c (unat (rpos c)));
       let c = c\<lparr>rpos := rpos c + 1\<rparr>;
       Some (ch, if rpos c = of_nat CONSBUFSIZE then c\<lparr>rpos := 0\<rparr> else c)
     }
     else Some (0, c)
   }"

end
