(* ===== verification/Env.thy ===== *)
theory Env
  imports PmapProps Console
begin

text \<open>
  Environments and scheduling (\<open>env.c\<close>, \<open>env.h\<close>, \<open>sched.c\<close>, \<open>spinlock.c\<close>).  A \<open>struct Env *\<close> is
  the index of the environment in \<open>envs\<close>, NULL is \<open>None\<close>; \<open>env_pgdir\<close> is the physical address
  behind the kernel pointer.  The kernel state holds the memory state of \<open>pmap.c\<close>, the
  environments, \<open>curenv\<close>, the free list, the register \<open>cr3\<close>, the big kernel lock and the console.

  Functions that may leave the kernel return a \<open>kout\<close>: they return to their caller, enter user
  mode in an environment, halt the processor, stay in the monitor, spin on the lock, or panic.
  Using NULL as a pointer in the kernel is a kernel page fault, hence a panic.
\<close>

section \<open>Registers (trap.h)\<close>

record pushregs =
  reg_edi :: u32
  reg_esi :: u32
  reg_ebp :: u32
  reg_oesp :: u32
  reg_ebx :: u32
  reg_edx :: u32
  reg_ecx :: u32
  reg_eax :: u32

text \<open>The padding halves of the segment registers are left out.\<close>

record trapframe =
  tf_regs :: pushregs
  tf_es :: u16
  tf_ds :: u16
  tf_trapno :: u32
  tf_err :: u32
  tf_eip :: u32
  tf_cs :: u16
  tf_eflags :: u32
  tf_esp :: u32
  tf_ss :: u16

definition zero_regs :: pushregs where
  "zero_regs = \<lparr>reg_edi = 0, reg_esi = 0, reg_ebp = 0, reg_oesp = 0, reg_ebx = 0, reg_edx = 0, reg_ecx = 0, reg_eax = 0\<rparr>"

definition zero_tf :: trapframe where
  "zero_tf = \<lparr>tf_regs = zero_regs, tf_es = 0, tf_ds = 0, tf_trapno = 0, tf_err = 0, tf_eip = 0, tf_cs = 0,
     tf_eflags = 0, tf_esp = 0, tf_ss = 0\<rparr>"

definition GD_KT :: u16 where "GD_KT = 0x08"
definition GD_UT :: u16 where "GD_UT = 0x18"
definition GD_UD :: u16 where "GD_UD = 0x20"
definition FL_IF :: u32 where "FL_IF = 0x200"
definition FL_IOPL_MASK :: u32 where "FL_IOPL_MASK = 0x3000"

section \<open>Environments (env.h)\<close>

definition NENV :: nat where "NENV = 1024"
definition ENVGENSHIFT :: nat where "ENVGENSHIFT = 12"

definition ENVX :: "i32 \<Rightarrow> nat" where "ENVX envid = unat (envid AND 0x3FF)"

datatype env_status = ENV_FREE | ENV_DYING | ENV_RUNNABLE | ENV_RUNNING | ENV_NOT_RUNNABLE
datatype env_type = ENV_TYPE_USER | ENV_TYPE_FS

record env =
  env_tf :: trapframe
  env_link :: "nat option"
  env_id :: i32
  env_parent_id :: i32
  env_type :: env_type
  env_status :: env_status
  env_runs :: u32
  env_pgdir :: "nat option"
  env_pgfault_upcall :: u32
  env_ipc_recving :: bool
  env_ipc_dstva :: u32
  env_ipc_value :: u32
  env_ipc_from :: i32
  env_ipc_perm :: u32

record kern =
  kvm :: vm
  envs :: "nat \<Rightarrow> env"
  curenv :: "nat option"
  env_free_list :: "nat option"
  cr3 :: nat
  kernel_lock :: bool
  kcons :: console

datatype 'a kout = Ret 'a kern | Run nat kern | Halt kern | Monitor kern | Spin | Panic

fun kbind :: "'a kout \<Rightarrow> ('a \<Rightarrow> kern \<Rightarrow> 'b kout) \<Rightarrow> 'b kout" where
  "kbind (Ret x k) f = f x k"
| "kbind (Run e k) f = Run e k"
| "kbind (Halt k) f = Halt k"
| "kbind (Monitor k) f = Monitor k"
| "kbind Spin f = Spin"
| "kbind Panic f = Panic"

definition upd_env :: "nat \<Rightarrow> (env \<Rightarrow> env) \<Rightarrow> kern \<Rightarrow> kern" where
  "upd_env e f k = k\<lparr>envs := (envs k)(e := f (envs k e))\<rparr>"

text \<open>
  The memory state as \<open>pmap.c\<close> sees it: \<open>tlb_invalidate\<close> compares with the directory of
  \<open>curenv\<close>.  A NULL \<open>env_pgdir\<close> is the physical address \<open>PADDR(NULL)\<close>, which is above all of
  physical memory.
\<close>

definition PADDR_NULL :: nat where "PADDR_NULL = unat (0 - KERNBASE)"

definition vm_of :: "kern \<Rightarrow> vm" where
  "vm_of k = (kvm k)\<lparr>cur_pgdir := map_option (\<lambda>e. case env_pgdir (envs k e) of Some d \<Rightarrow> d | None \<Rightarrow> PADDR_NULL) (curenv k)\<rparr>"

definition put_vm :: "vm \<Rightarrow> kern \<Rightarrow> kern" where
  "put_vm v k = k\<lparr>kvm := v\<lparr>cur_pgdir := cur_pgdir (kvm k)\<rparr>\<rparr>"

section \<open>The processor's address translation\<close>

text \<open>
  A load or store of the kernel through the page tables at \<open>cr3\<close>.  The kernel runs with
  \<open>CR0_WP\<close> set, so a store needs a writable mapping.
\<close>

definition translate :: "nat \<Rightarrow> bool \<Rightarrow> u32 \<Rightarrow> bytemem \<Rightarrow> nat option" where
  "translate pgdir wr va m =
     (let pde = get32 m (pde_addr pgdir va); pte = get32 m (pte_addr pde va) in
      if pde AND PTE_P = 0 \<or> pte AND PTE_P = 0 then None
      else if wr \<and> (pde AND PTE_W = 0 \<or> pte AND PTE_W = 0) then None
      else Some (unat (PTE_ADDR pte) + unat (PGOFF va)))"

fun vstore :: "nat \<Rightarrow> u32 \<Rightarrow> u8 list \<Rightarrow> bytemem \<Rightarrow> bytemem option" where
  "vstore pgdir va [] m = Some m"
| "vstore pgdir va (b # bs) m = do {
     a \<leftarrow> translate pgdir True va m;
     vstore pgdir (va + 1) bs (m(a := b))
   }"

fun vload :: "nat \<Rightarrow> u32 \<Rightarrow> nat \<Rightarrow> bytemem \<Rightarrow> u8 list option" where
  "vload pgdir va 0 m = Some []"
| "vload pgdir va (Suc n) m = do {
     a \<leftarrow> translate pgdir False va m;
     bs \<leftarrow> vload pgdir (va + 1) n m;
     Some (m a # bs)
   }"

section \<open>The kernel lock (spinlock.c)\<close>

text \<open>On the one processor nobody else can release the lock: acquiring it twice spins for ever.\<close>

definition spin_lock :: "kern \<Rightarrow> unit kout" where
  "spin_lock k = (if kernel_lock k then Spin else Ret () (k\<lparr>kernel_lock := True\<rparr>))"

definition spin_unlock :: "kern \<Rightarrow> kern" where
  "spin_unlock k = k\<lparr>kernel_lock := False\<rparr>"

section \<open>Operations (env.c)\<close>

text \<open>The error code and \<open>*env_store\<close>; \<open>None\<close> if the permission check uses a NULL \<open>curenv\<close>.\<close>

definition envid2env :: "i32 \<Rightarrow> bool \<Rightarrow> kern \<Rightarrow> (int \<times> nat option) option" where
  "envid2env envid checkperm k =
     (if envid = 0 then Some (0, curenv k)
      else
        (let i = ENVX envid; e = envs k i in
         if env_status e = ENV_FREE \<or> env_id e \<noteq> envid then Some (- E_BAD_ENV, None)
         else if checkperm \<and> curenv k \<noteq> Some i then
           (case curenv k of
              None \<Rightarrow> None
            | Some c \<Rightarrow>
                if env_parent_id e \<noteq> env_id (envs k c) then Some (- E_BAD_ENV, None) else Some (0, Some i))
         else Some (0, Some i)))"

fun env_init_loop :: "nat \<Rightarrow> kern \<Rightarrow> kern" where
  "env_init_loop 0 k = k"
| "env_init_loop (Suc i) k =
     env_init_loop i
       ((upd_env i (\<lambda>e. e\<lparr>env_id := 0, env_status := ENV_FREE, env_link := env_free_list k\<rparr>) k)\<lparr>env_free_list := Some i\<rparr>)"

definition env_init :: "kern \<Rightarrow> kern" where
  "env_init k = env_init_loop NENV k"

definition env_setup_vm :: "nat \<Rightarrow> kern \<Rightarrow> int \<times> kern" where
  "env_setup_vm e k =
     (case page_alloc ALLOC_ZERO (vm_of k) of
        (None, v) \<Rightarrow> (- E_NO_MEM, put_vm v k)
      | (Some p, v) \<Rightarrow>
          (let d = unat (page2pa p);
               k = upd_env e (\<lambda>x. x\<lparr>env_pgdir := Some d\<rparr>) k;
               v = v\<lparr>pmem := set_bytes d (get_bytes (pmem v) (kern_pgdir v) 4096) (pmem v)\<rparr>;
               v = v\<lparr>pp_ref := (pp_ref v)(p := pp_ref v p + 1)\<rparr>;
               v = v\<lparr>pmem := set32 (pde_addr d UVPT) (of_nat d OR PTE_P OR PTE_U) (pmem v)\<rparr> in
           (0, put_vm v k)))"

text \<open>The id of the next environment in slot \<open>e\<close>; the comparison with 0 is signed.\<close>

definition next_id :: "nat \<Rightarrow> i32 \<Rightarrow> i32" where
  "next_id e old =
     (let generation = (old + 2 ^ ENVGENSHIFT) AND NOT 0x3FF;
          generation = (if sint generation \<le> 0 then 2 ^ ENVGENSHIFT else generation) in
      generation OR of_nat e)"

text \<open>The error code and the environment stored through \<open>newenv_store\<close>.\<close>

definition env_alloc :: "i32 \<Rightarrow> kern \<Rightarrow> (int \<times> nat option) \<times> kern" where
  "env_alloc parent_id k =
     (case env_free_list k of
        None \<Rightarrow> ((- E_NO_FREE_ENV, None), k)
      | Some e \<Rightarrow>
          (case env_setup_vm e k of (r, k) \<Rightarrow>
             if r < 0 then ((r, None), k)
             else
               (let k = upd_env e (\<lambda>x. x\<lparr>env_id := next_id e (env_id x), env_parent_id := parent_id,
                          env_type := ENV_TYPE_USER, env_status := ENV_RUNNABLE, env_runs := 0,
                          env_tf := zero_tf\<lparr>tf_ds := GD_UD OR 3, tf_es := GD_UD OR 3, tf_ss := GD_UD OR 3,
                            tf_esp := USTACKTOP, tf_cs := GD_UT OR 3, tf_eflags := 0 OR FL_IF\<rparr>,
                          env_pgfault_upcall := 0, env_ipc_recving := False\<rparr>) k;
                    k = k\<lparr>env_free_list := env_link (envs k e)\<rparr> in
                ((0, Some e), k))))"

text \<open>
  \<open>region_alloc\<close> rounds neither \<open>va\<close> nor \<open>len\<close>: the code drops the results of the two macros.
  The result of \<open>page_insert\<close> is ignored.
\<close>

partial_function (option) region_loop :: "nat \<Rightarrow> u32 \<Rightarrow> u32 \<Rightarrow> u32 \<Rightarrow> vm \<Rightarrow> vm option" where
  "region_loop pgdir va len i v =
     (if i < len then
        (case page_alloc 0 v of
           (None, v) \<Rightarrow> None
         | (Some p, v) \<Rightarrow> do {
             (r, v) \<leftarrow> page_insert pgdir p (va + i) (PTE_P OR PTE_W OR PTE_U) v;
             region_loop pgdir va len (i + PGSIZE) v
           })
      else Some v)"

definition region_alloc :: "nat \<Rightarrow> u32 \<Rightarrow> u32 \<Rightarrow> kern \<Rightarrow> kern option" where
  "region_alloc e va len k = do {
     pgdir \<leftarrow> env_pgdir (envs k e);
     v \<leftarrow> region_loop pgdir va len 0 (vm_of k);
     Some (put_vm v k)
   }"

text \<open>Fields of the ELF header and of a program header (\<open>elf.h\<close>) in the image.\<close>

definition e_entry :: "bytemem \<Rightarrow> u32" where "e_entry b = get32 b 24"
definition e_phoff :: "bytemem \<Rightarrow> u32" where "e_phoff b = get32 b 28"
definition e_phnum :: "bytemem \<Rightarrow> u16" where "e_phnum b = get16 b 44"
definition p_type :: "bytemem \<Rightarrow> nat \<Rightarrow> u32" where "p_type b ph = get32 b ph"
definition p_offset :: "bytemem \<Rightarrow> nat \<Rightarrow> u32" where "p_offset b ph = get32 b (ph + 4)"
definition p_va :: "bytemem \<Rightarrow> nat \<Rightarrow> u32" where "p_va b ph = get32 b (ph + 8)"
definition p_filesz :: "bytemem \<Rightarrow> nat \<Rightarrow> u32" where "p_filesz b ph = get32 b (ph + 16)"
definition p_memsz :: "bytemem \<Rightarrow> nat \<Rightarrow> u32" where "p_memsz b ph = get32 b (ph + 20)"
definition p_flags :: "bytemem \<Rightarrow> nat \<Rightarrow> u32" where "p_flags b ph = get32 b (ph + 24)"
definition SIZEOF_PROGHDR :: nat where "SIZEOF_PROGHDR = 32"
definition ELF_PROG_LOAD :: u32 where "ELF_PROG_LOAD = 1"

definition vmem_store :: "u32 \<Rightarrow> u8 list \<Rightarrow> kern \<Rightarrow> kern option" where
  "vmem_store va bs k = do {
     m \<leftarrow> vstore (cr3 k) va bs (pmem (kvm k));
     Some (k\<lparr>kvm := (kvm k)\<lparr>pmem := m\<rparr>\<rparr>)
   }"

definition load_segment :: "nat \<Rightarrow> bytemem \<Rightarrow> nat \<Rightarrow> kern \<Rightarrow> kern option" where
  "load_segment e binary ph k =
     (if p_type binary ph \<noteq> ELF_PROG_LOAD then Some k
      else do {
        k \<leftarrow> region_alloc e (p_va binary ph) (p_memsz binary ph) k;
        k \<leftarrow> vmem_store (p_va binary ph) (replicate (unat (p_memsz binary ph)) 0) k;
        vmem_store (p_va binary ph) (get_bytes binary (unat (p_offset binary ph)) (unat (p_filesz binary ph))) k
      })"

fun load_segments :: "nat \<Rightarrow> bytemem \<Rightarrow> nat \<Rightarrow> nat \<Rightarrow> kern \<Rightarrow> kern option" where
  "load_segments e binary ph 0 k = Some k"
| "load_segments e binary ph (Suc n) k = do {
     k \<leftarrow> load_segment e binary ph k;
     load_segments e binary (ph + SIZEOF_PROGHDR) n k
   }"

definition load_icode :: "nat \<Rightarrow> bytemem \<Rightarrow> kern \<Rightarrow> kern option" where
  "load_icode e binary k = do {
     pgdir \<leftarrow> env_pgdir (envs k e);
     let k = k\<lparr>cr3 := pgdir\<rparr>;
     k \<leftarrow> load_segments e binary (unat (e_phoff binary)) (unat (e_phnum binary)) k;
     let k = k\<lparr>cr3 := kern_pgdir (kvm k)\<rparr>;
     let k = upd_env e (\<lambda>x. x\<lparr>env_tf := (env_tf x)\<lparr>tf_eip := e_entry binary\<rparr>\<rparr>) k;
     region_alloc e (USTACKTOP - PGSIZE) PGSIZE k
   }"

text \<open>The test for the file server guards only the statement after it; \<open>FL_IF\<close> is toggled always.\<close>

definition env_create :: "bytemem \<Rightarrow> env_type \<Rightarrow> kern \<Rightarrow> kern option" where
  "env_create binary t k =
     (case env_alloc 0 k of
        ((r, None), k) \<Rightarrow> None
      | ((r, Some e), k) \<Rightarrow> do {
          let k = (if t = ENV_TYPE_FS then upd_env e (\<lambda>x. x\<lparr>env_tf := (env_tf x)\<lparr>tf_eflags := tf_eflags (env_tf x) OR FL_IOPL_MASK\<rparr>\<rparr>) k
                   else k);
          let k = upd_env e (\<lambda>x. x\<lparr>env_tf := (env_tf x)\<lparr>tf_eflags := tf_eflags (env_tf x) XOR FL_IF\<rparr>\<rparr>) k;
          k \<leftarrow> load_icode e binary k;
          Some (upd_env e (\<lambda>x. x\<lparr>env_type := t\<rparr>) k)
        })"

text \<open>Freeing the pages behind the present entries of one page table, then the table.\<close>

fun free_ptes :: "nat \<Rightarrow> nat \<Rightarrow> nat \<Rightarrow> nat list \<Rightarrow> vm \<Rightarrow> vm option" where
  "free_ptes pgdir pdeno pt [] v = Some v"
| "free_ptes pgdir pdeno pt (pteno # ptenos) v = do {
     v \<leftarrow> (if get32 (pmem v) (pt + 4 * pteno) AND PTE_P \<noteq> 0
           then page_remove pgdir (PGADDR (of_nat pdeno) (of_nat pteno) 0) v else Some v);
     free_ptes pgdir pdeno pt ptenos v
   }"

fun free_pdes :: "nat \<Rightarrow> nat list \<Rightarrow> vm \<Rightarrow> vm option" where
  "free_pdes pgdir [] v = Some v"
| "free_pdes pgdir (pdeno # pdenos) v = do {
     let pde = get32 (pmem v) (pgdir + 4 * pdeno);
     v \<leftarrow> (if pde AND PTE_P = 0 then Some v
           else do {
             let pa = PTE_ADDR pde;
             v \<leftarrow> free_ptes pgdir pdeno (unat pa) [0..<NPTENTRIES] v;
             let v = v\<lparr>pmem := set32 (pgdir + 4 * pdeno) 0 (pmem v)\<rparr>;
             page_decref (pa2page pa) v
           });
     free_pdes pgdir pdenos v
   }"

definition env_free :: "nat \<Rightarrow> kern \<Rightarrow> kern option" where
  "env_free e k = do {
     let k = (if curenv k = Some e then k\<lparr>cr3 := kern_pgdir (kvm k)\<rparr> else k);
     pgdir \<leftarrow> env_pgdir (envs k e);
     v \<leftarrow> free_pdes pgdir [0..<unat (PDX UTOP)] (vm_of k);
     let k = upd_env e (\<lambda>x. x\<lparr>env_pgdir := None\<rparr>) (put_vm v k);
     v \<leftarrow> page_decref (pa2page (of_nat pgdir)) (vm_of k);
     let k = put_vm v k;
     let k = upd_env e (\<lambda>x. x\<lparr>env_status := ENV_FREE, env_link := env_free_list k\<rparr>) k;
     Some (k\<lparr>env_free_list := Some e\<rparr>)
   }"

definition env_run :: "nat \<Rightarrow> kern \<Rightarrow> 'a kout" where
  "env_run e k =
     (if curenv k \<noteq> Some e then
        (let k = (case curenv k of
                    None \<Rightarrow> k
                  | Some c \<Rightarrow> if env_status (envs k c) = ENV_RUNNING then upd_env c (\<lambda>x. x\<lparr>env_status := ENV_RUNNABLE\<rparr>) k else k);
             k = k\<lparr>curenv := Some e\<rparr>;
             k = upd_env e (\<lambda>x. x\<lparr>env_status := ENV_RUNNING, env_runs := env_runs x + 1\<rparr>) k in
         case env_pgdir (envs k e) of
           None \<Rightarrow> Panic
         | Some d \<Rightarrow> Run e (spin_unlock (k\<lparr>cr3 := d\<rparr>)))
      else Run e (spin_unlock k))"

section \<open>The scheduler (sched.c)\<close>

definition sched_halt :: "kern \<Rightarrow> 'a kout" where
  "sched_halt k =
     (if \<forall>i<NENV. env_status (envs k i) \<notin> {ENV_RUNNABLE, ENV_RUNNING, ENV_DYING} then Monitor k
      else Halt (k\<lparr>curenv := None, cr3 := kern_pgdir (kvm k)\<rparr>))"

definition sched_order :: "kern \<Rightarrow> nat list" where
  "sched_order k =
     (let curenv_id = (case curenv k of Some c \<Rightarrow> ENVX (env_id (envs k c)) | None \<Rightarrow> 0) in
      map (\<lambda>i. (curenv_id + i) mod NENV) [0..<NENV])"

definition sched_yield :: "kern \<Rightarrow> 'a kout" where
  "sched_yield k =
     (case find (\<lambda>j. env_status (envs k j) = ENV_RUNNABLE) (sched_order k) of
        Some j \<Rightarrow> env_run j k
      | None \<Rightarrow>
          (case curenv k of
             Some c \<Rightarrow> if env_status (envs k c) = ENV_RUNNING then env_run c k else sched_halt k
           | None \<Rightarrow> sched_halt k))"

definition env_destroy :: "nat \<Rightarrow> kern \<Rightarrow> unit kout" where
  "env_destroy e k =
     (if env_status (envs k e) = ENV_RUNNING \<and> curenv k \<noteq> Some e then
        Ret () (upd_env e (\<lambda>x. x\<lparr>env_status := ENV_DYING\<rparr>) k)
      else
        (case env_free e k of
           None \<Rightarrow> Panic
         | Some k \<Rightarrow> if curenv k = Some e then sched_yield (k\<lparr>curenv := None\<rparr>) else Ret () k))"

end
