(* ===== verification/Trap.thy ===== *)
theory Trap
  imports Env
begin

text \<open>
  Traps and system calls (\<open>trap.c\<close>).  A system call returns a \<open>kout\<close> with the 32-bit result.  The
  argument \<open>cr2\<close> is the processor's record of the faulting address; the trap frame that the entry
  code pushed is the argument of \<open>trap\<close>.  Messages on the console are not modelled, except the
  output of \<open>sys_cputs\<close>.

  A trap is one step.  The gate of the system calls is a trap gate, which leaves interrupts enabled; an
  interrupt in the middle of a system call is not modelled.
\<close>

section \<open>Numbers (trap.h, util.h)\<close>

definition T_BRKPT :: u32 where "T_BRKPT = 3"
definition T_PGFLT :: u32 where "T_PGFLT = 14"
definition T_SYSCALL :: u32 where "T_SYSCALL = 48"
definition IRQ_OFFSET :: u32 where "IRQ_OFFSET = 32"
definition IRQ_TIMER :: u32 where "IRQ_TIMER = 0"
definition IRQ_KBD :: u32 where "IRQ_KBD = 1"
definition IRQ_SERIAL :: u32 where "IRQ_SERIAL = 4"
definition IRQ_SPURIOUS :: u32 where "IRQ_SPURIOUS = 7"

definition SYS_cputs :: u32 where "SYS_cputs = 0"
definition SYS_cgetc :: u32 where "SYS_cgetc = 1"
definition SYS_getenvid :: u32 where "SYS_getenvid = 2"
definition SYS_env_destroy :: u32 where "SYS_env_destroy = 3"
definition SYS_page_alloc :: u32 where "SYS_page_alloc = 4"
definition SYS_page_map :: u32 where "SYS_page_map = 5"
definition SYS_page_unmap :: u32 where "SYS_page_unmap = 6"
definition SYS_exofork :: u32 where "SYS_exofork = 7"
definition SYS_env_set_status :: u32 where "SYS_env_set_status = 8"
definition SYS_env_set_trapframe :: u32 where "SYS_env_set_trapframe = 9"
definition SYS_env_set_pgfault_upcall :: u32 where "SYS_env_set_pgfault_upcall = 10"
definition SYS_yield :: u32 where "SYS_yield = 11"
definition SYS_ipc_try_send :: u32 where "SYS_ipc_try_send = 12"
definition SYS_ipc_recv :: u32 where "SYS_ipc_recv = 13"

lemmas sys_defs = SYS_cputs_def SYS_cgetc_def SYS_getenvid_def SYS_env_destroy_def SYS_page_alloc_def SYS_page_map_def
  SYS_page_unmap_def SYS_exofork_def SYS_env_set_status_def SYS_env_set_trapframe_def SYS_env_set_pgfault_upcall_def
  SYS_yield_def SYS_ipc_try_send_def SYS_ipc_recv_def

text \<open>A negative error code as the 32 bits of an \<open>int32_t\<close>.\<close>

definition err :: "int \<Rightarrow> i32" where "err e = of_int (- e)"

section \<open>Interrupt gates\<close>

text \<open>
  A gate: whether it is a trap gate (which leaves interrupts enabled), its code segment, the number
  of its handler, and the privilege level from which \<open>int\<close> may raise it.
\<close>

record gate =
  gd_istrap :: bool
  gd_sel :: u16
  gd_handler :: nat
  gd_dpl :: nat

definition trap_init :: "nat \<Rightarrow> gate option" where
  "trap_init n =
     (if n \<in> {0, 1, 2, 4, 5, 6, 7, 8, 10, 11, 12, 13, 14, 16, 17, 18, 19} then
        Some \<lparr>gd_istrap = False, gd_sel = GD_KT, gd_handler = n, gd_dpl = 0\<rparr>
      else if n = 3 then Some \<lparr>gd_istrap = False, gd_sel = GD_KT, gd_handler = 3, gd_dpl = 3\<rparr>
      else if n = unat T_SYSCALL then Some \<lparr>gd_istrap = True, gd_sel = GD_KT, gd_handler = n, gd_dpl = 3\<rparr>
      else if n = unat (IRQ_OFFSET + IRQ_TIMER) then Some \<lparr>gd_istrap = False, gd_sel = GD_KT, gd_handler = n, gd_dpl = 0\<rparr>
      else None)"

section \<open>Structures in user memory\<close>

definition le16 :: "u16 \<Rightarrow> u8 list" where "le16 w = [ucast w, ucast (drop_bit 8 w)]"
definition le32 :: "u32 \<Rightarrow> u8 list" where
  "le32 w = [ucast w, ucast (drop_bit 8 w), ucast (drop_bit 16 w), ucast (drop_bit 24 w)]"

definition regs_bytes :: "pushregs \<Rightarrow> u8 list" where
  "regs_bytes r = le32 (reg_edi r) @ le32 (reg_esi r) @ le32 (reg_ebp r) @ le32 (reg_oesp r)
     @ le32 (reg_ebx r) @ le32 (reg_edx r) @ le32 (reg_ecx r) @ le32 (reg_eax r)"

definition SIZEOF_UTRAPFRAME :: u32 where "SIZEOF_UTRAPFRAME = 52"
definition SIZEOF_TRAPFRAME :: nat where "SIZEOF_TRAPFRAME = 68"

definition utf_bytes :: "u32 \<Rightarrow> trapframe \<Rightarrow> u8 list" where
  "utf_bytes fault_va tf = le32 fault_va @ le32 (tf_err tf) @ regs_bytes (tf_regs tf)
     @ le32 (tf_eip tf) @ le32 (tf_eflags tf) @ le32 (tf_esp tf)"

definition tf_of_bytes :: "u8 list \<Rightarrow> trapframe" where
  "tf_of_bytes bs =
     (let m = (\<lambda>i. if i < length bs then bs ! i else 0) in
      \<lparr>tf_regs = \<lparr>reg_edi = get32 m 0, reg_esi = get32 m 4, reg_ebp = get32 m 8, reg_oesp = get32 m 12,
         reg_ebx = get32 m 16, reg_edx = get32 m 20, reg_ecx = get32 m 24, reg_eax = get32 m 28\<rparr>,
       tf_es = get16 m 32, tf_ds = get16 m 36, tf_trapno = get32 m 40, tf_err = get32 m 44, tf_eip = get32 m 48,
       tf_cs = get16 m 52, tf_eflags = get32 m 56, tf_esp = get32 m 60, tf_ss = get16 m 64\<rparr>)"

section \<open>Console calls\<close>

text \<open>
  \<open>cprintf("%.*s", len, s)\<close>: characters up to the terminator, at most \<open>len\<close> unless that is
  negative; a NULL string prints as \<open>(null)\<close>.  The character after the last one printed is read
  too.  \<open>None\<close> is a fault of the kernel on the user's pages.
\<close>

partial_function (option) cputs_loop :: "u32 \<Rightarrow> int \<Rightarrow> kern \<Rightarrow> kern option" where
  "cputs_loop p precision k = do {
     a \<leftarrow> translate (cr3 k) False p (pmem (kvm k));
     let ch = pmem (kvm k) a;
     if ch = 0 then Some k
     else if precision < 0 then cputs_loop (p + 1) precision (k\<lparr>kcons := cons_putc (scast ch) (kcons k)\<rparr>)
     else if 0 \<le> precision - 1 then cputs_loop (p + 1) (precision - 1) (k\<lparr>kcons := cons_putc (scast ch) (kcons k)\<rparr>)
     else Some k
   }"

definition null_msg :: "u8 list" where "null_msg = keys ''(null)''"

definition sys_cputs :: "u32 \<Rightarrow> u32 \<Rightarrow> kern \<Rightarrow> kern option" where
  "sys_cputs s len k =
     (if s = 0 then
        Some (k\<lparr>kcons := fold (\<lambda>b. cons_putc (scast b))
          (if sint len < 0 then null_msg else take (nat (sint len)) null_msg) (kcons k)\<rparr>)
      else cputs_loop s (sint len) k)"

definition sys_cgetc :: "kern \<Rightarrow> i32 kout" where
  "sys_cgetc k = (case cons_getc (kcons k) of None \<Rightarrow> Spin | Some (c, con) \<Rightarrow> Ret (of_int c) (k\<lparr>kcons := con\<rparr>))"

section \<open>System calls on environments\<close>

definition sys_getenvid :: "kern \<Rightarrow> i32 kout" where
  "sys_getenvid k = (case curenv k of None \<Rightarrow> Panic | Some c \<Rightarrow> Ret (env_id (envs k c)) k)"

text \<open>The common beginning: look the environment up, with the permission check.\<close>

definition with_env :: "i32 \<Rightarrow> kern \<Rightarrow> (nat \<Rightarrow> i32 kout) \<Rightarrow> i32 kout" where
  "with_env envid k f =
     (case envid2env envid True k of
        None \<Rightarrow> Panic
      | Some (r, e) \<Rightarrow>
          if r < 0 then Ret (err E_BAD_ENV) k
          else (case e of None \<Rightarrow> Panic | Some e \<Rightarrow> f e))"

definition sys_env_destroy :: "i32 \<Rightarrow> kern \<Rightarrow> i32 kout" where
  "sys_env_destroy envid k = with_env envid k (\<lambda>e. kbind (env_destroy e k) (\<lambda>_. Ret 0))"

definition sys_yield :: "kern \<Rightarrow> i32 kout" where
  "sys_yield k = sched_yield k"

definition sys_exofork :: "kern \<Rightarrow> i32 kout" where
  "sys_exofork k =
     (case curenv k of
        None \<Rightarrow> Panic
      | Some c \<Rightarrow>
          (case env_alloc (env_id (envs k c)) k of
             ((r, None), k) \<Rightarrow> Ret (of_int r) k
           | ((r, Some e), k) \<Rightarrow>
               (let tf = env_tf (envs k c);
                    k = upd_env e (\<lambda>x. x\<lparr>env_status := ENV_NOT_RUNNABLE,
                          env_tf := tf\<lparr>tf_regs := (tf_regs tf)\<lparr>reg_eax := 0\<rparr>\<rparr>\<rparr>) k in
                Ret (env_id (envs k e)) k)))"

definition sys_env_set_status :: "i32 \<Rightarrow> i32 \<Rightarrow> kern \<Rightarrow> i32 kout" where
  "sys_env_set_status envid status k =
     (if status \<noteq> 2 \<and> status \<noteq> 4 then Ret (err E_INVAL) k
      else with_env envid k (\<lambda>e.
        Ret 0 (upd_env e (\<lambda>x. x\<lparr>env_status := (if status = 2 then ENV_RUNNABLE else ENV_NOT_RUNNABLE)\<rparr>) k)))"

definition sys_env_set_trapframe :: "i32 \<Rightarrow> u32 \<Rightarrow> kern \<Rightarrow> i32 kout" where
  "sys_env_set_trapframe envid tf k =
     with_env envid k (\<lambda>e.
       case vload (cr3 k) tf SIZEOF_TRAPFRAME (pmem (kvm k)) of
         None \<Rightarrow> Panic
       | Some bs \<Rightarrow>
           Ret 0 (upd_env e (\<lambda>x. x\<lparr>env_tf := (tf_of_bytes bs)\<lparr>tf_eflags := tf_eflags (tf_of_bytes bs) OR FL_IF\<rparr>\<rparr>) k))"

definition sys_env_set_pgfault_upcall :: "i32 \<Rightarrow> u32 \<Rightarrow> kern \<Rightarrow> i32 kout" where
  "sys_env_set_pgfault_upcall envid func k =
     with_env envid k (\<lambda>e.
       if func = 0 then Ret (err E_INVAL) k
       else Ret 0 (upd_env e (\<lambda>x. x\<lparr>env_pgfault_upcall := func\<rparr>) k))"

section \<open>System calls on pages\<close>

definition va_ok :: "u32 \<Rightarrow> bool" where
  "va_ok va \<longleftrightarrow> \<not> (UTOP \<le> va \<or> va mod PGSIZE \<noteq> 0)"

definition perm_ok :: "u32 \<Rightarrow> bool" where
  "perm_ok perm \<longleftrightarrow> \<not> (perm AND PTE_U = 0 \<or> perm AND PTE_P = 0) \<and> perm AND NOT (PTE_P OR PTE_U OR PTE_W OR PTE_AVAIL) = 0"

text \<open>
  \<open>page_insert\<close> on the directory of \<open>e\<close>: its result and the new state, \<open>None\<close> for a panic.
\<close>

definition insert_in :: "nat \<Rightarrow> nat \<Rightarrow> u32 \<Rightarrow> u32 \<Rightarrow> kern \<Rightarrow> (int \<times> kern) option" where
  "insert_in e pp va perm k = do {
     pgdir \<leftarrow> env_pgdir (envs k e);
     (r, v) \<leftarrow> page_insert pgdir pp va perm (vm_of k);
     Some (r, put_vm v k)
   }"

text \<open>Without a free page the code calls \<open>page_free(NULL)\<close>, which dereferences NULL.\<close>

definition sys_page_alloc :: "i32 \<Rightarrow> u32 \<Rightarrow> u32 \<Rightarrow> kern \<Rightarrow> i32 kout" where
  "sys_page_alloc envid va perm k =
     with_env envid k (\<lambda>e.
       if \<not> va_ok va then Ret (err E_INVAL) k
       else if \<not> perm_ok perm then Ret (err E_INVAL) k
       else
         (case page_alloc ALLOC_ZERO (vm_of k) of
            (None, v) \<Rightarrow> Panic
          | (Some pp, v) \<Rightarrow>
              (case insert_in e pp va perm (put_vm v k) of
                 None \<Rightarrow> Panic
               | Some (r, k) \<Rightarrow>
                   if r < 0 then (case page_free pp (vm_of k) of None \<Rightarrow> Panic | Some v \<Rightarrow> Ret (err E_NO_MEM) (put_vm v k))
                   else Ret 0 k)))"

text \<open>
  The test for write access looks at the address \<open>pte_store\<close> of the table entry, as a kernel
  virtual address, and not at the entry.
\<close>

definition sys_page_map :: "i32 \<Rightarrow> u32 \<Rightarrow> i32 \<Rightarrow> u32 \<Rightarrow> u32 \<Rightarrow> kern \<Rightarrow> i32 kout" where
  "sys_page_map srcenvid srcva dstenvid dstva perm k =
     with_env srcenvid k (\<lambda>src.
     with_env dstenvid k (\<lambda>dst.
       if \<not> va_ok srcva \<or> \<not> va_ok dstva then Ret (err E_INVAL) k
       else if \<not> perm_ok perm then Ret (err E_INVAL) k
       else
         (case env_pgdir (envs k src) of
            None \<Rightarrow> Panic
          | Some pgdir \<Rightarrow>
              (case page_lookup pgdir srcva (vm_of k) of
                 (None, v) \<Rightarrow> Ret (err E_INVAL) (put_vm v k)
               | (Some (pp, pte), v) \<Rightarrow>
                   (let k = put_vm v k; pte_store = of_nat pte + KERNBASE in
                    if perm AND PTE_W \<noteq> 0 \<and> pte_store AND PTE_W \<noteq> 0 then Ret (err E_INVAL) k
                    else
                      (case insert_in dst pp dstva perm k of
                         None \<Rightarrow> Panic
                       | Some (r, k) \<Rightarrow> if r < 0 then Ret (err E_NO_MEM) k else Ret 0 k))))))"

definition sys_page_unmap :: "i32 \<Rightarrow> u32 \<Rightarrow> kern \<Rightarrow> i32 kout" where
  "sys_page_unmap envid va k =
     with_env envid k (\<lambda>e.
       if \<not> va_ok va then Ret (err E_INVAL) k
       else
         (case env_pgdir (envs k e) of
            None \<Rightarrow> Panic
          | Some pgdir \<Rightarrow>
              (case page_remove pgdir va (vm_of k) of None \<Rightarrow> Panic | Some v \<Rightarrow> Ret 0 (put_vm v k))))"

section \<open>Messages\<close>

text \<open>The last steps of a successful send.\<close>

definition ipc_deliver :: "nat \<Rightarrow> u32 \<Rightarrow> kern \<Rightarrow> i32 kout" where
  "ipc_deliver e value k =
     (case curenv k of
        None \<Rightarrow> Panic
      | Some c \<Rightarrow>
          (let from = env_id (envs k c) in
           Ret 0 (upd_env e (\<lambda>x. x\<lparr>env_ipc_from := from, env_ipc_value := value, env_status := ENV_RUNNABLE,
             env_tf := (env_tf x)\<lparr>tf_regs := (tf_regs (env_tf x))\<lparr>reg_eax := 0\<rparr>\<rparr>\<rparr>) k)))"

definition sys_ipc_try_send :: "i32 \<Rightarrow> u32 \<Rightarrow> u32 \<Rightarrow> u32 \<Rightarrow> kern \<Rightarrow> i32 kout" where
  "sys_ipc_try_send envid value srcva perm k =
     (case envid2env envid False k of
        None \<Rightarrow> Panic
      | Some (r, None) \<Rightarrow> if r < 0 then Ret (of_int r) k else Panic
      | Some (r, Some e) \<Rightarrow>
          if \<not> env_ipc_recving (envs k e) then Ret (err E_IPC_NOT_RECV) k
          else
            (let k = upd_env e (\<lambda>x. x\<lparr>env_ipc_recving := False\<rparr>) k in
             if srcva < UTOP then
               (if srcva \<noteq> ROUNDDOWN srcva PGSIZE then Ret (err E_INVAL) k
                else if \<not> perm_ok perm then Ret (err E_INVAL) k
                else
                  (case Option.bind (curenv k) (\<lambda>c. env_pgdir (envs k c)) of
                     None \<Rightarrow> Panic
                   | Some pgdir \<Rightarrow>
                       (case page_lookup pgdir srcva (vm_of k) of
                          (None, v) \<Rightarrow> Ret (err E_INVAL) (put_vm v k)
                        | (Some (pp, pte), v) \<Rightarrow>
                            (let k = put_vm v k in
                             if perm AND PTE_W \<noteq> 0 \<and> get32 (pmem (kvm k)) pte AND PTE_W = 0 then Ret (err E_INVAL) k
                             else if env_ipc_dstva (envs k e) < UTOP then
                               (case insert_in e pp (env_ipc_dstva (envs k e)) perm k of
                                  None \<Rightarrow> Panic
                                | Some (r, k) \<Rightarrow>
                                    if r < 0 then Ret (of_int r) (upd_env e (\<lambda>x. x\<lparr>env_ipc_perm := 0\<rparr>) k)
                                    else ipc_deliver e value (upd_env e (\<lambda>x. x\<lparr>env_ipc_perm := perm\<rparr>) k))
                             else ipc_deliver e value k))))
             else ipc_deliver e value k))"

definition sys_ipc_recv :: "u32 \<Rightarrow> kern \<Rightarrow> i32 kout" where
  "sys_ipc_recv dstva k =
     (if dstva < UTOP \<and> dstva mod PGSIZE \<noteq> 0 then Ret (err E_INVAL) k
      else
        (case curenv k of
           None \<Rightarrow> Panic
         | Some c \<Rightarrow>
             kbind (sched_yield (upd_env c (\<lambda>x. x\<lparr>env_ipc_recving := True, env_ipc_dstva := dstva, env_status := ENV_NOT_RUNNABLE\<rparr>) k))
               (\<lambda>_ :: unit. Ret 0)))"

definition syscall :: "u32 \<Rightarrow> u32 \<Rightarrow> u32 \<Rightarrow> u32 \<Rightarrow> u32 \<Rightarrow> u32 \<Rightarrow> kern \<Rightarrow> i32 kout" where
  "syscall syscallno a1 a2 a3 a4 a5 k =
     (if syscallno = SYS_cputs then (case sys_cputs a1 a2 k of None \<Rightarrow> Panic | Some k \<Rightarrow> Ret 0 k)
      else if syscallno = SYS_cgetc then sys_cgetc k
      else if syscallno = SYS_getenvid then sys_getenvid k
      else if syscallno = SYS_env_destroy then sys_env_destroy a1 k
      else if syscallno = SYS_yield then sys_yield k
      else if syscallno = SYS_exofork then sys_exofork k
      else if syscallno = SYS_env_set_status then sys_env_set_status a1 a2 k
      else if syscallno = SYS_page_alloc then sys_page_alloc a1 a2 a3 k
      else if syscallno = SYS_page_map then sys_page_map a1 a2 a3 a4 a5 k
      else if syscallno = SYS_page_unmap then sys_page_unmap a1 a2 k
      else if syscallno = SYS_env_set_pgfault_upcall then sys_env_set_pgfault_upcall a1 a2 k
      else if syscallno = SYS_ipc_try_send then sys_ipc_try_send a1 a2 a3 a4 k
      else if syscallno = SYS_ipc_recv then sys_ipc_recv a1 k
      else if syscallno = SYS_env_set_trapframe then sys_env_set_trapframe a1 a2 k
      else Ret (err E_INVAL) k)"

section \<open>Traps\<close>

definition utf_addr :: "trapframe \<Rightarrow> u32" where
  "utf_addr tf =
     (if UXSTACKTOP - PGSIZE \<le> tf_esp tf \<and> tf_esp tf \<le> UXSTACKTOP - 1
      then tf_esp tf - SIZEOF_UTRAPFRAME - 4 else UXSTACKTOP - SIZEOF_UTRAPFRAME)"

definition page_fault_handler :: "u32 \<Rightarrow> trapframe \<Rightarrow> kern \<Rightarrow> unit kout" where
  "page_fault_handler fault_va tf k =
     (if tf_cs tf AND 3 = 0 then Panic
      else
        (case curenv k of
           None \<Rightarrow> Panic
         | Some c \<Rightarrow>
             if env_pgfault_upcall (envs k c) \<noteq> 0 then
               (case vmem_store (utf_addr tf) (utf_bytes fault_va tf) k of
                  None \<Rightarrow> Panic
                | Some k \<Rightarrow>
                    env_run c (upd_env c (\<lambda>x. x\<lparr>env_tf := (env_tf x)\<lparr>tf_eip := env_pgfault_upcall x, tf_esp := utf_addr tf\<rparr>\<rparr>) k))
             else env_destroy c k))"

text \<open>
  \<open>at\<close>: the environment whose \<open>env_tf\<close> the frame is, \<open>None\<close> for a frame on the kernel stack.
  Neither monitor command asks to leave the monitor, so it never returns.
\<close>

definition trap_dispatch :: "nat option \<Rightarrow> u32 \<Rightarrow> trapframe \<Rightarrow> kern \<Rightarrow> unit kout" where
  "trap_dispatch at cr2 tf k =
     (if tf_trapno tf = T_PGFLT then page_fault_handler cr2 tf k
      else if tf_trapno tf = T_BRKPT then Monitor k
      else if tf_trapno tf = T_SYSCALL then
        (let r = tf_regs tf in
         kbind (syscall (reg_eax r) (reg_edx r) (reg_ecx r) (reg_ebx r) (reg_edi r) (reg_esi r) k)
           (\<lambda>ret k. Ret () (case at of
              None \<Rightarrow> k
            | Some e \<Rightarrow> upd_env e (\<lambda>x. x\<lparr>env_tf := (env_tf x)\<lparr>tf_regs := (tf_regs (env_tf x))\<lparr>reg_eax := ret\<rparr>\<rparr>\<rparr>) k)))
      else if tf_trapno tf = IRQ_OFFSET + IRQ_SPURIOUS then Ret () k
      else if tf_trapno tf = IRQ_OFFSET + IRQ_TIMER then sched_yield k
      else if tf_trapno tf = IRQ_OFFSET + IRQ_KBD then
        (case kbd_intr (kcons k) of None \<Rightarrow> Spin | Some c \<Rightarrow> Ret () (k\<lparr>kcons := c\<rparr>))
      else if tf_trapno tf = IRQ_OFFSET + IRQ_SERIAL then
        (case serial_intr (kcons k) of None \<Rightarrow> Spin | Some c \<Rightarrow> Ret () (k\<lparr>kcons := c\<rparr>))
      else if tf_cs tf = GD_KT then Panic
      else (case curenv k of None \<Rightarrow> Panic | Some c \<Rightarrow> env_destroy c k))"

definition trap_return :: "kern \<Rightarrow> unit kout" where
  "trap_return k =
     (case curenv k of
        Some c \<Rightarrow> if env_status (envs k c) = ENV_RUNNING then env_run c k else sched_yield k
      | None \<Rightarrow> sched_yield k)"

definition trap :: "u32 \<Rightarrow> trapframe \<Rightarrow> kern \<Rightarrow> unit kout" where
  "trap cr2 tf k =
     (if tf_cs tf AND 3 = 3 then
        kbind (spin_lock k) (\<lambda>_ k.
          case curenv k of
            None \<Rightarrow> Panic
          | Some c \<Rightarrow>
              if env_status (envs k c) = ENV_DYING then
                (case env_free c k of None \<Rightarrow> Panic | Some k \<Rightarrow> sched_yield (k\<lparr>curenv := None\<rparr>))
              else
                kbind (trap_dispatch (Some c) cr2 tf (upd_env c (\<lambda>x. x\<lparr>env_tf := tf\<rparr>) k)) (\<lambda>_. trap_return))
      else kbind (trap_dispatch None cr2 tf k) (\<lambda>_. trap_return))"

end
