(* ===== verification/ConsoleProps.thy ===== *)
theory ConsoleProps
  imports Console
begin

text \<open>
  Properties of the console: the screen driver stays inside the screen memory, the input buffer is
  a queue that the interrupt routines fill and \<open>cons_getc\<close> empties, and a key press followed by
  its release leaves the modifier state as it was.
\<close>

section \<open>Screen\<close>

lemma crt_values: "CRT_SIZE = 2000" "CRT_COLS = 80"
  by (simp_all add: CRT_SIZE_def CRT_ROWS_def CRT_COLS_def)

definition screen_ok :: "console \<Rightarrow> bool" where
  "screen_ok c \<longleftrightarrow> unat (crt_pos c) < CRT_SIZE"

definition same_margin :: "console \<Rightarrow> console \<Rightarrow> bool" where
  "same_margin c c' \<longleftrightarrow> (\<forall>i\<ge>CRT_SIZE. crt_buf c' i = crt_buf c i)"

lemma cga_scroll_ok:
  assumes "unat (crt_pos c) < CRT_SIZE + CRT_COLS"
  shows "screen_ok (cga_scroll c)" "same_margin c (cga_scroll c)"
proof -
  have "unat (crt_pos c - 80) = unat (crt_pos c) - 80" if "2000 \<le> unat (crt_pos c)"
    using that by (simp add: unat_sub word_le_nat_alt)
  then show "screen_ok (cga_scroll c)" using assms by (auto simp: cga_scroll_def screen_ok_def crt_values)
  show "same_margin c (cga_scroll c)" by (auto simp: cga_scroll_def same_margin_def crt_values)
qed

lemma row_start:
  assumes "unat (p :: u16) < 2080"
  shows "unat (p - p mod 80) \<le> unat p"
proof -
  have "p mod 80 \<le> p" by (simp add: word_le_nat_alt unat_mod)
  then show ?thesis by (simp add: unat_sub)
qed

lemma same_margin_trans: "same_margin c d \<Longrightarrow> same_margin d e \<Longrightarrow> same_margin c e"
  by (simp add: same_margin_def)

lemma scrolled:
  assumes "unat (crt_pos d) < 2080" "same_margin c d"
  shows "screen_ok (cga_scroll d) \<and> same_margin c (cga_scroll d)"
  using cga_scroll_ok [of d] assms same_margin_trans by (simp add: crt_values)

lemma cga_putc_plain:
  assumes "screen_ok c" "ch AND 0xFF \<noteq> CH_TAB"
  shows "screen_ok (cga_putc ch c) \<and> same_margin c (cga_putc ch c)"
proof -
  define ch' where "ch' = (if ch AND NOT 0xFF = 0 then ch OR 0x0700 else ch)"
  have low: "ch' AND 0xFF = ch AND 0xFF" by (simp add: ch'_def and_or_low)
  have p: "unat (crt_pos c) < 2000" using assms(1) by (simp add: screen_ok_def crt_values)
  then have add: "unat (crt_pos c + 80) = unat (crt_pos c) + 80" "unat (crt_pos c + 1) = unat (crt_pos c) + 1"
    by (simp_all add: unat_word_ariths)
  have sub: "unat (crt_pos c - 1) < 2000" if "0 < crt_pos c"
    using that p by (simp add: unat_sub word_le_nat_alt word_less_nat_alt)
  note nl = row_start [of "crt_pos c + 80"] and cr = row_start [of "crt_pos c"]
  show ?thesis unfolding cga_putc.simps ch'_def [symmetric] Let_def low
    using assms(2) p add sub nl cr
    by (intro scrolled) (auto simp: same_margin_def crt_values)
qed

text \<open>
  The screen driver writes only inside the screen memory: from a cursor on the screen, printing
  any character, with scrolling, tabs, backspaces and line ends, leaves the cursor on the screen and
  every cell outside the 80 by 25 cells as it was.
\<close>

theorem cons_putc_on_screen:
  assumes "screen_ok c"
  shows "screen_ok (cons_putc ch c) \<and> (\<forall>i\<ge>CRT_SIZE. crt_buf (cons_putc ch c) i = crt_buf c i)"
proof -
  have ser: "screen_ok (serial_putc x d) = screen_ok d" "same_margin d (serial_putc x d)" for x d
    by (simp_all add: serial_putc_def screen_ok_def same_margin_def)
  have plain: "screen_ok (cons_putc x d) \<and> same_margin d (cons_putc x d)"
    if "screen_ok d" "x AND 0xFF \<noteq> CH_TAB" for x d
    unfolding cons_putc.simps using cga_putc_plain [of "serial_putc x d" x] that ser same_margin_trans by blast
  have sp: "screen_ok (cons_putc 32 d) \<and> same_margin d (cons_putc 32 d)" if "screen_ok d" for d
    by (rule plain [OF that]) (simp add: CH_TAB_def)
  have four: "screen_ok d' \<and> same_margin d d'"
    if "screen_ok d" "d' = cons_putc 32 (cons_putc 32 (cons_putc 32 (cons_putc 32 d)))" for d d'
    unfolding that(2) using sp that(1) same_margin_trans by meson
  have "screen_ok (cons_putc ch c) \<and> same_margin c (cons_putc ch c)"
  proof (cases "ch AND 0xFF = CH_TAB")
    case True
    let ?d = "serial_putc ch c"
    let ?t = "cons_putc 32 (cons_putc 32 (cons_putc 32 (cons_putc 32 ?d)))"
    have t: "screen_ok ?t \<and> same_margin c ?t" using four [of ?d ?t] assms ser same_margin_trans by blast
    have "cons_putc ch c = cga_scroll ?t"
      unfolding cons_putc.simps [of ch c] cga_putc.simps [of ch ?d] Let_def
      using True by (simp add: and_or_low CH_TAB_def)
    then show ?thesis using t scrolled [of ?t c] by (simp add: screen_ok_def crt_values)
  qed (rule plain [OF assms])
  then show ?thesis by (simp add: same_margin_def)
qed

definition screen0 :: console where
  "screen0 = \<lparr>serial_exists = True, serial_in = [], serial_out = [], kbd_in = [], shift = 0, reboot = False,
     crt_buf = (\<lambda>_. 0x0720), crt_pos = 1999, cons_buf = (\<lambda>_. 0), rpos = 0, wpos = 0\<rparr>"

theorem cons_putc_on_screen_witness:
  "screen_ok (cons_putc 65 screen0) \<and> crt_buf (cons_putc 65 screen0) 2000 = 0x0720"
proof -
  have "screen_ok screen0" by (simp add: screen_ok_def screen0_def crt_values)
  from cons_putc_on_screen [OF this, of 65] show ?thesis by (simp add: crt_values screen0_def)
qed

section \<open>Input buffer\<close>

definition buf_ok :: "console \<Rightarrow> bool" where
  "buf_ok c \<longleftrightarrow> unat (rpos c) < CONSBUFSIZE \<and> unat (wpos c) < CONSBUFSIZE"

text \<open>The characters waiting in the buffer, oldest first.\<close>

definition pending_len :: "console \<Rightarrow> nat" where
  "pending_len c = (unat (wpos c) + CONSBUFSIZE - unat (rpos c)) mod CONSBUFSIZE"

definition pending :: "console \<Rightarrow> u8 list" where
  "pending c = map (\<lambda>i. cons_buf c ((unat (rpos c) + i) mod CONSBUFSIZE)) [0..<pending_len c]"

lemma length_pending [simp]: "length (pending c) = pending_len c"
  by (simp add: pending_def)

lemma ring_next: "unat (p :: u32) < 512 \<Longrightarrow> unat (if p + 1 = 512 then 0 else p + 1) = (unat p + 1) mod 512"
proof -
  assume p: "unat p < 512"
  then have s: "unat (p + 1) = unat p + 1" by (simp add: unat_word_ariths)
  have "p + 1 = 512 \<longleftrightarrow> unat p + 1 = 512" unfolding word_unat_eq_iff s by simp
  then show ?thesis using p s by auto
qed

lemma cons_store_wpos:
  assumes "buf_ok c"
  shows "unat (wpos (cons_store ch c)) = (unat (wpos c) + 1) mod 512"
    "cons_buf (cons_store ch c) = (cons_buf c)(unat (wpos c) := of_int ch)" "rpos (cons_store ch c) = rpos c"
  using assms ring_next [of "wpos c"] by (simp_all add: cons_store_def buf_ok_def CONSBUFSIZE_def Let_def split: if_splits)

lemma cons_store_ok: "buf_ok c \<Longrightarrow> buf_ok (cons_store ch c)"
  using cons_store_wpos [of c ch] by (simp add: buf_ok_def CONSBUFSIZE_def)

lemma cons_store_pending:
  assumes ok: "buf_ok c" and room: "pending_len c + 1 < CONSBUFSIZE"
  shows "pending (cons_store ch c) = pending c @ [of_int ch]"
proof -
  let ?r = "unat (rpos c)" and ?w = "unat (wpos c)" and ?n = "pending_len c"
  have b: "?r < 512" "?w < 512" using ok by (auto simp: buf_ok_def CONSBUFSIZE_def)
  have n: "?n = (if ?r \<le> ?w then ?w - ?r else ?w + 512 - ?r)"
    using b by (auto simp: pending_len_def CONSBUFSIZE_def mod_if)
  have rw: "(?r + ?n) mod 512 = ?w" using b n by (auto simp: mod_if)
  have n': "pending_len (cons_store ch c) = ?n + 1"
    using room b n by (auto simp: pending_len_def cons_store_wpos [OF ok] CONSBUFSIZE_def mod_if split: if_splits)
  have ne: "(?r + i) mod 512 \<noteq> ?w" if "i < ?n" for i
    using b n that room by (auto simp: mod_if CONSBUFSIZE_def split: if_splits)
  show ?thesis
    using rw ne by (simp add: pending_def n' cons_store_wpos [OF ok] CONSBUFSIZE_def)
qed

text \<open>
  What the interrupt routine relies on: reading the device takes at least one byte from it as long
  as one waits, and leaves the input buffer alone.  It then stores everything that arrived.
\<close>

locale input_device =
  fixes proc :: "console \<Rightarrow> int \<times> console" and waiting :: "console \<Rightarrow> nat"
  assumes idle: "waiting c = 0 \<Longrightarrow> proc c = (- 1, c)"
    and taken: "0 < waiting c \<Longrightarrow> fst (proc c) \<noteq> - 1 \<and> waiting (snd (proc c)) < waiting c"
    and apart: "cons_buf (snd (proc c)) = cons_buf c \<and> rpos (snd (proc c)) = rpos c \<and> wpos (snd (proc c)) = wpos c"
    and store: "waiting (cons_store ch c) = waiting c"
begin

lemma buffer_apart: "buf_ok (snd (proc c)) = buf_ok c" "pending (snd (proc c)) = pending c"
  using apart [of c] by (simp_all add: buf_ok_def pending_def pending_len_def)

text \<open>The characters delivered, and the loop over them.\<close>

function chars :: "console \<Rightarrow> u8 list" where
  "chars c =
     (if waiting c = 0 then []
      else if fst (proc c) = 0 then chars (snd (proc c))
      else of_int (fst (proc c)) # chars (cons_store (fst (proc c)) (snd (proc c))))"
  by pat_completeness auto
termination by (relation "measure waiting") (use taken store in auto)

declare chars.simps [simp del]

lemma cons_intr_terminates: "\<exists>c'. cons_intr proc c = Some c'"
proof (induction c rule: chars.induct)
  case (1 c)
  then show ?case using idle [of c] taken [of c]
    by (cases "waiting c = 0"; cases "proc c") (auto simp: cons_intr.simps [of proc c])
qed

lemma cons_intr_queue:
  assumes "buf_ok c" "length (pending c) + length (chars c) < CONSBUFSIZE"
  shows "\<exists>c'. cons_intr proc c = Some c' \<and> waiting c' = 0 \<and> buf_ok c' \<and> pending c' = pending c @ chars c \<and> rpos c' = rpos c"
  using assms
proof (induction c rule: chars.induct)
  case (1 c)
  obtain ch d where p: "proc c = (ch, d)" by (cases "proc c")
  have d: "buf_ok d" "pending d = pending c" "rpos d = rpos c"
    using buffer_apart [of c] apart [of c] 1(3) p by simp_all
  show ?case
  proof (cases "waiting c = 0")
    case True
    then show ?thesis using idle [OF True] 1(3) chars.simps [of c] by (simp add: cons_intr.simps)
  next
    case w: False
    then have m: "ch \<noteq> - 1" using taken [of c] p by auto
    show ?thesis
    proof (cases "ch = 0")
      case True
      then have "\<exists>c'. cons_intr proc d = Some c' \<and> waiting c' = 0 \<and> buf_ok c' \<and> pending c' = pending d @ chars d \<and> rpos c' = rpos d"
        using 1(1) [OF w] 1(4) chars.simps [of c] w p d by simp
      then show ?thesis using True w p d chars.simps [of c] by (simp add: cons_intr.simps [of proc c])
    next
      case False
      let ?e = "cons_store ch d"
      have cc: "chars c = of_int ch # chars ?e" using chars.simps [of c] w p False by simp
      then have e: "buf_ok ?e" "pending ?e = pending c @ [of_int ch]"
        using cons_store_ok [OF d(1)] cons_store_pending [OF d(1), of ch] 1(4) d(2) by (simp_all flip: length_pending)
      then have "\<exists>c'. cons_intr proc ?e = Some c' \<and> waiting c' = 0 \<and> buf_ok c' \<and> pending c' = pending ?e @ chars ?e \<and> rpos c' = rpos ?e"
        using 1(2) [OF w] 1(4) cc w p False by (simp flip: length_pending)
      then show ?thesis using False m w p d e cc cons_store_wpos(3) [OF d(1)] by (simp add: cons_intr.simps [of proc c])
    qed
  qed
qed

end

section \<open>The devices\<close>

text \<open>Printing leaves the input side alone.\<close>

definition input_side :: "console \<Rightarrow> u8 list \<times> u8 list \<times> u32 \<times> (nat \<Rightarrow> u8) \<times> u32 \<times> u32" where
  "input_side c = (serial_in c, kbd_in c, shift c, cons_buf c, rpos c, wpos c)"

lemma input_side_scroll [simp]: "input_side (cga_scroll c) = input_side c"
  by (simp add: cga_scroll_def input_side_def)

lemma input_side_serial [simp]: "input_side (serial_putc x c) = input_side c"
  by (simp add: serial_putc_def input_side_def)

lemma input_side_putc [simp]:
  "input_side (cga_putc ch c) = input_side c" "input_side (cons_putc ch' d) = input_side d"
proof (induction ch c and ch' d rule: cga_putc_cons_putc.induct)
  case (1 ch c)
  have plain: "input_side (c\<lparr>crt_pos := p\<rparr>) = input_side c" "input_side (c\<lparr>crt_buf := b, crt_pos := p\<rparr>) = input_side c"
    "input_side (c\<lparr>crt_pos := p, crt_buf := b\<rparr>) = input_side c" for p b
    by (simp_all add: input_side_def)
  show ?case
  proof (cases "ch AND 0xFF = CH_TAB")
    case True
    then show ?thesis using 1 [OF refl refl]
      by (subst cga_putc.simps) (simp add: Let_def CH_TAB_def and_or_low)
  next
    case False
    then show ?thesis by (subst cga_putc.simps) (simp add: Let_def plain and_or_low)
  qed
next
  case (2 ch c)
  then show ?case by (simp add: cons_putc.simps)
qed

lemma input_side_printstr [simp]: "input_side (printstr s c) = input_side c"
proof -
  have "input_side (fold (\<lambda>b. cons_putc (scast b)) bs c) = input_side c" for bs :: "u8 list" and c
    by (induction bs arbitrary: c) simp_all
  then show ?thesis by (simp add: printstr_def)
qed

text \<open>The keyboard translation on the modifier state alone.\<close>

definition kbd_key :: "u32 \<Rightarrow> u8 \<Rightarrow> int \<times> u32" where
  "kbd_key s data =
     (if data = 0xE0 then (0, s OR E0ESC)
      else if data AND 0x80 \<noteq> 0 then
        (0, s AND NOT (shiftcode (if s AND E0ESC \<noteq> 0 then data else data AND 0x7F) OR E0ESC))
      else
        (let d = (if s AND E0ESC \<noteq> 0 then data OR 0x80 else data);
             s = ((if s AND E0ESC \<noteq> 0 then s AND NOT E0ESC else s) OR shiftcode d) XOR togglecode d;
             ch = uint (charcode (s AND (KBD_CTL OR KBD_SHIFT)) d) in
         (if s AND CAPSLOCK \<noteq> 0 then caps ch else ch, s)))"

fun kbd_chars :: "u32 \<Rightarrow> u8 list \<Rightarrow> u8 list" where
  "kbd_chars s [] = []"
| "kbd_chars s (d # ds) = (if fst (kbd_key s d) = 0 then [] else [of_int (fst (kbd_key s d))]) @ kbd_chars (snd (kbd_key s d)) ds"

lemma kbd_proc_data_key:
  assumes "kbd_in c = d # ds"
  shows "fst (kbd_proc_data c) = fst (kbd_key (shift c) d)"
    "input_side (snd (kbd_proc_data c)) = (serial_in c, ds, snd (kbd_key (shift c) d), cons_buf c, rpos c, wpos c)"
proof -
  have reb: "input_side (x\<lparr>reboot := True\<rparr>) = input_side x" for x by (simp add: input_side_def)
  show "fst (kbd_proc_data c) = fst (kbd_key (shift c) d)"
    using assms by (simp add: kbd_proc_data_def kbd_key_def Let_def)
  show "input_side (snd (kbd_proc_data c)) = (serial_in c, ds, snd (kbd_key (shift c) d), cons_buf c, rpos c, wpos c)"
    using assms by (simp add: kbd_proc_data_def kbd_key_def Let_def reb) (simp add: input_side_def)
qed

lemma kbd_key_not_eof: "fst (kbd_key s d) \<noteq> - 1"
proof -
  have "0 \<le> caps (uint (w :: u8))" for w by (simp add: caps_def)
  then have "0 \<le> fst (kbd_key s d)" by (simp add: kbd_key_def Let_def)
  then show ?thesis by simp
qed

lemma uint_not_eof: "uint (b :: u8) \<noteq> - 1"
  using uint_ge_0 [of b] by linarith

interpretation ser: input_device serial_proc_data "\<lambda>c. length (serial_in c)"
  by unfold_locales (auto simp: uint_not_eof serial_proc_data_def cons_store_def Let_def split: list.splits)

interpretation kbd: input_device kbd_proc_data "\<lambda>c. length (kbd_in c)"
proof unfold_locales
  fix c ch
  show "kbd_proc_data c = (- 1, c)" if "length (kbd_in c) = 0" using that by (simp add: kbd_proc_data_def)
  show "fst (kbd_proc_data c) \<noteq> - 1 \<and> length (kbd_in (snd (kbd_proc_data c))) < length (kbd_in c)" if "0 < length (kbd_in c)"
  proof -
    from that obtain d ds where k: "kbd_in c = d # ds" by (cases "kbd_in c") auto
    from kbd_proc_data_key [OF k] kbd_key_not_eof k show ?thesis by (simp add: input_side_def)
  qed
  show "cons_buf (snd (kbd_proc_data c)) = cons_buf c \<and> rpos (snd (kbd_proc_data c)) = rpos c \<and> wpos (snd (kbd_proc_data c)) = wpos c"
  proof (cases "kbd_in c")
    case Nil
    then show ?thesis by (simp add: kbd_proc_data_def)
  next
    case (Cons d ds)
    then show ?thesis using kbd_proc_data_key(2) [OF Cons] by (simp add: input_side_def)
  qed
  show "length (kbd_in (cons_store ch c)) = length (kbd_in c)" by (simp add: cons_store_def Let_def)
qed

lemma ser_chars: "ser.chars c = filter (\<lambda>b. b \<noteq> 0) (serial_in c)"
proof (induction "serial_in c" arbitrary: c)
  case Nil
  then show ?case by (subst ser.chars.simps) simp
next
  case (Cons b bs)
  note IH = Cons(1) and c = Cons(2) [symmetric]
  have u: "uint b = 0 \<longleftrightarrow> b = 0" by (rule uint_0_iff)
  have "ser.chars (c\<lparr>serial_in := bs\<rparr>) = filter (\<lambda>b. b \<noteq> 0) bs"
    "ser.chars (cons_store x (c\<lparr>serial_in := bs\<rparr>)) = filter (\<lambda>b. b \<noteq> 0) bs" for x
    using IH [of "c\<lparr>serial_in := bs\<rparr>"] IH [of "cons_store x (c\<lparr>serial_in := bs\<rparr>)"] by (simp_all add: cons_store_def Let_def)
  then show ?case using u c by (subst ser.chars.simps) (simp add: serial_proc_data_def)
qed

lemma kbd_chars_eq: "kbd.chars c = kbd_chars (shift c) (kbd_in c)"
proof (induction "kbd_in c" arbitrary: c)
  case Nil
  then show ?case by (subst kbd.chars.simps) (simp flip: Nil)
next
  case (Cons d ds)
  note IH = Cons(1) and c = Cons(2) [symmetric]
  let ?e = "snd (kbd_proc_data c)"
  have e: "kbd_in ?e = ds" "shift ?e = snd (kbd_key (shift c) d)" using kbd_proc_data_key(2) [OF c] by (simp_all add: input_side_def)
  have "kbd.chars ?e = kbd_chars (snd (kbd_key (shift c) d)) ds"
    "kbd.chars (cons_store x ?e) = kbd_chars (snd (kbd_key (shift c) d)) ds" for x
    using IH [of ?e] IH [of "cons_store x ?e"] e by (simp_all add: cons_store_def Let_def)
  then show ?case using c kbd_proc_data_key(1) [OF c] by (subst kbd.chars.simps) simp
qed

lemma intr_terminates: "\<exists>c'. serial_intr c = Some c'" "\<exists>c'. kbd_intr c = Some c'"
  using ser.cons_intr_terminates kbd.cons_intr_terminates by (simp_all add: serial_intr_def kbd_intr_def)

lemma cons_getc_terminates: "\<exists>r. cons_getc c = Some r"
proof -
  obtain c1 where c1: "serial_intr c = Some c1" using intr_terminates(1) by blast
  obtain c2 where "kbd_intr c1 = Some c2" using intr_terminates(2) by blast
  with c1 show ?thesis by (simp add: cons_getc_def Let_def)
qed

section \<open>Properties\<close>

definition serial_chars :: "console \<Rightarrow> u8 list" where
  "serial_chars c = (if serial_exists c then filter (\<lambda>b. b \<noteq> 0) (serial_in c) else [])"

lemma cons_intr_other:
  "cons_intr serial_proc_data c = Some c' \<Longrightarrow> shift c' = shift c \<and> kbd_in c' = kbd_in c \<and> serial_exists c' = serial_exists c"
proof (induction c arbitrary: c' rule: ser.chars.induct)
  case (1 c)
  show ?case
  proof (cases "serial_in c")
    case Nil
    then show ?thesis using 1(3) by (simp add: cons_intr.simps [of _ c] serial_proc_data_def)
  next
    case (Cons b bs)
    have u: "uint b = 0 \<longleftrightarrow> b = 0" by (rule uint_0_iff)
    show ?thesis using 1(1,2) [of c'] 1(3) Cons u uint_not_eof [of b]
      by (simp add: cons_intr.simps [of _ c] serial_proc_data_def cons_store_def Let_def split: if_splits)
  qed
qed

lemma serial_intr_queue:
  assumes "buf_ok c" "length (pending c) + length (serial_chars c) < CONSBUFSIZE"
  shows "\<exists>c'. serial_intr c = Some c' \<and> buf_ok c' \<and> pending c' = pending c @ serial_chars c
    \<and> shift c' = shift c \<and> kbd_in c' = kbd_in c \<and> (serial_exists c \<longrightarrow> serial_in c' = [])"
proof (cases "serial_exists c")
  case True
  then have s: "serial_chars c = ser.chars c" by (simp add: serial_chars_def ser_chars)
  from ser.cons_intr_queue [of c] assms obtain c' where
    c': "cons_intr serial_proc_data c = Some c'" "buf_ok c'" "pending c' = pending c @ serial_chars c" "serial_in c' = []"
    unfolding s by auto
  with cons_intr_other [OF c'(1)] True show ?thesis by (simp add: serial_intr_def)
next
  case False
  then show ?thesis using assms by (simp add: serial_intr_def serial_chars_def)
qed

lemma pending_rpos:
  assumes "buf_ok c" "rpos c \<noteq> wpos c"
  shows "pending c = cons_buf c (unat (rpos c)) # pending (c\<lparr>rpos := (if rpos c + 1 = of_nat CONSBUFSIZE then 0 else rpos c + 1)\<rparr>)"
proof -
  let ?r = "unat (rpos c)" and ?w = "unat (wpos c)"
  let ?d = "c\<lparr>rpos := (if rpos c + 1 = of_nat CONSBUFSIZE then 0 else rpos c + 1)\<rparr>"
  have b: "?r < 512" "?w < 512" using assms(1) by (auto simp: buf_ok_def CONSBUFSIZE_def)
  have ne: "?r \<noteq> ?w" using assms(2) by (metis word_unat_eq_iff)
  have r': "unat (rpos ?d) = (?r + 1) mod 512" using ring_next [of "rpos c"] b by (simp add: CONSBUFSIZE_def)
  have n: "pending_len c = Suc (pending_len ?d)"
    unfolding pending_len_def r' using b ne by (auto simp: CONSBUFSIZE_def mod_if)
  have sh: "(Suc ?r mod 512 + i) mod 512 = Suc (?r + i) mod 512" for i by (simp add: mod_add_left_eq)
  show ?thesis
    unfolding pending_def n r' by (rule nth_equalityI) (use b in \<open>auto simp: nth_Cons sh CONSBUFSIZE_def simp del: upt_Suc split: nat.splits\<close>)
qed

lemma pending_empty: "buf_ok c \<Longrightarrow> rpos c = wpos c \<Longrightarrow> pending c = []"
  by (simp add: pending_def pending_len_def)

text \<open>
  C30: \<open>cons_getc\<close> makes the console input a queue.  As long as fewer than \<open>CONSBUFSIZE\<close> characters
  wait, the polling of both devices terminates and appends what the serial port delivered and then
  what the key presses translate to; the oldest character is returned and removed, and 0 is
  returned exactly when there is none.
\<close>

theorem cons_getc_fifo:
  assumes "buf_ok c" "all = pending c @ serial_chars c @ kbd_chars (shift c) (kbd_in c)" "length all < CONSBUFSIZE"
  shows "\<exists>c'. cons_getc c = Some (case all of [] \<Rightarrow> 0 | b # _ \<Rightarrow> uint b, c')
    \<and> buf_ok c' \<and> pending c' = tl all \<and> kbd_in c' = []"
proof -
  obtain c1 where c1: "serial_intr c = Some c1" "buf_ok c1" "pending c1 = pending c @ serial_chars c"
    "shift c1 = shift c" "kbd_in c1 = kbd_in c"
    using serial_intr_queue [OF assms(1)] assms(2,3) by auto
  from kbd.cons_intr_queue [OF c1(2)] c1 assms(2,3) obtain c2 where
    c2: "kbd_intr c1 = Some c2" "kbd_in c2 = []" "buf_ok c2" "pending c2 = all"
    by (auto simp: kbd_chars_eq kbd_intr_def)
  let ?d = "c2\<lparr>rpos := (if rpos c2 + 1 = of_nat CONSBUFSIZE then 0 else rpos c2 + 1)\<rparr>"
  show ?thesis
  proof (cases "rpos c2 = wpos c2")
    case True
    then show ?thesis using c1 c2 pending_empty [OF c2(3) True] by (simp add: cons_getc_def)
  next
    case False
    have "buf_ok ?d" using c2(3) ring_next [of "rpos c2"] by (simp add: buf_ok_def CONSBUFSIZE_def)
    moreover have "cons_getc c = Some (uint (cons_buf c2 (unat (rpos c2))), ?d)"
      using c1(1) c2(1) False by (simp add: cons_getc_def Let_def)
    moreover have "all = cons_buf c2 (unat (rpos c2)) # pending ?d" using pending_rpos [OF c2(3) False] c2(4) by simp
    ultimately show ?thesis using c2(2) by auto
  qed
qed

theorem cons_getc_fifo_witness:
  "\<exists>c'. cons_getc (screen0\<lparr>serial_in := [0, 72, 73]\<rparr>) = Some (72, c') \<and> pending c' = [73]"
proof -
  let ?c = "screen0\<lparr>serial_in := [0, 72, 73]\<rparr>"
  have "buf_ok ?c" by (simp add: buf_ok_def screen0_def CONSBUFSIZE_def)
  moreover have "[72, 73] = pending ?c @ serial_chars ?c @ kbd_chars (shift ?c) (kbd_in ?c)"
    by (simp add: pending_def pending_len_def serial_chars_def screen0_def)
  ultimately show ?thesis using cons_getc_fifo [of ?c "[72, 73]"] by (auto simp: CONSBUFSIZE_def)
qed

lemma key_code_bits:
  assumes "(d :: u8) AND 0x80 = 0"
  shows "(d OR 0x80) AND 0x7F = d" "(d OR 0x80) AND 0x80 = 0x80" "d \<noteq> 0xE0" "d OR 0x80 = 0xE0 \<longrightarrow> d = 0x60"
proof -
  have c: "d AND 0x7F = d"
  proof -
    have "(0x7F OR 0x80 :: u8) = - 1" by code_simp
    then have "d AND (0x7F OR 0x80) = d" by (simp only: bit.conj_one_right)
    then show ?thesis unfolding bit.conj_disj_distrib using assms by simp
  qed
  then show "(d OR 0x80) AND 0x7F = d" by (simp add: bit.conj_disj_distrib2)
  show "(d OR 0x80) AND 0x80 = 0x80" by (simp add: bit.conj_disj_distrib2 assms)
  show "d \<noteq> 0xE0" using assms by auto
  show "d OR 0x80 = 0xE0 \<longrightarrow> d = 0x60" using \<open>(d OR 0x80) AND 0x7F = d\<close> by (auto dest: sym)
qed

lemma mask_restore: "(s :: u32) AND m = 0 \<Longrightarrow> s AND n = 0 \<Longrightarrow> (s OR m) AND NOT (m OR n) = s"
proof -
  assume m: "s AND m = 0" and n: "s AND n = 0"
  have "\<not> (bit s i \<and> bit m i)" "\<not> (bit s i \<and> bit n i)" for i
    using m n by (metis bit_and_iff bit_0_eq bot_apply bot_bool_def)+
  then show ?thesis by (intro bit_word_eqI) (auto simp: bit_simps)
qed

text \<open>
  Pressing a key and releasing it.  For every key without lock function whose modifier bit is
  not set, the press delivers the character of the table that the modifiers select, with the case
  of letters exchanged under caps lock, and sets the key's own modifier bit; the release delivers
  nothing and restores the modifier state.
\<close>

theorem key_press_release:
  assumes "kbd_in c = [d, d OR 0x80]" "d AND 0x80 = 0" "d \<noteq> 0x60" "togglecode d = 0"
    and "shift c AND E0ESC = 0" "shift c AND shiftcode d = 0" "shiftcode d AND E0ESC = 0"
  shows "\<exists>ch c1 c2. kbd_proc_data c = (ch, c1) \<and> kbd_proc_data c1 = (0, c2)
    \<and> shift c1 = shift c OR shiftcode d \<and> shift c2 = shift c \<and> kbd_in c2 = []
    \<and> ch = (let b = uint (charcode ((shift c OR shiftcode d) AND (KBD_CTL OR KBD_SHIFT)) d) in
        if (shift c OR shiftcode d) AND CAPSLOCK \<noteq> 0 then caps b else b)"
proof -
  note bits = key_code_bits [OF assms(2)]
  obtain ch c1 where c1: "kbd_proc_data c = (ch, c1)" by (cases "kbd_proc_data c")
  have k1: "kbd_key (shift c) d = (let b = uint (charcode ((shift c OR shiftcode d) AND (KBD_CTL OR KBD_SHIFT)) d) in
        if (shift c OR shiftcode d) AND CAPSLOCK \<noteq> 0 then caps b else b, shift c OR shiftcode d)"
    using bits(3) assms by (simp add: kbd_key_def Let_def)
  have s1: "ch = fst (kbd_key (shift c) d)" "kbd_in c1 = [d OR 0x80]" "shift c1 = shift c OR shiftcode d"
    using kbd_proc_data_key [OF assms(1)] c1 k1 by (simp_all add: input_side_def)
  have e0: "(shift c OR shiftcode d) AND E0ESC = 0" using assms(5,7) by (simp add: bit.conj_disj_distrib2)
  have "kbd_key (shift c1) (d OR 0x80) = (0, shift c)"
    using bits assms(3) e0 mask_restore [OF assms(6,5)] by (simp add: kbd_key_def s1(3))
  then have "fst (kbd_proc_data c1) = 0" "shift (snd (kbd_proc_data c1)) = shift c" "kbd_in (snd (kbd_proc_data c1)) = []"
    using kbd_proc_data_key [OF s1(2)] by (simp_all add: input_side_def)
  then show ?thesis using c1 s1 k1 by (intro exI [of _ ch] exI [of _ c1] exI [of _ "snd (kbd_proc_data c1)"]) (auto simp: prod_eq_iff)
qed

theorem key_press_release_witness:
  "\<exists>c1 c2. kbd_proc_data (screen0\<lparr>kbd_in := [0x1E, 0x9E], shift := KBD_SHIFT\<rparr>) = (65, c1)
    \<and> kbd_proc_data c1 = (0, c2) \<and> shift c2 = KBD_SHIFT"
proof -
  let ?c = "screen0\<lparr>kbd_in := [0x1E, 0x9E], shift := KBD_SHIFT\<rparr>"
  have t: "togglecode 0x1E = 0" "shiftcode 0x1E = 0" by (simp_all add: togglecode_def shiftcode_def)
  have m: "KBD_SHIFT AND E0ESC = 0" "KBD_SHIFT AND CAPSLOCK = 0" "KBD_SHIFT AND (KBD_CTL OR KBD_SHIFT) = 1"
    by (simp_all add: KBD_SHIFT_def E0ESC_def CAPSLOCK_def KBD_CTL_def)
  have "charcode 1 0x1E = 65" by (simp add: charcode_def shiftmap_def shift_row_def keys_def)
  then show ?thesis using key_press_release [of ?c "0x1E"] t m by (simp add: Let_def) blast
qed

end
