(* ===== verification/EnvProps.thy ===== *)
theory EnvProps
  imports Env ConsoleProps
begin

text \<open>
  Properties of environments and of the scheduler: fresh identifiers, the address space of a new
  environment, the order of the free list, the choice of the scheduler.
\<close>

section \<open>Library\<close>

lemma put_vm_fields [simp]:
  "envs (put_vm v k) = envs k" "curenv (put_vm v k) = curenv k" "env_free_list (put_vm v k) = env_free_list k"
  "cr3 (put_vm v k) = cr3 k" "kcons (put_vm v k) = kcons k" "kernel_lock (put_vm v k) = kernel_lock k"
  "pmem (kvm (put_vm v k)) = pmem v" "pp_ref (kvm (put_vm v k)) = pp_ref v" "pp_link (kvm (put_vm v k)) = pp_link v"
  "page_free_list (kvm (put_vm v k)) = page_free_list v" "npages (kvm (put_vm v k)) = npages v"
  "kern_pgdir (kvm (put_vm v k)) = kern_pgdir v"
  by (simp_all add: put_vm_def)

lemma upd_env_fields [simp]:
  "kvm (upd_env e f k) = kvm k" "curenv (upd_env e f k) = curenv k" "env_free_list (upd_env e f k) = env_free_list k"
  "cr3 (upd_env e f k) = cr3 k" "kcons (upd_env e f k) = kcons k" "kernel_lock (upd_env e f k) = kernel_lock k"
  "envs (upd_env e f k) = (envs k)(e := f (envs k e))"
  by (simp_all add: upd_env_def)

lemma vm_of_fields [simp]:
  "pmem (vm_of k) = pmem (kvm k)" "pp_ref (vm_of k) = pp_ref (kvm k)" "pp_link (vm_of k) = pp_link (kvm k)"
  "page_free_list (vm_of k) = page_free_list (kvm k)" "npages (vm_of k) = npages (kvm k)"
  "kern_pgdir (vm_of k) = kern_pgdir (kvm k)"
  by (simp_all add: vm_of_def)

lemma put_vm_of [simp]: "put_vm (vm_of k) k = k"
  by (simp add: put_vm_def vm_of_def)

lemma kbind_Ret [simp]: "kbind m Ret = m"
  by (cases m) simp_all

lemma kbind_assoc: "kbind (kbind m f) g = kbind m (\<lambda>x k. kbind (f x k) g)"
  by (cases m) simp_all

section \<open>Identifiers\<close>

lemma ENVX_less [simp]: "ENVX x < NENV"
proof -
  have "x AND 0x3FF \<le> 0x3FF" by (rule word_and_le1)
  then show ?thesis by (simp add: ENVX_def NENV_def word_le_nat_alt)
qed

lemma sint_pos_bits: "0 < sint (w :: i32) \<longleftrightarrow> \<not> bit w 31 \<and> w \<noteq> 0"
proof -
  have b: "bit w 31 \<longleftrightarrow> sint w < 0" using bit_last_iff [of w] by simp
  have "sint w = 0 \<longleftrightarrow> w = 0" by (rule signed_eq_0_iff)
  with b show ?thesis by linarith
qed

lemma m10: "(0x3FF :: i32) = mask 10" by (simp add: mask_eq_exp_minus_1)

lemma small_low: "e < 1024 \<Longrightarrow> (of_nat e :: i32) AND 0x3FF = of_nat e"
  unfolding m10 take_bit_eq_mask [symmetric] by (simp add: take_bit_of_nat take_bit_nat_eq_self)

lemma low_high: "(g :: i32) AND 0x3FF = 0 \<Longrightarrow> e < 1024 \<Longrightarrow> (g OR of_nat e) AND 0x3FF = of_nat e"
  using small_low [of e] by (simp add: bit.conj_disj_distrib2)

lemma clear_low: "(x :: i32) AND NOT 0x3FF = x - (x AND 0x3FF)"
proof -
  have "push_bit 10 (drop_bit 10 x) = x AND NOT (mask 10)" by (rule bit_word_eqI) (auto simp: bit_simps)
  then show ?thesis
    using bits_ident [of 10 x] unfolding m10 take_bit_eq_mask by (metis add_diff_cancel_right')
qed

lemma low_add: "(x + 4096 :: i32) AND 0x3FF = x AND 0x3FF"
proof -
  have "(unat x + 4096) mod 4294967296 mod 1024 = unat x mod 1024"
    using mod_mult_self2 [of "unat x" 1024 4] by (simp add: mod_mod_cancel)
  then have "take_bit 10 (x + 4096) = take_bit 10 x"
    by (simp add: word_unat_eq_iff unsigned_take_bit_eq take_bit_eq_mod unat_word_ariths)
  then show ?thesis unfolding m10 take_bit_eq_mask .
qed

lemma next_id_form:
  obtains g where "next_id e old = g OR of_nat e" "g AND 0x3FF = 0" "0 < sint g"
    "g = old - (old AND 0x3FF) + 4096 \<or> g = 4096 \<and> sint (old - (old AND 0x3FF) + 4096) \<le> 0"
proof -
  let ?h = "(old + 4096) AND NOT 0x3FF"
  have h: "?h = old - (old AND 0x3FF) + 4096" unfolding clear_low low_add by simp
  have z: "?h AND 0x3FF = 0" by (rule bit_word_eqI) (auto simp: m10 bit_simps)
  show ?thesis
  proof (cases "sint ?h \<le> 0")
    case True
    show ?thesis by (rule that [of 4096]) (use True h in \<open>simp_all add: next_id_def ENVGENSHIFT_def Let_def\<close>)
  next
    case False
    show ?thesis by (rule that [of ?h]) (use False h z in \<open>simp_all add: next_id_def ENVGENSHIFT_def Let_def\<close>)
  qed
qed

lemma next_id_props:
  assumes "e < 1024"
  shows "0 < sint (next_id e old)" "ENVX (next_id e old) = e" "next_id e old \<noteq> old"
proof -
  obtain g where g: "next_id e old = g OR of_nat e" "g AND 0x3FF = 0" "0 < sint g"
    "g = old - (old AND 0x3FF) + 4096 \<or> g = 4096 \<and> sint (old - (old AND 0x3FF) + 4096) \<le> 0"
    by (rule next_id_form)
  have low: "(g OR of_nat e) AND 0x3FF = of_nat e" using g(2) assms by (rule low_high)
  show "ENVX (next_id e old) = e" using assms g(1) low by (simp add: ENVX_def unat_of_nat)
  have "\<not> bit (of_nat e :: i32) 31"
  proof -
    have "\<not> bit (of_nat e AND mask 10 :: i32) 31" by (simp add: bit_simps)
    then show ?thesis using small_low [OF assms] unfolding m10 by simp
  qed
  then show "0 < sint (next_id e old)" using g(1,3) unfolding sint_pos_bits
    by (auto simp: bit_simps or_eq_0_iff)
  have dis: "g AND of_nat e = 0"
  proof (rule bit_word_eqI)
    fix n
    have "bit g n \<longrightarrow> \<not> bit (0x3FF :: i32) n" using g(2) by (metis bit_and_iff bit_0_eq bot_apply bot_bool_def)
    moreover have "bit (of_nat e :: i32) n \<longrightarrow> bit (0x3FF :: i32) n" using small_low [OF assms] by (metis bit_and_iff)
    ultimately show "bit (g AND of_nat e) n = bit (0 :: i32) n" by (auto simp: bit_simps)
  qed
  have hi: "next_id e old - (next_id e old AND 0x3FF) = g"
    using g(1) low disjunctive_add_eq_or [OF dis] by (metis add_diff_cancel_right')
  show "next_id e old \<noteq> old"
  proof
    assume eq: "next_id e old = old"
    then have "g = g + 4096 \<or> g = 4096 \<and> sint (g + 4096) \<le> 0" using g(4) hi by metis
    then show False by auto
  qed
qed

section \<open>Allocation\<close>

lemma page_alloc_none: "page_free_list s = None \<Longrightarrow> page_alloc f s = (None, s)"
  by (simp add: page_alloc_def)

text \<open>The memory state after \<open>env_setup_vm\<close> took page \<open>p\<close>.\<close>

definition setup_mem :: "nat \<Rightarrow> nat \<Rightarrow> bytemem \<Rightarrow> bytemem" where
  "setup_mem p kd m =
     (let d = unat (page2pa p); z = zero_page p m in
      set32 (pde_addr d UVPT) (of_nat d OR PTE_P OR PTE_U) (set_bytes d (get_bytes z kd 4096) z))"

definition new_env :: "nat \<Rightarrow> i32 \<Rightarrow> nat \<Rightarrow> env \<Rightarrow> env" where
  "new_env e parent d x = x\<lparr>env_pgdir := Some d, env_id := next_id e (env_id x), env_parent_id := parent,
     env_type := ENV_TYPE_USER, env_status := ENV_RUNNABLE, env_runs := 0,
     env_tf := zero_tf\<lparr>tf_ds := GD_UD OR 3, tf_es := GD_UD OR 3, tf_ss := GD_UD OR 3,
       tf_esp := USTACKTOP, tf_cs := GD_UT OR 3, tf_eflags := FL_IF\<rparr>,
     env_pgfault_upcall := 0, env_ipc_recving := False\<rparr>"

lemma env_alloc_run:
  assumes "env_free_list k = Some e" "page_free_list (kvm k) = Some p"
  shows "\<exists>k'. env_alloc parent k = ((0, Some e), k')
    \<and> envs k' = (envs k)(e := new_env e parent (unat (page2pa p)) (envs k e))
    \<and> env_free_list k' = env_link (envs k e) \<and> curenv k' = curenv k \<and> kernel_lock k' = kernel_lock k \<and> cr3 k' = cr3 k
    \<and> pmem (kvm k') = setup_mem p (kern_pgdir (kvm k)) (pmem (kvm k)) \<and> npages (kvm k') = npages (kvm k)
    \<and> page_free_list (kvm k') = pp_link (kvm k) p \<and> pp_link (kvm k') = (pp_link (kvm k))(p := None)
    \<and> pp_ref (kvm k') = (pp_ref (kvm k))(p := pp_ref (kvm k) p + 1) \<and> kern_pgdir (kvm k') = kern_pgdir (kvm k)"
  using assms
  by (simp add: env_alloc_def env_setup_vm_def page_alloc_def Let_def ALLOC_ZERO_def setup_mem_def new_env_def)

lemma env_alloc_errors:
  "env_free_list k = None \<Longrightarrow> env_alloc parent k = ((- E_NO_FREE_ENV, None), k)"
  "env_free_list k = Some e \<Longrightarrow> page_free_list (kvm k) = None \<Longrightarrow> env_alloc parent k = ((- E_NO_MEM, None), k)"
  by (simp_all add: env_alloc_def env_setup_vm_def page_alloc_none E_defs)

text \<open>
  \<open>env_alloc\<close>.  With no free environment it reports \<open>-E_NO_FREE_ENV\<close>, with no free page
  \<open>-E_NO_MEM\<close>, and the kernel state is unchanged.  Otherwise it takes the head of the free list
  and gives it a positive id whose low bits are the slot, different from the id the slot had
  before: \<open>envid2env\<close> finds the environment under the new id and rejects every other id of that
  slot, stale ones included.  The environment is runnable, in user mode, with its parent recorded;
  no other environment changes.
\<close>

theorem env_alloc_fresh:
  assumes "\<forall>e. env_free_list k = Some e \<longrightarrow> e < NENV"
  shows "case (env_free_list k, page_free_list (kvm k)) of
      (None, _) \<Rightarrow> env_alloc parent k = ((- E_NO_FREE_ENV, None), k)
    | (Some e, None) \<Rightarrow> env_alloc parent k = ((- E_NO_MEM, None), k)
    | (Some e, Some p) \<Rightarrow> \<exists>k' id. env_alloc parent k = ((0, Some e), k') \<and> env_id (envs k' e) = id
        \<and> 0 < sint id \<and> ENVX id = e \<and> id \<noteq> env_id (envs k e)
        \<and> envid2env id False k' = Some (0, Some e)
        \<and> (\<forall>x c. x \<noteq> 0 \<and> ENVX x = e \<and> x \<noteq> id \<longrightarrow> envid2env x c k' = Some (- E_BAD_ENV, None))
        \<and> env_status (envs k' e) = ENV_RUNNABLE \<and> env_parent_id (envs k' e) = parent
        \<and> tf_cs (env_tf (envs k' e)) AND 3 = 3 \<and> tf_eflags (env_tf (envs k' e)) = FL_IF
        \<and> env_free_list k' = env_link (envs k e) \<and> (\<forall>i. i \<noteq> e \<longrightarrow> envs k' i = envs k i)"
proof (cases "env_free_list k")
  case None
  then show ?thesis by (simp add: env_alloc_errors(1))
next
  case (Some e)
  show ?thesis
  proof (cases "page_free_list (kvm k)")
    case None
    then show ?thesis using Some by (simp add: env_alloc_errors(2))
  next
    case p: (Some p)
    from env_alloc_run [OF Some p, of parent] obtain k' where
      k': "env_alloc parent k = ((0, Some e), k')" "envs k' = (envs k)(e := new_env e parent (unat (page2pa p)) (envs k e))"
      "env_free_list k' = env_link (envs k e)" by blast
    have e: "e < 1024" using assms Some by (simp add: NENV_def)
    note id = next_id_props [OF e, of "env_id (envs k e)"]
    have nz: "next_id e (env_id (envs k e)) \<noteq> 0" using id(1) by auto
    show ?thesis using Some p k' id nz
      by (auto simp: new_env_def envid2env_def Let_def GD_UT_def)
  qed
qed

definition zero_env :: env where
  "zero_env = \<lparr>env_tf = zero_tf, env_link = None, env_id = 0, env_parent_id = 0, env_type = ENV_TYPE_USER,
     env_status = ENV_FREE, env_runs = 0, env_pgdir = None, env_pgfault_upcall = 0, env_ipc_recving = False,
     env_ipc_dstva = 0, env_ipc_value = 0, env_ipc_from = 0, env_ipc_perm = 0\<rparr>"

definition kern_small :: kern where
  "kern_small = \<lparr>kvm = vm_dir, envs = (\<lambda>_. zero_env), curenv = None, env_free_list = Some 3, cr3 = 4096,
     kernel_lock = True, kcons = screen0\<rparr>"

theorem env_alloc_fresh_witness:
  "\<exists>k' id. env_alloc 5 kern_small = ((0, Some 3), k') \<and> env_id (envs k' 3) = id \<and> 0 < sint id \<and> ENVX id = 3"
proof -
  have "\<forall>e. env_free_list kern_small = Some e \<longrightarrow> e < NENV" by (simp add: kern_small_def NENV_def)
  from env_alloc_fresh [OF this, of 5] show ?thesis
    by (auto simp: kern_small_def vm_dir_def vm_small_def)
qed

section \<open>The address space of a new environment\<close>

lemma setup_mem_pde:
  assumes "kd mod 4096 = 0" "kd \<noteq> unat (page2pa p)"
  defines "d \<equiv> unat (page2pa p)"
  shows "get32 (setup_mem p kd m) (pde_addr d va) =
    (if PDX va = PDX UVPT then of_nat d OR PTE_P OR PTE_U else get32 m (pde_addr kd va))"
proof (cases "PDX va = PDX UVPT")
  case True
  then show ?thesis by (simp add: setup_mem_def Let_def d_def pde_addr_def get32_set32_same)
next
  case False
  then have ne: "unat (PDX va) \<noteq> unat (PDX UVPT)" by (metis word_unat_eq_iff)
  have da: "d mod 4096 = 0" using PTE_ADDR_aligned [of "page2pa p"] page2pa_low [of p] by (simp add: d_def PTE_ADDR_def)
  let ?z = "zero_page p m" and ?i = "4 * unat (PDX va)"
  have i: "?i + 4 \<le> 4096" using index_bounds(1) [of va] by linarith
  have "get32 (setup_mem p kd m) (d + ?i) = get32 (set_bytes d (get_bytes ?z kd 4096) ?z) (d + ?i)"
    using ne by (auto simp: setup_mem_def Let_def d_def pde_addr_def intro!: get32_set32_other)
  also have "\<dots> = get32 (\<lambda>x. m (x - d + kd)) (d + ?i)"
  proof (rule get32_cong)
    fix j :: nat
    assume j: "j < 4"
    have "?z (kd + (?i + j)) = m (kd + (?i + j))"
      using pages_apart [OF assms(1) da assms(2) [folded d_def]] i j
      by (auto simp: zero_page_def d_def intro!: set_bytes_outside)
    then show "set_bytes d (get_bytes ?z kd 4096) ?z (d + ?i + j) = m (d + ?i + j - d + kd)"
      using i j by (simp add: set_bytes_apply add.assoc add.commute)
  qed
  also have "\<dots> = get32 m (kd + ?i)"
    by (simp add: get32_def get16_def add.commute add.left_commute numeral_3_eq_3)
  finally show ?thesis using False by (simp add: pde_addr_def d_def)
qed

text \<open>
  The address space of a new environment.  Its page directory is a page of its own with one
  reference more; every directory entry is the kernel's, except the one of \<open>UVPT\<close>, which maps the
  directory itself, present and readable by the user but not writable.
\<close>

theorem env_alloc_address_space:
  assumes "env_free_list k = Some e" "page_free_list (kvm k) = Some p"
    and "kern_pgdir (kvm k) mod 4096 = 0" "kern_pgdir (kvm k) \<noteq> unat (page2pa p)"
  shows "\<exists>k' d. env_alloc parent k = ((0, Some e), k') \<and> env_pgdir (envs k' e) = Some d \<and> d = unat (page2pa p)
    \<and> (\<forall>va. pde_of (kvm k') d va = (if PDX va = PDX UVPT then of_nat d OR PTE_P OR PTE_U
          else pde_of (kvm k) (kern_pgdir (kvm k)) va))
    \<and> pp_ref (kvm k') p = pp_ref (kvm k) p + 1
    \<and> (\<forall>x. x < d \<or> d + 4096 \<le> x \<longrightarrow> pmem (kvm k') x = pmem (kvm k) x)"
proof -
  from env_alloc_run [OF assms(1,2), of parent] obtain k' where
    k': "env_alloc parent k = ((0, Some e), k')" "envs k' = (envs k)(e := new_env e parent (unat (page2pa p)) (envs k e))"
    "pmem (kvm k') = setup_mem p (kern_pgdir (kvm k)) (pmem (kvm k))"
    "pp_ref (kvm k') = (pp_ref (kvm k))(p := pp_ref (kvm k) p + 1)" by blast
  have "setup_mem p kd m x = m x" if "x < unat (page2pa p) \<or> unat (page2pa p) + 4096 \<le> x" for kd m x
    using that index_bounds(1) [of UVPT]
    by (auto simp: setup_mem_def Let_def pde_addr_def zero_page_def set32_other set_bytes_outside)
  with k' setup_mem_pde [OF assms(3,4)] show ?thesis by (simp add: pde_of_def new_env_def)
qed

theorem env_alloc_address_space_witness:
  "\<exists>k'. env_alloc 5 kern_small = ((0, Some 3), k') \<and> pde_of (kvm k') 8192 UVPT = 0x2005"
proof -
  have "page_free_list (kvm kern_small) = Some 2" "kern_pgdir (kvm kern_small) = 4096" "unat (page2pa 2) = 8192"
    by (simp_all add: kern_small_def vm_dir_def vm_small_def page2pa_nat)
  then show ?thesis using env_alloc_address_space [of kern_small 3 2 5]
    by (auto simp: kern_small_def PTE_P_def PTE_U_def)
qed

section \<open>The free list\<close>

definition free_envs :: "kern \<Rightarrow> nat list \<Rightarrow> bool" where
  "free_envs k xs \<longleftrightarrow> chain (\<lambda>i. env_link (envs k i)) (env_free_list k) xs \<and> distinct xs"

lemma env_init_loop_list:
  assumes "free_envs k xs" "\<forall>x\<in>set xs. n \<le> x"
  shows "free_envs (env_init_loop n k) ([0..<n] @ xs)
    \<and> (\<forall>i<n. env_status (envs (env_init_loop n k) i) = ENV_FREE \<and> env_id (envs (env_init_loop n k) i) = 0)
    \<and> (\<forall>i\<ge>n. envs (env_init_loop n k) i = envs k i) \<and> curenv (env_init_loop n k) = curenv k \<and> kvm (env_init_loop n k) = kvm k"
  using assms
proof (induction n arbitrary: k xs)
  case 0
  then show ?case by simp
next
  case (Suc n)
  let ?k = "(upd_env n (\<lambda>e. e\<lparr>env_id := 0, env_status := ENV_FREE, env_link := env_free_list k\<rparr>) k)\<lparr>env_free_list := Some n\<rparr>"
  have n: "n \<notin> set xs" using Suc.prems(2) by auto
  have "chain (\<lambda>i. env_link (envs ?k i)) q xs = chain (\<lambda>i. env_link (envs k i)) q xs" for q
    by (rule chain_cong) (use n in auto)
  then have "free_envs ?k (n # xs)" using Suc.prems(1) n by (simp add: free_envs_def)
  moreover have "\<forall>x\<in>set (n # xs). n \<le> x" using Suc.prems(2) by auto
  ultimately have IH: "free_envs (env_init_loop n ?k) ([0..<n] @ n # xs)"
    "\<forall>i<n. env_status (envs (env_init_loop n ?k) i) = ENV_FREE \<and> env_id (envs (env_init_loop n ?k) i) = 0"
    "\<forall>i\<ge>n. envs (env_init_loop n ?k) i = envs ?k i" "curenv (env_init_loop n ?k) = curenv ?k" "kvm (env_init_loop n ?k) = kvm ?k"
    using Suc.IH [of ?k "n # xs"] by blast+
  from IH(1,2) IH(3) [rule_format, of n] have
    "\<forall>i<Suc n. env_status (envs (env_init_loop n ?k) i) = ENV_FREE \<and> env_id (envs (env_init_loop n ?k) i) = 0"
    by (simp add: less_Suc_eq)
  moreover have "\<forall>i\<ge>Suc n. envs (env_init_loop n ?k) i = envs k i" using IH(3) by auto
  ultimately show ?case using IH(1,4,5) by simp
qed

text \<open>
  \<open>env_init\<close> makes every environment free with id 0 and puts them on the free list in the order
  of the array, so that the first \<open>env_alloc\<close> takes \<open>envs[0]\<close>.
\<close>

theorem env_init_order:
  assumes "env_free_list k = None"
  shows "free_envs (env_init k) [0..<NENV] \<and> env_free_list (env_init k) = Some 0
    \<and> (\<forall>i<NENV. env_status (envs (env_init k) i) = ENV_FREE \<and> env_id (envs (env_init k) i) = 0)"
proof -
  have "free_envs k []" using assms by (simp add: free_envs_def)
  from env_init_loop_list [OF this, of NENV]
  have *: "free_envs (env_init k) [0..<NENV]"
    "\<forall>i<NENV. env_status (envs (env_init k) i) = ENV_FREE \<and> env_id (envs (env_init k) i) = 0"
    by (simp_all add: env_init_def)
  moreover have "[0..<NENV] = 0 # [Suc 0..<NENV]" by (rule upt_conv_Cons) (simp add: NENV_def)
  ultimately show ?thesis by (simp add: free_envs_def)
qed

theorem env_init_order_witness:
  "free_envs (env_init (kern_small\<lparr>env_free_list := None\<rparr>)) [0..<NENV]"
  using env_init_order [of "kern_small\<lparr>env_free_list := None\<rparr>"] by simp

section \<open>Scheduling\<close>

text \<open>Only the current environment is marked running, and it is not marked runnable.\<close>

definition run_inv :: "kern \<Rightarrow> bool" where
  "run_inv k \<longleftrightarrow> (\<forall>i. env_status (envs k i) = ENV_RUNNING \<longrightarrow> curenv k = Some i)
     \<and> (\<forall>c. curenv k = Some c \<longrightarrow> c < NENV \<and> env_status (envs k c) \<noteq> ENV_RUNNABLE)
     \<and> (\<forall>i. env_status (envs k i) \<in> {ENV_RUNNABLE, ENV_RUNNING} \<longrightarrow> env_pgdir (envs k i) \<noteq> None)"

text \<open>The environments after a switch to \<open>j\<close>.\<close>

definition switched :: "nat \<Rightarrow> kern \<Rightarrow> nat \<Rightarrow> env" where
  "switched j k i =
     (if i = j then (envs k j)\<lparr>env_status := ENV_RUNNING, env_runs := env_runs (envs k j) + 1\<rparr>
      else if curenv k = Some i \<and> env_status (envs k i) = ENV_RUNNING then (envs k i)\<lparr>env_status := ENV_RUNNABLE\<rparr>
      else envs k i)"

lemma env_run_other:
  assumes "curenv k \<noteq> Some j" "env_pgdir (envs k j) = Some d"
  shows "env_run j k = Run j (k\<lparr>envs := switched j k, curenv := Some j, cr3 := d, kernel_lock := False\<rparr>)"
proof -
  have sw: "switched j k = (envs k')(j := (envs k' j)\<lparr>env_status := ENV_RUNNING, env_runs := env_runs (envs k' j) + 1\<rparr>)"
    if "k' = (case curenv k of None \<Rightarrow> k | Some c \<Rightarrow>
      if env_status (envs k c) = ENV_RUNNING then upd_env c (\<lambda>x. x\<lparr>env_status := ENV_RUNNABLE\<rparr>) k else k)" for k'
    using assms(1) that by (auto simp: fun_eq_iff switched_def split: option.splits)
  show ?thesis using assms
    by (cases "curenv k") (simp_all add: env_run_def Let_def spin_unlock_def sw [OF refl] upd_env_def)
qed

lemma switched_inv:
  assumes "run_inv k" "env_status (envs k j) = ENV_RUNNABLE" "j < NENV"
  shows "run_inv (k\<lparr>envs := switched j k, curenv := Some j, cr3 := d, kernel_lock := False\<rparr>)"
  using assms by (auto simp: run_inv_def switched_def)

lemma env_run_switch:
  assumes "run_inv k" "env_status (envs k j) = ENV_RUNNABLE" "j < NENV"
  shows "\<exists>k'. env_run j k = Run j k' \<and> run_inv k' \<and> curenv k' = Some j \<and> envs k' = switched j k
    \<and> Some (cr3 k') = env_pgdir (envs k j) \<and> \<not> kernel_lock k'"
proof -
  have "curenv k \<noteq> Some j" using assms by (auto simp: run_inv_def)
  moreover obtain d where d: "env_pgdir (envs k j) = Some d" using assms by (auto simp: run_inv_def)
  ultimately show ?thesis using env_run_other [of k j d] switched_inv [OF assms] by auto
qed

lemma sched_order_nth: "i < NENV \<Longrightarrow> sched_order k ! i =
    ((case curenv k of Some c \<Rightarrow> ENVX (env_id (envs k c)) | None \<Rightarrow> 0) + i) mod NENV"
  by (simp add: sched_order_def Let_def split: option.splits)

lemma length_sched_order [simp]: "length (sched_order k) = NENV"
  by (simp add: sched_order_def Let_def)

lemma set_sched_order: "set (sched_order k) = {..<NENV}"
proof -
  let ?c = "case curenv k of Some c \<Rightarrow> ENVX (env_id (envs k c)) | None \<Rightarrow> 0"
  have "j \<in> set (sched_order k)" if "j < NENV" for j
  proof -
    have "?c < NENV" by (simp split: option.splits) (simp add: NENV_def)
    then have "(?c + (j + NENV - ?c) mod NENV) mod NENV = (?c + (j + NENV - ?c)) mod NENV" by (simp add: mod_add_right_eq)
    also have "\<dots> = j" using \<open>?c < NENV\<close> that by simp
    finally have "sched_order k ! ((j + NENV - ?c) mod NENV) = j" using sched_order_nth [of "(j + NENV - ?c) mod NENV" k] by (simp add: NENV_def)
    then show ?thesis by (metis length_sched_order mod_less_divisor nth_mem that gr_implies_not0 not_gr0)
  qed
  then show ?thesis by (auto simp: sched_order_def Let_def NENV_def)
qed

text \<open>
  \<open>sched_yield\<close> is round robin.  If an environment is runnable, it enters user mode in the first
  runnable one found going round the array from the slot of the current environment: that one is
  marked running with its run counter incremented and its address space loaded, the environment
  that was running becomes runnable, all others are unchanged, and the kernel lock is released.
  With nothing runnable it resumes the current environment if that is still running; otherwise the
  processor halts with no current environment if a dying one is left, and enters the monitor if not.
\<close>

theorem sched_yield_round_robin:
  assumes inv: "run_inv k"
  defines "c \<equiv> case curenv k of Some c \<Rightarrow> ENVX (env_id (envs k c)) | None \<Rightarrow> 0"
  shows "if \<exists>j<NENV. env_status (envs k j) = ENV_RUNNABLE
    then \<exists>n<NENV. \<exists>k'. let j = (c + n) mod NENV in
        (sched_yield k :: 'a kout) = Run j k' \<and> env_status (envs k j) = ENV_RUNNABLE
        \<and> (\<forall>m<n. env_status (envs k ((c + m) mod NENV)) \<noteq> ENV_RUNNABLE)
        \<and> run_inv k' \<and> curenv k' = Some j \<and> envs k' = switched j k
        \<and> Some (cr3 k') = env_pgdir (envs k j) \<and> \<not> kernel_lock k'
    else if \<exists>e. curenv k = Some e \<and> env_status (envs k e) = ENV_RUNNING
    then (sched_yield k :: 'a kout) = Run (the (curenv k)) (k\<lparr>kernel_lock := False\<rparr>)
    else if \<exists>j<NENV. env_status (envs k j) = ENV_DYING
    then (sched_yield k :: 'a kout) = Halt (k\<lparr>curenv := None, cr3 := kern_pgdir (kvm k)\<rparr>)
    else (sched_yield k :: 'a kout) = Monitor k"
proof (cases "find (\<lambda>j. env_status (envs k j) = ENV_RUNNABLE) (sched_order k)")
  case None
  then have none: "\<forall>j<NENV. env_status (envs k j) \<noteq> ENV_RUNNABLE"
    using set_sched_order [of k] by (auto simp: find_None_iff)
  show ?thesis
  proof (cases "\<exists>e. curenv k = Some e \<and> env_status (envs k e) = ENV_RUNNING")
    case True
    then show ?thesis using none None by (auto simp: sched_yield_def env_run_def spin_unlock_def)
  next
    case False
    then have "sched_yield k = (sched_halt k :: 'a kout)" using None by (auto simp: sched_yield_def split: option.splits)
    moreover have "\<forall>j. env_status (envs k j) \<noteq> ENV_RUNNING" using inv False unfolding run_inv_def by blast
    ultimately show ?thesis using none False unfolding sched_halt_def by simp
  qed
next
  case (Some j)
  then obtain n where n: "n < NENV" "env_status (envs k (sched_order k ! n)) = ENV_RUNNABLE" "j = sched_order k ! n"
    "\<forall>m<n. env_status (envs k (sched_order k ! m)) \<noteq> ENV_RUNNABLE"
    by (auto simp: find_Some_iff)
  then have j: "j = (c + n) mod NENV" by (simp add: sched_order_nth c_def)
  then have jl: "j < NENV" by (simp add: NENV_def)
  have y: "sched_yield k = (env_run j k :: 'a kout)" using Some by (simp add: sched_yield_def)
  have prev: "\<forall>m<n. env_status (envs k ((c + m) mod NENV)) \<noteq> ENV_RUNNABLE"
    using n(1,4) by (auto simp: sched_order_nth c_def)
  have st: "env_status (envs k j) = ENV_RUNNABLE" using n(2,3) by simp
  from env_run_switch [OF inv st jl] obtain k' where k': "(env_run j k :: 'a kout) = Run j k'" "run_inv k'" "curenv k' = Some j"
    "envs k' = switched j k" "Some (cr3 k') = env_pgdir (envs k j)" "\<not> kernel_lock k'" by blast
  have "\<exists>n<NENV. \<exists>k'. let j = (c + n) mod NENV in
        (sched_yield k :: 'a kout) = Run j k' \<and> env_status (envs k j) = ENV_RUNNABLE
        \<and> (\<forall>m<n. env_status (envs k ((c + m) mod NENV)) \<noteq> ENV_RUNNABLE)
        \<and> run_inv k' \<and> curenv k' = Some j \<and> envs k' = switched j k
        \<and> Some (cr3 k') = env_pgdir (envs k j) \<and> \<not> kernel_lock k'"
    using n(1) k' y prev st unfolding j [symmetric] by (intro exI [of _ n] exI [of _ k']) (simp add: Let_def j [symmetric])
  moreover have "\<exists>j<NENV. env_status (envs k j) = ENV_RUNNABLE" using st jl by blast
  ultimately show ?thesis by (simp only: if_True)
qed

theorem sched_yield_round_robin_witness:
  "\<exists>k'. (sched_yield (kern_small\<lparr>envs := (\<lambda>i. if i = 7 then zero_env\<lparr>env_status := ENV_RUNNABLE, env_pgdir := Some 4096\<rparr> else zero_env)\<rparr>)
      :: unit kout) = Run 7 k' \<and> curenv k' = Some 7"
proof -
  let ?k = "kern_small\<lparr>envs := (\<lambda>i. if i = 7 then zero_env\<lparr>env_status := ENV_RUNNABLE, env_pgdir := Some 4096\<rparr> else zero_env)\<rparr>"
  have inv: "run_inv ?k" by (simp add: run_inv_def kern_small_def zero_env_def)
  have r: "\<exists>j<NENV. env_status (envs ?k j) = ENV_RUNNABLE" by (rule exI [of _ 7]) (simp add: NENV_def)
  obtain n k' where n: "(sched_yield ?k :: unit kout) = Run ((0 + n) mod NENV) k'" "curenv k' = Some ((0 + n) mod NENV)"
    "env_status (envs ?k ((0 + n) mod NENV)) = ENV_RUNNABLE"
    using sched_yield_round_robin [OF inv, where ?'a = unit] r by (auto simp: Let_def kern_small_def)
  from n(3) have "(0 + n) mod NENV = 7" by (simp add: zero_env_def split: if_splits)
  with n(1,2) show ?thesis by simp
qed

section \<open>Allocating and freeing\<close>

lemma free_pdes_empty:
  "\<forall>n\<in>set ns. get32 (pmem v) (pgdir + 4 * n) AND PTE_P = 0 \<Longrightarrow> free_pdes pgdir ns v = Some v"
  by (induction ns) (simp_all add: Let_def)

lemma pde_index: "n < 1024 \<Longrightarrow> unat (PDX (of_nat n * 4194304)) = n"
  by (simp add: unat_PDX unat_word_ariths unat_of_nat)

lemma user_indices: "unat (PDX UTOP) < unat (PDX UVPT)" "unat (PDX UTOP) < 1024"
  by (simp_all add: unat_PDX mmu_consts)

lemma setup_mem_user:
  assumes "kd mod 4096 = 0" "kd \<noteq> unat (page2pa p)" "n < unat (PDX UTOP)"
  shows "get32 (setup_mem p kd m) (unat (page2pa p) + 4 * n) = get32 m (kd + 4 * n)"
proof -
  have n: "n < 1024" "n \<noteq> unat (PDX UVPT)" using assms(3) user_indices by auto
  then have "PDX (of_nat n * 4194304) \<noteq> PDX UVPT" using pde_index [OF n(1)] by metis
  then show ?thesis using setup_mem_pde [OF assms(1,2), of m "of_nat n * 4194304"] pde_index [OF n(1)]
    by (simp add: pde_addr_def)
qed

lemma vm_of_cr3 [simp]: "vm_of (k\<lparr>cr3 := x\<rparr>) = vm_of k"
  by (simp add: vm_of_def)

lemma env_free_clean:
  assumes "env_pgdir (envs k e) = Some d" "free_pdes d [0..<unat (PDX UTOP)] (vm_of k) = Some (vm_of k)"
    and "pa2page (of_nat d) = p" "p < npages (kvm k)" "pp_ref (kvm k) p = 1" "pp_link (kvm k) p = None"
  shows "\<exists>k2. env_free e k = Some k2 \<and> pp_ref (kvm k2) = (pp_ref (kvm k))(p := 0) \<and> page_free_list (kvm k2) = Some p
    \<and> pp_link (kvm k2) = (pp_link (kvm k))(p := page_free_list (kvm k)) \<and> env_free_list k2 = Some e
    \<and> envs k2 = (envs k)(e := (envs k e)\<lparr>env_pgdir := None, env_status := ENV_FREE, env_link := env_free_list k\<rparr>)"
  using assms by (cases "curenv k = Some e") (simp_all add: env_free_def page_decref_def page_free_def Let_def)

text \<open>
  C26: \<open>env_free\<close> undoes \<open>env_alloc\<close>.  When the kernel's directory maps nothing below \<open>UTOP\<close>, freeing
  a new environment gives its directory page back, restores all reference counts and both free
  lists, and leaves an environment that no id reaches.
\<close>

theorem env_alloc_free_roundtrip:
  assumes "free_envs k (e # es)" "e < NENV" "free_pages (kvm k) (p # ps)" "p < npages (kvm k)" "npages (kvm k) \<le> 1048576"
    and "pp_ref (kvm k) p = 0" "kern_pgdir (kvm k) mod 4096 = 0" "kern_pgdir (kvm k) \<noteq> unat (page2pa p)"
    and user: "\<forall>n<unat (PDX UTOP). get32 (pmem (kvm k)) (kern_pgdir (kvm k) + 4 * n) AND PTE_P = 0"
  shows "\<exists>k1 k2. env_alloc parent k = ((0, Some e), k1) \<and> env_free e k1 = Some k2
    \<and> free_envs k2 (e # es) \<and> free_pages (kvm k2) (p # ps) \<and> pp_ref (kvm k2) = pp_ref (kvm k)
    \<and> env_pgdir (envs k2 e) = None
    \<and> (\<forall>x c. x \<noteq> 0 \<and> ENVX x = e \<longrightarrow> envid2env x c k2 = Some (- E_BAD_ENV, None))"
proof -
  let ?d = "unat (page2pa p)"
  have fl: "env_free_list k = Some e" "page_free_list (kvm k) = Some p" using assms(1,3) by (simp_all add: free_envs_def free_pages_def)
  from env_alloc_run [OF fl, of parent] obtain k1 where k1: "env_alloc parent k = ((0, Some e), k1)"
    "envs k1 = (envs k)(e := new_env e parent ?d (envs k e))" "env_free_list k1 = env_link (envs k e)"
    "pmem (kvm k1) = setup_mem p (kern_pgdir (kvm k)) (pmem (kvm k))" "npages (kvm k1) = npages (kvm k)"
    "page_free_list (kvm k1) = pp_link (kvm k) p" "pp_link (kvm k1) = (pp_link (kvm k))(p := None)"
    "pp_ref (kvm k1) = (pp_ref (kvm k))(p := pp_ref (kvm k) p + 1)" by blast
  have f: "free_pdes ?d [0..<unat (PDX UTOP)] (vm_of k1) = Some (vm_of k1)"
    by (rule free_pdes_empty) (use user setup_mem_user [OF assms(7,8)] k1(4) in auto)
  have pg: "env_pgdir (envs k1 e) = Some ?d" using k1(2) by (simp add: new_env_def)
  have pa: "pa2page (of_nat ?d) = p" using assms(4,5) by (simp add: pa2page_page2pa)
  have e: "e \<notin> set es" "distinct es" "chain (\<lambda>i. env_link (envs k i)) (env_link (envs k e)) es"
    and ps: "p \<notin> set ps" "distinct ps" "chain (pp_link (kvm k)) (pp_link (kvm k) p) ps"
    using assms(1,3) by (auto simp: free_envs_def free_pages_def)
  obtain k2 where k2: "env_free e k1 = Some k2" "pp_ref (kvm k2) = pp_ref (kvm k)" "page_free_list (kvm k2) = Some p"
    "pp_link (kvm k2) = (pp_link (kvm k))(p := pp_link (kvm k) p)" "env_free_list k2 = Some e"
    "envs k2 = (envs k1)(e := (envs k1 e)\<lparr>env_pgdir := None, env_status := ENV_FREE, env_link := env_link (envs k e)\<rparr>)"
    using env_free_clean [OF pg f pa] assms(4,6) k1 by (auto simp: fun_upd_idem)
  have "chain (\<lambda>i. env_link (envs k2 i)) q es = chain (\<lambda>i. env_link (envs k i)) q es" for q
    by (rule chain_cong) (use e(1) k1(2) k2(6) in auto)
  then have "free_envs k2 (e # es)" using e k2 by (simp add: free_envs_def)
  moreover have "free_pages (kvm k2) (p # ps)" using ps k2(3,4) by (simp add: free_pages_def)
  moreover have "\<forall>x c. x \<noteq> 0 \<and> ENVX x = e \<longrightarrow> envid2env x c k2 = Some (- E_BAD_ENV, None)"
    using k2(6) by (auto simp: envid2env_def Let_def)
  ultimately show ?thesis using k1(1) k2 by auto
qed

theorem env_alloc_free_roundtrip_witness:
  "\<exists>k1 k2. env_alloc 5 kern_small = ((0, Some 3), k1) \<and> env_free 3 k1 = Some k2
    \<and> free_envs k2 [3] \<and> free_pages (kvm k2) [2, 3]"
proof -
  have "free_envs kern_small [3]" "free_pages (kvm kern_small) [2, 3]"
    by (simp_all add: free_envs_def free_pages_def kern_small_def zero_env_def vm_dir_def vm_small_def)
  moreover have "get32 (pmem (kvm kern_small)) x = 0" for x
    by (simp add: kern_small_def vm_dir_def vm_small_def get32_def get16_def)
  moreover have "2 < npages (kvm kern_small)" "npages (kvm kern_small) \<le> 1048576" "pp_ref (kvm kern_small) 2 = 0"
    "kern_pgdir (kvm kern_small) = 4096" "unat (page2pa 2) = 8192"
    by (simp_all add: kern_small_def vm_dir_def vm_small_def page2pa_nat)
  ultimately show ?thesis using env_alloc_free_roundtrip [of kern_small 3 "[]" 2 "[3]" 5] by (auto simp: NENV_def)
qed

end
