(* ===== verification/TrapProps.thy ===== *)
theory TrapProps
  imports Trap EnvProps
begin

text \<open>
  Properties of the trap handler and of the system calls: the invariant of the environment table
  that every trap preserves, message passing, forking, and what the page calls check.
\<close>

section \<open>The invariant of the environment table\<close>

text \<open>
  The free list holds free environments only; every other environment has a page directory; only
  the current environment is marked running; and the current environment is not free, with its own
  page directory loaded.
\<close>

definition free_ok :: "kern \<Rightarrow> bool" where
  "free_ok k \<longleftrightarrow> (\<exists>xs. free_envs k xs \<and> (\<forall>x\<in>set xs. x < NENV \<and> env_status (envs k x) = ENV_FREE))"

definition kinv :: "kern \<Rightarrow> bool" where
  "kinv k \<longleftrightarrow>
     free_ok k
     \<and> (\<forall>i. env_status (envs k i) \<noteq> ENV_FREE \<longrightarrow> env_pgdir (envs k i) \<noteq> None)
     \<and> (\<forall>i. env_status (envs k i) = ENV_RUNNING \<longrightarrow> curenv k = Some i)
     \<and> (\<forall>c. curenv k = Some c \<longrightarrow> c < NENV \<and> env_status (envs k c) \<noteq> ENV_FREE \<and> env_pgdir (envs k c) = Some (cr3 k))"

definition good :: "nat option \<Rightarrow> 'a kout \<Rightarrow> bool" where
  "good c m = (case m of
     Ret x k \<Rightarrow> kinv k \<and> curenv k = c
   | Run e k \<Rightarrow> kinv k \<and> curenv k = Some e \<and> \<not> kernel_lock k
   | Halt k \<Rightarrow> kinv k \<and> curenv k = None
   | Monitor k \<Rightarrow> kinv k
   | Spin \<Rightarrow> False
   | Panic \<Rightarrow> True)"

lemma good_simps [simp]:
  "good c (Ret x k) = (kinv k \<and> curenv k = c)" "good c (Run e k) = (kinv k \<and> curenv k = Some e \<and> \<not> kernel_lock k)"
  "good c (Halt k) = (kinv k \<and> curenv k = None)" "good c (Monitor k) = kinv k" "good c Panic" "\<not> good c Spin"
  by (simp_all add: good_def)

lemma good_kbind:
  assumes "good c m" "\<And>x k. kinv k \<Longrightarrow> curenv k = c \<Longrightarrow> good d (f x k)"
  shows "good d (kbind m f)"
  using assms by (cases m) simp_all

lemma kinv_put_vm [simp]: "kinv (put_vm v k) = kinv k"
  by (simp add: kinv_def free_ok_def free_envs_def)

lemma kinv_cong:
  assumes "envs k' = envs k" "curenv k' = curenv k" "env_free_list k' = env_free_list k" "cr3 k' = cr3 k"
  shows "kinv k' = kinv k"
  using assms by (simp add: kinv_def free_ok_def free_envs_def)

lemma kinv_fields [simp]:
  "kinv (k\<lparr>kernel_lock := b\<rparr>) = kinv k" "kinv (k\<lparr>kcons := c\<rparr>) = kinv k" "kinv (spin_unlock k) = kinv k"
  "kinv (k\<lparr>kvm := v\<rparr>) = kinv k"
  by (rule kinv_cong; simp add: spin_unlock_def)+

text \<open>Changing fields of one environment that is in use.\<close>

lemma free_ok_other:
  assumes "free_ok k" "env_status (envs k e) \<noteq> ENV_FREE" "\<And>i. i \<noteq> e \<Longrightarrow> envs k' i = envs k i" "env_free_list k' = env_free_list k"
  shows "free_ok k'"
proof -
  from assms(1) obtain xs where xs: "free_envs k xs" "\<forall>x\<in>set xs. x < NENV \<and> env_status (envs k x) = ENV_FREE"
    by (auto simp: free_ok_def)
  then have ne: "e \<notin> set xs" using assms(2) by auto
  have "chain (\<lambda>i. env_link (envs k' i)) q xs = chain (\<lambda>i. env_link (envs k i)) q xs" for q
    by (rule chain_cong) (use ne assms(3) in metis)
  then have "free_envs k' xs" using xs(1) assms(4) by (simp add: free_envs_def)
  moreover have "\<forall>x\<in>set xs. x < NENV \<and> env_status (envs k' x) = ENV_FREE" using xs(2) ne assms(3) by metis
  ultimately show ?thesis unfolding free_ok_def by blast
qed

lemma kinv_upd:
  assumes "kinv k" "env_status (envs k e) \<noteq> ENV_FREE"
    and "env_pgdir (f (envs k e)) = env_pgdir (envs k e)" "env_status (f (envs k e)) \<noteq> ENV_FREE"
    and "env_status (f (envs k e)) = ENV_RUNNING \<longrightarrow> env_status (envs k e) = ENV_RUNNING"
  shows "kinv (upd_env e f k)"
proof -
  have "free_ok (upd_env e f k)" by (rule free_ok_other [of k e]) (use assms in \<open>auto simp: kinv_def\<close>)
  then show ?thesis using assms unfolding kinv_def by auto
qed

lemma kinv_env_free:
  assumes "kinv k" "e < NENV" "env_free e k = Some k'" "env_status (envs k e) \<noteq> ENV_FREE"
  shows "kinv (k'\<lparr>curenv := (if curenv k = Some e then None else curenv k)\<rparr>)"
    "curenv k' = curenv k" "kernel_lock k' = kernel_lock k"
proof -
  have k': "envs k' = (envs k)(e := (envs k e)\<lparr>env_pgdir := None, env_status := ENV_FREE, env_link := env_free_list k\<rparr>)"
    "env_free_list k' = Some e" "curenv k' = curenv k" "curenv k \<noteq> Some e \<longrightarrow> cr3 k' = cr3 k" "kernel_lock k' = kernel_lock k"
    using assms(3) by (auto simp: env_free_def bind_Some_iff Let_def split: if_splits)
  then show "curenv k' = curenv k" "kernel_lock k' = kernel_lock k" by simp_all
  from assms(1) obtain xs where xs: "free_envs k xs" "\<forall>x\<in>set xs. x < NENV \<and> env_status (envs k x) = ENV_FREE"
    by (auto simp: kinv_def free_ok_def)
  then have ne: "e \<notin> set xs" using assms(4) by auto
  have "chain (\<lambda>i. env_link (envs k' i)) q xs = chain (\<lambda>i. env_link (envs k i)) q xs" for q
    by (rule chain_cong) (use ne k'(1) in auto)
  then have "free_envs k' (e # xs)" using xs(1) ne k' by (simp add: free_envs_def)
  moreover have "\<forall>x\<in>set (e # xs). x < NENV \<and> env_status (envs k' x) = ENV_FREE" using xs(2) k'(1) assms(2) by auto
  ultimately have "free_ok k'" unfolding free_ok_def by blast
  then have "free_ok (k'\<lparr>curenv := (if curenv k = Some e then None else curenv k)\<rparr>)" by (simp add: free_ok_def free_envs_def)
  then show "kinv (k'\<lparr>curenv := (if curenv k = Some e then None else curenv k)\<rparr>)"
    using assms(1) k' unfolding kinv_def by auto
qed

lemma kinv_env_alloc:
  assumes "kinv k" "env_alloc parent k = ((r, oe), k')"
  shows "kinv k' \<and> curenv k' = curenv k \<and> (\<forall>e. oe = Some e \<longrightarrow> env_status (envs k' e) = ENV_RUNNABLE \<and> curenv k \<noteq> Some e)"
proof (cases "env_free_list k")
  case None
  then show ?thesis using assms env_alloc_errors(1) [OF None, of parent] by auto
next
  case (Some e)
  show ?thesis
  proof (cases "page_free_list (kvm k)")
    case None
    then show ?thesis using assms env_alloc_errors(2) [OF Some None, of parent] by auto
  next
    case p: (Some p)
    from env_alloc_run [OF Some p, of parent] assms(2) have k': "oe = Some e"
      "envs k' = (envs k)(e := new_env e parent (unat (page2pa p)) (envs k e))"
      "env_free_list k' = env_link (envs k e)" "curenv k' = curenv k" "cr3 k' = cr3 k" by auto
    from assms(1) obtain xs where xs: "free_envs k xs" "\<forall>x\<in>set xs. x < NENV \<and> env_status (envs k x) = ENV_FREE"
      by (auto simp: kinv_def free_ok_def)
    then obtain ys where ys: "xs = e # ys" using Some by (cases xs) (auto simp: free_envs_def)
    have "chain (\<lambda>i. env_link (envs k' i)) q ys = chain (\<lambda>i. env_link (envs k i)) q ys" for q
      by (rule chain_cong) (use xs(1) ys k'(2) in \<open>auto simp: free_envs_def\<close>)
    then have "free_envs k' ys" using xs(1) ys k'(3) by (simp add: free_envs_def)
    moreover have "\<forall>x\<in>set ys. x < NENV \<and> env_status (envs k' x) = ENV_FREE"
      using xs ys k'(2) by (auto simp: free_envs_def)
    ultimately have f: "free_ok k'" unfolding free_ok_def by blast
    have e: "env_status (envs k e) = ENV_FREE" using xs(2) ys by simp
    then have c: "curenv k \<noteq> Some e" using assms(1) by (auto simp: kinv_def)
    show ?thesis using f e c k' assms(1) unfolding kinv_def by (auto simp: new_env_def)
  qed
qed

section \<open>Every path keeps the invariant\<close>

lemma kinv_pgdir: "kinv k \<Longrightarrow> env_status (envs k i) \<noteq> ENV_FREE \<Longrightarrow> \<exists>d. env_pgdir (envs k i) = Some d"
  by (auto simp: kinv_def)

lemma kinv_running: "kinv k \<Longrightarrow> env_status (envs k i) = ENV_RUNNING \<Longrightarrow> curenv k = Some i"
  by (auto simp: kinv_def)

lemma kinv_cur: "kinv k \<Longrightarrow> curenv k = Some c \<Longrightarrow> c < NENV \<and> env_status (envs k c) \<noteq> ENV_FREE \<and> env_pgdir (envs k c) = Some (cr3 k)"
  by (auto simp: kinv_def)

lemma kinv_switched:
  assumes "kinv k" "j < NENV" "env_status (envs k j) = ENV_RUNNABLE" "env_pgdir (envs k j) = Some d"
  shows "kinv (k\<lparr>envs := switched j k, curenv := Some j, cr3 := d, kernel_lock := False\<rparr>)"
proof -
  from assms(1) obtain xs where xs: "free_envs k xs" "\<forall>x\<in>set xs. x < NENV \<and> env_status (envs k x) = ENV_FREE"
    by (auto simp: kinv_def free_ok_def)
  have "j \<notin> set xs" using xs(2) assms(3) by auto
  then have st: "\<forall>x\<in>set xs. switched j k x = envs k x" using xs(2) by (auto simp: switched_def)
  have "chain (\<lambda>i. env_link (switched j k i)) q xs = chain (\<lambda>i. env_link (envs k i)) q xs" for q
    by (rule chain_cong) (use st in simp)
  then have "free_ok (k\<lparr>envs := switched j k, curenv := Some j, cr3 := d, kernel_lock := False\<rparr>)"
    unfolding free_ok_def using xs st by (intro exI [of _ xs]) (simp add: free_envs_def)
  then show ?thesis using assms unfolding kinv_def by (auto simp: switched_def)
qed

lemma good_env_run:
  assumes "kinv k" "j < NENV" "env_status (envs k j) = ENV_RUNNABLE \<or> curenv k = Some j"
  shows "good q (env_run j k)"
proof (cases "curenv k = Some j")
  case True
  then show ?thesis using assms(1) by (simp add: env_run_def) (simp add: spin_unlock_def)
next
  case False
  then have r: "env_status (envs k j) = ENV_RUNNABLE" using assms(3) by simp
  with kinv_pgdir [OF assms(1), of j] obtain d where d: "env_pgdir (envs k j) = Some d" by auto
  show ?thesis using kinv_switched [OF assms(1,2) r d] by (simp add: env_run_other [OF False d])
qed

lemma kinv_idle: "kinv k \<Longrightarrow> \<forall>i. env_status (envs k i) = ENV_RUNNING \<longrightarrow> curenv k = None \<Longrightarrow> kinv (k\<lparr>curenv := None, cr3 := d\<rparr>)"
  by (auto simp: kinv_def free_ok_def free_envs_def)

lemma good_sched_halt:
  assumes "kinv k" "\<forall>c. curenv k = Some c \<longrightarrow> env_status (envs k c) \<noteq> ENV_RUNNING"
  shows "good q (sched_halt k)"
proof -
  have "\<forall>i. env_status (envs k i) \<noteq> ENV_RUNNING" using assms kinv_running by metis
  then show ?thesis using assms(1) kinv_idle [OF assms(1)] unfolding sched_halt_def by simp
qed

lemma good_sched_yield:
  assumes "kinv k"
  shows "good q (sched_yield k)"
proof (cases "find (\<lambda>j. env_status (envs k j) = ENV_RUNNABLE) (sched_order k)")
  case (Some j)
  then have "env_status (envs k j) = ENV_RUNNABLE" "j \<in> set (sched_order k)" by (auto simp: find_Some_iff)
  then show ?thesis using Some good_env_run [OF assms, of j] set_sched_order [of k] by (simp add: sched_yield_def)
next
  case None
  show ?thesis
  proof (cases "curenv k")
    case c: (Some c)
    then have "c < NENV" using assms by (simp add: kinv_def)
    then show ?thesis using None c good_env_run [OF assms, of c] good_sched_halt [OF assms] by (auto simp: sched_yield_def)
  next
    case n: None
    then show ?thesis using None good_sched_halt [OF assms] by (simp add: sched_yield_def)
  qed
qed

lemma good_env_destroy:
  assumes "kinv k" "e < NENV" "env_status (envs k e) \<noteq> ENV_FREE"
  shows "good (curenv k) (env_destroy e k)"
proof (cases "env_status (envs k e) = ENV_RUNNING \<and> curenv k \<noteq> Some e")
  case True
  then show ?thesis using kinv_running [OF assms(1), of e] by simp
next
  case False
  show ?thesis
  proof (cases "env_free e k")
    case None
    then show ?thesis unfolding env_destroy_def using False by auto
  next
    case (Some k')
    from kinv_env_free [OF assms(1,2) Some assms(3)]
    have k': "curenv k' = curenv k" "kinv (k'\<lparr>curenv := (if curenv k = Some e then None else curenv k)\<rparr>)" by auto
    show ?thesis
    proof (cases "curenv k = Some e")
      case True
      then show ?thesis using Some k' good_sched_yield [of "k'\<lparr>curenv := None\<rparr>"] by (simp add: env_destroy_def)
    next
      case ne: False
      have "kinv (k'\<lparr>curenv := curenv k\<rparr>) = kinv k'" by (rule kinv_cong) (simp_all add: k'(1))
      then show ?thesis using Some k' ne False by (auto simp: env_destroy_def)
    qed
  qed
qed

lemma envid2env_live:
  assumes "kinv k" "envid2env envid cp k = Some (r, Some e)"
  shows "e < NENV" "env_status (envs k e) \<noteq> ENV_FREE" "r = 0"
proof -
  have "e = ENVX envid \<or> curenv k = Some e" "env_status (envs k e) \<noteq> ENV_FREE \<and> r = 0"
    using assms by (auto simp: envid2env_def kinv_def Let_def split: if_splits option.splits)
  then show "e < NENV" "env_status (envs k e) \<noteq> ENV_FREE" "r = 0" using kinv_cur [OF assms(1), of e] by auto
qed

lemma good_with_env:
  assumes "kinv k" "\<And>e. e < NENV \<Longrightarrow> env_status (envs k e) \<noteq> ENV_FREE \<Longrightarrow> good (curenv k) (f e)"
  shows "good (curenv k) (with_env envid k f)"
proof (cases "envid2env envid True k")
  case None
  then show ?thesis by (simp add: with_env_def)
next
  case (Some re)
  obtain r oe where re: "re = (r, oe)" by (cases re)
  show ?thesis
  proof (cases oe)
    case None
    then show ?thesis using Some re assms(1) by (simp add: with_env_def)
  next
    case e: (Some e)
    then show ?thesis using envid2env_live [OF assms(1), of envid True r e] Some re assms by (simp add: with_env_def)
  qed
qed

lemma cputs_loop_kinv: "cputs_loop p precision k = Some k' \<Longrightarrow> kinv k' = kinv k \<and> curenv k' = curenv k"
proof (erule cputs_loop.raw_induct [where P = "\<lambda>p precision k k'. kinv k' = kinv k \<and> curenv k' = curenv k", rotated])
  fix f :: "u32 \<Rightarrow> int \<Rightarrow> kern \<Rightarrow> kern option" and p precision k k'
  assume IH: "\<And>p precision k k'. f p precision k = Some k' \<Longrightarrow> kinv k' = kinv k \<and> curenv k' = curenv k"
  show "Option.bind (translate (cr3 k) False p (pmem (kvm k))) (\<lambda>a. let ch = pmem (kvm k) a in
       if ch = 0 then Some k
       else if precision < 0 then f (p + 1) precision (k\<lparr>kcons := cons_putc (scast ch) (kcons k)\<rparr>)
       else if 0 \<le> precision - 1 then f (p + 1) (precision - 1) (k\<lparr>kcons := cons_putc (scast ch) (kcons k)\<rparr>)
       else Some k) = Some k' \<Longrightarrow> kinv k' = kinv k \<and> curenv k' = curenv k"
    by (auto simp: bind_Some_iff Let_def dest: IH split: if_splits)
qed

lemma kinv_sys_cputs: "kinv k \<Longrightarrow> sys_cputs s len k = Some k' \<Longrightarrow> kinv k' \<and> curenv k' = curenv k"
  using cputs_loop_kinv [of s "sint len" k k'] by (auto simp: sys_cputs_def split: if_splits)

lemma kinv_insert_in: "insert_in e pp va perm k = Some (r, k') \<Longrightarrow> kinv k' = kinv k \<and> curenv k' = curenv k"
  by (auto simp: insert_in_def bind_Some_iff)

lemma good_exofork:
  assumes "kinv k"
  shows "good (curenv k) (sys_exofork k)"
proof (cases "curenv k")
  case None
  then show ?thesis by (simp add: sys_exofork_def)
next
  case (Some c)
  obtain r oe k' where a: "env_alloc (env_id (envs k c)) k = ((r, oe), k')" by (metis prod.exhaust)
  from kinv_env_alloc [OF assms a] have k': "kinv k'" "curenv k' = Some c" "\<And>e. oe = Some e \<Longrightarrow> env_status (envs k' e) = ENV_RUNNABLE" using Some by auto
  show ?thesis
  proof (cases oe)
    case None
    then show ?thesis using Some a k' by (simp add: sys_exofork_def)
  next
    case e: (Some e)
    show ?thesis using Some a e k'
      by (auto simp: sys_exofork_def Let_def intro!: kinv_upd)
  qed
qed

lemma good_page_calls:
  assumes "kinv k"
  shows "good (curenv k) (sys_page_alloc envid va perm k)" "good (curenv k) (sys_page_unmap envid va k)"
    "good (curenv k) (sys_page_map envid srcva dstenvid dstva perm k)"
  unfolding sys_page_alloc_def sys_page_unmap_def sys_page_map_def
  by (intro good_with_env assms; auto simp: assms Let_def dest: kinv_insert_in split: prod.splits option.splits)+

lemma good_env_calls:
  assumes "kinv k"
  shows "good (curenv k) (sys_env_destroy envid k)" "good (curenv k) (sys_env_set_status envid status k)"
    "good (curenv k) (sys_env_set_trapframe envid tf k)" "good (curenv k) (sys_env_set_pgfault_upcall envid func k)"
proof -
  show "good (curenv k) (sys_env_destroy envid k)" unfolding sys_env_destroy_def
    by (rule good_with_env [OF assms], rule good_kbind [OF good_env_destroy [OF assms]]) simp_all
  show "good (curenv k) (sys_env_set_status envid status k)" unfolding sys_env_set_status_def
    by (auto simp: assms intro!: good_with_env kinv_upd)
  show "good (curenv k) (sys_env_set_trapframe envid tf k)" unfolding sys_env_set_trapframe_def
    by (auto simp: assms intro!: good_with_env kinv_upd split: option.splits)
  show "good (curenv k) (sys_env_set_pgfault_upcall envid func k)" unfolding sys_env_set_pgfault_upcall_def
    by (auto simp: assms intro!: good_with_env kinv_upd)
qed

lemma good_ipc_deliver:
  assumes "kinv k" "env_status (envs k e) \<noteq> ENV_FREE" "curenv k = q"
  shows "good q (ipc_deliver e value k)"
  using assms by (auto simp: ipc_deliver_def Let_def intro!: kinv_upd split: option.splits)

lemma insert_in_envs: "insert_in e pp va perm k = Some (r, k') \<Longrightarrow> envs k' = envs k \<and> curenv k' = curenv k"
  by (auto simp: insert_in_def bind_Some_iff)

lemma good_ipc_try_send:
  assumes "kinv k"
  shows "good (curenv k) (sys_ipc_try_send envid value srcva perm k)"
proof (cases "envid2env envid False k")
  case None
  then show ?thesis by (simp add: sys_ipc_try_send_def)
next
  case (Some re)
  obtain r oe where re: "re = (r, oe)" by (cases re)
  show ?thesis
  proof (cases oe)
    case None
    then show ?thesis using Some re assms by (simp add: sys_ipc_try_send_def)
  next
    case e: (Some e)
    then have live: "env_status (envs k e) \<noteq> ENV_FREE" using envid2env_live(2) [OF assms, of envid False r e] Some re by simp
    let ?k = "upd_env e (\<lambda>x. x\<lparr>env_ipc_recving := False\<rparr>) k"
    have k: "kinv ?k" "env_status (envs ?k e) \<noteq> ENV_FREE" using assms live by (auto intro: kinv_upd)
    have perm: "good (curenv k) (Ret x (upd_env e (\<lambda>x. x\<lparr>env_ipc_perm := 0\<rparr>) k'))"
      "good (curenv k) (ipc_deliver e value (upd_env e (\<lambda>x. x\<lparr>env_ipc_perm := perm\<rparr>) k'))"
      if "insert_in e pp va perm (put_vm v ?k) = Some (r', k')" for k' v r' pp va x
      using kinv_insert_in [OF that] insert_in_envs [OF that] k
      by (auto intro!: kinv_upd good_ipc_deliver)
    have dlv: "good (curenv k) (ipc_deliver e value ?k)" "good (curenv k) (ipc_deliver e value (put_vm v ?k))" for v
      using k by (auto intro!: good_ipc_deliver)
    show ?thesis using Some re e assms k(1) perm dlv unfolding sys_ipc_try_send_def
      by (simp add: Let_def split: option.splits prod.splits)
  qed
qed

lemma good_ipc_recv:
  assumes "kinv k"
  shows "good (curenv k) (sys_ipc_recv dstva k)"
proof (cases "curenv k")
  case None
  then show ?thesis using assms by (simp add: sys_ipc_recv_def)
next
  case (Some c)
  then have "kinv (upd_env c (\<lambda>x. x\<lparr>env_ipc_recving := True, env_ipc_dstva := dstva, env_status := ENV_NOT_RUNNABLE\<rparr>) k)"
    using assms kinv_cur [OF assms Some] by (auto intro!: kinv_upd)
  then show ?thesis using Some assms by (auto simp: sys_ipc_recv_def intro!: good_kbind good_sched_yield)
qed

lemma good_syscall:
  assumes "kinv k"
  shows "good (curenv k) (syscall n a1 a2 a3 a4 a5 k)"
proof -
  obtain r where "cons_getc (kcons k) = Some r" using cons_getc_terminates by blast
  then have "good (curenv k) (sys_cgetc k)" using assms by (simp add: sys_cgetc_def split: prod.splits)
  moreover have "good (curenv k) (sys_getenvid k)" using assms by (simp add: sys_getenvid_def split: option.splits)
  moreover have "good (curenv k) (sys_yield k)" using good_sched_yield [OF assms] by (simp add: sys_yield_def)
  moreover have "good (curenv k) (case sys_cputs a1 a2 k of None \<Rightarrow> Panic | Some k \<Rightarrow> Ret (0 :: i32) k)"
    using kinv_sys_cputs [OF assms] by (simp split: option.splits)
  ultimately show ?thesis unfolding syscall_def if_distrib [of "good (curenv k)"]
    by (simp only: good_exofork [OF assms] good_page_calls [OF assms] good_env_calls [OF assms]
        good_ipc_try_send [OF assms] good_ipc_recv [OF assms] good_simps assms if_cancel simp_thms)
qed

lemma good_page_fault:
  assumes "kinv k"
  shows "good (curenv k) (page_fault_handler fault_va tf k)"
proof (cases "curenv k")
  case None
  then show ?thesis by (simp add: page_fault_handler_def)
next
  case (Some c)
  note cur = kinv_cur [OF assms Some]
  have "good q (env_run c (upd_env c (\<lambda>x. x\<lparr>env_tf := (env_tf x)\<lparr>tf_eip := env_pgfault_upcall x, tf_esp := a\<rparr>\<rparr>) k') :: unit kout)"
    if "vmem_store va bs k = Some k'" for va bs k' q a
  proof -
    have k': "kinv k'" "curenv k' = curenv k" "envs k' = envs k" using that(1) assms by (auto simp: vmem_store_def bind_Some_iff)
    then have "kinv (upd_env c (\<lambda>x. x\<lparr>env_tf := (env_tf x)\<lparr>tf_eip := env_pgfault_upcall x, tf_esp := a\<rparr>\<rparr>) k')"
      using cur by (intro kinv_upd) auto
    then show ?thesis using cur Some k' by (intro good_env_run) auto
  qed
  moreover have "good (curenv k) (env_destroy c k)" using cur assms by (intro good_env_destroy) auto
  ultimately show ?thesis using Some by (simp add: page_fault_handler_def split: option.splits)
qed

lemma good_trap_dispatch:
  assumes "kinv k" "\<forall>c. at = Some c \<longrightarrow> curenv k = Some c"
  shows "good (curenv k) (trap_dispatch at cr2 tf k)"
proof -
  let ?r = "tf_regs tf"
  have sys: "good (curenv k) (kbind (syscall (reg_eax ?r) (reg_edx ?r) (reg_ecx ?r) (reg_ebx ?r) (reg_edi ?r) (reg_esi ?r) k)
      (\<lambda>ret k. Ret () (case at of None \<Rightarrow> k
        | Some e \<Rightarrow> upd_env e (\<lambda>x. x\<lparr>env_tf := (env_tf x)\<lparr>tf_regs := (tf_regs (env_tf x))\<lparr>reg_eax := ret\<rparr>\<rparr>\<rparr>) k)))"
  proof (rule good_kbind [OF good_syscall [OF assms(1)]])
    fix ret k'
    assume k': "kinv k'" "curenv k' = curenv k"
    show "good (curenv k) (Ret () (case at of None \<Rightarrow> k'
        | Some e \<Rightarrow> upd_env e (\<lambda>x. x\<lparr>env_tf := (env_tf x)\<lparr>tf_regs := (tf_regs (env_tf x))\<lparr>reg_eax := ret\<rparr>\<rparr>\<rparr>) k'))"
    proof (cases at)
      case (Some e)
      then have "env_status (envs k' e) \<noteq> ENV_FREE" using kinv_cur [OF k'(1), of e] k'(2) assms(2) by simp
      then show ?thesis using Some k' by (auto intro!: kinv_upd)
    qed (use k' in simp)
  qed
  obtain c1 c2 where "kbd_intr (kcons k) = Some c1" "serial_intr (kcons k) = Some c2" using intr_terminates by metis
  moreover have "good (curenv k) (case curenv k of None \<Rightarrow> Panic | Some c \<Rightarrow> env_destroy c k)"
    using kinv_cur [OF assms(1)] good_env_destroy [OF assms(1)] by (auto split: option.splits)
  ultimately show ?thesis
    unfolding trap_dispatch_def Let_def if_distrib [of "good (curenv k)"]
    using assms(1) sys by (simp add: good_page_fault good_sched_yield)
qed

lemma good_trap_return:
  assumes "kinv k"
  shows "good q (trap_return k)"
  using good_sched_yield [OF assms] kinv_cur [OF assms] good_env_run [OF assms]
  by (auto simp: trap_return_def split: option.splits)

lemma env_run_no_return: "env_run e k \<noteq> Ret z k'"
  by (auto simp: env_run_def Let_def split: option.splits if_splits)

lemma sched_halt_no_return: "sched_halt k \<noteq> Ret z k'"
  by (simp add: sched_halt_def)

lemma sched_yield_no_return: "sched_yield k \<noteq> Ret z k'"
  by (simp add: sched_yield_def env_run_no_return sched_halt_no_return split: option.splits)

lemma trap_return_no_return: "trap_return k \<noteq> Ret z k'"
  by (simp add: trap_return_def env_run_no_return sched_yield_no_return split: option.splits)

lemma kbind_no_return: "(\<And>x k. f x k \<noteq> Ret z k') \<Longrightarrow> kbind m f \<noteq> Ret z k'"
  by (cases m) auto

lemma good_trap:
  assumes "kinv k" "tf_cs tf AND 3 = 3 \<longrightarrow> \<not> kernel_lock k"
  shows "good q (trap cr2 tf k)"
proof (cases "tf_cs tf AND 3 = 3")
  case False
  have "good q (kbind (trap_dispatch None cr2 tf k) (\<lambda>_. trap_return))"
    by (rule good_kbind [OF good_trap_dispatch [OF assms(1)]]) (simp_all add: good_trap_return)
  then show ?thesis using False by (simp add: trap_def)
next
  case True
  let ?k = "k\<lparr>kernel_lock := True\<rparr>"
  have lock: "spin_lock k = Ret () ?k" "kinv ?k" "curenv ?k = curenv k" using assms True by (simp_all add: spin_lock_def)
  show ?thesis
  proof (cases "curenv k")
    case None
    then show ?thesis using True lock by (simp add: trap_def)
  next
    case (Some c)
    note cur = kinv_cur [OF lock(2), of c]
    have die: "good q (case env_free c ?k of None \<Rightarrow> Panic | Some k \<Rightarrow> (sched_yield (k\<lparr>curenv := None\<rparr>) :: unit kout))"
      using kinv_env_free(1) [OF lock(2), of c] cur Some by (auto intro!: good_sched_yield split: option.splits)
    have "kinv (upd_env c (\<lambda>x. x\<lparr>env_tf := tf\<rparr>) ?k)" using lock(2) cur Some by (auto intro!: kinv_upd)
    then have "good q (kbind (trap_dispatch (Some c) cr2 tf (upd_env c (\<lambda>x. x\<lparr>env_tf := tf\<rparr>) ?k)) (\<lambda>_. trap_return))"
      using Some by (intro good_kbind [OF good_trap_dispatch]) (simp_all add: good_trap_return)
    with die show ?thesis using True lock Some by (simp add: trap_def)
  qed
qed

lemma trap_no_return: "trap cr2 tf k \<noteq> Ret z k'"
proof -
  have "kbind m (\<lambda>_. trap_return) \<noteq> Ret z k'" for m :: "unit kout"
    by (rule kbind_no_return) (rule trap_return_no_return)
  then show ?thesis
    by (auto simp: trap_def sched_yield_no_return intro!: kbind_no_return split: option.splits if_splits)
qed

text \<open>
  C3: every trap preserves the invariant of the environment table and the lock discipline.  From a
  state with the invariant, where a trap from user mode finds the kernel lock free, the handler
  never spins on the lock and never returns to its caller.  When it enters user mode in an
  environment, the invariant holds again, that environment is the current one, it is not free,
  the page directory loaded is its own, and the lock is free; when it halts, the invariant holds
  with no current environment; in the monitor the invariant holds.
\<close>

theorem trap_keeps_invariant:
  assumes "kinv k" "tf_cs tf AND 3 = 3 \<longrightarrow> \<not> kernel_lock k"
  shows "case trap cr2 tf k of
      Run e k' \<Rightarrow> kinv k' \<and> curenv k' = Some e \<and> e < NENV \<and> env_status (envs k' e) \<noteq> ENV_FREE
        \<and> env_pgdir (envs k' e) = Some (cr3 k') \<and> \<not> kernel_lock k'
    | Halt k' \<Rightarrow> kinv k' \<and> curenv k' = None
    | Monitor k' \<Rightarrow> kinv k'
    | Panic \<Rightarrow> True
    | Ret _ _ \<Rightarrow> False
    | Spin \<Rightarrow> False"
proof -
  have g: "good None (trap cr2 tf k)" by (rule good_trap [OF assms])
  show ?thesis
  proof (cases "trap cr2 tf k")
    case (Ret x k')
    then show ?thesis using trap_no_return by blast
  next
    case (Run e k')
    then show ?thesis using g kinv_cur [of k' e] by simp
  qed (use g in simp_all)
qed

text \<open>A kernel with one environment running and a second one waiting for a message.\<close>

definition kern_two :: kern where
  "kern_two = kern_small\<lparr>curenv := Some 0, cr3 := 4096, kernel_lock := False, env_free_list := None,
     envs := (\<lambda>i. if i = 0 then zero_env\<lparr>env_id := 0x1000, env_status := ENV_RUNNING, env_pgdir := Some 4096\<rparr>
       else if i = 1 then zero_env\<lparr>env_id := 0x1001, env_parent_id := 0x1000, env_status := ENV_NOT_RUNNABLE, env_pgdir := Some 12288,
         env_ipc_recving := True, env_ipc_dstva := UTOP\<rparr> else zero_env)\<rparr>"

lemma kern_two_inv: "kinv kern_two"
proof -
  have "free_ok kern_two" by (auto simp: free_ok_def free_envs_def kern_two_def intro!: exI [of _ "[]"])
  then show ?thesis by (simp add: kinv_def kern_two_def zero_env_def NENV_def)
qed

theorem trap_keeps_invariant_witness:
  "case trap 0 (zero_tf\<lparr>tf_cs := 0x1B, tf_trapno := 32\<rparr>) kern_two of
      Run e k' \<Rightarrow> kinv k' \<and> env_pgdir (envs k' e) = Some (cr3 k') \<and> \<not> kernel_lock k'
    | Halt k' \<Rightarrow> kinv k' | Monitor k' \<Rightarrow> kinv k' | Panic \<Rightarrow> True | Ret _ _ \<Rightarrow> False | Spin \<Rightarrow> False"
proof -
  let ?tf = "zero_tf\<lparr>tf_cs := 0x1B, tf_trapno := 32\<rparr>"
  have "tf_cs ?tf AND 3 = 3 \<longrightarrow> \<not> kernel_lock kern_two" by (simp add: kern_two_def)
  from trap_keeps_invariant [OF kern_two_inv this, of 0] show ?thesis by (simp split: kout.splits)
qed

section \<open>Messages\<close>

text \<open>
  A send that fails its checks still stops the receiver.  If the receiver waits and the sender
  passes a page address below \<open>UTOP\<close> with permissions that are not allowed, the call reports
  \<open>-E_INVAL\<close>, but the receiver is no longer receiving and stays blocked: every later send is refused
  with \<open>-E_IPC_NOT_RECV\<close>.  The comment of the function says the message only happens without errors.
\<close>

theorem ipc_failed_send_strands_receiver:
  assumes "envid2env envid False k = Some (0, Some e)" "env_ipc_recving (envs k e)" "srcva < UTOP" "\<not> perm_ok perm"
    and "env_status (envs k e) = ENV_NOT_RUNNABLE"
  shows "\<exists>k'. sys_ipc_try_send envid value srcva perm k = Ret (err E_INVAL) k'
    \<and> env_status (envs k' e) = ENV_NOT_RUNNABLE \<and> \<not> env_ipc_recving (envs k' e)
    \<and> (\<forall>v va p. sys_ipc_try_send envid v va p k' = Ret (err E_IPC_NOT_RECV) k')"
proof -
  let ?k = "upd_env e (\<lambda>x. x\<lparr>env_ipc_recving := False\<rparr>) k"
  have "sys_ipc_try_send envid value srcva perm k = Ret (err E_INVAL) ?k"
    using assms by (simp add: sys_ipc_try_send_def Let_def)
  moreover have "envid2env envid False ?k = Some (0, Some e)"
    using assms(1) by (auto simp: envid2env_def Let_def split: if_splits)
  then have "sys_ipc_try_send envid v va p ?k = Ret (err E_IPC_NOT_RECV) ?k" for v va p
    by (simp add: sys_ipc_try_send_def)
  ultimately show ?thesis using assms(5) by auto
qed

theorem ipc_failed_send_strands_receiver_witness:
  "\<exists>k'. sys_ipc_try_send 0x1001 42 0 0 kern_two = Ret (err E_INVAL) k' \<and> \<not> env_ipc_recving (envs k' 1)
    \<and> env_status (envs k' 1) = ENV_NOT_RUNNABLE"
proof -
  have e: "envid2env 0x1001 False kern_two = Some (0, Some 1)" "env_ipc_recving (envs kern_two 1)"
    "env_status (envs kern_two 1) = ENV_NOT_RUNNABLE" "(0 :: u32) < UTOP" "\<not> perm_ok 0"
    by (simp_all add: envid2env_def kern_two_def ENVX_def mmu_consts perm_ok_def)
  show ?thesis using ipc_failed_send_strands_receiver [OF e(1,2,4,5,3), of 42] by blast
qed

section \<open>Permissions and forking\<close>

text \<open>
  C27: permissions.  If an environment in use is neither the caller nor a child of the caller, then destroying
  it, changing its status, its registers or its fault handler, allocating and unmapping pages in it, and mapping
  pages from it or, whatever the source, into it all report \<open>-E_BAD_ENV\<close> and change nothing.  The one call that needs
  no permission is sending a message, and it changes nothing either and reports \<open>-E_IPC_NOT_RECV\<close> unless the
  environment waits for one.
\<close>

theorem syscalls_need_permission:
  assumes "curenv k = Some c" "envid \<noteq> 0" "env_id (envs k (ENVX envid)) = envid" "env_status (envs k (ENVX envid)) \<noteq> ENV_FREE"
    and "ENVX envid \<noteq> c" "env_parent_id (envs k (ENVX envid)) \<noteq> env_id (envs k c)"
  shows "sys_env_destroy envid k = Ret (err E_BAD_ENV) k
    \<and> (status = 2 \<or> status = 4 \<longrightarrow> sys_env_set_status envid status k = Ret (err E_BAD_ENV) k)
    \<and> sys_env_set_trapframe envid tf k = Ret (err E_BAD_ENV) k
    \<and> sys_env_set_pgfault_upcall envid func k = Ret (err E_BAD_ENV) k
    \<and> sys_page_alloc envid va perm k = Ret (err E_BAD_ENV) k
    \<and> sys_page_unmap envid va k = Ret (err E_BAD_ENV) k
    \<and> sys_page_map envid srcva dstenvid dstva perm k = Ret (err E_BAD_ENV) k
    \<and> sys_page_map srcenvid srcva envid dstva perm k = Ret (err E_BAD_ENV) k
    \<and> (\<not> env_ipc_recving (envs k (ENVX envid)) \<longrightarrow> sys_ipc_try_send envid value srcva perm k = Ret (err E_IPC_NOT_RECV) k)"
proof -
  have bad: "with_env envid k f = Ret (err E_BAD_ENV) k" for f
    using assms by (simp add: with_env_def envid2env_def Let_def E_BAD_ENV_def)
  have any: "with_env srcenvid k f = Ret (err E_BAD_ENV) k \<or> (\<exists>e. with_env srcenvid k f = f e)" for f
    using assms(1) by (auto simp: with_env_def envid2env_def Let_def E_BAD_ENV_def)
  have src: "sys_page_map srcenvid srcva envid dstva perm k = Ret (err E_BAD_ENV) k"
    unfolding sys_page_map_def bad using any [of "\<lambda>_. Ret (err E_BAD_ENV) k"] by auto
  have "envid2env envid False k = Some (0, Some (ENVX envid))" using assms by (simp add: envid2env_def Let_def)
  with bad src show ?thesis
    by (simp add: sys_env_destroy_def sys_env_set_status_def sys_env_set_trapframe_def sys_env_set_pgfault_upcall_def
        sys_page_alloc_def sys_page_unmap_def sys_page_map_def sys_ipc_try_send_def)
qed

theorem syscalls_need_permission_witness:
  "sys_page_alloc 0x1001 0 5 (kern_two\<lparr>curenv := Some 7\<rparr>) = Ret (err E_BAD_ENV) (kern_two\<lparr>curenv := Some 7\<rparr>)
    \<and> sys_page_map 0x1000 0 0x1001 0 5 (kern_two\<lparr>curenv := Some 7\<rparr>) = Ret (err E_BAD_ENV) (kern_two\<lparr>curenv := Some 7\<rparr>)"
  using syscalls_need_permission [of "kern_two\<lparr>curenv := Some 7\<rparr>" 7 "0x1001" 2 0 0 0 5 0 0 0 "0x1000" 0]
  by (simp add: kern_two_def ENVX_def zero_env_def)

text \<open>
  \<open>sys_exofork\<close>.  The child gets the caller's registers with 0 in \<open>eax\<close>, so that the call appears
  to return 0 in it, is not runnable, and names the caller as its parent, which therefore may
  operate on it; the caller gets the child's positive id.  No other environment changes.
\<close>

theorem exofork_child:
  assumes "curenv k = Some c" "env_free_list k = Some e" "e < NENV" "e \<noteq> c" "page_free_list (kvm k) = Some p"
  shows "\<exists>k' child. sys_exofork k = Ret child k' \<and> env_id (envs k' e) = child \<and> 0 < sint child
    \<and> env_status (envs k' e) = ENV_NOT_RUNNABLE \<and> env_parent_id (envs k' e) = env_id (envs k c)
    \<and> env_tf (envs k' e) = (env_tf (envs k c))\<lparr>tf_regs := (tf_regs (env_tf (envs k c)))\<lparr>reg_eax := 0\<rparr>\<rparr>
    \<and> envid2env child True k' = Some (0, Some e) \<and> (\<forall>i. i \<noteq> e \<longrightarrow> envs k' i = envs k i)"
proof -
  from env_alloc_run [OF assms(2,5), of "env_id (envs k c)"] obtain k1 where
    k1: "env_alloc (env_id (envs k c)) k = ((0, Some e), k1)"
    "envs k1 = (envs k)(e := new_env e (env_id (envs k c)) (unat (page2pa p)) (envs k e))" "curenv k1 = Some c"
    using assms(1) by auto
  have e: "e < 1024" using assms(3) by (simp add: NENV_def)
  note id = next_id_props [OF e, of "env_id (envs k e)"]
  have nz: "next_id e (env_id (envs k e)) \<noteq> 0" using id(1) by auto
  show ?thesis using assms(1,4) k1 id nz
    by (auto simp: sys_exofork_def Let_def new_env_def envid2env_def)
qed

theorem exofork_child_witness:
  "\<exists>k' child. sys_exofork (kern_two\<lparr>env_free_list := Some 3\<rparr>) = Ret child k' \<and> 0 < sint child
    \<and> env_status (envs k' 3) = ENV_NOT_RUNNABLE \<and> env_parent_id (envs k' 3) = 0x1000"
proof -
  let ?k = "kern_two\<lparr>env_free_list := Some 3\<rparr>"
  have "curenv ?k = Some 0" "page_free_list (kvm ?k) = Some 2" "(3 :: nat) < NENV" "env_id (envs ?k 0) = 0x1000"
    by (simp_all add: kern_two_def kern_small_def vm_dir_def vm_small_def NENV_def)
  then show ?thesis using exofork_child [of ?k 0 3 2] by auto
qed

end
