(* ===== verification/FaultProps.thy ===== *)
theory FaultProps
  imports TrapProps
begin

text \<open>
  The page-fault upcall: loads and stores of the kernel inside one user page, and the frame that
  \<open>page_fault_handler\<close> pushes on the exception stack.
\<close>

section \<open>Accesses inside one page\<close>

lemma unat_add_in_page:
  assumes "unat (PGOFF va) + i < 4096"
  shows "unat (va + of_nat i :: u32) = unat va + i"
proof -
  have "unat va = unat va div 4096 * 4096 + unat (PGOFF va)" by (simp add: unat_PGOFF)
  moreover have "unat va div 4096 < 1048576" by (rule less_mult_imp_div_less) (use unsigned_less [of va] in simp)
  ultimately have "unat va + i < 4294967296" using assms by linarith
  then show ?thesis by (simp add: unat_word_ariths unat_of_nat)
qed

lemma in_page_index:
  assumes "unat (PGOFF va) + i < 4096"
  shows "PDX (va + of_nat i) = PDX va" "PTX (va + of_nat i) = PTX va" "unat (PGOFF (va + of_nat i)) = unat (PGOFF va) + i"
proof -
  note s = unat_add_in_page [OF assms]
  define q r where "q = unat va div 4096" and "r = unat va mod 4096"
  have v: "unat va = q * 4096 + r" "r + i < 4096" using assms by (simp_all add: q_def r_def unat_PGOFF)
  have d: "(q * 4096 + r + i) div 4096 = q" using v(2) by (simp add: add.assoc)
  have "(unat va + i) div 4194304 = unat va div 4194304"
    using d v by (simp add: div_mult2_eq [of _ 4096 1024, simplified])
  then show "PDX (va + of_nat i) = PDX va" unfolding word_unat_eq_iff unat_PDX s by simp
  show "PTX (va + of_nat i) = PTX va" unfolding word_unat_eq_iff unat_PTX s using d v by simp
  show "unat (PGOFF (va + of_nat i)) = unat (PGOFF va) + i" unfolding unat_PGOFF s using v by (simp add: add.assoc)
qed

lemma translate_in_page:
  assumes "unat (PGOFF va) + i < 4096" "translate d wr va m = Some a"
  shows "translate d wr (va + of_nat i) m = Some (a + i)"
  using assms in_page_index [OF assms(1)]
  by (auto simp: translate_def pde_addr_def pte_addr_def Let_def split: if_splits)

text \<open>Stores that leave the two entries of the translation alone.\<close>

definition entries_outside :: "nat \<Rightarrow> u32 \<Rightarrow> nat \<Rightarrow> nat \<Rightarrow> bytemem \<Rightarrow> bool" where
  "entries_outside d va a n m \<longleftrightarrow>
     (let pd = pde_addr d va; pt = pte_addr (get32 m pd) va in
      (pd + 4 \<le> a \<or> a + n \<le> pd) \<and> (pt + 4 \<le> a \<or> a + n \<le> pt))"

lemma translate_cong:
  assumes "entries_outside d va a n m" "\<And>x. x < a \<or> a + n \<le> x \<Longrightarrow> m' x = m x"
  shows "translate d wr va m' = translate d wr va m"
proof -
  let ?pd = "pde_addr d va"
  let ?pt = "pte_addr (get32 m ?pd) va"
  have "get32 m' ?pd = get32 m ?pd" "get32 m' ?pt = get32 m ?pt"
    using assms(1) by (auto intro!: get32_cong assms(2) simp: entries_outside_def Let_def)
  then show ?thesis unfolding translate_def Let_def by (simp only:)
qed

lemma vstore_in_page:
  assumes "unat (PGOFF va) + j + length bs \<le> 4096" "translate d True va m = Some a" "entries_outside d va a n m"
    and "j + length bs \<le> n" "\<And>x. x < a \<or> a + n \<le> x \<Longrightarrow> m' x = m x"
  shows "vstore d (va + of_nat j) bs m' = Some (set_bytes (a + j) bs m')"
  using assms
proof (induction bs arbitrary: j m')
  case Nil
  then show ?case by simp
next
  case (Cons b bs)
  have t: "translate d True va m' = Some a" using translate_cong [OF Cons(4,6)] Cons(3) by simp
  have step: "translate d True (va + of_nat j) m' = Some (a + j)"
    by (rule translate_in_page [OF _ t]) (use Cons(2) in simp)
  have "vstore d (va + of_nat (Suc j)) bs (m'(a + j := b)) = Some (set_bytes (a + Suc j) bs (m'(a + j := b)))"
    using Cons(2,5,6) by (intro Cons(1) [OF _ Cons(3,4)]) auto
  then show ?case using step by (simp add: add.commute add.left_commute)
qed

lemma vload_in_page:
  assumes "unat (PGOFF va) + j + n \<le> 4096" "translate d False va m = Some a"
  shows "vload d (va + of_nat j) n m = Some (get_bytes m (a + j) n)"
  using assms
proof (induction n arbitrary: j)
  case 0
  then show ?case by simp
next
  case (Suc n)
  have "translate d False (va + of_nat j) m = Some (a + j)"
    by (rule translate_in_page [OF _ Suc(3)]) (use Suc(2) in simp)
  moreover have "vload d (va + of_nat (Suc j)) n m = Some (get_bytes m (a + Suc j) n)"
    using Suc(2) by (intro Suc(1) [OF _ Suc(3)]) simp
  ultimately show ?case by (simp add: get_bytes_Suc add.commute add.left_commute)
qed

lemma translate_read: "translate d True va m = Some a \<Longrightarrow> translate d False va m = Some a"
  by (auto simp: translate_def Let_def split: if_splits)

lemma length_utf_bytes: "length (utf_bytes va tf) = 52"
  by (simp add: utf_bytes_def regs_bytes_def le32_def)

lemma store_frame:
  assumes "unat (PGOFF va) + 52 \<le> 4096" "translate (cr3 k) True va (pmem (kvm k)) = Some a"
    and "entries_outside (cr3 k) va a 52 (pmem (kvm k))" "length bs = 52"
  shows "\<exists>k'. vmem_store va bs k = Some k' \<and> pmem (kvm k') = set_bytes a bs (pmem (kvm k)) \<and> envs k' = envs k
    \<and> curenv k' = curenv k \<and> cr3 k' = cr3 k \<and> vload (cr3 k) va 52 (pmem (kvm k')) = Some bs"
proof -
  let ?m = "pmem (kvm k)"
  have st: "vstore (cr3 k) va bs ?m = Some (set_bytes a bs ?m)"
    using vstore_in_page [of va 0 bs "cr3 k" ?m a 52 ?m] assms by simp
  have "translate (cr3 k) False va (set_bytes a bs ?m) = Some a"
    using translate_cong [OF assms(3), of "set_bytes a bs ?m" False] assms(4) translate_read [OF assms(2)]
    by (simp add: set_bytes_outside)
  then have "vload (cr3 k) va 52 (set_bytes a bs ?m) = Some bs"
    using vload_in_page [of va 0 52 "cr3 k" "set_bytes a bs ?m" a] assms(1) get_bytes_set_bytes_same [of a bs ?m] assms(4) by simp
  with st show ?thesis by (simp add: vmem_store_def)
qed

section \<open>The upcall\<close>

text \<open>
  C29: a user page fault with a handler registered.  If the frame fits on a writable page of the
  exception stack, the environment continues in its handler, on a stack whose top is the frame:
  the faulting address, the error code, the registers, the instruction pointer, the flags and the
  stack pointer at the fault.  A fault inside the handler puts the next frame below the current
  stack pointer with one free word between; any other fault starts at the top of the exception
  stack.  No other byte of memory changes.  A fault in kernel mode is a panic.
\<close>

theorem user_fault_upcall:
  assumes "curenv k = Some c" "env_pgfault_upcall (envs k c) \<noteq> 0" "tf_cs tf AND 3 \<noteq> 0"
    and "unat (PGOFF (utf_addr tf)) + 52 \<le> 4096" "translate (cr3 k) True (utf_addr tf) (pmem (kvm k)) = Some a"
    and "entries_outside (cr3 k) (utf_addr tf) a 52 (pmem (kvm k))"
  shows "\<exists>k'. page_fault_handler fault_va tf k = Run c k'
    \<and> tf_eip (env_tf (envs k' c)) = env_pgfault_upcall (envs k c) \<and> tf_esp (env_tf (envs k' c)) = utf_addr tf
    \<and> vload (cr3 k') (utf_addr tf) 52 (pmem (kvm k')) = Some (utf_bytes fault_va tf)
    \<and> (\<forall>x. x < a \<or> a + 52 \<le> x \<longrightarrow> pmem (kvm k') x = pmem (kvm k) x)
    \<and> (if UXSTACKTOP - PGSIZE \<le> tf_esp tf \<and> tf_esp tf < UXSTACKTOP then utf_addr tf + 52 + 4 = tf_esp tf
       else utf_addr tf + 52 = UXSTACKTOP)"
proof -
  from store_frame [OF assms(4-6) length_utf_bytes] obtain k1 where
    k1: "vmem_store (utf_addr tf) (utf_bytes fault_va tf) k = Some k1"
    "pmem (kvm k1) = set_bytes a (utf_bytes fault_va tf) (pmem (kvm k))" "envs k1 = envs k" "curenv k1 = curenv k" "cr3 k1 = cr3 k"
    "vload (cr3 k) (utf_addr tf) 52 (pmem (kvm k1)) = Some (utf_bytes fault_va tf)" by blast
  have "\<forall>x. x < a \<or> a + 52 \<le> x \<longrightarrow> pmem (kvm k1) x = pmem (kvm k) x"
    unfolding k1(2) by (auto simp: set_bytes_outside length_utf_bytes)
  moreover have "tf_esp tf \<le> UXSTACKTOP - 1 \<longleftrightarrow> tf_esp tf < UXSTACKTOP"
    by (auto simp: word_le_nat_alt word_less_nat_alt mmu_consts)
  then have "if UXSTACKTOP - PGSIZE \<le> tf_esp tf \<and> tf_esp tf < UXSTACKTOP then utf_addr tf + 52 + 4 = tf_esp tf
       else utf_addr tf + 52 = UXSTACKTOP" by (simp add: utf_addr_def SIZEOF_UTRAPFRAME_def)
  ultimately show ?thesis using assms(1-3) k1 by (simp add: page_fault_handler_def env_run_def spin_unlock_def)
qed

theorem user_fault_upcall_witness:
  "\<exists>k'. page_fault_handler 0x1234 (zero_tf\<lparr>tf_cs := 0x1B, tf_esp := 0x5000\<rparr>)
      (upd_env 0 (\<lambda>x. x\<lparr>env_pgfault_upcall := 0x800020\<rparr>)
        (kern_two\<lparr>kvm := vm_dir\<lparr>pmem := set32 7912 0x9007 (set32 40956 0x5007 (\<lambda>_. 0))\<rparr>\<rparr>)) = Run 0 k'
    \<and> tf_eip (env_tf (envs k' 0)) = 0x800020 \<and> tf_esp (env_tf (envs k' 0)) = 0xEEBFFFCC"
proof -
  let ?tf = "zero_tf\<lparr>tf_cs := 0x1B, tf_esp := 0x5000\<rparr>"
  let ?m = "set32 7912 0x9007 (set32 40956 0x5007 (\<lambda>_. 0))"
  let ?k = "upd_env 0 (\<lambda>x. x\<lparr>env_pgfault_upcall := 0x800020\<rparr>) (kern_two\<lparr>kvm := vm_dir\<lparr>pmem := ?m\<rparr>\<rparr>)"
  have u: "utf_addr ?tf = 0xEEBFFFCC" by (simp add: utf_addr_def mmu_consts SIZEOF_UTRAPFRAME_def)
  have idx: "unat (PDX 0xEEBFFFCC) = 954" "unat (PTX 0xEEBFFFCC) = 1023" "unat (PGOFF 0xEEBFFFCC) = 4044"
    by (simp_all add: unat_PDX unat_PTX unat_PGOFF)
  have k: "cr3 ?k = 4096" "pmem (kvm ?k) = ?m" "curenv ?k = Some 0" "env_pgfault_upcall (envs ?k 0) = 0x800020"
    by (simp_all add: kern_two_def)
  have pd: "pde_addr 4096 0xEEBFFFCC = 7912" by (simp add: pde_addr_def idx)
  have pt: "pte_addr 0x9007 0xEEBFFFCC = 40956" by (simp add: pte_addr_def idx PTE_ADDR_def)
  have g: "get32 ?m 7912 = 0x9007" "get32 ?m 40956 = 0x5007" by (simp_all add: get32_set32_same get32_set32_other)
  have "translate 4096 True 0xEEBFFFCC ?m = Some 24524"
    by (simp add: translate_def pd g pt idx Let_def PTE_P_def PTE_W_def PTE_ADDR_def)
  moreover have "entries_outside 4096 0xEEBFFFCC 24524 52 ?m" by (simp add: entries_outside_def pd g pt Let_def)
  ultimately show ?thesis
    using user_fault_upcall [of ?k 0 ?tf 24524 "0x1234"] k u idx by auto
qed

end
