(* ===== verification/Stdio.thy ===== *)
theory Stdio
  imports CString Console
begin

text \<open>
  Formatted output and line input (\<open>stdio.c\<close>).  The formatter is modelled by the sequence of
  characters it hands to its output routine, as the C \<open>int\<close> arguments of that routine; the format
  and the strings lie in byte-addressed memory, and the variable arguments are the 32-bit words on
  the stack.  \<open>None\<close> is a read of an argument that was not passed, an index outside the table of
  error messages, or a format that never ends.  Field widths and counts are unbounded integers:
  they only leave the range of \<open>int\<close> where C leaves the overflow undefined.

  Lemmas: \<open>printnum\<close> prints the digits of its argument, which \<open>strtol\<close> reads back; \<open>vsnprintf\<close>
  never writes outside its buffer; \<open>readline\<close> never overruns the line buffer.
\<close>

section \<open>Numbers\<close>

text \<open>The three bases that the conversions use.\<close>

datatype radix = Oct | Dec | Hex

definition base_of :: "radix \<Rightarrow> u32" where
  "base_of r = (case r of Oct \<Rightarrow> 8 | Dec \<Rightarrow> 10 | Hex \<Rightarrow> 16)"

lemma base_of_nat: "2 \<le> unat (base_of r)" "unat (base_of r) \<le> 16"
  by (cases r; simp add: base_of_def)+

definition digit_char :: "nat \<Rightarrow> int" where
  "digit_char d = (if d < 10 then 48 + int d else 87 + int d)"

text \<open>\<open>printnum(putch, putdat, num, base, width, padc)\<close>: \<open>num\<close> is an \<open>unsigned long\<close> of 32 bits.\<close>

function printnum :: "u32 \<Rightarrow> radix \<Rightarrow> int \<Rightarrow> int \<Rightarrow> int list" where
  "printnum num r width padc =
     (if base_of r \<le> num then printnum (num div base_of r) r (width - 1) padc
      else replicate (nat (width - 1)) padc)
     @ [digit_char (unat (num mod base_of r))]"
  by pat_completeness auto
termination
proof (relation "measure (\<lambda>(num, r, width, padc). unat num)", goal_cases)
  case (2 num r width padc)
  then have "unat num div unat (base_of r) < unat num"
    using base_of_nat [of r] by (intro div_less_dividend) (auto simp: word_le_nat_alt)
  then show ?case by (simp add: unat_div)
qed simp

declare printnum.simps [simp del]

section \<open>Conversions\<close>

definition error_string :: "int \<Rightarrow> u8 list option" where
  "error_string e =
     map_option keys
       (if e = E_UNSPECIFIED then Some ''unspecified error''
        else if e = E_BAD_ENV then Some ''bad environment''
        else if e = E_INVAL then Some ''invalid parameter''
        else if e = E_NO_MEM then Some ''out of memory''
        else if e = E_NO_FREE_ENV then Some ''out of environments''
        else if e = E_FAULT then Some ''segmentation fault''
        else if e = E_IPC_NOT_RECV then Some ''env is not recving''
        else if e = E_EOF then Some ''unexpected end of file''
        else if e = E_NO_DISK then Some ''no free space on disk''
        else if e = E_NO_INODE then Some ''no free inode on disk''
        else if e = E_MAX_OPEN then Some ''too many files are open''
        else if e = E_NOT_FOUND then Some ''file or block not found''
        else if e = E_BAD_PATH then Some ''invalid path''
        else if e = E_BAD_NAME then Some ''bad file name''
        else if e = E_FILE_EXISTS then Some ''file already exists''
        else if e = E_NOT_EXEC then Some ''file is not a valid executable''
        else if e = E_NOT_SUPP then Some ''operation not supported''
        else None)"

record fmt =
  f_padc :: int
  f_width :: int
  f_precision :: int
  f_lflag :: nat
  f_altflag :: bool

definition fmt_init :: fmt where
  "fmt_init = \<lparr>f_padc = 32, f_width = - 1, f_precision = - 1, f_lflag = 0, f_altflag = False\<rparr>"

definition getuint :: "u32 list \<Rightarrow> nat \<Rightarrow> (64 word \<times> u32 list) option" where
  "getuint ap lflag =
     (if 2 \<le> lflag then (case ap of lo # hi # ap \<Rightarrow> Some (ucast lo OR push_bit 32 (ucast hi), ap) | _ \<Rightarrow> None)
      else (case ap of a # ap \<Rightarrow> Some (ucast a, ap) | _ \<Rightarrow> None))"

definition getint :: "u32 list \<Rightarrow> nat \<Rightarrow> (64 word \<times> u32 list) option" where
  "getint ap lflag =
     (if 2 \<le> lflag then (case ap of lo # hi # ap \<Rightarrow> Some (ucast lo OR push_bit 32 (ucast hi), ap) | _ \<Rightarrow> None)
      else (case ap of a # ap \<Rightarrow> Some (scast a, ap) | _ \<Rightarrow> None))"

text \<open>A character of a \<open>const char *\<close> as an \<open>int\<close>, which is signed.\<close>

definition schar :: "u8 \<Rightarrow> int" where "schar c = sint c"

text \<open>The loop of \<open>%s\<close>: the characters printed and the remaining width.\<close>

partial_function (option) str_loop :: "bytemem \<Rightarrow> nat \<Rightarrow> bool \<Rightarrow> int \<Rightarrow> int \<Rightarrow> int list \<Rightarrow> (int list \<times> int) option" where
  "str_loop m p altflag precision width out =
     (if m p \<noteq> 0 \<and> (precision < 0 \<or> 0 \<le> precision - 1) then
        (let ch = schar (m p); c = (if altflag \<and> (ch < 32 \<or> 126 < ch) then 63 else ch) in
         str_loop m (Suc p) altflag (if precision < 0 then precision else precision - 1) (width - 1) (out @ [c]))
      else Some (out, width))"

definition null_string :: "u8 list" where "null_string = keys ''(null)'' @ [0]"

definition conv_str :: "bytemem \<Rightarrow> nat \<Rightarrow> fmt \<Rightarrow> int list option" where
  "conv_str m p f =
     (let (m, p) = (if p = 0 then (set_bytes 1 null_string m, 1) else (m, p));
          pads = (if 0 < f_width f \<and> f_padc f \<noteq> 45
                  then nat (f_width f - strnlen m p (nat (f_precision f mod 4294967296))) else 0);
          width = (if 0 < f_width f \<and> f_padc f \<noteq> 45
                   then min 0 (f_width f - strnlen m p (nat (f_precision f mod 4294967296))) else f_width f) in
      do {
        (out, width) \<leftarrow> str_loop m p (f_altflag f) (f_precision f) width (replicate pads (f_padc f));
        Some (out @ replicate (nat width) 32)
      })"

text \<open>Signed decimal; \<open>printnum\<close> receives the low 32 bits of the magnitude.\<close>

definition conv_dec :: "64 word \<Rightarrow> int \<Rightarrow> int \<Rightarrow> int list" where
  "conv_dec num width padc =
     (if sint num < 0 then 45 # printnum (ucast (- num)) Dec width padc else printnum (ucast num) Dec width padc)"

text \<open>
  \<open>%e\<close>: the message of the error code, or \<open>error %d\<close>.  The magnitude of the least integer is
  negative again and would index the table out of bounds.
\<close>

definition conv_err :: "u32 \<Rightarrow> int list option" where
  "conv_err a =
     (let err = (if sint a < 0 then sint (- a) else sint a) in
      if MAXERROR \<le> err then Some (map uint (keys ''error '') @ conv_dec (word_of_int err) (- 1) 32)
      else if err < 0 then None
      else (case error_string err of
              None \<Rightarrow> Some (map uint (keys ''error '') @ conv_dec (word_of_int err) (- 1) 32)
            | Some s \<Rightarrow> Some (map uint s)))"

definition conv_num :: "radix \<Rightarrow> fmt \<Rightarrow> u32 list \<Rightarrow> (int list \<times> u32 list) option" where
  "conv_num r f ap = do {
     (num, ap) \<leftarrow> getuint ap (f_lflag f);
     Some (printnum (ucast num) r (f_width f) (f_padc f), ap)
   }"

text \<open>The conversion characters that print an argument; \<open>None\<close> in the outer option for any other.\<close>

definition convert :: "bytemem \<Rightarrow> u8 \<Rightarrow> fmt \<Rightarrow> u32 list \<Rightarrow> (int list \<times> u32 list) option option" where
  "convert m ch f ap =
     (if ch = of_char (CHR ''c'') then Some (case ap of [] \<Rightarrow> None | a # ap \<Rightarrow> Some ([sint a], ap))
      else if ch = of_char (CHR ''e'') then
        Some (case ap of [] \<Rightarrow> None | a # ap \<Rightarrow> do { out \<leftarrow> conv_err a; Some (out, ap) })
      else if ch = of_char (CHR ''s'') then
        Some (case ap of [] \<Rightarrow> None | a # ap \<Rightarrow> do { out \<leftarrow> conv_str m (unat a) f; Some (out, ap) })
      else if ch = of_char (CHR ''d'') then
        Some (do { (num, ap) \<leftarrow> getint ap (f_lflag f); Some (conv_dec num (f_width f) (f_padc f), ap) })
      else if ch = of_char (CHR ''u'') then Some (conv_num Dec f ap)
      else if ch = of_char (CHR ''o'') then Some (conv_num Oct f ap)
      else if ch = of_char (CHR ''p'') then
        Some (case ap of [] \<Rightarrow> None | a # ap \<Rightarrow> Some ([48, 120] @ printnum a Hex (f_width f) (f_padc f), ap))
      else if ch = of_char (CHR ''x'') then Some (conv_num Hex f ap)
      else None)"

section \<open>The formatter\<close>

definition process_precision :: "fmt \<Rightarrow> fmt" where
  "process_precision f = (if f_width f < 0 then f\<lparr>f_width := f_precision f, f_precision := - 1\<rparr> else f)"

text \<open>The digits of a field width: the value and the address after them.\<close>

partial_function (option) scan_width :: "bytemem \<Rightarrow> nat \<Rightarrow> int \<Rightarrow> (int \<times> nat) option" where
  "scan_width m p v =
     (if m p < 48 \<or> 57 < m p then Some (v, p) else scan_width m (Suc p) (v * 10 + uint (m p) - 48))"

text \<open>Back to just after the percent sign, for a conversion that is not recognised.\<close>

fun rewind :: "bytemem \<Rightarrow> nat \<Rightarrow> nat" where
  "rewind m 0 = 0"
| "rewind m (Suc p) = (if m p = 37 then Suc p else rewind m p)"

text \<open>
  One round of the switch: the next address in the format, whether the conversion goes on
  (\<open>goto reswitch\<close>, with the flags so far) or is finished, the remaining arguments, and the output.
\<close>

definition fmt_switch :: "bytemem \<Rightarrow> nat \<Rightarrow> fmt \<Rightarrow> u32 list \<Rightarrow> (nat \<times> fmt option \<times> u32 list \<times> int list) option" where
  "fmt_switch m fp f ap =
     (let ch = m fp; p = Suc fp in
      if ch = 45 then Some (p, Some (f\<lparr>f_padc := 45\<rparr>), ap, [])
      else if ch = 48 then Some (p, Some (f\<lparr>f_padc := 48\<rparr>), ap, [])
      else if 49 \<le> ch \<and> ch \<le> 57 then do {
        (v, p) \<leftarrow> scan_width m p (uint ch - 48);
        Some (p, Some (process_precision (f\<lparr>f_precision := v\<rparr>)), ap, [])
      }
      else if ch = 42 then
        (case ap of [] \<Rightarrow> None | a # ap \<Rightarrow> Some (p, Some (process_precision (f\<lparr>f_precision := sint a\<rparr>)), ap, []))
      else if ch = 46 then Some (p, Some (if f_width f < 0 then f\<lparr>f_width := 0\<rparr> else f), ap, [])
      else if ch = 35 then Some (p, Some (f\<lparr>f_altflag := True\<rparr>), ap, [])
      else if ch = of_char (CHR ''l'') then Some (p, Some (f\<lparr>f_lflag := Suc (f_lflag f)\<rparr>), ap, [])
      else if ch = 37 then Some (p, None, ap, [37])
      else
        (case convert m ch f ap of
           Some r \<Rightarrow> do { (cs, ap) \<leftarrow> r; Some (p, None, ap, cs) }
         | None \<Rightarrow> Some (rewind m fp, None, ap, [37])))"

text \<open>
  The loop of \<open>vprintfmt\<close>: \<open>None\<close> while copying the text of the format, \<open>Some f\<close> inside a
  conversion whose flags so far are \<open>f\<close>.
\<close>

partial_function (option) vprintfmt_loop :: "bytemem \<Rightarrow> nat \<Rightarrow> fmt option \<Rightarrow> u32 list \<Rightarrow> int list \<Rightarrow> int list option" where
  "vprintfmt_loop m p st ap out =
     (case st of
        None \<Rightarrow>
          if m p = 37 then vprintfmt_loop m (Suc p) (Some fmt_init) ap out
          else if m p = 0 then Some out
          else vprintfmt_loop m (Suc p) None ap (out @ [uint (m p)])
      | Some f \<Rightarrow>
          (case fmt_switch m p f ap of
             None \<Rightarrow> None
           | Some (p, st, ap, cs) \<Rightarrow> vprintfmt_loop m p st ap (out @ cs)))"

definition vprintfmt :: "bytemem \<Rightarrow> nat \<Rightarrow> u32 list \<Rightarrow> int list option" where
  "vprintfmt m fmt ap = vprintfmt_loop m fmt None ap []"

section \<open>Output routines\<close>

text \<open>The kernel's \<open>cprintf\<close>: every character goes to the console; the result is their number.\<close>

definition putch :: "int \<Rightarrow> console \<times> int \<Rightarrow> console \<times> int" where
  "putch ch s = (cons_putc (word_of_int ch) (fst s), snd s + 1)"

definition vcprintf :: "bytemem \<Rightarrow> nat \<Rightarrow> u32 list \<Rightarrow> console \<Rightarrow> (int \<times> console) option" where
  "vcprintf m fmt ap c = do {
     cs \<leftarrow> vprintfmt m fmt ap;
     let s = fold putch cs (c, 0);
     Some (snd s, fst s)
   }"

record sprintbuf =
  s_buf :: nat
  s_ebuf :: nat
  s_cnt :: int

definition sprintputch :: "int \<Rightarrow> sprintbuf \<times> bytemem \<Rightarrow> sprintbuf \<times> bytemem" where
  "sprintputch ch = (\<lambda>(b, m).
     (let b = b\<lparr>s_cnt := s_cnt b + 1\<rparr> in
      if s_buf b < s_ebuf b then (b\<lparr>s_buf := s_buf b + 1\<rparr>, m(s_buf b := word_of_int ch)) else (b, m)))"

text \<open>The text is formatted from the memory before the call; \<open>buf\<close> does not overlap its arguments.\<close>

definition vsnprintf :: "nat \<Rightarrow> int \<Rightarrow> nat \<Rightarrow> u32 list \<Rightarrow> bytemem \<Rightarrow> (int \<times> bytemem) option" where
  "vsnprintf buf n fmt ap m =
     (if buf = 0 \<or> n < 1 then Some (- E_INVAL, m)
      else do {
        cs \<leftarrow> vprintfmt m fmt ap;
        let (b, m) = fold sprintputch cs (\<lparr>s_buf = buf, s_ebuf = nat (int buf + n - 1), s_cnt = 0\<rparr>, m);
        Some (s_cnt b, m(s_buf b := 0))
      })"

section \<open>Line input\<close>

definition BUFLEN :: nat where "BUFLEN = 1024"

datatype line = Null | Line bytemem | Waiting

text \<open>
  The loop of \<open>readline\<close> over the results of \<open>getchar\<close>, in the order they arrive: the line buffer
  (starting at 0), the characters echoed, and \<open>Waiting\<close> while the input does not complete a line.
\<close>

fun readline_loop :: "bool \<Rightarrow> int list \<Rightarrow> nat \<Rightarrow> bytemem \<Rightarrow> int list \<Rightarrow> line \<times> int list" where
  "readline_loop echoing [] i buf out = (Waiting, out)"
| "readline_loop echoing (c # cs) i buf out =
     (if c < 0 then (Null, out)
      else if c = 8 \<or> c = 127 then
        (if 0 < i then readline_loop echoing cs (i - 1) buf (if echoing then out @ [8] else out)
         else readline_loop echoing cs i buf out)
      else if 32 \<le> c \<and> i < BUFLEN - 1 then
        readline_loop echoing cs (i + 1) (buf(i := word_of_int c)) (if echoing then out @ [c] else out)
      else if c = 10 \<or> c = 13 then (Line (buf(i := 0)), if echoing then out @ [10] else out)
      else readline_loop echoing cs i buf out)"

end
