(* ===== verification/StdioProps.thy ===== *)
theory StdioProps
  imports Stdio
begin

text \<open>
  Properties of formatted output and of line input.
\<close>

section \<open>Digits\<close>

function digits :: "radix \<Rightarrow> nat \<Rightarrow> nat list" where
  "digits r n = (if unat (base_of r) \<le> n then digits r (n div unat (base_of r)) else []) @ [n mod unat (base_of r)]"
  by pat_completeness auto
termination
proof (relation "measure snd", goal_cases)
  case (2 r n)
  then have "n div unat (base_of r) < n" using base_of_nat [of r] by (intro div_less_dividend) auto
  then show ?case by simp
qed simp

declare digits.simps [simp del]

lemma printnum_digits:
  "printnum num r w c = replicate (nat (w - int (length (digits r (unat num))))) c @ map digit_char (digits r (unat num))"
proof (induction num r w c rule: printnum.induct)
  case (1 num r w c)
  show ?case
  proof (cases "base_of r \<le> num")
    case True
    then have "unat (base_of r) \<le> unat num" by (simp add: word_le_nat_alt)
    then have d: "digits r (unat num) = digits r (unat (num div base_of r)) @ [unat (num mod base_of r)]"
      by (subst digits.simps) (simp add: unat_div unat_mod)
    show ?thesis using 1 [OF True] True d by (subst printnum.simps) (simp add: algebra_simps)
  next
    case False
    then have "\<not> unat (base_of r) \<le> unat num" by (simp add: word_le_nat_alt)
    then have d: "digits r (unat num) = [unat (num mod base_of r)]"
      by (subst digits.simps) (simp add: unat_mod)
    show ?thesis using False d by (subst printnum.simps) simp
  qed
qed

lemma digits_bound: "d \<in> set (digits r n) \<Longrightarrow> d < unat (base_of r)"
proof (induction r n rule: digits.induct)
  case (1 r n)
  then show ?case using base_of_nat [of r] digits.simps [of r n] by (auto split: if_splits)
qed

lemma digits_value: "foldl (\<lambda>v d. v * int (unat (base_of r)) + int d) 0 (digits r n) = int n"
proof (induction r n rule: digits.induct)
  case (1 r n)
  let ?b = "unat (base_of r)"
  show ?case
  proof (cases "?b \<le> n")
    case True
    then have "foldl (\<lambda>v d. v * int ?b + int d) 0 (digits r n) = int (n div ?b) * int ?b + int (n mod ?b)"
      using 1 [OF True] by (subst digits.simps) simp
    moreover have "int (n div ?b) * int ?b + int (n mod ?b) = int n"
      by (metis div_mult_mod_eq of_nat_add of_nat_mult)
    ultimately show ?thesis by simp
  next
    case False
    then show ?thesis by (subst digits.simps) simp
  qed
qed

lemma digits_nonempty: "digits r n \<noteq> []"
  by (subst digits.simps) simp

lemma digits_lead: "hd (digits r n) = 0 \<longleftrightarrow> n = 0"
proof (induction r n rule: digits.induct)
  case (1 r n)
  have "0 < n div unat (base_of r)" if "unat (base_of r) \<le> n"
    using that base_of_nat [of r] by (simp add: div_greater_zero_iff)
  with 1 show ?case
    using base_of_nat [of r] digits.simps [of r n] digits_nonempty [of r "n div unat (base_of r)"]
    by (cases "unat (base_of r) \<le> n") auto
qed

lemma digit_char_val: "d < 16 \<Longrightarrow> digit_val (word_of_int (digit_char d)) = Some (int d)"
proof -
  assume "d < 16"
  then have "d \<in> set [0..<16]" by simp
  moreover have "\<forall>d\<in>set [0..<16]. digit_val (word_of_int (digit_char d)) = Some (int d)" by code_simp
  ultimately show ?thesis by blast
qed

lemma digits_length: "n < unat (base_of r) ^ k \<Longrightarrow> 0 < k \<Longrightarrow> length (digits r n) \<le> k"
proof (induction k arbitrary: n)
  case (Suc k)
  show ?case
  proof (cases "unat (base_of r) \<le> n")
    case True
    have "n div unat (base_of r) < unat (base_of r) ^ k"
      using Suc.prems base_of_nat [of r] by (simp add: less_mult_imp_div_less mult.commute)
    moreover from this True have "0 < k"
      using base_of_nat [of r] div_greater_zero_iff [of n "unat (base_of r)"] by (cases k) auto
    ultimately show ?thesis using Suc.IH True by (subst digits.simps) simp
  next
    case False
    then show ?thesis by (subst digits.simps) simp
  qed
qed simp

section \<open>Formatting into a buffer\<close>

lemma sprintputch_fold:
  "s_buf b \<le> s_ebuf b \<Longrightarrow>
   fold sprintputch cs (b, m) =
   (b\<lparr>s_buf := s_buf b + min (s_ebuf b - s_buf b) (length cs), s_cnt := s_cnt b + int (length cs)\<rparr>,
    set_bytes (s_buf b) (map word_of_int (take (s_ebuf b - s_buf b) cs)) m)"
proof (induction cs arbitrary: b m)
  case (Cons c cs)
  show ?case
  proof (cases "s_buf b < s_ebuf b")
    case True
    then obtain k where "s_ebuf b - s_buf b = Suc k" by (metis Suc_diff_Suc)
    moreover from this have "s_ebuf b - Suc (s_buf b) = k" by simp
    moreover have "sprintputch c (b, m) =
        (b\<lparr>s_cnt := s_cnt b + 1, s_buf := Suc (s_buf b)\<rparr>, m(s_buf b := word_of_int c))"
      using True by (simp add: sprintputch_def)
    ultimately show ?thesis using True by (simp add: Cons.IH fun_upd_def)
  next
    case False
    then have "sprintputch c (b, m) = (b\<lparr>s_cnt := s_cnt b + 1\<rparr>, m)" by (simp add: sprintputch_def)
    then show ?thesis using Cons.prems False by (simp add: Cons.IH)
  qed
qed simp

lemma vsnprintf_text:
  assumes "buf \<noteq> 0" "1 \<le> n" "vprintfmt m fmt ap = Some cs"
  shows "vsnprintf buf n fmt ap m =
    Some (int (length cs), set_bytes buf (map word_of_int (take (nat n - 1) cs) @ [0]) m)"
proof -
  have "nat (int buf + n - 1) = buf + (nat n - 1)" using assms(2) by linarith
  then show ?thesis
    using assms sprintputch_fold [of "\<lparr>s_buf = buf, s_ebuf = buf + (nat n - 1), s_cnt = 0\<rparr>" cs m]
    by (simp add: vsnprintf_def set_bytes_app min.commute)
qed

section \<open>Reading a printed number back\<close>

definition digit_text :: "nat list \<Rightarrow> u8 list" where
  "digit_text ds = map (word_of_int \<circ> digit_char) ds"

lemma num_at_text:
  "\<forall>d\<in>set ds. d < 16 \<and> int d < base \<Longrightarrow> num_at (set_bytes s (digit_text ds @ [0]) m) s base (map int ds)"
proof (induction ds arbitrary: s m)
  case Nil
  then show ?case by (simp add: digit_text_def digit_val_def)
next
  case (Cons d ds)
  then show ?case by (simp add: digit_text_def digit_char_val set_bytes_outside)
qed

lemma num_val_digits: "num_val (int (unat (base_of r))) (map int (digits r n)) = int n"
  using digits_value [of r n] by (simp add: num_val_def foldl_map)

lemma digits_num_at:
  "num_at (set_bytes s (digit_text (digits r n) @ [0]) m) s (int (unat (base_of r))) (map int (digits r n))"
proof (rule num_at_text, rule ballI)
  fix d
  assume "d \<in> set (digits r n)"
  then have "d < unat (base_of r)" by (rule digits_bound)
  then show "d < 16 \<and> int d < int (unat (base_of r))" using base_of_nat [of r] by linarith
qed

lemma printnum_text: "map word_of_int (printnum num r (- 1) c) = digit_text (digits r (unat num))"
  by (simp add: printnum_digits digit_text_def)

text \<open>The printed decimal and hexadecimal forms, as \<open>strtol\<close> reads them.\<close>

lemma strtol_printnum_dec:
  "strtol (set_bytes s (digit_text (digits Dec n) @ [0]) m) s 10 = Some (of_nat n, s + length (digits Dec n))"
proof -
  obtain d ds where d: "digits Dec n = d # ds" using digits_nonempty by (metis list.exhaust)
  show ?thesis
    using strtol_num [of _ s 10 "int d" "map int ds"] digits_num_at [of s Dec n m] num_val_digits [of Dec n] d
    by (simp add: base_of_def)
qed

lemma strtol_printnum_neg:
  "strtol (set_bytes s (45 # digit_text (digits Dec n) @ [0]) m) s 10
   = Some (- of_nat n, Suc s + length (digits Dec n))"
  using strtol_neg [of "set_bytes s (45 # digit_text (digits Dec n) @ [0]) m" s 10 "map int (digits Dec n)"]
    digits_num_at [of "Suc s" Dec n "m(s := 45)"] num_val_digits [of Dec n]
  by (simp add: base_of_def set_bytes_outside)

lemma strtol_printnum_hex:
  "strtol (set_bytes s (digit_text (digits Hex n) @ [0]) m) s 16 = Some (of_nat n, s + length (digits Hex n))"
proof -
  let ?m = "set_bytes s (digit_text (digits Hex n) @ [0]) m"
  obtain d ds where d: "digits Hex n = d # ds" using digits_nonempty by (metis list.exhaust)
  have at: "num_at ?m s 16 (map int (digits Hex n))" using digits_num_at [of s Hex n m] by (simp add: base_of_def)
  then have f: "?m s \<noteq> 32" "?m s \<noteq> 9" "?m s \<noteq> 43" "?m s \<noteq> 45" using digit_first [of "?m s" "int d"] d by auto
  have "?m (Suc s) \<noteq> 120"
  proof (cases ds)
    case Nil
    then show ?thesis using d by (simp add: digit_text_def)
  next
    case (Cons e es)
    then have "digit_val (?m (Suc s)) = Some (int e)" "int e < 16" using at d by auto
    then show ?thesis by (auto simp: digit_val_def)
  qed
  moreover have "skip_blank ?m s = Some s" using f by (subst skip_blank.simps) simp
  moreover have "strtol_digits ?m 16 s 0 = Some (s + length (digits Hex n), of_nat n)"
    using strtol_digits_num [OF at, of 0] num_val_digits [of Hex n] by (simp add: num_val_def base_of_def)
  ultimately show ?thesis using f by (simp add: strtol_def)
qed

section \<open>The formats \<open>%d\<close> and \<open>%x\<close>\<close>

lemma vprintfmt_conv:
  assumes "str_at m fmt [37, ch]" "fmt_switch m (Suc fmt) fmt_init ap = Some (fmt + 2, None, ap', cs)"
  shows "vprintfmt m fmt ap = Some cs"
proof -
  have m: "m fmt = 37" "m (fmt + 2) = 0" using assms(1) by auto
  have "vprintfmt_loop m (fmt + 2) None ap' ([] @ cs) = Some cs"
    using m by (subst vprintfmt_loop.simps) simp
  then have "vprintfmt_loop m (Suc fmt) (Some fmt_init) ap [] = Some cs"
    using assms(2) by (subst vprintfmt_loop.simps) simp
  then show ?thesis unfolding vprintfmt_def using m by (subst vprintfmt_loop.simps) simp
qed

lemma vprintfmt_d:
  assumes "str_at m fmt [37, 100]"
  shows "vprintfmt m fmt [x] = Some (conv_dec (scast x) (- 1) 32)"
proof (rule vprintfmt_conv [OF assms])
  have "m (Suc fmt) = 100" using assms by simp
  then show "fmt_switch m (Suc fmt) fmt_init [x] = Some (fmt + 2, None, [], conv_dec (scast x) (- 1) 32)"
    by (simp add: fmt_switch_def convert_def getint_def fmt_init_def)
qed

lemma ucast_back: "ucast (ucast x :: 64 word) = (x :: u32)"
  by (rule bit_word_eqI) (simp add: bit_simps)

lemma vprintfmt_x:
  assumes "str_at m fmt [37, 120]"
  shows "vprintfmt m fmt [x] = Some (printnum x Hex (- 1) 32)"
proof (rule vprintfmt_conv [OF assms])
  have "m (Suc fmt) = 120" using assms by simp
  then show "fmt_switch m (Suc fmt) fmt_init [x] = Some (fmt + 2, None, [], printnum x Hex (- 1) 32)"
    by (simp add: fmt_switch_def convert_def conv_num_def getuint_def fmt_init_def ucast_back)
qed

lemma ucast_of_int: "(ucast (word_of_int k :: 64 word) :: u32) = word_of_int k"
  by (rule bit_word_eqI) (simp add: bit_simps)

lemma unat_ucast_of_int:
  "0 \<le> k \<Longrightarrow> k \<le> 2 ^ 31 \<Longrightarrow> unat (ucast (word_of_int k :: 64 word) :: u32) = nat k"
  by (simp only: ucast_of_int unat_eq_nat_uint uint_word_of_int_eq) (simp add: take_bit_int_eq_self)

lemma sint_of_int64: "- (2 ^ 31) \<le> k \<Longrightarrow> k < 2 ^ 31 \<Longrightarrow> sint (word_of_int k :: 64 word) = k"
  by (simp add: signed_of_int signed_take_bit_int_eq_self)

lemma conv_dec_text:
  assumes "- (2 ^ 31) \<le> k" "k < 2 ^ 31"
  shows "map word_of_int (conv_dec (word_of_int k) (- 1) 32) =
    (if k < 0 then 45 # digit_text (digits Dec (nat (- k))) else digit_text (digits Dec (nat k)))"
proof (cases "k < 0")
  case True
  have "- word_of_int k = (word_of_int (- k) :: 64 word)" by simp
  then show ?thesis
    using assms True sint_of_int64 [of k] unat_ucast_of_int [of "- k"] by (simp add: conv_dec_def printnum_text)
next
  case False
  then show ?thesis
    using assms sint_of_int64 [of k] unat_ucast_of_int [of k] by (simp add: conv_dec_def printnum_text)
qed

lemma conv_dec_length:
  assumes "- (2 ^ 31) \<le> k" "k < 2 ^ 31"
  shows "length (conv_dec (word_of_int k) (- 1) 32) \<le> 11"
proof -
  have "length (digits Dec n) \<le> 10" if "n < 10 ^ 10" for n
    using that by (intro digits_length) (simp_all add: base_of_def)
  then have d: "length (digits Dec (nat (- k))) \<le> 10" "length (digits Dec (nat k)) \<le> 10" using assms by auto
  have "length (map word_of_int (conv_dec (word_of_int k) (- 1) 32) :: u8 list) \<le> 11"
    unfolding conv_dec_text [OF assms] using d by (simp add: digit_text_def)
  then show ?thesis by simp
qed

lemma scast_of_int: "scast (word_of_int k :: u32) = (word_of_int k :: 64 word)"
  if "- (2 ^ 31) \<le> k" "k < 2 ^ 31"
  using that by (simp add: scast_eq signed_of_int signed_take_bit_int_eq_self)

lemma vsnprintf_whole:
  assumes "buf \<noteq> 0" "vprintfmt m fmt ap = Some cs" "int (length cs) < n"
  shows "vsnprintf buf n fmt ap m = Some (int (length cs), set_bytes buf (map word_of_int cs @ [0]) m)"
  using assms vsnprintf_text [of buf n m fmt ap cs] by simp

section \<open>Line editing\<close>

text \<open>The line typed so far, after one more character.\<close>

definition edit :: "int list \<Rightarrow> int \<Rightarrow> int list" where
  "edit l c =
     (if c = 8 \<or> c = 127 then butlast l
      else if 32 \<le> c \<and> length l < BUFLEN - 1 then l @ [c] else l)"

lemma edit_length: "length l < BUFLEN \<Longrightarrow> length (edit l c) < BUFLEN"
  by (auto simp: edit_def BUFLEN_def)

definition holds :: "bytemem \<Rightarrow> bytemem \<Rightarrow> int list \<Rightarrow> bool" where
  "holds old buf l \<longleftrightarrow>
     (\<forall>i<length l. buf i = word_of_int (l ! i)) \<and> (\<forall>a\<ge>BUFLEN. buf a = old a) \<and> length l < BUFLEN"

lemma holds_edit:
  assumes "holds old buf l" "0 \<le> c" "c \<noteq> 10" "c \<noteq> 13"
  shows "\<exists>buf' out'. readline_loop ec (c # cs) (length l) buf out = readline_loop ec cs (length (edit l c)) buf' out'
    \<and> holds old buf' (edit l c)"
proof -
  have B: "length l < BUFLEN" using assms(1) by (simp add: holds_def)
  consider "c = 8 \<or> c = 127" | "c \<noteq> 8" "c \<noteq> 127" "32 \<le> c" "length l < BUFLEN - 1"
    | "c \<noteq> 8" "c \<noteq> 127" "\<not> (32 \<le> c \<and> length l < BUFLEN - 1)" by blast
  then show ?thesis
  proof cases
    case 1
    then have "holds old buf (edit l c)" using assms(1) by (auto simp: holds_def edit_def nth_butlast)
    then show ?thesis using 1 assms(2) by (auto simp: edit_def)
  next
    case 2
    then have "holds old (buf(length l := word_of_int c)) (edit l c)"
      using assms(1) by (auto simp: holds_def edit_def nth_append)
    then show ?thesis using 2 assms(2) by (auto simp: edit_def)
  next
    case 3
    then show ?thesis using assms by (auto simp: edit_def)
  qed
qed

lemma readline_line:
  "\<lbrakk>holds old buf l; \<forall>c\<in>set cs. 0 \<le> c \<and> c \<noteq> 10 \<and> c \<noteq> 13; e = 10 \<or> e = 13\<rbrakk> \<Longrightarrow>
   \<exists>buf' out'. readline_loop ec (cs @ [e]) (length l) buf out = (Line (buf'(length (foldl edit l cs) := 0)), out')
     \<and> holds old buf' (foldl edit l cs)"
proof (induction cs arbitrary: buf l out)
  case Nil
  then show ?case by (intro exI [of _ buf]) (auto simp: fun_upd_def)
next
  case (Cons c cs)
  from holds_edit [OF Cons.prems(1), of c ec "cs @ [e]" out] Cons.prems(2)
  obtain buf1 out1 where
    "readline_loop ec (c # cs @ [e]) (length l) buf out = readline_loop ec (cs @ [e]) (length (edit l c)) buf1 out1"
    "holds old buf1 (edit l c)" by auto
  with Cons.IH [of buf1 "edit l c" out1] Cons.prems(2,3) show ?case by simp
qed

section \<open>Properties\<close>

text \<open>
  C32: Numbers survive printing and parsing.  \<open>vsnprintf\<close> with \<open>%d\<close> or \<open>%x\<close> into a buffer of at
  least 12 bytes leaves a text from which \<open>strtol\<close> in base 10 or 16 reads back exactly the number
  printed, for every 32-bit value, and stops at the end of the text.
\<close>

theorem printf_strtol:
  assumes "buf \<noteq> 0" "12 \<le> n" "- (2 ^ 31) \<le> k" "k < 2 ^ 31"
  shows
    "(str_at m fmt [37, 100] \<longrightarrow>
       (\<exists>cnt m'. vsnprintf buf n fmt [word_of_int k] m = Some (cnt, m')
          \<and> strtol m' buf 10 = Some (word_of_int k, buf + nat cnt)))
   \<and> (str_at m fmt [37, 120] \<longrightarrow>
       (\<exists>cnt m'. vsnprintf buf n fmt [word_of_int k] m = Some (cnt, m')
          \<and> strtol m' buf 16 = Some (word_of_int k, buf + nat cnt)))"
proof (intro conjI impI)
  assume f: "str_at m fmt [37, 100]"
  let ?cs = "conv_dec (word_of_int k) (- 1) 32"
  have "vsnprintf buf n fmt [word_of_int k] m = Some (int (length ?cs), set_bytes buf (map word_of_int ?cs @ [0]) m)"
    using vprintfmt_d [OF f, of "word_of_int k"] conv_dec_length [OF assms(3,4)] assms scast_of_int [OF assms(3,4)]
    by (intro vsnprintf_whole) simp_all
  moreover have "strtol (set_bytes buf (map word_of_int ?cs @ [0]) m) buf 10 = Some (word_of_int k, buf + length ?cs)"
  proof -
    have "length ?cs = length (map word_of_int ?cs :: u8 list)" by simp
    then show ?thesis
      using strtol_printnum_neg [of buf "nat (- k)" m] strtol_printnum_dec [of buf "nat k" m]
      by (simp add: conv_dec_text [OF assms(3,4)] digit_text_def split: if_splits)
  qed
  ultimately show "\<exists>cnt m'. vsnprintf buf n fmt [word_of_int k] m = Some (cnt, m')
      \<and> strtol m' buf 10 = Some (word_of_int k, buf + nat cnt)" by (simp del: map_append)
next
  assume f: "str_at m fmt [37, 120]"
  let ?ds = "digits Hex (unat (word_of_int k :: u32))"
  let ?cs = "printnum (word_of_int k) Hex (- 1) 32"
  have t: "map word_of_int ?cs = digit_text ?ds" by (rule printnum_text)
  then have l: "length ?cs = length ?ds" by (metis digit_text_def length_map)
  have "length ?ds \<le> 8"
    using unsigned_less [of "word_of_int k :: u32"] by (intro digits_length) (simp_all add: base_of_def)
  then have "vsnprintf buf n fmt [word_of_int k] m = Some (int (length ?ds), set_bytes buf (digit_text ?ds @ [0]) m)"
    using vsnprintf_whole [OF assms(1) vprintfmt_x [OF f], of "word_of_int k" n] assms(2) t l by simp
  then show "\<exists>cnt m'. vsnprintf buf n fmt [word_of_int k] m = Some (cnt, m')
      \<and> strtol m' buf 16 = Some (word_of_int k, buf + nat cnt)"
    using strtol_printnum_hex [of buf "unat (word_of_int k :: u32)" m] by simp
qed

theorem printf_strtol_witness:
  "\<exists>cnt m'. vsnprintf 100 12 1 [word_of_int (- 40)] (set_bytes 1 [37, 100] (\<lambda>_. 0)) = Some (cnt, m')
     \<and> strtol m' 100 10 = Some (word_of_int (- 40), 100 + nat cnt)"
  using printf_strtol [of 100 12 "- 40" "set_bytes 1 [37, 100] (\<lambda>_. 0)" 1] by simp

text \<open>
  C33: \<open>vsnprintf\<close> never writes outside its buffer.  With a non-null buffer of \<open>n\<close> bytes and a format
  that prints \<open>cs\<close>, it returns the full length of \<open>cs\<close>; the buffer holds the first \<open>n - 1\<close>
  characters of it followed by a terminating zero, and every byte outside the buffer is unchanged.
  A null buffer or an \<open>n\<close> below 1 is refused with \<open>-E_INVAL\<close> and writes nothing.
\<close>

theorem vsnprintf_bounded:
  "(buf = 0 \<or> n < 1 \<longrightarrow> vsnprintf buf n fmt ap m = Some (- E_INVAL, m)) \<and>
   (buf \<noteq> 0 \<and> 1 \<le> n \<and> vprintfmt m fmt ap = Some cs \<longrightarrow>
     (\<exists>m'. vsnprintf buf n fmt ap m = Some (int (length cs), m')
        \<and> get_bytes m' buf (min (nat n - 1) (length cs)) = map word_of_int (take (nat n - 1) cs)
        \<and> m' (buf + min (nat n - 1) (length cs)) = 0
        \<and> (\<forall>a. a < buf \<or> buf + nat n \<le> a \<longrightarrow> m' a = m a)))"
proof (intro conjI impI)
  assume a: "buf \<noteq> 0 \<and> 1 \<le> n \<and> vprintfmt m fmt ap = Some cs"
  let ?t = "map word_of_int (take (nat n - 1) cs) :: u8 list"
  let ?m = "set_bytes buf (?t @ [0]) m"
  have l: "length ?t = min (nat n - 1) (length cs)" by (simp add: min.commute)
  have "vsnprintf buf n fmt ap m = Some (int (length cs), ?m)" using a by (intro vsnprintf_text) auto
  moreover have "get_bytes ?m buf (length ?t) = ?t"
    by (rule nth_equalityI) (auto simp: set_bytes_apply nth_append)
  moreover have "?m (buf + length ?t) = 0" by (simp add: set_bytes_apply nth_append)
  moreover have "?m x = m x" if "x < buf \<or> buf + nat n \<le> x" for x
    using that a l by (intro set_bytes_outside) auto
  ultimately show "\<exists>m'. vsnprintf buf n fmt ap m = Some (int (length cs), m')
        \<and> get_bytes m' buf (min (nat n - 1) (length cs)) = map word_of_int (take (nat n - 1) cs)
        \<and> m' (buf + min (nat n - 1) (length cs)) = 0
        \<and> (\<forall>a. a < buf \<or> buf + nat n \<le> a \<longrightarrow> m' a = m a)" unfolding l by blast
qed (simp add: vsnprintf_def)

theorem vsnprintf_bounded_witness:
  "\<exists>m'. vsnprintf 100 4 1 [word_of_int (- 4096)] (set_bytes 1 [37, 100] (\<lambda>_. 0)) = Some (5, m')
     \<and> get_bytes m' 100 3 = [45, 52, 48] \<and> m' 103 = 0"
proof -
  have d: "conv_dec (scast (word_of_int (- 4096) :: u32)) (- 1) 32 = [45, 52, 48, 57, 54]" by code_simp
  have "vprintfmt (set_bytes 1 [37, 100] (\<lambda>_. 0)) 1 [word_of_int (- 4096)] = Some [45, 52, 48, 57, 54]"
    unfolding d [symmetric] by (rule vprintfmt_d) simp
  then show ?thesis
    using vsnprintf_bounded [of 100 4 1 "[word_of_int (- 4096)]" "set_bytes 1 [37, 100] (\<lambda>_. 0)" "[45, 52, 48, 57, 54]"]
    by (auto simp: eval_nat_numeral)
qed

text \<open>
  C34: \<open>readline\<close> returns the edited line and never overruns its buffer.  For any sequence of
  characters typed before the first newline or carriage return, backspace and delete removing the last
  character, control characters being ignored and characters beyond 1023 being dropped, the buffer holds
  exactly the edited line, zero-terminated inside its 1024 bytes, and no byte beyond it changes.
\<close>

theorem readline_edits:
  assumes "\<forall>c\<in>set cs. 0 \<le> c \<and> c \<noteq> 10 \<and> c \<noteq> 13" "e = 10 \<or> e = 13"
  shows "\<exists>buf' out. readline_loop echoing (cs @ [e]) 0 buf [] = (Line buf', out)
    \<and> get_bytes buf' 0 (length (foldl edit [] cs)) = map word_of_int (foldl edit [] cs)
    \<and> buf' (length (foldl edit [] cs)) = 0
    \<and> length (foldl edit [] cs) < BUFLEN \<and> (\<forall>a\<ge>BUFLEN. buf' a = buf a)"
proof -
  let ?l = "foldl edit [] cs"
  have "holds buf buf []" by (simp add: holds_def BUFLEN_def)
  from readline_line [OF this assms, of echoing "[]"] obtain b out where
    "readline_loop echoing (cs @ [e]) 0 buf [] = (Line (b(length ?l := 0)), out)" "holds buf b ?l" by auto
  moreover from this have "get_bytes (b(length ?l := 0)) 0 (length ?l) = map word_of_int ?l"
    by (intro nth_equalityI) (auto simp: holds_def)
  ultimately show ?thesis by (auto simp: holds_def)
qed

theorem readline_edits_witness:
  "\<exists>buf' out. readline_loop True ([108, 115, 8, 97] @ [13]) 0 (\<lambda>_. 7) [] = (Line buf', out)
    \<and> get_bytes buf' 0 2 = [108, 97] \<and> buf' 2 = 0"
proof -
  have "foldl edit [] [108, 115, 8, 97] = [108, 97]" by (simp add: edit_def BUFLEN_def)
  then show ?thesis using readline_edits [of "[108, 115, 8, 97]" 13 True "\<lambda>_. 7"] by (auto simp: eval_nat_numeral)
qed

end
