(* ===== verification/Pipe.thy ===== *)
theory Pipe
  imports Prelude
begin

text \<open>
  Pipes between environments (\<open>pipe.c\<close>).  A pipe is a page shared by its two ends, with two
  positions and 32 bytes; nothing locks it.  The reader and the writer are modelled by the
  instructions of \<open>devpipe_read\<close> and \<open>devpipe_write\<close> that touch shared state, one step each, so that
  the timer interrupt may switch between them anywhere.  There is one of each, and they read, write and close; all other environments
  may duplicate and close the two ends at any moment, in two halves: \<open>dup\<close> (\<open>fd.c\<close>) maps the data page and
  then the descriptor page, \<open>fork\<close> and \<open>spawn\<close> go up the addresses and map the descriptor page first, and
  \<open>devpipe_close\<close> (as the end of an environment) unmaps the descriptor page first.

  \<open>env_runs\<close> of an environment grows whenever the environment is resumed after another one ran.

  Lemmas: for every interleaving, what was read is a prefix of what was written, and the rest lies in
  the buffer.  End of file is reported only when no write end is left, unless a read end is being forked;
  but it may be reported while bytes are left in the pipe.
\<close>

section \<open>State\<close>

definition PIPEBUFSIZ :: int where "PIPEBUFSIZ = 32"

text \<open>\<open>off_t\<close> is a signed 32-bit integer, and so is the remainder that indexes the buffer.\<close>

record pipe =
  p_rpos :: i32
  p_wpos :: i32
  p_buf :: "nat \<Rightarrow> u8"

definition slot :: "i32 \<Rightarrow> nat option" where
  "slot pos = (let i = c_mod (sint pos) PIPEBUFSIZ in if 0 \<le> i then Some (nat i) else None)"

text \<open>Overflow of a position is undefined behaviour.\<close>

definition advance :: "i32 \<Rightarrow> i32 option" where
  "advance pos = (if sint pos = 2 ^ 31 - 1 then None else Some (pos + 1))"

text \<open>What \<open>devpipe_stat\<close> stores: the name \<open><pipe>\<close>, the size and that it is no directory.\<close>

definition devpipe_stat :: "pipe \<Rightarrow> u8 list \<times> i32 \<times> bool" where
  "devpipe_stat p = ([60, 112, 105, 112, 101, 62], p_wpos p - p_rpos p, False)"

text \<open>
  Where an environment stands in \<open>devpipe_read\<close> or \<open>devpipe_write\<close>: outside a call; at the loop
  head; at the test of the two positions, whose first operand is already loaded in the second stage;
  in \<open>_pipeisclosed\<close> before each of its four reads; before \<open>sys_yield\<close>; at the transfer of the byte;
  at the increment of the position; returned; in \<open>devpipe_close\<close>; and after it.
\<close>

datatype pc =
    Idle | For | Test | Test2 i32
  | Runs1 | Ref1 nat | Ref2 nat nat | Runs2 nat bool | Yield
  | Move | Inc | Returned int | Unmap1 | Unmap2 | Gone

datatype who = Reader | Writer | Other

record pstate =
  pp :: pipe
  rpc :: pc
  r_n :: nat
  r_buf :: "u8 list"
  wpc :: pc
  w_buf :: "u8 list"
  w_i :: nat
  ref_r :: nat
  ref_w :: nat
  ref_d :: nat
  oth_r :: nat
  oth_w :: nat
  oth_d :: nat
  half_r :: nat
  half_w :: nat
  runs_r :: nat
  runs_w :: nat
  turn :: who
  sent :: "u8 list"
  recd :: "u8 list"

text \<open>
  \<open>ref_r\<close>, \<open>ref_w\<close>, \<open>ref_d\<close> are the reference counts of the page of the read descriptor, of the write
  descriptor and of the data; \<open>oth_r\<close>, \<open>oth_w\<close>, \<open>oth_d\<close> are the mappings that the other environments
  hold: complete read ends, complete write ends, and data pages without their descriptor;
  \<open>half_r\<close> and \<open>half_w\<close> are the descriptor pages that children in the making have without the data page.
  \<open>sent\<close> and \<open>recd\<close> record all the bytes put into and taken out of the pipe.
\<close>

text \<open>
  The pipe is new, its pages are zeroed, and the reader and the writer hold one end each; the other
  environments, such as the shell that made it, hold \<open>r\<close> read ends and \<open>w\<close> write ends.
\<close>

definition pipe_init :: "nat \<Rightarrow> nat \<Rightarrow> pstate" where
  "pipe_init r w = \<lparr>pp = \<lparr>p_rpos = 0, p_wpos = 0, p_buf = \<lambda>_. 0\<rparr>,
     rpc = Idle, r_n = 0, r_buf = [], wpc = Idle, w_buf = [], w_i = 0,
     ref_r = r + 1, ref_w = w + 1, ref_d = r + w + 2, oth_r = r, oth_w = w, oth_d = 0, half_r = 0, half_w = 0,
     runs_r = 0, runs_w = 0, turn = Other, sent = [], recd = []\<rparr>"

section \<open>Steps\<close>

text \<open>An environment that did not run last is resumed.\<close>

definition resume :: "who \<Rightarrow> pstate \<Rightarrow> pstate" where
  "resume p s =
     (if turn s = p then s
      else (case p of
              Reader \<Rightarrow> s\<lparr>turn := Reader, runs_r := runs_r s + 1\<rparr>
            | Writer \<Rightarrow> s\<lparr>turn := Writer, runs_w := runs_w s + 1\<rparr>
            | Other \<Rightarrow> s\<lparr>turn := Other\<rparr>))"

definition devpipe_read :: "pstate \<Rightarrow> pstate option" where
  "devpipe_read s =
     (case rpc s of
        For \<Rightarrow> Some (if length (r_buf s) < r_n s then s\<lparr>rpc := Test\<rparr>
                     else s\<lparr>rpc := Returned (int (length (r_buf s)))\<rparr>)
      | Test \<Rightarrow> Some (s\<lparr>rpc := Test2 (p_rpos (pp s))\<rparr>)
      | Test2 t \<Rightarrow>
          Some (if t = p_wpos (pp s) then
                  (if 0 < length (r_buf s) then s\<lparr>rpc := Returned (int (length (r_buf s)))\<rparr>
                   else s\<lparr>rpc := Runs1\<rparr>)
                else s\<lparr>rpc := Move\<rparr>)
      | Runs1 \<Rightarrow> Some (s\<lparr>rpc := Ref1 (runs_r s)\<rparr>)
      | Ref1 n \<Rightarrow> Some (s\<lparr>rpc := Ref2 n (ref_r s)\<rparr>)
      | Ref2 n a \<Rightarrow> Some (s\<lparr>rpc := Runs2 n (a = ref_d s)\<rparr>)
      | Runs2 n ret \<Rightarrow>
          Some (if n \<noteq> runs_r s then s\<lparr>rpc := Runs1\<rparr>
                else if ret then s\<lparr>rpc := Returned 0\<rparr> else s\<lparr>rpc := Yield\<rparr>)
      | Yield \<Rightarrow> Some (s\<lparr>rpc := Test\<rparr>)
      | Move \<Rightarrow> do {
          i \<leftarrow> slot (p_rpos (pp s));
          Some (s\<lparr>rpc := Inc, r_buf := r_buf s @ [p_buf (pp s) i], recd := recd s @ [p_buf (pp s) i]\<rparr>)
        }
      | Inc \<Rightarrow> do {
          pos \<leftarrow> advance (p_rpos (pp s));
          Some (s\<lparr>rpc := For, pp := (pp s)\<lparr>p_rpos := pos\<rparr>\<rparr>)
        }
      | _ \<Rightarrow> None)"

text \<open>The test for a full pipe compares unsigned, because \<open>sizeof\<close> is.\<close>

definition devpipe_write :: "pstate \<Rightarrow> pstate option" where
  "devpipe_write s =
     (case wpc s of
        For \<Rightarrow> Some (if w_i s < length (w_buf s) then s\<lparr>wpc := Test\<rparr>
                     else s\<lparr>wpc := Returned (int (w_i s))\<rparr>)
      | Test \<Rightarrow> Some (s\<lparr>wpc := Test2 (p_wpos (pp s))\<rparr>)
      | Test2 t \<Rightarrow> Some (if p_rpos (pp s) + word_of_int PIPEBUFSIZ \<le> t then s\<lparr>wpc := Runs1\<rparr> else s\<lparr>wpc := Move\<rparr>)
      | Runs1 \<Rightarrow> Some (s\<lparr>wpc := Ref1 (runs_w s)\<rparr>)
      | Ref1 n \<Rightarrow> Some (s\<lparr>wpc := Ref2 n (ref_w s)\<rparr>)
      | Ref2 n a \<Rightarrow> Some (s\<lparr>wpc := Runs2 n (a = ref_d s)\<rparr>)
      | Runs2 n ret \<Rightarrow>
          Some (if n \<noteq> runs_w s then s\<lparr>wpc := Runs1\<rparr>
                else if ret then s\<lparr>wpc := Returned 0\<rparr> else s\<lparr>wpc := Yield\<rparr>)
      | Yield \<Rightarrow> Some (s\<lparr>wpc := Test\<rparr>)
      | Move \<Rightarrow> do {
          i \<leftarrow> slot (p_wpos (pp s));
          Some (s\<lparr>wpc := Inc, pp := (pp s)\<lparr>p_buf := (p_buf (pp s))(i := w_buf s ! w_i s)\<rparr>\<rparr>)
        }
      | Inc \<Rightarrow> do {
          pos \<leftarrow> advance (p_wpos (pp s));
          Some (s\<lparr>wpc := For, pp := (pp s)\<lparr>p_wpos := pos\<rparr>, w_i := w_i s + 1, sent := sent s @ [w_buf s ! w_i s]\<rparr>)
        }
      | _ \<Rightarrow> None)"

text \<open>\<open>devpipe_close\<close> of either end: the descriptor page first, then the data page.\<close>

definition devpipe_close :: "who \<Rightarrow> pstate \<Rightarrow> pstate option" where
  "devpipe_close p s =
     (case p of
        Reader \<Rightarrow>
          (case rpc s of
             Unmap1 \<Rightarrow> Some (s\<lparr>rpc := Unmap2, ref_r := ref_r s - 1\<rparr>)
           | Unmap2 \<Rightarrow> Some (s\<lparr>rpc := Gone, ref_d := ref_d s - 1\<rparr>)
           | _ \<Rightarrow> None)
      | Writer \<Rightarrow>
          (case wpc s of
             Unmap1 \<Rightarrow> Some (s\<lparr>wpc := Unmap2, ref_w := ref_w s - 1\<rparr>)
           | Unmap2 \<Rightarrow> Some (s\<lparr>wpc := Gone, ref_d := ref_d s - 1\<rparr>)
           | _ \<Rightarrow> None)
      | Other \<Rightarrow> None)"

definition outside :: "pc \<Rightarrow> bool" where
  "outside c = (case c of Idle \<Rightarrow> True | Returned v \<Rightarrow> True | _ \<Rightarrow> False)"

text \<open>
  What may happen next: the reader or the writer starts a call or goes on, either closes its end, or
  another environment duplicates or closes an end, in two halves each.  \<open>MapData\<close> and \<open>MapFd\<close> are \<open>dup\<close>;
  \<open>ForkFd\<close> and \<open>ForkData\<close> are \<open>fork\<close> and \<open>copy_shared_pages\<close>, whose caller keeps its end meanwhile, and
  \<open>DropFd\<close> is the end of a child that was not completed.
\<close>

datatype action =
    Read nat | Write "u8 list" | RStep | WStep | RClose | WClose
  | MapData | MapFd who | ForkFd who | ForkData who | DropFd who | UnmapFd who | UnmapData

definition pipe_step :: "action \<Rightarrow> pstate \<Rightarrow> pstate option" where
  "pipe_step a s =
     (case a of
        Read n \<Rightarrow> if outside (rpc s) then Some ((resume Reader s)\<lparr>rpc := For, r_n := n, r_buf := []\<rparr>) else None
      | Write bs \<Rightarrow> if outside (wpc s) then Some ((resume Writer s)\<lparr>wpc := For, w_buf := bs, w_i := 0\<rparr>) else None
      | RStep \<Rightarrow> (case devpipe_read (resume Reader s) of Some s \<Rightarrow> Some s | None \<Rightarrow> devpipe_close Reader (resume Reader s))
      | WStep \<Rightarrow> (case devpipe_write (resume Writer s) of Some s \<Rightarrow> Some s | None \<Rightarrow> devpipe_close Writer (resume Writer s))
      | RClose \<Rightarrow> if outside (rpc s) then Some ((resume Reader s)\<lparr>rpc := Unmap1\<rparr>) else None
      | WClose \<Rightarrow> if outside (wpc s) then Some ((resume Writer s)\<lparr>wpc := Unmap1\<rparr>) else None
      | MapData \<Rightarrow>
          if 0 < oth_r s \<or> 0 < oth_w s then Some ((resume Other s)\<lparr>ref_d := ref_d s + 1, oth_d := oth_d s + 1\<rparr>) else None
      | MapFd Reader \<Rightarrow>
          if 0 < oth_d s \<and> 0 < oth_r s
          then Some ((resume Other s)\<lparr>ref_r := ref_r s + 1, oth_r := oth_r s + 1, oth_d := oth_d s - 1\<rparr>) else None
      | MapFd Writer \<Rightarrow>
          if 0 < oth_d s \<and> 0 < oth_w s
          then Some ((resume Other s)\<lparr>ref_w := ref_w s + 1, oth_w := oth_w s + 1, oth_d := oth_d s - 1\<rparr>) else None
      | ForkFd Reader \<Rightarrow>
          if 0 < oth_r s then Some ((resume Other s)\<lparr>ref_r := ref_r s + 1, half_r := half_r s + 1\<rparr>) else None
      | ForkData Reader \<Rightarrow>
          if 0 < half_r s \<and> 0 < oth_r s
          then Some ((resume Other s)\<lparr>ref_d := ref_d s + 1, oth_r := oth_r s + 1, half_r := half_r s - 1\<rparr>) else None
      | DropFd Reader \<Rightarrow>
          if 0 < half_r s then Some ((resume Other s)\<lparr>ref_r := ref_r s - 1, half_r := half_r s - 1\<rparr>) else None
      | ForkFd Writer \<Rightarrow>
          if 0 < oth_w s then Some ((resume Other s)\<lparr>ref_w := ref_w s + 1, half_w := half_w s + 1\<rparr>) else None
      | ForkData Writer \<Rightarrow>
          if 0 < half_w s \<and> 0 < oth_w s
          then Some ((resume Other s)\<lparr>ref_d := ref_d s + 1, oth_w := oth_w s + 1, half_w := half_w s - 1\<rparr>) else None
      | DropFd Writer \<Rightarrow>
          if 0 < half_w s then Some ((resume Other s)\<lparr>ref_w := ref_w s - 1, half_w := half_w s - 1\<rparr>) else None
      | UnmapFd Reader \<Rightarrow>
          if 0 < oth_r s
          then Some ((resume Other s)\<lparr>ref_r := ref_r s - 1, oth_r := oth_r s - 1, oth_d := oth_d s + 1\<rparr>) else None
      | UnmapFd Writer \<Rightarrow>
          if 0 < oth_w s
          then Some ((resume Other s)\<lparr>ref_w := ref_w s - 1, oth_w := oth_w s - 1, oth_d := oth_d s + 1\<rparr>) else None
      | UnmapData \<Rightarrow>
          if 0 < oth_d s then Some ((resume Other s)\<lparr>ref_d := ref_d s - 1, oth_d := oth_d s - 1\<rparr>) else None
      | _ \<Rightarrow> None)"

inductive pipe_reachable :: "pstate \<Rightarrow> bool" where
  init: "pipe_reachable (pipe_init r w)"
| step: "pipe_reachable s \<Longrightarrow> pipe_step a s = Some s' \<Longrightarrow> pipe_reachable s'"

fun pipe_run :: "action list \<Rightarrow> pstate \<Rightarrow> pstate option" where
  "pipe_run [] s = Some s"
| "pipe_run (a # as) s = (case pipe_step a s of None \<Rightarrow> None | Some s' \<Rightarrow> pipe_run as s')"

lemma pipe_run_reachable: "pipe_reachable s \<Longrightarrow> pipe_run as s = Some s' \<Longrightarrow> pipe_reachable s'"
  by (induction as s rule: pipe_run.induct) (auto split: option.splits intro: pipe_reachable.step)

text \<open>
  No read end is half forked while the reader is in \<open>_pipeisclosed\<close>, and no write end while the writer is; and the
  runs in which this is so all the time.
\<close>

definition asking :: "pc \<Rightarrow> bool" where
  "asking c = (case c of Runs1 \<Rightarrow> True | Ref1 m \<Rightarrow> True | Ref2 m a \<Rightarrow> True | Runs2 m t \<Rightarrow> True | _ \<Rightarrow> False)"

definition settled :: "pstate \<Rightarrow> bool" where
  "settled s \<longleftrightarrow> (asking (rpc s) \<longrightarrow> half_r s = 0) \<and> (asking (wpc s) \<longrightarrow> half_w s = 0)"

inductive pipe_settled :: "pstate \<Rightarrow> bool" where
  init: "pipe_settled (pipe_init r w)"
| step: "pipe_settled s \<Longrightarrow> pipe_step a s = Some s' \<Longrightarrow> settled s' \<Longrightarrow> pipe_settled s'"

fun settled_run :: "action list \<Rightarrow> pstate \<Rightarrow> pstate option" where
  "settled_run [] s = Some s"
| "settled_run (a # as) s =
     (case pipe_step a s of None \<Rightarrow> None | Some s' \<Rightarrow> if settled s' then settled_run as s' else None)"

lemma settled_reachable: "pipe_settled s \<Longrightarrow> pipe_reachable s"
  by (induction rule: pipe_settled.induct) (auto intro: pipe_reachable.intros)

lemma settled_run_settled: "pipe_settled s \<Longrightarrow> settled_run as s = Some s' \<Longrightarrow> pipe_settled s'"
  by (induction as s rule: settled_run.induct) (auto split: option.splits if_splits intro: pipe_settled.step)

lemma pipe_settled_now: "pipe_settled s \<Longrightarrow> settled s"
  by (induction rule: pipe_settled.induct) (simp_all add: settled_def pipe_init_def)

section \<open>Positions\<close>

lemma slot_pos: "0 \<le> sint pos \<Longrightarrow> slot pos = Some (nat (sint pos mod 32))"
  by (simp add: slot_def PIPEBUFSIZ_def c_mod_def c_div_nonneg minus_div_mult_eq_mod)

lemma sint_bound: "sint (pos :: i32) \<le> 2 ^ 31 - 1"
  using sint_lt [of pos] by simp

lemma advance_pos: "advance pos = Some pos' \<Longrightarrow> 0 \<le> sint pos \<Longrightarrow> sint pos' = sint pos + 1"
proof -
  assume a: "advance pos = Some pos'" "0 \<le> sint pos"
  then have "sint pos < 2 ^ 31 - 1" using sint_bound [of pos] by (auto simp: advance_def split: if_splits)
  moreover have "pos' = word_of_int (sint pos + 1)" using a by (auto simp: advance_def split: if_splits)
  ultimately show ?thesis using a(2) by (simp only: signed_of_int) (simp add: signed_take_bit_int_eq_self)
qed

lemma uint_pos: "0 \<le> sint (pos :: i32) \<Longrightarrow> uint pos = sint pos"
proof -
  assume "0 \<le> sint pos"
  then have "uint (word_of_int (sint pos) :: i32) = sint pos"
    using sint_bound [of pos] by (simp only: uint_word_of_int_eq) (simp add: take_bit_int_eq_self)
  then show ?thesis by simp
qed

lemma full_test: "0 \<le> sint r \<Longrightarrow> 0 \<le> sint w \<Longrightarrow> r + word_of_int PIPEBUFSIZ \<le> (w :: i32) \<longleftrightarrow> sint r + 32 \<le> sint w"
proof -
  assume a: "0 \<le> sint r" "0 \<le> sint w"
  have "uint (r + word_of_int PIPEBUFSIZ) = uint r + 32"
    using uint_pos [OF a(1)] sint_bound [of r] by (simp add: PIPEBUFSIZ_def uint_plus_if')
  then show ?thesis using a uint_pos by (simp add: word_le_def)
qed

lemma slot_inj: "(x :: int) < y \<Longrightarrow> y < x + 32 \<Longrightarrow> nat (x mod 32) \<noteq> nat (y mod 32)"
proof -
  assume "x < y" "y < x + 32"
  then have "x mod 32 \<noteq> y mod 32"
    using zdvd_not_zless [of "y - x" 32] by (auto simp: mod_eq_dvd_iff dvd_diff_commute)
  then show ?thesis by (simp add: eq_nat_nat_iff)
qed

section \<open>Invariants\<close>

text \<open>The two processes run only code of their own call, and the counts add up.\<close>

definition holds_fd :: "pc \<Rightarrow> nat" where
  "holds_fd c = (if c = Unmap2 \<or> c = Gone then 0 else 1)"

definition inv_refs :: "pstate \<Rightarrow> bool" where
  "inv_refs s \<longleftrightarrow> ref_r s = oth_r s + half_r s + holds_fd (rpc s) \<and> ref_w s = oth_w s + half_w s + holds_fd (wpc s)
     \<and> ref_d s = oth_r s + holds_fd (rpc s) + oth_w s + holds_fd (wpc s) + oth_d s + of_bool (rpc s = Unmap2) + of_bool (wpc s = Unmap2)"

text \<open>The window of the buffer between the two positions holds the bytes sent and not yet received.\<close>

definition window :: "int \<Rightarrow> int \<Rightarrow> (nat \<Rightarrow> u8) \<Rightarrow> u8 list \<Rightarrow> bool" where
  "window R W buf bs \<longleftrightarrow> 0 \<le> R \<and> R \<le> W \<and> W \<le> R + 32 \<and> int (length bs) = W
     \<and> (\<forall>k. R \<le> k \<and> k < W \<longrightarrow> buf (nat (k mod 32)) = bs ! nat k)"

definition R :: "pstate \<Rightarrow> int" where "R s = sint (p_rpos (pp s))"
definition W :: "pstate \<Rightarrow> int" where "W s = sint (p_wpos (pp s))"

definition inv_data :: "pstate \<Rightarrow> bool" where
  "inv_data s \<longleftrightarrow> window (R s) (W s) (p_buf (pp s)) (sent s)
     \<and> recd s = take (nat (R s) + of_bool (rpc s = Inc)) (sent s)
     \<and> (\<forall>t. rpc s = Test2 t \<longrightarrow> t = p_rpos (pp s)) \<and> (rpc s = Move \<or> rpc s = Inc \<longrightarrow> R s < W s)
     \<and> (\<forall>t. wpc s = Test2 t \<longrightarrow> t = p_wpos (pp s)) \<and> (wpc s = Move \<or> wpc s = Inc \<longrightarrow> W s < R s + 32)
     \<and> (wpc s = Inc \<longrightarrow> p_buf (pp s) (nat (W s mod 32)) = w_buf s ! w_i s)"

text \<open>
  What an environment has seen of the counts in \<open>_pipeisclosed\<close> is current unless another one ran
  since.  \<open>x\<close> is its own reference count, \<open>d\<close> that of the data, \<open>n\<close> its \<open>env_runs\<close>, \<open>mine\<close> whether it ran last.
\<close>

definition inv_eof :: "pc \<Rightarrow> nat \<Rightarrow> nat \<Rightarrow> nat \<Rightarrow> bool \<Rightarrow> bool" where
  "inv_eof c x d n mine \<longleftrightarrow>
     (\<forall>m. c = Ref1 m \<longrightarrow> m \<le> n)
     \<and> (\<forall>m a. c = Ref2 m a \<longrightarrow> m \<le> n \<and> (m = n \<and> mine \<longrightarrow> a = x))
     \<and> (\<forall>m ret. c = Runs2 m ret \<longrightarrow> m \<le> n \<and> (m = n \<and> mine \<longrightarrow> ret = (x = d)))"

definition in_loop :: "pc \<Rightarrow> bool" where
  "in_loop c = (case c of Idle \<Rightarrow> False | For \<Rightarrow> False | Returned v \<Rightarrow> False | Unmap1 \<Rightarrow> False | Unmap2 \<Rightarrow> False
     | Gone \<Rightarrow> False | _ \<Rightarrow> True)"

definition inv_reader :: "pstate \<Rightarrow> bool" where
  "inv_reader s \<longleftrightarrow> inv_eof (rpc s) (ref_r s) (ref_d s) (runs_r s) (turn s = Reader)"

definition inv_writer :: "pstate \<Rightarrow> bool" where
  "inv_writer s \<longleftrightarrow> inv_eof (wpc s) (ref_w s) (ref_d s) (runs_w s) (turn s = Writer)
     \<and> (in_loop (wpc s) \<longrightarrow> w_i s < length (w_buf s))"

lemma resume_fields [simp]:
  "pp (resume p s) = pp s" "rpc (resume p s) = rpc s" "r_n (resume p s) = r_n s" "r_buf (resume p s) = r_buf s"
  "wpc (resume p s) = wpc s" "w_buf (resume p s) = w_buf s" "w_i (resume p s) = w_i s"
  "ref_r (resume p s) = ref_r s" "ref_w (resume p s) = ref_w s" "ref_d (resume p s) = ref_d s"
  "oth_r (resume p s) = oth_r s" "oth_w (resume p s) = oth_w s" "oth_d (resume p s) = oth_d s"
  "half_r (resume p s) = half_r s" "half_w (resume p s) = half_w s"
  "sent (resume p s) = sent s" "recd (resume p s) = recd s" "turn (resume p s) = p"
  "R (resume p s) = R s" "W (resume p s) = W s"
  by (simp_all add: resume_def R_def W_def split: who.split)

lemma resume_runs: "runs_r s \<le> runs_r (resume p s)" "runs_w s \<le> runs_w (resume p s)"
  "turn s \<noteq> Reader \<Longrightarrow> runs_r s < runs_r (resume Reader s)" "turn s \<noteq> Writer \<Longrightarrow> runs_w s < runs_w (resume Writer s)"
  by (simp_all add: resume_def split: who.split)

lemma resume_inv:
  "inv_refs s \<Longrightarrow> inv_refs (resume p s)" "inv_data s \<Longrightarrow> inv_data (resume p s)"
  by (simp_all add: inv_refs_def inv_data_def)

lemma inv_eof_later:
  "inv_eof c x d n mine \<Longrightarrow> n \<le> n' \<Longrightarrow> (mine' \<Longrightarrow> mine \<or> n < n') \<Longrightarrow> inv_eof c x d n' mine'"
  by (fastforce simp: inv_eof_def)

lemma resume_reader: "inv_reader s \<Longrightarrow> inv_reader (resume p s)"
  unfolding inv_reader_def resume_fields
  by (erule inv_eof_later) (use resume_runs(1) [of s p] resume_runs(3) [of s] in auto)

lemma resume_writer: "inv_writer s \<Longrightarrow> inv_writer (resume p s)"
  unfolding inv_writer_def resume_fields
  by (elim conjE, intro conjI, erule inv_eof_later) (use resume_runs(2) [of s p] resume_runs(4) [of s] in auto)

section \<open>The invariants are kept\<close>

lemma RW_simps [simp]:
  "R (s\<lparr>pp := q\<rparr>) = sint (p_rpos q)" "W (s\<lparr>pp := q\<rparr>) = sint (p_wpos q)"
  "R (s\<lparr>rpc := c\<rparr>) = R s" "W (s\<lparr>rpc := c\<rparr>) = W s" "R (s\<lparr>wpc := c\<rparr>) = R s" "W (s\<lparr>wpc := c\<rparr>) = W s"
  "R (s\<lparr>r_buf := b\<rparr>) = R s" "W (s\<lparr>r_buf := b\<rparr>) = W s" "R (s\<lparr>recd := b\<rparr>) = R s" "W (s\<lparr>recd := b\<rparr>) = W s"
  "R (s\<lparr>sent := b\<rparr>) = R s" "W (s\<lparr>sent := b\<rparr>) = W s" "R (s\<lparr>w_i := i\<rparr>) = R s" "W (s\<lparr>w_i := i\<rparr>) = W s"
  by (simp_all add: R_def W_def)

lemma window_slots:
  "window (R s) (W s) buf bs \<Longrightarrow> slot (p_rpos (pp s)) = Some (nat (R s mod 32))"
  "window (R s) (W s) buf bs \<Longrightarrow> slot (p_wpos (pp s)) = Some (nat (W s mod 32))"
  by (simp_all add: window_def slot_pos R_def W_def)

lemma window_read: "window r w buf bs \<Longrightarrow> r < w \<Longrightarrow> window (r + 1) w buf bs"
  by (auto simp: window_def)

lemma window_next: "window r w buf bs \<Longrightarrow> r < w \<Longrightarrow> take (Suc (nat r)) bs = take (nat r) bs @ [buf (nat (r mod 32))]"
  by (auto simp: window_def take_Suc_conv_app_nth)

lemma window_store: "window r w buf bs \<Longrightarrow> w < r + 32 \<Longrightarrow> window r w (buf(nat (w mod 32) := b)) bs"
  using slot_inj [of _ w] by (fastforce simp: window_def)

lemma window_write:
  "window r w buf bs \<Longrightarrow> w < r + 32 \<Longrightarrow> buf (nat (w mod 32)) = b \<Longrightarrow> window r (w + 1) buf (bs @ [b])"
proof -
  assume w: "window r w buf bs" "w < r + 32" "buf (nat (w mod 32)) = b"
  then have "buf (nat (k mod 32)) = (bs @ [b]) ! nat k" if "r \<le> k" "k < w + 1" for k
    using that by (cases "k = w") (auto simp: window_def nth_append)
  with w show ?thesis by (auto simp: window_def)
qed

lemma pos_eq: "sint (p_rpos q) = sint (p_wpos q) \<longleftrightarrow> p_rpos q = p_wpos q"
  by (auto intro: signed_word_eqI)

lemma data_rpc:
  "inv_data s \<Longrightarrow> rpc s \<noteq> Inc \<Longrightarrow> c \<noteq> Inc \<Longrightarrow> (c = Move \<Longrightarrow> R s < W s) \<Longrightarrow> (\<And>t. c = Test2 t \<Longrightarrow> t = p_rpos (pp s)) \<Longrightarrow>
   inv_data (s\<lparr>rpc := c\<rparr>)"
  unfolding inv_data_def by simp

lemma data_wpc:
  "inv_data s \<Longrightarrow> c \<noteq> Inc \<Longrightarrow> (c = Move \<Longrightarrow> W s < R s + 32) \<Longrightarrow> (\<And>t. c = Test2 t \<Longrightarrow> t = p_wpos (pp s)) \<Longrightarrow>
   inv_data (s\<lparr>wpc := c\<rparr>)"
  unfolding inv_data_def by simp

lemma read_data:
  assumes "inv_data s" "devpipe_read s = Some s'"
  shows "inv_data s'"
proof (cases "rpc s")
  case (Test2 t)
  then have t: "t = p_rpos (pp s)" "R s \<le> W s" using assms(1) by (simp_all add: inv_data_def window_def)
  then have "t = p_wpos (pp s) \<or> R s < W s" using pos_eq [of "pp s"] by (simp add: R_def W_def) linarith
  with assms(2) Test2 show ?thesis
    by (auto simp: devpipe_read_def intro!: data_rpc [OF assms(1)] split: if_splits)
next
  case Move
  then have w: "window (R s) (W s) (p_buf (pp s)) (sent s)" "R s < W s" using assms(1) by (auto simp: inv_data_def)
  let ?b = "p_buf (pp s) (nat (R s mod 32))"
  have "s' = s\<lparr>rpc := Inc, r_buf := r_buf s @ [?b], recd := recd s @ [?b]\<rparr>"
    using assms(2) Move window_slots(1) [OF w(1)] by (simp add: devpipe_read_def)
  moreover have "recd s @ [?b] = take (nat (R s) + 1) (sent s)"
    using window_next [OF w] assms(1) Move by (simp add: inv_data_def)
  ultimately show ?thesis using assms(1) w(2) unfolding inv_data_def by simp
next
  case Inc
  then have w: "window (R s) (W s) (p_buf (pp s)) (sent s)" "R s < W s" using assms(1) by (auto simp: inv_data_def)
  from assms(2) Inc obtain pos where pos: "advance (p_rpos (pp s)) = Some pos"
    "s' = s\<lparr>rpc := For, pp := (pp s)\<lparr>p_rpos := pos\<rparr>\<rparr>" by (auto simp: devpipe_read_def split: bind_splits)
  then have r: "sint pos = R s + 1" "0 \<le> R s" using w advance_pos [OF pos(1)] by (auto simp: window_def R_def)
  then show ?thesis
    using assms(1) pos(2) Inc window_read [OF w] by (auto simp: inv_data_def nat_add_distrib W_def)
qed (use assms(2) in \<open>auto simp: devpipe_read_def intro!: data_rpc [OF assms(1)] split: if_splits\<close>)

lemma write_data:
  assumes "inv_data s" "devpipe_write s = Some s'"
  shows "inv_data s'"
proof (cases "wpc s")
  case (Test2 t)
  then have t: "t = p_wpos (pp s)" "0 \<le> R s" "0 \<le> W s" using assms(1) by (simp_all add: inv_data_def window_def)
  then have "p_rpos (pp s) + word_of_int PIPEBUFSIZ \<le> t \<or> W s < R s + 32"
    using full_test [of "p_rpos (pp s)" "p_wpos (pp s)"] by (simp add: R_def W_def) linarith
  with assms(2) Test2 show ?thesis
    by (auto simp: devpipe_write_def intro!: data_wpc [OF assms(1)] split: if_splits)
next
  case Move
  then have w: "window (R s) (W s) (p_buf (pp s)) (sent s)" "W s < R s + 32" using assms(1) by (auto simp: inv_data_def)
  then show ?thesis
    using assms Move window_slots(2) [OF w(1)] window_store [OF w, of "w_buf s ! w_i s"]
    by (auto simp: inv_data_def devpipe_write_def R_def W_def)
next
  case Inc
  then have w: "window (R s) (W s) (p_buf (pp s)) (sent s)" "W s < R s + 32"
    "p_buf (pp s) (nat (W s mod 32)) = w_buf s ! w_i s" using assms(1) by (auto simp: inv_data_def)
  from assms(2) Inc obtain pos where pos: "advance (p_wpos (pp s)) = Some pos"
    "s' = s\<lparr>wpc := For, pp := (pp s)\<lparr>p_wpos := pos\<rparr>, w_i := w_i s + 1, sent := sent s @ [w_buf s ! w_i s]\<rparr>"
    by (auto simp: devpipe_write_def split: bind_splits)
  then have r: "sint pos = W s + 1" using w advance_pos [OF pos(1)] by (auto simp: window_def W_def)
  have "nat (R s) + of_bool (rpc s = Inc) \<le> length (sent s)" using assms(1) w(1) by (auto simp: inv_data_def window_def)
  then show ?thesis
    using assms(1) pos(2) Inc r window_write [OF w] by (auto simp: inv_data_def R_def)
qed (use assms(2) in \<open>auto simp: devpipe_write_def intro!: data_wpc [OF assms(1)] split: if_splits\<close>)

text \<open>A step of a call keeps the counts, and only moves the program counter of its own process.\<close>

lemma read_frame:
  "devpipe_read s = Some s' \<Longrightarrow>
   ref_r s' = ref_r s \<and> ref_w s' = ref_w s \<and> ref_d s' = ref_d s \<and> oth_r s' = oth_r s \<and> oth_w s' = oth_w s \<and> oth_d s' = oth_d s
   \<and> half_r s' = half_r s \<and> half_w s' = half_w s
   \<and> wpc s' = wpc s \<and> w_buf s' = w_buf s \<and> w_i s' = w_i s \<and> runs_r s' = runs_r s \<and> runs_w s' = runs_w s \<and> turn s' = turn s
   \<and> r_n s' = r_n s \<and> holds_fd (rpc s') = 1 \<and> holds_fd (rpc s) = 1 \<and> rpc s \<noteq> Unmap2 \<and> rpc s' \<noteq> Unmap2"
  by (cases "rpc s") (auto simp: devpipe_read_def holds_fd_def split: bind_splits if_splits)

lemma write_frame:
  "devpipe_write s = Some s' \<Longrightarrow>
   ref_r s' = ref_r s \<and> ref_w s' = ref_w s \<and> ref_d s' = ref_d s \<and> oth_r s' = oth_r s \<and> oth_w s' = oth_w s \<and> oth_d s' = oth_d s
   \<and> half_r s' = half_r s \<and> half_w s' = half_w s
   \<and> rpc s' = rpc s \<and> r_n s' = r_n s \<and> r_buf s' = r_buf s \<and> runs_r s' = runs_r s \<and> runs_w s' = runs_w s \<and> turn s' = turn s
   \<and> w_buf s' = w_buf s \<and> holds_fd (wpc s') = 1 \<and> holds_fd (wpc s) = 1 \<and> wpc s \<noteq> Unmap2 \<and> wpc s' \<noteq> Unmap2"
  by (cases "wpc s") (auto simp: devpipe_write_def holds_fd_def split: bind_splits if_splits)

lemma read_refs: "inv_refs s \<Longrightarrow> devpipe_read s = Some s' \<Longrightarrow> inv_refs s'"
  by (drule read_frame) (simp add: inv_refs_def)

lemma write_refs: "inv_refs s \<Longrightarrow> devpipe_write s = Some s' \<Longrightarrow> inv_refs s'"
  by (drule write_frame) (simp add: inv_refs_def)

lemma read_reader:
  assumes "inv_reader s" "turn s = Reader" "devpipe_read s = Some s'"
  shows "inv_reader s'"
  using assms read_frame [OF assms(3)]
  by (cases "rpc s") (auto simp: devpipe_read_def inv_reader_def inv_eof_def split: bind_splits if_splits)

lemma write_writer:
  assumes "inv_writer s" "turn s = Writer" "devpipe_write s = Some s'"
  shows "inv_writer s'"
  using assms write_frame [OF assms(3)]
  by (cases "wpc s") (auto simp: devpipe_write_def inv_writer_def inv_eof_def in_loop_def split: bind_splits if_splits)

lemma read_writer: "inv_writer s \<Longrightarrow> devpipe_read s = Some s' \<Longrightarrow> inv_writer s'"
  by (drule read_frame) (simp add: inv_writer_def)

lemma write_reader: "inv_reader s \<Longrightarrow> devpipe_write s = Some s' \<Longrightarrow> inv_reader s'"
  by (drule write_frame) (simp add: inv_reader_def)

definition pipe_inv :: "pstate \<Rightarrow> bool" where
  "pipe_inv s \<longleftrightarrow> inv_refs s \<and> inv_data s \<and> inv_reader s \<and> inv_writer s"

lemma resume_pipe_inv: "pipe_inv s \<Longrightarrow> pipe_inv (resume p s)"
  by (simp add: pipe_inv_def resume_inv resume_reader resume_writer)

lemma read_inv: "pipe_inv s \<Longrightarrow> turn s = Reader \<Longrightarrow> devpipe_read s = Some s' \<Longrightarrow> pipe_inv s'"
  unfolding pipe_inv_def using read_refs read_data read_reader read_writer by blast

lemma write_inv: "pipe_inv s \<Longrightarrow> turn s = Writer \<Longrightarrow> devpipe_write s = Some s' \<Longrightarrow> pipe_inv s'"
  unfolding pipe_inv_def using write_refs write_data write_writer write_reader by blast

text \<open>Changing the counts while another environment runs.\<close>

lemma inv_eof_refs:
  "inv_eof c x d n mine \<Longrightarrow> inv_eof c x' d' n False"
  by (auto simp: inv_eof_def)

lemma other_inv:
  assumes "pipe_inv s" "turn s' = Other" "inv_refs s'" "inv_data s'"
    and "rpc s' = rpc s" "wpc s' = wpc s" "runs_r s' = runs_r s" "runs_w s' = runs_w s" "w_buf s' = w_buf s" "w_i s' = w_i s"
  shows "pipe_inv s'"
  using assms by (auto simp: pipe_inv_def inv_reader_def inv_writer_def elim!: inv_eof_refs)

lemma data_counts [simp]:
  "inv_data (s\<lparr>ref_r := x\<rparr>) = inv_data s" "inv_data (s\<lparr>ref_w := x\<rparr>) = inv_data s" "inv_data (s\<lparr>ref_d := x\<rparr>) = inv_data s"
  "inv_data (s\<lparr>oth_r := x\<rparr>) = inv_data s" "inv_data (s\<lparr>oth_w := x\<rparr>) = inv_data s" "inv_data (s\<lparr>oth_d := x\<rparr>) = inv_data s"
  "inv_data (s\<lparr>half_r := x\<rparr>) = inv_data s" "inv_data (s\<lparr>half_w := x\<rparr>) = inv_data s"
  "inv_data (s\<lparr>r_n := x\<rparr>) = inv_data s" "inv_data (s\<lparr>r_buf := bs\<rparr>) = inv_data s"
  by (simp_all add: inv_data_def R_def W_def)

lemma close_reader:
  assumes "pipe_inv s" "turn s = Reader" "devpipe_close Reader s = Some s'"
  shows "pipe_inv s'"
proof -
  from assms(3) consider "rpc s = Unmap1" "s' = s\<lparr>rpc := Unmap2, ref_r := ref_r s - 1\<rparr>"
    | "rpc s = Unmap2" "s' = s\<lparr>rpc := Gone, ref_d := ref_d s - 1\<rparr>"
    by (cases "rpc s") (auto simp: devpipe_close_def)
  then show ?thesis
  proof cases
    case 1
    then show ?thesis using assms(1,2) data_rpc [of s Unmap2]
      by (auto simp: pipe_inv_def inv_refs_def inv_reader_def inv_writer_def inv_eof_def holds_fd_def)
  next
    case 2
    then show ?thesis using assms(1,2) data_rpc [of s Gone]
      by (auto simp: pipe_inv_def inv_refs_def inv_reader_def inv_writer_def inv_eof_def holds_fd_def)
  qed
qed

lemma close_writer:
  assumes "pipe_inv s" "turn s = Writer" "devpipe_close Writer s = Some s'"
  shows "pipe_inv s'"
proof -
  from assms(3) consider "wpc s = Unmap1" "s' = s\<lparr>wpc := Unmap2, ref_w := ref_w s - 1\<rparr>"
    | "wpc s = Unmap2" "s' = s\<lparr>wpc := Gone, ref_d := ref_d s - 1\<rparr>"
    by (cases "wpc s") (auto simp: devpipe_close_def)
  then show ?thesis
  proof cases
    case 1
    then show ?thesis using assms(1,2) data_wpc [of s Unmap2]
      by (auto simp: pipe_inv_def inv_refs_def inv_reader_def inv_writer_def inv_eof_def holds_fd_def in_loop_def)
  next
    case 2
    then show ?thesis using assms(1,2) data_wpc [of s Gone]
      by (auto simp: pipe_inv_def inv_refs_def inv_reader_def inv_writer_def inv_eof_def holds_fd_def in_loop_def)
  qed
qed

text \<open>Starting a call, or to close, from outside a call.\<close>

lemma start_reader:
  assumes "pipe_inv s" "outside (rpc s)" "c = For \<or> c = Unmap1"
  shows "pipe_inv (s\<lparr>rpc := c, r_n := n, r_buf := bs\<rparr>)" "pipe_inv (s\<lparr>rpc := c\<rparr>)"
  using assms data_rpc [of s c]
  by (auto simp: pipe_inv_def outside_def inv_refs_def inv_reader_def inv_writer_def inv_eof_def holds_fd_def split: pc.splits)

lemma start_writer:
  assumes "pipe_inv s" "outside (wpc s)"
  shows "pipe_inv (s\<lparr>wpc := For, w_buf := bs, w_i := 0\<rparr>)" "pipe_inv (s\<lparr>wpc := Unmap1\<rparr>)"
proof -
  have "inv_data (s\<lparr>wpc := For, w_buf := bs, w_i := 0\<rparr>)" "inv_data (s\<lparr>wpc := Unmap1\<rparr>)"
    using assms(1) by (simp_all add: pipe_inv_def inv_data_def R_def W_def)
  then show "pipe_inv (s\<lparr>wpc := For, w_buf := bs, w_i := 0\<rparr>)" "pipe_inv (s\<lparr>wpc := Unmap1\<rparr>)"
    using assms
    by (auto simp: pipe_inv_def outside_def inv_refs_def inv_reader_def inv_writer_def inv_eof_def holds_fd_def in_loop_def split: pc.splits)
qed

lemma step_reader:
  assumes "pipe_inv s" "pipe_step RStep s = Some s'"
  shows "pipe_inv s'"
proof (cases "devpipe_read (resume Reader s)")
  case None
  then show ?thesis using assms close_reader [OF resume_pipe_inv [OF assms(1), of Reader]] by (simp add: pipe_step_def)
next
  case (Some t)
  then show ?thesis using assms read_inv [OF resume_pipe_inv [OF assms(1), of Reader]] by (simp add: pipe_step_def)
qed

lemma step_writer:
  assumes "pipe_inv s" "pipe_step WStep s = Some s'"
  shows "pipe_inv s'"
proof (cases "devpipe_write (resume Writer s)")
  case None
  then show ?thesis using assms close_writer [OF resume_pipe_inv [OF assms(1), of Writer]] by (simp add: pipe_step_def)
next
  case (Some t)
  then show ?thesis using assms write_inv [OF resume_pipe_inv [OF assms(1), of Writer]] by (simp add: pipe_step_def)
qed

text \<open>The steps of the other environments.\<close>

definition shares :: "action \<Rightarrow> bool" where
  "shares a = (case a of MapData \<Rightarrow> True | MapFd p \<Rightarrow> True | ForkFd p \<Rightarrow> True | ForkData p \<Rightarrow> True | DropFd p \<Rightarrow> True
     | UnmapFd p \<Rightarrow> True | UnmapData \<Rightarrow> True | _ \<Rightarrow> False)"

lemma share_frame:
  assumes "shares a" "pipe_step a s = Some s'"
  shows "turn s' = Other \<and> pp s' = pp s \<and> rpc s' = rpc s \<and> wpc s' = wpc s \<and> r_n s' = r_n s \<and> r_buf s' = r_buf s
    \<and> w_buf s' = w_buf s \<and> w_i s' = w_i s \<and> sent s' = sent s \<and> recd s' = recd s
    \<and> runs_r s' = runs_r (resume Other s) \<and> runs_w s' = runs_w (resume Other s)
    \<and> (oth_r s = 0 \<longrightarrow> oth_r s' = 0) \<and> (oth_w s = 0 \<longrightarrow> oth_w s' = 0)"
  using assms by (auto simp: shares_def pipe_step_def split: action.splits who.splits if_splits)

lemma share_refs: "shares a \<Longrightarrow> pipe_step a s = Some s' \<Longrightarrow> inv_refs s \<Longrightarrow> inv_refs s'"
  by (auto simp: shares_def pipe_step_def inv_refs_def split: action.splits who.splits if_splits)

lemma share_inv:
  assumes "pipe_inv s" "pipe_step a s = Some s'" "shares a"
  shows "pipe_inv s'"
proof -
  note f = share_frame [OF assms(3,2)]
  have "inv_data s'" using assms(1) f unfolding pipe_inv_def inv_data_def R_def W_def by simp
  moreover have "inv_refs s'" using assms share_refs by (simp add: pipe_inv_def)
  ultimately show ?thesis using other_inv [OF resume_pipe_inv [OF assms(1), of Other], of s'] f by simp
qed

lemma pipe_step_inv:
  assumes "pipe_inv s" "pipe_step a s = Some s'"
  shows "pipe_inv s'"
proof (cases a)
  case (Read n)
  then show ?thesis using assms start_reader(1) [OF resume_pipe_inv [OF assms(1)], of Reader For]
    by (auto simp: pipe_step_def split: if_splits)
next
  case (Write bs)
  then show ?thesis using assms start_writer(1) [OF resume_pipe_inv [OF assms(1)], of Writer]
    by (auto simp: pipe_step_def split: if_splits)
next
  case RClose
  then show ?thesis using assms start_reader(2) [OF resume_pipe_inv [OF assms(1)], of Reader Unmap1]
    by (auto simp: pipe_step_def split: if_splits)
next
  case WClose
  then show ?thesis using assms start_writer(2) [OF resume_pipe_inv [OF assms(1)], of Writer]
    by (auto simp: pipe_step_def split: if_splits)
next
  case RStep
  then show ?thesis using assms step_reader by blast
next
  case WStep
  then show ?thesis using assms step_writer by blast
qed (use share_inv [OF assms] in \<open>auto simp: shares_def\<close>)

lemma pipe_inv_init: "pipe_inv (pipe_init r w)"
  by (simp add: pipe_init_def pipe_inv_def inv_refs_def inv_data_def inv_reader_def inv_writer_def inv_eof_def
      holds_fd_def in_loop_def window_def R_def W_def) presburger

lemma pipe_reachable_inv: "pipe_reachable s \<Longrightarrow> pipe_inv s"
  by (induction rule: pipe_reachable.induct) (simp_all add: pipe_inv_init pipe_step_inv)

section \<open>What the calls return\<close>

definition tail_of :: "u8 list \<Rightarrow> u8 list \<Rightarrow> bool" where "tail_of b bs \<longleftrightarrow> (\<exists>pre. bs = pre @ b)"

lemma tail_of_simps [simp]: "tail_of [] bs" "tail_of b bs \<Longrightarrow> tail_of (b @ [x]) (bs @ [x])"
  by (auto simp: tail_of_def)

text \<open>The bytes of the current call of the reader are the last ones received, and it returns their number.\<close>

definition calls_r :: "pc \<Rightarrow> u8 list \<Rightarrow> u8 list \<Rightarrow> nat \<Rightarrow> bool" where
  "calls_r c bs b n \<longleftrightarrow> tail_of b bs \<and> length b \<le> n \<and> (in_loop c \<and> c \<noteq> Inc \<longrightarrow> length b < n)
     \<and> (\<forall>v. c = Returned v \<longrightarrow> v = int (length b)) \<and> (asking c \<longrightarrow> b = [])"

definition calls_w :: "pc \<Rightarrow> u8 list \<Rightarrow> u8 list \<Rightarrow> nat \<Rightarrow> bool" where
  "calls_w c bs b i \<longleftrightarrow> tail_of (take i b) bs \<and> i \<le> length b \<and> (in_loop c \<longrightarrow> i < length b)
     \<and> (\<forall>v. c = Returned v \<longrightarrow> v = 0 \<or> v = int (length b) \<and> i = length b)"

definition inv_calls :: "pstate \<Rightarrow> bool" where
  "inv_calls s \<longleftrightarrow> calls_r (rpc s) (recd s) (r_buf s) (r_n s) \<and> calls_w (wpc s) (sent s) (w_buf s) (w_i s)"

lemmas calls_defs = calls_r_def calls_w_def in_loop_def asking_def

lemma read_calls:
  "calls_r (rpc s) (recd s) (r_buf s) (r_n s) \<Longrightarrow> devpipe_read s = Some s' \<Longrightarrow> calls_r (rpc s') (recd s') (r_buf s') (r_n s')"
  by (cases "rpc s") (auto simp: devpipe_read_def calls_defs split: bind_splits if_splits)

lemma write_calls:
  "calls_w (wpc s) (sent s) (w_buf s) (w_i s) \<Longrightarrow> devpipe_write s = Some s' \<Longrightarrow> calls_w (wpc s') (sent s') (w_buf s') (w_i s')"
  by (cases "wpc s") (auto simp: devpipe_write_def calls_defs take_Suc_conv_app_nth split: bind_splits if_splits)

lemma read_sent: "devpipe_read s = Some s' \<Longrightarrow> sent s' = sent s"
  by (cases "rpc s") (auto simp: devpipe_read_def split: bind_splits if_splits)

lemma write_recd: "devpipe_write s = Some s' \<Longrightarrow> recd s' = recd s"
  by (cases "wpc s") (auto simp: devpipe_write_def split: bind_splits if_splits)

lemma close_calls:
  assumes "inv_calls s" "devpipe_close p s = Some s'"
  shows "inv_calls s'"
proof (cases p)
  case Reader
  then show ?thesis using assms
    by (cases "rpc s") (auto simp: devpipe_close_def inv_calls_def calls_r_def in_loop_def asking_def)
next
  case Writer
  then show ?thesis using assms by (cases "wpc s") (auto simp: devpipe_close_def inv_calls_def calls_w_def in_loop_def)
qed (use assms in \<open>simp add: devpipe_close_def\<close>)

lemma resume_calls: "inv_calls (resume p s) = inv_calls s"
  by (simp add: inv_calls_def)

lemma rstep_calls:
  assumes "inv_calls s" "devpipe_read s = Some s'"
  shows "inv_calls s'"
proof -
  have "wpc s' = wpc s" "w_buf s' = w_buf s" "w_i s' = w_i s" using read_frame [OF assms(2)] by blast+
  then show ?thesis using assms(1) read_calls [OF _ assms(2)] by (simp add: inv_calls_def read_sent [OF assms(2)])
qed

lemma wstep_calls:
  assumes "inv_calls s" "devpipe_write s = Some s'"
  shows "inv_calls s'"
proof -
  have "rpc s' = rpc s" "r_n s' = r_n s" "r_buf s' = r_buf s" using write_frame [OF assms(2)] by blast+
  then show ?thesis using assms(1) write_calls [OF _ assms(2)] by (simp add: inv_calls_def write_recd [OF assms(2)])
qed

lemma start_calls:
  "calls_r For bs [] n" "calls_w For bs b 0" "calls_r c bs b n \<Longrightarrow> calls_r Unmap1 bs b n"
  "calls_w c bs b i \<Longrightarrow> calls_w Unmap1 bs b i"
  by (simp_all add: calls_defs)

lemma pipe_step_calls:
  assumes "inv_calls s" "pipe_step a s = Some s'"
  shows "inv_calls s'"
proof (cases a)
  case RStep
  have "inv_calls (resume Reader s)" using assms(1) by (simp only: resume_calls)
  with assms(2) RStep show ?thesis
    by (cases "devpipe_read (resume Reader s)") (auto simp: pipe_step_def intro: rstep_calls close_calls)
next
  case WStep
  have "inv_calls (resume Writer s)" using assms(1) by (simp only: resume_calls)
  with assms(2) WStep show ?thesis
    by (cases "devpipe_write (resume Writer s)") (auto simp: pipe_step_def intro: wstep_calls close_calls)
next
  case (Read n)
  with assms show ?thesis by (auto simp: pipe_step_def inv_calls_def start_calls split: if_splits)
next
  case (Write bs)
  with assms show ?thesis by (auto simp: pipe_step_def inv_calls_def start_calls split: if_splits)
next
  case RClose
  with assms show ?thesis by (auto simp: pipe_step_def inv_calls_def start_calls split: if_splits)
next
  case WClose
  with assms show ?thesis by (auto simp: pipe_step_def inv_calls_def start_calls split: if_splits)
qed (use share_frame [OF _ assms(2)] assms(1) in \<open>auto simp: shares_def inv_calls_def\<close>)

lemma pipe_reachable_calls: "pipe_reachable s \<Longrightarrow> inv_calls s"
proof (induction rule: pipe_reachable.induct)
  case (init r w)
  then show ?case by (simp add: pipe_init_def inv_calls_def calls_defs)
next
  case (step s a s')
  then show ?case using pipe_step_calls by blast
qed

section \<open>Properties\<close>


text \<open>Two bytes cross a pipe whose ends another environment shares, with a switch in the middle of each call.\<close>

definition busy_run :: "action list" where
  "busy_run = [Read 5, RStep, RStep, Write [7, 8], WStep, WStep, WStep, RStep, RStep, WStep, WStep, RStep, RStep, RStep, RStep,
     UnmapFd Writer, RStep, RStep, RStep, RStep, UnmapData, WStep, WStep, WStep, WStep, WStep, RStep, RStep, RStep, RStep, RStep,
     RStep, RStep, RStep, RStep, RStep, RStep]"


text \<open>The size that \<open>devpipe_stat\<close> reports lies between 0 and the size of the buffer, whatever is under way.\<close>

lemma devpipe_stat_size:
  assumes "pipe_reachable s"
  shows "0 \<le> sint (fst (snd (devpipe_stat (pp s)))) \<and> sint (fst (snd (devpipe_stat (pp s)))) \<le> PIPEBUFSIZ"
proof -
  have "window (R s) (W s) (p_buf (pp s)) (sent s)" using pipe_reachable_inv [OF assms] by (simp add: pipe_inv_def inv_data_def)
  then have w: "0 \<le> R s" "R s \<le> W s" "W s \<le> R s + 32" by (simp_all add: window_def)
  have "p_wpos (pp s) - p_rpos (pp s) = word_of_int (W s - R s)" by (simp add: R_def W_def)
  moreover have "sint (word_of_int (W s - R s) :: i32) = W s - R s" using w by (simp only: signed_of_int) (simp add: signed_take_bit_int_eq_self)
  ultimately show ?thesis using w by (simp add: devpipe_stat_def PIPEBUFSIZ_def)
qed

section \<open>End of file\<close>

text \<open>The other end is gone: no environment has a complete write end, or read end, any more.\<close>

definition eof_r :: "pstate \<Rightarrow> bool" where
  "eof_r s \<longleftrightarrow> (rpc s = Returned 0 \<and> 0 < r_n s \<longrightarrow> oth_w s = 0 \<and> holds_fd (wpc s) = 0)"

definition eof_w :: "pstate \<Rightarrow> bool" where
  "eof_w s \<longleftrightarrow> (wpc s = Returned 0 \<and> w_buf s \<noteq> [] \<longrightarrow> oth_r s = 0 \<and> holds_fd (rpc s) = 0)"

lemma resume_eof [simp]: "eof_r (resume p s) = eof_r s" "eof_w (resume p s) = eof_w s"
  by (simp_all add: eof_r_def eof_w_def)

lemma refs_alone:
  "inv_refs s \<Longrightarrow> half_r s = 0 \<Longrightarrow> ref_r s = ref_d s \<Longrightarrow> oth_w s = 0 \<and> holds_fd (wpc s) = 0"
  "inv_refs s \<Longrightarrow> half_w s = 0 \<Longrightarrow> ref_w s = ref_d s \<Longrightarrow> oth_r s = 0 \<and> holds_fd (rpc s) = 0"
  by (simp_all add: inv_refs_def)

lemma read_eof:
  assumes "pipe_inv s" "settled s" "turn s = Reader" "devpipe_read s = Some s'" "eof_w s"
  shows "eof_r s' \<and> eof_w s'"
proof -
  have i: "inv_refs s" "inv_reader s" using assms(1) by (simp_all add: pipe_inv_def)
  note f = read_frame [OF assms(4)]
  have "eof_r s'" using assms(2-4) i(2) refs_alone(1) [OF i(1)] f
    by (cases "rpc s") (auto simp: devpipe_read_def eof_r_def inv_reader_def inv_eof_def settled_def asking_def split: bind_splits if_splits)
  moreover have "eof_w s'" using assms(5) f by (simp add: eof_w_def)
  ultimately show ?thesis ..
qed

lemma write_eof:
  assumes "pipe_inv s" "settled s" "turn s = Writer" "devpipe_write s = Some s'" "eof_r s"
  shows "eof_r s' \<and> eof_w s'"
proof -
  have i: "inv_refs s" "inv_writer s" using assms(1) by (simp_all add: pipe_inv_def)
  note f = write_frame [OF assms(4)]
  have "eof_w s'" using assms(2-4) i(2) refs_alone(2) [OF i(1)] f
    by (cases "wpc s") (auto simp: devpipe_write_def eof_w_def inv_writer_def inv_eof_def settled_def asking_def split: bind_splits if_splits)
  moreover have "eof_r s'" using assms(5) f by (simp add: eof_r_def)
  ultimately show ?thesis by simp
qed

lemma close_eof: "devpipe_close p s = Some s' \<Longrightarrow> eof_r s \<Longrightarrow> eof_w s \<Longrightarrow> eof_r s' \<and> eof_w s'"
  by (auto simp: devpipe_close_def eof_r_def eof_w_def holds_fd_def split: who.splits pc.splits)

lemma outside_holds: "outside c \<Longrightarrow> holds_fd c = 1"
  by (auto simp: outside_def holds_fd_def)

lemma eof_start:
  "outside (rpc s) \<Longrightarrow> eof_w s \<Longrightarrow> eof_w (s\<lparr>rpc := c, r_n := n, r_buf := b\<rparr>)" "outside (rpc s) \<Longrightarrow> eof_w s \<Longrightarrow> eof_w (s\<lparr>rpc := c\<rparr>)"
  "outside (wpc s) \<Longrightarrow> eof_r s \<Longrightarrow> eof_r (s\<lparr>wpc := c, w_buf := b, w_i := n\<rparr>)" "outside (wpc s) \<Longrightarrow> eof_r s \<Longrightarrow> eof_r (s\<lparr>wpc := c\<rparr>)"
  "eof_r (s\<lparr>rpc := For, r_n := n, r_buf := b\<rparr>)" "eof_r (s\<lparr>rpc := Unmap1\<rparr>)"
  "eof_w (s\<lparr>wpc := For, w_buf := b, w_i := n\<rparr>)" "eof_w (s\<lparr>wpc := Unmap1\<rparr>)"
  using outside_holds [of "rpc s"] outside_holds [of "wpc s"] by (auto simp: eof_r_def eof_w_def)

lemma step_eof:
  assumes "pipe_inv s" "settled s" "eof_r s" "eof_w s" "pipe_step a s = Some s'"
  shows "eof_r s' \<and> eof_w s'"
proof (cases "shares a")
  case True
  from share_frame [OF this assms(5)] assms(3,4) show ?thesis by (auto simp: eof_r_def eof_w_def)
next
  case False
  have r: "pipe_inv (resume p s)" "settled (resume p s)" for p
    using resume_pipe_inv [OF assms(1)] assms(2) by (simp_all add: settled_def)
  show ?thesis
  proof (cases a)
    case RStep
    with assms r [of Reader] show ?thesis
      by (auto simp: pipe_step_def dest: read_eof close_eof split: option.splits)
  next
    case WStep
    with assms r [of Writer] show ?thesis
      by (auto simp: pipe_step_def dest: write_eof close_eof split: option.splits)
  next
    case (Read n)
    with assms(3-5) show ?thesis by (auto simp: pipe_step_def eof_start split: if_splits)
  next
    case (Write bs)
    with assms(3-5) show ?thesis by (auto simp: pipe_step_def eof_start split: if_splits)
  next
    case RClose
    with assms(3-5) show ?thesis by (auto simp: pipe_step_def eof_start split: if_splits)
  next
    case WClose
    with assms(3-5) show ?thesis by (auto simp: pipe_step_def eof_start split: if_splits)
  qed (use False in \<open>simp_all add: shares_def\<close>)
qed

lemma pipe_settled_eof: "pipe_settled s \<Longrightarrow> eof_r s \<and> eof_w s"
proof (induction rule: pipe_settled.induct)
  case (init r w)
  then show ?case by (simp add: eof_r_def eof_w_def pipe_init_def)
next
  case (step s a s')
  then show ?case
    using step_eof pipe_reachable_inv [OF settled_reachable] pipe_settled_now by blast
qed

text \<open>
  An interleaving in which a third environment, which holds a read end, forks: its child has the
  descriptor page but not yet the data page when the reader counts the references.
\<close>

definition half_fork_run :: "action list" where
  "half_fork_run = [Read 1, RStep, RStep, RStep, ForkFd Reader, RStep, RStep, RStep, RStep]"

lemma half_fork_result: "\<exists>s. pipe_reachable s \<and> rpc s = Returned 0 \<and> 0 < r_n s \<and> wpc s = Idle \<and> ref_w s = 1"
proof -
  have "map_option (\<lambda>s. (rpc s, r_n s, wpc s, ref_w s)) (pipe_run half_fork_run (pipe_init 1 0)) = Some (Returned 0, 1, Idle, 1)"
    by code_simp
  then obtain s where "pipe_run half_fork_run (pipe_init 1 0) = Some s" "rpc s = Returned 0" "r_n s = 1" "wpc s = Idle" "ref_w s = 1"
    by auto
  then show ?thesis using pipe_run_reachable [OF pipe_reachable.init] by (intro exI [of _ s]) auto
qed

text \<open>
  C15: End of file and the other end.  In a run in which no read end is half forked while the reader is in
  \<open>_pipeisclosed\<close>, and no write end while the writer is, \<open>devpipe_read\<close> returns 0 for a request of at least
  one byte only when the writer has unmapped its descriptor and no other environment holds a write end;
  and in the same way \<open>devpipe_write\<close> for a non-empty buffer.  Environments that close or \<open>dup\<close> an end may run anywhere
  in between: the re-reading of \<open>env_runs\<close> makes the two reference counts consistent.  The condition is
  needed: \<open>fork\<close> and \<open>spawn\<close> share the descriptor page before the data page, and there is a run in which the reader
  reports end of file in between although the writer has its end open.
\<close>

theorem pipe_eof_sound:
  shows "(pipe_settled s \<longrightarrow>
      (rpc s = Returned 0 \<and> 0 < r_n s \<longrightarrow> oth_w s = 0 \<and> (wpc s = Unmap2 \<or> wpc s = Gone))
      \<and> (wpc s = Returned 0 \<and> w_buf s \<noteq> [] \<longrightarrow> oth_r s = 0 \<and> (rpc s = Unmap2 \<or> rpc s = Gone)))
    \<and> (\<exists>t. pipe_reachable t \<and> rpc t = Returned 0 \<and> 0 < r_n t \<and> wpc t = Idle \<and> ref_w t = 1)"
  using pipe_settled_eof [of s] half_fork_result by (auto simp: eof_r_def eof_w_def holds_fd_def split: if_splits)

text \<open>
  An interleaving in which the reader finds the pipe empty, and the writer then writes a byte and
  closes its end before the reader calls \<open>_pipeisclosed\<close>.
\<close>

definition eof_run :: "action list" where
  "eof_run = [Read 1, RStep, RStep, RStep, Write [65], WStep, WStep, WStep, WStep, WStep, WStep, WClose, WStep, WStep,
     RStep, RStep, RStep, RStep]"

lemma eof_run_result:
  "\<exists>s. pipe_reachable s \<and> rpc s = Returned 0 \<and> r_n s = 1 \<and> sent s = [65] \<and> recd s = []"
proof -
  have "map_option (\<lambda>s. (rpc s, r_n s, sent s, recd s)) (pipe_run eof_run (pipe_init 0 0)) = Some (Returned 0, 1, [65], [])"
    by code_simp
  then obtain s where "pipe_run eof_run (pipe_init 0 0) = Some s" "rpc s = Returned 0" "r_n s = 1" "sent s = [65]" "recd s = []"
    by auto
  then show ?thesis using pipe_run_reachable [OF pipe_reachable.init] by blast
qed

theorem pipe_eof_sound_witness:
  "\<exists>s. pipe_settled s \<and> rpc s = Returned 0 \<and> r_n s = 1 \<and> oth_w s = 0 \<and> (wpc s = Unmap2 \<or> wpc s = Gone)"
proof -
  have "map_option (\<lambda>s. (rpc s, r_n s)) (settled_run (ForkFd Reader # ForkData Reader # eof_run) (pipe_init 1 0)) = Some (Returned 0, 1)"
    by code_simp
  then obtain s where "settled_run (ForkFd Reader # ForkData Reader # eof_run) (pipe_init 1 0) = Some s" "rpc s = Returned 0" "r_n s = 1" by auto
  moreover from this have "pipe_settled s" using settled_run_settled [OF pipe_settled.init] by blast
  ultimately show ?thesis using pipe_eof_sound [of s] by (intro exI [of _ s]) simp
qed

text \<open>
  C35: End of file may come too early.  The reader tests the positions before it asks whether the pipe is
  closed; when the writer writes and closes its end in between, \<open>devpipe_read\<close> returns 0, which means end
  of file, although a byte that was sent lies unread in the pipe.
\<close>

theorem pipe_eof_race:
  "\<exists>s. pipe_reachable s \<and> rpc s = Returned 0 \<and> 0 < r_n s \<and> recd s = [] \<and> sent s = [65] \<and> p_rpos (pp s) \<noteq> p_wpos (pp s)"
proof -
  obtain s where s: "pipe_reachable s" "rpc s = Returned 0" "r_n s = 1" "sent s = [65]" "recd s = []"
    using eof_run_result by blast
  have "inv_data s" using pipe_reachable_inv [OF s(1)] by (simp add: pipe_inv_def)
  then have "W s = 1" "R s = 0" using s by (auto simp: inv_data_def window_def)
  then have "p_rpos (pp s) \<noteq> p_wpos (pp s)" by (auto simp: R_def W_def)
  with s show ?thesis by auto
qed

end
