(* ===== verification/User.thy ===== *)
theory User
  imports Trap
begin

text \<open>
  User programs over the kernel.  A user-level routine is a function on the kernel state in which its
  environment is running; it is done with a value, panics (\<open>_panic\<close> stops at a breakpoint), touches memory
  it may not touch, or makes a system call that does not come back to it (\<open>Away\<close>).  System calls go
  through the stubs of \<open>syscall.c\<close> to the dispatcher \<open>syscall\<close> of \<open>trap.c\<close>.  Local variables are not part
  of the modelled memory.
\<close>

section \<open>Outcomes\<close>

datatype 'a uout = Done 'a kern | UPanic kern | UFault kern | Away "i32 kout"

fun ubind :: "'a uout \<Rightarrow> ('a \<Rightarrow> kern \<Rightarrow> 'b uout) \<Rightarrow> 'b uout" where
  "ubind (Done x k) f = f x k"
| "ubind (UPanic k) f = UPanic k"
| "ubind (UFault k) f = UFault k"
| "ubind (Away m) f = Away m"

text \<open>\<open>if ((r = ...) < 0) panic(...)\<close>.\<close>

definition or_panic :: "i32 uout \<Rightarrow> (kern \<Rightarrow> 'a uout) \<Rightarrow> 'a uout" where
  "or_panic m f = ubind m (\<lambda>r k. if sint r < 0 then UPanic k else f k)"

section \<open>User memory\<close>

text \<open>
  The processor's translation in user mode: both entries must be present and accessible to the user, and for
  a store writable.
\<close>

definition utranslate :: "nat \<Rightarrow> bool \<Rightarrow> u32 \<Rightarrow> bytemem \<Rightarrow> nat option" where
  "utranslate pgdir wr va m =
     (let pde = get32 m (pde_addr pgdir va); pte = get32 m (pte_addr pde va) in
      if pde AND PTE_P = 0 \<or> pde AND PTE_U = 0 \<or> pte AND PTE_P = 0 \<or> pte AND PTE_U = 0 then None
      else if wr \<and> (pde AND PTE_W = 0 \<or> pte AND PTE_W = 0) then None
      else Some (unat (PTE_ADDR pte) + unat (PGOFF va)))"

fun uload :: "u32 \<Rightarrow> nat \<Rightarrow> kern \<Rightarrow> u8 list option" where
  "uload va 0 k = Some []"
| "uload va (Suc n) k = do {
     a \<leftarrow> utranslate (cr3 k) False va (pmem (kvm k));
     bs \<leftarrow> uload (va + 1) n k;
     Some (pmem (kvm k) a # bs)
   }"

fun ustore :: "u32 \<Rightarrow> u8 list \<Rightarrow> kern \<Rightarrow> kern option" where
  "ustore va [] k = Some k"
| "ustore va (b # bs) k = do {
     a \<leftarrow> utranslate (cr3 k) True va (pmem (kvm k));
     ustore (va + 1) bs (k\<lparr>kvm := (kvm k)\<lparr>pmem := (pmem (kvm k))(a := b)\<rparr>\<rparr>)
   }"

text \<open>An aligned word does not cross a page.\<close>

definition uload32 :: "u32 \<Rightarrow> kern \<Rightarrow> u32 option" where
  "uload32 va k = do {
     a \<leftarrow> utranslate (cr3 k) False va (pmem (kvm k));
     Some (get32 (pmem (kvm k)) a)
   }"

text \<open>The arrays \<open>uvpt\<close> and \<open>uvpd\<close>, whose addresses are set in \<open>uentry.S\<close>.\<close>

definition uvpt :: "u32 \<Rightarrow> kern \<Rightarrow> u32 option" where
  "uvpt n k = uload32 (UVPT + 4 * n) k"

definition uvpd :: "u32 \<Rightarrow> kern \<Rightarrow> u32 option" where
  "uvpd n k = uload32 (UVPT + drop_bit 12 UVPT * 4 + 4 * n) k"

definition with_word :: "(kern \<Rightarrow> u32 option) \<Rightarrow> kern \<Rightarrow> (u32 \<Rightarrow> 'a uout) \<Rightarrow> 'a uout" where
  "with_word rd k f = (case rd k of None \<Rightarrow> UFault k | Some w \<Rightarrow> f w)"

section \<open>System-call stubs (syscall.c)\<close>

definition syscall_u :: "u32 \<Rightarrow> bool \<Rightarrow> u32 \<Rightarrow> u32 \<Rightarrow> u32 \<Rightarrow> u32 \<Rightarrow> u32 \<Rightarrow> kern \<Rightarrow> i32 uout" where
  "syscall_u num check a1 a2 a3 a4 a5 k =
     (case syscall num a1 a2 a3 a4 a5 k of
        Ret ret k' \<Rightarrow> if check \<and> 0 < sint ret then UPanic k' else Done ret k'
      | m \<Rightarrow> Away m)"

definition sys_cputs_u :: "u32 \<Rightarrow> u32 \<Rightarrow> kern \<Rightarrow> i32 uout" where
  "sys_cputs_u s len = syscall_u SYS_cputs False s len 0 0 0"

definition sys_cgetc_u :: "kern \<Rightarrow> i32 uout" where
  "sys_cgetc_u = syscall_u SYS_cgetc False 0 0 0 0 0"

definition sys_env_destroy_u :: "i32 \<Rightarrow> kern \<Rightarrow> i32 uout" where
  "sys_env_destroy_u envid = syscall_u SYS_env_destroy True envid 0 0 0 0"

definition sys_getenvid_u :: "kern \<Rightarrow> i32 uout" where
  "sys_getenvid_u = syscall_u SYS_getenvid False 0 0 0 0 0"

definition sys_yield_u :: "kern \<Rightarrow> i32 uout" where
  "sys_yield_u = syscall_u SYS_yield False 0 0 0 0 0"

definition sys_page_alloc_u :: "i32 \<Rightarrow> u32 \<Rightarrow> u32 \<Rightarrow> kern \<Rightarrow> i32 uout" where
  "sys_page_alloc_u envid va perm = syscall_u SYS_page_alloc True envid va perm 0 0"

definition sys_page_map_u :: "i32 \<Rightarrow> u32 \<Rightarrow> i32 \<Rightarrow> u32 \<Rightarrow> u32 \<Rightarrow> kern \<Rightarrow> i32 uout" where
  "sys_page_map_u srcenv srcva dstenv dstva perm = syscall_u SYS_page_map True srcenv srcva dstenv dstva perm"

definition sys_page_unmap_u :: "i32 \<Rightarrow> u32 \<Rightarrow> kern \<Rightarrow> i32 uout" where
  "sys_page_unmap_u envid va = syscall_u SYS_page_unmap True envid va 0 0 0"

text \<open>\<open>sys_exofork\<close> is inline assembly in \<open>syslib.h\<close>, without the check.\<close>

definition sys_exofork_u :: "kern \<Rightarrow> i32 uout" where
  "sys_exofork_u = syscall_u SYS_exofork False 0 0 0 0 0"

definition sys_env_set_status_u :: "i32 \<Rightarrow> i32 \<Rightarrow> kern \<Rightarrow> i32 uout" where
  "sys_env_set_status_u envid status = syscall_u SYS_env_set_status True envid status 0 0 0"

definition sys_env_set_trapframe_u :: "i32 \<Rightarrow> u32 \<Rightarrow> kern \<Rightarrow> i32 uout" where
  "sys_env_set_trapframe_u envid tf = syscall_u SYS_env_set_trapframe True envid tf 0 0 0"

definition sys_env_set_pgfault_upcall_u :: "i32 \<Rightarrow> u32 \<Rightarrow> kern \<Rightarrow> i32 uout" where
  "sys_env_set_pgfault_upcall_u envid upcall = syscall_u SYS_env_set_pgfault_upcall True envid upcall 0 0 0"

definition sys_ipc_try_send_u :: "i32 \<Rightarrow> u32 \<Rightarrow> u32 \<Rightarrow> u32 \<Rightarrow> kern \<Rightarrow> i32 uout" where
  "sys_ipc_try_send_u envid value srcva perm = syscall_u SYS_ipc_try_send False envid value srcva perm 0"

definition sys_ipc_recv_u :: "u32 \<Rightarrow> kern \<Rightarrow> i32 uout" where
  "sys_ipc_recv_u dstva = syscall_u SYS_ipc_recv True dstva 0 0 0 0"

lemmas stub_defs = sys_cputs_u_def sys_cgetc_u_def sys_env_destroy_u_def sys_getenvid_u_def sys_yield_u_def
  sys_page_alloc_u_def sys_page_map_u_def sys_page_unmap_u_def sys_exofork_u_def sys_env_set_status_u_def
  sys_env_set_trapframe_u_def sys_env_set_pgfault_upcall_u_def sys_ipc_try_send_u_def sys_ipc_recv_u_def

section \<open>References to a page (pageref.c)\<close>

text \<open>The array \<open>pages\<close> is mapped read-only at \<open>UPAGES\<close>.\<close>

definition pageref :: "u32 \<Rightarrow> kern \<Rightarrow> int uout" where
  "pageref v k =
     with_word (uvpd (PDX v)) k (\<lambda>pde.
       if pde AND PTE_P = 0 then Done 0 k
       else with_word (uvpt (PGNUM v)) k (\<lambda>pte.
         if pte AND PTE_P = 0 then Done 0 k
         else Done (uint (pp_ref (kvm k) (unat (PGNUM pte)))) k))"

section \<open>Page-fault handlers (pgfault.c)\<close>

text \<open>Global variables of the program: \<open>thisenv\<close> as an index into \<open>envs\<close>, and \<open>_pgfault_handler\<close>.\<close>

record uglob =
  thisenv :: nat
  pgfault_handler :: u32

text \<open>The argument \<open>upcall\<close> is the address of the assembly routine \<open>_pgfault_upcall\<close>.\<close>

definition set_pgfault_handler :: "u32 \<Rightarrow> u32 \<Rightarrow> uglob \<Rightarrow> kern \<Rightarrow> uglob uout" where
  "set_pgfault_handler upcall handler g k =
     ubind (if pgfault_handler g = 0 then
              or_panic (sys_page_alloc_u 0 (UXSTACKTOP - PGSIZE) (PTE_P OR PTE_U OR PTE_W) k) (\<lambda>k.
              or_panic (sys_env_set_pgfault_upcall_u 0 upcall k) (\<lambda>k. Done () k))
            else Done () k)
       (\<lambda>_ k. Done (g\<lparr>pgfault_handler := handler\<rparr>) k)"

section \<open>Copy-on-write fork (fork.c)\<close>

definition PTE_COW :: u32 where "PTE_COW = 0x800"
definition PTE_SHARE :: u32 where "PTE_SHARE = 0x400"
definition FEC_WR :: u32 where "FEC_WR = 0x2"

definition user_copy :: "u32 \<Rightarrow> u32 \<Rightarrow> nat \<Rightarrow> kern \<Rightarrow> unit uout" where
  "user_copy dst src n k =
     (case uload src n k of
        None \<Rightarrow> UFault k
      | Some bs \<Rightarrow> (case ustore dst bs k of None \<Rightarrow> UFault k | Some k \<Rightarrow> Done () k))"

text \<open>The arguments are \<open>utf_fault_va\<close> and \<open>utf_err\<close>.\<close>

definition pgfault :: "u32 \<Rightarrow> u32 \<Rightarrow> kern \<Rightarrow> unit uout" where
  "pgfault fault_va utf_err k =
     (let addr = ROUNDDOWN fault_va PGSIZE in
      ubind (if utf_err AND FEC_WR = 0
             then with_word (uvpt (PGNUM fault_va)) k (\<lambda>pte. if pte AND PTE_COW = 0 then UPanic k else Done () k)
             else Done () k) (\<lambda>_ k.
      or_panic (sys_page_alloc_u 0 PFTEMP (PTE_W OR PTE_U OR PTE_P) k) (\<lambda>k.
      ubind (user_copy PFTEMP addr (unat PGSIZE) k) (\<lambda>_ k.
      or_panic (sys_page_map_u 0 PFTEMP 0 addr (PTE_W OR PTE_U OR PTE_P) k) (\<lambda>k.
      or_panic (sys_page_unmap_u 0 PFTEMP k) (\<lambda>k. Done () k))))))"

definition duppage :: "i32 \<Rightarrow> u32 \<Rightarrow> kern \<Rightarrow> i32 uout" where
  "duppage envid pn k =
     (let addr = pn * PGSIZE in
      with_word (uvpt pn) k (\<lambda>pte.
      ubind
        (if pte AND PTE_SHARE \<noteq> 0 then
           or_panic (sys_page_map_u 0 addr envid addr (PTE_SHARE OR PTE_SYSCALL) k) (\<lambda>k. Done () k)
         else if pte AND PTE_W \<noteq> 0 \<or> pte AND PTE_COW \<noteq> 0 then
           or_panic (sys_page_map_u 0 addr envid addr (PTE_COW OR PTE_U OR PTE_P) k) (\<lambda>k.
           or_panic (sys_page_map_u 0 addr 0 addr (PTE_COW OR PTE_U OR PTE_P) k) (\<lambda>k. Done () k))
         else
           or_panic (sys_page_map_u 0 addr envid addr (PTE_U OR PTE_P) k) (\<lambda>k. Done () k))
        (\<lambda>_ k. Done 0 k)))"

lemma page_step: "i < USTACKTOP \<Longrightarrow> unat (i + PGSIZE) = unat i + 4096"
  by (simp add: mmu_consts word_less_nat_alt unat_word_ariths)

function fork_loop :: "i32 \<Rightarrow> u32 \<Rightarrow> kern \<Rightarrow> unit uout" where
  "fork_loop child i k =
     (if i < USTACKTOP then
        ubind (with_word (uvpd (PDX i)) k (\<lambda>pde.
                 if pde AND PTE_P = 0 then Done 0 k
                 else with_word (uvpt (PGNUM i)) k (\<lambda>pte.
                   if pte AND PTE_P \<noteq> 0 \<and> pte AND PTE_U \<noteq> 0 then duppage child (PGNUM i) k else Done 0 k)))
          (\<lambda>_ k. fork_loop child (i + PGSIZE) k)
      else Done () k)"
  by auto
termination
proof (relation "measure (\<lambda>(child, i, k). 2 ^ 32 - unat i)")
  fix child :: i32 and i :: u32 and k x y
  assume i: "i < USTACKTOP"
  then have "unat i < unat USTACKTOP" by (simp add: word_less_nat_alt)
  then have "unat i < 4005552128" by (simp add: mmu_consts)
  then show "((child, i + PGSIZE, y), child, i, k) \<in> measure (\<lambda>(child, i, k). 2 ^ 32 - unat i)"
    using page_step [OF i] by simp
qed simp

text \<open>\<open>handler\<close> is the address of \<open>pgfault\<close>; the result is the value returned and the globals.\<close>

definition fork :: "u32 \<Rightarrow> u32 \<Rightarrow> uglob \<Rightarrow> kern \<Rightarrow> (i32 \<times> uglob) uout" where
  "fork upcall handler g k =
     ubind (set_pgfault_handler upcall handler g k) (\<lambda>g k.
     ubind (sys_exofork_u k) (\<lambda>child k.
       if child = 0 then ubind (sys_getenvid_u k) (\<lambda>me k. Done (0, g\<lparr>thisenv := ENVX me\<rparr>) k)
       else
         ubind (fork_loop child 0 k) (\<lambda>_ k.
         or_panic (sys_page_alloc_u child (UXSTACKTOP - PGSIZE) (PTE_W OR PTE_U OR PTE_P) k) (\<lambda>k.
         or_panic (sys_env_set_pgfault_upcall_u child upcall k) (\<lambda>k.
         or_panic (sys_env_set_status_u child 2 k) (\<lambda>k. Done (child, g) k))))))"

end
