(* ===== verification/AddrSpace.thy ===== *)
theory AddrSpace
  imports PmapProps
begin

text \<open>
  Address spaces.  A page directory, known by the number of the page it fills, maps the numbers of user
  pages to table entries; \<open>amap\<close> is that map, read off physical memory, and 0 is no mapping.  The
  invariant \<open>as_inv\<close> says of a set of directories: every page table belongs to one place of one directory;
  tables, directories, free pages and mapped pages are all different; and the reference count of a mapped
  page is the number of its mappings.

  Lemmas: \<open>page_insert\<close>, \<open>page_remove\<close> and \<open>page_alloc\<close> keep the invariant and change \<open>amap\<close> at one page of
  one directory only.
\<close>

section \<open>Entries\<close>

definition ent :: "bytemem \<Rightarrow> nat \<Rightarrow> nat \<Rightarrow> u32" where
  "ent m p i = get32 m (p * 4096 + 4 * i)"

lemma ent_set:
  assumes "i < 1024" "j < 1024"
  shows "ent (set32 (p * 4096 + 4 * i) v m) q j = (if q = p \<and> j = i then v else ent m q j)"
proof (cases "q = p")
  case True
  then show ?thesis using assms by (cases i j rule: linorder_cases) (auto simp: ent_def get32_set32_same get32_set32_other)
next
  case False
  then show ?thesis
    using entries_apart [of "p * 4096" "q * 4096" i j] assms by (auto simp: ent_def get32_set32_other)
qed

lemma ent_zero:
  assumes "p < 1048576" "j < 1024"
  shows "ent (zero_page p m) q j = (if q = p then 0 else ent m q j)"
proof (cases "q = p")
  case True
  have "ent (zero_page p m) p j = get32 (\<lambda>_. 0) (p * 4096 + 4 * j)"
    unfolding ent_def using assms by (intro get32_cong) (simp add: zero_page_def set_bytes_apply page2pa_nat)
  then show ?thesis using True by (simp add: get32_def get16_def)
next
  case False
  have "q * 4096 + 4096 \<le> p * 4096 \<or> p * 4096 + 4096 \<le> q * 4096"
    using pages_apart [of "q * 4096" "p * 4096"] False by simp
  then have "ent (zero_page p m) q j = ent m q j"
    unfolding ent_def using assms by (intro get32_cong) (auto simp: zero_page_def set_bytes_apply page2pa_nat)
  then show ?thesis using False by simp
qed

text \<open>Bytes of other pages.\<close>

lemma other_page:
  assumes "q \<noteq> p" "j < 4096"
  shows "i < 1024 \<Longrightarrow> set32 (p * 4096 + 4 * i) v m (q * 4096 + j) = m (q * 4096 + j)"
    "p < 1048576 \<Longrightarrow> zero_page p m (q * 4096 + j) = m (q * 4096 + j)"
proof -
  have "q * 4096 + 4096 \<le> p * 4096 \<or> p * 4096 + 4096 \<le> q * 4096"
    using pages_apart [of "q * 4096" "p * 4096"] assms(1) by simp
  then show "i < 1024 \<Longrightarrow> set32 (p * 4096 + 4 * i) v m (q * 4096 + j) = m (q * 4096 + j)"
    "p < 1048576 \<Longrightarrow> zero_page p m (q * 4096 + j) = m (q * 4096 + j)"
    using assms(2) by (auto intro!: set32_other simp: zero_page_def set_bytes_apply page2pa_nat)
qed

lemma unat_PTE_ADDR: "unat (PTE_ADDR e) = pa2page e * 4096"
proof -
  have "PTE_ADDR e = e - e mod 4096" using ROUNDDOWN_page [of e] by (simp add: ROUNDDOWN_def PGSIZE_def)
  moreover have "e mod 4096 \<le> e" by (simp add: word_le_nat_alt unat_mod)
  ultimately have "unat (PTE_ADDR e) = unat e - unat e mod 4096" by (simp add: unat_sub unat_mod)
  then show ?thesis by (simp add: pa2page_def unat_PGNUM minus_mod_eq_div_mult)
qed

text \<open>The number of a user page, and the indices of its address.\<close>

definition UPD :: nat where "UPD = 955"
definition UPG :: nat where "UPG = UPD * 1024"
definition vpn :: "u32 \<Rightarrow> nat" where "vpn va = unat va div 4096"

lemma vpn_user: "va < UTOP \<Longrightarrow> vpn va < UPG"
  by (auto simp: vpn_def UPG_def UPD_def word_less_nat_alt mmu_consts)

lemma vpn_indices: "unat (PDX va) = vpn va div 1024" "unat (PTX va) = vpn va mod 1024"
proof -
  have "unat va < 2 ^ 32" using unsigned_less [of va] by simp
  then have "unat va div 4194304 < 1024" by (intro less_mult_imp_div_less) simp
  then show "unat (PDX va) = vpn va div 1024" by (simp add: unat_PDX vpn_def div_mult2_eq [symmetric])
  show "unat (PTX va) = vpn va mod 1024" by (simp add: unat_PTX vpn_def)
qed

lemma UPG_div: "n < UPG \<Longrightarrow> n div 1024 < UPD"
  by (auto simp: UPG_def)

lemma addr_ent:
  "pde_addr (d * 4096) va = d * 4096 + 4 * (vpn va div 1024)"
  "pte_addr e va = pa2page e * 4096 + 4 * (vpn va mod 1024)"
  by (simp_all add: pde_addr_def pte_addr_def vpn_indices unat_PTE_ADDR)

section \<open>The map of an address space and the invariant\<close>

definition pde :: "vm \<Rightarrow> nat \<Rightarrow> nat \<Rightarrow> u32" where
  "pde s d i = ent (pmem s) d i"

definition amap :: "vm \<Rightarrow> nat \<Rightarrow> nat \<Rightarrow> u32" where
  "amap s d n = (if pde s d (n div 1024) = 0 then 0 else ent (pmem s) (pa2page (pde s d (n div 1024))) (n mod 1024))"

definition tables :: "vm \<Rightarrow> nat set \<Rightarrow> nat set" where
  "tables s D = {pa2page (pde s d i) | d i. d \<in> D \<and> i < UPD \<and> pde s d i \<noteq> 0}"

definition maps :: "vm \<Rightarrow> nat set \<Rightarrow> nat \<Rightarrow> (nat \<times> nat) set" where
  "maps s D p = {(d, n). d \<in> D \<and> n < UPG \<and> amap s d n \<noteq> 0 \<and> pa2page (amap s d n) = p}"

text \<open>A page that is neither page 0 nor part of the page tables.\<close>

definition spare :: "vm \<Rightarrow> nat set \<Rightarrow> nat \<Rightarrow> bool" where
  "spare s D p \<longleftrightarrow> p \<noteq> 0 \<and> p < npages s \<and> p \<notin> D \<and> p \<notin> tables s D"

definition as_inv :: "vm \<Rightarrow> nat set \<Rightarrow> nat list \<Rightarrow> bool" where
  "as_inv s D xs \<longleftrightarrow>
     npages s \<le> 1048576 \<and> finite D \<and> (\<forall>d\<in>D. d < npages s)
     \<and> (\<forall>d\<in>D. \<forall>i<UPD. pde s d i \<noteq> 0 \<longrightarrow> pa2page (pde s d i) < npages s \<and> pa2page (pde s d i) \<notin> D)
     \<and> (\<forall>d\<in>D. \<forall>i<UPD. \<forall>d'\<in>D. \<forall>i'<UPD. pde s d i \<noteq> 0 \<and> pde s d' i' \<noteq> 0 \<and> pa2page (pde s d i) = pa2page (pde s d' i')
          \<longrightarrow> d = d' \<and> i = i')
     \<and> free_pages s xs \<and> (\<forall>p\<in>set xs. spare s D p \<and> pp_ref s p = 0 \<and> maps s D p = {})
     \<and> (\<forall>p<npages s. p \<notin> set xs \<longrightarrow> pp_link s p = None)
     \<and> (\<forall>p. maps s D p \<noteq> {} \<longrightarrow> spare s D p \<and> unat (pp_ref s p) = card (maps s D p))"

lemma tablesI: "d \<in> D \<Longrightarrow> i < UPD \<Longrightarrow> pde s d i \<noteq> 0 \<Longrightarrow> pa2page (pde s d i) \<in> tables s D"
  unfolding tables_def by blast

lemma tables_cong: "(\<And>d i. d \<in> D \<Longrightarrow> i < UPD \<Longrightarrow> pde s' d i = pde s d i) \<Longrightarrow> tables s' D = tables s D"
  unfolding tables_def by (intro Collect_cong) (metis (no_types))

lemma as_invD:
  assumes "as_inv s D xs"
  shows "npages s \<le> 1048576" "finite D" "d \<in> D \<Longrightarrow> d < npages s"
    "d \<in> D \<Longrightarrow> i < UPD \<Longrightarrow> pde s d i \<noteq> 0 \<Longrightarrow> pa2page (pde s d i) < npages s \<and> pa2page (pde s d i) \<notin> D"
    "\<lbrakk>d \<in> D; i < UPD; d' \<in> D; i' < UPD; pde s d i \<noteq> 0; pde s d' i' \<noteq> 0; pa2page (pde s d i) = pa2page (pde s d' i')\<rbrakk>
      \<Longrightarrow> d = d' \<and> i = i'"
    "free_pages s xs" "p \<in> set xs \<Longrightarrow> spare s D p \<and> pp_ref s p = 0 \<and> maps s D p = {}"
    "p < npages s \<Longrightarrow> p \<notin> set xs \<Longrightarrow> pp_link s p = None"
    "maps s D p \<noteq> {} \<Longrightarrow> spare s D p \<and> unat (pp_ref s p) = card (maps s D p)"
  using assms unfolding as_inv_def by blast+

lemma finite_maps: "finite D \<Longrightarrow> finite (maps s D p)"
  by (rule finite_subset [of _ "D \<times> {..<UPG}"]) (auto simp: maps_def)

lemma mapped_spare:
  assumes "as_inv s D xs" "d \<in> D" "n < UPG" "amap s d n \<noteq> 0"
  shows "spare s D (pa2page (amap s d n))" "pa2page (amap s d n) \<notin> set xs"
    "unat (pp_ref s (pa2page (amap s d n))) = card (maps s D (pa2page (amap s d n)))" "(d, n) \<in> maps s D (pa2page (amap s d n))"
proof -
  show m: "(d, n) \<in> maps s D (pa2page (amap s d n))" using assms by (simp add: maps_def)
  then have "maps s D (pa2page (amap s d n)) \<noteq> {}" by blast
  with as_invD(7,9) [OF assms(1)] show "spare s D (pa2page (amap s d n))" "pa2page (amap s d n) \<notin> set xs"
    "unat (pp_ref s (pa2page (amap s d n))) = card (maps s D (pa2page (amap s d n)))" by blast+
qed

section \<open>Frame lemmas\<close>

lemma UPD_less: "i < UPD \<Longrightarrow> i < 1024"
  by (simp add: UPD_def)

text \<open>A change of memory outside directories and tables.\<close>

lemma same_tables:
  assumes "\<And>q j. q \<in> D \<union> tables s D \<Longrightarrow> j < 1024 \<Longrightarrow> ent (pmem s') q j = ent (pmem s) q j"
  shows "d \<in> D \<Longrightarrow> i < UPD \<Longrightarrow> pde s' d i = pde s d i" "d \<in> D \<Longrightarrow> n < UPG \<Longrightarrow> amap s' d n = amap s d n"
proof -
  show p: "pde s' d i = pde s d i" if "d \<in> D" "i < UPD" for d i
    using assms [of d i] that UPD_less by (simp add: pde_def)
  show "amap s' d n = amap s d n" if "d \<in> D" "n < UPG"
  proof (cases "pde s d (n div 1024) = 0")
    case False
    then have "pa2page (pde s d (n div 1024)) \<in> tables s D" using that UPG_div [of n] by (auto simp: tables_def)
    then show ?thesis using assms [of _ "n mod 1024"] p [OF that(1) UPG_div [OF that(2)]] by (simp add: amap_def)
  qed (use p [OF that(1) UPG_div [OF that(2)]] in \<open>simp add: amap_def\<close>)
qed

lemma same_shape:
  assumes "\<And>d i. d \<in> D \<Longrightarrow> i < UPD \<Longrightarrow> pde s' d i = pde s d i" "\<And>d n. d \<in> D \<Longrightarrow> n < UPG \<Longrightarrow> amap s' d n = amap s d n"
  shows "tables s' D = tables s D" "maps s' D p = maps s D p" "npages s' = npages s \<Longrightarrow> spare s' D p = spare s D p"
proof -
  show t: "tables s' D = tables s D" by (rule tables_cong) (rule assms(1))
  show "maps s' D p = maps s D p" using assms(2) by (auto simp: maps_def)
  show "npages s' = npages s \<Longrightarrow> spare s' D p = spare s D p" using t by (simp add: spare_def)
qed

text \<open>
  The same tables and maps, another free list and other reference counts.
\<close>

lemma as_inv_same:
  assumes "as_inv s D xs" "npages s' = npages s"
    and pd: "\<And>d i. d \<in> D \<Longrightarrow> i < UPD \<Longrightarrow> pde s' d i = pde s d i"
    and am: "\<And>d n. d \<in> D \<Longrightarrow> n < UPG \<Longrightarrow> amap s' d n = amap s d n"
    and "free_pages s' xs'" "\<And>p. p \<in> set xs' \<Longrightarrow> spare s D p \<and> pp_ref s' p = 0 \<and> maps s D p = {}"
    and "\<And>p. p < npages s \<Longrightarrow> p \<notin> set xs' \<Longrightarrow> pp_link s' p = None"
    and "\<And>p. maps s D p \<noteq> {} \<Longrightarrow> pp_ref s' p = pp_ref s p"
  shows "as_inv s' D xs'"
proof -
  note sh = same_shape [of D s' s, OF pd am]
  have sp: "spare s' D p = spare s D p" for p using sh(3) assms(2) by blast
  show ?thesis
    unfolding as_inv_def assms(2)
  proof (intro conjI)
    show "\<forall>d\<in>D. \<forall>i<UPD. pde s' d i \<noteq> 0 \<longrightarrow> pa2page (pde s' d i) < npages s \<and> pa2page (pde s' d i) \<notin> D"
      using as_invD(4) [OF assms(1)] pd by simp
    show "\<forall>d\<in>D. \<forall>i<UPD. \<forall>d'\<in>D. \<forall>i'<UPD. pde s' d i \<noteq> 0 \<and> pde s' d' i' \<noteq> 0 \<and> pa2page (pde s' d i) = pa2page (pde s' d' i')
          \<longrightarrow> d = d' \<and> i = i'"
      using as_invD(5) [OF assms(1)] pd by simp
    show "\<forall>p. maps s' D p \<noteq> {} \<longrightarrow> spare s' D p \<and> unat (pp_ref s' p) = card (maps s' D p)"
      using as_invD(9) [OF assms(1)] assms(8) by (simp add: sp sh(2))
    show "\<forall>p\<in>set xs'. spare s' D p \<and> pp_ref s' p = 0 \<and> maps s' D p = {}"
      using assms(6) by (simp add: sp sh(2))
  qed (use as_invD(1,2,3) [OF assms(1)] assms(5,7) in auto)
qed

text \<open>Writing an entry of the table at place \<open>i\<close> of directory \<open>d\<close>.\<close>

lemma set_entry:
  assumes inv: "as_inv s D xs" and d: "d \<in> D" "n < UPG" "pde s d (n div 1024) \<noteq> 0"
    and m: "pmem s' = set32 (pa2page (pde s d (n div 1024)) * 4096 + 4 * (n mod 1024)) v (pmem s)"
  shows "d' \<in> D \<Longrightarrow> i < UPD \<Longrightarrow> pde s' d' i = pde s d' i"
    "d' \<in> D \<Longrightarrow> n' < UPG \<Longrightarrow> amap s' d' n' = (if d' = d \<and> n' = n then v else amap s d' n')"
    "d' \<in> D \<Longrightarrow> i < 1024 \<Longrightarrow> pde s' d' i = pde s d' i"
proof -
  let ?t = "pa2page (pde s d (n div 1024))"
  note nd = UPG_div [OF d(2)]
  have t: "?t \<notin> D" using as_invD(4) [OF inv d(1) nd d(3)] by simp
  have e: "ent (pmem s') q j = (if q = ?t \<and> j = n mod 1024 then v else ent (pmem s) q j)" if "j < 1024" for q j
    unfolding m using that by (intro ent_set) auto
  show "pde s' d' i = pde s d' i" if "d' \<in> D" "i < 1024" for d' i
    using e [of i d'] that t by (auto simp: pde_def)
  then show p: "pde s' d' i = pde s d' i" if "d' \<in> D" "i < UPD" for d' i
    using that UPD_less by simp
  show "amap s' d' n' = (if d' = d \<and> n' = n then v else amap s d' n')" if "d' \<in> D" "n' < UPG"
  proof (cases "pde s d' (n' div 1024) = 0")
    case True
    then show ?thesis using p [OF that(1) UPG_div [OF that(2)]] d(3) by (auto simp: amap_def)
  next
    case False
    have "pa2page (pde s d' (n' div 1024)) = ?t \<longleftrightarrow> d' = d \<and> n' div 1024 = n div 1024"
      using as_invD(5) [OF inv that(1) UPG_div [OF that(2)] d(1) nd False d(3)] by auto
    moreover have "n' div 1024 = n div 1024 \<and> n' mod 1024 = n mod 1024 \<longleftrightarrow> n' = n" by (metis div_mult_mod_eq)
    ultimately show ?thesis using False p [OF that(1) UPG_div [OF that(2)]] e by (auto simp: amap_def)
  qed
qed

section \<open>A new page table\<close>

lemma pa2page_new: "p < 1048576 \<Longrightarrow> pa2page (new_pde p) = p"
  using unat_PTE_ADDR [of "new_pde p"] by (simp add: new_pde_addr(1) page2pa_nat)

lemma free_pages_pop:
  assumes "free_pages s (p # xs)" "page_free_list s' = pp_link s p" "pp_link s' = (pp_link s)(p := None)"
  shows "free_pages s' xs"
proof -
  have p: "p \<notin> set xs" "chain (pp_link s) (pp_link s p) xs" "distinct xs" using assms(1) by (auto simp: free_pages_def)
  have "chain (pp_link s') q xs = chain (pp_link s) q xs" for q by (rule chain_cong) (use p(1) assms(3) in auto)
  then show ?thesis using p assms(2) by (simp add: free_pages_def)
qed

lemma new_table:
  assumes inv: "as_inv s D (p # xs)" and d: "d \<in> D" "i < UPD" "pde s d i = 0"
    and m: "pmem s' = set32 (d * 4096 + 4 * i) (new_pde p) (set32 (d * 4096 + 4 * i) w (zero_page p (pmem s)))"
    and f: "npages s' = npages s" "page_free_list s' = pp_link s p" "pp_link s' = (pp_link s)(p := None)"
      "pp_ref s' = (pp_ref s)(p := v)"
  shows "\<And>d' i'. d' \<in> D \<Longrightarrow> i' < UPD \<Longrightarrow> pde s' d' i' = (if d' = d \<and> i' = i then new_pde p else pde s d' i')"
    "\<And>d' n. d' \<in> D \<Longrightarrow> n < UPG \<Longrightarrow> amap s' d' n = amap s d' n" "as_inv s' D xs"
    "\<And>q. spare s' D q \<longleftrightarrow> spare s D q \<and> q \<noteq> p"
    "\<And>d' i'. d' \<in> D \<Longrightarrow> i' < 1024 \<Longrightarrow> UPD \<le> i' \<Longrightarrow> pde s' d' i' = pde s d' i'"
proof -
  have p: "spare s D p" "maps s D p = {}" "p < 1048576" "p \<notin> D" "p \<notin> tables s D" "p \<notin> set xs"
    using as_invD(1,6) [OF inv] as_invD(7) [OF inv, of p] by (auto simp: spare_def free_pages_def)
  have e: "ent (pmem s') q j = (if q = d \<and> j = i then new_pde p else if q = p then 0 else ent (pmem s) q j)" if "j < 1024" for q j
    unfolding m using that UPD_less [OF d(2)] p(3) by (auto simp: ent_set ent_zero)
  show "pde s' d' i' = pde s d' i'" if "d' \<in> D" "i' < 1024" "UPD \<le> i'" for d' i'
    using e [OF that(2), of d'] that d(2) p(4) by (auto simp: pde_def)
  show pd: "pde s' d' i' = (if d' = d \<and> i' = i then new_pde p else pde s d' i')" if "d' \<in> D" "i' < UPD" for d' i'
    using e [OF UPD_less [OF that(2)], of d'] that p(4) by (auto simp: pde_def)
  have tab: "pa2page (pde s d' i') \<in> tables s D" if "d' \<in> D" "i' < UPD" "pde s d' i' \<noteq> 0" for d' i'
    using that by (auto simp: tables_def)
  have tD: "t \<notin> D" if "t \<in> tables s D" for t using that as_invD(4) [OF inv] by (auto simp: tables_def)
  show am: "amap s' d' n = amap s d' n" if "d' \<in> D" "n < UPG" for d' n
  proof (cases "pde s d' (n div 1024) = 0")
    case True
    then show ?thesis
      using pd [OF that(1) UPG_div [OF that(2)]] e [of "n mod 1024" p] d(1) p(3,4) new_pde_addr(2) [of p]
      by (auto simp: amap_def pa2page_new)
  next
    case False
    have "pa2page (pde s d' (n div 1024)) \<noteq> d" "pa2page (pde s d' (n div 1024)) \<noteq> p"
      using tD [OF tab [OF that(1) UPG_div [OF that(2)] False]] tab [OF that(1) UPG_div [OF that(2)] False] d(1) p(5) by auto
    then show ?thesis
      using False d(3) pd [OF that(1) UPG_div [OF that(2)]] e [of "n mod 1024"] by (auto simp: amap_def)
  qed
  have tabs: "tables s' D = insert p (tables s D)"
    unfolding tables_def using pd d pa2page_new [OF p(3)] new_pde_addr(2) [of p] by (auto split: if_splits) metis+
  then show sp: "spare s' D q \<longleftrightarrow> spare s D q \<and> q \<noteq> p" for q by (auto simp: spare_def f(1))
  have mp: "maps s' D q = maps s D q" for q using am by (auto simp: maps_def)
  show "as_inv s' D xs"
    unfolding as_inv_def
  proof (intro conjI)
    show "\<forall>d\<in>D. \<forall>i<UPD. pde s' d i \<noteq> 0 \<longrightarrow> pa2page (pde s' d i) < npages s' \<and> pa2page (pde s' d i) \<notin> D"
      using as_invD(4) [OF inv] pd p pa2page_new [OF p(3)] by (auto simp: f(1) spare_def)
    show "\<forall>d\<in>D. \<forall>i<UPD. \<forall>d'\<in>D. \<forall>i'<UPD. pde s' d i \<noteq> 0 \<and> pde s' d' i' \<noteq> 0 \<and> pa2page (pde s' d i) = pa2page (pde s' d' i')
          \<longrightarrow> d = d' \<and> i = i'"
      using as_invD(5) [OF inv] pd pa2page_new [OF p(3)] tab p(5) by (auto split: if_splits)
    show "free_pages s' xs" by (rule free_pages_pop [OF as_invD(6) [OF inv] f(2,3)])
    show "\<forall>q\<in>set xs. spare s' D q \<and> pp_ref s' q = 0 \<and> maps s' D q = {}"
      using as_invD(7) [OF inv] p(6) by (auto simp: sp mp f(4))
    show "\<forall>q<npages s'. q \<notin> set xs \<longrightarrow> pp_link s' q = None" using as_invD(8) [OF inv] by (auto simp: f)
    show "\<forall>q. maps s' D q \<noteq> {} \<longrightarrow> spare s' D q \<and> unat (pp_ref s' q) = card (maps s' D q)"
      using as_invD(9) [OF inv] p(2) by (auto simp: sp mp f(4))
  qed (use as_invD(1,2,3) [OF inv] f(1) in auto)
qed

section \<open>Changing one entry\<close>

lemma maps_upd:
  assumes "d \<in> D" "n < UPG" "\<And>d' n'. d' \<in> D \<Longrightarrow> n' < UPG \<Longrightarrow> amap s' d' n' = (if d' = d \<and> n' = n then v else amap s d' n')"
  shows "maps s' D p = maps s D p - {(d, n)} \<union> (if v \<noteq> 0 \<and> pa2page v = p then {(d, n)} else {})"
  using assms by (auto simp: maps_def split: if_splits)

lemma as_inv_entry:
  assumes inv: "as_inv s D xs" and d: "d \<in> D" "n < UPG" "pde s d (n div 1024) \<noteq> 0"
    and m: "pmem s' = set32 (pa2page (pde s d (n div 1024)) * 4096 + 4 * (n mod 1024)) v (pmem s)"
    and np: "npages s' = npages s" and v: "v \<noteq> 0 \<Longrightarrow> spare s D (pa2page v)"
    and fr: "free_pages s' xs'" "\<And>p. p \<in> set xs' \<Longrightarrow> spare s D p \<and> pp_ref s' p = 0 \<and> maps s' D p = {}"
      "\<And>p. p < npages s \<Longrightarrow> p \<notin> set xs' \<Longrightarrow> pp_link s' p = None"
    and ref: "\<And>p. maps s' D p \<noteq> {} \<Longrightarrow> unat (pp_ref s' p) = card (maps s' D p)"
  shows "as_inv s' D xs'"
proof -
  note se = set_entry [OF inv d m]
  have tb: "tables s' D = tables s D" by (rule tables_cong) (rule se(1))
  then have sp: "spare s' D p = spare s D p" for p by (simp add: spare_def np)
  show ?thesis
    unfolding as_inv_def
  proof (intro conjI)
    show "\<forall>d\<in>D. \<forall>i<UPD. pde s' d i \<noteq> 0 \<longrightarrow> pa2page (pde s' d i) < npages s' \<and> pa2page (pde s' d i) \<notin> D"
      using as_invD(4) [OF inv] se(1) by (simp add: np)
    show "\<forall>d\<in>D. \<forall>i<UPD. \<forall>d'\<in>D. \<forall>i'<UPD. pde s' d i \<noteq> 0 \<and> pde s' d' i' \<noteq> 0 \<and> pa2page (pde s' d i) = pa2page (pde s' d' i')
          \<longrightarrow> d = d' \<and> i = i'"
      using as_invD(5) [OF inv] se(1) by simp
    show "\<forall>p. maps s' D p \<noteq> {} \<longrightarrow> spare s' D p \<and> unat (pp_ref s' p) = card (maps s' D p)"
    proof (intro allI impI conjI)
      fix p assume p: "maps s' D p \<noteq> {}"
      show "unat (pp_ref s' p) = card (maps s' D p)" by (rule ref [OF p])
      show "spare s' D p"
      proof (cases "v \<noteq> 0 \<and> pa2page v = p")
        case False
        then have "maps s D p \<noteq> {}" using p maps_upd [of d D n s' v s p, OF d(1,2) se(2)] by auto
        then show ?thesis using as_invD(9) [OF inv] sp by blast
      qed (use v sp in auto)
    qed
  qed (use as_invD(1,2,3) [OF inv] fr np sp in auto)
qed

lemma page_decref_spec:
  assumes "free_pages s xs" "p < npages s" "pp_link s p = None" "p \<notin> set xs"
  shows "\<exists>s'. page_decref p s = Some s' \<and> pmem s' = pmem s \<and> npages s' = npages s
     \<and> pp_ref s' = (pp_ref s)(p := pp_ref s p - 1) \<and> cur_pgdir s' = cur_pgdir s
     \<and> free_pages s' (if pp_ref s p = 1 then p # xs else xs) \<and> (\<forall>q. q \<noteq> p \<longrightarrow> pp_link s' q = pp_link s q)
     \<and> (pp_ref s p \<noteq> 1 \<longrightarrow> pp_link s' p = None)"
proof -
  have z: "pp_ref s p - 1 = 0 \<longleftrightarrow> pp_ref s p = 1" by (metis diff_eq_eq add_0)
  have "chain ((pp_link s)(p := q)) r xs = chain (pp_link s) r xs" for q r
    by (rule chain_cong) (use assms(4) in auto)
  then show ?thesis using assms z by (auto simp: page_decref_def page_free_def Let_def free_pages_def)
qed

section \<open>The operations on address spaces\<close>

lemma walk_found:
  assumes "pde s d (vpn va div 1024) \<noteq> 0"
  shows "pgdir_walk (d * 4096) va c s = (Some (pa2page (pde s d (vpn va div 1024)) * 4096 + 4 * (vpn va mod 1024)), s)"
  using assms by (simp add: pgdir_walk_def addr_ent pde_def ent_def Let_def)

lemma lookup_found:
  assumes "pde s d (vpn va div 1024) \<noteq> 0"
  shows "page_lookup (d * 4096) va s =
    (Some (pa2page (amap s d (vpn va)), pa2page (pde s d (vpn va div 1024)) * 4096 + 4 * (vpn va mod 1024)), s)"
  using walk_found [OF assms, of False] assms by (simp add: page_lookup_def amap_def ent_def pa2page_addr)

lemma walk_create_inv:
  assumes inv: "as_inv s D xs" and d: "d \<in> D" "va < UTOP" "pde s d (vpn va div 1024) = 0"
  shows "case xs of
      [] \<Rightarrow> pgdir_walk (d * 4096) va True s = (None, s)
    | p # ys \<Rightarrow> \<exists>s'. pgdir_walk (d * 4096) va True s = (Some (p * 4096 + 4 * (vpn va mod 1024)), s')
        \<and> as_inv s' D ys \<and> pde s' d (vpn va div 1024) = new_pde p \<and> npages s' = npages s
        \<and> (\<forall>d'\<in>D. \<forall>n<UPG. amap s' d' n = amap s d' n) \<and> (\<forall>q. spare s' D q \<longleftrightarrow> spare s D q \<and> q \<noteq> p)
        \<and> (\<forall>q. q \<noteq> p \<longrightarrow> pp_ref s' q = pp_ref s q) \<and> cur_pgdir s' = cur_pgdir s
        \<and> (\<forall>d'\<in>D. \<forall>i<UPD. (pde s' d' i \<noteq> 0) = (pde s d' i \<noteq> 0 \<or> d' = d \<and> i = vpn va div 1024))
        \<and> (\<forall>d'\<in>D. \<forall>i<1024. UPD \<le> i \<longrightarrow> pde s' d' i = pde s d' i)
        \<and> (\<forall>d'\<in>D. \<forall>i<UPD. pde s' d' i = pde s d' i \<or> pde s d' i = 0 \<and> (\<exists>t. pde s' d' i = new_pde t))
        \<and> (\<forall>q j. spare s' D q \<and> j < 4096 \<longrightarrow> pmem s' (q * 4096 + j) = pmem s (q * 4096 + j))"
proof (cases xs)
  case Nil
  then have "page_free_list s = None" using as_invD(6) [OF inv] by (simp add: free_pages_def)
  then show ?thesis using Nil d(3) by (simp add: pgdir_walk_def addr_ent pde_def ent_def page_alloc_def Let_def)
next
  case (Cons p ys)
  let ?i = "vpn va div 1024"
  let ?a = "d * 4096 + 4 * ?i"
  note i = UPG_div [OF vpn_user [OF d(2)]]
  have h: "page_free_list s = Some p" using as_invD(6) [OF inv] Cons by (simp add: free_pages_def)
  have p: "p < 1048576" "p \<noteq> d"
    using as_invD(1) [OF inv] as_invD(7) [OF inv, of p] Cons d(1) by (auto simp: spare_def)
  let ?s = "s\<lparr>page_free_list := pp_link s p, pp_link := (pp_link s)(p := None),
      pmem := set32 ?a (new_pde p) (set32 ?a (page2pa p) (zero_page p (pmem s))), pp_ref := (pp_ref s)(p := pp_ref s p + 1)\<rparr>"
  have z: "get32 (zero_page p (pmem s)) ?a = 0"
    using ent_zero [OF p(1) UPD_less [OF i], of "pmem s" d] p(2) d(3) by (simp add: ent_def pde_def)
  have "pgdir_walk (d * 4096) va True s = (Some (p * 4096 + 4 * (vpn va mod 1024)), ?s)"
    using d(3) h z pa2page_new [OF p(1)]
    by (simp add: pgdir_walk_def page_alloc_def ALLOC_ZERO_def Let_def pde_def ent_def addr_ent get32_set32_same
        page2pa_low' new_pde_def)
  moreover note T = new_table [where s' = ?s, OF inv [unfolded Cons] d(1) i d(3)]
  have "pmem ?s (q * 4096 + j) = pmem s (q * 4096 + j)" if "spare ?s D q" "j < 4096" for q j
  proof -
    have "spare s D q \<and> q \<noteq> p" using that(1) by (subst (asm) T(4)) simp_all
    then have "q \<noteq> d" "q \<noteq> p" using d(1) by (auto simp: spare_def)
    then show ?thesis
      using that(2) UPD_less [OF i] p(1) by (simp add: other_page)
  qed
  ultimately show ?thesis using Cons d(1,3) i new_pde_addr(2) [of p] by (auto simp: T)
qed

lemma unat_dec: "unat (w :: u16) \<noteq> 0 \<Longrightarrow> unat (w - 1) = unat w - 1"
  by (subst unat_sub) (auto simp: word_le_nat_alt)

lemma unat_inc: "unat (w :: u16) + 1 < 65536 \<Longrightarrow> unat (w + 1) = unat w + 1"
  by (simp add: unat_word_ariths)

lemma page_remove_inv:
  assumes inv: "as_inv s D xs" and d: "d \<in> D" "va < UTOP" and z: "amap s d (vpn va) \<noteq> 0"
  defines "p \<equiv> pa2page (amap s d (vpn va))"
  shows "\<exists>s'. page_remove (d * 4096) va s = Some s' \<and> as_inv s' D (if pp_ref s p = 1 then p # xs else xs)
     \<and> (\<forall>d'\<in>D. \<forall>n<UPG. amap s' d' n = (if d' = d \<and> n = vpn va then 0 else amap s d' n))
     \<and> npages s' = npages s \<and> cur_pgdir s' = cur_pgdir s
     \<and> (\<forall>d'\<in>D. \<forall>i<1024. pde s' d' i = pde s d' i) \<and> (\<forall>q. spare s' D q = spare s D q)
     \<and> (\<forall>q j. spare s D q \<and> j < 4096 \<longrightarrow> pmem s' (q * 4096 + j) = pmem s (q * 4096 + j))"
proof -
  let ?n = "vpn va"
  note n = vpn_user [OF d(2)]
  have pd: "pde s d (?n div 1024) \<noteq> 0" using z by (auto simp: amap_def)
  note M = mapped_spare [OF inv d(1) n z, folded p_def]
  have p: "p < npages s" "pp_link s p = None" using M(1,2) as_invD(8) [OF inv] by (auto simp: spare_def)
  from page_decref_spec [OF as_invD(6) [OF inv] p M(2)] obtain s1 where
    s1: "page_decref p s = Some s1" "pmem s1 = pmem s" "npages s1 = npages s" "pp_ref s1 = (pp_ref s)(p := pp_ref s p - 1)"
      "cur_pgdir s1 = cur_pgdir s" "free_pages s1 (if pp_ref s p = 1 then p # xs else xs)"
      "\<forall>q. q \<noteq> p \<longrightarrow> pp_link s1 q = pp_link s q" "pp_ref s p \<noteq> 1 \<longrightarrow> pp_link s1 p = None" by blast
  let ?xs = "if pp_ref s p = 1 then p # xs else xs"
  let ?s2 = "tlb_invalidate (d * 4096) va (s1\<lparr>pmem := set32 (pa2page (pde s d (?n div 1024)) * 4096 + 4 * (?n mod 1024)) 0 (pmem s1)\<rparr>)"
  have m: "pmem ?s2 = set32 (pa2page (pde s d (?n div 1024)) * 4096 + 4 * (?n mod 1024)) 0 (pmem s)" using s1(2) by simp
  note se = set_entry [OF inv d(1) n pd m]
  have mp: "maps ?s2 D q = maps s D q - {(d, ?n)}" for q using maps_upd [of d D ?n ?s2 0 s q, OF d(1) n se(2)] by simp
  have c: "card (maps s D p) = Suc (card (maps s D p - {(d, ?n)}))"
    using card.remove [OF finite_maps [OF as_invD(2) [OF inv]] M(4)] .
  have one: "pp_ref s p = 1 \<longleftrightarrow> card (maps s D p) = 1" unfolding M(3) [symmetric] by (simp add: word_unat_eq_iff)
  have fr: "free_pages ?s2 ?xs" using s1(6) by (simp add: free_pages_def)
  have "as_inv ?s2 D ?xs"
  proof (rule as_inv_entry [OF inv d(1) n pd m])
    show "spare s D q \<and> pp_ref ?s2 q = 0 \<and> maps ?s2 D q = {}" if "q \<in> set ?xs" for q
    proof (cases "q = p")
      case True
      then have "pp_ref s p = 1" using that M(2) by (auto split: if_splits)
      then have "maps s D p - {(d, ?n)} = {}" using c one finite_maps [OF as_invD(2) [OF inv]] by simp
      then show ?thesis using True M(1) \<open>pp_ref s p = 1\<close> by (simp add: mp s1(4))
    next
      case False
      then have "q \<in> set xs" using that by (auto split: if_splits)
      then show ?thesis using as_invD(7) [OF inv, of q] False by (simp add: mp s1(4))
    qed
    show "pp_link ?s2 q = None" if "q < npages s" "q \<notin> set ?xs" for q
      using that as_invD(8) [OF inv, of q] s1(7,8) by (cases "q = p") (auto split: if_splits)
    show "unat (pp_ref ?s2 q) = card (maps ?s2 D q)" if "maps ?s2 D q \<noteq> {}" for q
    proof (cases "q = p")
      case True
      have "unat (pp_ref s p) \<noteq> 0" using c M(3) by simp
      then have "unat (pp_ref s p - 1) = unat (pp_ref s p) - 1" by (rule unat_dec)
      then show ?thesis using True c M(3) by (simp add: mp s1(4))
    next
      case False
      have "(d, ?n) \<notin> maps s D q" using False by (auto simp: maps_def p_def)
      moreover have "maps s D q \<noteq> {}" using that mp by blast
      ultimately show ?thesis using False as_invD(9) [OF inv] by (simp add: mp s1(4))
    qed
  qed (use s1(3) fr in auto)
  moreover have "page_remove (d * 4096) va s = Some ?s2"
    using s1(1) by (simp add: page_remove_def lookup_found [OF pd] p_def)
  moreover have "spare ?s2 D q = spare s D q" for q
    using tables_cong [of D ?s2 s, OF se(1)] s1(3) by (simp add: spare_def)
  moreover have "pmem ?s2 (q * 4096 + j) = pmem s (q * 4096 + j)" if "spare s D q" "j < 4096" for q j
  proof -
    have "q \<noteq> pa2page (pde s d (?n div 1024))" using that(1) tablesI [OF d(1) UPG_div [OF n] pd] by (auto simp: spare_def)
    then show ?thesis unfolding m using other_page(1) [OF _ that(2)] by simp
  qed
  ultimately show ?thesis using se(2,3) s1(3,5) by auto
qed

lemma new_entry:
  assumes "pp < 1048576" "pp \<noteq> 0" "perm AND NOT 0xFFF = 0"
  shows "pa2page (page2pa pp OR perm OR PTE_P) = pp" "page2pa pp OR perm OR PTE_P \<noteq> 0"
proof -
  show p: "pa2page (page2pa pp OR perm OR PTE_P) = pp"
    using unat_PTE_ADDR [of "page2pa pp OR perm OR PTE_P"] PTE_ADDR_low [OF assms(3)] assms(1) by (simp add: page2pa_nat)
  have "pa2page 0 = 0" by (simp add: pa2page_def PGNUM_def)
  with p show "page2pa pp OR perm OR PTE_P \<noteq> 0" using assms(2) by metis
qed

text \<open>
  The counts after an entry changed from page \<open>p\<close> to page \<open>pp\<close>.  The code raises the count of the new
  page before it drops the old one.
\<close>

lemma insert_counts:
  assumes inv: "as_inv s D xs" and d: "d \<in> D" "n < UPG"
    and am: "\<forall>d'\<in>D. \<forall>n'<UPG. amap s' d' n' = (if d' = d \<and> n' = n then e else amap s d' n')"
    and e: "e \<noteq> 0" "pa2page e = pp" and pp: "unat (pp_ref s pp) = card (maps s D pp)" "card (maps s D pp) + 1 < 65536"
  defines "p \<equiv> pa2page (amap s d n)"
  defines "r1 \<equiv> (pp_ref s)(pp := pp_ref s pp + 1)"
  assumes r: "pp_ref s' = (if amap s d n = 0 then r1 else r1(p := r1 p - 1))"
  shows "maps s' D q \<noteq> {} \<Longrightarrow> unat (pp_ref s' q) = card (maps s' D q)"
    "amap s d n \<noteq> 0 \<Longrightarrow> r1 p = 1 \<Longrightarrow> p \<noteq> pp \<and> maps s' D p = {}"
proof -
  have fin: "finite (maps s D q)" for q using finite_maps as_invD(2) [OF inv] by blast
  have mp: "maps s' D q = maps s D q - {(d, n)} \<union> (if pp = q then {(d, n)} else {})" for q
    using maps_upd [of d D n s' e s q, OF d] am e by simp
  have mem: "(d, n) \<in> maps s D q \<longleftrightarrow> amap s d n \<noteq> 0 \<and> p = q" for q using d by (auto simp: maps_def p_def)
  have old: "unat (pp_ref s p) = card (maps s D p)" "card (maps s D p) = Suc (card (maps s D p - {(d, n)}))" if "amap s d n \<noteq> 0"
    using mapped_spare(3,4) [OF inv d that] card.remove [OF fin, of "(d, n)" p] by (auto simp: p_def)
  have up: "unat (r1 pp) = card (maps s D pp) + 1" using unat_inc [of "pp_ref s pp"] pp by (simp add: r1_def)
  show "unat (pp_ref s' q) = card (maps s' D q)" if ne: "maps s' D q \<noteq> {}"
  proof (cases "q = pp")
    case True
    show ?thesis
    proof (cases "amap s d n \<noteq> 0 \<and> p = pp")
      case same: True
      have "unat (r1 pp - 1) = unat (r1 pp) - 1" using up by (intro unat_dec) simp
      moreover have "maps s' D pp = maps s D pp" using mp [of pp] mem [of pp] same by auto
      ultimately show ?thesis using True same up by (simp add: r)
    next
      case False
      then have "maps s' D pp = insert (d, n) (maps s D pp)" "(d, n) \<notin> maps s D pp" using mp [of pp] mem [of pp] by auto
      moreover have "pp_ref s' pp = r1 pp" using False by (auto simp: r)
      ultimately show ?thesis using True up fin by simp
    qed
  next
    case other: False
    show ?thesis
    proof (cases "amap s d n \<noteq> 0 \<and> p = q")
      case True
      have "unat (pp_ref s q - 1) = unat (pp_ref s q) - 1" using old True by (intro unat_dec) auto
      then show ?thesis using True other old mp [of q] by (simp add: r r1_def)
    next
      case False
      then have "maps s' D q = maps s D q" using mp [of q] mem [of q] other by auto
      then show ?thesis using ne False other as_invD(9) [OF inv, of q] by (auto simp: r r1_def)
    qed
  qed
  show "p \<noteq> pp \<and> maps s' D p = {}" if o: "amap s d n \<noteq> 0" "r1 p = 1"
  proof -
    have "p \<noteq> pp" using o(2) up old [OF o(1)] by auto
    then have "card (maps s D p) = 1" using o(2) old(1) [OF o(1)] by (simp add: r1_def)
    then have "maps s D p - {(d, n)} = {}" using old(2) [OF o(1)] fin by simp
    then show ?thesis using \<open>p \<noteq> pp\<close> mp [of p] by simp
  qed
qed

text \<open>The middle of \<open>page_insert\<close>: the old mapping, if there is one, is dropped.\<close>

lemma drop_old:
  assumes inv: "as_inv s D xs" and d: "d \<in> D" "va < UTOP" and pd: "pde s d (vpn va div 1024) \<noteq> 0"
    and pp: "unat (pp_ref s pp) = card (maps s D pp)" "card (maps s D pp) + 1 < 65536"
  defines "p \<equiv> pa2page (amap s d (vpn va))"
  defines "r1 \<equiv> (pp_ref s)(pp := pp_ref s pp + 1)"
  defines "xs' \<equiv> if amap s d (vpn va) \<noteq> 0 \<and> p \<noteq> pp \<and> pp_ref s p = 1 then p # xs else xs"
  defines "t \<equiv> pa2page (pde s d (vpn va div 1024)) * 4096 + 4 * (vpn va mod 1024)"
  shows "amap s d (vpn va) \<noteq> 0 \<Longrightarrow> r1 p = 1 \<longleftrightarrow> p \<noteq> pp \<and> pp_ref s p = 1"
    "\<exists>s2. (if PTE_ADDR (amap s d (vpn va)) \<noteq> 0
         then do { s \<leftarrow> page_remove (d * 4096) va (s\<lparr>pp_ref := r1\<rparr>); Some (tlb_invalidate (d * 4096) va s) }
         else Some (s\<lparr>pp_ref := r1\<rparr>)) = Some s2 \<and> (\<forall>e. set32 t e (pmem s2) = set32 t e (pmem s)) \<and> npages s2 = npages s
       \<and> cur_pgdir s2 = cur_pgdir s \<and> pp_ref s2 = (if amap s d (vpn va) = 0 then r1 else r1(p := r1 p - 1)) \<and> free_pages s2 xs'
       \<and> (\<forall>q<npages s. q \<notin> set xs' \<longrightarrow> pp_link s2 q = None)"
proof -
  let ?n = "vpn va"
  note n = vpn_user [OF d(2)]
  show one: "r1 p = 1 \<longleftrightarrow> p \<noteq> pp \<and> pp_ref s p = 1" if a: "amap s d ?n \<noteq> 0"
  proof -
    have "(d, ?n) \<in> maps s D p" using mapped_spare(4) [OF inv d(1) n a] by (simp add: p_def)
    then have "card (maps s D p) \<noteq> 0" using finite_maps [OF as_invD(2) [OF inv]] by auto
    then have "unat (pp_ref s pp + 1) \<noteq> 1" if "p = pp" using unat_inc [of "pp_ref s pp"] pp that by simp
    then show ?thesis by (auto simp: word_unat_eq_iff r1_def)
  qed
  show "\<exists>s2. (if PTE_ADDR (amap s d ?n) \<noteq> 0
         then do { s \<leftarrow> page_remove (d * 4096) va (s\<lparr>pp_ref := r1\<rparr>); Some (tlb_invalidate (d * 4096) va s) }
         else Some (s\<lparr>pp_ref := r1\<rparr>)) = Some s2 \<and> (\<forall>e. set32 t e (pmem s2) = set32 t e (pmem s)) \<and> npages s2 = npages s
       \<and> cur_pgdir s2 = cur_pgdir s \<and> pp_ref s2 = (if amap s d ?n = 0 then r1 else r1(p := r1 p - 1)) \<and> free_pages s2 xs'
       \<and> (\<forall>q<npages s. q \<notin> set xs' \<longrightarrow> pp_link s2 q = None)"
  proof (cases "amap s d ?n = 0")
    case True
    then show ?thesis using as_invD(6,8) [OF inv] by (simp add: free_pages_def xs'_def PTE_ADDR_def)
  next
    case False
    let ?s1 = "s\<lparr>pp_ref := r1\<rparr>"
    note M = mapped_spare [OF inv d(1) n False, folded p_def]
    have z: "PTE_ADDR (amap s d ?n) \<noteq> 0" using M(1) unat_PTE_ADDR [of "amap s d ?n"] by (auto simp: spare_def p_def)
    have p: "p < npages ?s1" "pp_link ?s1 p = None" "free_pages ?s1 xs"
      using M(1,2) as_invD(6,8) [OF inv] by (auto simp: spare_def free_pages_def)
    from page_decref_spec [OF p(3,1,2) M(2)] obtain s2 where
      s2: "page_decref p ?s1 = Some s2" "pmem s2 = pmem s" "npages s2 = npages s" "pp_ref s2 = r1(p := r1 p - 1)"
        "cur_pgdir s2 = cur_pgdir s" "free_pages s2 (if r1 p = 1 then p # xs else xs)"
        "\<forall>q. q \<noteq> p \<longrightarrow> pp_link s2 q = pp_link s q" "r1 p \<noteq> 1 \<longrightarrow> pp_link s2 p = None" by auto
    have pde1: "pde ?s1 d (?n div 1024) = pde s d (?n div 1024)" "amap ?s1 d ?n = amap s d ?n" by (simp_all add: pde_def amap_def)
    have "page_lookup (d * 4096) va ?s1 = (Some (p, t), ?s1)" using lookup_found [of ?s1 d va] pd pde1 by (simp add: p_def t_def)
    then have rm: "page_remove (d * 4096) va ?s1 = Some (tlb_invalidate (d * 4096) va (s2\<lparr>pmem := set32 t 0 (pmem s2)\<rparr>))"
      using s2(1) by (simp add: page_remove_def)
    have xs': "xs' = (if r1 p = 1 then p # xs else xs)" using one [OF False] False by (simp add: xs'_def)
    have "pp_link s2 q = None" if "q < npages s" "q \<notin> set xs'" for q
      using that as_invD(8) [OF inv, of q] s2(7,8) by (cases "q = p") (auto simp: xs' split: if_splits)
    then show ?thesis using rm s2(2-6) z False by (auto simp: set32_set32 free_pages_def xs')
  qed
qed

lemma insert_at:
  assumes inv: "as_inv s D xs" and d: "d \<in> D" "va < UTOP" and pd: "pde s d (vpn va div 1024) \<noteq> 0"
    and walk: "pgdir_walk (d * 4096) va True s0 = (Some (pa2page (pde s d (vpn va div 1024)) * 4096 + 4 * (vpn va mod 1024)), s)"
    and pp: "spare s D pp" "pp \<notin> set xs" "unat (pp_ref s pp) = card (maps s D pp)" "card (maps s D pp) + 1 < 65536"
    and perm: "perm AND NOT 0xFFF = 0"
  defines "p \<equiv> pa2page (amap s d (vpn va))"
  shows "\<exists>s'. page_insert (d * 4096) pp va perm s0 = Some (0, s')
     \<and> as_inv s' D (if amap s d (vpn va) \<noteq> 0 \<and> p \<noteq> pp \<and> pp_ref s p = 1 then p # xs else xs)
     \<and> (\<forall>d'\<in>D. \<forall>n<UPG. amap s' d' n = (if d' = d \<and> n = vpn va then page2pa pp OR perm OR PTE_P else amap s d' n))
     \<and> (\<forall>d'\<in>D. \<forall>i<1024. pde s' d' i = pde s d' i) \<and> npages s' = npages s \<and> cur_pgdir s' = cur_pgdir s
     \<and> (\<forall>q. spare s' D q = spare s D q) \<and> (\<forall>q j. spare s' D q \<and> j < 4096 \<longrightarrow> pmem s' (q * 4096 + j) = pmem s (q * 4096 + j))"
proof -
  let ?n = "vpn va" and ?e = "page2pa pp OR perm OR PTE_P"
  let ?t = "pa2page (pde s d (?n div 1024)) * 4096 + 4 * (?n mod 1024)"
  let ?r1 = "(pp_ref s)(pp := pp_ref s pp + 1)"
  let ?s1 = "s\<lparr>pp_ref := ?r1\<rparr>"
  let ?xs = "if amap s d ?n \<noteq> 0 \<and> p \<noteq> pp \<and> pp_ref s p = 1 then p # xs else xs"
  note n = vpn_user [OF d(2)]
  have ppb: "pp < 1048576" "pp \<noteq> 0" "pp < npages s" using pp(1) as_invD(1) [OF inv] by (auto simp: spare_def)
  note e = new_entry [OF ppb(1,2) perm]
  have old: "get32 (pmem s) ?t = amap s d ?n" using pd by (simp add: amap_def ent_def)
  note one = drop_old(1) [OF inv d pd pp(3,4), folded p_def]
  from drop_old(2) [OF inv d pd pp(3,4), folded p_def] obtain s2 where
    s2: "(if PTE_ADDR (amap s d ?n) \<noteq> 0 then do { s \<leftarrow> page_remove (d * 4096) va ?s1; Some (tlb_invalidate (d * 4096) va s) }
         else Some ?s1) = Some s2" "set32 ?t ?e (pmem s2) = set32 ?t ?e (pmem s)" "npages s2 = npages s" "cur_pgdir s2 = cur_pgdir s"
      "pp_ref s2 = (if amap s d ?n = 0 then ?r1 else ?r1(p := ?r1 p - 1))" "free_pages s2 ?xs"
      "\<forall>q<npages s. q \<notin> set ?xs \<longrightarrow> pp_link s2 q = None" by blast
  let ?s3 = "s2\<lparr>pmem := set32 ?t ?e (pmem s2)\<rparr>"
  have m: "pmem ?s3 = set32 ?t ?e (pmem s)" using s2(2) by simp
  note se = set_entry [OF inv d(1) n pd m]
  have am: "\<forall>d'\<in>D. \<forall>n'<UPG. amap ?s3 d' n' = (if d' = d \<and> n' = ?n then ?e else amap s d' n')" using se(2) by blast
  have r3: "pp_ref ?s3 = (if amap s d ?n = 0 then ?r1 else ?r1(pa2page (amap s d ?n) := ?r1 (pa2page (amap s d ?n)) - 1))"
    using s2(5) by (simp add: p_def)
  note cnt = insert_counts [OF inv d(1) n am e(2,1) pp(3,4) r3, folded p_def]
  have "as_inv ?s3 D ?xs"
  proof (rule as_inv_entry [OF inv d(1) n pd m])
    show "spare s D q \<and> pp_ref ?s3 q = 0 \<and> maps ?s3 D q = {}" if q: "q \<in> set ?xs" for q
    proof (cases "q = p \<and> amap s d ?n \<noteq> 0")
      case True
      then have a: "amap s d ?n \<noteq> 0" "q = p" by simp_all
      note M = mapped_spare [OF inv d(1) n a(1), folded p_def]
      have r: "?r1 p = 1" using q a one [OF a(1)] M(2) by (auto split: if_splits)
      have "pp_ref ?s3 p = 0" using a(1) r by (simp add: s2(5))
      then show ?thesis using cnt(2) [OF a(1) r] M(1) unfolding a(2) by blast
    next
      case False
      then have x: "q \<in> set xs" "q \<noteq> pp" using q pp(2) by (auto split: if_splits)
      then have "maps ?s3 D q = {}"
        using as_invD(7) [OF inv x(1)] maps_upd [of d D ?n ?s3 ?e s q, OF d(1) n] am e by simp
      then show ?thesis using as_invD(7) [OF inv x(1)] x(2) False by (auto simp: s2(5))
    qed
  qed (use pp(1) e(1) s2(3,6,7) cnt(1) in \<open>auto simp: free_pages_def\<close>)
  moreover have "page_insert (d * 4096) pp va perm s0 = Some (0, ?s3)"
    using s2(1) ppb(3) by (simp add: page_insert_def walk old Let_def)
  moreover have sp: "spare ?s3 D q = spare s D q" for q
    using tables_cong [of D ?s3 s, OF se(1)] s2(3) by (simp add: spare_def)
  moreover have "pmem ?s3 (q * 4096 + j) = pmem s (q * 4096 + j)" if "spare ?s3 D q" "j < 4096" for q j
  proof -
    have "q \<noteq> pa2page (pde s d (?n div 1024))"
      using that(1) tablesI [OF d(1) UPG_div [OF n] pd] unfolding sp by (auto simp: spare_def)
    then show ?thesis unfolding m using other_page(1) [OF _ that(2)] by simp
  qed
  ultimately show ?thesis using se s2(3,4) by (intro exI [of _ ?s3]) auto
qed

text \<open>
  The whole of \<open>page_insert\<close>: \<open>new_xs\<close> are the free pages without a page taken for the table, and with the
  page whose last mapping went.
\<close>

lemma page_insert_inv:
  assumes inv: "as_inv s D xs" and d: "d \<in> D" "va < UTOP"
    and pp: "spare s D pp" "pp \<notin> set xs" "unat (pp_ref s pp) = card (maps s D pp)" "card (maps s D pp) + 1 < 65536"
    and perm: "perm AND NOT 0xFFF = 0"
  defines "ys \<equiv> if pde s d (vpn va div 1024) = 0 then tl xs else xs"
  defines "p \<equiv> pa2page (amap s d (vpn va))"
  shows "if pde s d (vpn va div 1024) = 0 \<and> xs = [] then page_insert (d * 4096) pp va perm s = Some (- E_NO_MEM, s)
    else \<exists>s'. page_insert (d * 4096) pp va perm s = Some (0, s')
     \<and> as_inv s' D (if amap s d (vpn va) \<noteq> 0 \<and> p \<noteq> pp \<and> pp_ref s p = 1 then p # ys else ys)
     \<and> (\<forall>d'\<in>D. \<forall>n<UPG. amap s' d' n = (if d' = d \<and> n = vpn va then page2pa pp OR perm OR PTE_P else amap s d' n))
     \<and> (\<forall>d'\<in>D. \<forall>i<UPD. (pde s' d' i \<noteq> 0) = (pde s d' i \<noteq> 0 \<or> d' = d \<and> i = vpn va div 1024))
     \<and> npages s' = npages s \<and> cur_pgdir s' = cur_pgdir s
     \<and> (\<forall>d'\<in>D. \<forall>i<1024. UPD \<le> i \<longrightarrow> pde s' d' i = pde s d' i)
     \<and> (\<forall>d'\<in>D. \<forall>i<UPD. pde s' d' i = pde s d' i \<or> pde s d' i = 0 \<and> (\<exists>t. pde s' d' i = new_pde t))
     \<and> (\<forall>q. spare s D q \<and> q \<notin> set xs \<longrightarrow> spare s' D q)
     \<and> (\<forall>q j. spare s' D q \<and> j < 4096 \<longrightarrow> pmem s' (q * 4096 + j) = pmem s (q * 4096 + j))"
proof (cases "pde s d (vpn va div 1024) = 0")
  case False
  show ?thesis using insert_at [OF inv d False walk_found [OF False] pp perm] False d UPD_less by (auto simp: ys_def p_def)
next
  case True
  then have z: "amap s d (vpn va) = 0" by (simp add: amap_def)
  show ?thesis
  proof (cases xs)
    case Nil
    then show ?thesis using True walk_create_inv [OF inv d True] by (simp add: page_insert_def)
  next
    case (Cons t us)
    from walk_create_inv [OF inv d True] Cons obtain s1 where
      s1: "pgdir_walk (d * 4096) va True s = (Some (t * 4096 + 4 * (vpn va mod 1024)), s1)" "as_inv s1 D us"
        "pde s1 d (vpn va div 1024) = new_pde t" "npages s1 = npages s" "\<forall>d'\<in>D. \<forall>n<UPG. amap s1 d' n = amap s d' n"
        "\<forall>q. spare s1 D q \<longleftrightarrow> spare s D q \<and> q \<noteq> t" "\<forall>q. q \<noteq> t \<longrightarrow> pp_ref s1 q = pp_ref s q" "cur_pgdir s1 = cur_pgdir s"
        "\<forall>d'\<in>D. \<forall>i<UPD. (pde s1 d' i \<noteq> 0) = (pde s d' i \<noteq> 0 \<or> d' = d \<and> i = vpn va div 1024)"
        "\<forall>q j. spare s1 D q \<and> j < 4096 \<longrightarrow> pmem s1 (q * 4096 + j) = pmem s (q * 4096 + j)"
        "\<forall>d'\<in>D. \<forall>i<1024. UPD \<le> i \<longrightarrow> pde s1 d' i = pde s d' i"
        "\<forall>d'\<in>D. \<forall>i<UPD. pde s1 d' i = pde s d' i \<or> pde s d' i = 0 \<and> (\<exists>t. pde s1 d' i = new_pde t)"
      by auto
    have t: "t < 1048576" "pp \<noteq> t" using as_invD(1) [OF inv] as_invD(7) [OF inv, of t] Cons pp(2) by (auto simp: spare_def)
    have pd1: "pde s1 d (vpn va div 1024) \<noteq> 0" "pa2page (pde s1 d (vpn va div 1024)) = t"
      using s1(3) new_pde_addr(2) [of t] pa2page_new [OF t(1)] by simp_all
    have mp: "maps s1 D q = maps s D q" for q using s1(5) by (auto simp: maps_def)
    have z1: "amap s1 d (vpn va) = 0" using s1(5) d(1) vpn_user [OF d(2)] z by simp
    have "spare s1 D pp" "pp \<notin> set us" "unat (pp_ref s1 pp) = card (maps s1 D pp)" "card (maps s1 D pp) + 1 < 65536"
      using pp t(2) s1(6,7) Cons by (auto simp: mp)
    from insert_at [OF s1(2) d pd1(1) _ this perm, of s] s1(1) show ?thesis
      using True Cons z z1 s1(4,5,6,8,9,10,11,12) UPD_less by (auto simp: pd1(2) ys_def)
  qed
qed

lemma lookup_entry:
  assumes "amap s d (vpn va) \<noteq> 0"
  shows "\<exists>a. page_lookup (d * 4096) va s = (Some (pa2page (amap s d (vpn va)), a), s) \<and> get32 (pmem s) a = amap s d (vpn va)"
proof -
  have "pde s d (vpn va div 1024) \<noteq> 0" using assms by (auto simp: amap_def)
  from lookup_found [OF this] this show ?thesis by (simp add: amap_def ent_def)
qed

section \<open>Properties\<close>

text \<open>
  C18: \<open>page_insert\<close> maps a page in one address space and leaves everything else as it was.  If the page
  table is missing and no page is free it reports \<open>-E_NO_MEM\<close> and changes nothing.  Otherwise exactly one
  user page of one directory has a new entry, in no directory does any other entry change, no byte outside
  the page tables changes, \<open>page_lookup\<close> finds the page with its permissions, and the invariant of all
  address spaces is kept: tables, directories, mapped and free pages stay apart and reference counts exact.
\<close>

theorem page_insert_isolated:
  assumes "as_inv s D xs" "d \<in> D" "va < UTOP" "spare s D pp" "pp \<notin> set xs"
    and "unat (pp_ref s pp) = card (maps s D pp)" "card (maps s D pp) + 1 < 65536" "perm AND NOT 0xFFF = 0"
  shows "if pde s d (vpn va div 1024) = 0 \<and> xs = [] then page_insert (d * 4096) pp va perm s = Some (- E_NO_MEM, s)
    else \<exists>s' xs' a. page_insert (d * 4096) pp va perm s = Some (0, s') \<and> as_inv s' D xs'
     \<and> (\<forall>d'\<in>D. \<forall>n<UPG. amap s' d' n = (if d' = d \<and> n = vpn va then page2pa pp OR perm OR PTE_P else amap s d' n))
     \<and> (\<forall>q j. spare s' D q \<and> j < 4096 \<longrightarrow> pmem s' (q * 4096 + j) = pmem s (q * 4096 + j))
     \<and> page_lookup (d * 4096) va s' = (Some (pp, a), s') \<and> get32 (pmem s') a = page2pa pp OR perm OR PTE_P"
proof (cases "pde s d (vpn va div 1024) = 0 \<and> xs = []")
  case True
  then show ?thesis using page_insert_inv [OF assms] by simp
next
  case False
  from page_insert_inv [OF assms] False obtain s' xs' where
    s': "page_insert (d * 4096) pp va perm s = Some (0, s')" "as_inv s' D xs'"
      "\<forall>d'\<in>D. \<forall>n<UPG. amap s' d' n = (if d' = d \<and> n = vpn va then page2pa pp OR perm OR PTE_P else amap s d' n)"
      "\<forall>q j. spare s' D q \<and> j < 4096 \<longrightarrow> pmem s' (q * 4096 + j) = pmem s (q * 4096 + j)"
    by (simp only: if_False) blast
  have pp: "pp < 1048576" "pp \<noteq> 0" using assms(4) as_invD(1) [OF assms(1)] by (auto simp: spare_def)
  note e = new_entry [OF pp assms(8)]
  have "amap s' d (vpn va) = page2pa pp OR perm OR PTE_P" using s'(3) assms(2) vpn_user [OF assms(3)] by simp
  with lookup_entry [of s' d va] e False s' show ?thesis by auto
qed

text \<open>
  \<open>page_remove\<close> of a mapped user page clears its entry and no other entry of any address space, puts the
  page on the free list exactly when no mapping of it is left anywhere, and keeps the invariant.
\<close>

theorem page_remove_isolated:
  assumes "as_inv s D xs" "d \<in> D" "va < UTOP" "amap s d (vpn va) \<noteq> 0"
  shows "\<exists>s' xs'. page_remove (d * 4096) va s = Some s' \<and> as_inv s' D xs'
     \<and> (\<forall>d'\<in>D. \<forall>n<UPG. amap s' d' n = (if d' = d \<and> n = vpn va then 0 else amap s d' n))
     \<and> xs' = (if maps s' D (pa2page (amap s d (vpn va))) = {} then pa2page (amap s d (vpn va)) # xs else xs)"
proof -
  let ?p = "pa2page (amap s d (vpn va))"
  note n = vpn_user [OF assms(3)]
  from page_remove_inv [OF assms] obtain s' where
    s': "page_remove (d * 4096) va s = Some s'" "as_inv s' D (if pp_ref s ?p = 1 then ?p # xs else xs)"
      "\<forall>d'\<in>D. \<forall>n<UPG. amap s' d' n = (if d' = d \<and> n = vpn va then 0 else amap s d' n)" by blast
  note M = mapped_spare [OF assms(1,2) n assms(4)]
  have mp: "maps s' D ?p = maps s D ?p - {(d, vpn va)}" using maps_upd [of d D "vpn va" s' 0 s ?p, OF assms(2) n] s'(3) by simp
  have "card (maps s D ?p) = Suc (card (maps s' D ?p))"
    unfolding mp using card.remove [OF finite_maps [OF as_invD(2) [OF assms(1)]] M(4)] .
  moreover have "finite (maps s' D ?p)" using finite_maps as_invD(2) [OF assms(1)] by blast
  ultimately have "pp_ref s ?p = 1 \<longleftrightarrow> maps s' D ?p = {}" using M(3) by (simp add: word_unat_eq_iff)
  with s' show ?thesis by auto
qed

text \<open>A small memory: directories in pages 1 and 4, pages 2 and 3 free.\<close>

lemma vm_dir_empty: "pde vm_dir d i = 0" "amap vm_dir d n = 0" "tables vm_dir D = {}" "maps vm_dir D p = {}"
proof -
  show z: "pde vm_dir d i = 0" "amap vm_dir d n = 0" for d i n
    by (simp_all add: pde_def amap_def ent_def vm_dir_def vm_small_def get32_def get16_def)
  show "tables vm_dir D = {}" "maps vm_dir D p = {}" by (auto simp: tables_def maps_def z)
qed

lemma vm_dir_fields: "npages vm_dir = 16" "pp_ref vm_dir = (\<lambda>_. 0)" "pp_link vm_dir = [2 \<mapsto> 3]" "page_free_list vm_dir = Some 2"
  by (simp_all add: vm_dir_def vm_small_def)

lemma vm_dir_inv: "as_inv vm_dir {1, 4} [2, 3]"
  by (auto simp: as_inv_def spare_def free_pages_def vm_dir_empty vm_dir_fields)

lemma vm_dir_page: "p \<noteq> 0 \<Longrightarrow> p < 16 \<Longrightarrow> p \<noteq> 1 \<Longrightarrow> p \<noteq> 4 \<Longrightarrow> spare vm_dir {1, 4} p"
  "unat (pp_ref vm_dir p) = card (maps vm_dir {1, 4} p)" "card (maps vm_dir {1, 4} p) + 1 < 65536"
  by (simp_all add: spare_def vm_dir_empty vm_dir_fields)

lemma vpn_example: "vpn 0x800000 = 2048" "(0x800000 :: u32) < UTOP" "PTE_U AND NOT 0xFFF = 0"
  by (simp_all add: vpn_def mmu_consts)

theorem page_insert_isolated_witness:
  "\<exists>s' xs' a. page_insert 4096 7 0x800000 PTE_U vm_dir = Some (0, s') \<and> as_inv s' {1, 4} xs'
     \<and> amap s' 1 2048 = page2pa 7 OR PTE_U OR PTE_P \<and> amap s' 4 2048 = amap vm_dir 4 2048
     \<and> page_lookup 4096 0x800000 s' = (Some (7, a), s')"
proof -
  have "7 \<notin> set [2, 3 :: nat]" "2048 < UPG" by (simp_all add: UPG_def UPD_def)
  with page_insert_isolated [OF vm_dir_inv _ vpn_example(2) vm_dir_page(1) _ vm_dir_page(2,3) vpn_example(3), of 1 7]
  show ?thesis by (auto simp: vpn_example(1))
qed

theorem page_remove_isolated_witness:
  "\<exists>s1 s2. page_insert 4096 7 0x800000 PTE_U vm_dir = Some (0, s1) \<and> page_remove 4096 0x800000 s1 = Some s2 \<and> amap s2 1 2048 = 0"
proof -
  have u: "7 \<notin> set [2, 3 :: nat]" "2048 < UPG" by (simp_all add: UPG_def UPD_def)
  obtain s1 where s1: "page_insert 4096 7 0x800000 PTE_U vm_dir = Some (0, s1)" "amap s1 1 2048 = page2pa 7 OR PTE_U OR PTE_P"
    "as_inv s1 {1, 4} [3]"
    using page_insert_inv [OF vm_dir_inv _ vpn_example(2) vm_dir_page(1) _ vm_dir_page(2,3) vpn_example(3), of 1 7] u
    by (auto simp: vpn_example(1) vm_dir_empty)
  have "amap s1 1 2048 \<noteq> 0" using s1(2) new_entry(2) [of 7 PTE_U] vpn_example(3) by simp
  with page_remove_isolated [OF s1(3), of 1 "0x800000"] vpn_example(1,2) u(2) obtain s2 where
    "page_remove 4096 0x800000 s1 = Some s2" "amap s2 1 2048 = 0" by fastforce
  with s1(1) show ?thesis by blast
qed

end
