(* ===== verification/MemCalls.thy ===== *)
theory MemCalls
  imports AddrSpace TrapProps
begin

text \<open>
  The system calls on pages, over the address spaces of all environments.  The directories of the kernel
  are those of the environments in use; \<open>kas k xs\<close> is the invariant of \<open>AddrSpace\<close> for them, with the free
  pages \<open>xs\<close>.

  Lemmas: \<open>sys_page_alloc\<close>, \<open>sys_page_map\<close> and \<open>sys_page_unmap\<close> change one entry of one environment that the
  caller controls, and no environment can change a page table by storing to its own memory.
\<close>

section \<open>The invariant for a kernel\<close>

definition kdirs :: "kern \<Rightarrow> nat set" where
  "kdirs k = {d. \<exists>e. env_status (envs k e) \<noteq> ENV_FREE \<and> env_pgdir (envs k e) = Some (d * 4096)}"

definition kas :: "kern \<Rightarrow> nat list \<Rightarrow> bool" where
  "kas k xs \<longleftrightarrow> as_inv (kvm k) (kdirs k) xs"

text \<open>Nothing of it depends on which directory is loaded.\<close>

lemma as_vm_cong:
  assumes "pmem v' = pmem v" "npages v' = npages v" "pp_ref v' = pp_ref v" "pp_link v' = pp_link v"
    "page_free_list v' = page_free_list v"
  shows "pde v' = pde v" "amap v' = amap v" "tables v' = tables v" "maps v' = maps v" "spare v' = spare v" "as_inv v' = as_inv v"
proof -
  show p: "pde v' = pde v" by (simp add: fun_eq_iff pde_def assms)
  show a: "amap v' = amap v" by (simp add: fun_eq_iff amap_def assms p)
  show t: "tables v' = tables v" by (simp add: fun_eq_iff tables_def p)
  show m: "maps v' = maps v" by (simp add: fun_eq_iff maps_def a)
  show s: "spare v' = spare v" by (simp add: fun_eq_iff spare_def t assms)
  show "as_inv v' = as_inv v" by (simp add: fun_eq_iff as_inv_def free_pages_def p m s assms)
qed

lemma as_vm_of [simp]:
  "pde (vm_of k) = pde (kvm k)" "amap (vm_of k) = amap (kvm k)" "tables (vm_of k) = tables (kvm k)"
  "maps (vm_of k) = maps (kvm k)" "spare (vm_of k) = spare (kvm k)" "as_inv (vm_of k) = as_inv (kvm k)"
  by (rule as_vm_cong; simp)+

lemma as_put_vm [simp]:
  "pde (kvm (put_vm v k)) = pde v" "amap (kvm (put_vm v k)) = amap v" "tables (kvm (put_vm v k)) = tables v"
  "maps (kvm (put_vm v k)) = maps v" "spare (kvm (put_vm v k)) = spare v" "as_inv (kvm (put_vm v k)) = as_inv v"
  by (rule as_vm_cong; simp)+

lemma kdirs_put_vm [simp]: "kdirs (put_vm v k) = kdirs k"
  by (simp add: kdirs_def)

lemma kdirsI: "env_status (envs k e) \<noteq> ENV_FREE \<Longrightarrow> env_pgdir (envs k e) = Some (d * 4096) \<Longrightarrow> d \<in> kdirs k"
  by (auto simp: kdirs_def)

text \<open>The contents of pages that are not part of the page tables are the same.\<close>

definition user_same :: "kern \<Rightarrow> kern \<Rightarrow> bool" where
  "user_same k k' \<longleftrightarrow> (\<forall>q j. spare (kvm k') (kdirs k') q \<and> j < 4096 \<longrightarrow> pmem (kvm k') (q * 4096 + j) = pmem (kvm k) (q * 4096 + j))"

lemma va_okD: "va_ok va \<Longrightarrow> va < UTOP"
  by (auto simp: va_ok_def)

lemma perm_okD: "perm_ok perm \<Longrightarrow> perm AND NOT 0xFFF = 0"
proof -
  assume "perm_ok perm"
  then have z: "perm AND NOT 0xE07 = 0" by (simp add: perm_ok_def mmu_consts)
  have "(NOT 0xFFF :: u32) = NOT 0xE07 AND NOT 0xFFF" by simp
  then have "perm AND NOT 0xFFF = (perm AND NOT 0xE07) AND NOT 0xFFF" by (simp only: and.assoc)
  then show ?thesis using z by simp
qed

section \<open>The calls\<close>

lemma insert_in_kas:
  assumes "kas k xs" "env_status (envs k e) \<noteq> ENV_FREE" "env_pgdir (envs k e) = Some (d * 4096)" "va_ok va" "perm_ok perm"
    and "spare (kvm k) (kdirs k) pp" "pp \<notin> set xs" "unat (pp_ref (kvm k) pp) = card (maps (kvm k) (kdirs k) pp)"
      "card (maps (kvm k) (kdirs k) pp) + 1 < 65536"
  shows "if pde (kvm k) d (vpn va div 1024) = 0 \<and> xs = [] then insert_in e pp va perm k = Some (- E_NO_MEM, k)
    else \<exists>k' xs'. insert_in e pp va perm k = Some (0, k') \<and> kas k' xs' \<and> length xs \<le> Suc (length xs')
     \<and> (pde (kvm k) d (vpn va div 1024) \<noteq> 0 \<longrightarrow> length xs \<le> length xs')
     \<and> envs k' = envs k \<and> curenv k' = curenv k \<and> kdirs k' = kdirs k
     \<and> (\<forall>d'\<in>kdirs k. \<forall>n<UPG. amap (kvm k') d' n = (if d' = d \<and> n = vpn va then page2pa pp OR perm OR PTE_P else amap (kvm k) d' n))
     \<and> (\<forall>d'\<in>kdirs k. \<forall>i<UPD. (pde (kvm k') d' i \<noteq> 0) = (pde (kvm k) d' i \<noteq> 0 \<or> d' = d \<and> i = vpn va div 1024))
     \<and> user_same k k'"
proof -
  note d = kdirsI [OF assms(2,3)]
  have inv: "as_inv (vm_of k) (kdirs k) xs" using assms(1) by (simp add: kas_def)
  have "spare (vm_of k) (kdirs k) pp" "unat (pp_ref (vm_of k) pp) = card (maps (vm_of k) (kdirs k) pp)"
    "card (maps (vm_of k) (kdirs k) pp) + 1 < 65536" using assms(6,8,9) by simp_all
  note ins = page_insert_inv [OF inv d va_okD [OF assms(4)] this(1) assms(7) this(2,3) perm_okD [OF assms(5)]]
  show ?thesis
  proof (cases "pde (kvm k) d (vpn va div 1024) = 0 \<and> xs = []")
    case True
    then show ?thesis using ins assms(3) by (simp add: insert_in_def)
  next
    case False
    let ?p = "pa2page (amap (kvm k) d (vpn va))" and ?us = "if pde (kvm k) d (vpn va div 1024) = 0 then tl xs else xs"
    let ?ys = "if amap (kvm k) d (vpn va) \<noteq> 0 \<and> ?p \<noteq> pp \<and> pp_ref (kvm k) ?p = 1 then ?p # ?us else ?us"
    from False ins obtain v where v: "page_insert (d * 4096) pp va perm (vm_of k) = Some (0, v)" "as_inv v (kdirs k) ?ys"
      "\<forall>d'\<in>kdirs k. \<forall>n<UPG. amap v d' n = (if d' = d \<and> n = vpn va then page2pa pp OR perm OR PTE_P else amap (kvm k) d' n)"
      "\<forall>d'\<in>kdirs k. \<forall>i<UPD. (pde v d' i \<noteq> 0) = (pde (kvm k) d' i \<noteq> 0 \<or> d' = d \<and> i = vpn va div 1024)"
      "\<forall>q j. spare v (kdirs k) q \<and> j < 4096 \<longrightarrow> pmem v (q * 4096 + j) = pmem (kvm k) (q * 4096 + j)"
      unfolding as_vm_of vm_of_fields by (simp only: if_False) blast
    have "insert_in e pp va perm k = Some (0, put_vm v k)" "kas (put_vm v k) ?ys"
      using assms(3) v(1,2) by (simp_all add: insert_in_def kas_def)
    moreover have "length xs \<le> Suc (length ?ys)" "pde (kvm k) d (vpn va div 1024) \<noteq> 0 \<longrightarrow> length xs \<le> length ?ys" by auto
    ultimately show ?thesis
      using False v(3,4,5) by (simp only: if_False) (intro exI [of _ "put_vm v k"] exI [of _ ?ys] conjI; simp add: user_same_def)
  qed
qed

text \<open>The first check of the source's entry tests an address that is a multiple of four.\<close>

lemma pte_store_even: "(of_nat (t * 4096 + 4 * j) + KERNBASE :: u32) AND PTE_W = 0"
proof -
  have "(of_nat (t * 4096 + 4 * j) + KERNBASE :: u32) = push_bit 2 (of_nat (1024 * t + j) + 0x3C000000)"
    by (simp add: push_bit_eq_mult KERNBASE_def algebra_simps)
  moreover have "push_bit 2 x AND PTE_W = 0" for x :: u32
    unfolding PTE_W_def by (rule bit_word_eqI) (auto simp: bit_simps bit_2_iff)
  ultimately show ?thesis by metis
qed

lemma sys_page_map_insert:
  assumes "envid2env srcid True k = Some (0, Some src)" "envid2env dstid True k = Some (0, Some dst)"
    and "env_pgdir (envs k src) = Some (ds * 4096)" "va_ok srcva" "va_ok dstva" "perm_ok perm" "amap (kvm k) ds (vpn srcva) \<noteq> 0"
  shows "sys_page_map srcid srcva dstid dstva perm k =
    (case insert_in dst (pa2page (amap (kvm k) ds (vpn srcva))) dstva perm k of
       None \<Rightarrow> Panic | Some (r, k') \<Rightarrow> if r < 0 then Ret (err E_NO_MEM) k' else Ret 0 k')"
proof -
  have "pde (vm_of k) ds (vpn srcva div 1024) \<noteq> 0" using assms(7) by (auto simp: amap_def)
  note l = lookup_found [OF this]
  show ?thesis using assms pte_store_even by (simp add: sys_page_map_def with_env_def l Let_def)
qed

text \<open>
  C19: \<open>sys_page_map\<close> shares one page and touches nothing else.  For two environments the caller may change,
  valid page-aligned user addresses, valid permissions and a mapped source page with a count below its
  limit, the call fails only with \<open>-E_NO_MEM\<close>, when a page table is missing and no page is free, and then
  changes nothing.  Otherwise the destination's entry refers to the source's page with the given
  permissions, every other entry of every environment and the contents of all user pages are as before, no
  environment's registers or state change, and the invariant of all address spaces is kept.
\<close>

theorem sys_page_map_isolated:
  assumes "kinv k" "kas k xs"
    and "envid2env srcid True k = Some (0, Some src)" "env_pgdir (envs k src) = Some (ds * 4096)"
    and "envid2env dstid True k = Some (0, Some dst)" "env_pgdir (envs k dst) = Some (dd * 4096)"
    and "va_ok srcva" "va_ok dstva" "perm_ok perm" "amap (kvm k) ds (vpn srcva) \<noteq> 0"
    and "card (maps (kvm k) (kdirs k) (pa2page (amap (kvm k) ds (vpn srcva)))) + 1 < 65536"
  shows "if pde (kvm k) dd (vpn dstva div 1024) = 0 \<and> xs = []
    then sys_page_map srcid srcva dstid dstva perm k = Ret (err E_NO_MEM) k
    else \<exists>k' xs'. sys_page_map srcid srcva dstid dstva perm k = Ret 0 k' \<and> kinv k' \<and> kas k' xs' \<and> envs k' = envs k \<and> user_same k k'
     \<and> (\<forall>d\<in>kdirs k. \<forall>n<UPG. amap (kvm k') d n =
          (if d = dd \<and> n = vpn dstva then page2pa (pa2page (amap (kvm k) ds (vpn srcva))) OR perm OR PTE_P else amap (kvm k) d n))"
proof -
  note live = envid2env_live(2) [OF assms(1,3)] envid2env_live(2) [OF assms(1,5)]
  have inv: "as_inv (kvm k) (kdirs k) xs" using assms(2) by (simp add: kas_def)
  note M = mapped_spare [OF inv kdirsI [OF live(1) assms(4)] vpn_user [OF va_okD [OF assms(7)]] assms(10)]
  note I = insert_in_kas [OF assms(2) live(2) assms(6,8,9) M(1,2,3) assms(11)]
  note S = sys_page_map_insert [OF assms(3,5,4,7,8,9,10)]
  show ?thesis
  proof (cases "pde (kvm k) dd (vpn dstva div 1024) = 0 \<and> xs = []")
    case True
    then show ?thesis using I by (simp add: S E_NO_MEM_def)
  next
    case False
    with I obtain k' xs' where k': "insert_in dst (pa2page (amap (kvm k) ds (vpn srcva))) dstva perm k = Some (0, k')"
      "kas k' xs'" "envs k' = envs k" "user_same k k'" "\<forall>d\<in>kdirs k. \<forall>n<UPG. amap (kvm k') d n =
          (if d = dd \<and> n = vpn dstva then page2pa (pa2page (amap (kvm k) ds (vpn srcva))) OR perm OR PTE_P else amap (kvm k) d n)"
      by (simp only: if_False) blast
    then show ?thesis using False kinv_insert_in [OF k'(1)] assms(1) by (simp only: if_False S) auto
  qed
qed

section \<open>Allocation\<close>

lemma page_alloc_inv:
  assumes inv: "as_inv s D (p # xs)"
  shows "\<exists>s'. page_alloc f s = (Some p, s') \<and> as_inv s' D xs \<and> (\<forall>d\<in>D. \<forall>n<UPG. amap s' d n = amap s d n)
     \<and> (\<forall>d\<in>D. \<forall>i<UPD. pde s' d i = pde s d i) \<and> spare s' D p \<and> p \<notin> set xs \<and> pp_ref s' p = 0 \<and> maps s' D p = {}
     \<and> pp_ref s' = pp_ref s \<and> npages s' = npages s
     \<and> (f AND ALLOC_ZERO \<noteq> 0 \<longrightarrow> (\<forall>j<4096. pmem s' (p * 4096 + j) = 0))
     \<and> (\<forall>q j. q \<noteq> p \<and> j < 4096 \<longrightarrow> pmem s' (q * 4096 + j) = pmem s (q * 4096 + j))"
proof -
  have h: "page_free_list s = Some p" "p \<notin> set xs" using as_invD(6) [OF inv] by (auto simp: free_pages_def)
  note P = as_invD(7) [OF inv, of p, simplified]
  have pb: "p < 1048576" "p \<notin> D \<union> tables s D" using P as_invD(1) [OF inv] by (auto simp: spare_def)
  let ?s = "(if f AND ALLOC_ZERO \<noteq> 0 then (s\<lparr>page_free_list := pp_link s p, pp_link := (pp_link s)(p := None)\<rparr>)\<lparr>pmem := zero_page p (pmem s)\<rparr>
      else s\<lparr>page_free_list := pp_link s p, pp_link := (pp_link s)(p := None)\<rparr>)"
  have alloc: "page_alloc f s = (Some p, ?s)" using h by (simp add: page_alloc_def Let_def)
  have fld: "npages ?s = npages s" "pp_ref ?s = pp_ref s" "pp_link ?s = (pp_link s)(p := None)" "page_free_list ?s = pp_link s p" by simp_all
  have e: "ent (pmem ?s) q j = ent (pmem s) q j" if "q \<in> D \<union> tables s D" "j < 1024" for q j
    using that ent_zero [OF pb(1) that(2), of "pmem s" q] pb(2) by auto
  note st = same_tables [of D s ?s, OF e]
  note sh = same_shape [of D ?s s, OF st]
  have "as_inv ?s D xs"
  proof (rule as_inv_same [OF inv fld(1) st])
    show "free_pages ?s xs" by (rule free_pages_pop [OF as_invD(6) [OF inv] fld(4,3)])
    show "pp_link ?s q = None" if "q < npages s" "q \<notin> set xs" for q
      using that as_invD(8) [OF inv, of q] unfolding fld(3) by auto
    show "spare s D q \<and> pp_ref ?s q = 0 \<and> maps s D q = {}" if "q \<in> set xs" for q
      using as_invD(7) [OF inv, of q] that by simp
  qed simp_all
  moreover have "pmem ?s (p * 4096 + j) = 0" if "f AND ALLOC_ZERO \<noteq> 0" "j < 4096" for j
    using that zero_page_get [of j p "pmem s"] page2pa_nat [OF pb(1)] by simp
  moreover have "pmem ?s (q * 4096 + j) = pmem s (q * 4096 + j)" if "q \<noteq> p" "j < 4096" for q j
    using other_page(2) [OF that pb(1)] by simp
  moreover have "spare ?s D p" "maps ?s D p = {}" using P sh(2,3) fld(1) by blast+
  moreover have "pp_ref ?s p = 0" using P fld(2) by simp
  ultimately show ?thesis using alloc st h(2) fld(1,2) by blast
qed

lemma sys_page_alloc_run:
  assumes "kinv k" "kas k (p # xs)" "envid2env envid True k = Some (0, Some e)" "env_pgdir (envs k e) = Some (d * 4096)"
    and "va_ok va" "perm_ok perm" "pde (kvm k) d (vpn va div 1024) \<noteq> 0 \<or> xs \<noteq> []"
  shows "\<exists>k' xs'. sys_page_alloc envid va perm k = Ret 0 k' \<and> kinv k' \<and> kas k' xs' \<and> envs k' = envs k \<and> curenv k' = curenv k
     \<and> length xs \<le> Suc (length xs') \<and> kdirs k' = kdirs k
     \<and> (\<forall>d'\<in>kdirs k. \<forall>n<UPG. amap (kvm k') d' n = (if d' = d \<and> n = vpn va then page2pa p OR perm OR PTE_P else amap (kvm k) d' n))
     \<and> (\<forall>j<4096. pmem (kvm k') (p * 4096 + j) = 0)
     \<and> (\<forall>q j. spare (kvm k') (kdirs k) q \<and> q \<noteq> p \<and> j < 4096 \<longrightarrow> pmem (kvm k') (q * 4096 + j) = pmem (kvm k) (q * 4096 + j))"
proof -
  note live = envid2env_live(2) [OF assms(1,3)]
  note d = kdirsI [OF live assms(4)]
  have "as_inv (vm_of k) (kdirs k) (p # xs)" using assms(2) by (simp add: kas_def)
  from page_alloc_inv [OF this, of ALLOC_ZERO] obtain v where
    v: "page_alloc ALLOC_ZERO (vm_of k) = (Some p, v)" "as_inv v (kdirs k) xs" "\<forall>d\<in>kdirs k. \<forall>n<UPG. amap v d n = amap (kvm k) d n"
      "\<forall>d\<in>kdirs k. \<forall>i<UPD. pde v d i = pde (kvm k) d i" "spare v (kdirs k) p" "p \<notin> set xs" "pp_ref v p = 0" "maps v (kdirs k) p = {}"
      "\<forall>j<4096. pmem v (p * 4096 + j) = 0" "\<forall>q j. q \<noteq> p \<and> j < 4096 \<longrightarrow> pmem v (q * 4096 + j) = pmem (kvm k) (q * 4096 + j)"
    by (auto simp: ALLOC_ZERO_def)
  let ?k = "put_vm v k"
  have k1: "kas ?k xs" "env_status (envs ?k e) \<noteq> ENV_FREE" "env_pgdir (envs ?k e) = Some (d * 4096)"
    "spare (kvm ?k) (kdirs ?k) p" "unat (pp_ref (kvm ?k) p) = card (maps (kvm ?k) (kdirs ?k) p)"
    "card (maps (kvm ?k) (kdirs ?k) p) + 1 < 65536"
    using v live assms(4) by (simp_all add: kas_def)
  have nf: "\<not> (pde v d (vpn va div 1024) = 0 \<and> xs = [])"
    using assms(7) v(4) d UPG_div [OF vpn_user [OF va_okD [OF assms(5)]]] by simp
  from insert_in_kas [OF k1(1-3) assms(5,6) k1(4) v(6) k1(5,6)] obtain k' xs' where
    k': "insert_in e p va perm ?k = Some (0, k')" "kas k' xs'" "length xs \<le> Suc (length xs')" "envs k' = envs k" "curenv k' = curenv k"
      "kdirs k' = kdirs k" "user_same ?k k'"
      "\<forall>d'\<in>kdirs k. \<forall>n<UPG. amap (kvm k') d' n = (if d' = d \<and> n = vpn va then page2pa p OR perm OR PTE_P else amap v d' n)"
    unfolding if_not_P [OF nf] put_vm_fields as_put_vm kdirs_put_vm by blast
  have run: "sys_page_alloc envid va perm k = Ret 0 k'"
    using assms(3,5,6) v(1) k'(1) by (simp add: sys_page_alloc_def with_env_def)
  have pb: "p < 1048576" "p \<noteq> 0" using v(5) as_invD(1) [OF v(2)] by (auto simp: spare_def)
  note n = vpn_user [OF va_okD [OF assms(5)]]
  have "amap (kvm k') d (vpn va) = page2pa p OR perm OR PTE_P" using k'(8) d n by simp
  then have "spare (kvm k') (kdirs k') p"
    using mapped_spare(1) [OF k'(2) [unfolded kas_def] _ n, of d] d new_entry [OF pb perm_okD [OF assms(6)]] k'(6) by simp
  then have "\<forall>j<4096. pmem (kvm k') (p * 4096 + j) = 0" using k'(7) v(9) by (simp add: user_same_def)
  moreover have "\<forall>q j. spare (kvm k') (kdirs k) q \<and> q \<noteq> p \<and> j < 4096 \<longrightarrow> pmem (kvm k') (q * 4096 + j) = pmem (kvm k) (q * 4096 + j)"
    using k'(6,7) v(10) by (simp add: user_same_def)
  moreover have "kinv k'" using kinv_insert_in [OF k'(1)] assms(1) by simp
  ultimately show ?thesis using run k' v(3) by auto
qed

text \<open>
  \<open>sys_page_alloc\<close> gives an environment the caller controls a page of its own.  If pages are free, one
  for the page and one for a missing page table, the call returns 0, the entry of that address refers to a
  page that was free and is filled with zeros, every other entry of every environment and the contents
  of all other user pages are as before, and the invariant of all address spaces is kept.
\<close>

theorem sys_page_alloc_isolated:
  assumes "kinv k" "kas k (p # xs)" "envid2env envid True k = Some (0, Some e)" "env_pgdir (envs k e) = Some (d * 4096)"
    and "va_ok va" "perm_ok perm" "pde (kvm k) d (vpn va div 1024) \<noteq> 0 \<or> xs \<noteq> []"
  shows "\<exists>k' xs'. sys_page_alloc envid va perm k = Ret 0 k' \<and> kinv k' \<and> kas k' xs' \<and> envs k' = envs k
     \<and> maps (kvm k) (kdirs k) p = {} \<and> (\<forall>j<4096. pmem (kvm k') (p * 4096 + j) = 0)
     \<and> (\<forall>d'\<in>kdirs k. \<forall>n<UPG. amap (kvm k') d' n = (if d' = d \<and> n = vpn va then page2pa p OR perm OR PTE_P else amap (kvm k) d' n))
     \<and> (\<forall>q j. spare (kvm k') (kdirs k) q \<and> q \<noteq> p \<and> j < 4096 \<longrightarrow> pmem (kvm k') (q * 4096 + j) = pmem (kvm k) (q * 4096 + j))"
proof -
  have "maps (kvm k) (kdirs k) p = {}" using assms(2) as_invD(7) [of "kvm k" "kdirs k" "p # xs" p] by (simp add: kas_def)
  then show ?thesis using sys_page_alloc_run [OF assms] by blast
qed

section \<open>Stores of an environment\<close>

lemma ent_byte: "a div 4096 \<noteq> q \<Longrightarrow> j < 1024 \<Longrightarrow> ent (m(a := b)) q j = ent m q j"
  unfolding ent_def by (rule get32_cong) auto

lemma flag_zero: "e AND f \<noteq> 0 \<Longrightarrow> (e :: u32) \<noteq> 0"
  by auto

lemma translate_entry:
  assumes "translate (d * 4096) True va (pmem s) = Some a"
  shows "amap s d (vpn va) AND PTE_W \<noteq> 0" "a div 4096 = pa2page (amap s d (vpn va))"
proof -
  let ?e = "ent (pmem s) d (vpn va div 1024)"
  have p: "?e AND PTE_P \<noteq> 0" "get32 (pmem s) (pte_addr ?e va) AND PTE_W \<noteq> 0"
    "a = unat (PTE_ADDR (get32 (pmem s) (pte_addr ?e va))) + unat (PGOFF va)"
    using assms by (auto simp: translate_def Let_def addr_ent(1) ent_def split: if_splits)
  have am: "amap s d (vpn va) = get32 (pmem s) (pte_addr ?e va)"
    using flag_zero [OF p(1)] by (simp add: amap_def pde_def ent_def addr_ent(2))
  show "amap s d (vpn va) AND PTE_W \<noteq> 0" using p(2) am by simp
  have "unat (PGOFF va) < 4096" by (simp add: unat_PGOFF)
  then show "a div 4096 = pa2page (amap s d (vpn va))" unfolding p(3) am [symmetric] unat_PTE_ADDR by simp
qed

lemma store_step:
  assumes inv: "as_inv s D xs" and d: "d \<in> D" "va < UTOP" and tr: "translate (d * 4096) True va (pmem s) = Some a"
  shows "as_inv (s\<lparr>pmem := (pmem s)(a := b)\<rparr>) D xs"
    "\<forall>d'\<in>D. \<forall>n<UPG. amap (s\<lparr>pmem := (pmem s)(a := b)\<rparr>) d' n = amap s d' n"
proof -
  let ?s = "s\<lparr>pmem := (pmem s)(a := b)\<rparr>"
  note T = translate_entry [OF tr]
  have "a div 4096 \<notin> D \<union> tables s D"
    using mapped_spare(1) [OF inv d(1) vpn_user [OF d(2)] flag_zero [OF T(1)]] T(2) by (auto simp: spare_def)
  then have e: "ent (pmem ?s) q j = ent (pmem s) q j" if "q \<in> D \<union> tables s D" "j < 1024" for q j
    using ent_byte [of a q j] that by auto
  note st = same_tables [of D s ?s, OF e]
  show "\<forall>d'\<in>D. \<forall>n<UPG. amap ?s d' n = amap s d' n" using st(2) by blast
  show "as_inv ?s D xs"
    by (rule as_inv_same [OF inv _ st]) (use as_invD(6,7,8) [OF inv] in \<open>auto simp: free_pages_def\<close>)
qed

lemma vstore_isolated:
  assumes "d \<in> D"
  shows "as_inv s D xs \<Longrightarrow> unat va + length bs \<le> unat UTOP \<Longrightarrow> vstore (d * 4096) va bs (pmem s) = Some m \<Longrightarrow>
    as_inv (s\<lparr>pmem := m\<rparr>) D xs \<and> (\<forall>d'\<in>D. \<forall>n<UPG. amap (s\<lparr>pmem := m\<rparr>) d' n = amap s d' n)
    \<and> (\<forall>x. (\<forall>n<UPG. amap s d n AND PTE_W \<noteq> 0 \<longrightarrow> pa2page (amap s d n) \<noteq> x div 4096) \<longrightarrow> m x = pmem s x)"
proof (induction bs arbitrary: va s)
  case (Cons b bs)
  from Cons.prems(3) obtain a where a: "translate (d * 4096) True va (pmem s) = Some a"
    "vstore (d * 4096) (va + 1) bs ((pmem s)(a := b)) = Some m" by (auto simp: bind_eq_Some_conv)
  have va: "va < UTOP" "unat (va + 1) = unat va + 1"
  proof -
    show "va < UTOP" using Cons.prems(2) by (simp add: word_less_nat_alt)
    have "unat va + 1 < 4294967296" using Cons.prems(2) by (simp add: mmu_consts)
    then show "unat (va + 1) = unat va + 1" by (simp add: unat_word_ariths)
  qed
  let ?s = "s\<lparr>pmem := (pmem s)(a := b)\<rparr>"
  note S = store_step [OF Cons.prems(1) assms va(1) a(1), of b]
  note T = translate_entry [OF a(1)]
  have le: "unat (va + 1) + length bs \<le> unat UTOP" using Cons.prems(2) va(2) by simp
  have st: "vstore (d * 4096) (va + 1) bs (pmem ?s) = Some m" using a(2) by simp
  have up: "?s\<lparr>pmem := m\<rparr> = s\<lparr>pmem := m\<rparr>" by simp
  from Cons.IH [OF S(1) le st, unfolded up] have IH:
    "as_inv (s\<lparr>pmem := m\<rparr>) D xs" "\<forall>d'\<in>D. \<forall>n<UPG. amap (s\<lparr>pmem := m\<rparr>) d' n = amap ?s d' n"
    "\<forall>x. (\<forall>n<UPG. amap ?s d n AND PTE_W \<noteq> 0 \<longrightarrow> pa2page (amap ?s d n) \<noteq> x div 4096) \<longrightarrow> m x = pmem ?s x" by blast+
  have "m x = pmem s x" if "\<forall>n<UPG. amap s d n AND PTE_W \<noteq> 0 \<longrightarrow> pa2page (amap s d n) \<noteq> x div 4096" for x
  proof -
    have "x \<noteq> a" using that T vpn_user [OF va(1)] by auto
    moreover have "m x = pmem ?s x" using IH(3) that S(2) assms by simp
    ultimately show ?thesis by simp
  qed
  with IH(1,2) S(2) show ?case by simp
next
  case Nil
  then have "s\<lparr>pmem := m\<rparr> = s" "m = pmem s" by simp_all
  then show ?case using Nil(1) by simp
qed

text \<open>
  An environment cannot change the memory of another.  Bytes stored through the page tables of one
  environment, at user addresses, reach only pages that are mapped writable in that environment; no
  entry of any address space changes, so no environment can alter a page table or directory, and the
  invariant of all address spaces is kept.
\<close>

theorem user_store_isolated:
  assumes "kas k xs" "env_status (envs k e) \<noteq> ENV_FREE" "env_pgdir (envs k e) = Some (d * 4096)"
    and "unat va + length bs \<le> unat UTOP" "vstore (d * 4096) va bs (pmem (kvm k)) = Some m"
  shows "kas (k\<lparr>kvm := (kvm k)\<lparr>pmem := m\<rparr>\<rparr>) xs
     \<and> (\<forall>d'\<in>kdirs k. \<forall>n<UPG. amap ((kvm k)\<lparr>pmem := m\<rparr>) d' n = amap (kvm k) d' n)
     \<and> (\<forall>x. (\<forall>n<UPG. amap (kvm k) d n AND PTE_W \<noteq> 0 \<longrightarrow> pa2page (amap (kvm k) d n) \<noteq> x div 4096) \<longrightarrow> m x = pmem (kvm k) x)"
proof -
  have "as_inv (kvm k) (kdirs k) xs" using assms(1) by (simp add: kas_def)
  from vstore_isolated [OF kdirsI [OF assms(2,3)] this assms(4,5)] show ?thesis by (simp add: kas_def kdirs_def)
qed

section \<open>Examples\<close>

text \<open>A running environment and its child, with directories in pages 1 and 4 and four free pages.\<close>

definition kern_as :: kern where
  "kern_as = kern_two\<lparr>kvm := vm_dir\<lparr>pp_link := [2 \<mapsto> 3, 3 \<mapsto> 5, 5 \<mapsto> 6]\<rparr>,
     envs := (envs kern_two)(1 := (envs kern_two 1)\<lparr>env_pgdir := Some 16384\<rparr>)\<rparr>"

lemma kern_as_envs: "env_pgdir (envs kern_as 0) = Some (1 * 4096)" "env_pgdir (envs kern_as 1) = Some (4 * 4096)"
  "envid2env 0 True kern_as = Some (0, Some 0)" "envid2env 0x1001 True kern_as = Some (0, Some 1)"
  by (simp_all add: kern_as_def kern_two_def zero_env_def envid2env_def ENVX_def)

lemma kern_as_inv: "kinv kern_as"
proof -
  have "free_ok kern_as" by (auto simp: free_ok_def free_envs_def kern_as_def kern_two_def intro!: exI [of _ "[]"])
  then show ?thesis by (simp add: kinv_def kern_as_def kern_two_def zero_env_def NENV_def)
qed

lemma kern_as_dirs: "kdirs kern_as = {1, 4}"
proof -
  have "d * 4096 = 4096 \<longleftrightarrow> d = 1" "d * 4096 = 16384 \<longleftrightarrow> d = 4" for d :: nat by auto
  moreover have "kdirs kern_as = {d. d * 4096 = 4096 \<or> d * 4096 = 16384}"
    by (auto simp: kdirs_def kern_as_def kern_two_def zero_env_def split: if_splits)
  ultimately show ?thesis by auto
qed

lemma kern_as_kas: "kas kern_as [2, 3, 5, 6]" "pde (kvm kern_as) d i = 0" "amap (kvm kern_as) d n = 0"
proof -
  have v: "kvm kern_as = vm_dir\<lparr>pp_link := [2 \<mapsto> 3, 3 \<mapsto> 5, 5 \<mapsto> 6]\<rparr>" by (simp add: kern_as_def)
  have e: "pde (vm_dir\<lparr>pp_link := f\<rparr>) = pde vm_dir" for f by (simp add: fun_eq_iff pde_def)
  then have a: "amap (vm_dir\<lparr>pp_link := f\<rparr>) = amap vm_dir" for f by (simp add: fun_eq_iff amap_def)
  show "pde (kvm kern_as) d i = 0" "amap (kvm kern_as) d n = 0" by (simp_all add: v e a vm_dir_empty)
  show "kas kern_as [2, 3, 5, 6]" unfolding kas_def kern_as_dirs v
    by (auto simp: as_inv_def spare_def tables_def maps_def free_pages_def e a vm_dir_empty vm_dir_fields)
qed

lemma example_ok: "va_ok 0x800000" "va_ok 0x801000" "perm_ok 7" "vpn 0x801000 = 2049" "2048 < UPG" "2049 < UPG"
  by (simp_all add: va_ok_def perm_ok_def vpn_def UPG_def UPD_def mmu_consts)

theorem sys_page_alloc_isolated_witness:
  "\<exists>k' xs'. sys_page_alloc 0 0x800000 7 kern_as = Ret 0 k' \<and> kas k' xs' \<and> amap (kvm k') 1 2048 = page2pa 2 OR 7 OR PTE_P
     \<and> amap (kvm k') 4 2048 = 0 \<and> pmem (kvm k') (2 * 4096 + 5) = 0"
proof -
  have u: "pde (kvm kern_as) 1 (vpn 0x800000 div 1024) \<noteq> 0 \<or> [3, 5, 6] \<noteq> ([] :: nat list)" by simp
  from sys_page_alloc_isolated [OF kern_as_inv kern_as_kas(1) kern_as_envs(3,1) example_ok(1,3) u] obtain k' xs' where
    k': "sys_page_alloc 0 0x800000 7 kern_as = Ret 0 k'" "kas k' xs'" "\<forall>j<4096. pmem (kvm k') (2 * 4096 + j) = 0"
      "\<forall>d\<in>{1, 4}. \<forall>n<UPG. amap (kvm k') d n = (if d = 1 \<and> n = 2048 then page2pa 2 OR 7 OR PTE_P else 0)"
    unfolding kern_as_kas(3) kern_as_dirs vpn_example(1) by blast
  from k'(3) have "pmem (kvm k') (2 * 4096 + 5) = 0" by (rule allE [of _ 5]) simp
  with k' show ?thesis using example_ok(5) by (intro exI [of _ k'] exI [of _ xs']) simp
qed

theorem sys_page_map_isolated_witness:
  "\<exists>k1 k2. sys_page_alloc 0 0x800000 7 kern_as = Ret 0 k1 \<and> sys_page_map 0 0x800000 0x1001 0x801000 7 k1 = Ret 0 k2
     \<and> amap (kvm k2) 4 2049 = page2pa 2 OR 7 OR PTE_P \<and> amap (kvm k2) 1 2048 = page2pa 2 OR 7 OR PTE_P"
proof -
  have u: "pde (kvm kern_as) 1 (vpn 0x800000 div 1024) \<noteq> 0 \<or> [3, 5, 6] \<noteq> ([] :: nat list)" by simp
  from sys_page_alloc_run [OF kern_as_inv kern_as_kas(1) kern_as_envs(3,1) example_ok(1,3) u] obtain k1 xs where
    k1: "sys_page_alloc 0 0x800000 7 kern_as = Ret 0 k1" "kinv k1" "kas k1 xs" "envs k1 = envs kern_as" "curenv k1 = curenv kern_as"
      "kdirs k1 = kdirs kern_as" "2 \<le> length xs"
      "\<forall>d\<in>kdirs kern_as. \<forall>n<UPG. amap (kvm k1) d n = (if d = 1 \<and> n = 2048 then page2pa 2 OR 7 OR PTE_P else 0)"
    by (auto simp: kern_as_kas(3) vpn_example(1))
  have ids: "envid2env x True k1 = envid2env x True kern_as" for x unfolding envid2env_def k1(4,5) ..
  have am: "amap (kvm k1) 1 2048 = page2pa 2 OR 7 OR PTE_P" using k1(8) example_ok(5) by (simp add: kern_as_dirs)
  have pm: "(7 :: u32) AND NOT 0xFFF = 0" by simp
  note ne = new_entry [of 2 7, OF _ _ pm]
  have m1: "maps (kvm k1) (kdirs k1) 2 = {(1, 2048)}"
    using k1(8) am ne example_ok(5) unfolding k1(6) by (auto simp: maps_def kern_as_dirs split: if_splits)
  have h: "envid2env 0 True k1 = Some (0, Some 0)" "env_pgdir (envs k1 0) = Some (1 * 4096)"
    "envid2env 0x1001 True k1 = Some (0, Some 1)" "env_pgdir (envs k1 1) = Some (4 * 4096)"
    using kern_as_envs ids k1(4) by simp_all
  have nz: "amap (kvm k1) 1 (vpn 0x800000) \<noteq> 0" using am ne(2) vpn_example(1) by simp
  have c: "card (maps (kvm k1) (kdirs k1) (pa2page (amap (kvm k1) 1 (vpn 0x800000)))) + 1 < 65536"
    using am ne(1) m1 vpn_example(1) by simp
  have "\<not> (pde (kvm k1) 4 (vpn 0x801000 div 1024) = 0 \<and> xs = [])" using k1(7) by auto
  with sys_page_map_isolated [OF k1(2,3) h example_ok(1,2,3) nz c] obtain k2 where
    "sys_page_map 0 0x800000 0x1001 0x801000 7 k1 = Ret 0 k2"
    "\<forall>d\<in>kdirs k1. \<forall>n<UPG. amap (kvm k2) d n = (if d = 4 \<and> n = vpn 0x801000
        then page2pa (pa2page (amap (kvm k1) 1 (vpn 0x800000))) OR 7 OR PTE_P else amap (kvm k1) d n)"
    by (simp only: if_False) blast
  then show ?thesis
    using k1(1,6) am ne(1) example_ok(4,5,6) vpn_example(1) by (auto simp: kern_as_dirs)
qed

text \<open>The running environment has page 5 mapped writable at address \<open>0x800000\<close>, through the table in page 9.\<close>

definition kern_user :: kern where
  "kern_user = kern_as\<lparr>kvm := vm_dir\<lparr>pmem := set32 (1 * 4096 + 4 * 2) 0x9007 (set32 (9 * 4096 + 4 * 0) 0x5007 (\<lambda>_. 0)),
     pp_ref := (\<lambda>_. 0)(5 := 1, 9 := 1)\<rparr>\<rparr>"

lemma kern_user_ent:
  "j < 1024 \<Longrightarrow> ent (pmem (kvm kern_user)) q j = (if q = 1 \<and> j = 2 then 0x9007 else if q = 9 \<and> j = 0 then 0x5007 else 0)"
proof -
  assume "j < 1024"
  moreover have "ent (\<lambda>_. 0) q j = 0" by (simp add: ent_def get32_def get16_def)
  moreover have "pmem (kvm kern_user) = set32 (1 * 4096 + 4 * 2) 0x9007 (set32 (9 * 4096 + 4 * 0) 0x5007 (\<lambda>_. 0))"
    by (simp add: kern_user_def)
  ultimately show ?thesis by (simp only: ent_set numeral_less_iff rel_simps if_cancel)
qed

lemma kern_user_map:
  "d \<in> {1, 4} \<Longrightarrow> i < UPD \<Longrightarrow> pde (kvm kern_user) d i = (if d = 1 \<and> i = 2 then 0x9007 else 0)"
  "d \<in> {1, 4} \<Longrightarrow> n < UPG \<Longrightarrow> amap (kvm kern_user) d n = (if d = 1 \<and> n = 2048 then 0x5007 else 0)"
proof -
  show p: "pde (kvm kern_user) d i = (if d = 1 \<and> i = 2 then 0x9007 else 0)" if "d \<in> {1, 4}" "i < UPD" for d i
    using that kern_user_ent [OF UPD_less [OF that(2)], of d] by (auto simp: pde_def)
  have n: "n div 1024 = 2 \<and> n mod 1024 = 0 \<longleftrightarrow> n = 2048" by auto
  have pg: "pa2page 0x9007 = 9" by (simp add: pa2page_def unat_PGNUM)
  show "amap (kvm kern_user) d n = (if d = 1 \<and> n = 2048 then 0x5007 else 0)" if "d \<in> {1, 4}" "n < UPG"
    using that p [OF that(1) UPG_div [OF that(2)]] kern_user_ent [of "n mod 1024" 9] n pg
    by (auto simp: amap_def)
qed

lemma kern_user_kas: "kas kern_user [2, 3]" "kdirs kern_user = {1, 4}"
proof -
  show k: "kdirs kern_user = {1, 4}" using kern_as_dirs by (simp add: kdirs_def kern_user_def)
  have pg: "pa2page 0x9007 = 9" "pa2page 0x5007 = 5" by (simp_all add: pa2page_def unat_PGNUM)
  have u: "2 < UPD" "2048 < UPG" by (simp_all add: UPG_def UPD_def)
  have p2: "pde (kvm kern_user) 1 2 = 0x9007" using kern_user_map(1) [of 1 2] u(1) by simp
  have "9 \<in> tables (kvm kern_user) {1, 4}" using tablesI [of 1 "{1, 4}" 2 "kvm kern_user"] u(1) p2 pg by simp
  moreover have "tables (kvm kern_user) {1, 4} \<subseteq> {9}"
    using kern_user_map(1) pg by (auto simp: tables_def split: if_splits)
  ultimately have t: "tables (kvm kern_user) {1, 4} = {9}" by blast
  have m: "maps (kvm kern_user) {1, 4} p = (if p = 5 then {(1, 2048)} else {})" for p
    using u(2) kern_user_map(2) pg by (auto simp: maps_def split: if_splits)
  have f: "npages (kvm kern_user) = 16" "pp_ref (kvm kern_user) = (\<lambda>_. 0)(5 := 1, 9 := 1)" "pp_link (kvm kern_user) = [2 \<mapsto> 3]"
    "page_free_list (kvm kern_user) = Some 2" using vm_dir_fields by (simp_all add: kern_user_def)
  show "kas kern_user [2, 3]"
    unfolding kas_def k as_inv_def spare_def t m f free_pages_def
    using pg by (auto simp: kern_user_map split: if_splits)
qed

theorem user_store_isolated_witness:
  "\<exists>m. vstore 4096 0x800000 [9] (pmem (kvm kern_user)) = Some m \<and> m (5 * 4096) = 9
     \<and> kas (kern_user\<lparr>kvm := (kvm kern_user)\<lparr>pmem := m\<rparr>\<rparr>) [2, 3] \<and> m (6 * 4096) = pmem (kvm kern_user) (6 * 4096)"
proof -
  have e: "env_status (envs kern_user 0) \<noteq> ENV_FREE" "env_pgdir (envs kern_user 0) = Some (1 * 4096)"
    by (simp_all add: kern_user_def kern_as_def kern_two_def zero_env_def)
  have a: "get32 (pmem (kvm kern_user)) 4104 = 0x9007" "get32 (pmem (kvm kern_user)) 36864 = 0x5007"
    using kern_user_ent [of 2 1] kern_user_ent [of 0 9] by (simp_all add: ent_def)
  have "pde_addr 4096 0x800000 = 4104" "pte_addr 0x9007 0x800000 = 36864"
    by (simp_all add: pde_addr_def pte_addr_def unat_PDX unat_PTX PTE_ADDR_def)
  then have "translate 4096 True 0x800000 (pmem (kvm kern_user)) = Some (5 * 4096)"
    by (simp add: translate_def Let_def a PTE_P_def PTE_W_def PTE_ADDR_def PGOFF_def)
  then obtain m where m: "vstore 4096 0x800000 [9] (pmem (kvm kern_user)) = Some m" "m (5 * 4096) = 9" by simp
  have am: "\<forall>n<UPG. amap (kvm kern_user) 1 n AND PTE_W \<noteq> 0 \<longrightarrow> pa2page (amap (kvm kern_user) 1 n) \<noteq> 6 * 4096 div 4096"
    using kern_user_map(2) [of 1] by (auto simp: pa2page_def unat_PGNUM)
  have "unat (0x800000 :: u32) + length [9 :: u8] \<le> unat UTOP" by (simp add: mmu_consts)
  from user_store_isolated [OF kern_user_kas(1) e this, of m] m am show ?thesis by auto
qed

end
