(* ===== verification/KernMem.thy ===== *)
theory KernMem
  imports MemCalls
begin

text \<open>
  The memory of the whole kernel: the invariant of \<open>AddrSpace\<close> for the directories of all environments,
  together with what \<open>env_setup_vm\<close> establishes for each of them.  The kernel's own directory is a page
  that is never mapped or free and has no user entries; every directory maps itself at \<open>UVPT\<close>; every
  entry for a page table has the flags \<open>pgdir_walk\<close> gives it.

  Lemmas: the system calls on pages and \<open>sys_exofork\<close> keep the invariant, with what they change.
\<close>

section \<open>The invariant\<close>

text \<open>The index of \<open>UVPT\<close> in a directory.\<close>

definition UVPDX :: nat where "UVPDX = 957"

lemma UVPDX_eq: "unat (PDX UVPT) = UVPDX" "UPD \<le> UVPDX" "UVPDX < 1024"
  by (simp_all add: unat_PDX mmu_consts UVPDX_def UPD_def)

definition ms_inv :: "vm \<Rightarrow> nat set \<Rightarrow> nat list \<Rightarrow> bool" where
  "ms_inv s D xs \<longleftrightarrow>
     as_inv s D xs
     \<and> (\<exists>kd. kern_pgdir s = kd * 4096 \<and> spare s D kd \<and> kd \<notin> set xs \<and> maps s D kd = {} \<and> (\<forall>i<UPD. ent (pmem s) kd i = 0))
     \<and> (\<forall>d\<in>D. pde s d UVPDX = page2pa d OR PTE_P OR PTE_U)
     \<and> (\<forall>d\<in>D. \<forall>i<UPD. pde s d i \<noteq> 0 \<longrightarrow> pde s d i AND 7 = 7)"

lemma ms_invD:
  assumes "ms_inv s D xs"
  shows "as_inv s D xs" "d \<in> D \<Longrightarrow> pde s d UVPDX = page2pa d OR PTE_P OR PTE_U"
    "d \<in> D \<Longrightarrow> i < UPD \<Longrightarrow> pde s d i \<noteq> 0 \<Longrightarrow> pde s d i AND 7 = 7"
  using assms by (auto simp: ms_inv_def)

lemma ms_inv_kdir:
  assumes "ms_inv s D xs"
  obtains kd where "kern_pgdir s = kd * 4096" "spare s D kd" "kd \<notin> set xs" "maps s D kd = {}" "\<forall>i<UPD. ent (pmem s) kd i = 0"
  using assms by (auto simp: ms_inv_def)

lemma ent_page: "\<forall>j<4096. m' (q * 4096 + j) = m (q * 4096 + j) \<Longrightarrow> i < 1024 \<Longrightarrow> ent m' q i = ent m q i"
  unfolding ent_def by (rule get32_cong) (simp add: add.assoc)

lemma new_pde_flags: "new_pde t AND 7 = 7"
proof -
  have "new_pde t = page2pa t OR mask 3" by (simp add: new_pde_def mmu_consts mask_eq_exp_minus_1)
  moreover have "(7 :: u32) = mask 3" by (simp add: mask_eq_exp_minus_1)
  moreover have "(x OR mask 3) AND mask 3 = mask 3" for x :: u32 by (rule bit_word_eqI) (auto simp: bit_simps)
  ultimately show ?thesis by metis
qed

text \<open>What a step has to keep.\<close>

lemma ms_step:
  assumes "ms_inv s D xs" "as_inv s' D xs'" "kern_pgdir s' = kern_pgdir s"
    and "\<forall>d\<in>D. \<forall>i<1024. UPD \<le> i \<longrightarrow> pde s' d i = pde s d i"
    and "\<forall>d\<in>D. \<forall>i<UPD. pde s' d i = pde s d i \<or> pde s d i = 0 \<and> (\<exists>t. pde s' d i = new_pde t)"
    and "\<And>kd. \<lbrakk>kern_pgdir s = kd * 4096; spare s D kd; kd \<notin> set xs; maps s D kd = {}\<rbrakk> \<Longrightarrow>
      spare s' D kd \<and> kd \<notin> set xs' \<and> maps s' D kd = {} \<and> (\<forall>j<4096. pmem s' (kd * 4096 + j) = pmem s (kd * 4096 + j))"
  shows "ms_inv s' D xs'"
proof -
  from ms_inv_kdir [OF assms(1)] obtain kd where
    kd: "kern_pgdir s = kd * 4096" "spare s D kd" "kd \<notin> set xs" "maps s D kd = {}" "\<forall>i<UPD. ent (pmem s) kd i = 0" by blast
  note K = assms(6) [OF kd(1-4)]
  have "\<forall>i<UPD. ent (pmem s') kd i = 0" using kd(5) ent_page [of "pmem s'" kd "pmem s"] K UPD_less by simp
  moreover have "\<forall>d\<in>D. pde s' d UVPDX = page2pa d OR PTE_P OR PTE_U"
    using ms_invD(2) [OF assms(1)] assms(4) UVPDX_eq(2,3) by simp
  moreover have "pde s' d i AND 7 = 7" if "d \<in> D" "i < UPD" "pde s' d i \<noteq> 0" for d i
    using ms_invD(3) [OF assms(1) that(1,2)] assms(5) that new_pde_flags by metis
  ultimately show ?thesis
    unfolding ms_inv_def using assms(2,3) kd(1) K by (intro conjI exI [of _ kd] ballI allI impI) auto
qed

text \<open>Pages outside the tables keep their contents, and tables stay tables.\<close>

definition kept :: "nat set \<Rightarrow> vm \<Rightarrow> vm \<Rightarrow> bool" where
  "kept D s s' \<longleftrightarrow> (\<forall>q. spare s' D q \<longrightarrow> spare s D q \<and> (\<forall>j<4096. pmem s' (q * 4096 + j) = pmem s (q * 4096 + j)))"

lemma kept_refl [simp]: "kept D s s"
  by (simp add: kept_def)

lemma kept_trans: "kept D s s' \<Longrightarrow> kept D s' s'' \<Longrightarrow> kept D s s''"
  unfolding kept_def by metis

lemma spare_mono:
  assumes "\<forall>d\<in>D. \<forall>i<UPD. pde s' d i = pde s d i \<or> pde s d i = 0 \<and> (\<exists>t. pde s' d i = new_pde t)" "npages s' = npages s" "spare s' D q"
  shows "spare s D q"
proof -
  have "tables s D \<subseteq> tables s' D"
  proof
    fix t assume "t \<in> tables s D"
    then obtain d i where t: "t = pa2page (pde s d i)" "d \<in> D" "i < UPD" "pde s d i \<noteq> 0" by (auto simp: tables_def)
    then have "pde s' d i = pde s d i" using assms(1) by blast
    then show "t \<in> tables s' D" using t tablesI [of d D i s'] by simp
  qed
  then show ?thesis using assms(2,3) by (auto simp: spare_def)
qed

lemma kern_pgdir_kept:
  "kern_pgdir (snd (page_alloc f s)) = kern_pgdir s" "kern_pgdir (snd (pgdir_walk g va c s)) = kern_pgdir s"
  "page_free p s = Some s' \<Longrightarrow> kern_pgdir s' = kern_pgdir s" "page_decref p s = Some s' \<Longrightarrow> kern_pgdir s' = kern_pgdir s"
  "page_remove g va s = Some s' \<Longrightarrow> kern_pgdir s' = kern_pgdir s"
  "page_insert g p va perm s = Some (r, s') \<Longrightarrow> kern_pgdir s' = kern_pgdir s"
proof -
  show a: "kern_pgdir (snd (page_alloc f s)) = kern_pgdir s" for f s
    by (simp add: page_alloc_def Let_def split: option.splits)
  show w: "kern_pgdir (snd (pgdir_walk g va c s)) = kern_pgdir s" for g va c s
    using a [of 1 s] by (auto simp: pgdir_walk_def Let_def split: prod.splits option.splits)
  show f: "page_free p s = Some s' \<Longrightarrow> kern_pgdir s' = kern_pgdir s" for p s s'
    by (auto simp: page_free_def split: if_splits)
  show d: "page_decref p s = Some s' \<Longrightarrow> kern_pgdir s' = kern_pgdir s" for p s s'
    using f by (fastforce simp: page_decref_def Let_def split: if_splits)
  have l: "kern_pgdir (snd (page_lookup g va s)) = kern_pgdir s" for g va s
    using w [of g va False s] by (auto simp: page_lookup_def split: prod.splits option.splits)
  have tl: "kern_pgdir (tlb_invalidate g va s) = kern_pgdir s" for g va s by (simp add: tlb_invalidate_def)
  show r: "page_remove g va s = Some s' \<Longrightarrow> kern_pgdir s' = kern_pgdir s" for g va s s'
    using l [of g va s] d tl by (auto simp: page_remove_def bind_eq_Some_conv split: prod.splits option.splits)
  show "page_insert g p va perm s = Some (r, s') \<Longrightarrow> kern_pgdir s' = kern_pgdir s"
    using w [of g va True s] r tl
    by (auto simp: page_insert_def Let_def bind_eq_Some_conv split: prod.splits option.splits if_splits)
qed

section \<open>The operations\<close>

lemma page_insert_ms:
  assumes ms: "ms_inv s D xs" and d: "d \<in> D" "va < UTOP"
    and pp: "spare s D pp" "pp \<notin> set xs" "unat (pp_ref s pp) = card (maps s D pp)" "card (maps s D pp) + 1 < 65536"
    and perm: "perm AND NOT 0xFFF = 0" and kp: "kern_pgdir s \<noteq> pp * 4096"
    and room: "pde s d (vpn va div 1024) \<noteq> 0 \<or> xs \<noteq> []"
  shows "\<exists>s' xs'. page_insert (d * 4096) pp va perm s = Some (0, s') \<and> ms_inv s' D xs' \<and> kept D s s'
     \<and> length xs \<le> Suc (length xs') \<and> (pde s d (vpn va div 1024) \<noteq> 0 \<longrightarrow> length xs \<le> length xs')
     \<and> (\<forall>d'\<in>D. \<forall>n<UPG. amap s' d' n = (if d' = d \<and> n = vpn va then page2pa pp OR perm OR PTE_P else amap s d' n))
     \<and> (\<forall>d'\<in>D. \<forall>i<UPD. (pde s' d' i \<noteq> 0) = (pde s d' i \<noteq> 0 \<or> d' = d \<and> i = vpn va div 1024)) \<and> npages s' = npages s"
proof -
  note inv = ms_invD(1) [OF ms] and n = vpn_user [OF d(2)]
  let ?p = "pa2page (amap s d (vpn va))" and ?us = "if pde s d (vpn va div 1024) = 0 then tl xs else xs"
  let ?ys = "if amap s d (vpn va) \<noteq> 0 \<and> ?p \<noteq> pp \<and> pp_ref s ?p = 1 then ?p # ?us else ?us"
  have nf: "\<not> (pde s d (vpn va div 1024) = 0 \<and> xs = [])" using room by auto
  from page_insert_inv [OF inv d pp perm] nf obtain s' where
    s': "page_insert (d * 4096) pp va perm s = Some (0, s')" "as_inv s' D ?ys"
      "\<forall>d'\<in>D. \<forall>n<UPG. amap s' d' n = (if d' = d \<and> n = vpn va then page2pa pp OR perm OR PTE_P else amap s d' n)"
      "\<forall>d'\<in>D. \<forall>i<UPD. (pde s' d' i \<noteq> 0) = (pde s d' i \<noteq> 0 \<or> d' = d \<and> i = vpn va div 1024)" "npages s' = npages s"
      "\<forall>d'\<in>D. \<forall>i<1024. UPD \<le> i \<longrightarrow> pde s' d' i = pde s d' i"
      "\<forall>d'\<in>D. \<forall>i<UPD. pde s' d' i = pde s d' i \<or> pde s d' i = 0 \<and> (\<exists>t. pde s' d' i = new_pde t)"
      "\<forall>q. spare s D q \<and> q \<notin> set xs \<longrightarrow> spare s' D q"
      "\<forall>q j. spare s' D q \<and> j < 4096 \<longrightarrow> pmem s' (q * 4096 + j) = pmem s (q * 4096 + j)"
    by (simp only: if_False) blast
  have ppb: "pp < 1048576" "pp \<noteq> 0" using pp(1) as_invD(1) [OF inv] by (auto simp: spare_def)
  note e = new_entry [OF ppb perm]
  have mp: "maps s' D q = maps s D q - {(d, vpn va)} \<union> (if pp = q then {(d, vpn va)} else {})" for q
    using maps_upd [of d D "vpn va" s' _ s q, OF d(1) n] s'(3) e by simp
  have "ms_inv s' D ?ys"
  proof (rule ms_step [OF ms s'(2) kern_pgdir_kept(6) [OF s'(1)] s'(6,7)])
    fix kd assume kd: "kern_pgdir s = kd * 4096" "spare s D kd" "kd \<notin> set xs" "maps s D kd = {}"
    have "kd \<noteq> pp" using kd(1) kp by auto
    moreover have "kd \<noteq> ?p" if "amap s d (vpn va) \<noteq> 0" using mapped_spare(4) [OF inv d(1) n that] kd(4) by auto
    moreover have "kd \<notin> set (tl xs)" using kd(3) by (cases xs) auto
    ultimately show "spare s' D kd \<and> kd \<notin> set ?ys \<and> maps s' D kd = {} \<and> (\<forall>j<4096. pmem s' (kd * 4096 + j) = pmem s (kd * 4096 + j))"
      using kd(2,3,4) s'(8,9) mp [of kd] by auto
  qed
  moreover have "kept D s s'" unfolding kept_def using s'(9) spare_mono [OF s'(7,5)] by blast
  moreover have "length xs \<le> Suc (length ?ys)" "pde s d (vpn va div 1024) \<noteq> 0 \<longrightarrow> length xs \<le> length ?ys" by auto
  ultimately show ?thesis using s'(1,3,4,5) by blast
qed

lemma page_alloc_ms:
  assumes ms: "ms_inv s D (p # xs)"
  shows "\<exists>s'. page_alloc ALLOC_ZERO s = (Some p, s') \<and> ms_inv s' D xs \<and> (\<forall>d\<in>D. \<forall>n<UPG. amap s' d n = amap s d n)
     \<and> (\<forall>d\<in>D. \<forall>i<UPD. pde s' d i = pde s d i) \<and> spare s' D p \<and> p \<notin> set xs \<and> pp_ref s' p = 0 \<and> maps s' D p = {}
     \<and> kern_pgdir s' \<noteq> p * 4096 \<and> npages s' = npages s \<and> (\<forall>j<4096. pmem s' (p * 4096 + j) = 0)
     \<and> (\<forall>q j. q \<noteq> p \<and> j < 4096 \<longrightarrow> pmem s' (q * 4096 + j) = pmem s (q * 4096 + j))"
proof -
  note inv = ms_invD(1) [OF ms]
  from page_alloc_inv [OF inv, of ALLOC_ZERO] obtain v where
    v: "page_alloc ALLOC_ZERO s = (Some p, v)" "as_inv v D xs" "\<forall>d\<in>D. \<forall>n<UPG. amap v d n = amap s d n"
      "\<forall>d\<in>D. \<forall>i<UPD. pde v d i = pde s d i" "spare v D p" "p \<notin> set xs" "pp_ref v p = 0" "maps v D p = {}" "npages v = npages s"
      "\<forall>j<4096. pmem v (p * 4096 + j) = 0" "\<forall>q j. q \<noteq> p \<and> j < 4096 \<longrightarrow> pmem v (q * 4096 + j) = pmem s (q * 4096 + j)"
    by (auto simp: ALLOC_ZERO_def)
  have kp: "kern_pgdir v = kern_pgdir s" using kern_pgdir_kept(1) [of ALLOC_ZERO s] v(1) by simp
  have up: "pde v d i = pde s d i" if "d \<in> D" "i < 1024" for d i
  proof -
    have "d \<noteq> p" using v(5) that(1) by (auto simp: spare_def)
    then show ?thesis using ent_page [of "pmem v" d "pmem s" i] v(11) that(2) by (simp add: pde_def)
  qed
  have sh: "maps v D q = maps s D q" "spare v D q = spare s D q" for q
    using same_shape(2,3) [of D v s q] v(3,4,9) by simp_all
  have "ms_inv v D xs"
  proof (rule ms_step [OF ms v(2) kp])
    show "\<forall>d\<in>D. \<forall>i<1024. UPD \<le> i \<longrightarrow> pde v d i = pde s d i" using up by blast
    show "\<forall>d\<in>D. \<forall>i<UPD. pde v d i = pde s d i \<or> pde s d i = 0 \<and> (\<exists>t. pde v d i = new_pde t)" using v(4) by blast
  qed (use v(11) sh in auto)
  moreover have "kern_pgdir v \<noteq> p * 4096" using ms_inv_kdir [OF ms] kp by (metis list.set_intros(1) mult_right_cancel zero_neq_numeral)
  ultimately show ?thesis using v by blast
qed

section \<open>A new directory\<close>

lemma setup_ent:
  assumes "p < 1048576" "kd \<noteq> p" "i < 1024"
  shows "ent (setup_mem p (kd * 4096) m) p i = (if i = UVPDX then page2pa p OR PTE_P OR PTE_U else ent m kd i)"
proof -
  define va :: u32 where "va = of_nat (i * 4194304)"
  have "unat va = i * 4194304" unfolding va_def unat_of_nat using assms(3) by simp
  then have x: "unat (PDX va) = i" using assms(3) by (simp add: unat_PDX)
  then have "PDX va = PDX UVPT \<longleftrightarrow> i = UVPDX" using UVPDX_eq(1) by (metis word_unat_eq_iff)
  moreover have "of_nat (unat (page2pa p)) = page2pa p" by simp
  then have "(of_nat (p * 4096) :: u32) = page2pa p" unfolding page2pa_nat [OF assms(1)] .
  ultimately show ?thesis
    using setup_mem_pde [of "kd * 4096" p m va] assms(1,2) by (simp add: page2pa_nat pde_addr_def x ent_def)
qed

lemma setup_other:
  assumes "p < 1048576" "q \<noteq> p" "j < 4096"
  shows "setup_mem p kd m (q * 4096 + j) = m (q * 4096 + j)"
proof -
  have "q * 4096 + 4096 \<le> p * 4096 \<or> p * 4096 + 4096 \<le> q * 4096"
    using pages_apart [of "q * 4096" "p * 4096"] assms(2) by simp
  then show ?thesis
    using assms index_bounds(1) [of UVPT]
    by (auto simp: setup_mem_def Let_def pde_addr_def zero_page_def page2pa_nat set32_other set_bytes_outside)
qed

lemma new_dir_ms:
  assumes ms: "ms_inv s D (p # xs)"
    and m: "pmem s' = setup_mem p (kern_pgdir s) (pmem s)" and kp: "kern_pgdir s' = kern_pgdir s"
    and f: "npages s' = npages s" "page_free_list s' = pp_link s p" "pp_link s' = (pp_link s)(p := None)" "pp_ref s' = (pp_ref s)(p := v)"
  shows "ms_inv s' (insert p D) xs" "p \<notin> D" "\<And>i. i < UPD \<Longrightarrow> pde s' p i = 0" "\<And>n. n < UPG \<Longrightarrow> amap s' p n = 0"
    "\<And>d i. d \<in> D \<Longrightarrow> i < 1024 \<Longrightarrow> pde s' d i = pde s d i" "\<And>d n. d \<in> D \<Longrightarrow> n < UPG \<Longrightarrow> amap s' d n = amap s d n"
    "\<And>q. spare s' (insert p D) q \<Longrightarrow> spare s D q \<and> (\<forall>j<4096. pmem s' (q * 4096 + j) = pmem s (q * 4096 + j))"
    "\<And>q. maps s' (insert p D) q = maps s D q"
proof -
  note inv = ms_invD(1) [OF ms]
  from ms_inv_kdir [OF ms] obtain kd where
    kd: "kern_pgdir s = kd * 4096" "spare s D kd" "kd \<notin> set (p # xs)" "maps s D kd = {}" "\<forall>i<UPD. ent (pmem s) kd i = 0" by blast
  have p: "spare s D p" "maps s D p = {}" "p < 1048576" "p \<noteq> 0" "p < npages s" "p \<notin> tables s D" "p \<notin> set xs"
    using as_invD(1,6) [OF inv] as_invD(7) [OF inv, of p] by (auto simp: spare_def free_pages_def)
  show pD: "p \<notin> D" using p(1) by (simp add: spare_def)
  have oth: "pmem s' (q * 4096 + j) = pmem s (q * 4096 + j)" if "q \<noteq> p" "j < 4096" for q j
    unfolding m by (rule setup_other [OF p(3) that])
  have e: "ent (pmem s') q i = ent (pmem s) q i" if "q \<noteq> p" "i < 1024" for q i
    using ent_page [of "pmem s'" q "pmem s" i] oth [OF that(1)] that(2) by blast
  have ep: "ent (pmem s') p i = (if i = UVPDX then page2pa p OR PTE_P OR PTE_U else ent (pmem s) kd i)" if "i < 1024" for i
    unfolding m kd(1) using setup_ent [OF p(3) _ that] kd(3) by auto
  show pz: "pde s' p i = 0" if "i < UPD" for i
    using ep [OF UPD_less [OF that]] kd(5) that UVPDX_eq(2) by (auto simp: pde_def)
  show az: "amap s' p n = 0" if "n < UPG" for n using pz [OF UPG_div [OF that]] by (simp add: amap_def)
  show pd: "pde s' d i = pde s d i" if "d \<in> D" "i < 1024" for d i
    using e [of d i] that pD by (auto simp: pde_def)
  have e': "ent (pmem s') q j = ent (pmem s) q j" if "q \<in> D \<union> tables s D" "j < 1024" for q j
    using e [OF _ that(2), of q] that(1) pD p(6) by auto
  note st = same_tables [of D s s', OF e']
  show am: "amap s' d n = amap s d n" if "d \<in> D" "n < UPG" for d n using st(2) that by blast
  have tb: "tables s' (insert p D) = tables s D"
    unfolding tables_def using pz pd UPD_less by (auto split: if_splits) metis+
  show mp: "maps s' (insert p D) q = maps s D q" for q using az am by (auto simp: maps_def)
  have sp: "spare s' (insert p D) q \<longleftrightarrow> spare s D q \<and> q \<noteq> p" for q by (auto simp: spare_def tb f(1))
  show "spare s D q \<and> (\<forall>j<4096. pmem s' (q * 4096 + j) = pmem s (q * 4096 + j))" if "spare s' (insert p D) q" for q
    using that sp oth by blast
  have "as_inv s' (insert p D) xs"
    unfolding as_inv_def
  proof (intro conjI)
    show "finite (insert p D)" "npages s' \<le> 1048576" "\<forall>d\<in>insert p D. d < npages s'" using as_invD(1,2,3) [OF inv] f(1) p(5) by auto
    show "\<forall>d\<in>insert p D. \<forall>i<UPD. pde s' d i \<noteq> 0 \<longrightarrow> pa2page (pde s' d i) < npages s' \<and> pa2page (pde s' d i) \<notin> insert p D"
      using as_invD(4) [OF inv] pz pd UPD_less f(1) tablesI [of _ D _ s] p(6) by (auto simp: UPD_less)
    show "\<forall>d\<in>insert p D. \<forall>i<UPD. \<forall>d'\<in>insert p D. \<forall>i'<UPD.
        pde s' d i \<noteq> 0 \<and> pde s' d' i' \<noteq> 0 \<and> pa2page (pde s' d i) = pa2page (pde s' d' i') \<longrightarrow> d = d' \<and> i = i'"
      using as_invD(5) [OF inv] pz pd UPD_less by simp
    show "free_pages s' xs" by (rule free_pages_pop [OF as_invD(6) [OF inv] f(2,3)])
    show "\<forall>q\<in>set xs. spare s' (insert p D) q \<and> pp_ref s' q = 0 \<and> maps s' (insert p D) q = {}"
      using as_invD(7) [OF inv] p(7) by (auto simp: sp mp f(4))
    show "\<forall>q<npages s'. q \<notin> set xs \<longrightarrow> pp_link s' q = None" using as_invD(8) [OF inv] by (auto simp: f)
    show "\<forall>q. maps s' (insert p D) q \<noteq> {} \<longrightarrow> spare s' (insert p D) q \<and> unat (pp_ref s' q) = card (maps s' (insert p D) q)"
      using as_invD(9) [OF inv] p(2) by (auto simp: sp mp f(4))
  qed
  moreover have "\<forall>d\<in>insert p D. pde s' d UVPDX = page2pa d OR PTE_P OR PTE_U"
    using ms_invD(2) [OF ms] pd UVPDX_eq(3) ep [OF UVPDX_eq(3)] by (auto simp: pde_def)
  moreover have "\<forall>d\<in>insert p D. \<forall>i<UPD. pde s' d i \<noteq> 0 \<longrightarrow> pde s' d i AND 7 = 7"
    using ms_invD(3) [OF ms] pd pz UPD_less by auto
  moreover have "\<forall>i<UPD. ent (pmem s') kd i = 0" using kd(3,5) e [of kd] UPD_less by auto
  ultimately show "ms_inv s' (insert p D) xs"
    unfolding ms_inv_def using kd(1,2,3,4) kp sp mp by (intro conjI exI [of _ kd]) auto
qed

section \<open>The system calls on pages\<close>

abbreviation kmem :: "kern \<Rightarrow> nat list \<Rightarrow> bool" where
  "kmem k \<equiv> ms_inv (kvm k) (kdirs k)"

lemma ms_vm [simp]:
  "ms_inv (vm_of k) = ms_inv (kvm k)" "ms_inv (kvm (put_vm v k)) = ms_inv v"
  "kept D (vm_of k) = kept D (kvm k)" "kept D s (kvm (put_vm v k)) = kept D s v" "kept D (kvm (put_vm v k)) = kept D v"
  by (simp_all add: ms_inv_def kept_def fun_eq_iff)

lemma kmem_kas: "kmem k xs \<Longrightarrow> kas k xs"
  by (simp add: ms_inv_def kas_def)

lemma kmem_pgdir: "kmem k xs \<Longrightarrow> maps (kvm k) (kdirs k) p \<noteq> {} \<or> p \<in> set xs \<Longrightarrow> kern_pgdir (kvm k) \<noteq> p * 4096"
  by (elim ms_inv_kdir) auto

lemma insert_in_ms:
  assumes "kmem k xs" "env_status (envs k e) \<noteq> ENV_FREE" "env_pgdir (envs k e) = Some (d * 4096)" "va_ok va" "perm_ok perm"
    and "spare (kvm k) (kdirs k) pp" "pp \<notin> set xs" "unat (pp_ref (kvm k) pp) = card (maps (kvm k) (kdirs k) pp)"
      "card (maps (kvm k) (kdirs k) pp) + 1 < 65536" "kern_pgdir (kvm k) \<noteq> pp * 4096"
      "pde (kvm k) d (vpn va div 1024) \<noteq> 0 \<or> xs \<noteq> []"
  shows "\<exists>v xs'. insert_in e pp va perm k = Some (0, put_vm v k) \<and> ms_inv v (kdirs k) xs' \<and> kept (kdirs k) (kvm k) v
     \<and> length xs \<le> Suc (length xs') \<and> (pde (kvm k) d (vpn va div 1024) \<noteq> 0 \<longrightarrow> length xs \<le> length xs')
     \<and> (\<forall>d'\<in>kdirs k. \<forall>n<UPG. amap v d' n = (if d' = d \<and> n = vpn va then page2pa pp OR perm OR PTE_P else amap (kvm k) d' n))
     \<and> (\<forall>d'\<in>kdirs k. \<forall>i<UPD. (pde v d' i \<noteq> 0) = (pde (kvm k) d' i \<noteq> 0 \<or> d' = d \<and> i = vpn va div 1024)) \<and> npages v = npages (kvm k)"
proof -
  have "ms_inv (vm_of k) (kdirs k) xs" "kern_pgdir (vm_of k) \<noteq> pp * 4096"
    "spare (vm_of k) (kdirs k) pp" "unat (pp_ref (vm_of k) pp) = card (maps (vm_of k) (kdirs k) pp)"
    "card (maps (vm_of k) (kdirs k) pp) + 1 < 65536" "pde (vm_of k) d (vpn va div 1024) \<noteq> 0 \<or> xs \<noteq> []" using assms by simp_all
  note P = page_insert_ms [OF this(1) kdirsI [OF assms(2,3)] va_okD [OF assms(4)] this(3) assms(7) this(4,5)
      perm_okD [OF assms(5)] this(2,6)]
  then obtain v xs' where "page_insert (d * 4096) pp va perm (vm_of k) = Some (0, v)" and v: "ms_inv v (kdirs k) xs'" "kept (kdirs k) (kvm k) v"
    "length xs \<le> Suc (length xs')" "pde (kvm k) d (vpn va div 1024) \<noteq> 0 \<longrightarrow> length xs \<le> length xs'"
    "\<forall>d'\<in>kdirs k. \<forall>n<UPG. amap v d' n = (if d' = d \<and> n = vpn va then page2pa pp OR perm OR PTE_P else amap (kvm k) d' n)"
    "\<forall>d'\<in>kdirs k. \<forall>i<UPD. (pde v d' i \<noteq> 0) = (pde (kvm k) d' i \<noteq> 0 \<or> d' = d \<and> i = vpn va div 1024)" "npages v = npages (kvm k)"
    unfolding as_vm_of vm_of_fields ms_vm by blast
  then have "insert_in e pp va perm k = Some (0, put_vm v k)" using assms(3) by (simp add: insert_in_def)
  with v show ?thesis by blast
qed

lemma sys_page_map_ms:
  assumes "kinv k" "kmem k xs"
    and "envid2env srcid True k = Some (0, Some src)" "env_pgdir (envs k src) = Some (ds * 4096)"
    and "envid2env dstid True k = Some (0, Some dst)" "env_pgdir (envs k dst) = Some (dd * 4096)"
    and "va_ok srcva" "va_ok dstva" "perm_ok perm" "amap (kvm k) ds (vpn srcva) \<noteq> 0"
    and "card (maps (kvm k) (kdirs k) (pa2page (amap (kvm k) ds (vpn srcva)))) + 1 < 65536"
    and "pde (kvm k) dd (vpn dstva div 1024) \<noteq> 0 \<or> xs \<noteq> []"
  shows "\<exists>v xs'. sys_page_map srcid srcva dstid dstva perm k = Ret 0 (put_vm v k) \<and> ms_inv v (kdirs k) xs' \<and> kept (kdirs k) (kvm k) v
     \<and> length xs \<le> Suc (length xs') \<and> (pde (kvm k) dd (vpn dstva div 1024) \<noteq> 0 \<longrightarrow> length xs \<le> length xs')
     \<and> (\<forall>d\<in>kdirs k. \<forall>n<UPG. amap v d n = (if d = dd \<and> n = vpn dstva
          then page2pa (pa2page (amap (kvm k) ds (vpn srcva))) OR perm OR PTE_P else amap (kvm k) d n))
     \<and> (\<forall>d\<in>kdirs k. \<forall>i<UPD. (pde v d i \<noteq> 0) = (pde (kvm k) d i \<noteq> 0 \<or> d = dd \<and> i = vpn dstva div 1024)) \<and> npages v = npages (kvm k)"
proof -
  note live = envid2env_live(2) [OF assms(1,3)] envid2env_live(2) [OF assms(1,5)]
  note M = mapped_spare [OF ms_invD(1) [OF assms(2)] kdirsI [OF live(1) assms(4)] vpn_user [OF va_okD [OF assms(7)]] assms(10)]
  have kp: "kern_pgdir (kvm k) \<noteq> pa2page (amap (kvm k) ds (vpn srcva)) * 4096" using kmem_pgdir [OF assms(2)] M(4) by blast
  from insert_in_ms [OF assms(2) live(2) assms(6,8,9) M(1,2,3) assms(11) kp assms(12)]
    sys_page_map_insert [OF assms(3,5,4,7,8,9,10)] show ?thesis by fastforce
qed

lemma sys_page_alloc_ms:
  assumes "kinv k" "kmem k (p # xs)" "envid2env envid True k = Some (0, Some e)" "env_pgdir (envs k e) = Some (d * 4096)"
    and "va_ok va" "perm_ok perm" "pde (kvm k) d (vpn va div 1024) \<noteq> 0 \<or> xs \<noteq> []"
  shows "\<exists>v xs'. sys_page_alloc envid va perm k = Ret 0 (put_vm v k) \<and> ms_inv v (kdirs k) xs'
     \<and> length xs \<le> Suc (length xs') \<and> (pde (kvm k) d (vpn va div 1024) \<noteq> 0 \<longrightarrow> length xs \<le> length xs')
     \<and> (\<forall>d'\<in>kdirs k. \<forall>n<UPG. amap v d' n = (if d' = d \<and> n = vpn va then page2pa p OR perm OR PTE_P else amap (kvm k) d' n))
     \<and> (\<forall>d'\<in>kdirs k. \<forall>i<UPD. (pde v d' i \<noteq> 0) = (pde (kvm k) d' i \<noteq> 0 \<or> d' = d \<and> i = vpn va div 1024)) \<and> npages v = npages (kvm k)
     \<and> (\<forall>j<4096. pmem v (p * 4096 + j) = 0) \<and> spare v (kdirs k) p
     \<and> (\<forall>q. spare v (kdirs k) q \<and> q \<noteq> p \<longrightarrow> spare (kvm k) (kdirs k) q \<and> (\<forall>j<4096. pmem v (q * 4096 + j) = pmem (kvm k) (q * 4096 + j)))"
proof -
  note live = envid2env_live(2) [OF assms(1,3)]
  note d = kdirsI [OF live assms(4)]
  have "ms_inv (vm_of k) (kdirs k) (p # xs)" using assms(2) by simp
  from page_alloc_ms [OF this] obtain v where
    v: "page_alloc ALLOC_ZERO (vm_of k) = (Some p, v)" "ms_inv v (kdirs k) xs" "\<forall>d\<in>kdirs k. \<forall>n<UPG. amap v d n = amap (kvm k) d n"
      "\<forall>d\<in>kdirs k. \<forall>i<UPD. pde v d i = pde (kvm k) d i" "spare v (kdirs k) p" "p \<notin> set xs" "pp_ref v p = 0" "maps v (kdirs k) p = {}"
      "kern_pgdir v \<noteq> p * 4096" "npages v = npages (kvm k)" "\<forall>j<4096. pmem v (p * 4096 + j) = 0"
      "\<forall>q j. q \<noteq> p \<and> j < 4096 \<longrightarrow> pmem v (q * 4096 + j) = pmem (kvm k) (q * 4096 + j)"
    by auto
  let ?k = "put_vm v k"
  have k1: "kmem ?k xs" "env_status (envs ?k e) \<noteq> ENV_FREE" "env_pgdir (envs ?k e) = Some (d * 4096)"
    "spare (kvm ?k) (kdirs ?k) p" "unat (pp_ref (kvm ?k) p) = card (maps (kvm ?k) (kdirs ?k) p)"
    "card (maps (kvm ?k) (kdirs ?k) p) + 1 < 65536" "kern_pgdir (kvm ?k) \<noteq> p * 4096" "pde (kvm ?k) d (vpn va div 1024) \<noteq> 0 \<or> xs \<noteq> []"
    using v live assms(4,7) d UPG_div [OF vpn_user [OF va_okD [OF assms(5)]]] by simp_all
  from insert_in_ms [OF k1(1-3) assms(5,6) k1(4) v(6) k1(5,6,7,8)] obtain w xs' where
    w: "insert_in e p va perm ?k = Some (0, put_vm w ?k)" "ms_inv w (kdirs k) xs'" "kept (kdirs k) v w" "length xs \<le> Suc (length xs')"
      "pde v d (vpn va div 1024) \<noteq> 0 \<longrightarrow> length xs \<le> length xs'" "npages w = npages v"
      "\<forall>d'\<in>kdirs k. \<forall>n<UPG. amap w d' n = (if d' = d \<and> n = vpn va then page2pa p OR perm OR PTE_P else amap v d' n)"
      "\<forall>d'\<in>kdirs k. \<forall>i<UPD. (pde w d' i \<noteq> 0) = (pde v d' i \<noteq> 0 \<or> d' = d \<and> i = vpn va div 1024)"
    unfolding put_vm_fields as_put_vm kdirs_put_vm ms_vm by auto
  have pp: "put_vm w ?k = put_vm w k" by (simp add: put_vm_def)
  have "sys_page_alloc envid va perm k = Ret 0 (put_vm w k)"
    using assms(3,5,6) v(1) w(1) by (simp add: sys_page_alloc_def with_env_def pp)
  have pb: "p < 1048576" "p \<noteq> 0" using v(5) as_invD(1) [OF ms_invD(1) [OF v(2)]] by (auto simp: spare_def)
  note n = vpn_user [OF va_okD [OF assms(5)]]
  have "amap w d (vpn va) = page2pa p OR perm OR PTE_P" using w(7) d n by simp
  then have sp: "spare w (kdirs k) p"
    using mapped_spare(1) [OF ms_invD(1) [OF w(2)] d n] new_entry [OF pb perm_okD [OF assms(6)]] by simp
  have sh: "spare v (kdirs k) q = spare (kvm k) (kdirs k) q" for q
    using same_shape(3) [of "kdirs k" v "kvm k"] v(3,4,10) by simp
  have "\<forall>j<4096. pmem w (p * 4096 + j) = 0" using w(3) sp v(11) by (simp add: kept_def)
  moreover have "spare (kvm k) (kdirs k) q \<and> (\<forall>j<4096. pmem w (q * 4096 + j) = pmem (kvm k) (q * 4096 + j))"
    if "spare w (kdirs k) q \<and> q \<noteq> p" for q using w(3) v(12) that sh [of q] by (simp add: kept_def)
  ultimately show ?thesis
    using \<open>sys_page_alloc envid va perm k = Ret 0 (put_vm w k)\<close> w(2,4,5,6,7,8) v(3,4,10) sp d UPG_div [OF n]
    by (intro exI [of _ w] exI [of _ xs'] conjI) auto
qed

lemma sys_page_unmap_ms:
  assumes "kinv k" "kmem k xs" "envid2env envid True k = Some (0, Some e)" "env_pgdir (envs k e) = Some (d * 4096)"
    and "va_ok va" "amap (kvm k) d (vpn va) \<noteq> 0"
  shows "\<exists>v xs'. sys_page_unmap envid va k = Ret 0 (put_vm v k) \<and> ms_inv v (kdirs k) xs' \<and> kept (kdirs k) (kvm k) v \<and> length xs \<le> length xs'
     \<and> (\<forall>d'\<in>kdirs k. \<forall>n<UPG. amap v d' n = (if d' = d \<and> n = vpn va then 0 else amap (kvm k) d' n))
     \<and> (\<forall>d'\<in>kdirs k. \<forall>i<UPD. pde v d' i = pde (kvm k) d' i) \<and> npages v = npages (kvm k)"
proof -
  note live = envid2env_live(2) [OF assms(1,3)]
  note d = kdirsI [OF live assms(4)] and n = vpn_user [OF va_okD [OF assms(5)]]
  let ?p = "pa2page (amap (kvm k) d (vpn va))"
  let ?ys = "if pp_ref (kvm k) ?p = 1 then ?p # xs else xs"
  have ms: "ms_inv (vm_of k) (kdirs k) xs" "amap (vm_of k) d (vpn va) \<noteq> 0" using assms(2,6) by simp_all
  from page_remove_inv [OF ms_invD(1) [OF ms(1)] d va_okD [OF assms(5)] ms(2)] obtain v where
    v: "page_remove (d * 4096) va (vm_of k) = Some v" "as_inv v (kdirs k) ?ys"
      "\<forall>d'\<in>kdirs k. \<forall>n<UPG. amap v d' n = (if d' = d \<and> n = vpn va then 0 else amap (kvm k) d' n)" "npages v = npages (kvm k)"
      "\<forall>d'\<in>kdirs k. \<forall>i<1024. pde v d' i = pde (kvm k) d' i" "\<forall>q. spare v (kdirs k) q = spare (kvm k) (kdirs k) q"
      "\<forall>q j. spare (kvm k) (kdirs k) q \<and> j < 4096 \<longrightarrow> pmem v (q * 4096 + j) = pmem (kvm k) (q * 4096 + j)"
    unfolding as_vm_of vm_of_fields by blast
  have mp: "maps v (kdirs k) q = maps (kvm k) (kdirs k) q - {(d, vpn va)}" for q
    using maps_upd [of d "kdirs k" "vpn va" v 0 "kvm k" q, OF d n] v(3) by simp
  have "ms_inv v (kdirs k) ?ys"
  proof (rule ms_step [OF assms(2) v(2)])
    show "kern_pgdir v = kern_pgdir (kvm k)" using kern_pgdir_kept(5) [OF v(1)] by simp
    fix kd assume kd: "kern_pgdir (kvm k) = kd * 4096" "spare (kvm k) (kdirs k) kd" "kd \<notin> set xs" "maps (kvm k) (kdirs k) kd = {}"
    have "kd \<noteq> ?p" using mapped_spare(4) [OF ms_invD(1) [OF assms(2)] d n assms(6)] kd(4) by auto
    then show "spare v (kdirs k) kd \<and> kd \<notin> set ?ys \<and> maps v (kdirs k) kd = {} \<and> (\<forall>j<4096. pmem v (kd * 4096 + j) = pmem (kvm k) (kd * 4096 + j))"
      using kd v(6,7) mp by auto
  qed (use v(5) UPD_less in auto)
  moreover have "kept (kdirs k) (kvm k) v" unfolding kept_def using v(6,7) by blast
  moreover have "sys_page_unmap envid va k = Ret 0 (put_vm v k)"
    using assms(3,4,5) v(1) by (simp add: sys_page_unmap_def with_env_def)
  moreover have "length xs \<le> length ?ys" by simp
  ultimately show ?thesis using v(3,4,5) UPD_less by (intro exI [of _ v] exI [of _ ?ys] conjI) auto
qed

section \<open>A new environment\<close>

lemma free_env_head:
  assumes "kinv k" "env_free_list k = Some e"
  shows "e < NENV" "env_status (envs k e) = ENV_FREE" "curenv k \<noteq> Some e"
proof -
  from assms(1) obtain xs where xs: "free_envs k xs" "\<forall>x\<in>set xs. x < NENV \<and> env_status (envs k x) = ENV_FREE"
    by (auto simp: kinv_def free_ok_def)
  then have "e \<in> set xs" using assms(2) by (cases xs) (auto simp: free_envs_def)
  then show e: "e < NENV" "env_status (envs k e) = ENV_FREE" using xs(2) by auto
  then show "curenv k \<noteq> Some e" using assms(1) by (auto simp: kinv_def)
qed

lemma exofork_ms:
  assumes "kinv k" "kmem k (p # xs)" "curenv k = Some c" "env_free_list k = Some e"
  shows "\<exists>k' child. sys_exofork k = Ret child k' \<and> kinv k' \<and> kmem k' xs \<and> kdirs k' = insert p (kdirs k) \<and> p \<notin> kdirs k \<and> e \<noteq> c
     \<and> 0 < sint child \<and> envid2env child True k' = Some (0, Some e) \<and> curenv k' = Some c \<and> cr3 k' = cr3 k
     \<and> env_pgdir (envs k' e) = Some (p * 4096) \<and> env_parent_id (envs k' e) = env_id (envs k c)
     \<and> env_tf (envs k' e) = (env_tf (envs k c))\<lparr>tf_regs := (tf_regs (env_tf (envs k c)))\<lparr>reg_eax := 0\<rparr>\<rparr> \<and> (\<forall>i. i \<noteq> e \<longrightarrow> envs k' i = envs k i)
     \<and> (\<forall>n<UPG. amap (kvm k') p n = 0) \<and> (\<forall>i<UPD. pde (kvm k') p i = 0)
     \<and> (\<forall>d\<in>kdirs k. \<forall>n<UPG. amap (kvm k') d n = amap (kvm k) d n) \<and> (\<forall>d\<in>kdirs k. \<forall>i<UPD. pde (kvm k') d i = pde (kvm k) d i)
     \<and> (\<forall>q. maps (kvm k') (kdirs k') q = maps (kvm k) (kdirs k) q)
     \<and> (\<forall>q. spare (kvm k') (kdirs k') q \<longrightarrow> spare (kvm k) (kdirs k) q \<and> (\<forall>j<4096. pmem (kvm k') (q * 4096 + j) = pmem (kvm k) (q * 4096 + j)))"
proof -
  note e = free_env_head [OF assms(1,4)]
  note inv = ms_invD(1) [OF assms(2)]
  have h: "page_free_list (kvm k) = Some p" using as_invD(6) [OF inv] by (simp add: free_pages_def)
  have pb: "p < 1048576" using as_invD(1) [OF inv] as_invD(7) [OF inv, of p] by (auto simp: spare_def)
  from env_alloc_run [OF assms(4) h, of "env_id (envs k c)"] obtain k1 where
    k1: "env_alloc (env_id (envs k c)) k = ((0, Some e), k1)" "curenv k1 = Some c" "cr3 k1 = cr3 k"
    "envs k1 = (envs k)(e := new_env e (env_id (envs k c)) (p * 4096) (envs k e))"
    and v: "pmem (kvm k1) = setup_mem p (kern_pgdir (kvm k)) (pmem (kvm k))" "kern_pgdir (kvm k1) = kern_pgdir (kvm k)"
      "npages (kvm k1) = npages (kvm k)" "page_free_list (kvm k1) = pp_link (kvm k) p" "pp_link (kvm k1) = (pp_link (kvm k))(p := None)"
      "pp_ref (kvm k1) = (pp_ref (kvm k))(p := pp_ref (kvm k) p + 1)"
    using assms(3) page2pa_nat [OF pb] by auto
  let ?k = "upd_env e (\<lambda>x. x\<lparr>env_status := ENV_NOT_RUNNABLE,
      env_tf := (env_tf (envs k1 c))\<lparr>tf_regs := (tf_regs (env_tf (envs k1 c)))\<lparr>reg_eax := 0\<rparr>\<rparr>\<rparr>) k1"
  have ec: "e \<noteq> c" using e(3) assms(3) by auto
  have run: "sys_exofork k = Ret (env_id (envs ?k e)) ?k" using assms(3) k1 ec by (simp add: sys_exofork_def Let_def)
  have "e < 1024" using e(1) by (simp add: NENV_def)
  note id = next_id_props [OF this, of "env_id (envs k e)"]
  have nz: "next_id e (env_id (envs k e)) \<noteq> 0" using id(1) by auto
  have ne: "env_id (envs ?k e) = next_id e (env_id (envs k e))" "env_pgdir (envs ?k e) = Some (p * 4096)"
    "env_status (envs ?k e) = ENV_NOT_RUNNABLE" "env_parent_id (envs ?k e) = env_id (envs k c)"
    using k1(4) ec by (simp_all add: new_env_def)
  have kd: "kdirs ?k = insert p (kdirs k)"
  proof -
    have "d \<in> kdirs ?k \<longleftrightarrow> d = p \<or> d \<in> kdirs k" for d
    proof
      assume "d \<in> kdirs ?k"
      then obtain i where "env_status (envs ?k i) \<noteq> ENV_FREE" "env_pgdir (envs ?k i) = Some (d * 4096)" by (auto simp: kdirs_def)
      then show "d = p \<or> d \<in> kdirs k" using ne(2) k1(4) kdirsI [of k i d] by (cases "i = e") auto
    next
      assume "d = p \<or> d \<in> kdirs k"
      then show "d \<in> kdirs ?k"
      proof
        assume "d = p" then show ?thesis using ne kdirsI [of ?k e p] by simp
      next
        assume "d \<in> kdirs k"
        then obtain i where i: "env_status (envs k i) \<noteq> ENV_FREE" "env_pgdir (envs k i) = Some (d * 4096)" by (auto simp: kdirs_def)
        then have "i \<noteq> e" using e(2) by auto
        then show ?thesis using i k1(4) kdirsI [of ?k i d] by simp
      qed
    qed
    then show ?thesis by blast
  qed
  have ki: "kinv ?k" using good_exofork [OF assms(1)] run by simp
  note N = new_dir_ms [OF assms(2) v(1,2,3,4,5,6)]
  have env: "envid2env (env_id (envs ?k e)) True ?k = Some (0, Some e)"
    using ne id nz k1 ec by (simp add: envid2env_def Let_def)
  show ?thesis
    using run ki env N kd ec ne id(1) k1 UPD_less
    by (intro exI [of _ ?k] exI [of _ "env_id (envs ?k e)"]) (auto simp: new_env_def)
qed

end
