(* ===== verification/ForkProps.thy ===== *)
theory ForkProps
  imports User KernMem
begin

text \<open>
  Copy-on-write \<open>fork\<close>.  A user program reads its own page table through the mapping at \<open>UVPT\<close>; \<open>fork\<close> gives
  the child the parent's memory, byte for byte, and takes write access to private pages from both; the
  fault handler gives the writer a page of its own.
\<close>

section \<open>The stubs\<close>

lemma stub_page_map: "sys_page_map s a d b p k = Ret 0 k' \<Longrightarrow> sys_page_map_u s a d b p k = Done 0 k'"
  by (simp add: stub_defs syscall_u_def syscall_def sys_defs)

lemma stub_page_alloc: "sys_page_alloc e va p k = Ret 0 k' \<Longrightarrow> sys_page_alloc_u e va p k = Done 0 k'"
  by (simp add: stub_defs syscall_u_def syscall_def sys_defs)

lemma stub_page_unmap: "sys_page_unmap e va k = Ret 0 k' \<Longrightarrow> sys_page_unmap_u e va k = Done 0 k'"
  by (simp add: stub_defs syscall_u_def syscall_def sys_defs)

lemma stub_exofork: "sys_exofork k = Ret r k' \<Longrightarrow> sys_exofork_u k = Done r k'"
  by (simp add: stub_defs syscall_u_def syscall_def sys_defs)

lemma stub_set_status: "sys_env_set_status e st k = Ret 0 k' \<Longrightarrow> sys_env_set_status_u e st k = Done 0 k'"
  by (simp add: stub_defs syscall_u_def syscall_def sys_defs)

lemma stub_set_upcall: "sys_env_set_pgfault_upcall e f k = Ret 0 k' \<Longrightarrow> sys_env_set_pgfault_upcall_u e f k = Done 0 k'"
  by (simp add: stub_defs syscall_u_def syscall_def sys_defs)

lemma or_panic_ok [simp]: "or_panic (Done 0 k) f = f k"
  by (simp add: or_panic_def)

section \<open>Reading the page table\<close>

lemma user_flags: "e AND 7 = 7 \<Longrightarrow> e AND PTE_P \<noteq> 0 \<and> e AND PTE_U \<noteq> 0 \<and> e AND PTE_W \<noteq> (0 :: u32)"
proof -
  assume e: "e AND 7 = 7"
  have "e AND f = f" if "7 AND f = f" for f using e that by (metis and.assoc)
  from this [of PTE_P] this [of PTE_U] this [of PTE_W] show ?thesis by (simp add: mmu_consts)
qed

lemma self_flags:
  assumes "d < 1048576"
  shows "(page2pa d OR PTE_P OR PTE_U) AND PTE_P \<noteq> 0" "(page2pa d OR PTE_P OR PTE_U) AND PTE_U \<noteq> 0"
    "pa2page (page2pa d OR PTE_P OR PTE_U) = d"
proof -
  have "bit ((page2pa d OR PTE_P OR PTE_U) AND PTE_P) 0" by (simp add: bit_simps PTE_P_def)
  then show "(page2pa d OR PTE_P OR PTE_U) AND PTE_P \<noteq> 0" by auto
  have "bit ((page2pa d OR PTE_P OR PTE_U) AND PTE_U) 2" by (simp add: bit_simps PTE_U_def)
  then show "(page2pa d OR PTE_P OR PTE_U) AND PTE_U \<noteq> 0" by auto
  have e: "page2pa d OR PTE_P OR PTE_U = page2pa d OR PTE_U OR PTE_P" by (simp add: ac_simps)
  show "pa2page (page2pa d OR PTE_P OR PTE_U) = d"
    using unat_PTE_ADDR [of "page2pa d OR PTE_U OR PTE_P"] PTE_ADDR_low [of PTE_U d] assms
    unfolding e by (simp add: page2pa_nat PTE_U_def)
qed

text \<open>The translation of any address, by the number of its page.\<close>

lemma utranslate_vpn:
  "utranslate (d * 4096) wr va m =
    (let pde = ent m d (vpn va div 1024); pte = ent m (pa2page pde) (vpn va mod 1024) in
     if pde AND PTE_P = 0 \<or> pde AND PTE_U = 0 \<or> pte AND PTE_P = 0 \<or> pte AND PTE_U = 0 then None
     else if wr \<and> (pde AND PTE_W = 0 \<or> pte AND PTE_W = 0) then None
     else Some (pa2page pte * 4096 + unat va mod 4096))"
  unfolding utranslate_def Let_def addr_ent ent_def unat_PTE_ADDR unat_PGOFF by (simp only:)

lemma page_parts: "r < 4096 \<Longrightarrow> (b * 4096 + r) div 4096 = (b :: nat)" "r < 4096 \<Longrightarrow> (b * 4096 + r) mod 4096 = r"
  by simp_all

lemma dir_parts: "r < 1024 \<Longrightarrow> (b * 1024 + r) div 1024 = (b :: nat)" "r < 1024 \<Longrightarrow> (b * 1024 + r) mod 1024 = r"
  by simp_all

lemma uvpt_read:
  assumes "ms_inv (kvm k) D xs" "d \<in> D" "cr3 k = d * 4096" "n < UPG" "pde (kvm k) d (n div 1024) \<noteq> 0"
  shows "uvpt (of_nat n) k = Some (amap (kvm k) d n)"
proof -
  have db: "d < 1048576" using as_invD(1,3) [OF ms_invD(1) [OF assms(1)]] assms(2) by fastforce
  define va where "va = UVPT + 4 * of_nat n"
  have "unat (of_nat n :: u32) = n" using assms(4) by (simp add: unat_of_nat UPG_def UPD_def)
  then have u: "unat va = 957 * 4194304 + 4 * n" using assms(4) by (simp add: va_def mmu_consts unat_word_ariths UPG_def UPD_def)
  moreover have "(957 * 1024 + n div 1024) * 4096 + 4 * (n mod 1024) = 957 * 4194304 + 4 * (n div 1024 * 1024 + n mod 1024)"
    by (simp only: distrib_left distrib_right mult.assoc)
  ultimately have "unat va = (957 * 1024 + n div 1024) * 4096 + 4 * (n mod 1024)" by (simp only: div_mult_mod_eq)
  moreover have "4 * (n mod 1024) < 4096" by simp
  ultimately have w: "vpn va = 957 * 1024 + n div 1024" "unat va mod 4096 = 4 * (n mod 1024)"
    unfolding vpn_def by (simp_all only: page_parts)
  moreover have "n div 1024 < 1024" using UPD_less [OF UPG_div [OF assms(4)]] .
  ultimately have v: "vpn va div 1024 = UVPDX" "vpn va mod 1024 = n div 1024" "unat va mod 4096 = 4 * (n mod 1024)"
    by (simp_all only: UVPDX_def dir_parts)
  have self: "ent (pmem (kvm k)) d UVPDX = page2pa d OR PTE_P OR PTE_U" using ms_invD(2) [OF assms(1,2)] by (simp add: pde_def)
  note f = user_flags [OF ms_invD(3) [OF assms(1,2) UPG_div [OF assms(4)] assms(5)]]
  have "utranslate (cr3 k) False va (pmem (kvm k)) = Some (pa2page (pde (kvm k) d (n div 1024)) * 4096 + 4 * (n mod 1024))"
    using f self_flags [OF db] by (simp add: assms(3) utranslate_vpn v self pde_def)
  then show ?thesis using assms(5) by (simp add: uvpt_def uload32_def va_def [symmetric] amap_def ent_def)
qed

lemma uvpd_read:
  assumes "ms_inv (kvm k) D xs" "d \<in> D" "cr3 k = d * 4096" "i < UPD"
  shows "uvpd (of_nat i) k = Some (pde (kvm k) d i)"
proof -
  have db: "d < 1048576" using as_invD(1,3) [OF ms_invD(1) [OF assms(1)]] assms(2) by fastforce
  define va where "va = UVPT + drop_bit 12 UVPT * 4 + 4 * of_nat i"
  have "unat (of_nat i :: u32) = i" using assms(4) by (simp add: unat_of_nat UPD_def)
  then have u: "unat va = 957 * 4194304 + 957 * 4096 + 4 * i" using assms(4) by (simp add: va_def mmu_consts unat_word_ariths UPD_def)
  then have "unat va = 980925 * 4096 + 4 * i" by simp
  then have v: "vpn va div 1024 = UVPDX" "vpn va mod 1024 = UVPDX" "unat va mod 4096 = 4 * i"
    using page_parts [of "4 * i" 980925] assms(4) by (simp_all add: vpn_def UVPDX_def UPD_def)
  have self: "ent (pmem (kvm k)) d UVPDX = page2pa d OR PTE_P OR PTE_U" using ms_invD(2) [OF assms(1,2)] by (simp add: pde_def)
  have "utranslate (cr3 k) False va (pmem (kvm k)) = Some (d * 4096 + 4 * i)"
    using self_flags [OF db] by (simp add: assms(3) utranslate_vpn v self)
  then show ?thesis by (simp add: uvpd_def uload32_def va_def [symmetric] pde_def ent_def)
qed

section \<open>What fork does to a page\<close>

text \<open>
  An entry the user can read; a private one that may be written, now or after a copy; and the entries that
  \<open>duppage\<close> leaves in the child and in the parent.
\<close>

definition shown :: "u32 \<Rightarrow> bool" where
  "shown e \<longleftrightarrow> e AND PTE_P \<noteq> 0 \<and> e AND PTE_U \<noteq> 0"

definition cowable :: "u32 \<Rightarrow> bool" where
  "cowable e \<longleftrightarrow> e AND PTE_SHARE = 0 \<and> (e AND PTE_W \<noteq> 0 \<or> e AND PTE_COW \<noteq> 0)"

definition dup_perm :: "u32 \<Rightarrow> u32" where
  "dup_perm e = (if e AND PTE_SHARE \<noteq> 0 then PTE_SHARE OR PTE_SYSCALL else if cowable e then PTE_COW OR PTE_U OR PTE_P else PTE_U OR PTE_P)"

definition child_pte :: "u32 \<Rightarrow> u32" where
  "child_pte e = (if shown e then page2pa (pa2page e) OR dup_perm e OR PTE_P else 0)"

definition parent_pte :: "u32 \<Rightarrow> u32" where
  "parent_pte e = (if shown e \<and> cowable e then page2pa (pa2page e) OR (PTE_COW OR PTE_U OR PTE_P) OR PTE_P else e)"

lemmas fork_consts = mmu_consts PTE_SHARE_def PTE_COW_def

lemma dup_perm_ok: "perm_ok (PTE_SHARE OR PTE_SYSCALL)" "perm_ok (PTE_COW OR PTE_U OR PTE_P)" "perm_ok (PTE_U OR PTE_P)"
  "perm_ok (PTE_P OR PTE_U OR PTE_W)" "perm_ok (PTE_W OR PTE_U OR PTE_P)" "perm_ok (dup_perm e)"
proof -
  show a: "perm_ok (PTE_SHARE OR PTE_SYSCALL)" "perm_ok (PTE_COW OR PTE_U OR PTE_P)" "perm_ok (PTE_U OR PTE_P)"
    "perm_ok (PTE_P OR PTE_U OR PTE_W)" "perm_ok (PTE_W OR PTE_U OR PTE_P)" by (simp_all add: perm_ok_def fork_consts)
  then show "perm_ok (dup_perm e)" by (simp add: dup_perm_def)
qed

lemma shown_nz: "shown e \<Longrightarrow> e \<noteq> 0"
  by (auto simp: shown_def)

lemma pte_zero [simp]: "child_pte 0 = 0" "parent_pte 0 = 0" "\<not> shown 0"
  by (simp_all add: child_pte_def parent_pte_def shown_def)

lemma pte_page:
  assumes "pa2page e < 1048576" "pa2page e \<noteq> 0"
  shows "shown e \<Longrightarrow> pa2page (child_pte e) = pa2page e \<and> child_pte e \<noteq> 0"
    "pa2page (parent_pte e) = pa2page e" "e \<noteq> 0 \<Longrightarrow> parent_pte e \<noteq> 0"
  using new_entry [OF assms perm_okD [OF dup_perm_ok(6)]] new_entry [OF assms perm_okD [OF dup_perm_ok(2)]]
  by (auto simp: child_pte_def parent_pte_def)

section \<open>The loop\<close>

definition fork_ready :: "kern \<Rightarrow> nat \<Rightarrow> nat \<Rightarrow> nat \<Rightarrow> nat \<Rightarrow> i32 \<Rightarrow> bool" where
  "fork_ready k c d e dc child \<longleftrightarrow>
     kinv k \<and> curenv k = Some c \<and> cr3 k = d * 4096 \<and> envid2env child True k = Some (0, Some e)
     \<and> env_pgdir (envs k e) = Some (dc * 4096) \<and> dc \<noteq> d \<and> (\<forall>q. 2 * card (maps (kvm k) (kdirs k) q) + 2 < 65536)"

definition dup_inv :: "vm \<Rightarrow> nat set \<Rightarrow> nat \<Rightarrow> nat \<Rightarrow> nat \<Rightarrow> vm \<Rightarrow> nat \<Rightarrow> nat list \<Rightarrow> bool" where
  "dup_inv s D d dc r v n xs \<longleftrightarrow>
     ms_inv v D xs \<and> kept D s v
     \<and> (\<forall>n'<UPG. amap v dc n' = (if n' < n then child_pte (amap s d n') else 0))
     \<and> (\<forall>n'<UPG. amap v d n' = (if n' < n then parent_pte (amap s d n') else amap s d n'))
     \<and> (\<forall>d'\<in>D. d' \<noteq> d \<and> d' \<noteq> dc \<longrightarrow> (\<forall>n'<UPG. amap v d' n' = amap s d' n'))
     \<and> (\<forall>i<UPD. (pde v d i \<noteq> 0) = (pde s d i \<noteq> 0))
     \<and> card {i. i < UPD \<and> pde s d i \<noteq> 0 \<and> pde v dc i = 0} + r \<le> length xs"

lemma fork_readyD:
  assumes "fork_ready k c d e dc child"
  shows "kinv k" "curenv k = Some c" "cr3 k = d * 4096" "envid2env child True k = Some (0, Some e)"
    "env_pgdir (envs k e) = Some (dc * 4096)" "dc \<noteq> d" "2 * card (maps (kvm k) (kdirs k) q) + 2 < 65536"
    "envid2env 0 True k = Some (0, Some c)" "env_pgdir (envs k c) = Some (d * 4096)" "d \<in> kdirs k" "dc \<in> kdirs k"
proof -
  show f: "kinv k" "curenv k = Some c" "cr3 k = d * 4096" "envid2env child True k = Some (0, Some e)"
    "env_pgdir (envs k e) = Some (dc * 4096)" "dc \<noteq> d" "2 * card (maps (kvm k) (kdirs k) q) + 2 < 65536"
    using assms by (auto simp: fork_ready_def)
  show "envid2env 0 True k = Some (0, Some c)" using f(2) by (simp add: envid2env_def)
  have c: "env_status (envs k c) \<noteq> ENV_FREE" "env_pgdir (envs k c) = Some (d * 4096)" using f(1,2,3) by (auto simp: kinv_def)
  then show "env_pgdir (envs k c) = Some (d * 4096)" "d \<in> kdirs k" by (auto intro: kdirsI)
  show "dc \<in> kdirs k" using envid2env_live(2) [OF f(1,4)] f(5) by (rule kdirsI)
qed

text \<open>A page has at most twice as many mappings while the child is being filled.\<close>

lemma dup_maps:
  assumes inv: "as_inv s D xs0" and d: "d \<in> D" and I: "dup_inv s D d dc r v n xs"
  shows "card (maps v D q) \<le> 2 * card (maps s D q)"
proof -
  have ok: "pa2page (amap s d m) < 1048576 \<and> pa2page (amap s d m) \<noteq> 0" if "m < UPG" "amap s d m \<noteq> 0" for m
    using mapped_spare(1) [OF inv d that] as_invD(1) [OF inv] by (auto simp: spare_def)
  have "maps v D q \<subseteq> maps s D q \<union> (\<lambda>(_, m). (dc, m)) ` maps s D q"
  proof
    fix x assume x: "x \<in> maps v D q"
    obtain d' m where xm: "x = (d', m)" by (cases x)
    have m: "d' \<in> D" "m < UPG" "amap v d' m \<noteq> 0" "pa2page (amap v d' m) = q" using x xm by (auto simp: maps_def)
    consider "d' = dc" | "d' = d" "d' \<noteq> dc" | "d' \<noteq> d" "d' \<noteq> dc" by blast
    then show "x \<in> maps s D q \<union> (\<lambda>(_, m). (dc, m)) ` maps s D q"
    proof cases
      case 1
      have am: "amap v dc m = (if m < n then child_pte (amap s d m) else 0)" using I m(2) by (simp add: dup_inv_def)
      then have "shown (amap s d m)" using m(3) 1 by (auto simp: child_pte_def split: if_splits)
      then have "(d, m) \<in> maps s D q"
        using pte_page(1) [of "amap s d m"] ok [OF m(2)] shown_nz am m 1 d by (auto simp: maps_def split: if_splits)
      then show ?thesis using xm 1 by force
    next
      case 2
      have am: "amap v d m = (if m < n then parent_pte (amap s d m) else amap s d m)" using I m(2) by (simp add: dup_inv_def)
      then have nz: "amap s d m \<noteq> 0" using m(3) 2 by (auto split: if_splits)
      then show ?thesis using am m 2 xm pte_page(2) [of "amap s d m"] ok [OF m(2) nz] by (auto simp: maps_def split: if_splits)
    next
      case 3
      then have "amap v d' m = amap s d' m" using I m(1,2) by (simp add: dup_inv_def)
      then show ?thesis using m xm by (auto simp: maps_def)
    qed
  qed
  moreover have fin: "finite (maps s D q)" using finite_maps as_invD(2) [OF inv] .
  ultimately have "card (maps v D q) \<le> card (maps s D q \<union> (\<lambda>(_, m). (dc, m)) ` maps s D q)" by (intro card_mono) auto
  also have "\<dots> \<le> card (maps s D q) + card ((\<lambda>(_, m). (dc, m)) ` maps s D q)" by (rule card_Un_le)
  also have "\<dots> \<le> 2 * card (maps s D q)" using card_image_le [OF fin, of "\<lambda>(_, m). (dc, m)"] by simp
  finally show ?thesis .
qed

lemma put_vm_simps [simp]:
  "put_vm v' (put_vm v k) = put_vm v' k" "envid2env x b (put_vm v k) = envid2env x b k" "cr3 (put_vm v k) = cr3 k"
  by (auto simp: put_vm_def envid2env_def Let_def split: option.splits)

text \<open>One \<open>sys_page_map\<close> of the running environment's page to the same address of environment \<open>t\<close>.\<close>

lemma map_same:
  assumes R: "fork_ready k c d e dc child" and ms: "ms_inv v (kdirs k) xs"
    and t: "envid2env tid True k = Some (0, Some t)" "env_pgdir (envs k t) = Some (dt * 4096)"
    and va: "va_ok va" "perm_ok perm" "amap v d (vpn va) \<noteq> 0" "card (maps v (kdirs k) (pa2page (amap v d (vpn va)))) + 1 < 65536"
    and room: "pde v dt (vpn va div 1024) \<noteq> 0 \<or> xs \<noteq> []"
  shows "\<exists>v' xs'. sys_page_map_u 0 va tid va perm (put_vm v k) = Done 0 (put_vm v' k) \<and> ms_inv v' (kdirs k) xs' \<and> kept (kdirs k) v v'
     \<and> length xs \<le> Suc (length xs') \<and> (pde v dt (vpn va div 1024) \<noteq> 0 \<longrightarrow> length xs \<le> length xs')
     \<and> (\<forall>d'\<in>kdirs k. \<forall>n<UPG. amap v' d' n = (if d' = dt \<and> n = vpn va then page2pa (pa2page (amap v d (vpn va))) OR perm OR PTE_P else amap v d' n))
     \<and> (\<forall>d'\<in>kdirs k. \<forall>i<UPD. (pde v' d' i \<noteq> 0) = (pde v d' i \<noteq> 0 \<or> d' = dt \<and> i = vpn va div 1024))"
proof -
  note f = fork_readyD [OF R]
  let ?k = "put_vm v k"
  have "kinv ?k" "kmem ?k xs" "envid2env 0 True ?k = Some (0, Some c)" "env_pgdir (envs ?k c) = Some (d * 4096)"
    "envid2env tid True ?k = Some (0, Some t)" "env_pgdir (envs ?k t) = Some (dt * 4096)" "amap (kvm ?k) d (vpn va) \<noteq> 0"
    "card (maps (kvm ?k) (kdirs ?k) (pa2page (amap (kvm ?k) d (vpn va)))) + 1 < 65536" "pde (kvm ?k) dt (vpn va div 1024) \<noteq> 0 \<or> xs \<noteq> []"
    using f ms t va room by simp_all
  from sys_page_map_ms [OF this(1-6) va(1,1,2) this(7-9)] obtain v' xs' where
    "sys_page_map 0 va tid va perm ?k = Ret 0 (put_vm v' ?k)" and v': "ms_inv v' (kdirs k) xs'" "kept (kdirs k) v v'"
    "length xs \<le> Suc (length xs')" "pde v dt (vpn va div 1024) \<noteq> 0 \<longrightarrow> length xs \<le> length xs'"
    "\<forall>d'\<in>kdirs k. \<forall>n<UPG. amap v' d' n = (if d' = dt \<and> n = vpn va then page2pa (pa2page (amap v d (vpn va))) OR perm OR PTE_P else amap v d' n)"
    "\<forall>d'\<in>kdirs k. \<forall>i<UPD. (pde v' d' i \<noteq> 0) = (pde v d' i \<noteq> 0 \<or> d' = dt \<and> i = vpn va div 1024)"
    unfolding as_put_vm kdirs_put_vm ms_vm by blast
  from stub_page_map [OF this(1)] v' show ?thesis unfolding put_vm_simps(1) by blast
qed

lemma duppage_run:
  assumes R: "fork_ready k c d e dc child" and ms: "ms_inv v (kdirs k) xs" and va: "va_ok va" "va = pn * PGSIZE" "vpn va < UPG" "pn = of_nat (vpn va)"
    and e: "shown (amap v d (vpn va))" "card (maps v (kdirs k) (pa2page (amap v d (vpn va)))) + 2 < 65536"
    and room: "pde v dc (vpn va div 1024) \<noteq> 0 \<or> xs \<noteq> []"
  shows "\<exists>v' xs'. duppage child pn (put_vm v k) = Done 0 (put_vm v' k) \<and> ms_inv v' (kdirs k) xs' \<and> kept (kdirs k) v v'
     \<and> length xs \<le> Suc (length xs') \<and> (pde v dc (vpn va div 1024) \<noteq> 0 \<longrightarrow> length xs \<le> length xs')
     \<and> (\<forall>d'\<in>kdirs k. \<forall>n<UPG. amap v' d' n = (if n \<noteq> vpn va then amap v d' n else if d' = dc then child_pte (amap v d n)
          else if d' = d then parent_pte (amap v d n) else amap v d' n))
     \<and> (\<forall>d'\<in>kdirs k. \<forall>i<UPD. (pde v' d' i \<noteq> 0) = (pde v d' i \<noteq> 0 \<or> d' = dc \<and> i = vpn va div 1024))"
proof -
  note f = fork_readyD [OF R] and dp = dup_perm_ok
  let ?e = "amap v d (vpn va)" and ?D = "kdirs k"
  note nz = shown_nz [OF e(1)]
  have pd: "pde v d (vpn va div 1024) \<noteq> 0" using nz by (auto simp: amap_def)
  have rd: "uvpt pn (put_vm v k) = Some ?e"
    unfolding va(4) using uvpt_read [of "put_vm v k" "kdirs k" xs d "vpn va"] ms f(3,10) pd va(3) by simp
  have c1: "card (maps v ?D (pa2page ?e)) + 1 < 65536" using e(2) by simp
  from map_same [OF R ms f(4,5) va(1) dup_perm_ok(6) [of ?e] nz c1 room] obtain v1 xs1 where
    v1: "sys_page_map_u 0 va child va (dup_perm ?e) (put_vm v k) = Done 0 (put_vm v1 k)" "ms_inv v1 ?D xs1" "kept ?D v v1"
      "length xs \<le> Suc (length xs1)" "pde v dc (vpn va div 1024) \<noteq> 0 \<longrightarrow> length xs \<le> length xs1"
      "\<forall>d'\<in>?D. \<forall>n<UPG. amap v1 d' n = (if d' = dc \<and> n = vpn va then page2pa (pa2page ?e) OR dup_perm ?e OR PTE_P else amap v d' n)"
      "\<forall>d'\<in>?D. \<forall>i<UPD. (pde v1 d' i \<noteq> 0) = (pde v d' i \<noteq> 0 \<or> d' = dc \<and> i = vpn va div 1024)" by blast
  have ch: "page2pa (pa2page ?e) OR dup_perm ?e OR PTE_P = child_pte ?e" using e(1) by (simp add: child_pte_def)
  show ?thesis
  proof (cases "cowable ?e")
    case False
    then have "parent_pte ?e = ?e" by (simp add: parent_pte_def)
    moreover have "duppage child pn (put_vm v k) = Done 0 (put_vm v1 k)"
      using False v1(1) rd by (auto simp: duppage_def with_word_def va(2) [symmetric] dup_perm_def cowable_def)
    ultimately show ?thesis using v1(2-7) by (intro exI [of _ v1] exI [of _ xs1]) (auto simp: ch)
  next
    case True
    have am1: "amap v1 d (vpn va) = ?e" using v1(6) f(6,10) va(3) by simp
    have "maps v1 ?D (pa2page ?e) \<subseteq> insert (dc, vpn va) (maps v ?D (pa2page ?e))"
      using maps_upd [of dc ?D "vpn va" v1 "page2pa (pa2page ?e) OR dup_perm ?e OR PTE_P" v "pa2page ?e", OF f(11) va(3)] v1(6)
      by (auto split: if_splits)
    then have "card (maps v1 ?D (pa2page ?e)) \<le> card (insert (dc, vpn va) (maps v ?D (pa2page ?e)))"
      by (intro card_mono) (use finite_maps as_invD(2) [OF ms_invD(1) [OF ms]] in auto)
    also have "\<dots> \<le> Suc (card (maps v ?D (pa2page ?e)))" by (simp add: card_insert_le_m1 card_insert_if finite_maps as_invD(2) [OF ms_invD(1) [OF ms]])
    finally have c2: "card (maps v1 ?D (pa2page (amap v1 d (vpn va)))) + 1 < 65536" using e(2) am1 by simp
    have pd1: "pde v1 d (vpn va div 1024) \<noteq> 0" using v1(7) f(10) pd UPG_div [OF va(3)] by simp
    from map_same [OF R v1(2) f(8,9) va(1) dup_perm_ok(2) _ c2] pd1 nz am1 obtain v2 xs2 where
      v2: "sys_page_map_u 0 va 0 va (PTE_COW OR PTE_U OR PTE_P) (put_vm v1 k) = Done 0 (put_vm v2 k)" "ms_inv v2 ?D xs2" "kept ?D v1 v2"
        "length xs1 \<le> length xs2"
        "\<forall>d'\<in>?D. \<forall>n<UPG. amap v2 d' n = (if d' = d \<and> n = vpn va then page2pa (pa2page ?e) OR (PTE_COW OR PTE_U OR PTE_P) OR PTE_P else amap v1 d' n)"
        "\<forall>d'\<in>?D. \<forall>i<UPD. (pde v2 d' i \<noteq> 0) = (pde v1 d' i \<noteq> 0 \<or> d' = d \<and> i = vpn va div 1024)" by auto
    have "duppage child pn (put_vm v k) = Done 0 (put_vm v2 k)"
      using True v1(1) v2(1) rd by (auto simp: duppage_def with_word_def va(2) [symmetric] dup_perm_def cowable_def)
    moreover have "page2pa (pa2page ?e) OR (PTE_COW OR PTE_U OR PTE_P) OR PTE_P = parent_pte ?e"
      using True e(1) by (simp add: parent_pte_def)
    ultimately show ?thesis
      using v2 v1(4-7) kept_trans [OF v1(3) v2(3)] pd f(6) by (intro exI [of _ v2] exI [of _ xs2]) (auto simp: ch)
  qed
qed

lemma unat_eqI: "unat a = unat b \<Longrightarrow> a = (b :: u32)"
  by (simp add: word_unat_eq_iff)

text \<open>One round of the loop, at page \<open>n\<close>.\<close>

lemma page_addr:
  assumes "unat i = n * 4096" "n < vpn USTACKTOP"
  shows "vpn i = n" "PGNUM i = of_nat n" "PDX i = of_nat (n div 1024)" "va_ok i" "n < UPG" "i = PGNUM i * PGSIZE" "i < USTACKTOP"
proof -
  have b: "n < 977918" using assms(2) by (simp add: vpn_def mmu_consts)
  show v: "vpn i = n" using assms(1) by (simp add: vpn_def)
  have u: "unat (of_nat n :: u32) = n" using b by (simp add: unat_of_nat)
  show g: "PGNUM i = of_nat n" by (rule unat_eqI) (simp add: unat_PGNUM assms(1) u)
  have "unat (of_nat (n div 1024) :: u32) = n div 1024" using b by (simp add: unat_of_nat) 
  then show "PDX i = of_nat (n div 1024)" by (intro unat_eqI) (simp add: vpn_indices v)
  show "n < UPG" using b by (simp add: UPG_def UPD_def)
  show lt: "i < USTACKTOP" using assms b by (simp add: word_less_nat_alt mmu_consts)
  have "i mod PGSIZE = 0" by (rule unat_eqI) (simp add: unat_mod PGSIZE_def assms(1))
  then show "va_ok i" using assms b by (simp add: va_ok_def word_le_nat_alt mmu_consts)
  show "i = PGNUM i * PGSIZE" unfolding g using b by (intro unat_eqI) (simp add: unat_word_ariths PGSIZE_def assms(1) u)
qed

lemma dup_invD:
  assumes "dup_inv s D d dc r v n xs"
  shows "ms_inv v D xs" "kept D s v" "n' < UPG \<Longrightarrow> amap v dc n' = (if n' < n then child_pte (amap s d n') else 0)"
    "n' < UPG \<Longrightarrow> amap v d n' = (if n' < n then parent_pte (amap s d n') else amap s d n')"
    "\<lbrakk>d' \<in> D; d' \<noteq> d; d' \<noteq> dc; n' < UPG\<rbrakk> \<Longrightarrow> amap v d' n' = amap s d' n'" "i < UPD \<Longrightarrow> (pde v d i \<noteq> 0) = (pde s d i \<noteq> 0)"
    "card {i. i < UPD \<and> pde s d i \<noteq> 0 \<and> pde v dc i = 0} + r \<le> length xs"
  using assms unfolding dup_inv_def by blast+

lemma dup_inv_skip:
  assumes "dup_inv s D d dc r v n xs" "\<not> shown (amap s d n)"
  shows "dup_inv s D d dc r v (Suc n) xs"
proof -
  have "child_pte (amap s d n) = 0" "parent_pte (amap s d n) = amap s d n" using assms(2) by (simp_all add: child_pte_def parent_pte_def)
  then show ?thesis using assms(1) unfolding dup_inv_def by (auto simp: less_Suc_eq)
qed

lemma dup_inv_dup:
  assumes I: "dup_inv s D d dc r v n xs" and d: "d \<in> D" "dc \<in> D" "dc \<noteq> d" "n < UPG" "pde s d (n div 1024) \<noteq> 0"
    and v': "ms_inv v' D xs'" "kept D v v'" "length xs \<le> Suc (length xs')" "pde v dc (n div 1024) \<noteq> 0 \<longrightarrow> length xs \<le> length xs'"
      "\<forall>d'\<in>D. \<forall>m<UPG. amap v' d' m = (if m \<noteq> n then amap v d' m else if d' = dc then child_pte (amap v d m)
          else if d' = d then parent_pte (amap v d m) else amap v d' m)"
      "\<forall>d'\<in>D. \<forall>i<UPD. (pde v' d' i \<noteq> 0) = (pde v d' i \<noteq> 0 \<or> d' = dc \<and> i = n div 1024)"
  shows "dup_inv s D d dc r v' (Suc n) xs'"
proof -
  note D = dup_invD [OF I]
  let ?S = "\<lambda>v. {i. i < UPD \<and> pde s d i \<noteq> 0 \<and> pde v dc i = 0}"
  have S: "?S v' = ?S v - {n div 1024}" using v'(6) d(2) by auto
  have "card (?S v') + r \<le> length xs'"
  proof (cases "pde v dc (n div 1024) = 0")
    case True
    then have "n div 1024 \<in> ?S v" using d(5) UPG_div [OF d(4)] by simp
    then have "card (?S v) = Suc (card (?S v'))" unfolding S by (intro card.remove) auto
    then show ?thesis using D(7) v'(3) by linarith
  next
    case False
    then have "?S v' = ?S v" using S by auto
    then show ?thesis using D(7) v'(4) False by simp
  qed
  moreover have am: "amap v d n = amap s d n" using D(4) [OF d(4)] by simp
  have "\<forall>m<UPG. amap v' dc m = (if m < Suc n then child_pte (amap s d m) else 0)"
    using v'(5) d(2) D(3) am by (auto simp: less_Suc_eq)
  moreover have "\<forall>m<UPG. amap v' d m = (if m < Suc n then parent_pte (amap s d m) else amap s d m)"
    using v'(5) d(1,3) D(4) am by (auto simp: less_Suc_eq)
  moreover have "\<forall>d'\<in>D. d' \<noteq> d \<and> d' \<noteq> dc \<longrightarrow> (\<forall>m<UPG. amap v' d' m = amap s d' m)" using v'(5) D(5) by auto
  moreover have "\<forall>i<UPD. (pde v' d i \<noteq> 0) = (pde s d i \<noteq> 0)" using v'(6) d(1,3) D(6) by auto
  ultimately show ?thesis unfolding dup_inv_def using v'(1) kept_trans [OF D(2) v'(2)] by blast
qed

lemma dup_step:
  assumes R: "fork_ready k c d e dc child" and inv: "as_inv (kvm k) (kdirs k) xs0"
    and I: "dup_inv (kvm k) (kdirs k) d dc r v n xs" and i: "unat i = n * 4096" "n < vpn USTACKTOP"
  shows "\<exists>v' xs'. with_word (uvpd (PDX i)) (put_vm v k) (\<lambda>pde. if pde AND PTE_P = 0 then Done 0 (put_vm v k)
       else with_word (uvpt (PGNUM i)) (put_vm v k) (\<lambda>pte.
         if pte AND PTE_P \<noteq> 0 \<and> pte AND PTE_U \<noteq> 0 then duppage child (PGNUM i) (put_vm v k) else Done 0 (put_vm v k))) = Done 0 (put_vm v' k)
     \<and> dup_inv (kvm k) (kdirs k) d dc r v' (Suc n) xs'"
proof -
  note f = fork_readyD [OF R] and D = dup_invD [OF I] and a = page_addr [OF i]
  note u = UPG_div [OF a(5)]
  have rd: "uvpd (PDX i) (put_vm v k) = Some (pde v d (n div 1024))"
    unfolding a(3) using uvpd_read [of "put_vm v k" "kdirs k" xs d "n div 1024"] D(1) f(3,10) u by simp
  have am: "amap v d n = amap (kvm k) d n" using D(4) [OF a(5)] by simp
  show ?thesis
  proof (cases "pde v d (n div 1024) = 0")
    case True
    then have "\<not> shown (amap (kvm k) d n)" using am by (simp add: amap_def shown_def)
    from dup_inv_skip [OF I this] show ?thesis using rd True by (auto simp: with_word_def)
  next
    case False
    have rt: "uvpt (PGNUM i) (put_vm v k) = Some (amap (kvm k) d n)"
      unfolding a(2) using uvpt_read [of "put_vm v k" "kdirs k" xs d n] D(1) f(3,10) False a(5) am by simp
    note fl = user_flags [OF ms_invD(3) [OF D(1) f(10) u False]]
    show ?thesis
    proof (cases "shown (amap (kvm k) d n)")
      case True
      have pd: "pde (kvm k) d (n div 1024) \<noteq> 0" using D(6) [OF u] False by simp
      have "card (maps v (kdirs k) q) + 2 < 65536" for q using dup_maps [OF inv f(10) I, of q] f(7) [of q] by simp
      moreover have "pde v dc (n div 1024) \<noteq> 0 \<or> xs \<noteq> []"
      proof (rule ccontr)
        assume "\<not> (pde v dc (n div 1024) \<noteq> 0 \<or> xs \<noteq> [])"
        then have z: "pde v dc (n div 1024) = 0" "xs = []" by auto
        then have "n div 1024 \<in> {i. i < UPD \<and> pde (kvm k) d i \<noteq> 0 \<and> pde v dc i = 0}" using u pd by simp
        moreover have "card {i. i < UPD \<and> pde (kvm k) d i \<noteq> 0 \<and> pde v dc i = 0} = 0" using D(7) z(2) by simp
        ultimately show False by (auto simp: card_eq_0_iff)
      qed
      ultimately obtain v' xs' where
        v': "duppage child (PGNUM i) (put_vm v k) = Done 0 (put_vm v' k)" "ms_inv v' (kdirs k) xs'" "kept (kdirs k) v v'"
          "length xs \<le> Suc (length xs')" "pde v dc (n div 1024) \<noteq> 0 \<longrightarrow> length xs \<le> length xs'"
          "\<forall>d'\<in>kdirs k. \<forall>m<UPG. amap v' d' m = (if m \<noteq> n then amap v d' m else if d' = dc then child_pte (amap v d m)
            else if d' = d then parent_pte (amap v d m) else amap v d' m)"
          "\<forall>d'\<in>kdirs k. \<forall>i<UPD. (pde v' d' i \<noteq> 0) = (pde v d' i \<noteq> 0 \<or> d' = dc \<and> i = n div 1024)"
        using duppage_run [OF R D(1) a(4,6)] a(1,2,5) True am by auto
      from dup_inv_dup [OF I f(10,11,6) a(5) pd v'(2-7)] v'(1) True rd rt fl show ?thesis
        by (auto simp: with_word_def shown_def)
    next
      case sh: False
      from dup_inv_skip [OF I sh] show ?thesis using rd rt sh fl by (auto simp: with_word_def shown_def)
    qed
  qed
qed

lemma fork_loop_run:
  assumes R: "fork_ready k c d e dc child" and inv: "as_inv (kvm k) (kdirs k) xs0"
  shows "dup_inv (kvm k) (kdirs k) d dc r v n xs \<Longrightarrow> unat i = n * 4096 \<Longrightarrow> n \<le> vpn USTACKTOP \<Longrightarrow>
    \<exists>v' xs'. fork_loop child i (put_vm v k) = Done () (put_vm v' k) \<and> dup_inv (kvm k) (kdirs k) d dc r v' (vpn USTACKTOP) xs'"
proof (induction "vpn USTACKTOP - n" arbitrary: n i v xs)
  case 0
  then have "n = vpn USTACKTOP" by simp
  moreover have "\<not> i < USTACKTOP" using 0 by (simp add: word_less_nat_alt vpn_def mmu_consts)
  ultimately show ?case using 0 by auto
next
  case (Suc x)
  then have n: "n < vpn USTACKTOP" by simp
  note a = page_addr [OF Suc.prems(2) n]
  from dup_step [OF R inv Suc.prems(1,2) n] obtain v' xs' where
    v': "with_word (uvpd (PDX i)) (put_vm v k) (\<lambda>pde. if pde AND PTE_P = 0 then Done 0 (put_vm v k)
       else with_word (uvpt (PGNUM i)) (put_vm v k) (\<lambda>pte.
         if pte AND PTE_P \<noteq> 0 \<and> pte AND PTE_U \<noteq> 0 then duppage child (PGNUM i) (put_vm v k) else Done 0 (put_vm v k))) = Done 0 (put_vm v' k)"
      "dup_inv (kvm k) (kdirs k) d dc r v' (Suc n) xs'" by blast
  have "fork_loop child i (put_vm v k) = fork_loop child (i + PGSIZE) (put_vm v' k)"
    using v'(1) a(7) by (simp add: fork_loop.simps [of child i])
  moreover have "unat (i + PGSIZE) = Suc n * 4096" using page_step [OF a(7)] Suc.prems(2) by simp
  ultimately show ?case using Suc.hyps(1) [OF _ v'(2)] Suc.hyps(2) n by simp
qed

section \<open>What a program sees\<close>

definition ubyte :: "kern \<Rightarrow> nat \<Rightarrow> u32 \<Rightarrow> u8 option" where
  "ubyte k d va = map_option (pmem (kvm k)) (utranslate (d * 4096) False va (pmem (kvm k)))"

lemma ubyte_amap:
  assumes "kmem k xs" "d \<in> kdirs k" "va < UTOP"
  shows "ubyte k d va = (if shown (amap (kvm k) d (vpn va))
    then Some (pmem (kvm k) (pa2page (amap (kvm k) d (vpn va)) * 4096 + unat va mod 4096)) else None)"
proof (cases "pde (kvm k) d (vpn va div 1024) = 0")
  case True
  then show ?thesis by (simp add: ubyte_def utranslate_vpn amap_def pde_def shown_def)
next
  case False
  note f = user_flags [OF ms_invD(3) [OF assms(1,2) UPG_div [OF vpn_user [OF assms(3)]] False]]
  then show ?thesis using False by (simp add: ubyte_def utranslate_vpn amap_def pde_def shown_def Let_def)
qed

section \<open>The calls around the loop\<close>

lemma kdirs_upd:
  assumes "env_status (envs k e) \<noteq> ENV_FREE" "env_status (f (envs k e)) \<noteq> ENV_FREE" "env_pgdir (f (envs k e)) = env_pgdir (envs k e)"
  shows "kdirs (upd_env e f k) = kdirs k"
  unfolding kdirs_def using assms by (intro Collect_cong ex_cong1) auto

definition XN :: nat where "XN = vpn (UXSTACKTOP - PGSIZE)"

lemma XN_props: "XN < UPG" "vpn USTACKTOP \<le> XN" "va_ok (UXSTACKTOP - PGSIZE)" "vpn USTACKTOP < UPG"
  by (simp_all add: XN_def vpn_def mmu_consts UPG_def UPD_def va_ok_def word_le_nat_alt)

text \<open>The page contents of everything that is mapped.\<close>

definition pages_same :: "nat set \<Rightarrow> vm \<Rightarrow> vm \<Rightarrow> bool" where
  "pages_same D s s' \<longleftrightarrow> (\<forall>q. maps s D q \<noteq> {} \<and> spare s' D q \<longrightarrow> (\<forall>j<4096. pmem s' (q * 4096 + j) = pmem s (q * 4096 + j)))"

lemma set_handler_run:
  assumes k: "kinv k" "kmem k xs" "curenv k = Some c" "cr3 k = d * 4096" "upcall \<noteq> 0" "2 \<le> length xs"
  shows "\<exists>k' xs'. set_pgfault_handler upcall handler g k = Done (g\<lparr>pgfault_handler := handler\<rparr>) k' \<and> kinv k' \<and> kmem k' xs'
     \<and> kdirs k' = kdirs k \<and> curenv k' = Some c \<and> cr3 k' = cr3 k \<and> env_free_list k' = env_free_list k \<and> length xs \<le> length xs' + 2
     \<and> (\<forall>i. env_tf (envs k' i) = env_tf (envs k i) \<and> env_id (envs k' i) = env_id (envs k i)) \<and> (\<forall>i. i \<noteq> c \<longrightarrow> envs k' i = envs k i)
     \<and> (\<forall>d'\<in>kdirs k. \<forall>n<UPG. d' = d \<and> n = XN \<or> amap (kvm k') d' n = amap (kvm k) d' n)
     \<and> (\<forall>i<UPD. pde (kvm k') d i \<noteq> 0 \<longrightarrow> pde (kvm k) d i \<noteq> 0 \<or> i = XN div 1024)
     \<and> pages_same (kdirs k) (kvm k) (kvm k')"
proof (cases "pgfault_handler g = 0")
  case False
  then show ?thesis using k
    by (intro exI [of _ k] exI [of _ xs]) (auto simp: set_pgfault_handler_def pages_same_def)
next
  case True
  obtain p q ys where xs: "xs = p # q # ys" using k(6) by (auto simp: numeral_2_eq_2 Suc_le_length_iff)
  have c: "env_status (envs k c) \<noteq> ENV_FREE" "env_pgdir (envs k c) = Some (d * 4096)" using k(1,3,4) by (auto simp: kinv_def)
  have z: "envid2env 0 True k = Some (0, Some c)" using k(3) by (simp add: envid2env_def)
  from sys_page_alloc_ms [OF k(1) k(2) [unfolded xs] z c(2) XN_props(3) dup_perm_ok(4)] obtain v zs where
    v: "sys_page_alloc 0 (UXSTACKTOP - PGSIZE) (PTE_P OR PTE_U OR PTE_W) k = Ret 0 (put_vm v k)" "ms_inv v (kdirs k) zs"
      "length (q # ys) \<le> Suc (length zs)"
      "\<forall>d'\<in>kdirs k. \<forall>n<UPG. amap v d' n = (if d' = d \<and> n = XN then page2pa p OR (PTE_P OR PTE_U OR PTE_W) OR PTE_P else amap (kvm k) d' n)"
      "\<forall>d'\<in>kdirs k. \<forall>i<UPD. (pde v d' i \<noteq> 0) = (pde (kvm k) d' i \<noteq> 0 \<or> d' = d \<and> i = XN div 1024)"
      "\<forall>q. spare v (kdirs k) q \<and> q \<noteq> p \<longrightarrow> spare (kvm k) (kdirs k) q \<and> (\<forall>j<4096. pmem v (q * 4096 + j) = pmem (kvm k) (q * 4096 + j))"
    unfolding XN_def by auto
  let ?k = "upd_env c (\<lambda>x. x\<lparr>env_pgfault_upcall := upcall\<rparr>) (put_vm v k)"
  have u: "sys_env_set_pgfault_upcall 0 upcall (put_vm v k) = Ret 0 ?k"
    using z k(5) by (simp add: sys_env_set_pgfault_upcall_def with_env_def)
  have kd: "kdirs ?k = kdirs k" using kdirs_upd [of "put_vm v k" c] c(1) by simp
  have run: "set_pgfault_handler upcall handler g k = Done (g\<lparr>pgfault_handler := handler\<rparr>) ?k"
    using True stub_page_alloc [OF v(1)] stub_set_upcall [OF u] by (simp add: set_pgfault_handler_def)
  have ki: "kinv ?k" by (rule kinv_upd) (use k(1) c(1) in simp_all)
  have "maps (kvm k) (kdirs k) p = {}" using as_invD(7) [OF ms_invD(1) [OF k(2)], of p] xs by simp
  then have ps: "pages_same (kdirs k) (kvm k) (kvm ?k)" using v(6) unfolding pages_same_def by auto
  have "\<forall>i<UPD. pde (kvm ?k) d i \<noteq> 0 \<longrightarrow> pde (kvm k) d i \<noteq> 0 \<or> i = XN div 1024" using v(5) kdirsI [OF c] by auto
  moreover have "\<forall>d'\<in>kdirs k. \<forall>n<UPG. d' = d \<and> n = XN \<or> amap (kvm ?k) d' n = amap (kvm k) d' n" using v(4) by auto
  ultimately show ?thesis using run ki ps kd v(2,3) k(3) xs
    by (intro exI [of _ ?k] exI [of _ zs]) (auto simp: upd_env_def)
qed

text \<open>A page mapped before the loop is mapped after it.\<close>

lemma dup_still_mapped:
  assumes inv: "as_inv s D xs0" and d: "d \<in> D" "dc \<in> D" and I: "dup_inv s D d dc r v n xs" and z: "\<forall>n<UPG. amap s dc n = 0"
    and q: "maps s D q \<noteq> {}"
  shows "maps v D q \<noteq> {}"
proof -
  from q obtain d' m where m: "d' \<in> D" "m < UPG" "amap s d' m \<noteq> 0" "pa2page (amap s d' m) = q" by (auto simp: maps_def)
  have "d' \<noteq> dc" using z m(2,3) by auto
  have "amap v d' m \<noteq> 0 \<and> pa2page (amap v d' m) = q"
  proof (cases "d' = d")
    case True
    have "pa2page (amap s d m) < 1048576 \<and> pa2page (amap s d m) \<noteq> 0"
      using mapped_spare(1) [OF inv m(1,2,3)] as_invD(1) [OF inv] True by (auto simp: spare_def)
    then show ?thesis using dup_invD(4) [OF I m(2)] pte_page(2,3) [of "amap s d m"] m True by auto
  qed (use dup_invD(5) [OF I m(1) _ \<open>d' \<noteq> dc\<close> m(2)] m in auto)
  then show ?thesis using m by (auto simp: maps_def)
qed

lemma fork_tail:
  assumes k: "kinv k" "kmem k xs" "curenv k = Some c" "cr3 k = d * 4096" "env_free_list k = Some e" "upcall \<noteq> 0"
    and room: "card {i. i < UPD \<and> pde (kvm k) d i \<noteq> 0} + 3 \<le> length xs" and cnt: "\<forall>q. 2 * card (maps (kvm k) (kdirs k) q) + 2 < 65536"
  shows "\<exists>child dc k' p xs'. ubind (sys_exofork_u k) (\<lambda>child k.
       if child = 0 then ubind (sys_getenvid_u k) (\<lambda>me k. Done (0, g\<lparr>thisenv := ENVX me\<rparr>) k)
       else
         ubind (fork_loop child 0 k) (\<lambda>_ k.
         or_panic (sys_page_alloc_u child (UXSTACKTOP - PGSIZE) (PTE_W OR PTE_U OR PTE_P) k) (\<lambda>k.
         or_panic (sys_env_set_pgfault_upcall_u child upcall k) (\<lambda>k.
         or_panic (sys_env_set_status_u child 2 k) (\<lambda>k. Done (child, g) k))))) = Done (child, g) k'
     \<and> kinv k' \<and> kmem k' xs' \<and> 0 < sint child \<and> dc \<notin> kdirs k \<and> kdirs k' = insert dc (kdirs k) \<and> curenv k' = Some c
     \<and> env_id (envs k' e) = child \<and> env_status (envs k' e) = ENV_RUNNABLE \<and> env_pgfault_upcall (envs k' e) = upcall
     \<and> env_pgdir (envs k' e) = Some (dc * 4096) \<and> env_parent_id (envs k' e) = env_id (envs k c) \<and> (\<forall>i. i \<noteq> e \<longrightarrow> envs k' i = envs k i)
     \<and> env_tf (envs k' e) = (env_tf (envs k c))\<lparr>tf_regs := (tf_regs (env_tf (envs k c)))\<lparr>reg_eax := 0\<rparr>\<rparr>
     \<and> (\<forall>n<vpn USTACKTOP. amap (kvm k') dc n = child_pte (amap (kvm k) d n) \<and> amap (kvm k') d n = parent_pte (amap (kvm k) d n))
     \<and> (\<forall>d'\<in>kdirs k. \<forall>n<UPG. d' = d \<and> n < vpn USTACKTOP \<or> amap (kvm k') d' n = amap (kvm k) d' n)
     \<and> amap (kvm k') dc XN = page2pa p OR (PTE_W OR PTE_U OR PTE_P) OR PTE_P \<and> maps (kvm k') (kdirs k') p = {(dc, XN)}
     \<and> (\<forall>j<4096. pmem (kvm k') (p * 4096 + j) = 0)
     \<and> (\<forall>q. maps (kvm k) (kdirs k) q \<noteq> {} \<and> spare (kvm k') (kdirs k') q \<longrightarrow> (\<forall>j<4096. pmem (kvm k') (q * 4096 + j) = pmem (kvm k) (q * 4096 + j)))"
proof -
  obtain p0 xs1 where xs: "xs = p0 # xs1" using room by (cases xs) auto
  have c: "env_status (envs k c) \<noteq> ENV_FREE" "env_pgdir (envs k c) = Some (d * 4096)" using k(1,3,4) by (auto simp: kinv_def)
  note dk = kdirsI [OF c]
  from exofork_ms [OF k(1) k(2) [unfolded xs] k(3,5)] obtain k1 child where
    x: "sys_exofork k = Ret child k1" "kinv k1" "kmem k1 xs1" "kdirs k1 = insert p0 (kdirs k)" "p0 \<notin> kdirs k" "e \<noteq> c" "0 < sint child"
      "envid2env child True k1 = Some (0, Some e)" "curenv k1 = Some c" "cr3 k1 = cr3 k" "env_pgdir (envs k1 e) = Some (p0 * 4096)"
      "env_parent_id (envs k1 e) = env_id (envs k c)"
      "env_tf (envs k1 e) = (env_tf (envs k c))\<lparr>tf_regs := (tf_regs (env_tf (envs k c)))\<lparr>reg_eax := 0\<rparr>\<rparr>"
      "\<forall>n<UPG. amap (kvm k1) p0 n = 0" "\<forall>i<UPD. pde (kvm k1) p0 i = 0" "\<forall>d\<in>kdirs k. \<forall>n<UPG. amap (kvm k1) d n = amap (kvm k) d n"
      "\<forall>d\<in>kdirs k. \<forall>i<UPD. pde (kvm k1) d i = pde (kvm k) d i" "\<forall>q. maps (kvm k1) (kdirs k1) q = maps (kvm k) (kdirs k) q"
      "\<forall>q. spare (kvm k1) (kdirs k1) q \<longrightarrow> spare (kvm k) (kdirs k) q \<and> (\<forall>j<4096. pmem (kvm k1) (q * 4096 + j) = pmem (kvm k) (q * 4096 + j))"
      "\<forall>i. i \<noteq> e \<longrightarrow> envs k1 i = envs k i" by blast
  let ?D = "kdirs k1"
  have dp: "p0 \<noteq> d" using x(5) dk by auto
  have R: "fork_ready k1 c d e p0 child" using x k(4) cnt dp by (simp add: fork_ready_def)
  note inv = ms_invD(1) [OF x(3)]
  have "{i. i < UPD \<and> pde (kvm k1) d i \<noteq> 0 \<and> pde (kvm k1) p0 i = 0} = {i. i < UPD \<and> pde (kvm k) d i \<noteq> 0}" using x(15,17) dk by auto
  then have I0: "dup_inv (kvm k1) ?D d p0 2 (kvm k1) 0 xs1" using x(3,14) room xs by (simp add: dup_inv_def)
  have pk: "put_vm (kvm k1) k1 = k1" by (simp add: put_vm_def)
  from fork_loop_run [OF R inv I0, of 0] pk obtain v xs2 where
    L: "fork_loop child 0 k1 = Done () (put_vm v k1)" "dup_inv (kvm k1) ?D d p0 2 v (vpn USTACKTOP) xs2" by auto
  note D = dup_invD [OF L(2)]
  obtain p p' ys where xs2: "xs2 = p # p' # ys" using D(7) by (cases xs2; cases "tl xs2") auto
  let ?k2 = "put_vm v k1"
  have "kinv ?k2" "kmem ?k2 (p # p' # ys)" "envid2env child True ?k2 = Some (0, Some e)" "env_pgdir (envs ?k2 e) = Some (p0 * 4096)"
    using x(2,8,11) D(1) xs2 by simp_all
  from sys_page_alloc_ms [OF this XN_props(3) dup_perm_ok(5)] obtain w zs where
    w: "sys_page_alloc child (UXSTACKTOP - PGSIZE) (PTE_W OR PTE_U OR PTE_P) ?k2 = Ret 0 (put_vm w k1)" "ms_inv w ?D zs"
      "\<forall>d'\<in>?D. \<forall>n<UPG. amap w d' n = (if d' = p0 \<and> n = XN then page2pa p OR (PTE_W OR PTE_U OR PTE_P) OR PTE_P else amap v d' n)"
      "\<forall>j<4096. pmem w (p * 4096 + j) = 0"
      "\<forall>q. spare w ?D q \<and> q \<noteq> p \<longrightarrow> spare v ?D q \<and> (\<forall>j<4096. pmem w (q * 4096 + j) = pmem v (q * 4096 + j))" "spare w ?D p"
    unfolding XN_def as_put_vm kdirs_put_vm ms_vm put_vm_simps put_vm_fields by auto
  let ?k3 = "put_vm w k1"
  let ?k4 = "upd_env e (\<lambda>x. x\<lparr>env_pgfault_upcall := upcall\<rparr>) ?k3"
  let ?k5 = "upd_env e (\<lambda>x. x\<lparr>env_status := ENV_RUNNABLE\<rparr>) ?k4"
  have cid: "child \<noteq> 0" "ENVX child = e" "env_id (envs k1 e) = child" "env_status (envs k1 e) \<noteq> ENV_FREE"
    using x(7,8) by (auto simp: envid2env_def Let_def split: if_splits option.splits)
  have u: "sys_env_set_pgfault_upcall child upcall ?k3 = Ret 0 ?k4"
    using x(8) k(6) by (simp add: sys_env_set_pgfault_upcall_def with_env_def)
  have e4: "envid2env child True ?k4 = Some (0, Some e)"
    using cid x(8,9) x(6) by (auto simp: envid2env_def Let_def split: if_splits)
  have t: "sys_env_set_status child 2 ?k4 = Ret 0 ?k5" using e4 by (simp add: sys_env_set_status_def with_env_def)
  have run: "ubind (sys_exofork_u k) (\<lambda>child k.
       if child = 0 then ubind (sys_getenvid_u k) (\<lambda>me k. Done (0, g\<lparr>thisenv := ENVX me\<rparr>) k)
       else
         ubind (fork_loop child 0 k) (\<lambda>_ k.
         or_panic (sys_page_alloc_u child (UXSTACKTOP - PGSIZE) (PTE_W OR PTE_U OR PTE_P) k) (\<lambda>k.
         or_panic (sys_env_set_pgfault_upcall_u child upcall k) (\<lambda>k.
         or_panic (sys_env_set_status_u child 2 k) (\<lambda>k. Done (child, g) k))))) = Done (child, g) ?k5"
    using stub_exofork [OF x(1)] cid(1) L(1) stub_page_alloc [OF w(1)] stub_set_upcall [OF u] stub_set_status [OF t] by simp
  have k4: "kinv ?k4" by (rule kinv_upd) (use x(2) cid(4) in simp_all)
  have k5: "kinv ?k5" by (rule kinv_upd) (use k4 cid(4) in simp_all)
  have kd: "kdirs ?k5 = ?D" using kdirs_upd [of ?k4 e] kdirs_upd [of ?k3 e] cid(4) by simp
  have pv: "maps v ?D p = {}" using as_invD(7) [OF ms_invD(1) [OF D(1)], of p] xs2 by simp
  have pb: "p < 1048576" "p \<noteq> 0" using w(6) as_invD(1) [OF ms_invD(1) [OF w(2)]] by (auto simp: spare_def)
  note ne = new_entry [OF pb perm_okD [OF dup_perm_ok(5)]]
  have mp: "maps w ?D p = {(p0, XN)}"
    using maps_upd [of p0 ?D XN w _ v p, OF _ XN_props(1)] w(3) ne pv x(4) by simp
  have same: "pmem w (q * 4096 + j) = pmem (kvm k) (q * 4096 + j)" if q: "maps (kvm k) (kdirs k) q \<noteq> {}" "spare w ?D q" "j < 4096" for q j
  proof -
    have "maps v ?D q \<noteq> {}" using dup_still_mapped [OF inv fork_readyD(10,11) [OF R] L(2)] x(14,18) q(1) by blast
    then have "q \<noteq> p" using pv by auto
    then show ?thesis using w(5) D(2) x(19) q(2,3) by (simp add: kept_def)
  qed
  have a: "amap w p0 n = child_pte (amap (kvm k) d n) \<and> amap w d n = parent_pte (amap (kvm k) d n)" if "n < vpn USTACKTOP" for n
    using that w(3) D(3,4) x(4,16) dp dk XN_props by auto
  have b: "d' = d \<and> n < vpn USTACKTOP \<or> amap w d' n = amap (kvm k) d' n" if "d' \<in> kdirs k" "n < UPG" for d' n
  proof -
    have "d' \<noteq> p0" using that(1) x(5) by auto
    then have "amap w d' n = amap v d' n" using w(3) that x(4) by auto
    moreover have "amap (kvm k1) d' n = amap (kvm k) d' n" using x(16) that by simp
    ultimately show ?thesis using D(4) [OF that(2)] D(5) [of d' n] that \<open>d' \<noteq> p0\<close> x(4) by (cases "d' = d") auto
  qed
  have "amap w p0 XN = page2pa p OR (PTE_W OR PTE_U OR PTE_P) OR PTE_P" using w(3) x(4) XN_props(1) by simp
  moreover have f5: "kvm ?k5 = kvm (put_vm w k1)" "curenv ?k5 = Some c" "env_id (envs ?k5 e) = child" "env_status (envs ?k5 e) = ENV_RUNNABLE"
    "env_pgfault_upcall (envs ?k5 e) = upcall" "env_pgdir (envs ?k5 e) = Some (p0 * 4096)" "env_parent_id (envs ?k5 e) = env_id (envs k c)"
    "env_tf (envs ?k5 e) = (env_tf (envs k c))\<lparr>tf_regs := (tf_regs (env_tf (envs k c)))\<lparr>reg_eax := 0\<rparr>\<rparr>"
    "\<forall>i. i \<noteq> e \<longrightarrow> envs ?k5 i = envs k i"
    using x(9,11,12,13,20) cid by simp_all
  ultimately show ?thesis
    using run k5 w(2,4) x(4,5,7) kd mp a b same
    by (intro exI [of _ child] exI [of _ p0] exI [of _ ?k5] exI [of _ p] exI [of _ zs]) simp
qed

section \<open>The copy\<close>

lemma page_low_and: "g AND NOT 0xFFF = 0 \<Longrightarrow> (page2pa q OR x) AND g = x AND (g :: u32)"
proof -
  assume g: "g AND NOT 0xFFF = 0"
  have "page2pa q AND g = 0"
  proof (rule bit_word_eqI)
    fix n
    have "\<not> bit (g AND NOT (mask 12)) n" using g unfolding mask_consts by simp
    then show "bit (page2pa q AND g) n = bit 0 n" by (auto simp: page2pa_def bit_simps)
  qed
  then show ?thesis by (simp add: bit.conj_disj_distrib2)
qed

lemma pte_flags:
  "shown (child_pte e) = shown e" "shown (parent_pte e) = shown e"
  "cowable e \<Longrightarrow> shown e \<Longrightarrow> child_pte e AND PTE_W = 0 \<and> parent_pte e AND PTE_W = 0"
  "cowable e \<Longrightarrow> shown e \<Longrightarrow> child_pte e AND PTE_COW \<noteq> 0 \<and> parent_pte e AND PTE_COW \<noteq> 0"
  "shown e \<Longrightarrow> e AND PTE_SHARE \<noteq> 0 \<Longrightarrow> child_pte e AND PTE_W \<noteq> 0 \<and> child_pte e AND PTE_SHARE \<noteq> 0 \<and> parent_pte e = e"
  "shown e \<Longrightarrow> e AND PTE_SHARE = 0 \<Longrightarrow> \<not> cowable e \<Longrightarrow> child_pte e AND PTE_W = 0 \<and> parent_pte e = e"
proof -
  have L: "(page2pa q OR x) AND 1 = x AND 1" "(page2pa q OR x) AND 4 = x AND 4" "(page2pa q OR x) AND 2 = x AND 2"
    "(page2pa q OR x) AND 0x800 = x AND 0x800" "(page2pa q OR x) AND 0x400 = x AND 0x400" for q x
    by (simp_all add: page_low_and)
  show "shown (child_pte e) = shown e" "shown (parent_pte e) = shown e"
    by (auto simp: child_pte_def parent_pte_def shown_def L dup_perm_def fork_consts)
  show "cowable e \<Longrightarrow> shown e \<Longrightarrow> child_pte e AND PTE_W = 0 \<and> parent_pte e AND PTE_W = 0"
    by (auto simp: child_pte_def parent_pte_def L dup_perm_def cowable_def fork_consts)
  show "cowable e \<Longrightarrow> shown e \<Longrightarrow> child_pte e AND PTE_COW \<noteq> 0 \<and> parent_pte e AND PTE_COW \<noteq> 0"
    by (auto simp: child_pte_def parent_pte_def L dup_perm_def cowable_def fork_consts)
  show "shown e \<Longrightarrow> e AND PTE_SHARE = 0 \<Longrightarrow> \<not> cowable e \<Longrightarrow> child_pte e AND PTE_W = 0 \<and> parent_pte e = e"
    by (auto simp: child_pte_def parent_pte_def L dup_perm_def cowable_def fork_consts)
  show "shown e \<Longrightarrow> e AND PTE_SHARE \<noteq> 0 \<Longrightarrow> child_pte e AND PTE_W \<noteq> 0 \<and> child_pte e AND PTE_SHARE \<noteq> 0 \<and> parent_pte e = e"
    by (auto simp: child_pte_def parent_pte_def L dup_perm_def cowable_def fork_consts)
qed

lemma ubyte_same:
  assumes "kmem k xs" "kmem k' xs'" "d \<in> kdirs k" "d' \<in> kdirs k'" "va < UTOP"
    and "shown (amap (kvm k') d' (vpn va)) = shown (amap (kvm k) d (vpn va))"
      "shown (amap (kvm k) d (vpn va)) \<Longrightarrow> pa2page (amap (kvm k') d' (vpn va)) = pa2page (amap (kvm k) d (vpn va))"
    and "\<And>q. q = pa2page (amap (kvm k) d (vpn va)) \<Longrightarrow> amap (kvm k) d (vpn va) \<noteq> 0 \<Longrightarrow> spare (kvm k') (kdirs k') q \<Longrightarrow>
      \<forall>j<4096. pmem (kvm k') (q * 4096 + j) = pmem (kvm k) (q * 4096 + j)"
  shows "ubyte k' d' va = ubyte k d va"
proof (cases "shown (amap (kvm k) d (vpn va))")
  case True
  note n = vpn_user [OF assms(5)]
  have "spare (kvm k') (kdirs k') (pa2page (amap (kvm k') d' (vpn va)))"
    using mapped_spare(1) [OF ms_invD(1) [OF assms(2)] assms(4) n] shown_nz True assms(6) by blast
  moreover have "unat va mod 4096 < 4096" by simp
  ultimately show ?thesis using True assms(6,7,8) shown_nz [OF True] ubyte_amap [OF assms(1,3,5)] ubyte_amap [OF assms(2,4,5)] by simp
qed (use assms(6) ubyte_amap [OF assms(1,3,5)] ubyte_amap [OF assms(2,4,5)] in simp)

lemma fork_run:
  assumes k: "kinv k" "kmem k xs" "curenv k = Some c" "cr3 k = d * 4096" "env_free_list k = Some e" "upcall \<noteq> 0"
    and room: "card {i. i < UPD \<and> pde (kvm k) d i \<noteq> 0} + 6 \<le> length xs" and cnt: "\<forall>q. 2 * card (maps (kvm k) (kdirs k) q) + 4 < 65536"
  shows "\<exists>child dc k' p xs'. fork upcall handler g k = Done (child, g\<lparr>pgfault_handler := handler\<rparr>) k' \<and> kinv k' \<and> kmem k' xs'
     \<and> 0 < sint child \<and> env_id (envs k' e) = child \<and> env_status (envs k' e) = ENV_RUNNABLE \<and> env_pgfault_upcall (envs k' e) = upcall
     \<and> env_tf (envs k' e) = (env_tf (envs k c))\<lparr>tf_regs := (tf_regs (env_tf (envs k c)))\<lparr>reg_eax := 0\<rparr>\<rparr>
     \<and> env_pgdir (envs k' e) = Some (dc * 4096) \<and> dc \<notin> kdirs k \<and> kdirs k' = insert dc (kdirs k)
     \<and> (\<forall>i. i \<noteq> e \<and> i \<noteq> c \<longrightarrow> envs k' i = envs k i)
     \<and> (\<forall>n<vpn USTACKTOP. amap (kvm k') dc n = child_pte (amap (kvm k) d n) \<and> amap (kvm k') d n = parent_pte (amap (kvm k) d n))
     \<and> (\<forall>d'\<in>kdirs k. \<forall>n<UPG. d' = d \<or> amap (kvm k') d' n = amap (kvm k) d' n)
     \<and> amap (kvm k') dc XN = page2pa p OR (PTE_W OR PTE_U OR PTE_P) OR PTE_P \<and> maps (kvm k') (kdirs k') p = {(dc, XN)}
     \<and> (\<forall>j<4096. pmem (kvm k') (p * 4096 + j) = 0)
     \<and> (\<forall>d'\<in>kdirs k. \<forall>n<UPG. amap (kvm k) d' n \<noteq> 0 \<and> \<not> (d' = d \<and> n = XN) \<and> spare (kvm k') (kdirs k') (pa2page (amap (kvm k) d' n))
          \<longrightarrow> (\<forall>j<4096. pmem (kvm k') (pa2page (amap (kvm k) d' n) * 4096 + j) = pmem (kvm k) (pa2page (amap (kvm k) d' n) * 4096 + j)))"
proof -
  have "2 \<le> length xs" using room by simp
  from set_handler_run [OF k(1-4,6) this, of handler g] obtain k1 xs1 where
    h: "set_pgfault_handler upcall handler g k = Done (g\<lparr>pgfault_handler := handler\<rparr>) k1" "kinv k1" "kmem k1 xs1" "kdirs k1 = kdirs k"
      "curenv k1 = Some c" "cr3 k1 = cr3 k" "env_free_list k1 = env_free_list k" "length xs \<le> length xs1 + 2"
      "\<forall>i. env_tf (envs k1 i) = env_tf (envs k i) \<and> env_id (envs k1 i) = env_id (envs k i)"
      "\<forall>d'\<in>kdirs k. \<forall>n<UPG. d' = d \<and> n = XN \<or> amap (kvm k1) d' n = amap (kvm k) d' n"
      "\<forall>i<UPD. pde (kvm k1) d i \<noteq> 0 \<longrightarrow> pde (kvm k) d i \<noteq> 0 \<or> i = XN div 1024" "pages_same (kdirs k) (kvm k) (kvm k1)"
      "\<forall>i. i \<noteq> c \<longrightarrow> envs k1 i = envs k i" by blast
  let ?T = "{i. i < UPD \<and> pde (kvm k) d i \<noteq> 0}"
  have "card {i. i < UPD \<and> pde (kvm k1) d i \<noteq> 0} \<le> card (insert (XN div 1024) ?T)" using h(11) by (intro card_mono) auto
  also have "\<dots> \<le> Suc (card ?T)" by (simp add: card_insert_if)
  finally have r1: "card {i. i < UPD \<and> pde (kvm k1) d i \<noteq> 0} + 3 \<le> length xs1" using room h(8) by simp
  have dk: "d \<in> kdirs k" using k(1,3,4) kdirsI [of k c d] by (auto simp: kinv_def)
  have fin: "finite (maps (kvm k) (kdirs k) q)" for q using finite_maps as_invD(2) [OF ms_invD(1) [OF k(2)]] .
  have c1: "2 * card (maps (kvm k1) (kdirs k1) q) + 2 < 65536" for q
  proof -
    have "maps (kvm k1) (kdirs k1) q \<subseteq> insert (d, XN) (maps (kvm k) (kdirs k) q)" using h(4,10) by (auto simp: maps_def) metis+
    then have "card (maps (kvm k1) (kdirs k1) q) \<le> card (insert (d, XN) (maps (kvm k) (kdirs k) q))" using fin by (intro card_mono) auto
    also have "\<dots> \<le> Suc (card (maps (kvm k) (kdirs k) q))" using fin by (simp add: card_insert_if)
    finally show ?thesis using cnt [rule_format, of q] by simp
  qed
  from fork_tail [OF h(2,3,5) _ _ k(6) r1, of e "g\<lparr>pgfault_handler := handler\<rparr>"] c1 h(6,7) k(4,5) obtain child dc k' p xs' where
    t: "ubind (sys_exofork_u k1) (\<lambda>child k.
       if child = 0 then ubind (sys_getenvid_u k) (\<lambda>me k. Done (0, g\<lparr>pgfault_handler := handler, thisenv := ENVX me\<rparr>) k)
       else
         ubind (fork_loop child 0 k) (\<lambda>_ k.
         or_panic (sys_page_alloc_u child (UXSTACKTOP - PGSIZE) (PTE_W OR PTE_U OR PTE_P) k) (\<lambda>k.
         or_panic (sys_env_set_pgfault_upcall_u child upcall k) (\<lambda>k.
         or_panic (sys_env_set_status_u child 2 k) (\<lambda>k. Done (child, g\<lparr>pgfault_handler := handler\<rparr>) k)))))
       = Done (child, g\<lparr>pgfault_handler := handler\<rparr>) k'" "kinv k'" "kmem k' xs'" "0 < sint child" "dc \<notin> kdirs k1"
      "kdirs k' = insert dc (kdirs k1)" "env_id (envs k' e) = child" "env_status (envs k' e) = ENV_RUNNABLE" "env_pgfault_upcall (envs k' e) = upcall"
      "env_pgdir (envs k' e) = Some (dc * 4096)" "env_tf (envs k' e) = (env_tf (envs k1 c))\<lparr>tf_regs := (tf_regs (env_tf (envs k1 c)))\<lparr>reg_eax := 0\<rparr>\<rparr>"
      "\<forall>n<vpn USTACKTOP. amap (kvm k') dc n = child_pte (amap (kvm k1) d n) \<and> amap (kvm k') d n = parent_pte (amap (kvm k1) d n)"
      "\<forall>d'\<in>kdirs k1. \<forall>n<UPG. d' = d \<and> n < vpn USTACKTOP \<or> amap (kvm k') d' n = amap (kvm k1) d' n"
      "amap (kvm k') dc XN = page2pa p OR (PTE_W OR PTE_U OR PTE_P) OR PTE_P" "maps (kvm k') (kdirs k') p = {(dc, XN)}"
      "\<forall>j<4096. pmem (kvm k') (p * 4096 + j) = 0"
      "\<forall>q. maps (kvm k1) (kdirs k1) q \<noteq> {} \<and> spare (kvm k') (kdirs k') q \<longrightarrow> (\<forall>j<4096. pmem (kvm k') (q * 4096 + j) = pmem (kvm k1) (q * 4096 + j))"
      "\<forall>i. i \<noteq> e \<longrightarrow> envs k' i = envs k1 i"
    by auto
  have run: "fork upcall handler g k = Done (child, g\<lparr>pgfault_handler := handler\<rparr>) k'" using h(1) t(1) by (simp add: fork_def)
  have am: "amap (kvm k1) d n = amap (kvm k) d n" if "n < vpn USTACKTOP" for n
  proof -
    have "n < UPG" "n \<noteq> XN" using that XN_props(2,4) by linarith+
    then show ?thesis using h(10) [rule_format, OF dk, of n] by simp
  qed
  have same: "pmem (kvm k') (q * 4096 + j) = pmem (kvm k) (q * 4096 + j)"
    if q: "d' \<in> kdirs k" "n < UPG" "amap (kvm k) d' n \<noteq> 0" "\<not> (d' = d \<and> n = XN)" "q = pa2page (amap (kvm k) d' n)"
      "spare (kvm k') (kdirs k') q" "j < 4096" for d' n q j
  proof -
    have "(d', n) \<in> maps (kvm k) (kdirs k) q" using q(1,2,3,5) by (simp add: maps_def)
    then have m: "maps (kvm k) (kdirs k) q \<noteq> {}" by blast
    have "amap (kvm k1) d' n = amap (kvm k) d' n" using h(10) [rule_format, OF q(1,2)] q(4) by argo
    then have "(d', n) \<in> maps (kvm k1) (kdirs k1) q" using q(1,2,3,5) h(4) by (simp add: maps_def)
    then have m1: "maps (kvm k1) (kdirs k1) q \<noteq> {}" by blast
    then have "spare (kvm k1) (kdirs k1) q" using as_invD(9) [OF ms_invD(1) [OF h(3)]] by blast
    then show ?thesis using t(17) h(4,12) m m1 q(6,7) unfolding pages_same_def by auto
  qed
  have "\<forall>d'\<in>kdirs k. \<forall>n<UPG. d' = d \<or> amap (kvm k') d' n = amap (kvm k) d' n"
  proof (intro ballI allI impI)
    fix d' n assume "d' \<in> kdirs k" "n < UPG"
    then show "d' = d \<or> amap (kvm k') d' n = amap (kvm k) d' n"
      using t(13) [rule_format, of d' n] h(10) [rule_format, of d' n] h(4) by auto
  qed
  then show ?thesis using run t h(4,9,13) am same
    by - (rule exI [of _ child], rule exI [of _ dc], rule exI [of _ k'], rule exI [of _ p], rule exI [of _ xs'], simp)
qed

text \<open>What becomes of the entry \<open>e\<close> of a page in the child and in the parent.\<close>

definition forked :: "u32 \<Rightarrow> u32 \<Rightarrow> u32 \<Rightarrow> bool" where
  "forked e ec ep \<longleftrightarrow>
     (if e AND PTE_SHARE \<noteq> 0 then ec AND PTE_SHARE \<noteq> 0 \<and> ec AND PTE_W \<noteq> 0 \<and> ep = e
      else if e AND PTE_W \<noteq> 0 \<or> e AND PTE_COW \<noteq> 0 then
        ec AND PTE_W = 0 \<and> ec AND PTE_COW \<noteq> 0 \<and> ep AND PTE_W = 0 \<and> ep AND PTE_COW \<noteq> 0
      else ec AND PTE_W = 0 \<and> ep = e)"

text \<open>
  C2: \<open>fork\<close> copies the address space.  Given a free environment, enough free pages for the tables of the
  child and reference counts far from their limit, \<open>fork\<close> returns the id of a runnable child that starts
  with the caller's registers and 0 as its result and with the same fault handler.  Below the stack top the child
  sees in every byte what the parent saw, and the parent sees what it saw before; every page of the child is
  the page of the parent.  A private page that was writable or copy-on-write has the copy-on-write mark and no
  write permission in both; a private read-only page stays as it was in the parent and is read-only in the
  child; a shared page stays as it was in the parent and is shared and writable in the child.  In every other
  environment no mapping and no byte changes, and its record in the table is as before.  The child has an
  exception stack of its own, filled with zeros.
\<close>

theorem fork_copies:
  assumes k: "kinv k" "kmem k xs" "curenv k = Some c" "cr3 k = d * 4096" "env_free_list k = Some e" "upcall \<noteq> 0"
    and room: "card {i. i < UPD \<and> pde (kvm k) d i \<noteq> 0} + 6 \<le> length xs" and cnt: "\<forall>q. 2 * card (maps (kvm k) (kdirs k) q) + 4 < 65536"
  shows "\<exists>child dc k' p xs'. fork upcall handler g k = Done (child, g\<lparr>pgfault_handler := handler\<rparr>) k' \<and> kinv k' \<and> kmem k' xs'
     \<and> 0 < sint child \<and> env_id (envs k' e) = child \<and> env_status (envs k' e) = ENV_RUNNABLE \<and> env_pgfault_upcall (envs k' e) = upcall
     \<and> env_tf (envs k' e) = (env_tf (envs k c))\<lparr>tf_regs := (tf_regs (env_tf (envs k c)))\<lparr>reg_eax := 0\<rparr>\<rparr>
     \<and> env_pgdir (envs k' e) = Some (dc * 4096) \<and> dc \<notin> kdirs k
     \<and> (\<forall>va<USTACKTOP. ubyte k' dc va = ubyte k d va \<and> ubyte k' d va = ubyte k d va)
     \<and> (\<forall>d'\<in>kdirs k. d' \<noteq> d \<longrightarrow> (\<forall>va<UTOP. ubyte k' d' va = ubyte k d' va) \<and> (\<forall>n<UPG. amap (kvm k') d' n = amap (kvm k) d' n))
     \<and> (\<forall>i. i \<noteq> e \<and> i \<noteq> c \<longrightarrow> envs k' i = envs k i)
     \<and> (\<forall>n<vpn USTACKTOP. shown (amap (kvm k) d n) \<longrightarrow>
          forked (amap (kvm k) d n) (amap (kvm k') dc n) (amap (kvm k') d n))
     \<and> (\<forall>n<vpn USTACKTOP. shown (amap (kvm k) d n) \<longrightarrow> pa2page (amap (kvm k') dc n) = pa2page (amap (kvm k') d n))
     \<and> amap (kvm k') dc XN = page2pa p OR (PTE_W OR PTE_U OR PTE_P) OR PTE_P \<and> maps (kvm k') (kdirs k') p = {(dc, XN)}
     \<and> (\<forall>j<4096. pmem (kvm k') (p * 4096 + j) = 0)"
proof -
  from fork_run [OF assms, of handler g] obtain child dc k' p xs' where
    f: "fork upcall handler g k = Done (child, g\<lparr>pgfault_handler := handler\<rparr>) k'" "kinv k'" "kmem k' xs'" "0 < sint child"
      "env_id (envs k' e) = child" "env_status (envs k' e) = ENV_RUNNABLE" "env_pgfault_upcall (envs k' e) = upcall"
      "env_tf (envs k' e) = (env_tf (envs k c))\<lparr>tf_regs := (tf_regs (env_tf (envs k c)))\<lparr>reg_eax := 0\<rparr>\<rparr>"
      "env_pgdir (envs k' e) = Some (dc * 4096)" "dc \<notin> kdirs k" "kdirs k' = insert dc (kdirs k)"
      "\<forall>n<vpn USTACKTOP. amap (kvm k') dc n = child_pte (amap (kvm k) d n) \<and> amap (kvm k') d n = parent_pte (amap (kvm k) d n)"
      "\<forall>d'\<in>kdirs k. \<forall>n<UPG. d' = d \<or> amap (kvm k') d' n = amap (kvm k) d' n"
      "amap (kvm k') dc XN = page2pa p OR (PTE_W OR PTE_U OR PTE_P) OR PTE_P" "maps (kvm k') (kdirs k') p = {(dc, XN)}"
      "\<forall>j<4096. pmem (kvm k') (p * 4096 + j) = 0"
      "\<forall>d'\<in>kdirs k. \<forall>n<UPG. amap (kvm k) d' n \<noteq> 0 \<and> \<not> (d' = d \<and> n = XN) \<and> spare (kvm k') (kdirs k') (pa2page (amap (kvm k) d' n))
          \<longrightarrow> (\<forall>j<4096. pmem (kvm k') (pa2page (amap (kvm k) d' n) * 4096 + j) = pmem (kvm k) (pa2page (amap (kvm k) d' n) * 4096 + j))"
      "\<forall>i. i \<noteq> e \<and> i \<noteq> c \<longrightarrow> envs k' i = envs k i"
    by blast
  have dk: "d \<in> kdirs k" using k(1,3,4) kdirsI [of k c d] by (auto simp: kinv_def)
  have ok: "pa2page (amap (kvm k) d n) < 1048576 \<and> pa2page (amap (kvm k) d n) \<noteq> 0" if "n < UPG" "amap (kvm k) d n \<noteq> 0" for n
    using mapped_spare(1) [OF ms_invD(1) [OF k(2)] dk that] as_invD(1) [OF ms_invD(1) [OF k(2)]] by (auto simp: spare_def)
  have pg: "pa2page (amap (kvm k') dc n) = pa2page (amap (kvm k) d n) \<and> pa2page (amap (kvm k') d n) = pa2page (amap (kvm k) d n)"
    if "n < vpn USTACKTOP" "shown (amap (kvm k) d n)" for n
    using that f(12) pte_page [of "amap (kvm k) d n"] ok [of n] shown_nz XN_props(4) by auto
  have own: "ubyte k' dc va = ubyte k d va \<and> ubyte k' d va = ubyte k d va" if va: "va < USTACKTOP" for va
  proof -
    have u: "va < UTOP" using va by (simp add: word_less_nat_alt mmu_consts)
    have n: "vpn va < vpn USTACKTOP" using va by (simp add: word_less_nat_alt vpn_def mmu_consts)
    then have "vpn va \<noteq> XN" "vpn va < UPG" using XN_props by auto
    then show ?thesis
      using ubyte_same [OF k(2) f(3) dk _ u, of dc] ubyte_same [OF k(2) f(3) dk _ u, of d] f(11,12,17) dk n pg [OF n] pte_flags(1,2) by simp
  qed
  have other: "ubyte k' d' va = ubyte k d' va" if "d' \<in> kdirs k" "d' \<noteq> d" "va < UTOP" for d' va
    using ubyte_same [OF k(2) f(3) that(1) _ that(3), of d'] f(11,13,17) that vpn_user [OF that(3)] by auto
  have oth: "\<forall>n<UPG. amap (kvm k') d' n = amap (kvm k) d' n" if "d' \<in> kdirs k" "d' \<noteq> d" for d' using f(13) that by blast
  have ro: "forked (amap (kvm k) d n) (amap (kvm k') dc n) (amap (kvm k') d n)"
    if "n < vpn USTACKTOP" "shown (amap (kvm k) d n)" for n
    using f(12) that pte_flags(3-6) [of "amap (kvm k) d n"] by (simp add: forked_def cowable_def)
  show ?thesis
    using f own other oth ro pg
    by (intro exI [of _ child] exI [of _ dc] exI [of _ k'] exI [of _ p] exI [of _ xs']) simp
qed

text \<open>
  A running environment with directory 1, its table in page 9 and a writable page 5 at \<open>0x800000\<close> that holds 42,
  and a child with the empty directory 4; page 6 is the kernel's directory and eight pages are free.
\<close>

definition mem_fork :: bytemem where
  "mem_fork = set32 (1 * 4096 + 4 * 957) 0x1005 (set32 (4 * 4096 + 4 * 957) 0x4005
     (set32 (1 * 4096 + 4 * 2) 0x9007 (set32 (9 * 4096 + 4 * 0) 0x5007 ((\<lambda>_. 0)(20480 := 42)))))"

definition vm_fork :: vm where
  "vm_fork = vm_dir\<lparr>pmem := mem_fork, pp_ref := (\<lambda>_. 0)(5 := 1, 9 := 1), kern_pgdir := 6 * 4096,
     pp_link := [7 \<mapsto> 8, 8 \<mapsto> 10, 10 \<mapsto> 11, 11 \<mapsto> 12, 12 \<mapsto> 13, 13 \<mapsto> 14, 14 \<mapsto> 15], page_free_list := Some 7\<rparr>"

definition kern_fork :: kern where
  "kern_fork = kern_as\<lparr>kvm := vm_fork, env_free_list := Some 3\<rparr>"

lemma mem_fork_ent:
  assumes "j < 1024" "q \<noteq> 5"
  shows "ent mem_fork q j = (if q = 1 \<and> j = 957 then 0x1005 else if q = 4 \<and> j = 957 then 0x4005
    else if q = 1 \<and> j = 2 then 0x9007 else if q = 9 \<and> j = 0 then 0x5007 else 0)"
proof -
  have "ent ((\<lambda>_. 0)(5 * 4096 := b)) q j = ent (\<lambda>_. 0) q j" for b :: u8 using ent_byte [of "5 * 4096" q j "\<lambda>_. 0" b] assms by simp
  then have "ent ((\<lambda>_. 0)(20480 := 42)) q j = 0" by (simp add: ent_def get32_def get16_def)
  then show ?thesis unfolding mem_fork_def using assms by (simp only: ent_set numeral_less_iff rel_simps if_cancel)
qed

lemma mem_fork_byte: "mem_fork 20480 = 42"
  by (simp add: mem_fork_def set32_other)

lemma vm_fork_map:
  "d \<in> {1, 4} \<Longrightarrow> i < UPD \<Longrightarrow> pde vm_fork d i = (if d = 1 \<and> i = 2 then 0x9007 else 0)"
  "d \<in> {1, 4} \<Longrightarrow> n < UPG \<Longrightarrow> amap vm_fork d n = (if d = 1 \<and> n = 2048 then 0x5007 else 0)"
proof -
  have m: "pmem vm_fork = mem_fork" by (simp add: vm_fork_def)
  show p: "pde vm_fork d i = (if d = 1 \<and> i = 2 then 0x9007 else 0)" if "d \<in> {1, 4}" "i < UPD" for d i
    using that mem_fork_ent [OF UPD_less [OF that(2)], of d] UPD_def by (auto simp: pde_def m)
  have n: "n div 1024 = 2 \<and> n mod 1024 = 0 \<longleftrightarrow> n = 2048" by auto
  have pg: "pa2page 0x9007 = 9" by (simp add: pa2page_def unat_PGNUM)
  show "amap vm_fork d n = (if d = 1 \<and> n = 2048 then 0x5007 else 0)" if "d \<in> {1, 4}" "n < UPG"
    using that p [OF that(1) UPG_div [OF that(2)]] mem_fork_ent [of "n mod 1024" 9] n pg
    by (auto simp: amap_def m)
qed

lemma vm_fork_maps: "maps vm_fork {1, 4} p = (if p = 5 then {(1, 2048)} else {})" "tables vm_fork {1, 4} = {9}"
proof -
  have pg: "pa2page 0x9007 = 9" "pa2page 0x5007 = 5" by (simp_all add: pa2page_def unat_PGNUM)
  have u: "2 < UPD" "2048 < UPG" by (simp_all add: UPG_def UPD_def)
  show "maps vm_fork {1, 4} p = (if p = 5 then {(1, 2048)} else {})"
    using u(2) vm_fork_map(2) pg by (auto simp: maps_def split: if_splits)
  have "pde vm_fork 1 2 = 0x9007" using vm_fork_map(1) [of 1 2] u(1) by simp
  then have "9 \<in> tables vm_fork {1, 4}" using tablesI [of 1 "{1, 4}" 2 vm_fork] u(1) pg by simp
  moreover have "tables vm_fork {1, 4} \<subseteq> {9}" using vm_fork_map(1) pg by (auto simp: tables_def split: if_splits)
  ultimately show "tables vm_fork {1, 4} = {9}" by blast
qed

lemma vm_fork_inv: "ms_inv vm_fork {1, 4} [7, 8, 10, 11, 12, 13, 14, 15]"
proof -
  have f: "npages vm_fork = 16" "pp_ref vm_fork = (\<lambda>_. 0)(5 := 1, 9 := 1)" "pmem vm_fork = mem_fork" "kern_pgdir vm_fork = 6 * 4096"
    "pp_link vm_fork = [7 \<mapsto> 8, 8 \<mapsto> 10, 10 \<mapsto> 11, 11 \<mapsto> 12, 12 \<mapsto> 13, 13 \<mapsto> 14, 14 \<mapsto> 15]" "page_free_list vm_fork = Some 7"
    using vm_dir_fields by (simp_all add: vm_fork_def)
  have pg: "pa2page 0x9007 = 9" "pa2page 0x5007 = 5" by (simp_all add: pa2page_def unat_PGNUM)
  have "as_inv vm_fork {1, 4} [7, 8, 10, 11, 12, 13, 14, 15]"
    unfolding as_inv_def spare_def vm_fork_maps f free_pages_def using pg by (auto simp: vm_fork_map split: if_splits)
  moreover have "\<forall>i<UPD. ent (pmem vm_fork) 6 i = 0" using mem_fork_ent [of _ 6] UPD_less by (simp add: f(3))
  moreover have "spare vm_fork {1, 4} 6" unfolding spare_def vm_fork_maps f by simp
  moreover have "pde vm_fork d UVPDX = page2pa d OR PTE_P OR PTE_U" if "d \<in> {1, 4}" for d
    using that mem_fork_ent [of UVPDX d] by (auto simp: pde_def f(3) UVPDX_def page2pa_def mmu_consts push_bit_of_nat push_bit_nat_def)
  ultimately show ?thesis
    unfolding ms_inv_def using f(4) vm_fork_maps(1) [of 6] vm_fork_map(1) by (intro conjI exI [of _ 6]) (auto split: if_splits)
qed

lemma kern_fork_ok: "kinv kern_fork" "kdirs kern_fork = {1, 4}" "kmem kern_fork [7, 8, 10, 11, 12, 13, 14, 15]"
proof -
  show d: "kdirs kern_fork = {1, 4}" using kern_as_dirs by (simp add: kdirs_def kern_fork_def)
  show "kmem kern_fork [7, 8, 10, 11, 12, 13, 14, 15]" unfolding d using vm_fork_inv by (simp add: kern_fork_def)
  have "free_ok kern_fork" by (auto simp: free_ok_def free_envs_def kern_fork_def kern_as_def kern_two_def zero_env_def NENV_def intro!: exI [of _ "[3]"])
  then show "kinv kern_fork" by (simp add: kinv_def kern_fork_def kern_as_def kern_two_def zero_env_def NENV_def)
qed

theorem fork_copies_witness:
  "\<exists>child dc k'. fork 0x800020 0x800040 \<lparr>thisenv = 0, pgfault_handler = 0\<rparr> kern_fork
      = Done (child, \<lparr>thisenv = 0, pgfault_handler = 0x800040\<rparr>) k'
    \<and> env_pgdir (envs k' 3) = Some (dc * 4096) \<and> ubyte k' dc 0x800000 = Some 42
    \<and> amap (kvm k') dc 2048 AND PTE_COW \<noteq> 0 \<and> amap (kvm k') 1 2048 AND PTE_COW \<noteq> 0 \<and> amap (kvm k') 1 2048 AND PTE_W = 0"
proof -
  have f: "curenv kern_fork = Some 0" "cr3 kern_fork = 1 * 4096" "env_free_list kern_fork = Some 3" "kvm kern_fork = vm_fork"
    by (simp_all add: kern_fork_def kern_as_def kern_two_def)
  have u: "2 < UPD" "(0x800020 :: u32) \<noteq> 0" "(0x800000 :: u32) < USTACKTOP" "(0x800000 :: u32) < UTOP"
    by (simp_all add: UPD_def mmu_consts)
  have "{i. i < UPD \<and> pde vm_fork 1 i \<noteq> 0} = {2}" using vm_fork_map(1) [of 1] u(1) by (auto split: if_splits)
  then have r: "card {i. i < UPD \<and> pde (kvm kern_fork) 1 i \<noteq> 0} + 6 \<le> length [7, 8, 10, 11, 12, 13, 14, 15 :: nat]" by (simp add: f(4))
  have c: "\<forall>q. 2 * card (maps (kvm kern_fork) (kdirs kern_fork) q) + 4 < 65536" unfolding f(4) kern_fork_ok(2) vm_fork_maps(1) by simp
  have a: "amap vm_fork 1 2048 = 0x5007" using vm_fork_map(2) [of 1 2048] by (simp add: UPG_def UPD_def)
  then have b: "ubyte kern_fork 1 0x800000 = Some 42"
    using ubyte_amap [OF kern_fork_ok(3), of 1 "0x800000"] u(4) mem_fork_byte
    by (simp add: kern_fork_ok(2) f(4) vpn_example(1) shown_def mmu_consts pa2page_def unat_PGNUM vm_fork_def)
  have e: "shown 0x5007" "2048 < vpn USTACKTOP" by (simp_all add: shown_def vpn_def mmu_consts)
  have w: "forked 0x5007 x y \<Longrightarrow> x AND PTE_COW \<noteq> 0 \<and> y AND PTE_COW \<noteq> 0 \<and> y AND PTE_W = 0" for x y
    by (simp add: forked_def fork_consts)
  from fork_copies [OF kern_fork_ok(1,3) f(1-3) u(2) r c, of "0x800040" "\<lparr>thisenv = 0, pgfault_handler = 0\<rparr>"] obtain child dc k' where
    k': "fork 0x800020 0x800040 \<lparr>thisenv = 0, pgfault_handler = 0\<rparr> kern_fork = Done (child, \<lparr>thisenv = 0, pgfault_handler = 0x800040\<rparr>) k'"
      "env_pgdir (envs k' 3) = Some (dc * 4096)" "\<forall>va<USTACKTOP. ubyte k' dc va = ubyte kern_fork 1 va \<and> ubyte k' 1 va = ubyte kern_fork 1 va"
      "\<forall>n<vpn USTACKTOP. shown (amap (kvm kern_fork) 1 n) \<longrightarrow> forked (amap (kvm kern_fork) 1 n) (amap (kvm k') dc n) (amap (kvm k') 1 n)"
    by auto
  have "forked (amap vm_fork 1 2048) (amap (kvm k') dc 2048) (amap (kvm k') 1 2048)" using k'(4) e a unfolding f(4) by metis
  from w [OF this [unfolded a]] show ?thesis using k'(1-3) b u(3) by (intro exI [of _ child] exI [of _ dc] exI [of _ k']) simp
qed

end
