(* ===== verification/CowProps.thy ===== *)
theory CowProps
  imports ForkProps
begin

text \<open>
  The page-fault handler of \<open>fork.c\<close>: it replaces the page at the faulting address by a writable copy
  that no other address space maps, and neither the program nor any other sees a byte change.  And what a program
  may do with a page that is mapped read-only.
\<close>

section \<open>Loads and stores within a page\<close>

text \<open>The entries that translate page \<open>n\<close> of directory \<open>d\<close>.\<close>

definition trans_ok :: "bytemem \<Rightarrow> nat \<Rightarrow> nat \<Rightarrow> nat \<Rightarrow> bool \<Rightarrow> bool" where
  "trans_ok m d n p wr \<longleftrightarrow>
     (let pde = ent m d (n div 1024); pte = ent m (pa2page pde) (n mod 1024) in
      shown pde \<and> shown pte \<and> pa2page pte = p \<and> (wr \<longrightarrow> pde AND PTE_W \<noteq> 0 \<and> pte AND PTE_W \<noteq> 0 \<and> p \<noteq> d \<and> p \<noteq> pa2page pde))"

lemma trans_ok_amap:
  assumes "ms_inv s D xs" "d \<in> D" "n < UPG" "shown (amap s d n)"
  shows "trans_ok (pmem s) d n (pa2page (amap s d n)) False"
    "amap s d n AND PTE_W \<noteq> 0 \<Longrightarrow> trans_ok (pmem s) d n (pa2page (amap s d n)) True"
proof -
  note nz = shown_nz [OF assms(4)]
  then have pd: "pde s d (n div 1024) \<noteq> 0" by (auto simp: amap_def)
  note u = UPG_div [OF assms(3)]
  note f = user_flags [OF ms_invD(3) [OF assms(1,2) u pd]]
  have a: "amap s d n = ent (pmem s) (pa2page (pde s d (n div 1024))) (n mod 1024)" using pd by (simp add: amap_def)
  have "spare s D (pa2page (amap s d n))" by (rule mapped_spare(1) [OF ms_invD(1) [OF assms(1)] assms(2,3) nz])
  then have "pa2page (amap s d n) \<noteq> d" "pa2page (amap s d n) \<noteq> pa2page (pde s d (n div 1024))"
    using assms(2) tablesI [OF assms(2) u pd] by (auto simp: spare_def)
  then show "trans_ok (pmem s) d n (pa2page (amap s d n)) False"
    "amap s d n AND PTE_W \<noteq> 0 \<Longrightarrow> trans_ok (pmem s) d n (pa2page (amap s d n)) True"
    using f assms(4) by (simp_all add: trans_ok_def Let_def a pde_def shown_def)
qed

lemma trans_ok_utranslate:
  assumes "trans_ok m d n p wr" "unat va = n * 4096 + j" "j < 4096"
  shows "utranslate (d * 4096) wr va m = Some (p * 4096 + j)"
proof -
  have "vpn va = n" "unat va mod 4096 = j" using assms(2,3) by (simp_all add: vpn_def)
  then show ?thesis using assms(1) by (auto simp: trans_ok_def Let_def utranslate_vpn shown_def)
qed

lemma trans_ok_store:
  assumes "trans_ok m d n p True" "a div 4096 = p" "n < UPG"
  shows "trans_ok (m(a := b)) d n p True"
proof -
  have p: "a div 4096 \<noteq> d" "a div 4096 \<noteq> pa2page (ent m d (n div 1024))" using assms by (auto simp: trans_ok_def Let_def)
  have "ent (m(a := b)) d (n div 1024) = ent m d (n div 1024)" using ent_byte [OF p(1)] UPD_less [OF UPG_div [OF assms(3)]] by simp
  then show ?thesis using assms(1) ent_byte [OF p(2), of "n mod 1024" m b] by (simp add: trans_ok_def Let_def)
qed

lemma next_byte: "n < UPG \<Longrightarrow> unat (va :: u32) = n * 4096 + j \<Longrightarrow> j < 4096 \<Longrightarrow> unat (va + 1) = n * 4096 + Suc j"
  by (simp add: unat_word_ariths UPG_def UPD_def)

lemma uload_page:
  assumes "trans_ok (pmem (kvm k)) d n p False" "cr3 k = d * 4096" "n < UPG"
  shows "unat va = n * 4096 + j \<Longrightarrow> j + l \<le> 4096 \<Longrightarrow> uload va l k = Some (get_bytes (pmem (kvm k)) (p * 4096 + j) l)"
proof (induction l arbitrary: va j)
  case (Suc l)
  then show ?case
    using trans_ok_utranslate [OF assms(1) Suc.prems(1)] Suc.IH [of "va + 1" "Suc j"] next_byte [OF assms(3) Suc.prems(1)]
    by (simp add: assms(2) get_bytes_Suc)
qed simp

lemma ustore_page:
  assumes "n < UPG"
  shows "trans_ok (pmem (kvm k)) d n p True \<Longrightarrow> cr3 k = d * 4096 \<Longrightarrow> unat va = n * 4096 + j \<Longrightarrow> j + length bs \<le> 4096 \<Longrightarrow>
    ustore va bs k = Some (k\<lparr>kvm := (kvm k)\<lparr>pmem := set_bytes (p * 4096 + j) bs (pmem (kvm k))\<rparr>\<rparr>)"
proof (induction bs arbitrary: va j k)
  case (Cons b bs)
  have j: "j < 4096" using Cons.prems(4) by simp
  let ?k = "k\<lparr>kvm := (kvm k)\<lparr>pmem := (pmem (kvm k))(p * 4096 + j := b)\<rparr>\<rparr>"
  have "trans_ok (pmem (kvm ?k)) d n p True" "cr3 ?k = d * 4096" "Suc j + length bs \<le> 4096"
    using trans_ok_store [OF Cons.prems(1) _ assms] j Cons.prems(2,4) by simp_all
  from Cons.IH [OF this(1,2) next_byte [OF assms Cons.prems(3) j] this(3)] show ?case
    using trans_ok_utranslate [OF Cons.prems(1,3) j] Cons.prems(2) by (simp add: fun_upd_def)
qed simp

text \<open>New contents of one mapped page.\<close>

lemma store_ms:
  assumes ms: "ms_inv s D xs" and p: "maps s D p \<noteq> {}" and l: "length bs \<le> 4096"
  defines "s' \<equiv> s\<lparr>pmem := set_bytes (p * 4096) bs (pmem s)\<rparr>"
  shows "ms_inv s' D xs" "d \<in> D \<Longrightarrow> n < UPG \<Longrightarrow> amap s' d n = amap s d n" "d \<in> D \<Longrightarrow> i < 1024 \<Longrightarrow> pde s' d i = pde s d i"
    "maps s' D q = maps s D q" "spare s' D q = spare s D q" "q \<noteq> p \<Longrightarrow> j < 4096 \<Longrightarrow> pmem s' (q * 4096 + j) = pmem s (q * 4096 + j)"
proof -
  note inv = ms_invD(1) [OF ms]
  have sp: "spare s D p" using as_invD(9) [OF inv p] by simp
  show oth: "pmem s' (q * 4096 + j) = pmem s (q * 4096 + j)" if "q \<noteq> p" "j < 4096" for q j
  proof -
    have "q * 4096 + 4096 \<le> p * 4096 \<or> p * 4096 + 4096 \<le> q * 4096" using pages_apart [of "q * 4096" "p * 4096"] that(1) by simp
    then show ?thesis using that(2) l by (auto simp: s'_def set_bytes_apply)
  qed
  have e: "ent (pmem s') q i = ent (pmem s) q i" if "q \<noteq> p" "i < 1024" for q i
    using ent_page [of "pmem s'" q "pmem s" i] oth that by blast
  have e': "ent (pmem s') q i = ent (pmem s) q i" if "q \<in> D \<union> tables s D" "i < 1024" for q i
    using e [of q i] that sp by (auto simp: spare_def)
  note st = same_tables [of D s s', OF e']
  show am: "amap s' d n = amap s d n" if "d \<in> D" "n < UPG" for d n using st(2) that by blast
  show pd: "pde s' d i = pde s d i" if "d \<in> D" "i < 1024" for d i using e' [of d i] that by (simp add: pde_def)
  note sh = same_shape [of D s' s, OF st]
  have np: "npages s' = npages s" by (simp add: s'_def)
  show mq: "maps s' D q = maps s D q" for q using sh(2) by blast
  show sq: "spare s' D q = spare s D q" for q using sh(3) np by blast
  have "as_inv s' D xs"
    by (rule as_inv_same [OF inv np st]) (use as_invD(6,7,8) [OF inv] in \<open>auto simp: free_pages_def s'_def\<close>)
  then show "ms_inv s' D xs"
  proof (rule ms_step [OF ms])
    fix kd assume kd: "kern_pgdir s = kd * 4096" "spare s D kd" "kd \<notin> set xs" "maps s D kd = {}"
    then have "kd \<noteq> p" using p by auto
    with kd show "spare s' D kd \<and> kd \<notin> set xs \<and> maps s' D kd = {} \<and> (\<forall>j<4096. pmem s' (kd * 4096 + j) = pmem s (kd * 4096 + j))"
      using sq mq oth [of kd] by auto
  qed (use pd UPD_less in \<open>auto simp: s'_def\<close>)
qed

section \<open>The handler\<close>

definition PFN :: nat where "PFN = vpn PFTEMP"

lemma PFN_props: "PFN < UPG" "va_ok PFTEMP" "unat PFTEMP = PFN * 4096 + 0"
  by (simp_all add: PFN_def vpn_def mmu_consts UPG_def UPD_def va_ok_def word_le_nat_alt)

lemma fault_addr:
  assumes "va < UTOP"
  shows "unat (ROUNDDOWN va PGSIZE) = vpn va * 4096 + 0" "va_ok (ROUNDDOWN va PGSIZE)" "vpn (ROUNDDOWN va PGSIZE) = vpn va"
    "PGNUM va = of_nat (vpn va)"
proof -
  show u: "unat (ROUNDDOWN va PGSIZE) = vpn va * 4096 + 0" by (simp add: ROUNDDOWN_page unat_PTE_ADDR pa2page_def unat_PGNUM vpn_def)
  have "unat va < unat UTOP" using assms by (simp add: word_less_nat_alt)
  moreover have "vpn va * 4096 \<le> unat va" by (simp add: vpn_def)
  ultimately have "ROUNDDOWN va PGSIZE < UTOP" using u by (simp add: word_less_nat_alt)
  moreover have "unat (ROUNDDOWN va PGSIZE mod PGSIZE) = 0" unfolding unat_mod u by (simp add: PGSIZE_def)
  then have "ROUNDDOWN va PGSIZE mod PGSIZE = 0" by (intro unat_eqI) simp
  ultimately show "va_ok (ROUNDDOWN va PGSIZE)" by (simp add: va_ok_def)
  show "vpn (ROUNDDOWN va PGSIZE) = vpn va" using u by (simp add: vpn_def)
  have "unat va div 4096 < 4294967296" using unsigned_less [of va] by (intro le_less_trans [OF div_le_dividend]) simp
  then show "PGNUM va = of_nat (vpn va)" by (intro unat_eqI) (simp add: unat_PGNUM vpn_def unat_of_nat)
qed

text \<open>The copy into the temporary page, from the allocation on.\<close>

lemma copy_page:
  assumes k: "kinv k" "kmem k (p # q # ys)" "curenv k = Some c" "cr3 k = d * 4096"
    and va: "va_ok va" "unat va = n * 4096 + 0" "n < UPG" "n \<noteq> PFN" "shown (amap (kvm k) d n)"
  shows "\<exists>v xs'. or_panic (sys_page_alloc_u 0 PFTEMP (PTE_W OR PTE_U OR PTE_P) k) (\<lambda>k. user_copy PFTEMP va (unat PGSIZE) k) = Done () (put_vm v k)
     \<and> ms_inv v (kdirs k) xs' \<and> maps v (kdirs k) p = {(d, PFN)}
     \<and> (\<forall>d'\<in>kdirs k. \<forall>m<UPG. amap v d' m = (if d' = d \<and> m = PFN then page2pa p OR (PTE_W OR PTE_U OR PTE_P) OR PTE_P else amap (kvm k) d' m))
     \<and> (\<forall>j<4096. pmem v (p * 4096 + j) = pmem (kvm k) (pa2page (amap (kvm k) d n) * 4096 + j))
     \<and> (\<forall>q. spare v (kdirs k) q \<and> q \<noteq> p \<longrightarrow> (\<forall>j<4096. pmem v (q * 4096 + j) = pmem (kvm k) (q * 4096 + j)))"
proof -
  have c: "env_status (envs k c) \<noteq> ENV_FREE" "env_pgdir (envs k c) = Some (d * 4096)" using k(1,3,4) by (auto simp: kinv_def)
  note dk = kdirsI [OF c]
  have z: "envid2env 0 True k = Some (0, Some c)" using k(3) by (simp add: envid2env_def)
  let ?D = "kdirs k" and ?e = "page2pa p OR (PTE_W OR PTE_U OR PTE_P) OR PTE_P" and ?o = "pa2page (amap (kvm k) d n)"
  have pf: "maps (kvm k) ?D p = {}" "p < 1048576" "p \<noteq> 0"
    using as_invD(7) [OF ms_invD(1) [OF k(2)], of p] as_invD(1) [OF ms_invD(1) [OF k(2)]] by (auto simp: spare_def)
  note e = new_entry [OF pf(2,3) perm_okD [OF dup_perm_ok(5)]]
  from sys_page_alloc_ms [OF k(1,2) z c(2) PFN_props(2) dup_perm_ok(5)] obtain v zs where
    v: "sys_page_alloc 0 PFTEMP (PTE_W OR PTE_U OR PTE_P) k = Ret 0 (put_vm v k)" "ms_inv v ?D zs"
      "\<forall>d'\<in>?D. \<forall>m<UPG. amap v d' m = (if d' = d \<and> m = PFN then ?e else amap (kvm k) d' m)"
      "\<forall>q. spare v ?D q \<and> q \<noteq> p \<longrightarrow> spare (kvm k) ?D q \<and> (\<forall>j<4096. pmem v (q * 4096 + j) = pmem (kvm k) (q * 4096 + j))"
    unfolding PFN_def by auto
  have mp: "maps v ?D p = {(d, PFN)}" using maps_upd [of d ?D PFN v ?e "kvm k" p, OF dk PFN_props(1)] v(3) e pf(1) by simp
  have a: "amap v d PFN = ?e" "amap v d n = amap (kvm k) d n" using v(3) dk PFN_props(1) va(3,4) by auto
  have L: "(page2pa q OR x) AND 1 = x AND 1" "(page2pa q OR x) AND 4 = x AND 4" "(page2pa q OR x) AND 2 = x AND 2" for q x
    by (simp_all add: page_low_and)
  have fl: "shown ?e" "?e AND PTE_W \<noteq> 0" by (simp_all add: shown_def mmu_consts L)
  have t: "trans_ok (pmem v) d n ?o False" "trans_ok (pmem v) d PFN p True"
    using trans_ok_amap(1) [OF v(2) dk va(3)] trans_ok_amap(2) [OF v(2) dk PFN_props(1)] a fl e(1) va(5) by simp_all
  let ?bs = "get_bytes (pmem v) (?o * 4096) 4096"
  let ?w = "v\<lparr>pmem := set_bytes (p * 4096) ?bs (pmem v)\<rparr>"
  have ld: "uload va 4096 (put_vm v k) = Some ?bs" using uload_page [of "put_vm v k" d n ?o va 0 4096] t(1) va(2,3) k(4) by simp
  have st: "ustore PFTEMP ?bs (put_vm v k) = Some (put_vm ?w k)"
    using ustore_page [OF PFN_props(1), of "put_vm v k" d p PFTEMP 0 ?bs] t(2) PFN_props(3) k(4) by (simp add: put_vm_def)
  have run: "or_panic (sys_page_alloc_u 0 PFTEMP (PTE_W OR PTE_U OR PTE_P) k) (\<lambda>k. user_copy PFTEMP va (unat PGSIZE) k) = Done () (put_vm ?w k)"
    using stub_page_alloc [OF v(1)] ld st by (simp add: user_copy_def PGSIZE_def)
  have nz: "maps v ?D p \<noteq> {}" "length ?bs \<le> 4096" using mp by simp_all
  note S = store_ms [OF v(2) nz]
  have "?o \<noteq> p" using mapped_spare(4) [OF ms_invD(1) [OF k(2)] dk va(3) shown_nz [OF va(5)]] pf(1) by auto
  moreover have "spare v ?D ?o" using mapped_spare(1) [OF ms_invD(1) [OF v(2)] dk va(3)] a(2) shown_nz [OF va(5)] by simp
  ultimately have "pmem ?w (p * 4096 + j) = pmem (kvm k) (?o * 4096 + j)" if "j < 4096" for j
    using that v(4) by (simp add: set_bytes_apply)
  moreover have "pmem ?w (q * 4096 + j) = pmem (kvm k) (q * 4096 + j)" if "spare ?w ?D q" "q \<noteq> p" "j < 4096" for q j
    using S(5) [of q] S(6) [of q j] that v(4) by simp
  ultimately show ?thesis using run S(1,2,4) mp v(3) by (intro exI [of _ ?w] exI [of _ zs]) simp
qed

text \<open>A page at a temporary address \<open>T\<close> is moved to its place, in this or another environment.\<close>

lemma hand_over:
  assumes k: "kinv k" "ms_inv v (kdirs k) xs" "curenv k = Some c" "cr3 k = d * 4096"
    and T: "va_ok T" "maps v (kdirs k) p = {(d, vpn T)}"
    and dst: "envid2env dst True k = Some (0, Some e)" "env_pgdir (envs k e) = Some (dd * 4096)" "va_ok va" "vpn va = n"
      "(dd, n) \<noteq> (d, vpn T)" "perm_ok perm" "pde v dd (n div 1024) \<noteq> 0 \<or> xs \<noteq> []"
  shows "\<exists>v1 v2 xs'. sys_page_map 0 T dst va perm (put_vm v k) = Ret 0 (put_vm v1 k) \<and> sys_page_unmap 0 T (put_vm v1 k) = Ret 0 (put_vm v2 k)
     \<and> ms_inv v2 (kdirs k) xs' \<and> kept (kdirs k) v v2 \<and> maps v2 (kdirs k) p = {(dd, n)} \<and> length xs \<le> Suc (length xs')
     \<and> (pde v dd (n div 1024) \<noteq> 0 \<longrightarrow> length xs \<le> length xs')
     \<and> (\<forall>d'\<in>kdirs k. \<forall>i<UPD. (pde v2 d' i \<noteq> 0) = (pde v d' i \<noteq> 0 \<or> d' = dd \<and> i = n div 1024))
     \<and> (\<forall>d'\<in>kdirs k. \<forall>m<UPG. amap v2 d' m = (if d' = d \<and> m = vpn T then 0
          else if d' = dd \<and> m = n then page2pa p OR perm OR PTE_P else amap v d' m))"
proof -
  have c: "env_status (envs k c) \<noteq> ENV_FREE" "env_pgdir (envs k c) = Some (d * 4096)" using k(1,3,4) by (auto simp: kinv_def)
  note dk = kdirsI [OF c] and ddk = kdirsI [OF envid2env_live(2) [OF k(1) dst(1)] dst(2)]
  have z: "envid2env 0 True k = Some (0, Some c)" using k(3) by (simp add: envid2env_def)
  let ?D = "kdirs k" and ?e = "page2pa p OR perm OR PTE_P" and ?k = "put_vm v k" and ?N = "vpn T"
  have N: "?N < UPG" "n < UPG" using vpn_user [OF va_okD [OF T(1)]] vpn_user [OF va_okD [OF dst(3)]] dst(4) by simp_all
  have "(d, ?N) \<in> maps v ?D p" using T(2) by simp
  then have a: "amap v d ?N \<noteq> 0" "pa2page (amap v d ?N) = p" by (auto simp: maps_def)
  have "spare v ?D p" using as_invD(9) [OF ms_invD(1) [OF k(2)], of p] T(2) by simp
  then have pb: "p < 1048576" "p \<noteq> 0" using as_invD(1) [OF ms_invD(1) [OF k(2)]] by (auto simp: spare_def)
  note e = new_entry [OF pb perm_okD [OF dst(6)]]
  have "kinv ?k" "kmem ?k xs" "envid2env 0 True ?k = Some (0, Some c)" "env_pgdir (envs ?k c) = Some (d * 4096)"
    "envid2env dst True ?k = Some (0, Some e)" "env_pgdir (envs ?k e) = Some (dd * 4096)"
    "amap (kvm ?k) d (vpn T) \<noteq> 0" "card (maps (kvm ?k) (kdirs ?k) (pa2page (amap (kvm ?k) d (vpn T)))) + 1 < 65536"
    "pde (kvm ?k) dd (vpn va div 1024) \<noteq> 0 \<or> xs \<noteq> []"
    using k z c T a dst by simp_all
  from sys_page_map_ms [OF this(1-6) T(1) dst(3,6) this(7-9)] obtain v1 xs1 where
    v1: "sys_page_map 0 T dst va perm ?k = Ret 0 (put_vm v1 k)" "ms_inv v1 ?D xs1" "kept ?D v v1" "length xs \<le> Suc (length xs1)"
      "pde v dd (n div 1024) \<noteq> 0 \<longrightarrow> length xs \<le> length xs1"
      "\<forall>d'\<in>?D. \<forall>m<UPG. amap v1 d' m = (if d' = dd \<and> m = n then ?e else amap v d' m)"
      "\<forall>d'\<in>?D. \<forall>i<UPD. (pde v1 d' i \<noteq> 0) = (pde v d' i \<noteq> 0 \<or> d' = dd \<and> i = n div 1024)"
    unfolding as_put_vm kdirs_put_vm ms_vm put_vm_simps put_vm_fields dst(4) a(2) by blast
  have a1: "amap v1 d ?N \<noteq> 0" using v1(6) dk N(1) a(1) dst(5) by auto
  have "kinv (put_vm v1 k)" "kmem (put_vm v1 k) xs1" "envid2env 0 True (put_vm v1 k) = Some (0, Some c)"
    "env_pgdir (envs (put_vm v1 k) c) = Some (d * 4096)" "amap (kvm (put_vm v1 k)) d (vpn T) \<noteq> 0"
    using k(1) v1(2) z c a1 by simp_all
  from sys_page_unmap_ms [OF this(1-4) T(1) this(5)] obtain v2 xs2 where
    v2: "sys_page_unmap 0 T (put_vm v1 k) = Ret 0 (put_vm v2 k)" "ms_inv v2 ?D xs2" "kept ?D v1 v2" "length xs1 \<le> length xs2"
      "\<forall>d'\<in>?D. \<forall>m<UPG. amap v2 d' m = (if d' = d \<and> m = ?N then 0 else amap v1 d' m)" "\<forall>d'\<in>?D. \<forall>i<UPD. pde v2 d' i = pde v1 d' i"
    unfolding as_put_vm kdirs_put_vm ms_vm put_vm_simps put_vm_fields by blast
  have "maps v1 ?D p = maps v ?D p - {(dd, n)} \<union> {(dd, n)}" using maps_upd [of dd ?D n v1 ?e v p, OF ddk N(2)] v1(6) e by simp
  moreover have "maps v2 ?D p = maps v1 ?D p - {(d, ?N)}" using maps_upd [of d ?D ?N v2 0 v1 p, OF dk N(1)] v2(5) by simp
  ultimately have "maps v2 ?D p = {(dd, n)}" using T(2) dst(5) by auto
  moreover have "\<forall>d'\<in>?D. \<forall>m<UPG. amap v2 d' m = (if d' = d \<and> m = ?N then 0 else if d' = dd \<and> m = n then ?e else amap v d' m)"
    using v1(6) v2(5) by auto
  moreover have "\<forall>d'\<in>?D. \<forall>i<UPD. (pde v2 d' i \<noteq> 0) = (pde v d' i \<noteq> 0 \<or> d' = dd \<and> i = n div 1024)" using v1(7) v2(6) by simp
  moreover have "length xs \<le> Suc (length xs2)" "pde v dd (n div 1024) \<noteq> 0 \<longrightarrow> length xs \<le> length xs2" using v1(4,5) v2(4) by auto
  ultimately show ?thesis using v1(1) v2(1,2) kept_trans [OF v1(3) v2(3)] by blast
qed

text \<open>Moving the copy to its place.\<close>

lemma move_page:
  assumes k: "kinv k" "ms_inv v (kdirs k) xs" "curenv k = Some c" "cr3 k = d * 4096"
    and va: "va_ok va" "vpn va = n" "n \<noteq> PFN" "amap v d n \<noteq> 0" and p: "maps v (kdirs k) p = {(d, PFN)}"
  shows "\<exists>v' xs'. or_panic (sys_page_map_u 0 PFTEMP 0 va (PTE_W OR PTE_U OR PTE_P) (put_vm v k)) (\<lambda>k.
        or_panic (sys_page_unmap_u 0 PFTEMP k) (\<lambda>k. Done () k)) = Done () (put_vm v' k)
     \<and> ms_inv v' (kdirs k) xs' \<and> kept (kdirs k) v v' \<and> maps v' (kdirs k) p = {(d, n)}
     \<and> (\<forall>d'\<in>kdirs k. \<forall>m<UPG. amap v' d' m = (if d' = d \<and> m = PFN then 0
          else if d' = d \<and> m = n then page2pa p OR (PTE_W OR PTE_U OR PTE_P) OR PTE_P else amap v d' m))"
proof -
  have c: "env_pgdir (envs k c) = Some (d * 4096)" using k(1,3,4) by (auto simp: kinv_def)
  have z: "envid2env 0 True k = Some (0, Some c)" using k(3) by (simp add: envid2env_def)
  have pd: "(d, n) \<noteq> (d, vpn PFTEMP)" "pde v d (n div 1024) \<noteq> 0 \<or> xs \<noteq> []" using va(3,4) by (auto simp: amap_def PFN_def)
  from hand_over [OF k PFN_props(2) p [unfolded PFN_def] z c va(1,2) pd(1) dup_perm_ok(5) pd(2)] obtain v1 v2 xs2 where
    "sys_page_map 0 PFTEMP 0 va (PTE_W OR PTE_U OR PTE_P) (put_vm v k) = Ret 0 (put_vm v1 k)"
    "sys_page_unmap 0 PFTEMP (put_vm v1 k) = Ret 0 (put_vm v2 k)" "ms_inv v2 (kdirs k) xs2" "kept (kdirs k) v v2" "maps v2 (kdirs k) p = {(d, n)}"
    "\<forall>d'\<in>kdirs k. \<forall>m<UPG. amap v2 d' m = (if d' = d \<and> m = PFN then 0
          else if d' = d \<and> m = n then page2pa p OR (PTE_W OR PTE_U OR PTE_P) OR PTE_P else amap v d' m)" unfolding PFN_def by blast
  then show ?thesis using stub_page_map stub_page_unmap by (intro exI [of _ v2] exI [of _ xs2]) simp
qed

lemma ubind_or_panic: "ubind (or_panic m f) h = or_panic m (\<lambda>k. ubind (f k) h)"
  by (cases m) (simp_all add: or_panic_def)

lemma pgfault_run:
  assumes k: "kinv k" "kmem k xs" "curenv k = Some c" "cr3 k = d * 4096" "2 \<le> length xs"
    and va: "fault_va < UTOP" "vpn fault_va \<noteq> PFN" "shown (amap (kvm k) d (vpn fault_va))"
      "utf_err AND FEC_WR \<noteq> 0 \<or> amap (kvm k) d (vpn fault_va) AND PTE_COW \<noteq> 0"
  shows "\<exists>v p xs'. pgfault fault_va utf_err k = Done () (put_vm v k) \<and> ms_inv v (kdirs k) xs' \<and> maps (kvm k) (kdirs k) p = {}
     \<and> maps v (kdirs k) p = {(d, vpn fault_va)}
     \<and> (\<forall>d'\<in>kdirs k. \<forall>m<UPG. amap v d' m = (if d' = d \<and> m = PFN then 0
          else if d' = d \<and> m = vpn fault_va then page2pa p OR (PTE_W OR PTE_U OR PTE_P) OR PTE_P else amap (kvm k) d' m))
     \<and> (\<forall>j<4096. pmem v (p * 4096 + j) = pmem (kvm k) (pa2page (amap (kvm k) d (vpn fault_va)) * 4096 + j))
     \<and> (\<forall>q. spare v (kdirs k) q \<and> q \<noteq> p \<longrightarrow> (\<forall>j<4096. pmem v (q * 4096 + j) = pmem (kvm k) (q * 4096 + j)))"
proof -
  let ?n = "vpn fault_va" and ?a = "ROUNDDOWN fault_va PGSIZE" and ?D = "kdirs k"
  obtain p q ys where xs: "xs = p # q # ys" using k(5) by (auto simp: numeral_2_eq_2 Suc_le_length_iff)
  note a = fault_addr [OF va(1)] and n = vpn_user [OF va(1)]
  have dk: "d \<in> ?D" using k(1,3,4) kdirsI [of k c d] by (auto simp: kinv_def)
  have pf: "maps (kvm k) ?D p = {}" using as_invD(7) [OF ms_invD(1) [OF k(2)], of p] xs by simp
  have "pde (kvm k) d (?n div 1024) \<noteq> 0" using shown_nz [OF va(3)] by (auto simp: amap_def)
  then have rd: "uvpt (PGNUM fault_va) k = Some (amap (kvm k) d ?n)" unfolding a(4) by (rule uvpt_read [OF k(2) dk k(4) n])
  from copy_page [OF k(1) k(2) [unfolded xs] k(3,4) a(2,1) n va(2,3)] obtain v zs where
    v: "or_panic (sys_page_alloc_u 0 PFTEMP (PTE_W OR PTE_U OR PTE_P) k) (\<lambda>k. user_copy PFTEMP ?a (unat PGSIZE) k) = Done () (put_vm v k)"
      "ms_inv v ?D zs" "maps v ?D p = {(d, PFN)}"
      "\<forall>d'\<in>?D. \<forall>m<UPG. amap v d' m = (if d' = d \<and> m = PFN then page2pa p OR (PTE_W OR PTE_U OR PTE_P) OR PTE_P else amap (kvm k) d' m)"
      "\<forall>j<4096. pmem v (p * 4096 + j) = pmem (kvm k) (pa2page (amap (kvm k) d ?n) * 4096 + j)"
      "\<forall>q. spare v ?D q \<and> q \<noteq> p \<longrightarrow> (\<forall>j<4096. pmem v (q * 4096 + j) = pmem (kvm k) (q * 4096 + j))" by blast
  have "amap v d ?n \<noteq> 0" using v(4) dk n va(2) shown_nz [OF va(3)] by auto
  from move_page [OF k(1) v(2) k(3,4) a(2,3) va(2) this v(3)] obtain w ws where
    w: "or_panic (sys_page_map_u 0 PFTEMP 0 ?a (PTE_W OR PTE_U OR PTE_P) (put_vm v k)) (\<lambda>k.
        or_panic (sys_page_unmap_u 0 PFTEMP k) (\<lambda>k. Done () k)) = Done () (put_vm w k)" "ms_inv w ?D ws" "kept ?D v w" "maps w ?D p = {(d, ?n)}"
      "\<forall>d'\<in>?D. \<forall>m<UPG. amap w d' m = (if d' = d \<and> m = PFN then 0
          else if d' = d \<and> m = ?n then page2pa p OR (PTE_W OR PTE_U OR PTE_P) OR PTE_P else amap v d' m)" by blast
  have "pgfault fault_va utf_err k = Done () (put_vm w k)"
    using va(4) rd v(1) w(1) by (auto simp: pgfault_def with_word_def ubind_or_panic [symmetric])
  moreover have "spare w ?D p" using as_invD(9) [OF ms_invD(1) [OF w(2)], of p] w(4) by simp
  then have "\<forall>j<4096. pmem w (p * 4096 + j) = pmem (kvm k) (pa2page (amap (kvm k) d ?n) * 4096 + j)" using w(3) v(5) by (simp add: kept_def)
  moreover have "\<forall>q. spare w ?D q \<and> q \<noteq> p \<longrightarrow> (\<forall>j<4096. pmem w (q * 4096 + j) = pmem (kvm k) (q * 4096 + j))"
    using w(3) v(6) by (simp add: kept_def)
  moreover have "\<forall>d'\<in>?D. \<forall>m<UPG. amap w d' m = (if d' = d \<and> m = PFN then 0
          else if d' = d \<and> m = ?n then page2pa p OR (PTE_W OR PTE_U OR PTE_P) OR PTE_P else amap (kvm k) d' m)" using w(5) v(4) by auto
  ultimately show ?thesis using w(2,4) pf by blast
qed

text \<open>
  C6: the fault handler of \<open>fork\<close>.  On a write fault at a copy-on-write page, and with two free pages, the
  handler returns, and the page at that address is then writable and mapped nowhere else.  The program sees
  every byte it saw before, and all other environments see what they saw; the temporary address is not mapped any more, and no other
  mapping of any environment has changed.
\<close>

theorem pgfault_private:
  assumes k: "kinv k" "kmem k xs" "curenv k = Some c" "cr3 k = d * 4096" "2 \<le> length xs"
    and va: "fault_va < UTOP" "vpn fault_va \<noteq> vpn PFTEMP" "shown (amap (kvm k) d (vpn fault_va))"
      "utf_err AND FEC_WR \<noteq> 0" "amap (kvm k) d (vpn fault_va) AND PTE_COW \<noteq> 0"
  shows "\<exists>k' p xs'. pgfault fault_va utf_err k = Done () k' \<and> kinv k' \<and> kmem k' xs' \<and> envs k' = envs k \<and> kdirs k' = kdirs k
     \<and> amap (kvm k') d (vpn fault_va) = page2pa p OR (PTE_W OR PTE_U OR PTE_P) OR PTE_P \<and> maps (kvm k') (kdirs k) p = {(d, vpn fault_va)}
     \<and> (\<forall>va<UTOP. vpn va \<noteq> vpn PFTEMP \<longrightarrow> ubyte k' d va = ubyte k d va)
     \<and> (\<forall>d'\<in>kdirs k. d' \<noteq> d \<longrightarrow> (\<forall>va<UTOP. ubyte k' d' va = ubyte k d' va))
     \<and> amap (kvm k') d (vpn PFTEMP) = 0
     \<and> (\<forall>d'\<in>kdirs k. \<forall>n<UPG. \<not> (d' = d \<and> (n = vpn fault_va \<or> n = vpn PFTEMP)) \<longrightarrow> amap (kvm k') d' n = amap (kvm k) d' n)"
proof -
  let ?n = "vpn fault_va" and ?D = "kdirs k"
  note n = vpn_user [OF va(1)]
  have "utf_err AND FEC_WR \<noteq> 0 \<or> amap (kvm k) d ?n AND PTE_COW \<noteq> 0" using va(4) by simp
  from pgfault_run [OF k va(1) va(2) [folded PFN_def] va(3) this] obtain v p xs' where
    f: "pgfault fault_va utf_err k = Done () (put_vm v k)" "ms_inv v ?D xs'" "maps (kvm k) ?D p = {}" "maps v ?D p = {(d, ?n)}"
      "\<forall>d'\<in>?D. \<forall>m<UPG. amap v d' m = (if d' = d \<and> m = PFN then 0
          else if d' = d \<and> m = ?n then page2pa p OR (PTE_W OR PTE_U OR PTE_P) OR PTE_P else amap (kvm k) d' m)"
      "\<forall>j<4096. pmem v (p * 4096 + j) = pmem (kvm k) (pa2page (amap (kvm k) d ?n) * 4096 + j)"
      "\<forall>q. spare v ?D q \<and> q \<noteq> p \<longrightarrow> (\<forall>j<4096. pmem v (q * 4096 + j) = pmem (kvm k) (q * 4096 + j))" by blast
  let ?k = "put_vm v k"
  have dk: "d \<in> ?D" using k(1,3,4) kdirsI [of k c d] by (auto simp: kinv_def)
  have km: "kmem ?k xs'" using f(2) by simp
  have pg: "amap v d ?n = page2pa p OR (PTE_W OR PTE_U OR PTE_P) OR PTE_P" "pa2page (amap v d ?n) = p"
  proof -
    show a: "amap v d ?n = page2pa p OR (PTE_W OR PTE_U OR PTE_P) OR PTE_P" using f(5) dk n va(2) by (simp add: PFN_def)
    have "spare v ?D p" using as_invD(9) [OF ms_invD(1) [OF f(2)], of p] f(4) by simp
    then have "p < 1048576" "p \<noteq> 0" using as_invD(1) [OF ms_invD(1) [OF f(2)]] by (auto simp: spare_def)
    from new_entry(1) [OF this perm_okD [OF dup_perm_ok(5)]] a show "pa2page (amap v d ?n) = p" by simp
  qed
  have keep: "ubyte ?k d' va = ubyte k d' va" if "d' \<in> ?D" "va < UTOP" "\<not> (d' = d \<and> vpn va \<in> {PFN, ?n})" for d' va
  proof (rule ubyte_same [OF k(2) km that(1) _ that(2)])
    have am: "amap v d' (vpn va) = amap (kvm k) d' (vpn va)" using f(5) that vpn_user [OF that(2)] by auto
    then show "shown (amap (kvm ?k) d' (vpn va)) = shown (amap (kvm k) d' (vpn va))"
      "pa2page (amap (kvm ?k) d' (vpn va)) = pa2page (amap (kvm k) d' (vpn va))" by simp_all
    fix q assume q: "q = pa2page (amap (kvm k) d' (vpn va))" "amap (kvm k) d' (vpn va) \<noteq> 0" "spare (kvm ?k) (kdirs ?k) q"
    then have "q \<noteq> p" using mapped_spare(4) [OF ms_invD(1) [OF k(2)] that(1) vpn_user [OF that(2)]] f(3) by auto
    then show "\<forall>j<4096. pmem (kvm ?k) (q * 4096 + j) = pmem (kvm k) (q * 4096 + j)" using f(7) q(3) by simp
  qed (use that(1) in simp)
  have here: "ubyte ?k d va = ubyte k d va" if "va < UTOP" "vpn va = ?n" for va
    using ubyte_amap [OF km, of d va] ubyte_amap [OF k(2) dk that(1)] that dk va(3) pg f(6)
    by (simp add: shown_def mmu_consts page_low_and)
  have tmp: "amap v d (vpn PFTEMP) = 0" using f(5) dk PFN_props(1) by (simp add: PFN_def)
  have rest: "amap v d' n = amap (kvm k) d' n" if "d' \<in> ?D" "n < UPG" "\<not> (d' = d \<and> (n = ?n \<or> n = vpn PFTEMP))" for d' n
    using f(5) that by (auto simp: PFN_def)
  show ?thesis using f(1,2,4) k(1) pg keep [OF dk] here keep tmp rest
    by (intro exI [of _ ?k] exI [of _ p] exI [of _ xs']) (auto simp: PFN_def)
qed

text \<open>The parent of a \<open>fork\<close> writes to its page: here the mark is set by the system call that \<open>duppage\<close> makes.\<close>

lemma kern_fork_fields: "curenv kern_fork = Some 0" "cr3 kern_fork = 1 * 4096" "kvm kern_fork = vm_fork"
  "envid2env 0 True kern_fork = Some (0, Some 0)" "env_pgdir (envs kern_fork 0) = Some (1 * 4096)"
  by (simp_all add: kern_fork_def kern_as_def kern_two_def envid2env_def)

lemma kern_fork_remap:
  assumes "perm_ok perm"
  shows "\<exists>v xs. sys_page_map 0 0x800000 0 0x800000 perm kern_fork = Ret 0 (put_vm v kern_fork) \<and> ms_inv v {1, 4} xs \<and> 2 \<le> length xs
    \<and> (\<forall>d\<in>{1, 4}. \<forall>n<UPG. amap v d n = (if d = 1 \<and> n = 2048 then page2pa 5 OR perm OR PTE_P else 0)) \<and> amap v 1 2048 = page2pa 5 OR perm OR PTE_P"
proof -
  have n: "vpn 0x800000 = 2048" "2048 < UPG" "va_ok 0x800000" by (simp_all add: vpn_def mmu_consts UPG_def UPD_def va_ok_def)
  have a: "amap vm_fork 1 2048 = 0x5007" using vm_fork_map(2) [of 1 2048] n(2) by simp
  have p: "pa2page 0x5007 = 5" by (simp add: pa2page_def unat_PGNUM)
  have "pde vm_fork 1 (2048 div 1024) \<noteq> 0" using a by (auto simp: amap_def)
  moreover have "card (maps vm_fork {1, 4} 5) + 1 < 65536" unfolding vm_fork_maps(1) by simp
  ultimately obtain v xs where v: "sys_page_map 0 0x800000 0 0x800000 perm kern_fork = Ret 0 (put_vm v kern_fork)" "ms_inv v {1, 4} xs" "2 \<le> length xs"
    "\<forall>d\<in>{1, 4}. \<forall>m<UPG. amap v d m = (if d = 1 \<and> m = 2048 then page2pa 5 OR perm OR PTE_P else amap vm_fork d m)"
    using sys_page_map_ms [OF kern_fork_ok(1,3) kern_fork_fields(4,5,4,5) n(3,3) assms] a
    unfolding kern_fork_fields kern_fork_ok(2) n(1) a p by fastforce
  have m: "\<forall>d\<in>{1, 4}. \<forall>m<UPG. amap v d m = (if d = 1 \<and> m = 2048 then page2pa 5 OR perm OR PTE_P else 0)"
    using v(4) vm_fork_map(2) by simp
  then have "amap v 1 2048 = page2pa 5 OR perm OR PTE_P" using n(2) by simp
  with v(1-3) m show ?thesis by blast
qed

theorem pgfault_private_witness:
  "\<exists>k1 k' p. sys_page_map 0 0x800000 0 0x800000 (PTE_COW OR PTE_U OR PTE_P) kern_fork = Ret 0 k1
     \<and> amap (kvm k1) 1 2048 AND PTE_COW \<noteq> 0 \<and> amap (kvm k1) 1 2048 AND PTE_W = 0
     \<and> pgfault 0x800123 7 k1 = Done () k' \<and> maps (kvm k') {1, 4} p = {(1, 2048)} \<and> ubyte k' 1 0x800000 = ubyte k1 1 0x800000"
proof -
  obtain v xs where v: "sys_page_map 0 0x800000 0 0x800000 (PTE_COW OR PTE_U OR PTE_P) kern_fork = Ret 0 (put_vm v kern_fork)"
    "ms_inv v {1, 4} xs" "2 \<le> length xs" "amap v 1 2048 = page2pa 5 OR (PTE_COW OR PTE_U OR PTE_P) OR PTE_P"
    using kern_fork_remap [OF dup_perm_ok(2)] by blast
  let ?k = "put_vm v kern_fork"
  have e: "amap v 1 2048 = 0x5805" unfolding v(4) by (simp add: page2pa_def fork_consts)
  have n: "vpn 0x800123 = 2048" "vpn 0x800000 = 2048" "vpn PFTEMP = 2047" "(0x800123 :: u32) < UTOP" "(0x800000 :: u32) < UTOP"
    by (simp_all add: vpn_def mmu_consts)
  have h: "kinv ?k" "kmem ?k xs" "curenv ?k = Some 0" "cr3 ?k = 1 * 4096" "vpn 0x800123 \<noteq> vpn PFTEMP"
    "shown (amap (kvm ?k) 1 (vpn 0x800123))" "(7 :: u32) AND FEC_WR \<noteq> 0" "amap (kvm ?k) 1 (vpn 0x800123) AND PTE_COW \<noteq> 0"
    using kern_fork_ok(1,2) v(2) n e kern_fork_fields by (simp_all add: shown_def FEC_WR_def fork_consts)
  from pgfault_private [OF h(1-4) v(3) n(4) h(5-8)] obtain k' p where
    "pgfault 0x800123 7 ?k = Done () k'" "maps (kvm k') (kdirs ?k) p = {(1, vpn 0x800123)}"
    "\<forall>va<UTOP. vpn va \<noteq> vpn PFTEMP \<longrightarrow> ubyte k' 1 va = ubyte ?k 1 va" by blast
  then show ?thesis using v(1) n e kern_fork_ok(2) by (intro exI [of _ ?k] exI [of _ k'] exI [of _ p]) (simp add: fork_consts)
qed

section \<open>Read-only pages\<close>

lemma va_ok_page: "va_ok va \<Longrightarrow> unat va mod 4096 = 0" "va_ok va \<Longrightarrow> unat va = vpn va * 4096 + 0"
proof -
  show m: "unat va mod 4096 = 0" if "va_ok va"
  proof -
    have "unat (va mod PGSIZE) = 0" using that by (simp add: va_ok_def)
    then show ?thesis by (simp add: unat_mod PGSIZE_def)
  qed
  show "unat va = vpn va * 4096 + 0" if "va_ok va" using m [OF that] div_mult_mod_eq [of "unat va" 4096] by (simp only: vpn_def)
qed

text \<open>
  C28: \<open>sys_page_map\<close> does not protect read-only pages.  A program has a page it may read but not write: a store
  there faults.  It maps the page with write permission at another address of its own; the call
  returns 0 where its comment promises \<open>-E_INVAL\<close>, because the test looks at the address of the entry instead of the entry.
  The new mapping refers to the same page and is writable, a store through it succeeds, and every
  environment that has the page mapped, read-only or not, sees the new byte.
\<close>

theorem page_map_ignores_write_protection:
  assumes k: "kinv k" "kmem k xs" "curenv k = Some c" "cr3 k = d * 4096"
    and va: "va_ok srcva" "va_ok dstva" "shown (amap (kvm k) d (vpn srcva))" "amap (kvm k) d (vpn srcva) AND PTE_W = 0"
    and room: "card (maps (kvm k) (kdirs k) (pa2page (amap (kvm k) d (vpn srcva)))) + 1 < 65536"
      "pde (kvm k) d (vpn dstva div 1024) \<noteq> 0 \<or> xs \<noteq> []"
  shows "ustore srcva [b] k = None
     \<and> (\<exists>k' k''. sys_page_map 0 srcva 0 dstva (PTE_W OR PTE_U OR PTE_P) k = Ret 0 k' \<and> amap (kvm k') d (vpn dstva) AND PTE_W \<noteq> 0
       \<and> pa2page (amap (kvm k') d (vpn dstva)) = pa2page (amap (kvm k) d (vpn srcva)) \<and> ustore dstva [b] k' = Some k''
       \<and> (\<forall>d'\<in>kdirs k. \<forall>va. va_ok va \<and> (d', vpn va) \<noteq> (d, vpn dstva) \<and> shown (amap (kvm k) d' (vpn va))
            \<and> pa2page (amap (kvm k) d' (vpn va)) = pa2page (amap (kvm k) d (vpn srcva)) \<longrightarrow> ubyte k'' d' va = Some b))"
proof -
  let ?D = "kdirs k" and ?p = "pa2page (amap (kvm k) d (vpn srcva))" and ?n = "vpn dstva"
  have c: "env_status (envs k c) \<noteq> ENV_FREE" "env_pgdir (envs k c) = Some (d * 4096)" using k(1,3,4) by (auto simp: kinv_def)
  have z: "envid2env 0 True k = Some (0, Some c)" using k(3) by (simp add: envid2env_def)
  note dk = kdirsI [OF c] and n = vpn_user [OF va_okD [OF va(2)]] and nz = shown_nz [OF va(3)]
  have "pde (kvm k) d (vpn srcva div 1024) \<noteq> 0" using nz by (auto simp: amap_def)
  then have st: "ustore srcva [b] k = None" using va(4) k(4) by (simp add: utranslate_vpn amap_def pde_def Let_def)
  from sys_page_map_ms [OF k(1,2) z c(2) z c(2) va(1,2) dup_perm_ok(5) nz room] obtain v ys where
    v: "sys_page_map 0 srcva 0 dstva (PTE_W OR PTE_U OR PTE_P) k = Ret 0 (put_vm v k)" "ms_inv v ?D ys"
      "\<forall>d'\<in>?D. \<forall>m<UPG. amap v d' m = (if d' = d \<and> m = ?n then page2pa ?p OR (PTE_W OR PTE_U OR PTE_P) OR PTE_P else amap (kvm k) d' m)" by blast
  have "spare (kvm k) ?D ?p" by (rule mapped_spare(1) [OF ms_invD(1) [OF k(2)] dk vpn_user [OF va_okD [OF va(1)]] nz])
  then have "?p < 1048576" "?p \<noteq> 0" using as_invD(1) [OF ms_invD(1) [OF k(2)]] by (auto simp: spare_def)
  note ne = new_entry [OF this perm_okD [OF dup_perm_ok(5)]]
  have a: "amap v d ?n = page2pa ?p OR (PTE_W OR PTE_U OR PTE_P) OR PTE_P" using v(3) dk n by simp
  have w: "shown (amap v d ?n)" "amap v d ?n AND PTE_W \<noteq> 0" "pa2page (amap v d ?n) = ?p"
    using ne unfolding a by (simp_all add: shown_def mmu_consts page_low_and)
  have u: "unat dstva = ?n * 4096 + 0" using va(2) by (simp add: va_ok_page)
  let ?s = "v\<lparr>pmem := set_bytes (?p * 4096) [b] (pmem v)\<rparr>"
  let ?k = "put_vm ?s k"
  have s: "ustore dstva [b] (put_vm v k) = Some ?k"
    using ustore_page [OF n, of "put_vm v k" d ?p dstva 0 "[b]"] trans_ok_amap(2) [OF v(2) dk n w(1,2)] w(3) u k(4) by (simp add: put_vm_def)
  have "(d, ?n) \<in> maps v ?D ?p" using dk n w(3) shown_nz [OF w(1)] by (simp add: maps_def)
  then have "maps v ?D ?p \<noteq> {}" by blast
  note S = store_ms [OF v(2) this, of "[b]"]
  have km: "kmem ?k ys" using S(1) by simp
  have seen: "ubyte ?k d' va = Some b" if "d' \<in> ?D" "va_ok va" "(d', vpn va) \<noteq> (d, ?n)" "shown (amap (kvm k) d' (vpn va))" "pa2page (amap (kvm k) d' (vpn va)) = ?p" for d' va
  proof -
    have "unat va mod 4096 = 0" "vpn va < UPG" "va < UTOP" using that(2) va_ok_page vpn_user va_okD by auto
    moreover have "amap ?s d' (vpn va) = amap (kvm k) d' (vpn va)" using S(2) [OF _ that(1)] v(3) that(1,3) calculation(2) by auto
    ultimately show ?thesis using ubyte_amap [OF km, of d' va] that by simp
  qed
  show ?thesis using st v(1) w(2,3) s seen by (intro conjI exI [of _ "put_vm v k"] exI [of _ ?k]) auto
qed

theorem page_map_ignores_write_protection_witness:
  "\<exists>k1 k2 k3. sys_page_map 0 0x800000 0 0x800000 (PTE_U OR PTE_P) kern_fork = Ret 0 k1 \<and> ustore 0x800000 [9] k1 = None
     \<and> sys_page_map 0 0x800000 0 0x801000 (PTE_W OR PTE_U OR PTE_P) k1 = Ret 0 k2 \<and> ustore 0x801000 [9] k2 = Some k3 \<and> ubyte k3 1 0x800000 = Some 9"
proof -
  obtain v xs where v: "sys_page_map 0 0x800000 0 0x800000 (PTE_U OR PTE_P) kern_fork = Ret 0 (put_vm v kern_fork)"
    "ms_inv v {1, 4} xs" "2 \<le> length xs" "\<forall>d\<in>{1, 4}. \<forall>n<UPG. amap v d n = (if d = 1 \<and> n = 2048 then page2pa 5 OR (PTE_U OR PTE_P) OR PTE_P else 0)"
      "amap v 1 2048 = page2pa 5 OR (PTE_U OR PTE_P) OR PTE_P"
    using kern_fork_remap [OF dup_perm_ok(3)] by blast
  let ?k = "put_vm v kern_fork"
  have e: "amap v 1 2048 = 0x5005" unfolding v(5) by (simp add: page2pa_def fork_consts)
  have p: "pa2page 0x5005 = 5" "vpn 0x800000 = 2048" by (simp_all add: pa2page_def unat_PGNUM vpn_def)
  have "maps v {1, 4} 5 \<subseteq> {(1, 2048)}" using v(4) by (auto simp: maps_def split: if_splits)
  from card_mono [OF _ this] have c: "card (maps (kvm ?k) (kdirs ?k) (pa2page (amap (kvm ?k) 1 (vpn 0x800000)))) + 1 < 65536"
    unfolding as_put_vm kdirs_put_vm kern_fork_ok(2) p(2) e p(1) by simp
  have h: "kinv ?k" "kmem ?k xs" "curenv ?k = Some 0" "cr3 ?k = 1 * 4096" "shown (amap (kvm ?k) 1 (vpn 0x800000))" "amap (kvm ?k) 1 (vpn 0x800000) AND PTE_W = 0"
    "pde (kvm ?k) 1 (vpn 0x801000 div 1024) \<noteq> 0 \<or> xs \<noteq> []"
    using kern_fork_ok(1,2) v(2,3) p e kern_fork_fields by (auto simp: shown_def fork_consts)
  from page_map_ignores_write_protection [OF h(1-4) example_ok(1,2) h(5,6) c h(7), of 9] obtain k2 k3 where
    "ustore 0x800000 [9] ?k = None" "sys_page_map 0 0x800000 0 0x801000 (PTE_W OR PTE_U OR PTE_P) ?k = Ret 0 k2" "ustore 0x801000 [9] k2 = Some k3"
    "\<forall>d'\<in>kdirs ?k. \<forall>va. va_ok va \<and> (d', vpn va) \<noteq> (1, vpn 0x801000) \<and> shown (amap (kvm ?k) d' (vpn va))
       \<and> pa2page (amap (kvm ?k) d' (vpn va)) = pa2page (amap (kvm ?k) 1 (vpn 0x800000)) \<longrightarrow> ubyte k3 d' va = Some 9" by blast
  moreover from this(4) have "ubyte k3 1 0x800000 = Some 9" using h(5) example_ok(1,4) p(2) by (auto simp: kern_fork_ok(2))
  ultimately show ?thesis using v(1) by blast
qed

end
