(* ===== verification/SchedProps.thy ===== *)
theory SchedProps
  imports TrapProps
begin

text \<open>
  Progress of the scheduler: an environment that stays runnable is run within one round of the table, as long
  as no environment exits, because the search starts over at the first slot then, and none marks itself
  runnable, because such a one keeps the processor.
\<close>

section \<open>Distance in the table\<close>

text \<open>Where the search starts.\<close>

definition sched_start :: "kern \<Rightarrow> nat" where
  "sched_start k = (case curenv k of Some c \<Rightarrow> ENVX (env_id (envs k c)) | None \<Rightarrow> 0)"

lemma sched_start_less: "sched_start k < NENV"
  using ENVX_less by (simp add: sched_start_def NENV_def split: option.splits)

lemma sched_order_eq: "sched_order k = map (\<lambda>i. (sched_start k + i) mod NENV) [0..<NENV]"
  by (simp add: sched_order_def sched_start_def)

definition sched_dist :: "kern \<Rightarrow> nat \<Rightarrow> nat" where
  "sched_dist k t = (t + NENV - sched_start k) mod NENV"

lemma sched_dist_index: "t < NENV \<Longrightarrow> (sched_start k + sched_dist k t) mod NENV = t" "sched_dist k t < NENV"
  using sched_start_less [of k] by (simp_all add: sched_dist_def mod_add_right_eq NENV_def)

text \<open>One call of the scheduler gets nearer to a runnable environment.\<close>

lemma sched_find:
  assumes "t < NENV" "env_status (envs k t) = ENV_RUNNABLE"
  shows "\<exists>j. find (\<lambda>j. env_status (envs k j) = ENV_RUNNABLE) (sched_order k) = Some j"
proof -
  have "(sched_start k + sched_dist k t) mod NENV \<in> set (sched_order k)"
    unfolding sched_order_eq set_map using sched_dist_index(2) [of k t] by (intro imageI) simp
  then have "t \<in> set (sched_order k)" using sched_dist_index(1) [OF assms(1)] by simp
  then show ?thesis using assms(2) by (metis (mono_tags, lifting) find_None_iff not_None_eq)
qed

lemma sched_yield_runs:
  assumes "t < NENV" "env_status (envs k t) = ENV_RUNNABLE" "\<And>i. env_status (envs k i) = ENV_RUNNABLE \<Longrightarrow> env_pgdir (envs k i) \<noteq> None"
  shows "\<exists>e k'. sched_yield k = (Run e k' :: unit kout) \<and> env_status (envs k e) = ENV_RUNNABLE"
proof -
  from sched_find [OF assms(1,2)] obtain j where j: "find (\<lambda>j. env_status (envs k j) = ENV_RUNNABLE) (sched_order k) = Some j" by blast
  then have "env_status (envs k j) = ENV_RUNNABLE" by (auto simp: find_Some_iff)
  moreover from this assms(3) obtain d where "env_pgdir (envs k j) = Some d" by auto
  ultimately show ?thesis using j by (auto simp: sched_yield_def env_run_def Let_def split: option.splits)
qed

lemma sched_yield_nearer:
  assumes "t < NENV" "env_status (envs k t) = ENV_RUNNABLE" "sched_yield k = (Run e k' :: unit kout)"
  shows "e = t \<or> e < NENV \<and> (\<exists>m. e = (sched_start k + m) mod NENV \<and> m < sched_dist k t \<and> env_status (envs k e) = ENV_RUNNABLE)"
proof -
  let ?P = "\<lambda>j. env_status (envs k j) = ENV_RUNNABLE"
  note d = sched_dist_index(1) [OF assms(1), of k] sched_dist_index(2) [of k t]
  from sched_find [OF assms(1,2)] obtain j where j: "find ?P (sched_order k) = Some j" by blast
  then obtain m where m: "m < NENV" "j = (sched_start k + m) mod NENV" "?P j" "\<forall>i<m. \<not> ?P ((sched_start k + i) mod NENV)"
    by (auto simp: find_Some_iff sched_order_eq)
  have "m \<le> sched_dist k t" using m(4) d(1) assms(2) by (metis not_le_imp_less)
  moreover have "e = j" using assms(3) j by (auto simp: sched_yield_def env_run_def Let_def split: if_splits option.splits)
  ultimately show ?thesis using m d(1) by (cases "m = sched_dist k t") (auto simp: NENV_def)
qed

lemma dist_step:
  assumes "s < 1024" "D < 1024" "m \<le> D" "t = (s + D) mod 1024" "e = (s + m) mod (1024 :: nat)"
  shows "(t + 1024 - e) mod 1024 = D - m"
proof -
  have "t = (if s + D < 1024 then s + D else s + D - 1024)" "e = (if s + m < 1024 then s + m else s + m - 1024)"
    using assms by (simp_all add: mod_if)
  then show ?thesis using assms(1-3) by (auto simp: mod_if)
qed

section \<open>Fairness\<close>

text \<open>
  A run of the scheduler: the kernel states in which it is called, and the environments it enters.  When it
  is called next, either no environment is current, because the one entered last has exited or was
  destroyed, or the environment entered last is current and is not marked runnable (it is running or has
  blocked).  What happens in between is arbitrary.
\<close>

definition exits_at :: "(nat \<Rightarrow> kern) \<Rightarrow> nat \<Rightarrow> bool" where
  "exits_at ks i \<longleftrightarrow> curenv (ks (Suc i)) = None"

definition sched_run :: "(nat \<Rightarrow> kern) \<Rightarrow> (nat \<Rightarrow> nat) \<Rightarrow> bool" where
  "sched_run ks r \<longleftrightarrow> (\<forall>i. (\<exists>k'. sched_yield (ks i) = (Run (r i) k' :: unit kout)) \<and> (exits_at ks i \<or> curenv (ks (Suc i)) = Some (r i)
     \<and> ENVX (env_id (envs (ks (Suc i)) (r i))) = r i \<and> env_status (envs (ks (Suc i)) (r i)) \<noteq> ENV_RUNNABLE))"

lemma sched_run_shift: "sched_run ks r \<Longrightarrow> sched_run (\<lambda>i. ks (n + i)) (\<lambda>i. r (n + i))"
  by (simp add: sched_run_def exits_at_def)

lemma sched_run_stays:
  assumes "sched_run ks r" "\<not> exits_at ks i"
  shows "sched_start (ks (Suc i)) = r i" "env_status (envs (ks (Suc i)) (sched_start (ks (Suc i)))) \<noteq> ENV_RUNNABLE"
  using assms by (auto simp: sched_run_def sched_start_def)

lemma sched_run_step:
  assumes "sched_run ks r" "t < NENV" "env_status (envs (ks i) t) = ENV_RUNNABLE" "r i \<noteq> t" "\<not> exits_at ks i"
  shows "0 < sched_dist (ks (Suc i)) t \<and> sched_dist (ks (Suc i)) t \<le> sched_dist (ks i) t
     \<and> (env_status (envs (ks i) (sched_start (ks i))) \<noteq> ENV_RUNNABLE \<longrightarrow> sched_dist (ks (Suc i)) t < sched_dist (ks i) t)"
proof -
  obtain k' where "sched_yield (ks i) = (Run (r i) k' :: unit kout)" using assms(1) unfolding sched_run_def by blast
  with sched_yield_nearer [OF assms(2,3)] assms(4) obtain m where
    m: "r i = (sched_start (ks i) + m) mod NENV" "m < sched_dist (ks i) t" "env_status (envs (ks i) (r i)) = ENV_RUNNABLE" by blast
  note st = sched_run_stays(1) [OF assms(1,5)]
  have "sched_dist (ks (Suc i)) t = sched_dist (ks i) t - m"
    unfolding sched_dist_def [of "ks (Suc i)"] st NENV_def
    by (rule dist_step [of "sched_start (ks i)"]) (use sched_start_less sched_dist_index assms(2) m in \<open>simp_all add: NENV_def\<close>)
  moreover have "0 < m" if "env_status (envs (ks i) (sched_start (ks i))) \<noteq> ENV_RUNNABLE"
    using that m(1,3) sched_start_less [of "ks i"] by (cases m) auto
  ultimately show ?thesis using m(2) by auto
qed

text \<open>One round without exits.\<close>

lemma sched_round:
  assumes "sched_run ks r" "t < NENV" "\<forall>i. (\<forall>j<i. r j \<noteq> t) \<longrightarrow> env_status (envs (ks i) t) = ENV_RUNNABLE" "\<forall>i<NENV. \<not> exits_at ks i"
  shows "\<exists>i<NENV. r i = t"
proof (rule ccontr)
  assume "\<not> (\<exists>i<NENV. r i = t)"
  then have ne: "\<forall>i<NENV. r i \<noteq> t" by blast
  have "sched_dist (ks (Suc i)) t + Suc i \<le> NENV \<and> 0 < sched_dist (ks (Suc i)) t" if "i < NENV" for i
    using that
  proof (induction i)
    case 0
    then have "r 0 \<noteq> t" "\<not> exits_at ks 0" using ne assms(4) by simp_all
    with sched_run_step [OF assms(1,2), of 0] assms(3) sched_dist_index(2) [of "ks 0" t] show ?case by auto
  next
    case (Suc i)
    have "env_status (envs (ks (Suc i)) t) = ENV_RUNNABLE" "r (Suc i) \<noteq> t" "\<not> exits_at ks (Suc i)" "\<not> exits_at ks i"
      using ne assms(3,4) Suc.prems by auto
    then show ?case using sched_run_step [OF assms(1,2), of "Suc i"] sched_run_stays(2) [OF assms(1), of i] Suc by auto
  qed
  from this [of "NENV - 1"] show False by (auto simp: NENV_def)
qed

lemma sched_waits_for_exits:
  assumes "sched_run ks r" "t < NENV" "\<forall>i. (\<forall>j<i. r j \<noteq> t) \<longrightarrow> env_status (envs (ks i) t) = ENV_RUNNABLE"
    and "\<forall>i<(x + 1) * NENV. r i \<noteq> t" "finite {i. exits_at ks i}"
  shows "x < card {i. exits_at ks i}"
proof -
  have "\<exists>i. i div NENV = m \<and> exits_at ks i" if "m \<le> x" for m
  proof (rule ccontr)
    let ?n = "m * NENV"
    assume "\<not> (\<exists>i. i div NENV = m \<and> exits_at ks i)"
    then have "\<forall>i<NENV. \<not> exits_at (\<lambda>i. ks (?n + i)) i" by (auto simp: exits_at_def)
    moreover have b: "?n + NENV \<le> (x + 1) * NENV" using that by (simp add: NENV_def)
    then have "\<forall>i. (\<forall>j<i. r (?n + j) \<noteq> t) \<longrightarrow> env_status (envs (ks (?n + i)) t) = ENV_RUNNABLE"
    proof (intro allI impI)
      fix i assume i: "\<forall>j<i. r (?n + j) \<noteq> t"
      have "r j \<noteq> t" if "j < ?n + i" for j
        using that i assms(4) b by (cases "j < ?n") (auto simp: NENV_def dest: spec [of _ "j - ?n"])
      then show "env_status (envs (ks (?n + i)) t) = ENV_RUNNABLE" using assms(3) by blast
    qed
    ultimately obtain i where "i < NENV" "r (?n + i) = t"
      using sched_round [OF sched_run_shift [OF assms(1), of ?n] assms(2)] by blast
    moreover from this(1) b have "?n + i < (x + 1) * NENV" by linarith
    ultimately show False using assms(4) by blast
  qed
  then obtain f where f: "\<And>m. m \<le> x \<Longrightarrow> f m div NENV = m \<and> exits_at ks (f m)" by metis
  have "inj_on f {..x}" by (rule inj_on_inverseI [where g = "\<lambda>i. i div NENV"]) (use f in auto)
  from card_inj_on_le [OF this _ assms(5)] f have "card {..x} \<le> card {i. exits_at ks i}" by auto
  then show ?thesis by simp
qed

text \<open>
  Exits without end.  The first environment starts a child in the second slot and yields; the child runs and
  exits, the search starts over at the first slot, and the third environment, runnable all the time, is never reached.
\<close>

definition kern_exits :: "nat \<Rightarrow> kern" where
  "kern_exits i = kern_two\<lparr>curenv := (if even i then None else Some 0),
     envs := (\<lambda>j. if j < 3 then zero_env\<lparr>env_id := of_nat (0x1000 + j), env_pgdir := Some 4096,
        env_status := (if j = 0 then (if even i then ENV_RUNNABLE else ENV_RUNNING)
          else if j = 1 then (if even i then ENV_FREE else ENV_RUNNABLE) else ENV_RUNNABLE)\<rparr> else zero_env)\<rparr>"

lemma kern_exits_run:
  "sched_run kern_exits (\<lambda>i. i mod 2)" "env_status (envs (kern_exits i) 2) = ENV_RUNNABLE"
proof -
  have n: "0 < NENV" "Suc 0 < NENV" by (simp_all add: NENV_def)
  have u: "[0..<NENV] = 0 # 1 # [2..<NENV]" using upt_conv_Cons [OF n(1)] upt_conv_Cons [OF n(2)] by (simp add: numeral_2_eq_2)
  have s: "sched_start (kern_exits i) = 0" for i by (simp add: sched_start_def kern_exits_def ENVX_def)
  have o: "sched_order (kern_exits i) = 0 # 1 # map (\<lambda>i. i mod NENV) [2..<NENV]" for i
    unfolding sched_order_eq u s using n by simp
  have "find (\<lambda>j. env_status (envs (kern_exits i) j) = ENV_RUNNABLE) (sched_order (kern_exits i)) = Some (i mod 2)" for i
    unfolding o by (cases "even i") (simp_all add: kern_exits_def odd_iff_mod_2_eq_one)
  moreover have "i mod 2 < 3 \<and> i mod 2 \<noteq> 2" for i :: nat by presburger
  then have "env_pgdir (envs (kern_exits i) (i mod 2)) = Some 4096" for i by (simp add: kern_exits_def)
  ultimately have "\<exists>k'. sched_yield (kern_exits i) = (Run (i mod 2) k' :: unit kout)" for i
    by (simp add: sched_yield_def env_run_def Let_def split: option.splits)
  moreover have "exits_at kern_exits i \<or> curenv (kern_exits (Suc i)) = Some (i mod 2) \<and> ENVX (env_id (envs (kern_exits (Suc i)) (i mod 2))) = i mod 2
      \<and> env_status (envs (kern_exits (Suc i)) (i mod 2)) \<noteq> ENV_RUNNABLE" for i
    by (cases "even i") (simp_all add: exits_at_def kern_exits_def ENVX_def)
  ultimately show "sched_run kern_exits (\<lambda>i. i mod 2)" unfolding sched_run_def by blast
  show "env_status (envs (kern_exits i) 2) = ENV_RUNNABLE" by (simp add: kern_exits_def)
qed

text \<open>
  C8: round-robin scheduling.  In a run of the scheduler an environment that stays runnable until it is run is
  entered by one of the first \<open>NENV\<close> calls if no environment exits, and by one of the first \<open>(x + 1) * NENV\<close>
  calls if at most \<open>x\<close> exit; no environment that has been run may be marked runnable when the scheduler is called
  next, which \<open>sys_env_set_status\<close> can bring about.  A bound on the exits is needed: each of them lets the search start over at the first slot,
  and there is a run in which an environment is runnable all the time and never entered.
\<close>

theorem sched_fair:
  shows "(sched_run ks r \<and> t < NENV \<and> (\<forall>i. (\<forall>j<i. r j \<noteq> t) \<longrightarrow> env_status (envs (ks i) t) = ENV_RUNNABLE)
      \<and> finite {i. exits_at ks i} \<and> card {i. exits_at ks i} \<le> x \<longrightarrow>
        (\<exists>i<(x + 1) * NENV. \<exists>k'. sched_yield (ks i) = (Run t k' :: unit kout)))
    \<and> (\<exists>ks' r'. sched_run ks' r' \<and> (\<forall>i. env_status (envs (ks' i) 2) = ENV_RUNNABLE \<and> r' i \<noteq> 2))"
proof (intro conjI impI)
  assume a: "sched_run ks r \<and> t < NENV \<and> (\<forall>i. (\<forall>j<i. r j \<noteq> t) \<longrightarrow> env_status (envs (ks i) t) = ENV_RUNNABLE)
      \<and> finite {i. exits_at ks i} \<and> card {i. exits_at ks i} \<le> x"
  then obtain i where "i < (x + 1) * NENV" "r i = t" using sched_waits_for_exits [of ks r t x] by (metis not_le)
  then show "\<exists>i<(x + 1) * NENV. \<exists>k'. sched_yield (ks i) = (Run t k' :: unit kout)" using a unfolding sched_run_def by blast
next
  have "i mod 2 \<noteq> (2 :: nat)" for i by presburger
  then show "\<exists>ks' r'. sched_run ks' r' \<and> (\<forall>i. env_status (envs (ks' i) 2) = ENV_RUNNABLE \<and> r' i \<noteq> 2)"
    using kern_exits_run by (intro exI [of _ kern_exits] exI [of _ "\<lambda>i. i mod 2"]) simp
qed

text \<open>Two environments take turns.\<close>

definition kern_turn :: "nat \<Rightarrow> kern" where
  "kern_turn i = kern_two\<lparr>curenv := Some (i mod 2),
     envs := (\<lambda>j. if j < 2 then zero_env\<lparr>env_id := of_nat (0x1000 + j), env_pgdir := Some 4096,
        env_status := (if j = i mod 2 then ENV_RUNNING else ENV_RUNNABLE)\<rparr> else zero_env)\<rparr>"

lemma kern_turn_run: "sched_run kern_turn (\<lambda>i. Suc i mod 2)"
  unfolding sched_run_def
proof (intro allI conjI disjI2)
  fix i
  have o: "Suc i mod 2 < 2" "Suc i mod 2 \<noteq> i mod 2" "Suc i mod 2 < NENV" by (auto simp: NENV_def) presburger+
  have st: "env_status (envs (kern_turn i) j) = ENV_RUNNABLE \<longleftrightarrow> j < 2 \<and> j \<noteq> i mod 2" for j
    by (auto simp: kern_turn_def zero_env_def)
  have "env_status (envs (kern_turn i) j) = ENV_RUNNABLE \<Longrightarrow> env_pgdir (envs (kern_turn i) j) \<noteq> None" for j
    by (auto simp: kern_turn_def zero_env_def split: if_splits)
  from sched_yield_runs [OF o(3) _ this] st o obtain e k' where
    e: "sched_yield (kern_turn i) = (Run e k' :: unit kout)" "e < 2" "e \<noteq> i mod 2" by auto
  then have "e = Suc i mod 2" by presburger
  with e(1) show "\<exists>k'. sched_yield (kern_turn i) = (Run (Suc i mod 2) k' :: unit kout)" by blast
  show "curenv (kern_turn (Suc i)) = Some (Suc i mod 2)" by (simp add: kern_turn_def)
  have "Suc i mod 2 = 0 \<or> Suc i mod 2 = 1" by presburger
  then show "ENVX (env_id (envs (kern_turn (Suc i)) (Suc i mod 2))) = Suc i mod 2"
    "env_status (envs (kern_turn (Suc i)) (Suc i mod 2)) \<noteq> ENV_RUNNABLE" by (auto simp: kern_turn_def ENVX_def)
qed

theorem sched_fair_witness:
  "env_status (envs (kern_turn 0) 1) = ENV_RUNNABLE \<and> (\<exists>i<NENV. \<exists>k'. sched_yield (kern_turn i) = (Run 1 k' :: unit kout))"
proof -
  have "\<forall>i. (\<forall>j<i. Suc j mod 2 \<noteq> 1) \<longrightarrow> env_status (envs (kern_turn i) 1) = ENV_RUNNABLE"
  proof (intro allI impI)
    fix i assume "\<forall>j<i. Suc j mod 2 \<noteq> (1 :: nat)"
    then have "i = 0" by (cases i) auto
    then show "env_status (envs (kern_turn i) 1) = ENV_RUNNABLE" by (simp add: kern_turn_def)
  qed
  moreover have "{i. exits_at kern_turn i} = {}" by (simp add: exits_at_def kern_turn_def)
  moreover have "env_status (envs (kern_turn 0) 1) = ENV_RUNNABLE" "(1 :: nat) < NENV" by (simp_all add: kern_turn_def NENV_def)
  ultimately show ?thesis
    using sched_fair [of kern_turn "\<lambda>i. Suc i mod 2" 1 0] kern_turn_run by simp
qed

section \<open>Starvation\<close>

text \<open>
  C37: an environment that marks itself runnable keeps the processor.  The search starts at the current
  environment, and entering the environment that is already current does not mark it running: after
  \<open>sys_env_set_status(0, ENV_RUNNABLE)\<close> every timer interrupt in it comes back to it, whatever other
  environments are runnable.
\<close>

theorem self_runnable_starves_others:
  assumes "curenv k = Some c" "ENVX (env_id (envs k c)) = c" "\<not> kernel_lock k"
    and "tf_cs tf AND 3 = 3" "tf_trapno tf = IRQ_OFFSET + IRQ_TIMER"
  shows "\<exists>k1. sys_env_set_status 0 2 k = Ret 0 k1 \<and> env_status (envs k1 c) = ENV_RUNNABLE
     \<and> (\<forall>k2. curenv k2 = Some c \<and> env_status (envs k2 c) = ENV_RUNNABLE \<and> ENVX (env_id (envs k2 c)) = c \<and> \<not> kernel_lock k2 \<longrightarrow>
          (\<exists>k3. trap cr2 tf k2 = Run c k3 \<and> curenv k3 = Some c \<and> env_status (envs k3 c) = ENV_RUNNABLE
            \<and> ENVX (env_id (envs k3 c)) = c \<and> \<not> kernel_lock k3))"
proof -
  have y: "(sched_yield k2 :: unit kout) = Run c (spin_unlock k2)"
    if "curenv k2 = Some c" "env_status (envs k2 c) = ENV_RUNNABLE" "ENVX (env_id (envs k2 c)) = c" for k2
  proof -
    have "0 < NENV" by (simp add: NENV_def)
    then have "sched_order k2 = map (\<lambda>i. (c + i) mod NENV) (0 # [Suc 0..<NENV])"
      using that upt_conv_Cons [of 0 NENV] by (simp add: sched_order_def)
    moreover have "c mod NENV = c" using ENVX_less [of "env_id (envs k2 c)"] that(3) by simp
    ultimately show ?thesis using that by (simp add: sched_yield_def env_run_def)
  qed
  have "\<exists>k3. trap cr2 tf k2 = Run c k3 \<and> curenv k3 = Some c \<and> env_status (envs k3 c) = ENV_RUNNABLE
      \<and> ENVX (env_id (envs k3 c)) = c \<and> \<not> kernel_lock k3"
    if "curenv k2 = Some c \<and> env_status (envs k2 c) = ENV_RUNNABLE \<and> ENVX (env_id (envs k2 c)) = c \<and> \<not> kernel_lock k2" for k2
    using that assms(4,5) y [of "upd_env c (\<lambda>x. x\<lparr>env_tf := tf\<rparr>) (k2\<lparr>kernel_lock := True\<rparr>)"]
    by (simp add: trap_def spin_lock_def trap_dispatch_def T_PGFLT_def T_BRKPT_def T_SYSCALL_def IRQ_OFFSET_def IRQ_SPURIOUS_def IRQ_TIMER_def spin_unlock_def)
  moreover have "sys_env_set_status 0 2 k = Ret 0 (upd_env c (\<lambda>x. x\<lparr>env_status := ENV_RUNNABLE\<rparr>) k)"
    using assms(1) by (simp add: sys_env_set_status_def with_env_def envid2env_def)
  ultimately show ?thesis by auto
qed

theorem self_runnable_starves_others_witness:
  "\<exists>k1. sys_env_set_status 0 2 kern_two = Ret 0 k1 \<and> env_status (envs k1 0) = ENV_RUNNABLE"
proof -
  have "curenv kern_two = Some 0" "ENVX (env_id (envs kern_two 0)) = 0" "\<not> kernel_lock kern_two" by (simp_all add: kern_two_def ENVX_def)
  from self_runnable_starves_others [OF this, of "zero_tf\<lparr>tf_cs := 3, tf_trapno := IRQ_OFFSET + IRQ_TIMER\<rparr>" 0] show ?thesis
    by (auto simp: zero_tf_def)
qed

end
