(* ===== verification/Serv.thy ===== *)
theory Serv
  imports DamnFS
begin

text \<open>
  The file server (\<open>serv.c\<close>): the table of open files, the handlers of the requests, and one round of
  the loop that serves them.  The request page is byte-addressed from 0, with the fields of
  \<open>union Fsipc\<close> at their offsets; the descriptor pages are known by the address at which the server
  maps them, with their reference counts as the kernel keeps them.

  \<open>None\<close> is a panic of the file system, or a read that runs over the end of the request page into the
  disk cache that follows it.

  Lemmas: see \<open>ServProps\<close>.
\<close>

section \<open>State\<close>

definition MAXPATHLEN :: nat where "MAXPATHLEN = 128"
definition MAXOPEN :: nat where "MAXOPEN = 1024"
definition FILEVA :: nat where "FILEVA = 0xD0000000"
definition O_ACCMODE :: u32 where "O_ACCMODE = 3"
definition O_RDONLY :: u32 where "O_RDONLY = 0"
definition O_WRONLY :: u32 where "O_WRONLY = 1"
definition O_RDWR :: u32 where "O_RDWR = 2"
definition O_CREAT :: u32 where "O_CREAT = 0x100"
definition O_TRUNC :: u32 where "O_TRUNC = 0x200"
definition O_EXCL :: u32 where "O_EXCL = 0x400"
definition O_MKDIR :: u32 where "O_MKDIR = 0x800"

definition DEVFILE_ID :: u32 where "DEVFILE_ID = 102"
definition FD_PERM :: u32 where "FD_PERM = 0x407"
definition PAGE :: nat where "PAGE = 4096"

named_theorems serv_consts "numeric values of the file server's constants"

declare MAXPATHLEN_def [serv_consts] MAXOPEN_def [serv_consts] FILEVA_def [serv_consts] PAGE_def [serv_consts]
  O_ACCMODE_def [serv_consts] O_RDONLY_def [serv_consts] O_WRONLY_def [serv_consts] O_RDWR_def [serv_consts]
  O_CREAT_def [serv_consts] O_TRUNC_def [serv_consts] O_EXCL_def [serv_consts] O_MKDIR_def [serv_consts]
  DEVFILE_ID_def [serv_consts] FD_PERM_def [serv_consts]

record fdesc =
  fd_dev_id :: u32
  fd_offset :: i32
  fd_omode :: u32
  fd_file_id :: u32

definition zero_fd :: fdesc where
  "zero_fd = \<lparr>fd_dev_id = 0, fd_offset = 0, fd_omode = 0, fd_file_id = 0\<rparr>"

record openfile =
  o_fileid :: u32
  o_file :: nat
  o_mode :: u32
  o_fd :: nat

record serv =
  sfs :: fs
  opentab :: "nat \<Rightarrow> openfile"
  fdpage :: "nat \<Rightarrow> fdesc"
  fdref :: "nat \<Rightarrow> nat"
  page_ret :: "nat \<Rightarrow> int"   \<comment> \<open>what \<open>sys_page_alloc\<close> answers for a descriptor page\<close>
  rt_entry :: nat             \<comment> \<open>the address of \<open>rt_entry\<close>\<close>

definition serve_init :: "serv \<Rightarrow> serv" where
  "serve_init s =
     s\<lparr>opentab := (\<lambda>i. if i < MAXOPEN then (opentab s i)\<lparr>o_fileid := of_nat i, o_fd := FILEVA + i * PAGE\<rparr>
                      else opentab s i)\<rparr>"

section \<open>Open files\<close>

definition set_open :: "nat \<Rightarrow> (openfile \<Rightarrow> openfile) \<Rightarrow> serv \<Rightarrow> serv" where
  "set_open i f s = s\<lparr>opentab := (opentab s)(i := f (opentab s i))\<rparr>"

definition set_fd :: "nat \<Rightarrow> (fdesc \<Rightarrow> fdesc) \<Rightarrow> serv \<Rightarrow> serv" where
  "set_fd va f s = s\<lparr>fdpage := (fdpage s)(va := f (fdpage s va))\<rparr>"

text \<open>The entry found: its id is incremented and its page cleared; the id is returned as an \<open>int\<close>.\<close>

definition openfile_take :: "nat \<Rightarrow> serv \<Rightarrow> (int \<times> nat) \<times> serv" where
  "openfile_take i s =
     (let s = set_open i (\<lambda>x. x\<lparr>o_fileid := o_fileid x + of_nat MAXOPEN\<rparr>) s;
          s = set_fd (o_fd (opentab s i)) (\<lambda>_. zero_fd) s in
      ((sint (o_fileid (opentab s i)), i), s))"

fun openfile_alloc_loop :: "nat list \<Rightarrow> serv \<Rightarrow> (int \<times> nat) \<times> serv" where
  "openfile_alloc_loop [] s = ((- E_MAX_OPEN, 0), s)"
| "openfile_alloc_loop (i # is) s =
     (let va = o_fd (opentab s i) in
      if fdref s va = 0 then
        (if page_ret s va < 0 then ((page_ret s va, 0), s)
         else openfile_take i (s\<lparr>fdref := (fdref s)(va := 1)\<rparr>))
      else if fdref s va = 1 then openfile_take i s
      else openfile_alloc_loop is s)"

definition openfile_alloc :: "serv \<Rightarrow> (int \<times> nat) \<times> serv" where
  "openfile_alloc s = openfile_alloc_loop [0..<MAXOPEN] s"

definition openfile_lookup :: "u32 \<Rightarrow> serv \<Rightarrow> int \<times> nat" where
  "openfile_lookup fileid s =
     (let i = unat fileid mod MAXOPEN; x = opentab s i in
      if fdref s (o_fd x) \<le> 1 \<or> o_fileid x \<noteq> fileid then (- E_INVAL, 0) else (0, i))"

section \<open>Handlers\<close>

text \<open>The path in the request page, cut to 127 characters.\<close>

definition req_path :: "bytemem \<Rightarrow> u8 list" where
  "req_path pg = takeWhile (\<lambda>c. c \<noteq> 0) (get_bytes pg 0 (MAXPATHLEN - 1))"

text \<open>
  With \<open>O_MKDIR\<close> the code assigns the outcome of a comparison to \<open>r\<close>: a failure to make the directory is
  returned as 1.
\<close>

definition open_mkdir :: "u8 list \<Rightarrow> u32 \<Rightarrow> serv \<Rightarrow> (int \<times> serv) option" where
  "open_mkdir path omode s =
     (if omode AND O_MKDIR \<noteq> 0 then do {
        ((r, e), f) \<leftarrow> file_create path FTYPE_DIR (sfs s);
        Some (if r < 0 then 1 else 0, s\<lparr>sfs := f\<rparr>)
      }
      else Some (0, s))"

definition open_file :: "u8 list \<Rightarrow> u32 \<Rightarrow> serv \<Rightarrow> ((int \<times> nat) \<times> serv) option" where
  "open_file path omode s =
     (if omode AND O_CREAT \<noteq> 0 then do {
        ((r, e), f) \<leftarrow> file_create path FTYPE_REG (sfs s);
        if r < 0 then
          if omode AND O_EXCL = 0 \<and> r = - E_FILE_EXISTS then do {
            ((r, e), f) \<leftarrow> file_open path f;
            Some ((r, e), s\<lparr>sfs := f\<rparr>)
          }
          else Some ((r, 0), s\<lparr>sfs := f\<rparr>)
        else Some ((r, case e of Some e \<Rightarrow> e | None \<Rightarrow> 0), s\<lparr>sfs := f\<rparr>)
      }
      else do {
        ((r, e), f) \<leftarrow> file_open path (sfs s);
        Some ((r, e), s\<lparr>sfs := f\<rparr>)
      })"

definition open_trunc :: "nat \<Rightarrow> u32 \<Rightarrow> serv \<Rightarrow> (int \<times> serv) option" where
  "open_trunc e omode s =
     (if omode AND O_TRUNC \<noteq> 0 then do {
        (r, f) \<leftarrow> file_set_size e 0 (sfs s);
        Some (r, s\<lparr>sfs := f\<rparr>)
      }
      else Some (0, s))"

definition serve_open :: "bytemem \<Rightarrow> serv \<Rightarrow> ((int \<times> nat option) \<times> serv) option" where
  "serve_open pg s = do {
     let path = req_path pg;
     let omode = get32 pg MAXPATHLEN;
     (r, s) \<leftarrow> open_mkdir path omode s;
     if r \<noteq> 0 then Some ((r, None), s)
     else (case openfile_alloc s of ((r, i), s) \<Rightarrow>
       if r < 0 then Some ((r, None), s)
       else do {
         ((r, e), s) \<leftarrow> open_file path omode s;
         if r < 0 then Some ((r, None), s)
         else do {
           (r, s) \<leftarrow> open_trunc e omode s;
           if r < 0 then Some ((r, None), s)
           else do {
             ((r, e), f) \<leftarrow> file_open path (sfs s);
             let s = s\<lparr>sfs := f\<rparr>;
             if r < 0 then Some ((r, None), s)
             else do {
               let s = set_open i (\<lambda>x. x\<lparr>o_file := if e = 0 then rt_entry s else e\<rparr>) s;
               let s = set_fd (o_fd (opentab s i)) (\<lambda>d. d\<lparr>fd_file_id := o_fileid (opentab s i),
                                  fd_omode := omode AND O_ACCMODE, fd_dev_id := DEVFILE_ID\<rparr>) s;
               let s = set_open i (\<lambda>x. x\<lparr>o_mode := omode\<rparr>) s;
               Some ((0, Some (o_fd (opentab s i))), s)
             }
           }
         }
       })
   }"

definition serve_set_size :: "bytemem \<Rightarrow> serv \<Rightarrow> (int \<times> serv) option" where
  "serve_set_size pg s =
     (case openfile_lookup (get32 pg 0) s of (r, i) \<Rightarrow>
        if r < 0 then Some (r, s)
        else do {
          (r, f) \<leftarrow> file_set_size (o_file (opentab s i)) (get32 pg 4) (sfs s);
          Some (r, s\<lparr>sfs := f\<rparr>)
        })"

text \<open>
  The bytes read replace the request in the page.  Nothing limits their number to the page: a longer
  read overwrites the first block of the disk cache, which lies behind it.
\<close>

definition serve_read :: "bytemem \<Rightarrow> serv \<Rightarrow> (int \<times> bytemem \<times> serv) option" where
  "serve_read pg s =
     (case openfile_lookup (get32 pg 0) s of (r, i) \<Rightarrow>
        if r < 0 then Some (r, pg, s)
        else do {
          let fd = o_fd (opentab s i);
          ((r, pg'), f) \<leftarrow> file_read (o_file (opentab s i)) pg (get32 pg 4) (fd_offset (fdpage s fd)) (sfs s);
          if int PAGE < r \<or> r < 0 \<and> PAGE < unat (get32 pg 4) then None
          else if 0 \<le> r
          then Some (r, pg', set_fd fd (\<lambda>d. d\<lparr>fd_offset := fd_offset d + word_of_int r\<rparr>) (s\<lparr>sfs := f\<rparr>))
          else Some (r, pg', s\<lparr>sfs := f\<rparr>)
        })"

definition serve_write :: "bytemem \<Rightarrow> serv \<Rightarrow> (int \<times> serv) option" where
  "serve_write pg s =
     (case openfile_lookup (get32 pg 0) s of (r, i) \<Rightarrow>
        if r < 0 then Some (r, s)
        else do {
          let fd = o_fd (opentab s i);
          (r, f) \<leftarrow> file_write (o_file (opentab s i)) (\<lambda>k. pg (8 + k)) (get32 pg 4) (fd_offset (fdpage s fd)) (sfs s);
          if 0 \<le> r
          then Some (r, set_fd fd (\<lambda>d. d\<lparr>fd_offset := fd_offset d + word_of_int r\<rparr>) (s\<lparr>sfs := f\<rparr>))
          else Some (r, s\<lparr>sfs := f\<rparr>)
        })"

text \<open>\<open>strcpy\<close> out of the server's memory into the page.\<close>

partial_function (option) copy_name :: "nat \<Rightarrow> nat \<Rightarrow> bytemem \<Rightarrow> fs \<Rightarrow> (bytemem \<times> fs) option" where
  "copy_name dst src pg s = do {
     (c, s) \<leftarrow> rd8 src s;
     let pg = pg(dst := c);
     if c = 0 then Some (pg, s) else copy_name (Suc dst) (Suc src) pg s
   }"

definition serve_stat :: "bytemem \<Rightarrow> serv \<Rightarrow> (int \<times> bytemem \<times> serv) option" where
  "serve_stat pg s =
     (case openfile_lookup (get32 pg 0) s of (r, i) \<Rightarrow>
        if r < 0 then Some (r, pg, s)
        else do {
          let e = o_file (opentab s i);
          (pg, inode, f) \<leftarrow> (if e = 0 then Some (pg(0 := CH_SLASH, 1 := 0), inode_ptr 0 (sfs s), sfs s)
             else do {
               (ino, f) \<leftarrow> rd16 (e + DE_in_ind) (sfs s);
               (pg, f) \<leftarrow> copy_name 0 e pg f;
               Some (pg, inode_ptr ino f, f)
             });
          (z, f) \<leftarrow> rd16 (inode + IN_size) f;
          (t, f) \<leftarrow> rd16 (inode + IN_type) f;
          let pg = set32 20 (if t = FTYPE_DIR then 1 else 0) (set32 16 (ucast z) pg);
          Some (0, pg, s\<lparr>sfs := f\<rparr>)
        })"

text \<open>For the root directory the code passes the inode where a directory entry is expected.\<close>

definition serve_flush :: "bytemem \<Rightarrow> serv \<Rightarrow> (int \<times> serv) option" where
  "serve_flush pg s =
     (case openfile_lookup (get32 pg 0) s of (r, i) \<Rightarrow>
        if r < 0 then Some (r, s)
        else do {
          let e = o_file (opentab s i);
          (ino, f) \<leftarrow> rd16 (e + DE_in_ind) (sfs s);
          f \<leftarrow> (if ino \<noteq> 0 then file_flush e f else file_flush (inode_ptr 0 f) f);
          Some (0, s\<lparr>sfs := f\<rparr>)
        })"

definition serve_mkdir :: "bytemem \<Rightarrow> serv \<Rightarrow> (int \<times> serv) option" where
  "serve_mkdir pg s = do {
     ((r, e), f) \<leftarrow> file_create (req_path pg) FTYPE_DIR (sfs s);
     Some (r, s\<lparr>sfs := f\<rparr>)
   }"

definition serve_remove :: "bytemem \<Rightarrow> serv \<Rightarrow> (int \<times> serv) option" where
  "serve_remove pg s = do {
     (r, f) \<leftarrow> file_remove (req_path pg) (sfs s);
     Some (r, s\<lparr>sfs := f\<rparr>)
   }"

definition serve_sync :: "serv \<Rightarrow> (int \<times> serv) option" where
  "serve_sync s = do {
     f \<leftarrow> fs_sync (sfs s);
     Some (0, s\<lparr>sfs := f\<rparr>)
   }"

section \<open>The loop\<close>

definition FSREQ_OPEN :: u32 where "FSREQ_OPEN = 1"
definition FSREQ_SET_SIZE :: u32 where "FSREQ_SET_SIZE = 2"
definition FSREQ_READ :: u32 where "FSREQ_READ = 3"
definition FSREQ_WRITE :: u32 where "FSREQ_WRITE = 4"
definition FSREQ_STAT :: u32 where "FSREQ_STAT = 5"
definition FSREQ_FLUSH :: u32 where "FSREQ_FLUSH = 6"
definition FSREQ_MKDIR :: u32 where "FSREQ_MKDIR = 7"
definition FSREQ_REMOVE :: u32 where "FSREQ_REMOVE = 8"
definition FSREQ_SYNC :: u32 where "FSREQ_SYNC = 9"

declare FSREQ_OPEN_def [serv_consts] FSREQ_SET_SIZE_def [serv_consts] FSREQ_READ_def [serv_consts]
  FSREQ_WRITE_def [serv_consts] FSREQ_STAT_def [serv_consts] FSREQ_FLUSH_def [serv_consts]
  FSREQ_MKDIR_def [serv_consts] FSREQ_REMOVE_def [serv_consts] FSREQ_SYNC_def [serv_consts]

text \<open>The handlers without a result page.\<close>

definition handlers :: "u32 \<Rightarrow> (bytemem \<Rightarrow> serv \<Rightarrow> (int \<times> bytemem \<times> serv) option) option" where
  "handlers req =
     (let keep = (\<lambda>h pg s. map_option (\<lambda>(r, s). (r, pg, s)) (h pg s)) in
      if req = FSREQ_READ then Some serve_read
      else if req = FSREQ_STAT then Some serve_stat
      else if req = FSREQ_FLUSH then Some (keep serve_flush)
      else if req = FSREQ_WRITE then Some (keep serve_write)
      else if req = FSREQ_SET_SIZE then Some (keep serve_set_size)
      else if req = FSREQ_REMOVE then Some (keep serve_remove)
      else if req = FSREQ_MKDIR then Some (keep serve_mkdir)
      else if req = FSREQ_SYNC then Some (keep (\<lambda>pg. serve_sync))
      else None)"

text \<open>
  One round: the message with its request code and page permission, and the reply, which is a value
  and possibly a page with its permission.  Without a page nothing is sent back.
\<close>

record reply =
  rp_value :: int
  rp_page :: "nat option"
  rp_perm :: u32

definition serve :: "u32 \<Rightarrow> u32 \<Rightarrow> bytemem \<Rightarrow> serv \<Rightarrow> (reply option \<times> bytemem \<times> serv) option" where
  "serve req perm pg s =
     (if perm AND 1 = 0 then Some (None, pg, s)
      else if req = FSREQ_OPEN then do {
        ((r, va), s) \<leftarrow> serve_open pg s;
        Some (Some \<lparr>rp_value = r, rp_page = va, rp_perm = (if va = None then perm else FD_PERM)\<rparr>, pg, s)
      }
      else (case handlers req of
              None \<Rightarrow> Some (Some \<lparr>rp_value = - E_INVAL, rp_page = None, rp_perm = perm\<rparr>, pg, s)
            | Some h \<Rightarrow> do {
                (r, pg, s) \<leftarrow> h pg s;
                Some (Some \<lparr>rp_value = r, rp_page = None, rp_perm = perm\<rparr>, pg, s)
              }))"

end
