(* ===== verification/File.thy ===== *)
theory File
  imports Serv
begin

text \<open>
  File descriptors (\<open>fd.c\<close>) and the client side of the file server (\<open>file.c\<close>) of one environment.  A
  descriptor is a page mapped at its place in the table: \<open>fdtab\<close> says which of the server's descriptor
  pages is mapped there, which is what the code finds in \<open>uvpd\<close> and \<open>uvpt\<close>.  A call of \<open>fsipc\<close> is one
  round of the server; the page the server sends is mapped at the descriptor's address, which raises its
  reference count, and the request page is shared, so that what the server writes into it is seen.

  The console device (\<open>uconsole.c\<close>) reads the answers of \<open>sys_cgetc\<close>, of which 0 means no input yet, and
  appends to what \<open>sys_cputs\<close> has printed; its descriptors are pages that \<open>sys_page_alloc\<close> hands out from
  \<open>fresh\<close>, other pages than those of the server.

  Memory for page tables is available.  Calls on descriptors of pipes, which \<open>Pipe\<close> models, and descriptor
  numbers that \<open>dup\<close> takes from outside the table, are not followed; they, a panic of the server and waiting
  for ever for input are \<open>None\<close>.
\<close>

section \<open>State\<close>

definition MAXFD :: nat where "MAXFD = 32"

record uenv =
  fdtab :: "nat \<Rightarrow> nat option"
  fsipcbuf :: bytemem
  server :: serv
  fresh :: "nat list"
  cons_in :: "i32 list"
  cons_out :: "u8 list"

datatype dev = Devfile | Devpipe | Devcons

definition dev_lookup :: "u32 \<Rightarrow> int \<times> dev option" where
  "dev_lookup dev_id =
     (if dev_id = DEVFILE_ID then (0, Some Devfile)
      else if dev_id = 112 then (0, Some Devpipe)
      else if dev_id = 99 then (0, Some Devcons)
      else (- E_INVAL, None))"

fun fd_alloc_loop :: "nat list \<Rightarrow> uenv \<Rightarrow> int \<times> nat" where
  "fd_alloc_loop [] u = (- E_MAX_OPEN, 0)"
| "fd_alloc_loop (i # is) u = (if fdtab u i = None then (0, i) else fd_alloc_loop is u)"

definition fd_alloc :: "uenv \<Rightarrow> int \<times> nat" where
  "fd_alloc u = fd_alloc_loop [0..<MAXFD] u"

text \<open>The number and the mapped page.\<close>

definition fd_lookup :: "int \<Rightarrow> uenv \<Rightarrow> int \<times> (nat \<times> nat) option" where
  "fd_lookup fdnum u =
     (if fdnum < 0 \<or> int MAXFD \<le> fdnum then (- E_INVAL, None)
      else (case fdtab u (nat fdnum) of
              None \<Rightarrow> (- E_INVAL, None)
            | Some va \<Rightarrow> (0, Some (nat fdnum, va))))"

definition the_fd :: "nat \<Rightarrow> uenv \<Rightarrow> fdesc" where
  "the_fd va u = fdpage (server u) va"

section \<open>Mapping and unmapping descriptor pages\<close>

definition unmap_fd :: "nat \<Rightarrow> uenv \<Rightarrow> uenv" where
  "unmap_fd i u =
     (case fdtab u i of
        None \<Rightarrow> u
      | Some va \<Rightarrow> u\<lparr>fdtab := (fdtab u)(i := None),
                     server := (server u)\<lparr>fdref := (fdref (server u))(va := fdref (server u) va - 1)\<rparr>\<rparr>)"

text \<open>The kernel raises the count of the new page before it drops the old mapping.\<close>

definition map_fd :: "nat \<Rightarrow> nat \<Rightarrow> uenv \<Rightarrow> uenv" where
  "map_fd i va u =
     (let u = u\<lparr>server := (server u)\<lparr>fdref := (fdref (server u))(va := fdref (server u) va + 1)\<rparr>\<rparr>;
          u = unmap_fd i u in
      u\<lparr>fdtab := (fdtab u)(i := Some va)\<rparr>)"

section \<open>Requests\<close>

definition fsipc :: "u32 \<Rightarrow> nat option \<Rightarrow> uenv \<Rightarrow> (int \<times> uenv) option" where
  "fsipc type dst u = do {
     (rp, pg, s) \<leftarrow> serve type 7 (fsipcbuf u) (server u);
     rp \<leftarrow> rp;
     let u = u\<lparr>fsipcbuf := pg, server := s\<rparr>;
     Some (rp_value rp,
       case (dst, rp_page rp) of (Some i, Some va) \<Rightarrow> map_fd i va u | _ \<Rightarrow> u)
   }"

definition devfile_flush :: "nat \<Rightarrow> uenv \<Rightarrow> (int \<times> uenv) option" where
  "devfile_flush va u = fsipc FSREQ_FLUSH None (u\<lparr>fsipcbuf := set32 0 (fd_file_id (the_fd va u)) (fsipcbuf u)\<rparr>)"

definition devfile_read :: "nat \<Rightarrow> u32 \<Rightarrow> uenv \<Rightarrow> ((int \<times> u8 list) \<times> uenv) option" where
  "devfile_read va n u = do {
     (r, u) \<leftarrow> fsipc FSREQ_READ None
       (u\<lparr>fsipcbuf := set32 4 n (set32 0 (fd_file_id (the_fd va u)) (fsipcbuf u))\<rparr>);
     if r < 0 then Some ((r, []), u)
     else Some ((r, get_bytes (fsipcbuf u) 0 (nat r)), u)
   }"

text \<open>A request takes at most the 4088 bytes left in the page.\<close>

definition devfile_write :: "nat \<Rightarrow> u8 list \<Rightarrow> uenv \<Rightarrow> (int \<times> uenv) option" where
  "devfile_write va bs u =
     (let n = min (length bs) (PAGE - 8) in
      fsipc FSREQ_WRITE None
        (u\<lparr>fsipcbuf := set_bytes 8 (take n bs) (set32 4 (of_nat n) (set32 0 (fd_file_id (the_fd va u)) (fsipcbuf u)))\<rparr>))"

definition devfile_trunc :: "nat \<Rightarrow> i32 \<Rightarrow> uenv \<Rightarrow> (int \<times> uenv) option" where
  "devfile_trunc va newsize u =
     fsipc FSREQ_SET_SIZE None (u\<lparr>fsipcbuf := set32 4 newsize (set32 0 (fd_file_id (the_fd va u)) (fsipcbuf u))\<rparr>)"

record stat =
  st_name :: "u8 list"
  st_size :: i32
  st_isdir :: u32

definition devfile_stat :: "nat \<Rightarrow> uenv \<Rightarrow> ((int \<times> stat option) \<times> uenv) option" where
  "devfile_stat va u = do {
     (r, u) \<leftarrow> fsipc FSREQ_STAT None (u\<lparr>fsipcbuf := set32 0 (fd_file_id (the_fd va u)) (fsipcbuf u)\<rparr>);
     if r < 0 then Some ((r, None), u)
     else Some ((0, Some \<lparr>st_name = takeWhile (\<lambda>c. c \<noteq> 0) (get_bytes (fsipcbuf u) 0 PAGE),
                          st_size = get32 (fsipcbuf u) 16, st_isdir = get32 (fsipcbuf u) 20\<rparr>), u)
   }"

text \<open>The fields that \<open>fstat\<close> has cleared, with the device's name.\<close>

definition devcons_stat :: "uenv \<Rightarrow> (int \<times> stat option) \<times> uenv" where
  "devcons_stat u = ((0, Some \<lparr>st_name = [60, 99, 111, 110, 115, 62], st_size = 0, st_isdir = 0\<rparr>), u)"

definition sync :: "uenv \<Rightarrow> (int \<times> uenv) option" where
  "sync u = fsipc FSREQ_SYNC None u"

section \<open>The console device (uconsole.c)\<close>

text \<open>\<open>sys_cputs\<close> formats with \<open>%.*s\<close>, which ends at a NUL byte.\<close>

definition cons_put :: "u8 list \<Rightarrow> uenv \<Rightarrow> uenv" where
  "cons_put bs u = u\<lparr>cons_out := cons_out u @ takeWhile (\<lambda>c. c \<noteq> 0) bs\<rparr>"

definition cputchar_u :: "i32 \<Rightarrow> uenv \<Rightarrow> uenv" where
  "cputchar_u ch u = cons_put [ucast ch] u"

fun cgetc_wait :: "i32 list \<Rightarrow> (i32 \<times> i32 list) option" where
  "cgetc_wait [] = None"
| "cgetc_wait (c # cs) = (if c = 0 then cgetc_wait cs else Some (c, cs))"

definition devcons_read :: "u32 \<Rightarrow> uenv \<Rightarrow> ((int \<times> u8 list) \<times> uenv) option" where
  "devcons_read n u =
     (if n = 0 then Some ((0, []), u)
      else do {
        (c, cs) \<leftarrow> cgetc_wait (cons_in u);
        let u = u\<lparr>cons_in := cs\<rparr>;
        if sint c < 0 then Some ((sint c, []), u)
        else if c = 4 then Some ((0, []), u)
        else Some ((1, [ucast c]), u)
      })"

text \<open>Chunks of at most 127 bytes; the bytes that are left.\<close>

function devcons_write_loop :: "u8 list \<Rightarrow> uenv \<Rightarrow> uenv" where
  "devcons_write_loop bs u =
     (if bs = [] then u else devcons_write_loop (drop 127 bs) (cons_put (take 127 bs) u))"
  by auto
termination
  by (relation "measure (\<lambda>(bs, u). length bs)") auto

declare devcons_write_loop.simps [simp del]

definition devcons_write :: "u8 list \<Rightarrow> uenv \<Rightarrow> int \<times> uenv" where
  "devcons_write bs u = (int (length bs), devcons_write_loop bs u)"

definition devcons_close :: "uenv \<Rightarrow> int \<times> uenv" where
  "devcons_close u = (0, u)"

definition iscons :: "int \<Rightarrow> uenv \<Rightarrow> int" where
  "iscons fdnum u =
     (case fd_lookup fdnum u of
        (r, None) \<Rightarrow> r
      | (_, Some (i, va)) \<Rightarrow> if fd_dev_id (the_fd va u) = 99 then 1 else 0)"

definition opencons :: "uenv \<Rightarrow> int \<times> uenv" where
  "opencons u =
     (case fd_alloc u of (r, i) \<Rightarrow>
        if r < 0 then (r, u)
        else (case fresh u of
                [] \<Rightarrow> (- E_NO_MEM, u)
              | va # vs \<Rightarrow>
                  (let s = (server u)\<lparr>fdref := (fdref (server u))(va := 1)\<rparr>;
                       s = set_fd va (\<lambda>_. zero_fd\<lparr>fd_dev_id := 99, fd_omode := 2\<rparr>) s in
                   (int i, u\<lparr>fdtab := (fdtab u)(i := Some va), fresh := vs, server := s\<rparr>))))"

section \<open>Closing\<close>

definition fd_close :: "nat \<Rightarrow> bool \<Rightarrow> uenv \<Rightarrow> (int \<times> uenv) option" where
  "fd_close i must_exist u =
     (case fd_lookup (int i) u of
        (r, None) \<Rightarrow> Some (if must_exist then r else 0, u)
      | (_, Some (_, va)) \<Rightarrow> do {
          (r, u) \<leftarrow> (case dev_lookup (fd_dev_id (the_fd va u)) of
                      (r, None) \<Rightarrow> Some (r, u)
                    | (_, Some Devfile) \<Rightarrow> devfile_flush va u
                    | (_, Some Devcons) \<Rightarrow> Some (devcons_close u)
                    | (_, Some Devpipe) \<Rightarrow> None);
          Some (r, unmap_fd i u)
        })"

definition close :: "int \<Rightarrow> uenv \<Rightarrow> (int \<times> uenv) option" where
  "close fdnum u =
     (case fd_lookup fdnum u of
        (r, None) \<Rightarrow> Some (r, u)
      | (_, Some (i, va)) \<Rightarrow> fd_close i True u)"

fun close_list :: "nat list \<Rightarrow> uenv \<Rightarrow> uenv option" where
  "close_list [] u = Some u"
| "close_list (i # is) u = do { (r, u) \<leftarrow> close (int i) u; close_list is u }"

definition close_all :: "uenv \<Rightarrow> uenv option" where
  "close_all u = close_list [0..<MAXFD] u"

text \<open>
  File descriptors have no data page, so only the descriptor page is duplicated.  When the two numbers
  are equal the descriptor is gone after \<open>close\<close>, and mapping it again fails.
\<close>

definition dup :: "int \<Rightarrow> int \<Rightarrow> uenv \<Rightarrow> (int \<times> uenv) option" where
  "dup oldfdnum newfdnum u =
     (case fd_lookup oldfdnum u of
        (r, None) \<Rightarrow> Some (r, u)
      | (_, Some (_, va)) \<Rightarrow> do {
          (r, u) \<leftarrow> close newfdnum u;
          if newfdnum < 0 \<or> int MAXFD \<le> newfdnum then None
          else (case fdtab u (nat oldfdnum) of
                  None \<Rightarrow> Some (- E_INVAL, u)
                | Some va \<Rightarrow> Some (newfdnum, map_fd (nat newfdnum) va u))
        })"

section \<open>Opening\<close>

definition put_path :: "u8 list \<Rightarrow> bytemem \<Rightarrow> bytemem" where
  "put_path path pg = set_bytes 0 (path @ [0]) pg"

definition open_fd :: "u8 list \<Rightarrow> u32 \<Rightarrow> uenv \<Rightarrow> (int \<times> uenv) option" where
  "open_fd path mode u =
     (if MAXPATHLEN \<le> length path then Some (- E_BAD_PATH, u)
      else (case fd_alloc u of (r, i) \<Rightarrow>
        if r < 0 then Some (r, u)
        else do {
          (r, u) \<leftarrow> fsipc FSREQ_OPEN (Some i) (u\<lparr>fsipcbuf := set32 MAXPATHLEN mode (put_path path (fsipcbuf u))\<rparr>);
          if r < 0 then do { (q, u) \<leftarrow> fd_close i False u; Some (r, u) }
          else Some (int i, u)
        }))"

definition path_request :: "u32 \<Rightarrow> u8 list \<Rightarrow> uenv \<Rightarrow> (int \<times> uenv) option" where
  "path_request type path u =
     (if MAXPATHLEN \<le> length path then Some (- E_BAD_PATH, u)
      else (case fd_alloc u of (r, i) \<Rightarrow>
        if r < 0 then Some (r, u)
        else do {
          (r, u) \<leftarrow> fsipc type (Some i) (u\<lparr>fsipcbuf := put_path path (fsipcbuf u)\<rparr>);
          (q, u) \<leftarrow> fd_close i False u;
          Some (if r < 0 then r else 0, u)
        }))"

definition makedir :: "u8 list \<Rightarrow> uenv \<Rightarrow> (int \<times> uenv) option" where
  "makedir path u = path_request FSREQ_MKDIR path u"

definition remove :: "u8 list \<Rightarrow> uenv \<Rightarrow> (int \<times> uenv) option" where
  "remove path u = path_request FSREQ_REMOVE path u"

section \<open>Reading and writing\<close>

text \<open>The descriptor, its page and its device, or the error of the two lookups.\<close>

definition with_fd :: "int \<Rightarrow> uenv \<Rightarrow> int + (nat \<times> dev)" where
  "with_fd fdnum u =
     (case fd_lookup fdnum u of
        (r, None) \<Rightarrow> Inl r
      | (_, Some (i, va)) \<Rightarrow>
          (case dev_lookup (fd_dev_id (the_fd va u)) of
             (r, None) \<Rightarrow> Inl r
           | (_, Some d) \<Rightarrow> Inr (va, d)))"

definition read_fd :: "int \<Rightarrow> u32 \<Rightarrow> uenv \<Rightarrow> ((int \<times> u8 list) \<times> uenv) option" where
  "read_fd fdnum n u =
     (case with_fd fdnum u of
        Inl r \<Rightarrow> Some ((r, []), u)
      | Inr (va, d) \<Rightarrow>
          if fd_omode (the_fd va u) AND O_ACCMODE = O_WRONLY then Some ((- E_INVAL, []), u)
          else (case d of Devfile \<Rightarrow> devfile_read va n u | Devcons \<Rightarrow> devcons_read n u | Devpipe \<Rightarrow> None))"

partial_function (option) readn_loop :: "int \<Rightarrow> nat \<Rightarrow> u8 list \<Rightarrow> uenv \<Rightarrow> ((int \<times> u8 list) \<times> uenv) option" where
  "readn_loop fdnum n got u =
     (if length got < n then do {
        ((m, bs), u) \<leftarrow> read_fd fdnum (of_nat (n - length got)) u;
        if m < 0 then Some ((m, got), u)
        else if m = 0 then Some ((int (length got), got), u)
        else readn_loop fdnum n (got @ bs) u
      }
      else Some ((int (length got), got), u))"

definition readn :: "int \<Rightarrow> nat \<Rightarrow> uenv \<Rightarrow> ((int \<times> u8 list) \<times> uenv) option" where
  "readn fdnum n u = readn_loop fdnum n [] u"

definition write_fd :: "int \<Rightarrow> u8 list \<Rightarrow> uenv \<Rightarrow> (int \<times> uenv) option" where
  "write_fd fdnum bs u =
     (case with_fd fdnum u of
        Inl r \<Rightarrow> Some (r, u)
      | Inr (va, d) \<Rightarrow>
          if fd_omode (the_fd va u) AND O_ACCMODE = O_RDONLY then Some (- E_INVAL, u)
          else (case d of Devfile \<Rightarrow> devfile_write va bs u | Devcons \<Rightarrow> Some (devcons_write bs u) | Devpipe \<Rightarrow> None))"

definition seek :: "int \<Rightarrow> i32 \<Rightarrow> uenv \<Rightarrow> int \<times> uenv" where
  "seek fdnum offset u =
     (case fd_lookup fdnum u of
        (r, None) \<Rightarrow> (r, u)
      | (_, Some (i, va)) \<Rightarrow> (0, u\<lparr>server := set_fd va (\<lambda>d. d\<lparr>fd_offset := offset\<rparr>) (server u)\<rparr>))"

definition ftruncate :: "int \<Rightarrow> i32 \<Rightarrow> uenv \<Rightarrow> (int \<times> uenv) option" where
  "ftruncate fdnum newsize u =
     (case with_fd fdnum u of
        Inl r \<Rightarrow> Some (r, u)
      | Inr (va, d) \<Rightarrow>
          if fd_omode (the_fd va u) AND O_ACCMODE = O_RDONLY then Some (- E_INVAL, u)
          else (case d of Devfile \<Rightarrow> devfile_trunc va newsize u | _ \<Rightarrow> Some (- E_NOT_SUPP, u)))"

definition fstat :: "int \<Rightarrow> uenv \<Rightarrow> ((int \<times> stat option) \<times> uenv) option" where
  "fstat fdnum u =
     (case with_fd fdnum u of
        Inl r \<Rightarrow> Some ((r, None), u)
      | Inr (va, d) \<Rightarrow> (case d of Devfile \<Rightarrow> devfile_stat va u | Devcons \<Rightarrow> Some (devcons_stat u) | Devpipe \<Rightarrow> None))"

definition stat_path :: "u8 list \<Rightarrow> uenv \<Rightarrow> ((int \<times> stat option) \<times> uenv) option" where
  "stat_path path u = do {
     (fd, u) \<leftarrow> open_fd path O_RDONLY u;
     if fd < 0 then Some ((fd, None), u)
     else do {
       ((r, st), u) \<leftarrow> fstat fd u;
       (q, u) \<leftarrow> close fd u;
       Some ((r, st), u)
     }
   }"

definition getchar_u :: "uenv \<Rightarrow> (int \<times> uenv) option" where
  "getchar_u u = do {
     ((r, bs), u) \<leftarrow> read_fd 0 1 u;
     Some (if r < 0 then r else if r < 1 then - E_EOF else uint (hd bs), u)
   }"

end
