(* ===== verification/Spawn.thy ===== *)
theory Spawn
  imports User File
begin

text \<open>
  Loading a program from the file system into a new environment (\<open>spawn.c\<close>).  The calls on environments and
  pages act on the kernel state, those on files on the state \<open>uenv\<close> of \<open>File\<close>; descriptors and the request
  page are not looked for in the page tables of the kernel state.  A file call that does not answer, because
  the server has stopped in a panic, leaves the machine in the monitor (\<open>Away (Monitor k)\<close>); a loop that
  does not end never comes back (\<open>Away Spin\<close>).

  The arguments of the program are byte strings.  The local variable \<open>child_tf\<close> has an address, because the
  kernel reads it there.
\<close>

section \<open>Stores and file calls\<close>

definition ustore_u :: "u32 \<Rightarrow> u8 list \<Rightarrow> kern \<Rightarrow> unit uout" where
  "ustore_u va bs k = (case ustore va bs k of None \<Rightarrow> UFault k | Some k \<Rightarrow> Done () k)"

definition with_file :: "'b option \<Rightarrow> kern \<Rightarrow> ('b \<Rightarrow> 'a uout) \<Rightarrow> 'a uout" where
  "with_file r k f = (case r of None \<Rightarrow> Away (Monitor k) | Some x \<Rightarrow> f x)"

section \<open>The stack of the child\<close>

definition UTEMP2USTACK :: "u32 \<Rightarrow> u32" where
  "UTEMP2USTACK addr = addr + (USTACKTOP - PGSIZE) - UTEMP"

text \<open>The loop over the arguments, with the slot for the pointer and the place for the string.\<close>

fun copy_args :: "u32 \<Rightarrow> u32 \<Rightarrow> u8 list list \<Rightarrow> kern \<Rightarrow> unit uout" where
  "copy_args slot string_store [] k = Done () k"
| "copy_args slot string_store (a # as) k =
     ubind (ustore_u slot (le32 (UTEMP2USTACK string_store)) k) (\<lambda>_ k.
     ubind (ustore_u string_store (a @ [0]) k) (\<lambda>_ k.
     copy_args (slot + 4) (string_store + of_nat (Suc (length a))) as k))"

definition string_size :: "u8 list list \<Rightarrow> nat" where
  "string_size argv = sum_list (map (\<lambda>a. Suc (length a)) argv)"

text \<open>The result and, when it is set, the initial stack pointer.\<close>

definition init_stack :: "i32 \<Rightarrow> u8 list list \<Rightarrow> kern \<Rightarrow> (i32 \<times> u32 option) uout" where
  "init_stack child argv k =
     (let argc = of_nat (length argv);
          string_store = UTEMP + PGSIZE - of_nat (string_size argv);
          argv_store = ROUNDDOWN string_store 4 - 4 * (argc + 1) in
      if argv_store - 8 < UTEMP then Done (err E_NO_MEM, None) k
      else ubind (sys_page_alloc_u 0 UTEMP (PTE_P OR PTE_U OR PTE_W) k) (\<lambda>r k.
        if sint r < 0 then Done (r, None) k
        else
          ubind (copy_args argv_store string_store argv k) (\<lambda>_ k.
          ubind (ustore_u (argv_store + 4 * argc) (le32 0) k) (\<lambda>_ k.
          ubind (ustore_u (argv_store - 4) (le32 (UTEMP2USTACK argv_store)) k) (\<lambda>_ k.
          ubind (ustore_u (argv_store - 8) (le32 argc) k) (\<lambda>_ k.
          let init_esp = UTEMP2USTACK (argv_store - 8) in
          ubind (sys_page_map_u 0 UTEMP child (USTACKTOP - PGSIZE) (PTE_P OR PTE_U OR PTE_W) k) (\<lambda>r k.
          if sint r < 0 then ubind (sys_page_unmap_u 0 UTEMP k) (\<lambda>_ k. Done (r, Some init_esp) k)
          else
            ubind (sys_page_unmap_u 0 UTEMP k) (\<lambda>r k.
            if sint r < 0 then ubind (sys_page_unmap_u 0 UTEMP k) (\<lambda>_ k. Done (r, Some init_esp) k)
            else Done (0, Some init_esp) k))))))))"

section \<open>Segments\<close>

text \<open>One page of a segment: blank past the bytes of the file, or read from it.\<close>

definition map_page :: "i32 \<Rightarrow> u32 \<Rightarrow> int \<Rightarrow> u32 \<Rightarrow> u32 \<Rightarrow> u32 \<Rightarrow> u32 \<Rightarrow> uenv \<Rightarrow> kern \<Rightarrow> (i32 \<times> uenv) uout" where
  "map_page child va fd filesz fileoffset perm i u k =
     (if filesz \<le> i then
        ubind (sys_page_alloc_u child (va + i) perm k) (\<lambda>r k. Done (r, u) k)
      else
        ubind (sys_page_alloc_u 0 UTEMP (PTE_P OR PTE_U OR PTE_W) k) (\<lambda>r k.
        if sint r < 0 then Done (r, u) k
        else (case seek fd (fileoffset + i) u of (r, u) \<Rightarrow>
          if r < 0 then Done (word_of_int r, u) k
          else with_file (readn fd (unat (if PGSIZE < filesz - i then PGSIZE else filesz - i)) u) k (\<lambda>((r, bs), u).
            ubind (ustore_u UTEMP bs k) (\<lambda>_ k.
            if r < 0 then Done (word_of_int r, u) k
            else ubind (sys_page_map_u 0 UTEMP child (va + i) perm k) (\<lambda>r k.
              if sint r < 0 then UPanic k
              else ubind (sys_page_unmap_u 0 UTEMP k) (\<lambda>_ k. Done (0, u) k)))))))"

partial_function (option) map_loop ::
  "i32 \<Rightarrow> u32 \<Rightarrow> u32 \<Rightarrow> int \<Rightarrow> u32 \<Rightarrow> u32 \<Rightarrow> u32 \<Rightarrow> u32 \<Rightarrow> uenv \<Rightarrow> kern \<Rightarrow> (i32 \<times> uenv) uout option" where
  "map_loop child va memsz fd filesz fileoffset perm i u k =
     (if i < memsz then
        (case map_page child va fd filesz fileoffset perm i u k of
           Done (r, u) k \<Rightarrow> if sint r < 0 then Some (Done (r, u) k)
                            else map_loop child va memsz fd filesz fileoffset perm (i + PGSIZE) u k
         | UPanic k \<Rightarrow> Some (UPanic k) | UFault k \<Rightarrow> Some (UFault k) | Away m \<Rightarrow> Some (Away m))
      else Some (Done (0, u) k))"

definition map_segment :: "i32 \<Rightarrow> u32 \<Rightarrow> u32 \<Rightarrow> int \<Rightarrow> u32 \<Rightarrow> u32 \<Rightarrow> u32 \<Rightarrow> uenv \<Rightarrow> kern \<Rightarrow> (i32 \<times> uenv) uout" where
  "map_segment child va memsz fd filesz fileoffset perm u k =
     (let i = PGOFF va in
      case map_loop child (va - i) (memsz + i) fd (filesz + i) (fileoffset - i) perm 0 u k of
        None \<Rightarrow> Away Spin | Some m \<Rightarrow> m)"

section \<open>Shared pages\<close>

lemma utop_step: "i < UTOP \<Longrightarrow> unat (i + PGSIZE) = unat i + 4096"
  by (simp add: mmu_consts word_less_nat_alt unat_word_ariths)

function copy_shared_loop :: "i32 \<Rightarrow> u32 \<Rightarrow> kern \<Rightarrow> unit uout" where
  "copy_shared_loop child i k =
     (if i < UTOP then
        ubind (with_word (uvpd (PDX i)) k (\<lambda>pde.
                 if pde AND PTE_P = 0 then Done 0 k
                 else with_word (uvpt (PGNUM i)) k (\<lambda>pte.
                   if pte AND PTE_P \<noteq> 0 \<and> pte AND PTE_U \<noteq> 0 \<and> pte AND PTE_SHARE \<noteq> 0
                   then sys_page_map_u 0 i child i (PTE_SHARE OR PTE_SYSCALL) k else Done 0 k)))
          (\<lambda>_ k. copy_shared_loop child (i + PGSIZE) k)
      else Done () k)"
  by auto
termination
proof (relation "measure (\<lambda>(child, i, k). 2 ^ 32 - unat i)")
  fix child :: i32 and i :: u32 and k x y
  assume i: "i < UTOP"
  then have "unat i < unat UTOP" by (simp add: word_less_nat_alt)
  then have "unat i < 4005560320" by (simp add: mmu_consts)
  then show "((child, i + PGSIZE, y), child, i, k) \<in> measure (\<lambda>(child, i, k). 2 ^ 32 - unat i)"
    using utop_step [OF i] by simp
qed simp

definition copy_shared_pages :: "i32 \<Rightarrow> kern \<Rightarrow> i32 uout" where
  "copy_shared_pages child k = ubind (copy_shared_loop child 0 k) (\<lambda>_ k. Done 0 k)"

section \<open>Spawning\<close>

definition ELF_MAGIC :: u32 where "ELF_MAGIC = 0x464C457F"
definition ELF_PROG_FLAG_WRITE :: u32 where "ELF_PROG_FLAG_WRITE = 2"
definition e_magic :: "bytemem \<Rightarrow> u32" where "e_magic b = get32 b 0"

text \<open>A trap frame in memory, its padding as zeros.\<close>

definition tf_bytes :: "trapframe \<Rightarrow> u8 list" where
  "tf_bytes tf = regs_bytes (tf_regs tf) @ le16 (tf_es tf) @ [0, 0] @ le16 (tf_ds tf) @ [0, 0] @ le32 (tf_trapno tf)
     @ le32 (tf_err tf) @ le32 (tf_eip tf) @ le16 (tf_cs tf) @ [0, 0] @ le32 (tf_eflags tf) @ le32 (tf_esp tf) @ le16 (tf_ss tf) @ [0, 0]"

text \<open>
  The program headers, read from the first 512 bytes of the file; a header outside of them is memory of the
  stack, of which the model knows nothing (\<open>UFault\<close>).
\<close>

fun load_segs :: "i32 \<Rightarrow> int \<Rightarrow> bytemem \<Rightarrow> nat \<Rightarrow> nat \<Rightarrow> uenv \<Rightarrow> kern \<Rightarrow> (i32 \<times> uenv) uout" where
  "load_segs child fd b ph 0 u k = Done (0, u) k"
| "load_segs child fd b ph (Suc n) u k =
     (if 512 < ph + SIZEOF_PROGHDR then UFault k
      else if p_type b ph \<noteq> ELF_PROG_LOAD then load_segs child fd b (ph + SIZEOF_PROGHDR) n u k
      else
        (let perm = (if p_flags b ph AND ELF_PROG_FLAG_WRITE \<noteq> 0 then PTE_P OR PTE_U OR PTE_W else PTE_P OR PTE_U) in
         ubind (map_segment child (p_va b ph) (p_memsz b ph) fd (p_filesz b ph) (p_offset b ph) perm u k) (\<lambda>(r, u) k.
         if sint r < 0 then Done (r, u) k else load_segs child fd b (ph + SIZEOF_PROGHDR) n u k)))"

definition spawn :: "u32 \<Rightarrow> u8 list \<Rightarrow> u8 list list \<Rightarrow> uenv \<Rightarrow> kern \<Rightarrow> (i32 \<times> uenv) uout" where
  "spawn tf_va prog argv u k =
     with_file (open_fd prog O_RDONLY u) k (\<lambda>(fd, u).
     if fd < 0 then Done (word_of_int fd, u) k
     else with_file (readn fd 512 u) k (\<lambda>((n, bs), u).
       let b = (\<lambda>i. if i < length bs then bs ! i else 0) in
       if n \<noteq> 512 \<or> e_magic b \<noteq> ELF_MAGIC then with_file (close fd u) k (\<lambda>(_, u). Done (err E_NOT_EXEC, u) k)
       else ubind (sys_exofork_u k) (\<lambda>child k.
         if sint child < 0 then Done (child, u) k
         else
           (let child_tf = (env_tf (envs k (ENVX child)))\<lparr>tf_eip := e_entry b\<rparr> in
            ubind (init_stack child argv k) (\<lambda>(r, esp) k.
            if sint r < 0 then Done (r, u) k
            else
              (let child_tf = (case esp of None \<Rightarrow> child_tf | Some esp \<Rightarrow> child_tf\<lparr>tf_esp := esp\<rparr>) in
               ubind (load_segs child fd b (unat (e_phoff b)) (unat (e_phnum b)) u k) (\<lambda>(r, u) k.
               if sint r < 0 then
                 ubind (sys_env_destroy_u child k) (\<lambda>_ k. with_file (close fd u) k (\<lambda>(_, u). Done (r, u) k))
               else with_file (close fd u) k (\<lambda>(_, u).
                 or_panic (copy_shared_pages child k) (\<lambda>k.
                 ubind (ustore_u tf_va (tf_bytes child_tf) k) (\<lambda>_ k.
                 or_panic (sys_env_set_trapframe_u child tf_va k) (\<lambda>k.
                 or_panic (sys_env_set_status_u child 2 k) (\<lambda>k. Done (child, u) k))))))))))))"

definition spawnl :: "u32 \<Rightarrow> u8 list \<Rightarrow> u8 list \<Rightarrow> u8 list list \<Rightarrow> uenv \<Rightarrow> kern \<Rightarrow> (i32 \<times> uenv) uout" where
  "spawnl tf_va prog arg0 args = spawn tf_va prog (arg0 # args)"

end
