(* ===== verification/ServProps.thy ===== *)
theory ServProps
  imports File FsProps
begin

text \<open>
  Properties of the file server and of the calls of its clients: the table of open files keeps its
  shape under every request, ids of closed files are refused, and what a client writes to a descriptor
  it reads back, through the request page, the server, the block cache and the disk image.
\<close>

section \<open>The table of open files\<close>

definition tab_ok :: "serv \<Rightarrow> bool" where
  "tab_ok s \<longleftrightarrow> (\<forall>i<MAXOPEN. unat (o_fileid (opentab s i)) mod MAXOPEN = i \<and> o_fd (opentab s i) = FILEVA + i * PAGE)"

lemma set_open_fields [simp]:
  "sfs (set_open i g s) = sfs s" "fdpage (set_open i g s) = fdpage s" "fdref (set_open i g s) = fdref s"
  "opentab (set_open i g s) = (opentab s)(i := g (opentab s i))" "page_ret (set_open i g s) = page_ret s"
  "rt_entry (set_open i g s) = rt_entry s"
  by (simp_all add: set_open_def)

lemma set_fd_fields [simp]:
  "sfs (set_fd va g s) = sfs s" "opentab (set_fd va g s) = opentab s" "fdref (set_fd va g s) = fdref s"
  "fdpage (set_fd va g s) = (fdpage s)(va := g (fdpage s va))" "page_ret (set_fd va g s) = page_ret s"
  "rt_entry (set_fd va g s) = rt_entry s"
  by (simp_all add: set_fd_def)

lemma tab_ok_init: "tab_ok (serve_init s)"
  by (simp add: tab_ok_def serve_init_def serv_consts unat_of_nat)

lemma tab_ok_upd [simp]:
  "tab_ok (s\<lparr>sfs := f\<rparr>) = tab_ok s" "tab_ok (s\<lparr>fdref := r\<rparr>) = tab_ok s" "tab_ok (set_fd va g s) = tab_ok s"
  by (simp_all add: tab_ok_def)

lemma tab_ok_set_open:
  "tab_ok s \<Longrightarrow> o_fileid (g (opentab s i)) = o_fileid (opentab s i) \<Longrightarrow> o_fd (g (opentab s i)) = o_fd (opentab s i) \<Longrightarrow>
   tab_ok (set_open i g s)"
  by (simp add: tab_ok_def)

lemma next_fileid: "unat ((x :: u32) + of_nat MAXOPEN) mod MAXOPEN = unat x mod MAXOPEN"
proof -
  have "(unat x + 1024) mod 2 ^ 32 mod 1024 = (unat x + 1024) mod 1024"
    by (rule mod_mod_cancel) simp
  then show ?thesis by (simp add: unat_word_ariths MAXOPEN_def)
qed

lemma openfile_take_tab: "tab_ok s \<Longrightarrow> tab_ok (snd (openfile_take i s))"
  unfolding tab_ok_def openfile_take_def Let_def using next_fileid by simp

lemma openfile_alloc_loop_tab: "tab_ok s \<Longrightarrow> tab_ok (snd (openfile_alloc_loop is s))"
proof (induction "is")
  case (Cons i "is")
  then show ?case
    using openfile_take_tab [of "s\<lparr>fdref := (fdref s)(o_fd (opentab s i) := 1)\<rparr>" i] openfile_take_tab [of s i]
    by (simp add: Let_def)
qed simp

lemma openfile_alloc_tab: "openfile_alloc s = (r, s') \<Longrightarrow> tab_ok s \<Longrightarrow> tab_ok s'"
  using openfile_alloc_loop_tab [of s "[0..<MAXOPEN]"] by (simp add: openfile_alloc_def)

text \<open>The parts of \<open>serve_open\<close> around the table change only the file system.\<close>

lemma open_parts_tab:
  "open_mkdir path omode s = Some (r, s') \<Longrightarrow> tab_ok s \<Longrightarrow> tab_ok s'"
  "open_file path omode s = Some (e, s') \<Longrightarrow> tab_ok s \<Longrightarrow> tab_ok s'"
  "open_trunc f omode s = Some (r, s') \<Longrightarrow> tab_ok s \<Longrightarrow> tab_ok s'"
  by (auto simp: open_mkdir_def open_file_def open_trunc_def split: if_splits bind_splits)

lemma serve_open_tab: "serve_open pg s = Some (r, s') \<Longrightarrow> tab_ok s \<Longrightarrow> tab_ok s'"
  unfolding serve_open_def Let_def
  by (auto split: bind_splits prod.splits if_splits
      dest!: open_parts_tab openfile_alloc_tab intro!: tab_ok_set_open)

lemma handlers_tab:
  assumes "handlers req = Some h" "h pg s = Some (r, pg', s')" "tab_ok s"
  shows "tab_ok s'"
  using assms
  by (auto simp: handlers_def Let_def serve_read_def serve_stat_def serve_flush_def serve_write_def serve_set_size_def
      serve_remove_def serve_mkdir_def serve_sync_def split: if_splits bind_splits prod.splits)

section \<open>Allocation of open files\<close>

definition avail :: "serv \<Rightarrow> nat \<Rightarrow> bool" where
  "avail s i \<longleftrightarrow> fdref s (o_fd (opentab s i)) \<le> 1"

lemma alloc_loop_first:
  "\<lbrakk>i < length is; avail s (is ! i); \<forall>j<i. \<not> avail s (is ! j)\<rbrakk> \<Longrightarrow>
   openfile_alloc_loop is s = openfile_alloc_loop [is ! i] s"
proof (induction "is" arbitrary: i)
  case (Cons k "is")
  show ?case
  proof (cases i)
    case 0
    then show ?thesis using Cons.prems(2) by (auto simp: avail_def Let_def le_Suc_eq)
  next
    case (Suc j)
    have "\<not> avail s k" using Cons.prems(3) Suc by force
    moreover have "\<forall>l<j. \<not> avail s (is ! l)" using Cons.prems(3) Suc by (metis Suc_less_eq nth_Cons_Suc)
    ultimately show ?thesis using Cons.IH [of j] Cons.prems(1,2) Suc by (simp add: avail_def Let_def)
  qed
qed simp

lemma alloc_loop_none: "\<forall>i\<in>set is. \<not> avail s i \<Longrightarrow> openfile_alloc_loop is s = ((- E_MAX_OPEN, 0), s)"
  by (induction "is") (auto simp: avail_def Let_def)

lemma MAXOPEN_word: "(of_nat MAXOPEN :: u32) \<noteq> 0"
  by (simp add: MAXOPEN_def)

section \<open>Requests of a client\<close>

lemma get32_set_bytes_other:
  "d + length bs \<le> a \<or> a + 4 \<le> d \<Longrightarrow> get32 (set_bytes d bs m) a = get32 m a"
  by (rule get32_cong) (auto simp: set_bytes_apply)

text \<open>Descriptor \<open>i\<close> of the client is the open file in slot \<open>k\<close>, whose directory entry is at \<open>f\<close>.\<close>

definition fd_open :: "uenv \<Rightarrow> nat \<Rightarrow> nat \<Rightarrow> nat \<Rightarrow> bool" where
  "fd_open u i k f \<longleftrightarrow>
     (let s = server u; x = opentab s k; va = o_fd x in
      i < MAXFD \<and> k < MAXOPEN \<and> fdtab u i = Some va \<and> 2 \<le> fdref s va \<and> fd_dev_id (fdpage s va) = DEVFILE_ID
      \<and> fd_file_id (fdpage s va) = o_fileid x \<and> unat (o_fileid x) mod MAXOPEN = k \<and> o_file x = f)"

definition fd_of :: "uenv \<Rightarrow> nat \<Rightarrow> fdesc" where
  "fd_of u k = fdpage (server u) (o_fd (opentab (server u) k))"

lemma fd_open_lookup: "fd_open u i k f \<Longrightarrow> openfile_lookup (o_fileid (opentab (server u) k)) (server u) = (0, k)"
  by (simp add: fd_open_def openfile_lookup_def Let_def)

lemma fd_open_with: "fd_open u i k f \<Longrightarrow> with_fd (int i) u = Inr (o_fd (opentab (server u) k), Devfile)"
  by (simp add: fd_open_def with_fd_def fd_lookup_def the_fd_def dev_lookup_def Let_def)

lemma fd_open_the_fd: "fd_open u i k f \<Longrightarrow> the_fd (o_fd (opentab (server u) k)) u = fd_of u k"
  by (simp add: the_fd_def fd_of_def)

lemma fd_open_seek:
  "fd_open u i k f \<Longrightarrow>
   seek (int i) off u = (0, u\<lparr>server := set_fd (o_fd (opentab (server u) k)) (\<lambda>d. d\<lparr>fd_offset := off\<rparr>) (server u)\<rparr>)"
  by (simp add: fd_open_def seek_def fd_lookup_def Let_def)

lemma fsipc_write:
  assumes "get32 (fsipcbuf u) 0 = o_fileid (opentab (server u) k)" "fd_open u i k f"
    and "file_write f (\<lambda>j. fsipcbuf u (8 + j)) (get32 (fsipcbuf u) 4) (fd_offset (fd_of u k)) (sfs (server u)) = Some (r, t)" "0 \<le> r"
  shows "fsipc FSREQ_WRITE None u =
    Some (r, u\<lparr>server := set_fd (o_fd (opentab (server u) k)) (\<lambda>d. d\<lparr>fd_offset := fd_offset d + word_of_int r\<rparr>)
                           ((server u)\<lparr>sfs := t\<rparr>)\<rparr>)"
proof -
  have "serve_write (fsipcbuf u) (server u) =
      Some (r, set_fd (o_fd (opentab (server u) k)) (\<lambda>d. d\<lparr>fd_offset := fd_offset d + word_of_int r\<rparr>) ((server u)\<lparr>sfs := t\<rparr>))"
    using assms fd_open_lookup [OF assms(2)] by (simp add: serve_write_def fd_of_def fd_open_def Let_def)
  then show ?thesis by (simp add: fsipc_def serve_def handlers_def serv_consts Let_def)
qed

lemma fsipc_read:
  assumes "get32 (fsipcbuf u) 0 = o_fileid (opentab (server u) k)" "fd_open u i k f"
    and "file_read f (fsipcbuf u) (get32 (fsipcbuf u) 4) (fd_offset (fd_of u k)) (sfs (server u)) = Some ((r, pg), t)"
    and "0 \<le> r" "r \<le> int PAGE"
  shows "fsipc FSREQ_READ None u =
    Some (r, u\<lparr>fsipcbuf := pg,
               server := set_fd (o_fd (opentab (server u) k)) (\<lambda>d. d\<lparr>fd_offset := fd_offset d + word_of_int r\<rparr>)
                           ((server u)\<lparr>sfs := t\<rparr>)\<rparr>)"
proof -
  have "serve_read (fsipcbuf u) (server u) =
      Some (r, pg, set_fd (o_fd (opentab (server u) k)) (\<lambda>d. d\<lparr>fd_offset := fd_offset d + word_of_int r\<rparr>) ((server u)\<lparr>sfs := t\<rparr>))"
    using assms fd_open_lookup [OF assms(2)] by (simp add: serve_read_def fd_of_def fd_open_def Let_def)
  then show ?thesis by (simp add: fsipc_def serve_def handlers_def serv_consts Let_def)
qed

text \<open>The calls, for a range that fits a request.\<close>

lemma write_fd_run:
  assumes "fd_open u i k f" "fd_omode (fd_of u k) AND O_ACCMODE \<noteq> O_RDONLY" "length bs \<le> PAGE - 8"
    and w: "\<And>b. get_bytes b 0 (length bs) = bs \<Longrightarrow>
      \<exists>t. file_write f b (of_nat (length bs)) (fd_offset (fd_of u k)) (sfs (server u)) = Some (int (length bs), t) \<and> P t"
  shows "\<exists>u' t. write_fd (int i) bs u = Some (int (length bs), u') \<and> P t \<and> fd_open u' i k f
    \<and> server u' = set_fd (o_fd (opentab (server u) k)) (\<lambda>d. d\<lparr>fd_offset := fd_offset d + of_nat (length bs)\<rparr>) ((server u)\<lparr>sfs := t\<rparr>)"
proof -
  let ?va = "o_fd (opentab (server u) k)"
  let ?pg = "set_bytes 8 bs (set32 4 (of_nat (length bs)) (set32 0 (fd_file_id (fd_of u k)) (fsipcbuf u)))"
  let ?u = "u\<lparr>fsipcbuf := ?pg\<rparr>"
  have o: "fd_open ?u i k f" "fd_of ?u k = fd_of u k" using assms(1) by (simp_all add: fd_open_def fd_of_def)
  have pg: "get32 ?pg 0 = o_fileid (opentab (server u) k)" "get32 ?pg 4 = of_nat (length bs)"
    using assms(1) by (simp_all add: mem_simps get32_set_bytes_other fd_open_def fd_of_def Let_def)
  have b: "get_bytes (\<lambda>j. ?pg (8 + j)) 0 (length bs) = bs"
    by (rule nth_equalityI) (auto simp: set_bytes_apply)
  from w [OF b] obtain t where
    t: "file_write f (\<lambda>j. ?pg (8 + j)) (of_nat (length bs)) (fd_offset (fd_of u k)) (sfs (server u)) = Some (int (length bs), t)" "P t"
    by blast
  have "write_fd (int i) bs u = fsipc FSREQ_WRITE None ?u"
    using assms(2,3) fd_open_with [OF assms(1)] fd_open_the_fd [OF assms(1)]
    by (simp add: write_fd_def devfile_write_def Let_def min_def)
  also have "\<dots> = Some (int (length bs),
      ?u\<lparr>server := set_fd ?va (\<lambda>d. d\<lparr>fd_offset := fd_offset d + word_of_int (int (length bs))\<rparr>) ((server u)\<lparr>sfs := t\<rparr>)\<rparr>)"
    using fsipc_write [OF _ o(1), of "int (length bs)" t] pg t o(2) by simp
  finally show ?thesis using t(2) assms(1) by (auto simp: fd_open_def Let_def)
qed

lemma read_fd_run:
  assumes "fd_open u i k f" "fd_omode (fd_of u k) AND O_ACCMODE \<noteq> O_WRONLY" "0 \<le> r" "r \<le> int PAGE"
    and w: "\<And>b. \<exists>b' t. file_read f b n (fd_offset (fd_of u k)) (sfs (server u)) = Some ((r, b'), t) \<and> get_bytes b' 0 (nat r) = bs"
  shows "\<exists>u'. read_fd (int i) n u = Some ((r, bs), u') \<and> fd_open u' i k f
    \<and> fd_offset (fd_of u' k) = fd_offset (fd_of u k) + word_of_int r"
proof -
  let ?va = "o_fd (opentab (server u) k)"
  let ?pg = "set32 4 n (set32 0 (fd_file_id (fd_of u k)) (fsipcbuf u))"
  let ?u = "u\<lparr>fsipcbuf := ?pg\<rparr>"
  have o: "fd_open ?u i k f" "fd_of ?u k = fd_of u k" using assms(1) by (simp_all add: fd_open_def fd_of_def)
  have pg: "get32 ?pg 0 = o_fileid (opentab (server u) k)" "get32 ?pg 4 = n"
    using assms(1) by (simp_all add: mem_simps fd_open_def fd_of_def Let_def)
  from w [of ?pg] obtain b' t where
    t: "file_read f ?pg n (fd_offset (fd_of u k)) (sfs (server u)) = Some ((r, b'), t)" "get_bytes b' 0 (nat r) = bs" by blast
  let ?u' = "?u\<lparr>fsipcbuf := b', server := set_fd ?va (\<lambda>d. d\<lparr>fd_offset := fd_offset d + word_of_int r\<rparr>) ((server u)\<lparr>sfs := t\<rparr>)\<rparr>"
  have "fsipc FSREQ_READ None ?u = Some (r, ?u')"
    using fsipc_read [OF _ o(1), of r b' t] pg t(1) o(2) assms(3,4) by simp
  then have "read_fd (int i) n u = Some ((r, bs), ?u')"
    using assms(2,3) fd_open_with [OF assms(1)] fd_open_the_fd [OF assms(1)] t(2)
    by (simp add: read_fd_def devfile_read_def Let_def)
  moreover have "fd_open ?u' i k f" using assms(1) by (simp add: fd_open_def Let_def)
  moreover have "fd_offset (fd_of ?u' k) = fd_offset (fd_of u k) + word_of_int r" by (simp add: fd_of_def)
  ultimately show ?thesis by blast
qed

section \<open>Properties\<close>

text \<open>
  C36: The table of open files keeps its shape.  After \<open>serve_init\<close>, and after every request the server
  answers, the id in slot \<open>i\<close> is congruent to \<open>i\<close> modulo 1024, so that an id leads to its slot, and every
  slot has a descriptor page of its own.
\<close>

theorem serve_keeps_table:
  "tab_ok (serve_init s0) \<and> (tab_ok s \<and> serve req perm pg s = Some (rp, pg', s') \<longrightarrow> tab_ok s')"
  using tab_ok_init [of s0]
  by (auto simp: serve_def split: if_splits bind_splits option.splits dest: serve_open_tab handlers_tab)

definition no_serv :: "fs \<Rightarrow> serv" where
  "no_serv f = \<lparr>sfs = f, opentab = (\<lambda>_. \<lparr>o_fileid = 0, o_file = 0, o_mode = 1, o_fd = 0\<rparr>), fdpage = (\<lambda>_. zero_fd),
     fdref = (\<lambda>_. 0), page_ret = (\<lambda>_. 0), rt_entry = UTEXT_addr\<rparr>"

theorem serve_keeps_table_witness:
  "\<exists>rp pg' s'. serve 99 7 (\<lambda>_. 0) (serve_init (no_serv img)) = Some (rp, pg', s') \<and> tab_ok s'"
  using serve_keeps_table [of "no_serv img" "serve_init (no_serv img)" 99 7 "\<lambda>_. 0"]
  by (simp add: serve_def handlers_def serv_consts)

text \<open>
  Opening takes the first slot whose descriptor page no client holds.  If no slot is left the error is
  \<open>-E_MAX_OPEN\<close>; if the page of the first such slot has to be allocated and the kernel refuses, the error
  is passed on; otherwise the slot gets the next id of its residue class and a cleared page, its old id is
  refused from now on, the new one is accepted as soon as a client maps the page, and no other slot changes.
\<close>

theorem openfile_alloc_spec:
  assumes "tab_ok s"
  shows "((\<forall>i<MAXOPEN. \<not> avail s i) \<longrightarrow> openfile_alloc s = ((- E_MAX_OPEN, 0), s)) \<and>
    (i < MAXOPEN \<and> avail s i \<and> (\<forall>j<i. \<not> avail s j) \<longrightarrow>
       (if fdref s (o_fd (opentab s i)) = 0 \<and> page_ret s (o_fd (opentab s i)) < 0
        then openfile_alloc s = ((page_ret s (o_fd (opentab s i)), 0), s)
        else \<exists>s'. openfile_alloc s = ((sint (o_fileid (opentab s i) + of_nat MAXOPEN), i), s')
          \<and> opentab s' = (opentab s)(i := (opentab s i)\<lparr>o_fileid := o_fileid (opentab s i) + of_nat MAXOPEN\<rparr>)
          \<and> fdpage s' (o_fd (opentab s i)) = zero_fd \<and> fdref s' (o_fd (opentab s i)) = 1
          \<and> fst (openfile_lookup (o_fileid (opentab s i)) (s'\<lparr>fdref := r\<rparr>)) < 0
          \<and> (2 \<le> r (o_fd (opentab s i)) \<longrightarrow>
               openfile_lookup (o_fileid (opentab s i) + of_nat MAXOPEN) (s'\<lparr>fdref := r\<rparr>) = (0, i))))"
proof (intro conjI impI)
  assume "\<forall>i<MAXOPEN. \<not> avail s i"
  then show "openfile_alloc s = ((- E_MAX_OPEN, 0), s)" by (simp add: openfile_alloc_def alloc_loop_none)
next
  assume i: "i < MAXOPEN \<and> avail s i \<and> (\<forall>j<i. \<not> avail s j)"
  let ?x = "opentab s i"
  let ?s = "s\<lparr>fdref := (fdref s)(o_fd ?x := 1)\<rparr>"
  have "openfile_alloc s = openfile_alloc_loop [i] s"
    unfolding openfile_alloc_def using i alloc_loop_first [of i "[0..<MAXOPEN]" s] by simp
  moreover have "fdref s (o_fd ?x) = 1 \<Longrightarrow> ?s = s" by (simp add: fun_upd_idem)
  ultimately have e: "openfile_alloc s =
      (if fdref s (o_fd ?x) = 0 \<and> page_ret s (o_fd ?x) < 0 then ((page_ret s (o_fd ?x), 0), s) else openfile_take i ?s)"
    using i by (auto simp: avail_def Let_def le_Suc_eq)
  have m: "unat (o_fileid ?x) mod MAXOPEN = i" "unat (o_fileid ?x + of_nat MAXOPEN) mod MAXOPEN = i"
    using assms i next_fileid [of "o_fileid ?x"] by (simp_all add: tab_ok_def)
  show "if fdref s (o_fd ?x) = 0 \<and> page_ret s (o_fd ?x) < 0
        then openfile_alloc s = ((page_ret s (o_fd ?x), 0), s)
        else \<exists>s'. openfile_alloc s = ((sint (o_fileid ?x + of_nat MAXOPEN), i), s')
          \<and> opentab s' = (opentab s)(i := ?x\<lparr>o_fileid := o_fileid ?x + of_nat MAXOPEN\<rparr>)
          \<and> fdpage s' (o_fd ?x) = zero_fd \<and> fdref s' (o_fd ?x) = 1
          \<and> fst (openfile_lookup (o_fileid ?x) (s'\<lparr>fdref := r\<rparr>)) < 0
          \<and> (2 \<le> r (o_fd ?x) \<longrightarrow> openfile_lookup (o_fileid ?x + of_nat MAXOPEN) (s'\<lparr>fdref := r\<rparr>) = (0, i))"
    using m by (auto simp: e openfile_take_def openfile_lookup_def Let_def MAXOPEN_word E_INVAL_def)
qed

theorem openfile_alloc_spec_witness:
  "\<exists>s'. openfile_alloc (serve_init (no_serv img)) = ((1024, 0), s') \<and> fdref s' FILEVA = 1"
proof -
  let ?s = "serve_init (no_serv img)"
  have a: "avail ?s 0" "fdref ?s = (\<lambda>_. 0)" "page_ret ?s = (\<lambda>_. 0)" "o_fileid (opentab ?s 0) = 0" "o_fd (opentab ?s 0) = FILEVA"
    by (simp_all add: avail_def serve_init_def no_serv_def MAXOPEN_def)
  show ?thesis using openfile_alloc_spec [OF tab_ok_init, of "no_serv img" 0 "\<lambda>_. 2"] a by (auto simp: MAXOPEN_def)
qed

text \<open>
  C5: What a client writes it reads back.  For a descriptor opened for reading and writing, \<open>write\<close> of at
  most 4088 bytes at an offset that leaves room in the file, with enough free blocks on the disk, writes
  them all and moves the offset; after \<open>seek\<close> back, \<open>read\<close> of that many bytes returns exactly them.
\<close>

theorem file_io_roundtrip:
  assumes "fd_open u i k f" "fd_omode (fd_of u k) AND O_ACCMODE = 2" "0 < length bs" "length bs \<le> PAGE - 8"
    and "sees (sfs (server u)) m" "m_file m f ino" "off = fd_offset (fd_of u k)" "unat off + length bs \<le> MAXSIZE"
    and "card (need m ino (unat off) (unat off + length bs)) \<le> card (m_free m)"
  shows "\<exists>u1 u2. write_fd (int i) bs u = Some (int (length bs), u1)
    \<and> fd_offset (fd_of u1 k) = off + of_nat (length bs)
    \<and> read_fd (int i) (of_nat (length bs)) (snd (seek (int i) off u1)) = Some ((int (length bs), bs), u2)"
proof -
  let ?n = "of_nat (length bs) :: u32"
  let ?va = "o_fd (opentab (server u) k)"
  have n: "unat ?n = length bs" using assms(4) by (simp add: PAGE_def unat_of_nat)
  let ?P = "\<lambda>t. \<forall>b. \<exists>b' t'. file_read f b ?n off t = Some ((int (length bs), b'), t') \<and> get_bytes b' 0 (length bs) = bs"
  have w: "\<exists>t. file_write f b ?n off (sfs (server u)) = Some (int (length bs), t) \<and> ?P t" if "get_bytes b 0 (length bs) = bs" for b
  proof -
    have r: "\<exists>t t' b'. file_write f b ?n off (sfs (server u)) = Some (int (length bs), t)
        \<and> file_read f c ?n off t = Some ((int (length bs), b'), t') \<and> get_bytes b' 0 (length bs) = bs" for c
      using write_then_read [OF assms(5,6), of off ?n b c] assms(3,8,9) that unfolding n by auto
    then obtain t where "file_write f b ?n off (sfs (server u)) = Some (int (length bs), t)" by blast
    with r show ?thesis by (metis option.inject prod.inject)
  qed
  from write_fd_run [where P = ?P, OF assms(1) _ assms(4)] w assms(2,7) obtain u1 t where
    u1: "write_fd (int i) bs u = Some (int (length bs), u1)" "?P t" "fd_open u1 i k f"
      "server u1 = set_fd ?va (\<lambda>d. d\<lparr>fd_offset := fd_offset d + ?n\<rparr>) ((server u)\<lparr>sfs := t\<rparr>)"
    by (auto simp: O_RDONLY_def)
  have s: "sfs (server u1) = t" "opentab (server u1) = opentab (server u)" "fd_offset (fd_of u1 k) = off + ?n"
    "fd_omode (fd_of u1 k) = fd_omode (fd_of u k)" using u1(4) assms(7) by (simp_all add: fd_of_def)
  let ?u = "snd (seek (int i) off u1)"
  have su: "?u = u1\<lparr>server := set_fd ?va (\<lambda>d. d\<lparr>fd_offset := off\<rparr>) (server u1)\<rparr>"
    using fd_open_seek [OF u1(3), of off] s(2) by simp
  have o: "fd_open ?u i k f" "fd_offset (fd_of ?u k) = off" "fd_omode (fd_of ?u k) = fd_omode (fd_of u1 k)" "sfs (server ?u) = t"
    using u1(3) s(1,2) by (simp_all add: su fd_open_def fd_of_def Let_def)
  have "fd_omode (fd_of ?u k) AND O_ACCMODE \<noteq> O_WRONLY" using o(3) s(4) assms(2) by (simp add: O_WRONLY_def)
  then have "\<exists>u2. read_fd (int i) ?n ?u = Some ((int (length bs), bs), u2)"
    using read_fd_run [OF o(1), of "int (length bs)" ?n bs] u1(2) o(2,4) assms(4) by (auto simp: PAGE_def)
  with u1(1) s(3) show ?thesis by blast
qed

text \<open>A client with the file of the disk image open as descriptor 3.\<close>

definition img_uenv :: uenv where
  "img_uenv = \<lparr>fdtab = [3 \<mapsto> 5], fsipcbuf = (\<lambda>_. 0),
     server = (no_serv img)\<lparr>opentab := (\<lambda>_. \<lparr>o_fileid = 1025, o_file = img_entry, o_mode = 2, o_fd = 5\<rparr>),
       fdpage := (\<lambda>_. \<lparr>fd_dev_id = DEVFILE_ID, fd_offset = 100, fd_omode = 2, fd_file_id = 1025\<rparr>), fdref := (\<lambda>_. 2)\<rparr>,
     fresh = [], cons_in = [], cons_out = []\<rparr>"

lemma img_fd_open: "fd_open img_uenv 3 1 img_entry"
  by (simp add: fd_open_def img_uenv_def no_serv_def MAXFD_def MAXOPEN_def)

lemma img_fd_of: "fd_of img_uenv 1 = \<lparr>fd_dev_id = DEVFILE_ID, fd_offset = 100, fd_omode = 2, fd_file_id = 1025\<rparr>"
  by (simp add: fd_of_def img_uenv_def)

theorem file_io_roundtrip_witness:
  "\<exists>u1 u2. write_fd 3 [1, 2, 3] img_uenv = Some (3, u1)
    \<and> read_fd 3 3 (snd (seek 3 100 u1)) = Some ((3, [1, 2, 3]), u2)"
proof -
  have "sees (sfs (server img_uenv)) img_mem" using sees_img by (simp add: img_uenv_def no_serv_def)
  moreover have "card (need img_mem 1 (unat (100 :: i32)) (unat (100 :: i32) + length [1 :: u8, 2, 3])) \<le> card (m_free img_mem)"
    by (rule img_need)
  moreover have "fd_omode (fd_of img_uenv 1) AND O_ACCMODE = 2" "100 = fd_offset (fd_of img_uenv 1)"
    unfolding img_fd_of by (simp_all add: O_ACCMODE_def)
  ultimately have "\<exists>u1 u2. write_fd (int 3) [1, 2, 3] img_uenv = Some (int (length [1 :: u8, 2, 3]), u1)
      \<and> fd_offset (fd_of u1 1) = 100 + of_nat (length [1 :: u8, 2, 3])
      \<and> read_fd (int 3) (of_nat (length [1 :: u8, 2, 3])) (snd (seek (int 3) 100 u1)) = Some ((int (length [1 :: u8, 2, 3]), [1, 2, 3]), u2)"
    using img_file by (intro file_io_roundtrip [OF img_fd_open]) (simp_all add: PAGE_def MAXSIZE_eq)
  then show ?thesis by auto
qed

text \<open>
  A long read overruns the request page.  Nothing in \<open>serve_read\<close> limits the number of bytes to the
  4096 of the page: for an open file with more than 4096 bytes left behind its offset, a request for more
  than 4096 bytes makes the server store past the page, into the superblock in its cache.
\<close>

theorem serve_read_overrun:
  assumes "fd_open u i k f" "sees (sfs (server u)) m" "m_file m f ino" "off = fd_offset (fd_of u k)"
    and "get32 pg 0 = o_fileid (opentab (server u) k)" "PAGE < unat (get32 pg 4)"
    and "unat off + PAGE < unat (m_size m ino)" "unat (m_size m ino) \<le> MAXSIZE" "has_range m ino 0 (unat (m_size m ino))"
  shows "(\<exists>n b t. file_read f pg (get32 pg 4) off (sfs (server u)) = Some ((n, b), t) \<and> int PAGE < n)
    \<and> serve_read pg (server u) = None"
proof -
  let ?n = "min (unat (get32 pg 4)) (unat (m_size m ino) - unat off)"
  have lim: "unat off + ?n \<le> MAXSIZE" "unat off < unat (m_size m ino)" "PAGE < ?n" using assms(6-8) by auto
  have "has_range m ino (unat off) (unat off + ?n)" using assms(9) by (auto simp: has_range_def)
  from file_read_run [OF assms(2,3) lim(2) refl lim(1) this, of pg] obtain t where
    r: "file_read f pg (get32 pg 4) off (sfs (server u)) = Some ((int ?n, set_bytes 0 (m_read m ino (unat off) ?n) pg), t)"
    by (rule runsE)
  moreover have "o_file (opentab (server u) k) = f" using assms(1) by (simp add: fd_open_def Let_def)
  moreover have "int PAGE < int ?n" using lim(3) by (simp only: of_nat_less_iff)
  ultimately show ?thesis
    using fd_open_lookup [OF assms(1)] assms(4,5) by (simp add: serve_read_def fd_of_def Let_def)
qed

text \<open>A file of 5000 bytes, written into the empty file of the disk image.\<close>

lemma img_long_file:
  "\<exists>t m. sees t m \<and> m_file m img_entry 1 \<and> unat (m_size m 1) = 5000 \<and> has_range m 1 0 5000"
proof -
  let ?z = "of_nat (max (unat (m_size img_mem 1)) 5000) :: u16"
  have "unat (0 :: i32) + unat (5000 :: u32) \<le> MAXSIZE" by (simp add: MAXSIZE_eq)
  from file_write_run [OF sees_img img_file this, of "\<lambda>_. 0"] img_need obtain m' where
    run: "runs (file_write img_entry (\<lambda>_. 0) 5000 0 img) 5000 m'"
    and w: "wrote (m_resize 1 ?z img_mem) m' img_entry 1 0 5000 (\<lambda>p. 0)" by auto
  obtain t where t: "sees t m'" using run by (rule runsE)
  note r = wrote_resize [OF img_file w]
  have "unat ?z = 5000" by (simp add: img_slots del: One_nat_def)
  moreover have "has_range m' 1 0 5000" using r(4) by (auto simp: has_range_def MAXSIZE_eq)
  ultimately show ?thesis using t r(1,2) by (intro exI conjI) (assumption | simp del: One_nat_def)+
qed

theorem serve_read_overrun_witness:
  "\<exists>u pg. fd_open u 3 1 img_entry \<and> get32 pg 4 = 5000 \<and> serve_read pg (server u) = None"
proof -
  obtain t m where t: "sees t m" "m_file m img_entry 1" "unat (m_size m 1) = 5000" "has_range m 1 0 5000"
    using img_long_file by blast
  let ?u = "img_uenv\<lparr>server := (server img_uenv)\<lparr>sfs := t\<rparr>\<rparr>"
  let ?pg = "set32 4 5000 (set32 0 1025 (\<lambda>_. 0))"
  have o: "fd_open ?u 3 1 img_entry" using img_fd_open by (simp add: fd_open_def Let_def)
  have f: "fd_offset (fd_of ?u 1) = 100" using img_fd_of by (simp add: fd_of_def)
  have pg: "get32 ?pg 0 = o_fileid (opentab (server ?u) 1)" "get32 ?pg 4 = 5000"
    by (simp_all add: mem_simps img_uenv_def)
  from serve_read_overrun [OF o _ t(2) _ pg(1), of 100] t f pg(2) have "serve_read ?pg (server ?u) = None"
    by (simp add: PAGE_def MAXSIZE_eq)
  with o pg(2) show ?thesis by blast
qed

text \<open>With \<open>O_MKDIR\<close>, an error of \<open>file_create\<close> reaches the client as the value 1, which means success.\<close>

lemma serve_open_mkdir_error:
  "get32 pg MAXPATHLEN AND O_MKDIR \<noteq> 0 \<Longrightarrow> file_create (req_path pg) FTYPE_DIR (sfs s) = Some ((r, e), t) \<Longrightarrow> r < 0 \<Longrightarrow>
   serve_open pg s = Some ((1, None), s\<lparr>sfs := t\<rparr>)"
  by (simp add: serve_open_def open_mkdir_def Let_def)

lemma fd_alloc_loop_least:
  "fd_alloc_loop ks u = (0, j) \<Longrightarrow> \<exists>n<length ks. j = ks ! n \<and> fdtab u j = None \<and> (\<forall>m<n. fdtab u (ks ! m) \<noteq> None)"
proof (induction ks)
  case (Cons a ks)
  show ?case
  proof (cases "fdtab u a")
    case None
    then show ?thesis using Cons.prems by (intro exI [of _ 0]) simp
  next
    case (Some va)
    with Cons obtain n where "n < length ks" "j = ks ! n" "fdtab u j = None" "\<forall>m<n. fdtab u (ks ! m) \<noteq> None" by auto
    with Some show ?thesis by (intro exI [of _ "Suc n"]) (auto simp: less_Suc_eq_0_disj)
  qed
qed (simp add: E_MAX_OPEN_def)

text \<open>
  Duplicated descriptors share their file and their offset.  \<open>fd_alloc\<close> names the least free number;
  \<open>dup\<close> onto a free number makes it refer to the same open file, raises the reference count of the
  descriptor page by one and leaves the old number open, and a \<open>seek\<close> on either moves the offset of both.
\<close>

theorem dup_shares_offset:
  assumes "fd_open u i k f" "fd_alloc u = (0, j)"
  shows "j < MAXFD \<and> fdtab u j = None \<and> (\<forall>l<j. fdtab u l \<noteq> None)
    \<and> (\<exists>u'. dup (int i) (int j) u = Some (int j, u') \<and> fd_open u' i k f \<and> fd_open u' j k f
      \<and> fdref (server u') (o_fd (opentab (server u) k)) = fdref (server u) (o_fd (opentab (server u) k)) + 1
      \<and> (\<forall>l\<in>{i, j}. fd_offset (fd_of (snd (seek (int l) off u')) k) = off
            \<and> fd_open (snd (seek (int l) off u')) i k f \<and> fd_open (snd (seek (int l) off u')) j k f))"
proof -
  have j: "j < MAXFD" "fdtab u j = None" "\<forall>l<j. fdtab u l \<noteq> None"
    using fd_alloc_loop_least [of "[0..<MAXFD]" u j] assms(2) by (auto simp: fd_alloc_def)
  let ?va = "o_fd (opentab (server u) k)"
  let ?u = "map_fd j ?va u"
  have i: "fd_lookup (int i) u = (0, Some (i, ?va))" "fdtab u i = Some ?va" "i \<noteq> j"
    using assms(1) j(2) by (auto simp: fd_open_def fd_lookup_def Let_def)
  have "close (int j) u = Some (- E_INVAL, u)" using j by (simp add: close_def fd_lookup_def)
  then have d: "dup (int i) (int j) u = Some (int j, ?u)" using i(1,2) j(1) by (simp add: dup_def)
  have m: "server ?u = (server u)\<lparr>fdref := (fdref (server u))(?va := fdref (server u) ?va + 1)\<rparr>"
    "fdtab ?u = (fdtab u)(j := Some ?va)"
    using j(2) by (simp_all add: map_fd_def unmap_fd_def Let_def)
  have o: "fd_open ?u i k f" "fd_open ?u j k f" using assms(1) i(3) j(1) by (simp_all add: fd_open_def m Let_def)
  have "fd_offset (fd_of (snd (seek (int l) off ?u)) k) = off
      \<and> fd_open (snd (seek (int l) off ?u)) i k f \<and> fd_open (snd (seek (int l) off ?u)) j k f" if "fd_open ?u l k f" for l
    unfolding fd_open_seek [OF that] using o by (simp add: fd_of_def fd_open_def Let_def)
  with d j o m show ?thesis by (intro conjI exI [of _ ?u]) auto
qed

theorem dup_shares_offset_witness:
  "\<exists>u'. dup 3 0 img_uenv = Some (0, u') \<and> fd_open u' 0 1 img_entry \<and> fd_offset (fd_of (snd (seek 0 77 u')) 1) = 77"
proof -
  have "fd_alloc img_uenv = (0, 0)" by (simp add: fd_alloc_def MAXFD_def upt_rec img_uenv_def)
  from dup_shares_offset [OF img_fd_open this, of 77] show ?thesis by auto
qed

end
