(* ===== verification/SpawnProps.thy ===== *)
theory SpawnProps
  imports Spawn CowProps ServProps
begin

text \<open>
  Program loading.  \<open>init_stack\<close> gives the child a stack page from which it reads its arguments: \<open>argc\<close>, the
  vector and the strings, at addresses of its own; and \<open>map_segment\<close> shows the child the bytes of the program
  file, followed by zeros.
\<close>

section \<open>Stores into a temporary page\<close>

definition put_mem :: "bytemem \<Rightarrow> kern \<Rightarrow> kern" where
  "put_mem m k = k\<lparr>kvm := (kvm k)\<lparr>pmem := m\<rparr>\<rparr>"

lemma put_mem_simps [simp]: "pmem (kvm (put_mem m k)) = m" "cr3 (put_mem m k) = cr3 k" "put_mem m' (put_mem m k) = put_mem m' k"
  by (simp_all add: put_mem_def)

lemma put_mem_vm: "put_mem m (put_vm v k) = put_vm (v\<lparr>pmem := m\<rparr>) k"
  by (simp add: put_mem_def put_vm_def)

lemma trans_ok_same:
  assumes "trans_ok m d n p True" "\<And>x. x div 4096 \<noteq> p \<Longrightarrow> m' x = m x" "n < UPG"
  shows "trans_ok m' d n p True"
proof -
  have e: "ent m' q i = ent m q i" if "q \<noteq> p" "i < 1024" for q i
    by (rule ent_page) (use assms(2) that in auto)
  have p: "p \<noteq> d" "p \<noteq> pa2page (ent m d (n div 1024))" using assms(1) by (auto simp: trans_ok_def Let_def)
  have "ent m' d (n div 1024) = ent m d (n div 1024)" using e p(1) UPD_less [OF UPG_div [OF assms(3)]] by simp
  then show ?thesis using assms(1) e [of "pa2page (ent m d (n div 1024))" "n mod 1024"] p(2) by (simp add: trans_ok_def Let_def)
qed

lemma ustore_u_page:
  assumes "n < UPG" "trans_ok (pmem (kvm k)) d n p True" "cr3 k = d * 4096" "unat va = n * 4096 + j" "j + length bs \<le> 4096"
  shows "ustore_u va bs k = Done () (put_mem (set_bytes (p * 4096 + j) bs (pmem (kvm k))) k)"
  using ustore_page [OF assms] by (simp add: ustore_u_def put_mem_def)

lemma length_le32 [simp]: "length (le32 w) = 4"
  by (simp add: le32_def)

lemma unat_in_page: "n < UPG \<Longrightarrow> unat (va :: u32) = n * 4096 + j \<Longrightarrow> j + l \<le> 4096 \<Longrightarrow> unat (va + of_nat l) = n * 4096 + (j + l)"
  by (simp add: unat_word_ariths unat_of_nat UPG_def UPD_def)

lemma string_size_simps [simp]: "string_size [] = 0" "string_size (a # as) = Suc (length a) + string_size as"
  by (simp_all add: string_size_def)

lemma copy_args_run:
  assumes n: "n < UPG"
  shows "trans_ok (pmem (kvm k)) d n p True \<Longrightarrow> cr3 k = d * 4096 \<Longrightarrow> unat slot = n * 4096 + o1 \<Longrightarrow> unat st = n * 4096 + o2 \<Longrightarrow>
    o1 + 4 * length as \<le> o2 \<Longrightarrow> o2 + string_size as \<le> 4096 \<Longrightarrow>
    \<exists>m. copy_args slot st as k = Done () (put_mem m k)
      \<and> (\<forall>x. x < p * 4096 + o1 \<or> p * 4096 + o1 + 4 * length as \<le> x \<and> x < p * 4096 + o2 \<or> p * 4096 + o2 + string_size as \<le> x \<longrightarrow> m x = pmem (kvm k) x)
      \<and> (\<forall>i<length as. get_bytes m (p * 4096 + o1 + 4 * i) 4 = le32 (UTEMP2USTACK (st + of_nat (string_size (take i as))))
           \<and> get_bytes m (p * 4096 + o2 + string_size (take i as)) (Suc (length (as ! i))) = as ! i @ [0])"
proof (induction as arbitrary: k slot st o1 o2)
  case Nil
  then show ?case by (intro exI [of _ "pmem (kvm k)"]) (simp add: put_mem_def)
next
  case (Cons a as)
  let ?P = "p * 4096" and ?l = "Suc (length a)"
  define m1 where "m1 = set_bytes (?P + o1) (le32 (UTEMP2USTACK st)) (pmem (kvm k))"
  define m2 where "m2 = set_bytes (?P + o2) (a @ [0]) m1"
  have b: "o1 + 4 \<le> o2" "o2 + ?l + string_size as \<le> 4096" using Cons.prems(5,6) by auto
  have s1: "ustore_u slot (le32 (UTEMP2USTACK st)) k = Done () (put_mem m1 k)"
    using ustore_u_page [OF n Cons.prems(1,2,3)] b by (simp add: m1_def)
  have t1: "trans_ok m1 d n p True" using b by (intro trans_ok_same [OF Cons.prems(1) _ n]) (auto simp: m1_def set_bytes_apply)
  have s2: "ustore_u st (a @ [0]) (put_mem m1 k) = Done () (put_mem m2 k)"
    using ustore_u_page [OF n, of "put_mem m1 k" d p st o2 "a @ [0]"] t1 Cons.prems(2,4) b by (simp add: m2_def)
  have t2: "trans_ok m2 d n p True" using b by (intro trans_ok_same [OF t1 _ n]) (auto simp: m2_def set_bytes_apply)
  have u: "unat (slot + 4) = n * 4096 + (o1 + 4)" "unat (st + of_nat ?l) = n * 4096 + (o2 + ?l)"
    using unat_in_page [OF n Cons.prems(3), of 4] unat_in_page [OF n Cons.prems(4), of ?l] b by simp_all
  have "o1 + 4 + 4 * length as \<le> o2 + ?l" using Cons.prems(5) by simp
  from Cons.IH [of "put_mem m2 k", OF _ _ u this b(2)] t2 Cons.prems(2) obtain m where
    m: "copy_args (slot + 4) (st + of_nat ?l) as (put_mem m2 k) = Done () (put_mem m k)"
      "\<forall>x. x < ?P + (o1 + 4) \<or> ?P + (o1 + 4) + 4 * length as \<le> x \<and> x < ?P + (o2 + ?l) \<or> ?P + (o2 + ?l) + string_size as \<le> x \<longrightarrow> m x = m2 x"
      "\<forall>i<length as. get_bytes m (?P + (o1 + 4) + 4 * i) 4 = le32 (UTEMP2USTACK (st + of_nat ?l + of_nat (string_size (take i as))))
        \<and> get_bytes m (?P + (o2 + ?l) + string_size (take i as)) (Suc (length (as ! i))) = as ! i @ [0]" by auto
  have "copy_args slot st (a # as) k = Done () (put_mem m k)" using s1 s2 m(1) by simp
  moreover have "m x = pmem (kvm k) x"
    if "x < ?P + o1 \<or> ?P + o1 + 4 * length (a # as) \<le> x \<and> x < ?P + o2 \<or> ?P + o2 + string_size (a # as) \<le> x" for x
    using m(2) [rule_format, of x] that b Cons.prems(5) by (auto simp: m1_def m2_def set_bytes_apply)
  moreover have "get_bytes m (?P + o1 + 4 * i) 4 = le32 (UTEMP2USTACK (st + of_nat (string_size (take i (a # as)))))
      \<and> get_bytes m (?P + o2 + string_size (take i (a # as))) (Suc (length ((a # as) ! i))) = (a # as) ! i @ [0]" if "i < length (a # as)" for i
  proof (cases i)
    case 0
    have "get_bytes m (?P + o1) 4 = get_bytes m1 (?P + o1) 4"
      using m(2) b by (intro get_bytes_cong) (auto simp: m2_def set_bytes_apply)
    moreover have "get_bytes m (?P + o2) ?l = get_bytes m2 (?P + o2) ?l" using m(2) Cons.prems(5) by (intro get_bytes_cong) auto
    ultimately show ?thesis
      using get_bytes_set_bytes_same [of "?P + o1" "le32 (UTEMP2USTACK st)"] get_bytes_set_bytes_same [of "?P + o2" "a @ [0]" m1]
      by (simp add: 0 m1_def m2_def)
  next
    case (Suc i')
    then show ?thesis using m(3) that by (simp add: add.assoc ac_simps)
  qed
  ultimately show ?case by blast
qed

section \<open>The stack page\<close>

definition UTN :: nat where "UTN = vpn UTEMP"

lemma UTN_props: "UTN < UPG" "va_ok UTEMP" "unat UTEMP = UTN * 4096 + 0" "UTN = 1024"
  by (simp_all add: UTN_def vpn_def mmu_consts UPG_def UPD_def va_ok_def word_le_nat_alt)

definition STN :: nat where "STN = vpn (USTACKTOP - PGSIZE)"

lemma STN_props: "STN < UPG" "va_ok (USTACKTOP - PGSIZE)" "unat (USTACKTOP - PGSIZE) = STN * 4096 + 0" "STN \<noteq> UTN"
  by (simp_all add: STN_def UTN_def vpn_def mmu_consts UPG_def UPD_def va_ok_def word_le_nat_alt)

text \<open>The offset of the strings and of the vector in the page.\<close>

definition str_off :: "u8 list list \<Rightarrow> nat" where
  "str_off argv = 4096 - string_size argv"

definition vec_off :: "u8 list list \<Rightarrow> nat" where
  "vec_off argv = str_off argv - str_off argv mod 4 - 4 * Suc (length argv)"

definition args_fit :: "u8 list list \<Rightarrow> bool" where
  "args_fit argv \<longleftrightarrow> 4 * length argv + string_size argv + 15 \<le> 4096"

lemma args_off:
  assumes "args_fit argv"
  shows "8 \<le> vec_off argv" "vec_off argv mod 4 = 0" "vec_off argv + 4 * Suc (length argv) \<le> str_off argv"
    "str_off argv + string_size argv = 4096"
proof -
  have s: "4 * length argv + 15 \<le> str_off argv" using assms by (simp add: args_fit_def str_off_def)
  have v: "vec_off argv + 4 * Suc (length argv) = str_off argv div 4 * 4" "8 \<le> vec_off argv"
    using s by (auto simp: vec_off_def minus_mod_eq_div_mult)
  show "8 \<le> vec_off argv" by (rule v(2))
  have "vec_off argv = (str_off argv div 4 - Suc (length argv)) * 4" using v(1) by (simp add: diff_mult_distrib)
  then show "vec_off argv mod 4 = 0" by simp
  show "vec_off argv + 4 * Suc (length argv) \<le> str_off argv" unfolding v(1) by simp
  show "str_off argv + string_size argv = 4096" using assms by (simp add: args_fit_def str_off_def)
qed

lemma args_addr:
  assumes "args_fit argv"
  defines "st \<equiv> UTEMP + PGSIZE - of_nat (string_size argv)"
  defines "av \<equiv> ROUNDDOWN st 4 - 4 * (of_nat (length argv) + 1)"
  shows "unat st = UTN * 4096 + str_off argv" "unat av = UTN * 4096 + vec_off argv" "\<not> av - 8 < UTEMP"
    "unat (av - 8) = UTN * 4096 + (vec_off argv - 8)" "unat (av - 4) = UTN * 4096 + (vec_off argv - 4)"
    "unat (av + 4 * of_nat (length argv)) = UTN * 4096 + (vec_off argv + 4 * length argv)"
proof -
  note o = args_off [OF assms(1)]
  have l: "string_size argv \<le> 4096" "length argv < 4096" using assms(1) by (auto simp: args_fit_def)
  have T: "unat (UTEMP + PGSIZE) = UTN * 4096 + 4096" by (simp add: mmu_consts UTN_props(4))
  have "unat (of_nat (string_size argv) :: u32) = string_size argv" using l by (simp add: unat_of_nat)
  moreover from this have "of_nat (string_size argv) \<le> UTEMP + PGSIZE" unfolding word_le_nat_alt T using l by simp
  ultimately show st: "unat st = UTN * 4096 + str_off argv" unfolding st_def using T l by (simp add: unat_sub str_off_def)
  have r: "unat (ROUNDDOWN st 4) = UTN * 4096 + (str_off argv - str_off argv mod 4)"
  proof -
    have "unat (st mod 4) = str_off argv mod 4" unfolding unat_mod st by (simp add: UTN_props(4) mod_add_eq [symmetric, of "4194304" _ 4])
    moreover have "st mod 4 \<le> st" by (simp add: word_le_nat_alt unat_mod)
    ultimately show ?thesis unfolding ROUNDDOWN_def using st by (simp add: unat_sub)
  qed
  have n: "unat (4 * (of_nat (length argv) + 1) :: u32) = 4 * Suc (length argv)" using l by (simp add: unat_word_ariths unat_of_nat)
  have "4 * (of_nat (length argv) + 1) \<le> ROUNDDOWN st 4" unfolding word_le_nat_alt n r using o by (simp add: vec_off_def)
  then show av: "unat av = UTN * 4096 + vec_off argv" unfolding av_def using r n o(1) by (simp add: unat_sub vec_off_def)
  show a8: "unat (av - 8) = UTN * 4096 + (vec_off argv - 8)" "unat (av - 4) = UTN * 4096 + (vec_off argv - 4)"
    using av o(1) by (simp_all add: unat_sub word_le_nat_alt)
  show "\<not> av - 8 < UTEMP" unfolding word_less_nat_alt a8(1) UTN_props(3) by simp
  have "4 * of_nat (length argv) = (of_nat (4 * length argv) :: u32)" by simp
  moreover have "vec_off argv + 4 * length argv \<le> 4096" using o(3,4) by simp
  ultimately show "unat (av + 4 * of_nat (length argv)) = UTN * 4096 + (vec_off argv + 4 * length argv)"
    using unat_in_page [OF UTN_props(1) av, of "4 * length argv"] by simp
qed

lemma UTEMP2USTACK_off: "unat w = UTN * 4096 + j \<Longrightarrow> j \<le> 4096 \<Longrightarrow> unat (UTEMP2USTACK w) = STN * 4096 + j"
proof -
  assume w: "unat w = UTN * 4096 + j" and j: "j \<le> 4096"
  have "UTEMP2USTACK w = w + (USTACKTOP - PGSIZE - UTEMP)" by (simp add: UTEMP2USTACK_def)
  moreover have "unat (USTACKTOP - PGSIZE - UTEMP) = (STN - UTN) * 4096" "UTN \<le> STN" "STN < 1000000"
    by (simp_all add: mmu_consts STN_def UTN_def vpn_def)
  ultimately show ?thesis using w j by (simp add: unat_word_ariths diff_mult_distrib)
qed

lemma fill_stack:
  assumes "args_fit argv" "trans_ok (pmem (kvm k)) d UTN p True" "cr3 k = d * 4096"
  defines "st \<equiv> UTEMP + PGSIZE - of_nat (string_size argv)"
  defines "av \<equiv> ROUNDDOWN st 4 - 4 * (of_nat (length argv) + 1)"
  shows "\<exists>m. (\<forall>f. ubind (copy_args av st argv k) (\<lambda>_ k. ubind (ustore_u (av + 4 * of_nat (length argv)) (le32 0) k) (\<lambda>_ k.
          ubind (ustore_u (av - 4) (le32 (UTEMP2USTACK av)) k) (\<lambda>_ k. ubind (ustore_u (av - 8) (le32 (of_nat (length argv))) k) f)))
        = f () (put_mem m k))
     \<and> (\<forall>x. x div 4096 \<noteq> p \<longrightarrow> m x = pmem (kvm k) x)
     \<and> get_bytes m (p * 4096 + (vec_off argv - 8)) 4 = le32 (of_nat (length argv)) \<and> get_bytes m (p * 4096 + (vec_off argv - 4)) 4 = le32 (UTEMP2USTACK av)
     \<and> get_bytes m (p * 4096 + (vec_off argv + 4 * length argv)) 4 = le32 0
     \<and> (\<forall>i<length argv. get_bytes m (p * 4096 + (vec_off argv + 4 * i)) 4 = le32 (UTEMP2USTACK (st + of_nat (string_size (take i argv))))
          \<and> get_bytes m (p * 4096 + (str_off argv + string_size (take i argv))) (Suc (length (argv ! i))) = argv ! i @ [0])"
proof -
  note o = args_off [OF assms(1)] and a = args_addr [OF assms(1), folded st_def, folded av_def]
  let ?P = "p * 4096" and ?V = "vec_off argv" and ?n = "length argv" and ?S = "str_off argv"
  have "?V + 4 * ?n \<le> ?S" "?S + string_size argv \<le> 4096" using o(3,4) by simp_all
  from copy_args_run [OF UTN_props(1) assms(2,3) a(2,1) this] obtain m0 where
    m0: "copy_args av st argv k = Done () (put_mem m0 k)"
      "\<forall>x. x < ?P + ?V \<or> ?P + ?V + 4 * ?n \<le> x \<and> x < ?P + ?S \<or> ?P + ?S + string_size argv \<le> x \<longrightarrow> m0 x = pmem (kvm k) x"
      "\<forall>i<?n. get_bytes m0 (?P + ?V + 4 * i) 4 = le32 (UTEMP2USTACK (st + of_nat (string_size (take i argv))))
        \<and> get_bytes m0 (?P + ?S + string_size (take i argv)) (Suc (length (argv ! i))) = argv ! i @ [0]" by blast
  define m1 where "m1 = set_bytes (?P + (?V + 4 * ?n)) (le32 0) m0"
  define m2 where "m2 = set_bytes (?P + (?V - 4)) (le32 (UTEMP2USTACK av)) m1"
  define m3 where "m3 = set_bytes (?P + (?V - 8)) (le32 (of_nat ?n)) m2"
  have b: "8 \<le> ?V" "?V + 4 * ?n + 4 \<le> ?S" "?S \<le> 4096" using o by simp_all
  have far: "x < ?P + ?V \<or> ?P + ?S + string_size argv \<le> x" if "x div 4096 \<noteq> p" for x using that o(4) by auto
  have t0: "trans_ok m0 d UTN p True" using m0(2) far by (intro trans_ok_same [OF assms(2) _ UTN_props(1)]) blast
  have s1: "ustore_u (av + 4 * of_nat ?n) (le32 0) (put_mem m0 k) = Done () (put_mem m1 k)"
    using ustore_u_page [OF UTN_props(1) _ _ a(6), of "put_mem m0 k" d p "le32 0"] t0 assms(3) b by (simp add: m1_def)
  have t1: "trans_ok m1 d UTN p True" using b by (intro trans_ok_same [OF t0 _ UTN_props(1)]) (auto simp: m1_def set_bytes_apply)
  have s2: "ustore_u (av - 4) (le32 (UTEMP2USTACK av)) (put_mem m1 k) = Done () (put_mem m2 k)"
    using ustore_u_page [OF UTN_props(1) _ _ a(5), of "put_mem m1 k" d p "le32 (UTEMP2USTACK av)"] t1 assms(3) b by (simp add: m2_def)
  have t2: "trans_ok m2 d UTN p True" using b by (intro trans_ok_same [OF t1 _ UTN_props(1)]) (auto simp: m2_def set_bytes_apply)
  have s3: "ustore_u (av - 8) (le32 (of_nat ?n)) (put_mem m2 k) = Done () (put_mem m3 k)"
    using ustore_u_page [OF UTN_props(1) _ _ a(4), of "put_mem m2 k" d p "le32 (of_nat ?n)"] t2 assms(3) b by (simp add: m3_def)
  have out: "m3 x = pmem (kvm k) x" if "x div 4096 \<noteq> p" for x
  proof -
    have x: "x < ?P \<or> ?P + 4096 \<le> x" using that by auto
    have "m3 x = m2 x" unfolding m3_def by (rule set_bytes_outside) (use x b in auto)
    also have "m2 x = m1 x" unfolding m2_def by (rule set_bytes_outside) (use x b in auto)
    also have "m1 x = m0 x" unfolding m1_def by (rule set_bytes_outside) (use x b in auto)
    also have "m0 x = pmem (kvm k) x" using m0(2) far [OF that] by blast
    finally show ?thesis .
  qed
  have in0: "m3 x = m0 x" if "?P + ?V \<le> x" "x < ?P + ?V + 4 * ?n \<or> ?P + ?S \<le> x" for x
    using that b by (auto simp: m1_def m2_def m3_def set_bytes_apply)
  have g: "get_bytes m3 (?P + (?V - 8)) 4 = le32 (of_nat ?n)" "get_bytes m3 (?P + (?V - 4)) 4 = le32 (UTEMP2USTACK av)"
    "get_bytes m3 (?P + (?V + 4 * ?n)) 4 = le32 0"
  proof -
    show "get_bytes m3 (?P + (?V - 8)) 4 = le32 (of_nat ?n)" using get_bytes_set_bytes_same [of _ "le32 (of_nat ?n)"] by (simp add: m3_def)
    have "get_bytes m3 (?P + (?V - 4)) 4 = get_bytes m2 (?P + (?V - 4)) 4" using b by (intro get_bytes_cong) (auto simp: m3_def set_bytes_apply)
    then show "get_bytes m3 (?P + (?V - 4)) 4 = le32 (UTEMP2USTACK av)" using get_bytes_set_bytes_same [of _ "le32 (UTEMP2USTACK av)"] by (simp add: m2_def)
    have "get_bytes m3 (?P + (?V + 4 * ?n)) 4 = get_bytes m1 (?P + (?V + 4 * ?n)) 4" using b by (intro get_bytes_cong) (auto simp: m2_def m3_def set_bytes_apply)
    then show "get_bytes m3 (?P + (?V + 4 * ?n)) 4 = le32 0" using get_bytes_set_bytes_same [of _ "le32 0"] by (simp add: m1_def)
  qed
  have "get_bytes m3 (?P + (?V + 4 * i)) 4 = get_bytes m0 (?P + ?V + 4 * i) 4
      \<and> get_bytes m3 (?P + (?S + string_size (take i argv))) (Suc (length (argv ! i))) = get_bytes m0 (?P + ?S + string_size (take i argv)) (Suc (length (argv ! i)))"
    if "i < ?n" for i
    using that b by (simp add: add.assoc) (intro conjI get_bytes_cong in0, auto)
  with m0(3) have "\<forall>i<?n. get_bytes m3 (?P + (?V + 4 * i)) 4 = le32 (UTEMP2USTACK (st + of_nat (string_size (take i argv))))
      \<and> get_bytes m3 (?P + (?S + string_size (take i argv))) (Suc (length (argv ! i))) = argv ! i @ [0]" by simp
  then show ?thesis using m0(1) s1 s2 s3 out g by (intro exI [of _ m3]) simp
qed

section \<open>A fresh page at a temporary address\<close>

lemma page_whole:
  assumes "\<And>x. x div 4096 \<noteq> p \<Longrightarrow> m' x = m x"
  shows "m' = set_bytes (p * 4096) (get_bytes m' (p * 4096) 4096) m"
proof
  fix x
  show "m' x = set_bytes (p * 4096) (get_bytes m' (p * 4096) 4096) m x"
  proof (cases "x div 4096 = p")
    case True
    then have "p * 4096 \<le> x" "x < p * 4096 + 4096" by auto
    then show ?thesis by (simp add: set_bytes_apply nth_get_bytes)
  next
    case False
    then have "x < p * 4096 \<or> p * 4096 + 4096 \<le> x" by auto
    then show ?thesis using assms [OF False] by (auto simp: set_bytes_apply)
  qed
qed

lemma temp_page:
  assumes k: "kinv k" "kmem k (p # xs)" "curenv k = Some c" "cr3 k = d * 4096"
    and T: "va_ok T" "pde (kvm k) d (vpn T div 1024) \<noteq> 0 \<or> xs \<noteq> []"
  shows "\<exists>v xs'. sys_page_alloc_u 0 T (PTE_P OR PTE_U OR PTE_W) k = Done 0 (put_vm v k) \<and> ms_inv v (kdirs k) xs' \<and> length xs \<le> Suc (length xs')
     \<and> (pde (kvm k) d (vpn T div 1024) \<noteq> 0 \<longrightarrow> length xs \<le> length xs') \<and> maps v (kdirs k) p = {(d, vpn T)} \<and> maps (kvm k) (kdirs k) p = {}
     \<and> trans_ok (pmem v) d (vpn T) p True \<and> (\<forall>j<4096. pmem v (p * 4096 + j) = 0)
     \<and> (\<forall>d'\<in>kdirs k. \<forall>n<UPG. amap v d' n = (if d' = d \<and> n = vpn T then page2pa p OR (PTE_P OR PTE_U OR PTE_W) OR PTE_P else amap (kvm k) d' n))
     \<and> (\<forall>d'\<in>kdirs k. \<forall>i<UPD. (pde v d' i \<noteq> 0) = (pde (kvm k) d' i \<noteq> 0 \<or> d' = d \<and> i = vpn T div 1024))
     \<and> (\<forall>q. spare v (kdirs k) q \<and> q \<noteq> p \<longrightarrow> spare (kvm k) (kdirs k) q \<and> (\<forall>j<4096. pmem v (q * 4096 + j) = pmem (kvm k) (q * 4096 + j)))"
proof -
  have c: "env_status (envs k c) \<noteq> ENV_FREE" "env_pgdir (envs k c) = Some (d * 4096)" using k(1,3,4) by (auto simp: kinv_def)
  note dk = kdirsI [OF c] and n = vpn_user [OF va_okD [OF T(1)]]
  have z: "envid2env 0 True k = Some (0, Some c)" using k(3) by (simp add: envid2env_def)
  let ?D = "kdirs k" and ?e = "page2pa p OR (PTE_P OR PTE_U OR PTE_W) OR PTE_P"
  have pf: "maps (kvm k) ?D p = {}" "p < 1048576" "p \<noteq> 0"
    using as_invD(7) [OF ms_invD(1) [OF k(2)], of p] as_invD(1) [OF ms_invD(1) [OF k(2)]] by (auto simp: spare_def)
  note e = new_entry [OF pf(2,3) perm_okD [OF dup_perm_ok(4)]]
  from sys_page_alloc_ms [OF k(1,2) z c(2) T(1) dup_perm_ok(4) T(2)] obtain v zs where
    v: "sys_page_alloc 0 T (PTE_P OR PTE_U OR PTE_W) k = Ret 0 (put_vm v k)" "ms_inv v ?D zs" "length xs \<le> Suc (length zs)"
      "pde (kvm k) d (vpn T div 1024) \<noteq> 0 \<longrightarrow> length xs \<le> length zs"
      "\<forall>d'\<in>?D. \<forall>n<UPG. amap v d' n = (if d' = d \<and> n = vpn T then ?e else amap (kvm k) d' n)"
      "\<forall>d'\<in>?D. \<forall>i<UPD. (pde v d' i \<noteq> 0) = (pde (kvm k) d' i \<noteq> 0 \<or> d' = d \<and> i = vpn T div 1024)" "\<forall>j<4096. pmem v (p * 4096 + j) = 0"
      "\<forall>q. spare v ?D q \<and> q \<noteq> p \<longrightarrow> spare (kvm k) ?D q \<and> (\<forall>j<4096. pmem v (q * 4096 + j) = pmem (kvm k) (q * 4096 + j))" by blast
  have a: "amap v d (vpn T) = ?e" using v(5) dk n by simp
  have "maps v ?D p = {(d, vpn T)}" using maps_upd [of d ?D "vpn T" v ?e "kvm k" p, OF dk n] v(5) e pf(1) by simp
  moreover have "shown ?e" "?e AND PTE_W \<noteq> 0" by (simp_all add: shown_def mmu_consts page_low_and)
  then have "trans_ok (pmem v) d (vpn T) p True" using trans_ok_amap(2) [OF v(2) dk n] a e(1) by simp
  ultimately show ?thesis using stub_page_alloc [OF v(1)] v(2-8) pf(1) by blast
qed

text \<open>Filling the page and giving it away.\<close>

lemma give_page:
  assumes k: "kinv k" "ms_inv v (kdirs k) xs" "curenv k = Some c" "cr3 k = d * 4096"
    and T: "va_ok T" "maps v (kdirs k) p = {(d, vpn T)}" and m: "\<And>x. x div 4096 \<noteq> p \<Longrightarrow> m x = pmem v x"
    and dst: "envid2env dst True k = Some (0, Some e)" "env_pgdir (envs k e) = Some (dd * 4096)" "va_ok va" "vpn va = n"
      "(dd, n) \<noteq> (d, vpn T)" "perm_ok perm" "pde v dd (n div 1024) \<noteq> 0 \<or> xs \<noteq> []"
  shows "\<exists>v1 v2 xs'. sys_page_map_u 0 T dst va perm (put_vm (v\<lparr>pmem := m\<rparr>) k) = Done 0 (put_vm v1 k) \<and> sys_page_unmap_u 0 T (put_vm v1 k) = Done 0 (put_vm v2 k)
     \<and> ms_inv v2 (kdirs k) xs' \<and> maps v2 (kdirs k) p = {(dd, n)} \<and> length xs \<le> Suc (length xs')
     \<and> (pde v dd (n div 1024) \<noteq> 0 \<longrightarrow> length xs \<le> length xs')
     \<and> (\<forall>j<4096. pmem v2 (p * 4096 + j) = m (p * 4096 + j))
     \<and> (\<forall>q. spare v2 (kdirs k) q \<and> q \<noteq> p \<longrightarrow> spare v (kdirs k) q \<and> (\<forall>j<4096. pmem v2 (q * 4096 + j) = pmem v (q * 4096 + j)))
     \<and> (\<forall>d'\<in>kdirs k. \<forall>i<UPD. (pde v2 d' i \<noteq> 0) = (pde v d' i \<noteq> 0 \<or> d' = dd \<and> i = n div 1024))
     \<and> (\<forall>d'\<in>kdirs k. \<forall>m<UPG. amap v2 d' m = (if d' = d \<and> m = vpn T then 0
          else if d' = dd \<and> m = n then page2pa p OR perm OR PTE_P else amap v d' m))"
proof -
  let ?D = "kdirs k" and ?w = "v\<lparr>pmem := m\<rparr>" and ?bs = "get_bytes m (p * 4096) 4096"
  have w: "?w = v\<lparr>pmem := set_bytes (p * 4096) ?bs (pmem v)\<rparr>" using page_whole [of p m "pmem v", OF m] by simp
  have nz: "maps v ?D p \<noteq> {}" "length ?bs \<le> 4096" using T(2) by simp_all
  note S = store_ms [OF k(2) nz, folded w]
  have ddk: "dd \<in> ?D" using kdirsI [OF envid2env_live(2) [OF k(1) dst(1)] dst(2)] .
  have n: "n < UPG" using vpn_user [OF va_okD [OF dst(3)]] dst(4) by simp
  have pd: "pde ?w d' i = pde v d' i" if "d' \<in> ?D" "i < UPD" for d' i using S(3) [OF that(1)] UPD_less [OF that(2)] by simp
  have "maps ?w ?D p = {(d, vpn T)}" "pde ?w dd (n div 1024) \<noteq> 0 \<or> xs \<noteq> []" using S(4) T(2) dst(7) pd [OF ddk UPG_div [OF n]] by simp_all
  from hand_over [OF k(1) S(1) k(3,4) T(1) this(1) dst(1-6) this(2)] obtain v1 v2 ys where
    h: "sys_page_map 0 T dst va perm (put_vm ?w k) = Ret 0 (put_vm v1 k)" "sys_page_unmap 0 T (put_vm v1 k) = Ret 0 (put_vm v2 k)"
     "ms_inv v2 ?D ys" "kept ?D ?w v2" "maps v2 ?D p = {(dd, n)}" "length xs \<le> Suc (length ys)"
     "pde ?w dd (n div 1024) \<noteq> 0 \<longrightarrow> length xs \<le> length ys"
     "\<forall>d'\<in>?D. \<forall>i<UPD. (pde v2 d' i \<noteq> 0) = (pde ?w d' i \<noteq> 0 \<or> d' = dd \<and> i = n div 1024)"
     "\<forall>d'\<in>?D. \<forall>m<UPG. amap v2 d' m = (if d' = d \<and> m = vpn T then 0 else if d' = dd \<and> m = n then page2pa p OR perm OR PTE_P else amap ?w d' m)"
    by blast
  have "spare v2 ?D p" using as_invD(9) [OF ms_invD(1) [OF h(3)], of p] h(5) by simp
  then have "\<forall>j<4096. pmem v2 (p * 4096 + j) = m (p * 4096 + j)" using h(4) by (simp add: kept_def)
  moreover have "\<forall>q. spare v2 ?D q \<and> q \<noteq> p \<longrightarrow> spare v ?D q \<and> (\<forall>j<4096. pmem v2 (q * 4096 + j) = pmem v (q * 4096 + j))"
    using h(4) S(5,6) by (simp add: kept_def)
  moreover have "\<forall>d'\<in>?D. \<forall>i<UPD. (pde v2 d' i \<noteq> 0) = (pde v d' i \<noteq> 0 \<or> d' = dd \<and> i = n div 1024)" using h(8) pd by simp
  moreover have "\<forall>d'\<in>?D. \<forall>m<UPG. amap v2 d' m = (if d' = d \<and> m = vpn T then 0 else if d' = dd \<and> m = n then page2pa p OR perm OR PTE_P else amap v d' m)"
    using h(9) S(2) by simp
  moreover have "pde v dd (n div 1024) \<noteq> 0 \<longrightarrow> length xs \<le> length ys" using h(7) pd [OF ddk UPG_div [OF n]] by simp
  ultimately show ?thesis using stub_page_map [OF h(1)] stub_page_unmap [OF h(2)] h(3,5,6) by blast
qed

section \<open>The arguments of the child\<close>

lemma init_stack_run:
  assumes k: "kinv k" "kmem k xs" "curenv k = Some c" "cr3 k = d * 4096" "3 \<le> length xs"
    and child: "envid2env child True k = Some (0, Some e)" "env_pgdir (envs k e) = Some (dc * 4096)" "dc \<noteq> d"
    and fit: "args_fit argv"
  defines "st \<equiv> UTEMP + PGSIZE - of_nat (string_size argv)"
  defines "av \<equiv> ROUNDDOWN st 4 - 4 * (of_nat (length argv) + 1)"
  shows "\<exists>v p xs'. init_stack child argv k = Done (0, Some (UTEMP2USTACK (av - 8))) (put_vm v k) \<and> ms_inv v (kdirs k) xs'
     \<and> length xs \<le> length xs' + 3 \<and> maps (kvm k) (kdirs k) p = {} \<and> maps v (kdirs k) p = {(dc, STN)}
     \<and> (\<forall>q. spare v (kdirs k) q \<and> q \<noteq> p \<longrightarrow> spare (kvm k) (kdirs k) q \<and> (\<forall>j<4096. pmem v (q * 4096 + j) = pmem (kvm k) (q * 4096 + j)))
     \<and> (\<forall>d'\<in>kdirs k. \<forall>m<UPG. amap v d' m = (if d' = d \<and> m = UTN then 0
          else if d' = dc \<and> m = STN then page2pa p OR (PTE_P OR PTE_U OR PTE_W) OR PTE_P else amap (kvm k) d' m))
     \<and> get_bytes (pmem v) (p * 4096 + (vec_off argv - 8)) 4 = le32 (of_nat (length argv))
     \<and> get_bytes (pmem v) (p * 4096 + (vec_off argv - 4)) 4 = le32 (UTEMP2USTACK av)
     \<and> get_bytes (pmem v) (p * 4096 + (vec_off argv + 4 * length argv)) 4 = le32 0
     \<and> (\<forall>i<length argv. get_bytes (pmem v) (p * 4096 + (vec_off argv + 4 * i)) 4 = le32 (UTEMP2USTACK (st + of_nat (string_size (take i argv))))
          \<and> get_bytes (pmem v) (p * 4096 + (str_off argv + string_size (take i argv))) (Suc (length (argv ! i))) = argv ! i @ [0])"
proof -
  let ?D = "kdirs k"
  obtain p q r ys where xs: "xs = p # q # r # ys" using k(5) by (auto simp: numeral_3_eq_3 Suc_le_length_iff)
  from temp_page [OF k(1) k(2) [unfolded xs] k(3,4) UTN_props(2)] obtain v zs where
    v: "sys_page_alloc_u 0 UTEMP (PTE_P OR PTE_U OR PTE_W) k = Done 0 (put_vm v k)" "ms_inv v ?D zs" "length (q # r # ys) \<le> Suc (length zs)"
      "maps v ?D p = {(d, vpn UTEMP)}" "maps (kvm k) ?D p = {}" "trans_ok (pmem v) d UTN p True"
      "\<forall>d'\<in>?D. \<forall>n<UPG. amap v d' n = (if d' = d \<and> n = UTN then page2pa p OR (PTE_P OR PTE_U OR PTE_W) OR PTE_P else amap (kvm k) d' n)"
      "\<forall>q. spare v ?D q \<and> q \<noteq> p \<longrightarrow> spare (kvm k) ?D q \<and> (\<forall>j<4096. pmem v (q * 4096 + j) = pmem (kvm k) (q * 4096 + j))"
    unfolding UTN_def by blast
  have "trans_ok (pmem (kvm (put_vm v k))) d UTN p True" "cr3 (put_vm v k) = d * 4096" using v(6) k(4) by simp_all
  from fill_stack [OF fit this] obtain m where
    f: "\<And>f :: unit \<Rightarrow> kern \<Rightarrow> (i32 \<times> u32 option) uout.
          ubind (copy_args av st argv (put_vm v k)) (\<lambda>_ k. ubind (ustore_u (av + 4 * of_nat (length argv)) (le32 0) k) (\<lambda>_ k.
          ubind (ustore_u (av - 4) (le32 (UTEMP2USTACK av)) k) (\<lambda>_ k. ubind (ustore_u (av - 8) (le32 (of_nat (length argv))) k) f)))
        = f () (put_vm (v\<lparr>pmem := m\<rparr>) k)"
    and m: "\<forall>x. x div 4096 \<noteq> p \<longrightarrow> m x = pmem v x"
      "get_bytes m (p * 4096 + (vec_off argv - 8)) 4 = le32 (of_nat (length argv))" "get_bytes m (p * 4096 + (vec_off argv - 4)) 4 = le32 (UTEMP2USTACK av)"
      "get_bytes m (p * 4096 + (vec_off argv + 4 * length argv)) 4 = le32 0"
      "\<forall>i<length argv. get_bytes m (p * 4096 + (vec_off argv + 4 * i)) 4 = le32 (UTEMP2USTACK (st + of_nat (string_size (take i argv))))
          \<and> get_bytes m (p * 4096 + (str_off argv + string_size (take i argv))) (Suc (length (argv ! i))) = argv ! i @ [0]"
    unfolding put_mem_vm put_vm_fields st_def [symmetric] av_def [symmetric] by blast
  have ne: "(dc, STN) \<noteq> (d, vpn UTEMP)" "zs \<noteq> []" "vpn (USTACKTOP - PGSIZE) = STN" using child(3) v(3) by (auto simp: STN_def)
  from give_page [OF k(1) v(2) k(3,4) UTN_props(2) v(4) _ child(1,2) STN_props(2) ne(3,1) dup_perm_ok(4) disjI2 [OF ne(2)], of m] m(1)
  obtain v1 v2 xs' where
    g: "sys_page_map_u 0 UTEMP child (USTACKTOP - PGSIZE) (PTE_P OR PTE_U OR PTE_W) (put_vm (v\<lparr>pmem := m\<rparr>) k) = Done 0 (put_vm v1 k)"
      "sys_page_unmap_u 0 UTEMP (put_vm v1 k) = Done 0 (put_vm v2 k)" "ms_inv v2 ?D xs'" "maps v2 ?D p = {(dc, STN)}" "length zs \<le> Suc (length xs')"
      "\<forall>j<4096. pmem v2 (p * 4096 + j) = m (p * 4096 + j)"
      "\<forall>q. spare v2 ?D q \<and> q \<noteq> p \<longrightarrow> spare v ?D q \<and> (\<forall>j<4096. pmem v2 (q * 4096 + j) = pmem v (q * 4096 + j))"
      "\<forall>d'\<in>?D. \<forall>m<UPG. amap v2 d' m = (if d' = d \<and> m = UTN then 0
          else if d' = dc \<and> m = STN then page2pa p OR (PTE_P OR PTE_U OR PTE_W) OR PTE_P else amap v d' m)"
    unfolding UTN_def by blast
  have run: "init_stack child argv k = Done (0, Some (UTEMP2USTACK (av - 8))) (put_vm v2 k)"
    unfolding init_stack_def Let_def st_def [symmetric] av_def [symmetric]
    using args_addr(3) [OF fit, folded st_def, folded av_def] v(1) f g(1,2) by simp
  have gb: "get_bytes (pmem v2) (p * 4096 + j) l = get_bytes m (p * 4096 + j) l" if "j + l \<le> 4096" for j l
    using g(6) that by (intro get_bytes_cong) (simp add: add.assoc)
  note o = args_off [OF fit]
  have str: "string_size (take i argv) + Suc (length (argv ! i)) \<le> string_size argv" if "i < length argv" for i
  proof -
    have "argv = take i argv @ argv ! i # drop (Suc i) argv" using that by (rule id_take_nth_drop)
    then have "string_size argv = string_size (take i argv @ argv ! i # drop (Suc i) argv)" by (rule arg_cong)
    then show ?thesis by (simp add: string_size_def)
  qed
  have "get_bytes (pmem v2) (p * 4096 + (vec_off argv - 8)) 4 = le32 (of_nat (length argv))"
    "get_bytes (pmem v2) (p * 4096 + (vec_off argv - 4)) 4 = le32 (UTEMP2USTACK av)"
    "get_bytes (pmem v2) (p * 4096 + (vec_off argv + 4 * length argv)) 4 = le32 0"
    using m(2-4) o gb [of "vec_off argv - 8" 4] gb [of "vec_off argv - 4" 4] gb [of "vec_off argv + 4 * length argv" 4] by simp_all
  moreover have "get_bytes (pmem v2) (p * 4096 + (vec_off argv + 4 * i)) 4 = le32 (UTEMP2USTACK (st + of_nat (string_size (take i argv))))
      \<and> get_bytes (pmem v2) (p * 4096 + (str_off argv + string_size (take i argv))) (Suc (length (argv ! i))) = argv ! i @ [0]"
    if "i < length argv" for i
    using m(5) [rule_format, OF that] o str [OF that] that gb [of "vec_off argv + 4 * i" 4] gb [of "str_off argv + string_size (take i argv)" "Suc (length (argv ! i))"]
    by simp
  moreover have "\<forall>q. spare v2 ?D q \<and> q \<noteq> p \<longrightarrow> spare (kvm k) ?D q \<and> (\<forall>j<4096. pmem v2 (q * 4096 + j) = pmem (kvm k) (q * 4096 + j))"
    using g(7) v(8) by simp
  moreover have "\<forall>d'\<in>?D. \<forall>m<UPG. amap v2 d' m = (if d' = d \<and> m = UTN then 0
          else if d' = dc \<and> m = STN then page2pa p OR (PTE_P OR PTE_U OR PTE_W) OR PTE_P else amap (kvm k) d' m)"
    using g(8) v(7) by simp
  moreover have "length xs \<le> length xs' + 3" using v(3) g(5) xs by simp
  ultimately show ?thesis using run g(3,4) v(5) by (intro exI [of _ v2] exI [of _ p] exI [of _ xs']) simp
qed

text \<open>An address whose entry and page are as before reads as before.\<close>

lemma ubyte_kept:
  assumes "kmem k xs" "kmem (put_vm v k) xs'" "d' \<in> kdirs k" "va < UTOP" "amap v d' (vpn va) = amap (kvm k) d' (vpn va)"
    "amap (kvm k) d' (vpn va) \<noteq> 0 \<Longrightarrow> spare v (kdirs k) (pa2page (amap (kvm k) d' (vpn va))) \<Longrightarrow>
       \<forall>j<4096. pmem v (pa2page (amap (kvm k) d' (vpn va)) * 4096 + j) = pmem (kvm k) (pa2page (amap (kvm k) d' (vpn va)) * 4096 + j)"
  shows "ubyte (put_vm v k) d' va = ubyte k d' va"
  by (rule ubyte_same [OF assms(1,2,3) _ assms(4)]) (use assms(3,5,6) in simp_all)

lemma stack_pointer:
  assumes u: "unat esp = STN * 4096 + j" and j: "j < 4096" "j mod 4 = 0"
  shows "USTACKTOP - PGSIZE \<le> esp" "esp < USTACKTOP" "esp mod 4 = 0"
proof -
  show "USTACKTOP - PGSIZE \<le> esp" unfolding word_le_nat_alt u STN_props(3) by simp
  have "unat USTACKTOP = STN * 4096 + 4096" by (simp add: mmu_consts STN_def vpn_def)
  then show "esp < USTACKTOP" unfolding word_less_nat_alt u using j(1) by simp
  have "unat (esp mod 4) = 0" unfolding unat_mod u using j(2)
    by (simp add: mod_add_eq [symmetric, of "STN * 4096" _ 4] mod_mult_eq [symmetric, of _ 4096])
  then show "esp mod 4 = 0" by (intro unat_eqI) simp
qed

lemma string_size_take:
  assumes "i < length argv"
  shows "string_size (take i argv) + Suc (length (argv ! i)) \<le> string_size argv"
proof -
  have "string_size argv = string_size (take i argv @ argv ! i # drop (Suc i) argv)" using id_take_nth_drop [OF assms] by simp
  then show ?thesis by (simp add: string_size_def)
qed

text \<open>
  C11: the arguments of a spawned program.  With three free pages, and arguments that fit the page,
  \<open>init_stack\<close> succeeds and sets a stack pointer, aligned and in the stack page, at which the child, running in
  its own address space, reads the number of its arguments, the address of the vector, in the vector
  the addresses of the strings and a null pointer after the last, and at those addresses the arguments
  themselves with their terminators.  The parent sees what it saw, the temporary page excepted, and every other
  environment all that it saw.
\<close>

theorem init_stack_args:
  assumes k: "kinv k" "kmem k xs" "curenv k = Some c" "cr3 k = d * 4096" "3 \<le> length xs"
    and child: "envid2env child True k = Some (0, Some e)" "env_pgdir (envs k e) = Some (dc * 4096)" "dc \<noteq> d"
    and fit: "args_fit argv"
  shows "\<exists>k' esp xs'. init_stack child argv k = Done (0, Some esp) k' \<and> kinv k' \<and> kmem k' xs' \<and> envs k' = envs k \<and> kdirs k' = kdirs k
     \<and> USTACKTOP - PGSIZE \<le> esp \<and> esp < USTACKTOP \<and> esp mod 4 = 0
     \<and> uload esp 4 (k'\<lparr>cr3 := dc * 4096\<rparr>) = Some (le32 (of_nat (length argv)))
     \<and> uload (esp + 4) 4 (k'\<lparr>cr3 := dc * 4096\<rparr>) = Some (le32 (esp + 8))
     \<and> (\<forall>i<length argv. \<exists>s. uload (esp + 8 + 4 * of_nat i) 4 (k'\<lparr>cr3 := dc * 4096\<rparr>) = Some (le32 s)
          \<and> uload s (Suc (length (argv ! i))) (k'\<lparr>cr3 := dc * 4096\<rparr>) = Some (argv ! i @ [0]))
     \<and> uload (esp + 8 + 4 * of_nat (length argv)) 4 (k'\<lparr>cr3 := dc * 4096\<rparr>) = Some (le32 0)
     \<and> (\<forall>d'\<in>kdirs k. \<forall>va<UTOP. (d', vpn va) \<notin> {(d, vpn UTEMP), (dc, vpn (USTACKTOP - PGSIZE))} \<longrightarrow> ubyte k' d' va = ubyte k d' va)"
proof -
  define st :: u32 where "st = UTEMP + PGSIZE - of_nat (string_size argv)"
  define av where "av = ROUNDDOWN st 4 - 4 * (of_nat (length argv) + 1)"
  let ?D = "kdirs k" and ?n = "length argv" and ?V = "vec_off argv" and ?S = "str_off argv" and ?esp = "UTEMP2USTACK (av - 8)"
  note o = args_off [OF fit] and a = args_addr [OF fit, folded st_def, folded av_def]
  from init_stack_run [OF k child fit, folded st_def, folded av_def] obtain v p xs' where
    r: "init_stack child argv k = Done (0, Some ?esp) (put_vm v k)" "ms_inv v ?D xs'" "maps (kvm k) ?D p = {}" "maps v ?D p = {(dc, STN)}"
      "\<forall>q. spare v ?D q \<and> q \<noteq> p \<longrightarrow> spare (kvm k) ?D q \<and> (\<forall>j<4096. pmem v (q * 4096 + j) = pmem (kvm k) (q * 4096 + j))"
      "\<forall>d'\<in>?D. \<forall>m<UPG. amap v d' m = (if d' = d \<and> m = UTN then 0
          else if d' = dc \<and> m = STN then page2pa p OR (PTE_P OR PTE_U OR PTE_W) OR PTE_P else amap (kvm k) d' m)"
    and g: "get_bytes (pmem v) (p * 4096 + (?V - 8)) 4 = le32 (of_nat ?n)" "get_bytes (pmem v) (p * 4096 + (?V - 4)) 4 = le32 (UTEMP2USTACK av)"
      "get_bytes (pmem v) (p * 4096 + (?V + 4 * ?n)) 4 = le32 0"
      "\<forall>i<?n. get_bytes (pmem v) (p * 4096 + (?V + 4 * i)) 4 = le32 (UTEMP2USTACK (st + of_nat (string_size (take i argv))))
          \<and> get_bytes (pmem v) (p * 4096 + (?S + string_size (take i argv))) (Suc (length (argv ! i))) = argv ! i @ [0]" by blast
  let ?k = "put_vm v k" and ?kc = "(put_vm v k)\<lparr>cr3 := dc * 4096\<rparr>"
  note dck = kdirsI [OF envid2env_live(2) [OF k(1) child(1)] child(2)]
  have km: "kmem ?k xs'" using r(2) by simp
  have "spare v ?D p" using as_invD(9) [OF ms_invD(1) [OF r(2)], of p] r(4) by simp
  then have pb: "p < 1048576" "p \<noteq> 0" using as_invD(1) [OF ms_invD(1) [OF r(2)]] by (auto simp: spare_def)
  have am: "amap v dc STN = page2pa p OR (PTE_P OR PTE_U OR PTE_W) OR PTE_P" using r(6) dck child(3) STN_props(1) by simp
  have t: "trans_ok (pmem (kvm ?kc)) dc STN p False"
    using trans_ok_amap(1) [OF r(2) dck STN_props(1)] am new_entry(1) [OF pb perm_okD [OF dup_perm_ok(4)]]
    by (simp add: shown_def mmu_consts page_low_and)
  have ld: "uload va l ?kc = Some (get_bytes (pmem v) (p * 4096 + j) l)" if "unat va = STN * 4096 + j" "j + l \<le> 4096" for va l j
    using uload_page [OF t _ STN_props(1) that] by simp
  have vb: "?V + 4 * ?n + 4 \<le> 4096" using o(3,4) by simp
  have u8: "unat ?esp = STN * 4096 + (?V - 8)" using UTEMP2USTACK_off [OF a(4)] vb by simp
  have esp: "UTEMP2USTACK av = ?esp + 8" "unat (?esp + 4) = STN * 4096 + (?V - 4)" "unat (?esp + 8) = STN * 4096 + ?V"
    using unat_in_page [OF STN_props(1) u8, of 4] unat_in_page [OF STN_props(1) u8, of 8] o(1) vb
    by (simp_all add: UTEMP2USTACK_def)
  have vec: "unat (?esp + 8 + 4 * of_nat i) = STN * 4096 + (?V + 4 * i)" if "i \<le> ?n" for i
    using unat_in_page [OF STN_props(1) esp(3), of "4 * i"] that vb by simp
  have str: "uload (UTEMP2USTACK (st + of_nat (string_size (take i argv)))) (Suc (length (argv ! i))) ?kc = Some (argv ! i @ [0])" if "i < ?n" for i
  proof -
    note l = string_size_take [OF that]
    have "unat (st + of_nat (string_size (take i argv))) = UTN * 4096 + (?S + string_size (take i argv))"
      using unat_in_page [OF UTN_props(1) a(1), of "string_size (take i argv)"] l o(4) by simp
    from ld [OF UTEMP2USTACK_off [OF this], of "Suc (length (argv ! i))"] l o(4) g(4) that show ?thesis by (simp del: uload.simps)
  qed
  have keep: "ubyte ?k d' va = ubyte k d' va" if "d' \<in> ?D" "va < UTOP" "(d', vpn va) \<notin> {(d, UTN), (dc, STN)}" for d' va
  proof (rule ubyte_kept [OF k(2) km that(1,2)])
    show "amap v d' (vpn va) = amap (kvm k) d' (vpn va)" using r(6) that vpn_user [OF that(2)] by auto
    show "\<forall>j<4096. pmem v (pa2page (amap (kvm k) d' (vpn va)) * 4096 + j) = pmem (kvm k) (pa2page (amap (kvm k) d' (vpn va)) * 4096 + j)"
      if "amap (kvm k) d' (vpn va) \<noteq> 0" "spare v ?D (pa2page (amap (kvm k) d' (vpn va)))"
      using mapped_spare(4) [OF ms_invD(1) [OF k(2)] \<open>d' \<in> ?D\<close> vpn_user [OF \<open>va < UTOP\<close>] that(1)] r(3,5) that(2) by auto
  qed
  have "USTACKTOP - PGSIZE \<le> ?esp" "?esp < USTACKTOP" "?esp mod 4 = 0"
    by (rule stack_pointer [OF u8], use vb o(1,2) in \<open>simp, presburger\<close>)+
  moreover have "uload ?esp 4 ?kc = Some (le32 (of_nat ?n))" "uload (?esp + 4) 4 ?kc = Some (le32 (?esp + 8))"
    "uload (?esp + 8 + 4 * of_nat ?n) 4 ?kc = Some (le32 0)"
    using ld [OF u8, of 4] ld [OF esp(2), of 4] ld [OF vec [of ?n], of 4] g(1-3) vb o(1) esp(1) by (simp_all del: uload.simps)
  moreover have "\<exists>s. uload (?esp + 8 + 4 * of_nat i) 4 ?kc = Some (le32 s) \<and> uload s (Suc (length (argv ! i))) ?kc = Some (argv ! i @ [0])" if "i < ?n" for i
    using ld [OF vec [of i], of 4] g(4) str [OF that] that vb by (auto simp del: uload.simps)
  ultimately show ?thesis using r(1,2) k(1) keep by (intro exI [of _ ?k] exI [of _ ?esp] exI [of _ xs']) (simp add: UTN_def STN_def del: uload.simps)
qed

text \<open>The child of \<open>kern_fork\<close> gets the arguments \<open>ls\<close> and \<open>/\<close>.\<close>

theorem init_stack_args_witness:
  "\<exists>k' esp s. init_stack 0x1001 [[108, 115], [47]] kern_fork = Done (0, Some esp) k' \<and> uload esp 4 (k'\<lparr>cr3 := 4 * 4096\<rparr>) = Some (le32 2)
     \<and> uload (esp + 8) 4 (k'\<lparr>cr3 := 4 * 4096\<rparr>) = Some (le32 s) \<and> uload s 3 (k'\<lparr>cr3 := 4 * 4096\<rparr>) = Some [108, 115, 0]"
proof -
  have f: "curenv kern_fork = Some 0" "cr3 kern_fork = 1 * 4096" "3 \<le> length [7, 8, 10, 11, 12, 13, 14, 15 :: nat]"
    by (simp_all add: kern_fork_def kern_as_def kern_two_def)
  have e: "envid2env 0x1001 True kern_fork = Some (0, Some 1)" "env_pgdir (envs kern_fork 1) = Some (4 * 4096)" "(4 :: nat) \<noteq> 1"
    by (simp_all add: kern_fork_def kern_as_def kern_two_def zero_env_def envid2env_def ENVX_def)
  let ?as = "[[108, 115], [47]] :: u8 list list"
  have a: "args_fit ?as" by (simp add: args_fit_def string_size_def)
  from init_stack_args [OF kern_fork_ok(1,3) f e a] obtain k' esp where
    r: "init_stack 0x1001 ?as kern_fork = Done (0, Some esp) k'" "uload esp 4 (k'\<lparr>cr3 := 4 * 4096\<rparr>) = Some (le32 (of_nat (length ?as)))"
    "\<forall>i<length ?as. \<exists>s. uload (esp + 8 + 4 * of_nat i) 4 (k'\<lparr>cr3 := 4 * 4096\<rparr>) = Some (le32 s)
       \<and> uload s (Suc (length (?as ! i))) (k'\<lparr>cr3 := 4 * 4096\<rparr>) = Some (?as ! i @ [0])" by blast
  from r(3) [rule_format, of 0] obtain s where
    "uload (esp + 8) 4 (k'\<lparr>cr3 := 4 * 4096\<rparr>) = Some (le32 s)" "uload s 3 (k'\<lparr>cr3 := 4 * 4096\<rparr>) = Some [108, 115, 0]"
    by (auto simp del: uload.simps simp: numeral_3_eq_3)
  with r(1,2) show ?thesis by (intro exI [of _ k'] exI [of _ esp] exI [of _ s]) (simp del: uload.simps)
qed

end
