(* ===== verification/SegProps.thy ===== *)
theory SegProps
  imports SpawnProps
begin

text \<open>
  Loading a segment: \<open>map_segment\<close> reads the program file page by page into a temporary page and maps it into the
  child, so that the child sees the bytes of the file at the addresses of the segment, and zeros behind them.
\<close>

section \<open>Reading the file\<close>

text \<open>Descriptor \<open>i\<close> is an open, readable file with inode \<open>ino\<close> in the memory \<open>m\<close> of the file system.\<close>

definition reads :: "uenv \<Rightarrow> nat \<Rightarrow> nat \<Rightarrow> nat \<Rightarrow> nat \<Rightarrow> bytemem \<Rightarrow> bool" where
  "reads u i k f ino m \<longleftrightarrow>
     fd_open u i k f \<and> fd_omode (fd_of u k) AND O_ACCMODE \<noteq> O_WRONLY \<and> sees (sfs (server u)) m \<and> m_file m f ino"

lemma reads_seek:
  assumes "reads u i k f ino m"
  shows "\<exists>u'. seek (int i) off u = (0, u') \<and> reads u' i k f ino m \<and> fd_offset (fd_of u' k) = off"
proof -
  have o: "fd_open u i k f" using assms by (simp add: reads_def)
  let ?u = "u\<lparr>server := set_fd (o_fd (opentab (server u) k)) (\<lambda>d. d\<lparr>fd_offset := off\<rparr>) (server u)\<rparr>"
  have "fd_open ?u i k f" using o by (simp add: fd_open_def Let_def)
  then show ?thesis using fd_open_seek [OF o, of off] assms by (intro exI [of _ ?u]) (simp add: reads_def fd_of_def)
qed

lemma reads_read:
  assumes r: "reads u i k f ino m" and off: "off = unat (fd_offset (fd_of u k))"
    and n: "0 < n" "n \<le> PAGE" "off + n \<le> unat (m_size m ino)" "off + n \<le> MAXSIZE" "has_range m ino off (off + n)"
  shows "\<exists>u'. read_fd (int i) (of_nat n) u = Some ((int n, m_read m ino off n), u') \<and> reads u' i k f ino m"
proof -
  have o: "fd_open u i k f" "fd_omode (fd_of u k) AND O_ACCMODE \<noteq> O_WRONLY" "sees (sfs (server u)) m" "m_file m f ino"
    using r by (simp_all add: reads_def)
  let ?va = "o_fd (opentab (server u) k)" and ?n = "of_nat n :: u32"
  let ?pg = "set32 4 ?n (set32 0 (fd_file_id (fd_of u k)) (fsipcbuf u))"
  let ?u = "u\<lparr>fsipcbuf := ?pg\<rparr>"
  have ou: "fd_open ?u i k f" "fd_of ?u k = fd_of u k" using o(1) by (simp_all add: fd_open_def fd_of_def)
  have pg: "get32 ?pg 0 = o_fileid (opentab (server u) k)" "get32 ?pg 4 = ?n"
    using o(1) by (simp_all add: mem_simps fd_open_def fd_of_def Let_def)
  have un: "unat ?n = n" using n(2) by (simp add: PAGE_def unat_of_nat)
  have mn: "n = min (unat ?n) (unat (m_size m ino) - unat (fd_offset (fd_of u k)))" using un n(3) off by simp
  have "unat (fd_offset (fd_of u k)) < unat (m_size m ino)" using n(1,3) off by simp
  from file_read_run [OF o(3,4) this mn n(4,5) [unfolded off], of ?pg] obtain t where
    t: "file_read f ?pg ?n (fd_offset (fd_of u k)) (sfs (server u)) = Some ((int n, set_bytes 0 (m_read m ino off n) ?pg), t)" "sees t m"
    unfolding off by (rule runsE)
  let ?b = "set_bytes 0 (m_read m ino off n) ?pg"
  let ?u' = "?u\<lparr>fsipcbuf := ?b, server := set_fd ?va (\<lambda>d. d\<lparr>fd_offset := fd_offset d + word_of_int (int n)\<rparr>) ((server u)\<lparr>sfs := t\<rparr>)\<rparr>"
  have "fsipc FSREQ_READ None ?u = Some (int n, ?u')"
    using fsipc_read [OF _ ou(1), of "int n" ?b t] pg t(1) ou(2) n(2) by simp
  moreover have "get_bytes ?b 0 n = m_read m ino off n"
    using get_bytes_set_bytes_same [of 0 "m_read m ino off n" ?pg] by (simp add: m_read_def)
  ultimately have "read_fd (int i) ?n u = Some ((int n, m_read m ino off n), ?u')"
    using o(2) fd_open_with [OF o(1)] fd_open_the_fd [OF o(1)] by (simp add: read_fd_def devfile_read_def Let_def)
  moreover have "fd_open ?u' i k f" using o(1) by (simp add: fd_open_def Let_def)
  ultimately show ?thesis using o(2,4) t(2) by (intro exI [of _ ?u']) (simp add: reads_def fd_of_def)
qed

lemma reads_readn:
  assumes r: "reads u i k f ino m" and off: "off = unat (fd_offset (fd_of u k))"
    and n: "0 < n" "n \<le> PAGE" "off + n \<le> unat (m_size m ino)" "off + n \<le> MAXSIZE" "has_range m ino off (off + n)"
  shows "\<exists>u'. readn (int i) n u = Some ((int n, m_read m ino off n), u') \<and> reads u' i k f ino m"
proof -
  from reads_read [OF assms] obtain u' where
    u': "read_fd (int i) (of_nat n) u = Some ((int n, m_read m ino off n), u')" "reads u' i k f ino m" by blast
  have l: "length (m_read m ino off n) = n" by (simp add: m_read_def)
  have "readn_loop (int i) n (m_read m ino off n) u' = Some ((int n, m_read m ino off n), u')"
    by (subst readn_loop.simps) (simp add: l)
  then have "readn (int i) n u = Some ((int n, m_read m ino off n), u')"
    unfolding readn_def using u'(1) n(1) by (subst readn_loop.simps) simp
  then show ?thesis using u'(2) by blast
qed

section \<open>One page\<close>

text \<open>
  The state of the loop: pages \<open>n0\<close> to \<open>n0 + j\<close> of the child show the bytes \<open>seg\<close>, nothing else has changed,
  and three pages are left for every page to come.
\<close>

definition seg_inv :: "vm \<Rightarrow> nat set \<Rightarrow> nat \<Rightarrow> nat \<Rightarrow> nat \<Rightarrow> (nat \<Rightarrow> u8) \<Rightarrow> nat \<Rightarrow> nat \<Rightarrow> vm \<Rightarrow> bool" where
  "seg_inv s D d dc n0 seg r j v \<longleftrightarrow>
     (\<exists>xs. ms_inv v D xs \<and> r \<le> length xs + 3 * j)
     \<and> (\<forall>d'\<in>D. \<forall>n<UPG. (d', n) \<noteq> (d, UTN) \<and> \<not> (d' = dc \<and> n0 \<le> n \<and> n < n0 + j) \<longrightarrow> amap v d' n = amap s d' n
          \<and> (amap s d' n \<noteq> 0 \<longrightarrow> (\<forall>t<4096. pmem v (pa2page (amap s d' n) * 4096 + t) = pmem s (pa2page (amap s d' n) * 4096 + t))))
     \<and> (\<forall>i<j. shown (amap v dc (n0 + i)) \<and> (\<forall>t<4096. pmem v (pa2page (amap v dc (n0 + i)) * 4096 + t) = seg (4096 * i + t)))"

text \<open>A step that maps a page \<open>p\<close> that was free, with the bytes of the segment, at the next place.\<close>

lemma seg_step:
  assumes I: "seg_inv s D d dc n0 seg r j v" and ms: "ms_inv v D xs" "r \<le> length xs + 3 * j" "ms_inv v' D xs'" "length xs \<le> length xs' + 3"
    and d: "dc \<in> D" "n0 + j < UPG" and perm: "perm_ok perm"
    and p: "maps v D p = {}" "maps v' D p = {(dc, n0 + j)}" "\<forall>t<4096. pmem v' (p * 4096 + t) = seg (4096 * j + t)"
    and keep: "\<forall>q. spare v' D q \<and> q \<noteq> p \<longrightarrow> spare v D q \<and> (\<forall>t<4096. pmem v' (q * 4096 + t) = pmem v (q * 4096 + t))"
    and am: "\<forall>d'\<in>D. \<forall>n<UPG. (d', n) \<noteq> (d, UTN) \<longrightarrow> amap v' d' n = (if d' = dc \<and> n = n0 + j then page2pa p OR perm OR PTE_P else amap v d' n)"
    and ne: "dc \<noteq> d"
  shows "seg_inv s D d dc n0 seg r (Suc j) v'"
proof -
  have "spare v' D p" using as_invD(9) [OF ms_invD(1) [OF ms(3)], of p] p(2) by simp
  then have pb: "p < 1048576" "p \<noteq> 0" using as_invD(1) [OF ms_invD(1) [OF ms(3)]] by (auto simp: spare_def)
  note e = new_entry [OF pb perm_okD [OF perm]]
  have sh: "shown (page2pa p OR perm OR PTE_P)"
  proof -
    have u: "perm AND 4 \<noteq> 0" using perm by (simp add: perm_ok_def PTE_U_def)
    have "(page2pa p OR perm OR PTE_P) AND 4 = (perm OR PTE_P) AND 4" "(page2pa p OR perm OR PTE_P) AND 1 = (perm OR PTE_P) AND 1"
      by (simp_all add: page_low_and)
    moreover have "(perm OR PTE_P) AND 4 = perm AND 4" "(perm OR PTE_P) AND 1 = 1"
      by (rule bit_word_eqI, auto simp: bit_simps PTE_P_def)+
    ultimately show ?thesis using u by (simp add: shown_def PTE_P_def PTE_U_def)
  qed
  have new: "amap v' dc (n0 + j) = page2pa p OR perm OR PTE_P" using am d ne by auto
  have old: "amap v' dc (n0 + i) = amap v dc (n0 + i)" if "i < j" for i using am d ne that by auto
  have pg: "shown (amap v' dc (n0 + i)) \<and> (\<forall>t<4096. pmem v' (pa2page (amap v' dc (n0 + i)) * 4096 + t) = seg (4096 * i + t))" if "i < Suc j" for i
  proof (cases "i = j")
    case True
    then show ?thesis using new sh e(1) p(3) by simp
  next
    case False
    then have i: "i < j" using that by simp
    let ?q = "pa2page (amap v dc (n0 + i))"
    have I': "shown (amap v dc (n0 + i))" "\<forall>t<4096. pmem v (?q * 4096 + t) = seg (4096 * i + t)" using I i by (auto simp: seg_inv_def)
    have n: "n0 + i < UPG" using d(2) i by simp
    have "?q \<noteq> p" using mapped_spare(4) [OF ms_invD(1) [OF ms(1)] d(1) n shown_nz [OF I'(1)]] p(1) by auto
    moreover have "spare v' D ?q" using mapped_spare(1) [OF ms_invD(1) [OF ms(3)] d(1) n] shown_nz [OF I'(1)] old [OF i] by simp
    ultimately show ?thesis using keep I' old [OF i] by simp
  qed
  have "amap v' d' n = amap s d' n \<and> (amap s d' n \<noteq> 0 \<longrightarrow>
      (\<forall>t<4096. pmem v' (pa2page (amap s d' n) * 4096 + t) = pmem s (pa2page (amap s d' n) * 4096 + t)))"
    if "d' \<in> D" "n < UPG" "(d', n) \<noteq> (d, UTN)" "\<not> (d' = dc \<and> n0 \<le> n \<and> n < n0 + Suc j)" for d' n
  proof -
    have v: "amap v' d' n = amap v d' n" using am that by auto
    have s: "amap v d' n = amap s d' n" "amap s d' n \<noteq> 0 \<Longrightarrow>
        \<forall>t<4096. pmem v (pa2page (amap s d' n) * 4096 + t) = pmem s (pa2page (amap s d' n) * 4096 + t)"
      using I that by (auto simp: seg_inv_def)
    have "\<forall>t<4096. pmem v' (pa2page (amap s d' n) * 4096 + t) = pmem s (pa2page (amap s d' n) * 4096 + t)" if nz: "amap s d' n \<noteq> 0"
    proof -
      have "pa2page (amap s d' n) \<noteq> p" using mapped_spare(4) [OF ms_invD(1) [OF ms(1)] \<open>d' \<in> D\<close> \<open>n < UPG\<close>] nz s(1) p(1) by auto
      moreover have "spare v' D (pa2page (amap s d' n))" using mapped_spare(1) [OF ms_invD(1) [OF ms(3)] \<open>d' \<in> D\<close> \<open>n < UPG\<close>] nz s(1) v by simp
      ultimately show ?thesis using keep s(2) [OF nz] by simp
    qed
    then show ?thesis using v s(1) by simp
  qed
  moreover have "\<exists>xs. ms_inv v' D xs \<and> r \<le> length xs + 3 * Suc j" using ms by (intro exI [of _ xs']) simp
  ultimately show ?thesis unfolding seg_inv_def using pg by blast
qed

text \<open>The page of the segment at offset \<open>4096 * j\<close>.\<close>

definition seg_bytes :: "bytemem \<Rightarrow> nat \<Rightarrow> nat \<Rightarrow> nat \<Rightarrow> nat \<Rightarrow> u8" where
  "seg_bytes m ino fo fsz x = (if x < fsz then m_byte m ino (fo + x) else 0)"

lemma page_of_va:
  assumes "unat va = n0 * 4096" "n0 + j < UPG"
  shows "unat (va + of_nat (4096 * j) :: u32) = (n0 + j) * 4096 + 0" "va_ok (va + of_nat (4096 * j))" "vpn (va + of_nat (4096 * j)) = n0 + j"
proof -
  have b: "n0 + j < 1048576" using assms(2) by (simp add: UPG_def UPD_def)
  then have "unat (of_nat (4096 * j) :: u32) = 4096 * j" unfolding unat_of_nat by (intro mod_less) simp
  moreover have "(n0 * 4096 + 4096 * j) mod 4294967296 = n0 * 4096 + 4096 * j" using b by (intro mod_less) simp
  ultimately show u: "unat (va + of_nat (4096 * j) :: u32) = (n0 + j) * 4096 + 0"
    unfolding unat_word_ariths assms(1) by (simp add: distrib_right)
  have "(n0 + j) * 4096 < unat UTOP" using assms(2) by (simp add: mmu_consts UPG_def UPD_def)
  then have "va + of_nat (4096 * j) < UTOP" unfolding word_less_nat_alt u by simp
  moreover have "(va + of_nat (4096 * j)) mod PGSIZE = 0"
  proof -
    have "unat ((va + of_nat (4096 * j)) mod PGSIZE) = 0" unfolding unat_mod u by (simp add: PGSIZE_def)
    then show ?thesis by (intro unat_eqI) simp
  qed
  ultimately show "va_ok (va + of_nat (4096 * j))" by (simp add: va_ok_def)
  show "vpn (va + of_nat (4096 * j)) = n0 + j" unfolding vpn_def u by simp
qed

lemma blank_page:
  assumes k: "kinv k" "curenv k = Some c" "cr3 k = d * 4096"
    and child: "envid2env child True k = Some (0, Some e)" "env_pgdir (envs k e) = Some (dc * 4096)" "dc \<noteq> d"
    and va: "unat va = n0 * 4096" "n0 + j < UPG" and perm: "perm_ok perm"
    and I: "seg_inv s (kdirs k) d dc n0 seg r j v" "3 * Suc j \<le> r" and z: "\<forall>t<4096. seg (4096 * j + t) = 0"
  shows "\<exists>v'. sys_page_alloc_u child (va + of_nat (4096 * j)) perm (put_vm v k) = Done 0 (put_vm v' k) \<and> seg_inv s (kdirs k) d dc n0 seg r (Suc j) v'"
proof -
  let ?D = "kdirs k" and ?k = "put_vm v k"
  obtain xs where xs: "ms_inv v ?D xs" "r \<le> length xs + 3 * j" using I(1) by (auto simp: seg_inv_def)
  obtain p q ys where pq: "xs = p # q # ys" using xs(2) I(2) by (cases xs; cases "tl xs") auto
  note pv = page_of_va [OF va] and dck = kdirsI [OF envid2env_live(2) [OF k(1) child(1)] child(2)]
  have kk: "kinv ?k" "kmem ?k (p # q # ys)" "envid2env child True ?k = Some (0, Some e)" "env_pgdir (envs ?k e) = Some (dc * 4096)"
    using k child xs(1) pq by simp_all
  have pf: "maps v ?D p = {}" "p < 1048576" "p \<noteq> 0"
    using as_invD(7) [OF ms_invD(1) [OF xs(1)], of p] as_invD(1) [OF ms_invD(1) [OF xs(1)]] pq by (auto simp: spare_def)
  note en = new_entry [OF pf(2,3) perm_okD [OF perm]]
  from sys_page_alloc_ms [OF kk pv(2) perm] obtain v' zs where
    v': "sys_page_alloc child (va + of_nat (4096 * j)) perm ?k = Ret 0 (put_vm v' k)" "ms_inv v' ?D zs" "length (q # ys) \<le> Suc (length zs)"
      "\<forall>d'\<in>?D. \<forall>n<UPG. amap v' d' n = (if d' = dc \<and> n = n0 + j then page2pa p OR perm OR PTE_P else amap v d' n)"
      "\<forall>t<4096. pmem v' (p * 4096 + t) = 0"
      "\<forall>q. spare v' ?D q \<and> q \<noteq> p \<longrightarrow> spare v ?D q \<and> (\<forall>t<4096. pmem v' (q * 4096 + t) = pmem v (q * 4096 + t))"
    unfolding as_put_vm kdirs_put_vm ms_vm put_vm_simps put_vm_fields pv(3) by blast
  have "maps v' ?D p = {(dc, n0 + j)}" using maps_upd [of dc ?D "n0 + j" v' _ v p, OF dck va(2)] v'(4) en pf(1) by simp
  moreover have "length xs \<le> length zs + 3" using v'(3) pq by simp
  moreover have "\<forall>t<4096. pmem v' (p * 4096 + t) = seg (4096 * j + t)" using v'(5) z by simp
  moreover have "\<forall>d'\<in>?D. \<forall>n<UPG. (d', n) \<noteq> (d, UTN) \<longrightarrow> amap v' d' n = (if d' = dc \<and> n = n0 + j then page2pa p OR perm OR PTE_P else amap v d' n)"
    using v'(4) by blast
  ultimately have "seg_inv s ?D d dc n0 seg r (Suc j) v'"
    using seg_step [OF I(1) xs v'(2) _ dck va(2) perm pf(1) _ _ v'(6) _ child(3)] by blast
  then show ?thesis using stub_page_alloc [OF v'(1)] by blast
qed

lemma file_page:
  assumes k: "kinv k" "curenv k = Some c" "cr3 k = d * 4096"
    and child: "envid2env child True k = Some (0, Some e)" "env_pgdir (envs k e) = Some (dc * 4096)" "dc \<noteq> d"
    and va: "unat va = n0 * 4096" "n0 + j < UPG" and perm: "perm_ok perm"
    and I: "seg_inv s (kdirs k) d dc n0 seg r j v" "3 * Suc j \<le> r"
    and bs: "length bs \<le> 4096" "\<forall>t<4096. seg (4096 * j + t) = (if t < length bs then bs ! t else 0)"
  shows "\<exists>v1 w v2 v'. sys_page_alloc_u 0 UTEMP (PTE_P OR PTE_U OR PTE_W) (put_vm v k) = Done 0 (put_vm v1 k)
     \<and> ustore_u UTEMP bs (put_vm v1 k) = Done () (put_vm w k)
     \<and> sys_page_map_u 0 UTEMP child (va + of_nat (4096 * j)) perm (put_vm w k) = Done 0 (put_vm v2 k)
     \<and> sys_page_unmap_u 0 UTEMP (put_vm v2 k) = Done 0 (put_vm v' k) \<and> seg_inv s (kdirs k) d dc n0 seg r (Suc j) v'"
proof -
  let ?D = "kdirs k" and ?k = "put_vm v k"
  obtain xs where xs: "ms_inv v ?D xs" "r \<le> length xs + 3 * j" using I(1) by (auto simp: seg_inv_def)
  obtain p q q' ys where pq: "xs = p # q # q' # ys" using xs(2) I(2) by (cases xs; cases "tl xs"; cases "tl (tl xs)") auto
  note pv = page_of_va [OF va] and dck = kdirsI [OF envid2env_live(2) [OF k(1) child(1)] child(2)]
  have kk: "kinv ?k" "kmem ?k (p # q # q' # ys)" "curenv ?k = Some c" "cr3 ?k = d * 4096" using k xs(1) pq by simp_all
  from temp_page [OF kk UTN_props(2)] obtain v1 zs where
    v1: "sys_page_alloc_u 0 UTEMP (PTE_P OR PTE_U OR PTE_W) ?k = Done 0 (put_vm v1 k)" "ms_inv v1 ?D zs" "length (q # q' # ys) \<le> Suc (length zs)"
      "maps v1 ?D p = {(d, vpn UTEMP)}" "maps v ?D p = {}" "trans_ok (pmem v1) d UTN p True" "\<forall>t<4096. pmem v1 (p * 4096 + t) = 0"
      "\<forall>d'\<in>?D. \<forall>n<UPG. amap v1 d' n = (if d' = d \<and> n = UTN then page2pa p OR (PTE_P OR PTE_U OR PTE_W) OR PTE_P else amap v d' n)"
      "\<forall>q. spare v1 ?D q \<and> q \<noteq> p \<longrightarrow> spare v ?D q \<and> (\<forall>t<4096. pmem v1 (q * 4096 + t) = pmem v (q * 4096 + t))"
    unfolding UTN_def as_put_vm kdirs_put_vm ms_vm put_vm_simps put_vm_fields by blast
  let ?m = "set_bytes (p * 4096 + 0) bs (pmem v1)" and ?w = "v1\<lparr>pmem := set_bytes (p * 4096 + 0) bs (pmem v1)\<rparr>"
  have st: "ustore_u UTEMP bs (put_vm v1 k) = Done () (put_vm ?w k)"
    using ustore_u_page [OF UTN_props(1), of "put_vm v1 k" d p UTEMP 0 bs] v1(6) UTN_props(3) k(3) bs(1) by (simp add: put_mem_vm)
  have m: "?m x = pmem v1 x" if "x div 4096 \<noteq> p" for x using that bs(1) by (intro set_bytes_outside) auto
  have ne: "(dc, n0 + j) \<noteq> (d, vpn UTEMP)" "zs \<noteq> []" using child(3) v1(3) by auto
  from give_page [OF k(1) v1(2) k(2,3) UTN_props(2) v1(4) m child(1,2) pv(2,3) ne(1) perm disjI2 [OF ne(2)]]
  obtain v2 v' xs' where
    g: "sys_page_map_u 0 UTEMP child (va + of_nat (4096 * j)) perm (put_vm ?w k) = Done 0 (put_vm v2 k)"
      "sys_page_unmap_u 0 UTEMP (put_vm v2 k) = Done 0 (put_vm v' k)" "ms_inv v' ?D xs'" "maps v' ?D p = {(dc, n0 + j)}" "length zs \<le> Suc (length xs')"
      "\<forall>t<4096. pmem v' (p * 4096 + t) = ?m (p * 4096 + t)"
      "\<forall>q. spare v' ?D q \<and> q \<noteq> p \<longrightarrow> spare v1 ?D q \<and> (\<forall>t<4096. pmem v' (q * 4096 + t) = pmem v1 (q * 4096 + t))"
      "\<forall>d'\<in>?D. \<forall>n<UPG. amap v' d' n = (if d' = d \<and> n = UTN then 0 else if d' = dc \<and> n = n0 + j then page2pa p OR perm OR PTE_P else amap v1 d' n)"
    unfolding UTN_def by blast
  have pg: "\<forall>t<4096. pmem v' (p * 4096 + t) = seg (4096 * j + t)" using g(6) bs v1(7) by (simp add: set_bytes_apply)
  have kp: "\<forall>q. spare v' ?D q \<and> q \<noteq> p \<longrightarrow> spare v ?D q \<and> (\<forall>t<4096. pmem v' (q * 4096 + t) = pmem v (q * 4096 + t))"
    using g(7) v1(9) by simp
  have am: "\<forall>d'\<in>?D. \<forall>n<UPG. (d', n) \<noteq> (d, UTN) \<longrightarrow> amap v' d' n = (if d' = dc \<and> n = n0 + j then page2pa p OR perm OR PTE_P else amap v d' n)"
    using g(8) v1(8) by auto
  have "length xs \<le> length xs' + 3" using v1(3) g(5) pq by simp
  from seg_step [OF I(1) xs g(3) this dck va(2) perm v1(5) g(4) pg kp am child(3)] show ?thesis using v1(1) st g(1,2) by blast
qed

lemma map_page_run:
  assumes k: "kinv k" "curenv k = Some c" "cr3 k = d * 4096"
    and child: "envid2env child True k = Some (0, Some e)" "env_pgdir (envs k e) = Some (dc * 4096)" "dc \<noteq> d"
    and va: "unat va = n0 * 4096" "n0 + j < UPG" and perm: "perm_ok perm"
    and F: "reads u i kk f ino m" "unat fo + unat fsz \<le> unat (m_size m ino)" "unat fo + unat fsz \<le> MAXSIZE"
      "has_range m ino (unat fo) (unat fo + unat fsz)"
    and I: "seg_inv s (kdirs k) d dc n0 (seg_bytes m ino (unat fo) (unat fsz)) r j v" "3 * Suc j \<le> r"
  shows "\<exists>v' u'. map_page child va (int i) fsz fo perm (of_nat (4096 * j)) u (put_vm v k) = Done (0, u') (put_vm v' k)
     \<and> reads u' i kk f ino m \<and> seg_inv s (kdirs k) d dc n0 (seg_bytes m ino (unat fo) (unat fsz)) r (Suc j) v'"
proof -
  let ?i = "of_nat (4096 * j) :: u32" and ?seg = "seg_bytes m ino (unat fo) (unat fsz)"
  have "4096 * j < 4294967296" using va(2) by (simp add: UPG_def UPD_def)
  then have ui: "unat ?i = 4096 * j" by (simp only: unat_of_nat) (simp add: mod_less)
  show ?thesis
  proof (cases "fsz \<le> ?i")
    case True
    then have "unat fsz \<le> 4096 * j" unfolding word_le_nat_alt ui .
    then have "\<forall>t<4096. ?seg (4096 * j + t) = 0" by (simp add: seg_bytes_def)
    from blank_page [OF k child va perm I this] obtain v' where
      "sys_page_alloc_u child (va + ?i) perm (put_vm v k) = Done 0 (put_vm v' k)" "seg_inv s (kdirs k) d dc n0 ?seg r (Suc j) v'" by blast
    then show ?thesis using True F(1) by (intro exI [of _ v'] exI [of _ u]) (simp add: map_page_def)
  next
    case False
    then have lt: "4096 * j < unat fsz" "?i \<le> fsz" unfolding word_le_nat_alt ui by simp_all
    let ?n = "unat (if PGSIZE < fsz - ?i then PGSIZE else fsz - ?i)"
    have n: "?n = min 4096 (unat fsz - 4096 * j)"
      unfolding if_distrib [of unat] word_less_nat_alt unat_sub [OF lt(2)] ui by (simp add: PGSIZE_def min_def)
    obtain u1 where u1: "seek (int i) (fo + ?i) u = (0, u1)" "reads u1 i kk f ino m" "fd_offset (fd_of u1 kk) = fo + ?i"
      using reads_seek [OF F(1)] by blast
    have off: "unat (fo + ?i) = unat fo + 4096 * j" 
      unfolding unat_word_ariths ui using F(3) lt(1) by (simp add: MAXSIZE_eq)
    have "has_range m ino (unat fo + 4096 * j) (unat fo + 4096 * j + ?n)" using F(4) lt(1) unfolding n has_range_def by auto
    moreover have "0 < ?n" "?n \<le> PAGE" "unat fo + 4096 * j + ?n \<le> unat (m_size m ino)" "unat fo + 4096 * j + ?n \<le> MAXSIZE"
      unfolding n using F(2,3) lt(1) by (auto simp: PAGE_def min_def)
    ultimately obtain u2 where
      u2: "readn (int i) ?n u1 = Some ((int ?n, m_read m ino (unat fo + 4096 * j) ?n), u2)" "reads u2 i kk f ino m"
      using reads_readn [OF u1(2) off [folded u1(3), symmetric]] by blast
    let ?bs = "m_read m ino (unat fo + 4096 * j) ?n"
    have l: "length ?bs = ?n" by (simp add: m_read_def)
    have "\<forall>t<4096. ?seg (4096 * j + t) = (if t < length ?bs then ?bs ! t else 0)"
      unfolding l n seg_bytes_def using lt(1) by (auto simp: m_read_def add.assoc)
    moreover have "length ?bs \<le> 4096" unfolding l n by simp
    ultimately obtain v1 w v2 v' where
      f: "sys_page_alloc_u 0 UTEMP (PTE_P OR PTE_U OR PTE_W) (put_vm v k) = Done 0 (put_vm v1 k)"
        "ustore_u UTEMP ?bs (put_vm v1 k) = Done () (put_vm w k)"
        "sys_page_map_u 0 UTEMP child (va + ?i) perm (put_vm w k) = Done 0 (put_vm v2 k)"
        "sys_page_unmap_u 0 UTEMP (put_vm v2 k) = Done 0 (put_vm v' k)" "seg_inv s (kdirs k) d dc n0 ?seg r (Suc j) v'"
      using file_page [OF k child va perm I, of ?bs] by blast
    have "map_page child va (int i) fsz fo perm ?i u (put_vm v k) = Done (0, u2) (put_vm v' k)"
      unfolding map_page_def using False f(1-4) u1(1) u2(1) by (simp add: with_file_def)
    then show ?thesis using u2(2) f(5) by blast
  qed
qed

section \<open>The loop\<close>

lemma put_vm_self [simp]: "put_vm (kvm k) k = k"
  by (simp add: put_vm_def)

lemma map_loop_run:
  assumes k: "kinv k" "curenv k = Some c" "cr3 k = d * 4096"
    and child: "envid2env child True k = Some (0, Some e)" "env_pgdir (envs k e) = Some (dc * 4096)" "dc \<noteq> d"
    and perm: "perm_ok perm" and F: "unat fo + unat fsz \<le> unat (m_size m ino)" "unat fo + unat fsz \<le> MAXSIZE"
      "has_range m ino (unat fo) (unat fo + unat fsz)"
    and va: "unat va = n0 * 4096" "n0 + (unat msz + 4095) div 4096 \<le> UPG" and r: "3 * ((unat msz + 4095) div 4096) \<le> r"
  shows "N = (unat msz + 4095) div 4096 - j \<Longrightarrow> j \<le> (unat msz + 4095) div 4096 \<Longrightarrow> reads u i kk f ino m \<Longrightarrow>
    seg_inv s (kdirs k) d dc n0 (seg_bytes m ino (unat fo) (unat fsz)) r j v \<Longrightarrow>
    \<exists>v' u'. map_loop child va msz (int i) fsz fo perm (of_nat (4096 * j)) u (put_vm v k) = Some (Done (0, u') (put_vm v' k))
     \<and> reads u' i kk f ino m \<and> seg_inv s (kdirs k) d dc n0 (seg_bytes m ino (unat fo) (unat fsz)) r ((unat msz + 4095) div 4096) v'"
proof (induction N arbitrary: j u v)
  case 0
  have b: "(unat msz + 4095) div 4096 < 1048576" using va(2) by (simp add: UPG_def UPD_def)
  have "unat msz \<le> 4096 * j" using 0(1,2) by simp
  then have "\<not> of_nat (4096 * j) < msz" using b 0(2) by (simp add: word_less_nat_alt unat_of_nat del: of_nat_mult)
  moreover have "j = (unat msz + 4095) div 4096" using 0(1,2) by simp
  ultimately show ?case using 0(3,4) by (subst map_loop.simps) auto
next
  case (Suc N)
  let ?i = "of_nat (4096 * j) :: u32" and ?P = "(unat msz + 4095) div 4096"
  have j: "j < ?P" using Suc.prems(1) by simp
  have b: "?P < 1048576" using va(2) by (simp add: UPG_def UPD_def)
  have "4096 * j < unat msz" using j by simp
  then have lt: "?i < msz" using b j by (simp add: word_less_nat_alt unat_of_nat del: of_nat_mult)
  have n: "n0 + j < UPG" "3 * Suc j \<le> r"
  proof -
    show "n0 + j < UPG" using va(2) j by simp
    have "3 * Suc j \<le> 3 * ?P" using j by (intro mult_le_mono2) simp
    then show "3 * Suc j \<le> r" using r by (rule le_trans)
  qed
  from map_page_run [OF k child va(1) n(1) perm Suc.prems(3) F Suc.prems(4) n(2)] obtain v1 u1 where
    s: "map_page child va (int i) fsz fo perm ?i u (put_vm v k) = Done (0, u1) (put_vm v1 k)" "reads u1 i kk f ino m"
      "seg_inv s (kdirs k) d dc n0 (seg_bytes m ino (unat fo) (unat fsz)) r (Suc j) v1" by blast
  have nx: "?i + PGSIZE = of_nat (4096 * Suc j)" by (simp add: PGSIZE_def)
  have "map_loop child va msz (int i) fsz fo perm ?i u (put_vm v k) = map_loop child va msz (int i) fsz fo perm (of_nat (4096 * Suc j)) u1 (put_vm v1 k)"
    by (subst map_loop.simps) (simp only: lt s(1) nx if_True uout.case prod.case, simp)
  moreover have "N = ?P - Suc j" "Suc j \<le> ?P" using Suc.prems(1) j by simp_all
  ultimately show ?case using Suc.IH [OF _ _ s(2,3)] by simp
qed

text \<open>What the invariant says of the bytes the environments see.\<close>

lemma seg_inv_bytes:
  assumes inv: "seg_inv v0 (kdirs k) d dc (vpn va) (seg_bytes m ino (unat fo - unat va mod 4096) (unat fsz + unat va mod 4096)) l
      ((unat va mod 4096 + unat msz + 4095) div 4096) v"
    and va: "unat va + unat msz \<le> unat UTOP" "unat va mod 4096 \<le> unat fo" and dc: "dc \<in> kdirs k"
    and km: "kmem (put_vm v k) xs'" and j: "j < unat msz"
  shows "ubyte (put_vm v k) dc (va + of_nat j) = Some (if j < unat fsz then m_byte m ino (unat fo + j) else 0)"
proof -
  let ?o = "unat va mod 4096" and ?n0 = "vpn va"
  let ?i = "(?o + j) div 4096" and ?t = "(?o + j) mod 4096"
  have "j < 4294967296" "unat va + j < 4294967296" using j va(1) by (simp_all add: mmu_consts)
  then have u: "unat (va + of_nat j) = unat va + j" by (simp add: unat_word_ariths unat_of_nat)
  have ut: "va + of_nat j < UTOP" unfolding word_less_nat_alt u using j va(1) by simp
  have e: "unat va + j = (?n0 + ?i) * 4096 + ?t" by (simp add: vpn_def distrib_right add.assoc)
  have vn: "vpn (va + of_nat j) = ?n0 + ?i" "unat (va + of_nat j) mod 4096 = ?t"
    unfolding vpn_def [of "va + of_nat j"] u e by (rule page_parts, simp)+
  have "?i < (?o + unat msz + 4095) div 4096" using j by (simp add: div_add_self2 [symmetric] less_eq_div_iff_mult_less_eq Suc_le_eq [symmetric])
  then have s: "shown (amap v dc (?n0 + ?i))"
    "pmem v (pa2page (amap v dc (?n0 + ?i)) * 4096 + ?t) = seg_bytes m ino (unat fo - ?o) (unat fsz + ?o) (4096 * ?i + ?t)"
    using inv by (auto simp: seg_inv_def)
  have "4096 * ?i + ?t = ?o + j" by simp
  then have "seg_bytes m ino (unat fo - ?o) (unat fsz + ?o) (4096 * ?i + ?t) = (if j < unat fsz then m_byte m ino (unat fo + j) else 0)"
    using va(2) by (simp add: seg_bytes_def)
  then show ?thesis using ubyte_amap [OF km, of dc "va + of_nat j"] ut dc vn s by simp
qed

lemma seg_inv_keep:
  assumes inv: "seg_inv (kvm k) (kdirs k) d dc n0 seg l P v" and km: "kmem k xs" "kmem (put_vm v k) xs'"
    and a: "d' \<in> kdirs k" "a < UTOP" "(d', vpn a) \<noteq> (d, UTN)" "\<not> (d' = dc \<and> n0 \<le> vpn a \<and> vpn a < n0 + P)"
  shows "ubyte (put_vm v k) d' a = ubyte k d' a"
proof (rule ubyte_kept [OF km a(1,2)])
  show "amap v d' (vpn a) = amap (kvm k) d' (vpn a)" using inv a vpn_user [OF a(2)] by (auto simp: seg_inv_def)
  show "\<forall>t<4096. pmem v (pa2page (amap (kvm k) d' (vpn a)) * 4096 + t) = pmem (kvm k) (pa2page (amap (kvm k) d' (vpn a)) * 4096 + t)"
    if "amap (kvm k) d' (vpn a) \<noteq> 0" using that inv a vpn_user [OF a(2)] by (auto simp: seg_inv_def)
qed



end
