(* ===== verification/UStdio.thy ===== *)
theory UStdio
  imports StdioProps ServProps
begin

text \<open>
  Formatted output of user programs (the part of \<open>stdio.c\<close> compiled for them): \<open>cprintf\<close> collects up to 255
  characters before each \<open>sys_cputs\<close>, \<open>printf\<close> and \<open>fprintf\<close> collect 256 before each \<open>write\<close>.  The buffer is
  the list of the characters in it, whose length is \<open>idx\<close>.

  The interface \<open>text_sink\<close> is what \<open>fprintf\<close> needs of a descriptor: that \<open>write\<close> takes a whole buffer.  The
  console and a file provide it, so the text arrives whole and in order on both.
\<close>

section \<open>Definitions\<close>

record printbuf =
  pb_buf :: "u8 list"
  pb_cnt :: int

definition putch_u :: "int \<Rightarrow> printbuf \<times> uenv \<Rightarrow> printbuf \<times> uenv" where
  "putch_u ch = (\<lambda>(b, u).
     (let b = b\<lparr>pb_buf := pb_buf b @ [word_of_int ch]\<rparr>;
          (b, u) = (if length (pb_buf b) = 255 then (b\<lparr>pb_buf := []\<rparr>, cons_put (pb_buf b) u) else (b, u)) in
      (b\<lparr>pb_cnt := pb_cnt b + 1\<rparr>, u)))"

definition vcprintf_u :: "bytemem \<Rightarrow> nat \<Rightarrow> u32 list \<Rightarrow> uenv \<Rightarrow> (int \<times> uenv) option" where
  "vcprintf_u m fmt ap u = do {
     cs \<leftarrow> vprintfmt m fmt ap;
     let (b, u) = fold putch_u cs (\<lparr>pb_buf = [], pb_cnt = 0\<rparr>, u);
     Some (pb_cnt b, cons_put (pb_buf b) u)
   }"

record fprintbuf =
  fp_fd :: int
  fp_buf :: "u8 list"
  fp_result :: int
  fp_error :: int

definition writebuf :: "fprintbuf \<times> uenv \<Rightarrow> (fprintbuf \<times> uenv) option" where
  "writebuf = (\<lambda>(b, u).
     (if 0 < fp_error b then do {
        (result, u) \<leftarrow> write_fd (fp_fd b) (fp_buf b) u;
        let b = (if 0 < result then b\<lparr>fp_result := fp_result b + result\<rparr> else b);
        let b = (if result \<noteq> int (length (fp_buf b)) then b\<lparr>fp_error := if result < 0 then result else 0\<rparr> else b);
        Some (b, u)
      }
      else Some (b, u)))"

definition fputch :: "int \<Rightarrow> fprintbuf \<times> uenv \<Rightarrow> (fprintbuf \<times> uenv) option" where
  "fputch ch = (\<lambda>(b, u).
     (let b = b\<lparr>fp_buf := fp_buf b @ [word_of_int ch]\<rparr> in
      if length (fp_buf b) = 256 then do {
        (b, u) \<leftarrow> writebuf (b, u);
        Some (b\<lparr>fp_buf := []\<rparr>, u)
      }
      else Some (b, u)))"

fun fputs :: "int list \<Rightarrow> fprintbuf \<times> uenv \<Rightarrow> (fprintbuf \<times> uenv) option" where
  "fputs [] bu = Some bu"
| "fputs (c # cs) bu = do { bu \<leftarrow> fputch c bu; fputs cs bu }"

text \<open>The text is formatted from the memory before the call, which \<open>write\<close> leaves alone.\<close>

definition fprint_text :: "int \<Rightarrow> int list \<Rightarrow> uenv \<Rightarrow> (int \<times> uenv) option" where
  "fprint_text fd cs u = do {
     (b, u) \<leftarrow> fputs cs (\<lparr>fp_fd = fd, fp_buf = [], fp_result = 0, fp_error = 1\<rparr>, u);
     (b, u) \<leftarrow> (if 0 < length (fp_buf b) then writebuf (b, u) else Some (b, u));
     Some (if fp_result b \<noteq> 0 then fp_result b else fp_error b, u)
   }"

definition vfprintf :: "int \<Rightarrow> bytemem \<Rightarrow> nat \<Rightarrow> u32 list \<Rightarrow> uenv \<Rightarrow> (int \<times> uenv) option" where
  "vfprintf fd m fmt ap u = do { cs \<leftarrow> vprintfmt m fmt ap; fprint_text fd cs u }"

definition printf :: "bytemem \<Rightarrow> nat \<Rightarrow> u32 list \<Rightarrow> uenv \<Rightarrow> (int \<times> uenv) option" where
  "printf m fmt ap u = vfprintf 1 m fmt ap u"

section \<open>What a descriptor must provide\<close>

locale text_sink =
  fixes fd :: int and ready :: "nat \<Rightarrow> uenv \<Rightarrow> bool" and content :: "uenv \<Rightarrow> u8 list"
  assumes write_whole: "ready n u \<Longrightarrow> bs \<noteq> [] \<Longrightarrow> length bs \<le> 256 \<Longrightarrow> length bs \<le> n \<Longrightarrow> 0 \<notin> set bs \<Longrightarrow>
    \<exists>u'. write_fd fd bs u = Some (int (length bs), u') \<and> ready (n - length bs) u' \<and> content u' = content u @ bs"
begin

lemma writebuf_run:
  assumes "ready n u" "fp_fd b = fd" "fp_error b = 1" "fp_buf b \<noteq> []" "length (fp_buf b) \<le> 256" "length (fp_buf b) \<le> n" "0 \<notin> set (fp_buf b)"
  shows "\<exists>u'. writebuf (b, u) = Some (b\<lparr>fp_result := fp_result b + int (length (fp_buf b))\<rparr>, u') \<and> ready (n - length (fp_buf b)) u'
    \<and> content u' = content u @ fp_buf b"
  using write_whole [OF assms(1,4-7)] assms(2,3,4) by (auto simp: writebuf_def)

lemma fputs_run:
  "ready n u \<Longrightarrow> fp_fd b = fd \<Longrightarrow> fp_error b = 1 \<Longrightarrow> length (fp_buf b) < 256 \<Longrightarrow> length (fp_buf b) + length cs \<le> n \<Longrightarrow>
   0 \<notin> set (fp_buf b) \<Longrightarrow> (0 :: u8) \<notin> word_of_int ` set cs \<Longrightarrow>
   \<exists>b' u' n'. fputs cs (b, u) = Some (b', u') \<and> fp_fd b' = fd \<and> fp_error b' = 1 \<and> length (fp_buf b') < 256 \<and> 0 \<notin> set (fp_buf b')
     \<and> ready n' u' \<and> length (fp_buf b') \<le> n' \<and> (\<exists>cs'. content u' = content u @ cs' \<and> cs' @ fp_buf b' = fp_buf b @ map word_of_int cs
          \<and> fp_result b' = fp_result b + int (length cs'))"
proof (induction cs arbitrary: b u n)
  case Nil
  then show ?case by fastforce
next
  case (Cons c cs)
  let ?b = "b\<lparr>fp_buf := fp_buf b @ [word_of_int c]\<rparr>"
  show ?case
  proof (cases "length (fp_buf b) = 255")
    case False
    then have "fputch c (b, u) = Some (?b, u)" by (simp add: fputch_def)
    moreover obtain b' u' n' cs' where
      "fputs cs (?b, u) = Some (b', u')" "fp_fd b' = fd" "fp_error b' = 1" "length (fp_buf b') < 256" "0 \<notin> set (fp_buf b')"
      "ready n' u'" "length (fp_buf b') \<le> n'" "content u' = content u @ cs'" "cs' @ fp_buf b' = fp_buf b @ word_of_int c # map word_of_int cs"
      "fp_result b' = fp_result b + int (length cs')"
      using Cons.IH [of n u ?b] Cons.prems False by auto
    ultimately show ?thesis by (intro exI [of _ b'] exI [of _ u'] exI [of _ n'] conjI exI [of _ cs']) simp_all
  next
    case True
    obtain u1 where u1: "writebuf (?b, u) = Some (?b\<lparr>fp_result := fp_result b + 256\<rparr>, u1)" "ready (n - 256) u1"
      "content u1 = content u @ fp_buf b @ [word_of_int c]"
      using writebuf_run [of n u ?b] Cons.prems True by auto
    let ?b1 = "?b\<lparr>fp_result := fp_result b + 256, fp_buf := []\<rparr>"
    have "fputch c (b, u) = Some (?b1, u1)" using True u1(1) by (simp add: fputch_def)
    moreover have "length cs \<le> n - 256" using Cons.prems(5) True by simp
    then obtain b' u' n' cs' where
      "fputs cs (?b1, u1) = Some (b', u')" "fp_fd b' = fd" "fp_error b' = 1" "length (fp_buf b') < 256" "0 \<notin> set (fp_buf b')"
      "ready n' u'" "length (fp_buf b') \<le> n'" "content u' = content u1 @ cs'" "cs' @ fp_buf b' = map word_of_int cs"
      "fp_result b' = fp_result b + 256 + int (length cs')"
      using Cons.IH [of "n - 256" u1 ?b1] Cons.prems True u1(2) by auto
    ultimately show ?thesis using u1(3) True
      by (intro exI [of _ b'] exI [of _ u'] exI [of _ n'] conjI exI [of _ "fp_buf b @ [word_of_int c] @ cs'"]) simp_all
  qed
qed

lemma text_arrives:
  assumes "ready (length cs) u" "(0 :: u8) \<notin> word_of_int ` set cs"
  shows "\<exists>u'. fprint_text fd cs u = Some (if cs = [] then 1 else int (length cs), u') \<and> content u' = content u @ map word_of_int cs"
proof -
  let ?b0 = "\<lparr>fp_fd = fd, fp_buf = [], fp_result = 0, fp_error = 1\<rparr>"
  obtain b u1 n cs' where r: "fputs cs (?b0, u) = Some (b, u1)" "fp_fd b = fd" "fp_error b = 1" "length (fp_buf b) < 256" "0 \<notin> set (fp_buf b)"
    "ready n u1" "length (fp_buf b) \<le> n" "content u1 = content u @ cs'" "cs' @ fp_buf b = map word_of_int cs" "fp_result b = int (length cs')"
    using fputs_run [OF assms(1), of ?b0 cs] assms(2) by auto
  have l: "length cs' + length (fp_buf b) = length cs" using arg_cong [OF r(9), of length] by simp
  show ?thesis
  proof (cases "fp_buf b = []")
    case True
    then show ?thesis using r l by (auto simp: fprint_text_def)
  next
    case False
    obtain u2 where "writebuf (b, u1) = Some (b\<lparr>fp_result := fp_result b + int (length (fp_buf b))\<rparr>, u2)" "content u2 = content u1 @ fp_buf b"
      using writebuf_run [OF r(6,2,3) False _ r(7,5)] r(4) by auto
    moreover have "0 < length (fp_buf b)" "cs \<noteq> []" using False l by auto
    moreover from this have "int (length cs') + int (length (fp_buf b)) = int (length cs)" "int (length cs) \<noteq> 0" using l by simp_all
    ultimately show ?thesis using r by (simp add: fprint_text_def)
  qed
qed

end

section \<open>The console\<close>

definition cons_ready :: "int \<Rightarrow> nat \<Rightarrow> uenv \<Rightarrow> bool" where
  "cons_ready fd n u \<longleftrightarrow> (\<exists>va. with_fd fd u = Inr (va, Devcons) \<and> fd_omode (the_fd va u) AND O_ACCMODE \<noteq> O_RDONLY)"

lemma with_fd_cons_out [simp]: "the_fd va (u\<lparr>cons_out := x\<rparr>) = the_fd va u" "with_fd fd (u\<lparr>cons_out := x\<rparr>) = with_fd fd u"
proof -
  show t: "the_fd va (u\<lparr>cons_out := x\<rparr>) = the_fd va u" for va by (simp add: the_fd_def)
  show "with_fd fd (u\<lparr>cons_out := x\<rparr>) = with_fd fd u" by (simp add: with_fd_def fd_lookup_def t cong: option.case_cong)
qed

lemma devcons_write_out: "0 \<notin> set bs \<Longrightarrow> devcons_write_loop bs u = u\<lparr>cons_out := cons_out u @ bs\<rparr>"
proof (induction bs u rule: devcons_write_loop.induct)
  case (1 bs u)
  show ?case
  proof (cases "bs = []")
    case False
    have t: "takeWhile (\<lambda>c. c \<noteq> 0) (take 127 bs) = take 127 bs" using 1(2) by (auto intro: takeWhile_eq_all_conv [THEN iffD2] dest: in_set_takeD)
    have "0 \<notin> set (drop 127 bs)" using 1(2) by (auto dest: in_set_dropD)
    from 1(1) [OF False this] False show ?thesis by (subst devcons_write_loop.simps) (simp add: cons_put_def t)
  qed (simp add: devcons_write_loop.simps)
qed

interpretation console: text_sink fd "cons_ready fd" cons_out for fd
proof unfold_locales
  fix n u and bs :: "u8 list"
  assume r: "cons_ready fd n u" and bs: "0 \<notin> set bs"
  then obtain va where va: "with_fd fd u = Inr (va, Devcons)" "fd_omode (the_fd va u) AND O_ACCMODE \<noteq> O_RDONLY" by (auto simp: cons_ready_def)
  let ?u = "u\<lparr>cons_out := cons_out u @ bs\<rparr>"
  have "write_fd fd bs u = Some (int (length bs), ?u)" using va devcons_write_out [OF bs, of u] by (simp add: write_fd_def devcons_write_def)
  moreover have "cons_ready fd (n - length bs) ?u" using va by (simp add: cons_ready_def)
  ultimately show "\<exists>u'. write_fd fd bs u = Some (int (length bs), u') \<and> cons_ready fd (n - length bs) u' \<and> cons_out u' = cons_out u @ bs" by auto
qed

section \<open>A file\<close>

text \<open>
  The descriptor is open for writing, everything before its offset is allocated, and \<open>n\<close> bytes fit the block at
  the offset, which exists or can be allocated.
\<close>

definition file_ready :: "nat \<Rightarrow> nat \<Rightarrow> nat \<Rightarrow> nat \<Rightarrow> nat \<Rightarrow> uenv \<Rightarrow> bool" where
  "file_ready i k f ino n u \<longleftrightarrow>
     fd_open u i k f \<and> fd_omode (fd_of u k) AND O_ACCMODE \<noteq> O_RDONLY
     \<and> (\<exists>m. sees (sfs (server u)) m \<and> m_file m f ino
          \<and> (let off = unat (fd_offset (fd_of u k)) in
             off + n \<le> MAXSIZE \<and> has_range m ino 0 off
             \<and> (n = 0 \<or> off mod BLKSIZE + n \<le> BLKSIZE \<and> (m_slot m ino (off div BLKSIZE) \<noteq> 0 \<or> m_free m \<noteq> {}))))"

text \<open>The bytes of the file up to the offset.\<close>

definition file_text :: "nat \<Rightarrow> nat \<Rightarrow> uenv \<Rightarrow> u8 list" where
  "file_text k ino u = m_read (vmem (sfs (server u))) ino 0 (unat (fd_offset (fd_of u k)))"

lemma sees_vmem: "sees s m \<Longrightarrow> vmem s = m"
  by (simp add: sees_def)

lemma need_in_block:
  assumes "off mod BLKSIZE + l \<le> BLKSIZE" "0 < l" "m_slot m i (off div BLKSIZE) \<noteq> 0 \<or> m_free m \<noteq> {}" "finite (m_free m)"
  shows "card (need m i off (off + l)) \<le> card (m_free m)"
proof -
  have "k = off div BLKSIZE" if "k \<in> need m i off (off + l)" for k
  proof -
    have "off div BLKSIZE \<le> k" "k * BLKSIZE < off + l" using that by (auto simp: need_def)
    moreover have "off = off div BLKSIZE * BLKSIZE + off mod BLKSIZE" by (rule div_mult_mod_eq [symmetric])
    then have "off + l \<le> Suc (off div BLKSIZE) * BLKSIZE" using assms(1) unfolding mult_Suc by linarith
    ultimately have "k * BLKSIZE < Suc (off div BLKSIZE) * BLKSIZE" by simp
    then have "k < Suc (off div BLKSIZE)" using mult_less_cancel2 [of k BLKSIZE "Suc (off div BLKSIZE)"] by blast
    with \<open>off div BLKSIZE \<le> k\<close> show ?thesis by simp
  qed
  then have "need m i off (off + l) \<subseteq> {off div BLKSIZE}" by blast
  moreover have "off div BLKSIZE \<notin> need m i off (off + l)" if "m_slot m i (off div BLKSIZE) \<noteq> 0" using that by (simp add: need_def)
  ultimately consider "need m i off (off + l) = {}" | "need m i off (off + l) = {off div BLKSIZE}" "m_free m \<noteq> {}" using assms(3) by blast
  then show ?thesis
  proof cases
    case 2
    then have "0 < card (m_free m)" using assms(4) by (simp add: card_gt_0_iff)
    then show ?thesis using 2(1) by simp
  qed simp
qed

lemma block_parts: "x < b \<Longrightarrow> (a * b + x) div b = (a :: nat)" "x < b \<Longrightarrow> (a * b + x) mod b = x"
  by simp_all

lemma file_sink:
  assumes r: "file_ready i k f ino n u" and bs: "bs \<noteq> []" "length bs \<le> 256" "length bs \<le> n"
  shows "\<exists>u'. write_fd (int i) bs u = Some (int (length bs), u') \<and> file_ready i k f ino (n - length bs) u' \<and> file_text k ino u' = file_text k ino u @ bs"
proof -
  define off where "off = unat (fd_offset (fd_of u k))"
  let ?l = "length bs"
  obtain m where o: "fd_open u i k f" "fd_omode (fd_of u k) AND O_ACCMODE \<noteq> O_RDONLY" "sees (sfs (server u)) m" "m_file m f ino"
    "off + n \<le> MAXSIZE" "has_range m ino 0 off" "off mod BLKSIZE + n \<le> BLKSIZE" "m_slot m ino (off div BLKSIZE) \<noteq> 0 \<or> m_free m \<noteq> {}"
    using r bs by (auto simp: file_ready_def off_def [symmetric] Let_def)
  have l: "0 < ?l" using bs(1) by simp
  have un: "unat (of_nat ?l :: u32) = ?l" using bs(2) by (simp add: unat_of_nat)
  have fin: "finite (m_free m)" by (simp add: m_free_def)
  have "off mod BLKSIZE + ?l \<le> BLKSIZE" using o(7) bs(3) by simp
  note nd = need_in_block [OF this l o(8) fin]
  define P where "P = (\<lambda>t. \<exists>m'. sees t m' \<and> m_file m' f ino \<and> m_keeps m m' ino
    \<and> (\<forall>p. off \<le> p \<and> p < off + ?l \<longrightarrow> has_block m' ino p \<and> m_byte m' ino p = bs ! (p - off)) \<and> (\<forall>p<off. m_byte m' ino p = m_byte m ino p))"
  have w: "\<exists>t. file_write f b (of_nat ?l) (fd_offset (fd_of u k)) (sfs (server u)) = Some (int ?l, t) \<and> P t" if b: "get_bytes b 0 ?l = bs" for b
  proof -
    have lim: "unat (fd_offset (fd_of u k)) + unat (of_nat ?l :: u32) \<le> MAXSIZE" using o(5) bs(3) un off_def by simp
    from file_write_run [OF o(3,4) lim, of b] nd obtain m' where
      m': "runs (file_write f b (of_nat ?l) (fd_offset (fd_of u k)) (sfs (server u))) (int ?l) m'"
        "wrote (m_resize ino (of_nat (max (unat (m_size m ino)) (off + ?l))) m) m' f ino off (off + ?l) (\<lambda>p. b (p - off))"
      unfolding un off_def [symmetric] by auto
    note W = wrote_resize [OF o(4) m'(2)]
    obtain t where t: "file_write f b (of_nat ?l) (fd_offset (fd_of u k)) (sfs (server u)) = Some (int ?l, t)" "sees t m'" using m'(1) by (rule runsE)
    have "b (p - off) = bs ! (p - off)" if "off \<le> p" "p < off + ?l" for p using arg_cong [OF b, of "\<lambda>x. x ! (p - off)"] that by simp
    then have "\<forall>p. off \<le> p \<and> p < off + ?l \<longrightarrow> has_block m' ino p \<and> m_byte m' ino p = bs ! (p - off)" using W(4) o(5) bs(3) by auto
    moreover have "\<forall>p<off. m_byte m' ino p = m_byte m ino p" using W(5) o(5,6) by (auto simp: has_range_def)
    ultimately show ?thesis using t W(1,3) by (auto simp: P_def)
  qed
  have pl: "length bs \<le> PAGE - 8" using bs(2) by (simp add: PAGE_def)
  from write_fd_run [where P = P, OF o(1,2) pl w] obtain u' t where
    u': "write_fd (int i) bs u = Some (int ?l, u')" "P t" "fd_open u' i k f"
      "server u' = set_fd (o_fd (opentab (server u) k)) (\<lambda>d. d\<lparr>fd_offset := fd_offset d + of_nat ?l\<rparr>) ((server u)\<lparr>sfs := t\<rparr>)" by blast
  from u'(2) obtain m' where m': "sees t m'" "m_file m' f ino" "m_keeps m m' ino"
    "\<forall>p. off \<le> p \<and> p < off + ?l \<longrightarrow> has_block m' ino p \<and> m_byte m' ino p = bs ! (p - off)" "\<forall>p<off. m_byte m' ino p = m_byte m ino p"
    unfolding P_def by blast
  have s: "sfs (server u') = t" "fd_omode (fd_of u' k) = fd_omode (fd_of u k)" "unat (fd_offset (fd_of u' k)) = off + ?l"
    using u'(4) off_def o(5) bs(3) un by (simp_all add: fd_of_def unat_word_ariths MAXSIZE_eq)
  have hr: "has_range m' ino 0 (off + ?l)"
  proof -
    have "has_block m' ino p" if "p < off + ?l" for p
      using m'(4) m_keeps_has [OF m'(3), of p] o(5,6) that bs(3) by (cases "p < off") (auto simp: has_range_def)
    then show ?thesis by (simp add: has_range_def)
  qed
  have blk: "n - ?l = 0 \<or> (off + ?l) mod BLKSIZE + (n - ?l) \<le> BLKSIZE \<and> m_slot m' ino ((off + ?l) div BLKSIZE) \<noteq> 0"
  proof (cases "n = ?l")
    case False
    then have "off mod BLKSIZE + ?l < BLKSIZE" using o(7) bs(3) by simp
    note lt = block_parts [OF this, of "off div BLKSIZE"]
    have "off div BLKSIZE * BLKSIZE + (off mod BLKSIZE + ?l) = off + ?l" unfolding add.assoc [symmetric] div_mult_mod_eq ..
    then have "(off + ?l) div BLKSIZE = off div BLKSIZE" "(off + ?l) mod BLKSIZE = off mod BLKSIZE + ?l" using lt by simp_all
    moreover have "has_block m' ino off" using m'(4) l by simp
    ultimately show ?thesis using o(7) bs(3) by (simp add: has_block_def)
  qed simp
  have "file_ready i k f ino (n - ?l) u'"
    unfolding file_ready_def s Let_def using u'(3) o(2,5) bs(3) m'(1,2) hr blk by (intro conjI exI [of _ m']) auto
  moreover have "file_text k ino u' = m_read m' ino 0 off @ m_read m' ino off ?l"
    by (simp add: file_text_def s sees_vmem [OF m'(1)] m_read_append)
  moreover have "m_read m' ino 0 off = m_read m ino 0 off" using m'(5) by (simp add: m_read_def)
  moreover have "m_read m' ino off ?l = bs" using m'(4) by (intro nth_equalityI) (simp_all add: m_read_def)
  moreover have "file_text k ino u = m_read m ino 0 off" by (simp add: file_text_def sees_vmem [OF o(3)] off_def)
  ultimately show ?thesis using u'(1) by simp
qed

interpretation file_out: text_sink "int i" "file_ready i k f ino" "file_text k ino" for i k f ino
  by unfold_locales (rule file_sink)

section \<open>Properties\<close>

text \<open>
  C22: the text that \<open>printf\<close> formats arrives whole and in order, however long it is: on a console descriptor it is
  what the console prints next, and on a file, in whose block it fits, what the file holds between the old and
  the new offset, with everything before unchanged.  The result is its length, except that for an empty text
  it is 1.
\<close>

theorem printf_text_arrives:
  assumes "vprintfmt m fmt ap = Some cs" "(0 :: u8) \<notin> word_of_int ` set cs"
  shows "(cons_ready fd (length cs) u \<longrightarrow> (\<exists>u'. vfprintf fd m fmt ap u = Some (if cs = [] then 1 else int (length cs), u')
       \<and> cons_out u' = cons_out u @ map word_of_int cs))
    \<and> (file_ready i k f ino (length cs) u \<longrightarrow> (\<exists>u'. vfprintf (int i) m fmt ap u = Some (if cs = [] then 1 else int (length cs), u')
       \<and> file_text k ino u' = file_text k ino u @ map word_of_int cs))"
  using console.text_arrives [OF _ assms(2), of fd u] file_out.text_arrives [OF _ assms(2), of i k f ino u] assms(1)
  by (simp add: vfprintf_def)

text \<open>The file of the disk image at offset 0, with the console open as descriptor 0.\<close>

definition img_prints :: uenv where
  "img_prints = snd (opencons (img_uenv\<lparr>server := set_fd 5 (\<lambda>d. d\<lparr>fd_offset := 0\<rparr>) (server img_uenv), fresh := [9]\<rparr>))"

lemma img_prints_ready: "cons_ready 0 n img_prints" "file_ready 3 1 img_entry 1 5 img_prints"
proof -
  have a: "fd_alloc (img_uenv\<lparr>server := s, fresh := v\<rparr>) = (0, 0)" for s v
    by (simp add: fd_alloc_def MAXFD_def img_uenv_def upt_rec)
  show "cons_ready 0 n img_prints"
    by (simp add: a img_prints_def opencons_def cons_ready_def with_fd_def fd_lookup_def the_fd_def dev_lookup_def
        MAXFD_def serv_consts set_fd_def zero_fd_def Let_def)
  have f: "fd_open img_prints 3 1 img_entry" "fd_omode (fd_of img_prints 1) = 2" "fd_offset (fd_of img_prints 1) = 0" "sfs (server img_prints) = img"
    by (simp_all add: a img_prints_def opencons_def fd_open_def fd_of_def set_fd_def zero_fd_def MAXFD_def MAXOPEN_def Let_def)
      (simp_all add: img_uenv_def no_serv_def)
  show "file_ready 3 1 img_entry 1 5 img_prints"
    unfolding file_ready_def f Let_def using f(1) sees_img img_file img_free(1)
    by (intro conjI exI [of _ img_mem]) (simp_all add: serv_consts MAXSIZE_eq has_range_def fs_consts del: One_nat_def)
qed

theorem printf_text_arrives_witness:
  "(\<exists>u'. vfprintf 0 (set_bytes 1 [37, 100] (\<lambda>_. 0)) 1 [word_of_int (- 4096)] img_prints = Some (5, u')
      \<and> cons_out u' = cons_out img_prints @ [45, 52, 48, 57, 54])
   \<and> (\<exists>u'. vfprintf 3 (set_bytes 1 [37, 100] (\<lambda>_. 0)) 1 [word_of_int (- 4096)] img_prints = Some (5, u')
      \<and> file_text 1 1 u' = file_text 1 1 img_prints @ [45, 52, 48, 57, 54])"
proof -
  have d: "conv_dec (scast (word_of_int (- 4096) :: u32)) (- 1) 32 = [45, 52, 48, 57, 54]" by code_simp
  have v: "vprintfmt (set_bytes 1 [37, 100] (\<lambda>_. 0)) 1 [word_of_int (- 4096)] = Some [45, 52, 48, 57, 54]"
    unfolding d [symmetric] by (rule vprintfmt_d) simp
  have "length [45, 52, 48, 57, 54 :: int] = 5" "(0 :: u8) \<notin> word_of_int ` set [45, 52, 48, 57, 54]" by simp_all
  from printf_text_arrives [OF v this(2), of 0 img_prints 3 1 img_entry 1, unfolded this(1)] img_prints_ready show ?thesis by simp
qed

end
