(* ===== verification/OpenProps.thy ===== *)
theory OpenProps
  imports DirProps SegProps
begin

text \<open>
  Opening a file by its path and reading it, end to end: the client's \<open>open\<close> sends the path to the server, which
  takes a slot of its table and resolves the path, and maps the descriptor page it returns; \<open>read\<close> then delivers the
  bytes of the file.
\<close>

section \<open>The server\<close>

text \<open>The first slot that is available, and whose page can be allocated if it has none.\<close>

definition slot_free :: "serv \<Rightarrow> nat \<Rightarrow> bool" where
  "slot_free s j \<longleftrightarrow> j < MAXOPEN \<and> avail s j \<and> (\<forall>l<j. \<not> avail s l)
     \<and> (fdref s (o_fd (opentab s j)) = 0 \<longrightarrow> 0 \<le> page_ret s (o_fd (opentab s j)))
     \<and> 0 \<le> sint (o_fileid (opentab s j) + of_nat MAXOPEN)"

lemma openfile_alloc_run:
  assumes "slot_free s j"
  shows "openfile_alloc s = ((sint (o_fileid (opentab s j) + of_nat MAXOPEN), j),
    set_fd (o_fd (opentab s j)) (\<lambda>_. zero_fd) (set_open j (\<lambda>x. x\<lparr>o_fileid := o_fileid x + of_nat MAXOPEN\<rparr>)
      (s\<lparr>fdref := (fdref s)(o_fd (opentab s j) := 1)\<rparr>)))"
proof -
  let ?x = "opentab s j"
  let ?s = "s\<lparr>fdref := (fdref s)(o_fd ?x := 1)\<rparr>"
  have "openfile_alloc s = openfile_alloc_loop [j] s"
    unfolding openfile_alloc_def using assms alloc_loop_first [of j "[0..<MAXOPEN]" s] by (simp add: slot_free_def)
  moreover have "fdref s (o_fd ?x) = 1 \<Longrightarrow> ?s = s" by (simp add: fun_upd_idem)
  ultimately have "openfile_alloc s = openfile_take j ?s"
    using assms by (auto simp: slot_free_def avail_def Let_def le_Suc_eq)
  then show ?thesis by (simp add: openfile_take_def Let_def)
qed

lemma req_path_put:
  assumes "length path < MAXPATHLEN" "0 \<notin> set path"
  shows "req_path (set32 MAXPATHLEN mode (put_path path pg)) = path"
proof -
  let ?p = "set32 MAXPATHLEN mode (put_path path pg)"
  have b: "?p x = (path @ [0]) ! x" if "x \<le> length path" for x
    using that assms(1) by (simp add: set32_other put_path_def set_bytes_apply MAXPATHLEN_def)
  have g: "get_bytes ?p 0 (length path) = path" by (rule nth_equalityI) (simp_all add: b nth_append)
  have z: "?p (length path) = 0" using b [of "length path"] by simp
  have "get_bytes ?p 0 (MAXPATHLEN - 1) = path @ get_bytes ?p (length path) (MAXPATHLEN - 1 - length path)"
    using get_bytes_add [of ?p 0 "length path" "MAXPATHLEN - 1 - length path"] assms(1) g by simp
  moreover have "takeWhile (\<lambda>c. c \<noteq> 0) (get_bytes ?p (length path) n) = []" for n
    using z by (cases n) (simp_all add: get_bytes_Suc)
  moreover have "takeWhile (\<lambda>c. c \<noteq> 0) path = path" using assms(2) by (auto simp: takeWhile_eq_all_conv)
  ultimately show ?thesis unfolding req_path_def using assms(2) by (simp add: takeWhile_append)
qed

text \<open>The modes without creation or truncation.\<close>

definition plain_mode :: "u32 \<Rightarrow> bool" where
  "plain_mode mode \<longleftrightarrow> mode \<in> {0, 1, 2}"

lemma plain_modeD:
  assumes "plain_mode mode"
  shows "mode AND O_MKDIR = 0" "mode AND O_CREAT = 0" "mode AND O_TRUNC = 0" "mode AND O_ACCMODE = mode"
  using assms by (auto simp: plain_mode_def serv_consts)

lemma serve_open_run:
  assumes "slot_free s j" "sees (sfs s) m" "m_tree m" "m_resolve m 0 0 (elems [] path) = (0, e)" "e \<noteq> 0"
    and p: "length path < MAXPATHLEN" "0 \<notin> set path" "path \<noteq> []" "hd path = CH_SLASH" and mode: "plain_mode mode"
  shows "\<exists>f. sees f m \<and> serve_open (set32 MAXPATHLEN mode (put_path path pg)) s =
    Some ((0, Some (o_fd (opentab s j))),
      set_open j (\<lambda>x. x\<lparr>o_fileid := o_fileid x + of_nat MAXOPEN, o_file := e, o_mode := mode\<rparr>)
        (set_fd (o_fd (opentab s j)) (\<lambda>_. \<lparr>fd_dev_id = DEVFILE_ID, fd_offset = 0, fd_omode = mode, fd_file_id = o_fileid (opentab s j) + of_nat MAXOPEN\<rparr>)
          (s\<lparr>fdref := (fdref s)(o_fd (opentab s j) := 1), sfs := f\<rparr>)))"
proof -
  let ?pg = "set32 MAXPATHLEN mode (put_path path pg)"
  note D = plain_modeD [OF mode]
  have rp: "req_path ?pg = path" "get32 ?pg MAXPATHLEN = mode" using req_path_put [OF p(1,2)] by (simp_all add: mem_simps)
  from file_open_run [OF assms(2,3) p(2-4)] obtain f1 where f1: "file_open path (sfs s) = Some ((0, e), f1)" "sees f1 m"
    unfolding assms(4) by (rule runsE)
  from file_open_run [OF f1(2) assms(3) p(2-4)] obtain f2 where f2: "file_open path f1 = Some ((0, e), f2)" "sees f2 m"
    unfolding assms(4) by (rule runsE)
  have nn: "\<not> sint (o_fileid (opentab s j) + of_nat MAXOPEN) < 0" using assms(1) by (simp add: slot_free_def)
  show ?thesis
    using f1(1) f2 nn assms(5)
    by (intro exI [of _ f2]) (simp add: serve_open_def rp open_mkdir_def D openfile_alloc_run [OF assms(1)] open_file_def open_trunc_def
        Let_def zero_fd_def set_open_def set_fd_def)
qed

section \<open>The client\<close>

lemma fd_alloc_least:
  assumes "fd_alloc u = (0, i)"
  shows "i < MAXFD" "fdtab u i = None" "\<forall>l<i. fdtab u l \<noteq> None"
  using fd_alloc_loop_least [of "[0..<MAXFD]" u i] assms by (auto simp: fd_alloc_def)

lemma open_fd_run:
  assumes "fd_alloc u = (0, i)" and tab: "tab_ok (server u)" and s: "slot_free (server u) j" "sees (sfs (server u)) m" "m_tree m"
    "m_resolve m 0 0 (elems [] path) = (0, e)" "e \<noteq> 0"
    and p: "length path < MAXPATHLEN" "0 \<notin> set path" "path \<noteq> []" "hd path = CH_SLASH" and mode: "plain_mode mode"
  shows "\<exists>u'. open_fd path mode u = Some (int i, u') \<and> fd_open u' i j e \<and> fd_offset (fd_of u' j) = 0 \<and> fd_omode (fd_of u' j) = mode
    \<and> sees (sfs (server u')) m \<and> tab_ok (server u') \<and> (\<forall>l. l \<noteq> i \<longrightarrow> fdtab u' l = fdtab u l)"
proof -
  let ?x = "opentab (server u) j" and ?pg = "set32 MAXPATHLEN mode (put_path path (fsipcbuf u))"
  let ?va = "o_fd ?x" and ?id = "o_fileid ?x + of_nat MAXOPEN"
  let ?u = "u\<lparr>fsipcbuf := ?pg\<rparr>"
  note i = fd_alloc_least [OF assms(1)]
  from serve_open_run [OF s p mode, of "fsipcbuf u"] obtain f where f: "sees f m" "serve_open ?pg (server u) = Some ((0, Some ?va),
      set_open j (\<lambda>x. x\<lparr>o_fileid := o_fileid x + of_nat MAXOPEN, o_file := e, o_mode := mode\<rparr>)
        (set_fd ?va (\<lambda>_. \<lparr>fd_dev_id = DEVFILE_ID, fd_offset = 0, fd_omode = mode, fd_file_id = ?id\<rparr>)
          ((server u)\<lparr>fdref := (fdref (server u))(?va := 1), sfs := f\<rparr>)))" by blast
  define sv where "sv = set_open j (\<lambda>x. x\<lparr>o_fileid := o_fileid x + of_nat MAXOPEN, o_file := e, o_mode := mode\<rparr>)
        (set_fd ?va (\<lambda>_. \<lparr>fd_dev_id = DEVFILE_ID, fd_offset = 0, fd_omode = mode, fd_file_id = ?id\<rparr>)
          ((server u)\<lparr>fdref := (fdref (server u))(?va := 1), sfs := f\<rparr>))"
  let ?u' = "map_fd i ?va (?u\<lparr>fsipcbuf := ?pg, server := sv\<rparr>)"
  have "fsipc FSREQ_OPEN (Some i) ?u = Some (0, ?u')"
    using f(2) by (simp add: fsipc_def serve_def FSREQ_OPEN_def sv_def)
  then have run: "open_fd path mode u = Some (int i, ?u')" using assms(1) p(1) by (simp add: open_fd_def)
  have u': "fdtab ?u' = (fdtab u)(i := Some ?va)" "server ?u' = sv\<lparr>fdref := (fdref sv)(?va := fdref sv ?va + 1)\<rparr>"
    using i(2) by (simp_all add: map_fd_def unmap_fd_def Let_def)
  have x: "opentab sv j = ?x\<lparr>o_fileid := ?id, o_file := e, o_mode := mode\<rparr>" "fdref sv ?va = 1" "sfs sv = f"
    "fdpage sv ?va = \<lparr>fd_dev_id = DEVFILE_ID, fd_offset = 0, fd_omode = mode, fd_file_id = ?id\<rparr>"
    by (simp_all add: sv_def)
  have j: "j < MAXOPEN" using s(1) by (simp add: slot_free_def)
  have "unat ?id mod MAXOPEN = j" using tab j next_fileid [of "o_fileid ?x"] by (simp add: tab_ok_def)
  then have o: "fd_open ?u' i j e" unfolding fd_open_def u' Let_def using i(1) j by (simp add: x)
  have d: "fd_of ?u' j = \<lparr>fd_dev_id = DEVFILE_ID, fd_offset = 0, fd_omode = mode, fd_file_id = ?id\<rparr>" unfolding fd_of_def u' by (simp add: x)
  have "tab_ok sv" using tab next_fileid [of "o_fileid ?x"] by (simp add: sv_def tab_ok_def)
  then have t: "tab_ok (server ?u')" unfolding u'(2) by simp
  show ?thesis using run o d t f(1) u' x(3) by (intro exI [of _ ?u']) simp
qed

text \<open>
  C9: Opening a path for reading and reading it delivers the file.  When the path resolves to an entry, the
  client has a free descriptor and the server a free slot, \<open>open\<close> without creation or truncation returns the
  least free descriptor, and a \<open>read\<close> of up to a page of it returns the first bytes of the file the path names.
\<close>

theorem open_read:
  assumes "fd_alloc u = (0, i)" "tab_ok (server u)" "slot_free (server u) j" "sees (sfs (server u)) m" "m_tree m"
    "m_resolve m 0 0 (elems [] path) = (0, e)" "m_file m e ino" "0 < e"
    "length path < MAXPATHLEN" "0 \<notin> set path" "path \<noteq> []" "hd path = CH_SLASH" "mode \<in> {O_RDONLY, O_RDWR}"
    "0 < n" "n \<le> PAGE" "n \<le> unat (m_size m ino)" "n \<le> MAXSIZE" "has_range m ino 0 n"
  shows "(\<forall>l<i. fdtab u l \<noteq> None) \<and> (\<exists>u1 u2. open_fd path mode u = Some (int i, u1)
    \<and> read_fd (int i) (of_nat n) u1 = Some ((int n, m_read m ino 0 n), u2) \<and> sees (sfs (server u2)) m)"
proof -
  have md: "plain_mode mode" "mode AND O_ACCMODE \<noteq> O_WRONLY" using assms(13) by (auto simp: plain_mode_def serv_consts)
  from open_fd_run [OF assms(1-6) _ assms(9-12) md(1)] assms(8) obtain u1 where
    u1: "open_fd path mode u = Some (int i, u1)" "fd_open u1 i j e" "fd_offset (fd_of u1 j) = 0" "fd_omode (fd_of u1 j) = mode"
      "sees (sfs (server u1)) m" by auto
  then have rd: "reads u1 i j e ino m" using md(2) assms(7) by (simp add: reads_def)
  have "\<exists>u2. read_fd (int i) (of_nat n) u1 = Some ((int n, m_read m ino 0 n), u2) \<and> reads u2 i j e ino m"
    by (rule reads_read [OF rd]) (use u1(3) assms(14-18) in simp_all)
  then show ?thesis using u1(1) fd_alloc_least(3) [OF assms(1)] by (auto simp: reads_def)
qed

text \<open>The image with the two letters AB in the file \<open>/a\<close>, in the third data block.\<close>

definition abc_mem :: bytemem where
  "abc_mem = set32 (DISKMAP + SB_blk_ocp) 15 (set16 (iaddr 1 + IN_size) 2 (set16 (slot_addr 1 0) 3
     (set16 (DISKMAP + 3 * BLKSIZE) 0x4241 img_mem)))"

definition abc_img :: fs where
  "abc_img = img\<lparr>fmem := abc_mem, fdisk := (\<lambda>off. abc_mem (DISKMAP + off))\<rparr>"

lemma sees_abc: "sees abc_img abc_mem"
proof -
  have "vmem abc_img = abc_mem" by (auto simp: fun_eq_iff vmem_def view_def abc_img_def img_def in_cache_def)
  then show ?thesis by (intro seesI) (simp_all add: abc_img_def img_def meta_ok_def hw_ok_def cache_inv_def)
qed

lemma abc_nums: "m_blk_num abc_mem = 16" "m_in_num abc_mem = 8"
  using img_nums by (simp_all add: m_blk_num_def m_in_num_def abc_mem_def mem_simps slot_addr_def iaddr_def fs_consts)

lemma abc_bits: "b < 32 \<Longrightarrow> bm_bit abc_mem SB_blk_ocp b = (b < 4)"
proof -
  have "(15 :: u32) = mask 4" by (simp add: mask_eq_exp_minus_1)
  then have "bit (15 :: u32) n \<longleftrightarrow> n < 4" for n by (simp only: bit_mask_iff) auto
  moreover have "get32 abc_mem (DISKMAP + SB_blk_ocp) = 15" by (simp add: abc_mem_def mem_simps)
  ultimately show "b < 32 \<Longrightarrow> bm_bit abc_mem SB_blk_ocp b = (b < 4)"
    by (simp only: bm_bit_def bm_addr_def div_less mod_less mult_0_right add_0_right)
qed

lemma abc_wf: "m_wf abc_mem"
  using abc_bits [of 0] abc_bits [of 1] by (simp add: m_wf_def m_geom_def abc_nums)

lemma abc_fields:
  "k < NDIRECT \<Longrightarrow> m_slot abc_mem 1 k = (if k = 0 then 3 else 0)"
  "m_size abc_mem 1 = 2" "abc_mem (DISKMAP + 3 * BLKSIZE) = 0x41" "abc_mem (DISKMAP + 3 * BLKSIZE + 1) = 0x42"
  using img_slots(1) [of k]
  by (simp add: m_slot_def m_size_def abc_mem_def mem_simps slot_addr_def iaddr_def fs_consts,
      simp add: m_size_def abc_mem_def mem_simps slot_addr_def iaddr_def fs_consts,
      simp_all add: abc_mem_def slot_addr_def iaddr_def fs_consts set16_def set32_def)

lemma abc_root: "m_used abc_mem 0 = 1" "m_slot abc_mem 0 0 = 2"
  using img_root by (simp_all add: m_used_def m_slot_def abc_mem_def mem_simps slot_addr_def iaddr_def fs_consts)

lemma abc_types: "i < 128 \<Longrightarrow> m_type abc_mem i = m_type img_mem i"
proof -
  assume "i < 128"
  moreover have "i = 0 \<or> i = 1 \<or> 2 \<le> i" by auto
  ultimately show ?thesis by (elim disjE) (simp_all add: m_type_def abc_mem_def mem_simps slot_addr_def iaddr_def fs_consts)
qed

lemma abc_dir_block: "img_entry \<le> a \<Longrightarrow> a < img_entry + BLKSIZE \<Longrightarrow> abc_mem a = img_mem a"
  by (simp add: abc_mem_def set16_other set32_other slot_addr_def iaddr_def img_entry_def fs_consts)

lemma abc_entry: "j < BLKFILES \<Longrightarrow> l < DIRESIZE \<Longrightarrow> abc_mem (img_entry + DIRESIZE * j + l) = img_mem (img_entry + DIRESIZE * j + l)"
  using ent_range [of j l] by (intro abc_dir_block) simp_all

lemma abc_ind: "get16 abc_mem (img_entry + DE_in_ind) = 1"
proof -
  have "get16 abc_mem (img_entry + DE_in_ind) = get16 img_mem (img_entry + DE_in_ind)"
    by (simp add: abc_mem_def mem_simps slot_addr_def iaddr_def img_entry_def fs_consts)
  then show ?thesis using img_file by (simp add: m_file_def)
qed

lemma abc_entries: "m_entries abc_mem 0 = map (\<lambda>j. img_entry + DIRESIZE * j) [0..<BLKFILES]"
  by (simp add: m_entries_def abc_root m_ent_def img_entry_def)

lemma abc_file: "m_file abc_mem img_entry 1"
proof -
  have "in_cache img_entry" "blk img_entry = 2" "one_block img_entry DIRESIZE" using img_file by (simp_all add: m_file_def m_addr_def img_entry_def blk_def fs_consts)
  then show ?thesis using abc_wf abc_bits [of 2] abc_bits [of 3] abc_fields(1) abc_ind by (simp add: m_file_def m_addr_def abc_nums)
qed

lemma abc_tree: "m_tree abc_mem"
  unfolding m_tree_def
proof (intro conjI allI impI ballI)
  show "m_wf abc_mem" by (rule abc_wf)
next
  fix i assume "i < 128" "m_type abc_mem i = FTYPE_DIR"
  then have i: "i = 0" by (simp add: abc_types img_types FTYPE_DIR_def FTYPE_REG_def split: if_splits)
  show "m_dir abc_mem i" using abc_wf abc_bits [of 2] by (simp add: i m_dir_def abc_root abc_nums fs_consts)
  fix e assume "e \<in> set (m_entries abc_mem i)" "abc_mem e \<noteq> 0"
  then have "e = img_entry"
    using img_names [of _ 0] abc_entry [of _ 0] by (auto simp: i abc_entries DIRESIZE_def split: if_splits)
  then show "unat (get16 abc_mem (e + DE_in_ind)) < 128" using abc_ind by simp
qed

theorem open_read_witness:
  "\<exists>u u1 u2. fdtab u = Map.empty \<and> open_fd [CH_SLASH, 97] O_RDONLY u = Some (0, u1) \<and> read_fd 0 2 u1 = Some ((2, [0x41, 0x42]), u2)"
proof -
  let ?u = "img_uenv\<lparr>fdtab := Map.empty, server := serve_init (no_serv abc_img)\<rparr>"
  have sv: "sees (sfs (server ?u)) abc_mem" "tab_ok (server ?u)" "slot_free (server ?u) 0"
    using sees_abc tab_ok_init [of "no_serv abc_img"] by (simp_all add: slot_free_def avail_def serve_init_def no_serv_def MAXOPEN_def)
  have fa: "fd_alloc ?u = (0, 0)" by (simp add: fd_alloc_def MAXFD_def upt_rec)
  have "abc_mem (img_entry + DIRESIZE * 0 + l) = (if l = 0 then 97 else 0)" if "l < 16" for l
    using abc_entry [of 0 l] img_names [of 0 l] that by (simp add: fs_consts)
  from this [of 0] this [of 1] have "find (\<lambda>e. str_at abc_mem e [97]) (map (\<lambda>j. img_entry + DIRESIZE * j) (0 # [1..<BLKFILES])) = Some img_entry"
    by (simp add: fs_consts)
  then have fnd: "m_find abc_mem 0 [97] = Some img_entry" by (simp add: m_find_def abc_entries upt_conv_Cons fs_consts)
  have rs: "m_resolve abc_mem 0 0 (elems [] [CH_SLASH, 97]) = (0, img_entry)"
    using fnd abc_types [of 0] abc_ind img_types [of 0] by (simp add: CH_SLASH_def MAXNAMELEN_def FTYPE_DIR_def)
  have m: "0 < img_entry" "2 \<le> unat (m_size abc_mem 1)" "has_range abc_mem 1 0 2" "m_read abc_mem 1 0 2 = [0x41, 0x42]"
    using abc_fields by (simp_all add: img_entry_def has_range_def has_block_def m_read_def m_byte_def upt_rec fs_consts)
  have "\<exists>u1 u2. open_fd [CH_SLASH, 97] O_RDONLY ?u = Some (int 0, u1)
    \<and> read_fd (int 0) (of_nat 2) u1 = Some ((int 2, m_read abc_mem 1 0 2), u2) \<and> sees (sfs (server u2)) abc_mem"
    using open_read [OF fa sv(2,3,1) abc_tree rs abc_file m(1), of O_RDONLY 2] m
    by (simp add: MAXPATHLEN_def CH_SLASH_def PAGE_def MAXSIZE_eq)
  then obtain u1 u2 where "open_fd [CH_SLASH, 97] O_RDONLY ?u = Some (0, u1)" "read_fd 0 2 u1 = Some ((2, [0x41, 0x42]), u2)"
    using m(4) by (auto simp del: One_nat_def)
  then show ?thesis by (intro exI [of _ ?u] exI [of _ u1] exI [of _ u2]) simp
qed

end
