(* ===== verification/Boot.thy ===== *)
theory Boot
  imports Spawn AddrSpace
begin

text \<open>
  From the boot sector to the first instruction of the kernel at its high address: the loader \<open>main.c\<close>, which
  reads the kernel from the disk into physical memory, and the page directory \<open>entrypgdir.c\<close> that \<open>entry.S\<close>
  loads before it turns paging on.

  The state is the physical memory, the disk by bytes, the values the status port of the disk controller will
  show when it is read, and the bytes last written to the ports.  The controller transfers the sector that the
  ports of the block number select, once for every read command.
\<close>

section \<open>The disk\<close>

record bootm =
  bmem :: bytemem
  bdisk :: bytemem
  bstat :: "u8 list"
  bport :: "nat \<Rightarrow> u8"

text \<open>The loop ends when the controller is ready and not busy; without such a value it does not.\<close>

fun waitstat :: "u8 list \<Rightarrow> u8 list option" where
  "waitstat [] = None"
| "waitstat (v # vs) = (if v AND 0xC0 = 0x40 then Some vs else waitstat vs)"

definition waitdisk :: "bootm \<Rightarrow> bootm option" where
  "waitdisk s = map_option (\<lambda>vs. s\<lparr>bstat := vs\<rparr>) (waitstat (bstat s))"

definition outb :: "nat \<Rightarrow> u32 \<Rightarrow> bootm \<Rightarrow> bootm" where
  "outb port v s = s\<lparr>bport := (bport s)(port := ucast v)\<rparr>"

definition outw :: "nat \<Rightarrow> u32 \<Rightarrow> bootm \<Rightarrow> bootm" where
  "outw port v s = outb (port + 1) (drop_bit 8 v) (outb port v s)"

text \<open>The block number of 28 bits in the ports \<open>0x1F3\<close> to \<open>0x1F6\<close>.\<close>

definition ata_lba :: "bootm \<Rightarrow> nat" where
  "ata_lba s = unat (bport s 0x1F3) + 2 ^ 8 * unat (bport s 0x1F4) + 2 ^ 16 * unat (bport s 0x1F5) + 2 ^ 24 * (unat (bport s 0x1F6) mod 16)"

text \<open>
  The command to read sectors, addressed by block number on the first drive, as many as are transferred.  Without it
  there is no data; a transfer completes it.
\<close>

definition ata_reads :: "nat \<Rightarrow> bootm \<Rightarrow> bool" where
  "ata_reads n s \<longleftrightarrow> bport s 0x1F7 = 0x20 \<and> bport s 0x1F6 AND 0x50 = 0x40 \<and> 4 * n = unat (bport s 0x1F2) * SECTSIZE"

definition insl :: "u32 \<Rightarrow> nat \<Rightarrow> bootm \<Rightarrow> bootm option" where
  "insl dst n s =
     (if ata_reads n s
      then Some (s\<lparr>bmem := set_bytes (unat dst) (get_bytes (bdisk s) (ata_lba s * SECTSIZE) (4 * n)) (bmem s), bport := (bport s)(0x1F7 := 0)\<rparr>)
      else None)"

definition readsect :: "u32 \<Rightarrow> u32 \<Rightarrow> bootm \<Rightarrow> bootm option" where
  "readsect dst offset s = do {
     s \<leftarrow> waitdisk s;
     let s = outb 0x1F2 1 s;
     let s = outb 0x1F3 offset s;
     let s = outb 0x1F4 (drop_bit 8 offset) s;
     let s = outb 0x1F5 (drop_bit 16 offset) s;
     let s = outb 0x1F6 (drop_bit 24 offset OR 0xE0) s;
     let s = outb 0x1F7 0x20 s;
     s \<leftarrow> waitdisk s;
     insl dst (SECTSIZE div 4) s
   }"

section \<open>The loader\<close>

text \<open>The addresses wrap; the loop need not end.\<close>

partial_function (option) readseg_loop :: "u32 \<Rightarrow> u32 \<Rightarrow> u32 \<Rightarrow> bootm \<Rightarrow> bootm option" where
  "readseg_loop pa end_pa offset s =
     (if pa < end_pa then do {
        s \<leftarrow> readsect pa offset s;
        readseg_loop (pa + of_nat SECTSIZE) end_pa (offset + 1) s
      } else Some s)"

definition readseg :: "u32 \<Rightarrow> u32 \<Rightarrow> u32 \<Rightarrow> bootm \<Rightarrow> bootm option" where
  "readseg pa count offset s =
     readseg_loop (pa AND NOT (of_nat SECTSIZE - 1)) (pa + count) (offset div of_nat SECTSIZE + 1) s"

definition ELFHDR :: u32 where "ELFHDR = 0x10000"

definition p_pa :: "bytemem \<Rightarrow> nat \<Rightarrow> u32" where "p_pa b ph = get32 b (ph + 12)"

text \<open>The loop over the program headers; its bound is their number, after which \<open>ph\<close> is \<open>eph\<close>.\<close>

fun load_headers :: "nat \<Rightarrow> u32 \<Rightarrow> u32 \<Rightarrow> bootm \<Rightarrow> bootm option" where
  "load_headers 0 ph eph s = Some s"
| "load_headers (Suc n) ph eph s =
     (if ph < eph then do {
        s \<leftarrow> readseg (p_pa (bmem s) (unat ph)) (p_memsz (bmem s) (unat ph)) (p_offset (bmem s) (unat ph)) s;
        load_headers n (ph + of_nat SIZEOF_PROGHDR) eph s
      } else Some s)"

text \<open>The jump to the kernel, or the endless loop after the magic number was not found.\<close>

datatype boot_end = Jump u32 bootm | Stuck bootm

definition bootmain :: "bootm \<Rightarrow> boot_end option" where
  "bootmain s = do {
     s \<leftarrow> readseg ELFHDR (of_nat SECTSIZE * 8) 0 s;
     let hdr = (\<lambda>i. bmem s (unat ELFHDR + i));
     if e_magic hdr \<noteq> ELF_MAGIC then Some (Stuck (outw 0x8A00 0x8E00 (outw 0x8A00 0x8A00 s)))
     else do {
       let ph = ELFHDR + e_phoff hdr;
       s \<leftarrow> load_headers (unat (e_phnum hdr)) ph (ph + of_nat SIZEOF_PROGHDR * ucast (e_phnum hdr)) s;
       Some (Jump (e_entry (\<lambda>i. bmem s (unat ELFHDR + i))) s)
     }
   }"

section \<open>The entry page directory\<close>

definition entry_pgtable :: "u32 list" where
  "entry_pgtable = map (\<lambda>i. of_nat (0x1000 * i) OR PTE_P OR PTE_W) [0..<1024]"

text \<open>The address of \<open>entry_pgtable\<close> is the linker's; every entry that is not named is 0.\<close>

definition entry_pgdir :: "u32 \<Rightarrow> u32 list" where
  "entry_pgdir pgtable =
     (replicate 1024 0)[0 := pgtable - KERNBASE + PTE_P, unat (drop_bit 22 KERNBASE) := pgtable - KERNBASE + PTE_P + PTE_W]"

end
