(* ===== verification/BootProps.thy ===== *)
theory BootProps
  imports Boot
begin

text \<open>
  What the loader leaves in memory: every segment of the kernel at its physical address; and what the page
  directory of the entry code maps.
\<close>

section \<open>Sectors\<close>

definition disk_ready :: "u8 \<Rightarrow> bool" where "disk_ready v \<longleftrightarrow> v AND 0xC0 = 0x40"

text \<open>How many more times the controller will be found ready.\<close>

definition readies :: "bootm \<Rightarrow> nat" where "readies s = length (filter disk_ready (bstat s))"

lemma waitdisk_run:
  assumes "0 < readies s"
  shows "\<exists>vs. waitdisk s = Some (s\<lparr>bstat := vs\<rparr>) \<and> readies (s\<lparr>bstat := vs\<rparr>) = readies s - 1"
proof -
  have "0 < length (filter disk_ready vs) \<Longrightarrow>
    \<exists>ws. waitstat vs = Some ws \<and> length (filter disk_ready ws) = length (filter disk_ready vs) - 1" for vs
    by (induction vs) (auto simp: disk_ready_def)
  from this [of "bstat s"] assms show ?thesis by (auto simp: readies_def waitdisk_def)
qed

lemma outb_fields [simp]:
  "bmem (outb p v s) = bmem s" "bdisk (outb p v s) = bdisk s" "bstat (outb p v s) = bstat s"
  "bport (outb p v s) = (bport s)(p := ucast v)" "readies (outb p v s) = readies s"
  by (simp_all add: outb_def readies_def)

lemma ucast_parts:
  "unat (ucast (w :: u32) :: u8) = unat w mod 256" "unat (drop_bit n (w :: u32)) = unat w div 2 ^ n"
  "unat (drop_bit 24 (w :: u32) OR 0xE0) mod 256 mod 16 = unat w div 2 ^ 24 mod 16"
proof -
  show "unat (ucast w :: u8) = unat w mod 256" by (simp add: unsigned_ucast_eq take_bit_eq_mod)
  show d: "unat (drop_bit n w) = unat w div 2 ^ n" for n :: nat by (simp only: unsigned_drop_bit_eq) (simp add: drop_bit_eq_div take_bit_nat_eq_self)
  have "take_bit 4 (drop_bit 24 w OR 0xE0) = take_bit 4 (drop_bit 24 w)"
    by (rule bit_word_eqI) (auto simp: bit_simps)
  then have "unat (take_bit 4 (drop_bit 24 w OR 0xE0)) = unat (take_bit 4 (drop_bit 24 w))" by simp
  then show "unat (drop_bit 24 w OR 0xE0) mod 256 mod 16 = unat w div 2 ^ 24 mod 16"
    unfolding unsigned_take_bit_eq d by (simp add: take_bit_eq_mod mod_mod_cancel)
qed

lemma ata_select:
  assumes "unat (w :: u32) < 2 ^ 28"
  shows "(ucast (drop_bit 24 w OR 0xE0) :: u8) AND 0x50 = 0x40"
proof (rule bit_word_eqI)
  fix n assume "n < LENGTH(8)"
  then have n: "n \<in> {0, 1, 2, 3, 4, 5, 6, 7}" by auto
  have "unat w = unat (take_bit 28 w)" using assms by (simp only: unsigned_take_bit_eq) (simp add: take_bit_eq_mod)
  then have "w = take_bit 28 w" by (simp only: word_unat_eq_iff)
  then have "\<not> bit w 28" by (metis bit_take_bit_iff less_irrefl)
  with n show "bit ((ucast (drop_bit 24 w OR 0xE0) :: u8) AND 0x50) n = bit (0x40 :: u8) n" by (auto simp: bit_simps)
qed

lemma readsect_run:
  assumes "2 \<le> readies s" "unat offset < 2 ^ 28"
  shows "\<exists>s'. readsect dst offset s = Some s' \<and> readies s' = readies s - 2 \<and> bdisk s' = bdisk s
    \<and> bmem s' = set_bytes (unat dst) (get_bytes (bdisk s) (unat offset * SECTSIZE) SECTSIZE) (bmem s)"
proof -
  have "0 < readies s" using assms by simp
  from waitdisk_run [OF this] obtain vs where w: "waitdisk s = Some (s\<lparr>bstat := vs\<rparr>)" "readies (s\<lparr>bstat := vs\<rparr>) = readies s - 1" by blast
  define t where "t = outb 0x1F7 0x20 (outb 0x1F6 (drop_bit 24 offset OR 0xE0) (outb 0x1F5 (drop_bit 16 offset) (outb 0x1F4 (drop_bit 8 offset)
    (outb 0x1F3 offset (outb 0x1F2 1 (s\<lparr>bstat := vs\<rparr>))))))"
  have t: "readies t = readies s - 1" "bdisk t = bdisk s" "bmem t = bmem s" using w(2) by (simp_all add: t_def)
  from waitdisk_run [of t] t(1) assms obtain ws where w2: "waitdisk t = Some (t\<lparr>bstat := ws\<rparr>)" "readies (t\<lparr>bstat := ws\<rparr>) = readies s - 2" by auto
  have "ata_lba (t\<lparr>bstat := ws\<rparr>) = ide_lba (unat offset)"
    by (simp add: ata_lba_def t_def ide_lba_def ucast_parts)
  then have l: "ata_lba (t\<lparr>bstat := ws\<rparr>) = unat offset" using assms(2) by (simp add: ide_lba_eq)
  have "ata_reads (SECTSIZE div 4) (t\<lparr>bstat := ws\<rparr>)" using ata_select [OF assms(2)] by (simp add: ata_reads_def t_def SECTSIZE_def)
  then have i: "insl dst (SECTSIZE div 4) (t\<lparr>bstat := ws\<rparr>) = Some (t\<lparr>bstat := ws, bport := (bport t)(0x1F7 := 0),
      bmem := set_bytes (unat dst) (get_bytes (bdisk s) (unat offset * SECTSIZE) SECTSIZE) (bmem s)\<rparr>)"
    using l by (simp add: insl_def t SECTSIZE_def)
  moreover have "readsect dst offset s = insl dst (SECTSIZE div 4) (t\<lparr>bstat := ws\<rparr>)"
    using w2(1) by (simp add: readsect_def w(1) t_def Let_def)
  ultimately show ?thesis using w2(2) t by (simp add: readies_def)
qed

section \<open>Segments\<close>

text \<open>The sectors a segment touches, and the part of the disk they are read from.\<close>

definition seg_lo :: "nat \<Rightarrow> nat" where "seg_lo pa = pa div 512 * 512"
definition seg_hi :: "nat \<Rightarrow> nat \<Rightarrow> nat" where "seg_hi pa n = (pa + n + 511) div 512 * 512"

lemma readseg_loop_run:
  assumes "unat end_pa = e" "e + 512 \<le> 2 ^ 32" "n = (e + 511) div 512 - p" "unat pa = p * 512" "unat offset = o'" "o' + n \<le> 2 ^ 28" "2 * n \<le> readies s"
  shows "\<exists>s'. readseg_loop pa end_pa offset s = Some s' \<and> readies s' = readies s - 2 * n \<and> bdisk s' = bdisk s
    \<and> (\<forall>a. bmem s' a = (if p * 512 \<le> a \<and> a < (p + n) * 512 then bdisk s (o' * 512 + (a - p * 512)) else bmem s a))"
  using assms(3-)
proof (induction n arbitrary: p pa offset o' s)
  case 0
  then have "\<not> pa < end_pa" using assms(1) by (simp add: word_less_nat_alt)
  then show ?case by (subst readseg_loop.simps) auto
next
  case (Suc n)
  have pe: "p * 512 < e" "n = (e + 511) div 512 - Suc p" using Suc.prems(1) by linarith+
  then have lt: "pa < end_pa" using assms(1) Suc.prems(2) by (simp add: word_less_nat_alt)
  have "unat offset < 2 ^ 28" using Suc.prems(3,4) by simp
  from readsect_run [OF _ this, of s pa] Suc.prems(5) obtain s1 where
    s1: "readsect pa offset s = Some s1" "readies s1 = readies s - 2" "bdisk s1 = bdisk s"
      "bmem s1 = set_bytes (p * 512) (get_bytes (bdisk s) (o' * 512) 512) (bmem s)"
    using Suc.prems(2-4) by (auto simp: SECTSIZE_def)
  have "unat (pa + of_nat SECTSIZE) = Suc p * 512" using Suc.prems(2) pe(1) assms(2) by (simp add: SECTSIZE_def unat_word_ariths)
  moreover have "unat (offset + 1) = Suc o'" using Suc.prems(3,4) by (simp add: unat_word_ariths)
  moreover have "Suc o' + n \<le> 2 ^ 28" "2 * n \<le> readies s1" using Suc.prems(4,5) s1(2) by simp_all
  ultimately obtain s2 where s2: "readseg_loop (pa + of_nat SECTSIZE) end_pa (offset + 1) s1 = Some s2" "readies s2 = readies s1 - 2 * n" "bdisk s2 = bdisk s1"
    "\<forall>a. bmem s2 a = (if Suc p * 512 \<le> a \<and> a < (Suc p + n) * 512 then bdisk s1 (Suc o' * 512 + (a - Suc p * 512)) else bmem s1 a)"
    using Suc.IH [OF pe(2)] by blast
  have "bmem s2 a = (if p * 512 \<le> a \<and> a < (p + Suc n) * 512 then bdisk s (o' * 512 + (a - p * 512)) else bmem s a)" for a
    using s2(4) by (auto simp: s1(3,4) set_bytes_apply)
  moreover have "readseg_loop pa end_pa offset s = Some s2"
    by (subst readseg_loop.simps) (use lt s1(1) s2(1) in simp)
  ultimately show ?case using s2(2,3) s1(2,3) by (intro exI [of _ s2]) simp
qed

lemma unat_sector: "unat (pa AND NOT (of_nat SECTSIZE - 1) :: u32) = seg_lo (unat pa)"
proof -
  have m: "(of_nat SECTSIZE - 1 :: u32) = mask 9" by (simp add: SECTSIZE_def mask_eq_exp_minus_1)
  have "push_bit 9 (drop_bit 9 pa) = pa AND NOT (mask 9)" by (rule bit_word_eqI) (auto simp: bit_simps)
  then have e: "pa AND NOT (mask 9) = pa - take_bit 9 pa" using bits_ident [of 9 pa] by (metis add_diff_cancel_right')
  have t: "unat (take_bit 9 pa) = unat pa mod 512" by (simp add: unsigned_take_bit_eq take_bit_eq_mod unat_mod)
  then have "take_bit 9 pa \<le> pa" by (simp add: word_le_nat_alt)
  then show ?thesis unfolding m e by (simp add: unat_sub t seg_lo_def minus_mod_eq_div_mult)
qed

definition seg_sectors :: "nat \<Rightarrow> nat \<Rightarrow> nat" where "seg_sectors pa n = (pa + n + 511) div 512 - pa div 512"

lemma sector_shift: "x = p * 512 + r \<Longrightarrow> y = q * 512 + r \<Longrightarrow> p * 512 \<le> a \<Longrightarrow> (q + 1) * 512 + (a - p * 512) = 512 + y + a - x" for x :: nat
  by simp

lemma readseg_run:
  assumes pa: "unat pa + unat count + 512 \<le> 2 ^ 32" and al: "unat pa mod 512 = unat offset mod 512"
    and r: "2 * seg_sectors (unat pa) (unat count) \<le> readies s"
  shows "\<exists>s'. readseg pa count offset s = Some s' \<and> readies s' = readies s - 2 * seg_sectors (unat pa) (unat count) \<and> bdisk s' = bdisk s
    \<and> (\<forall>a. bmem s' a = (if seg_lo (unat pa) \<le> a \<and> a < seg_hi (unat pa) (unat count) then bdisk s (512 + unat offset + a - unat pa) else bmem s a))"
proof -
  let ?n = "seg_sectors (unat pa) (unat count)" and ?p = "unat pa div 512"
  have e: "unat (pa + count) = unat pa + unat count" using pa by (simp add: unat_word_ariths)
  have "unat offset < 2 ^ 32" using unat_u32_bound [of offset] by simp
  then have "unat offset div 512 < 2 ^ 23" by (simp add: less_mult_imp_div_less)
  then have o: "unat (offset div of_nat SECTSIZE + 1) = unat offset div 512 + 1" by (simp add: SECTSIZE_def unat_word_ariths unat_div)
  have "?n \<le> 2 ^ 24" using pa by (simp add: seg_sectors_def)
  then have b: "unat offset div 512 + 1 + ?n \<le> 2 ^ 28" using \<open>unat offset div 512 < 2 ^ 23\<close> by simp
  from readseg_loop_run [where s = s, OF e pa seg_sectors_def unat_sector [unfolded seg_lo_def] o b r] obtain s' where
    s': "readseg pa count offset s = Some s'" "readies s' = readies s - 2 * ?n" "bdisk s' = bdisk s"
      "\<forall>a. bmem s' a = (if ?p * 512 \<le> a \<and> a < (?p + ?n) * 512 then bdisk s ((unat offset div 512 + 1) * 512 + (a - ?p * 512)) else bmem s a)"
    unfolding readseg_def by blast
  have "(?p + ?n) * 512 = seg_hi (unat pa) (unat count)" unfolding seg_hi_def seg_sectors_def
    by (simp add: div_le_mono)
  moreover have "(unat offset div 512 + 1) * 512 + (a - ?p * 512) = 512 + unat offset + a - unat pa" if "?p * 512 \<le> a" for a
    using that al by (intro sector_shift [where r = "unat pa mod 512"]) (metis div_mult_mod_eq, metis div_mult_mod_eq, simp)
  ultimately show ?thesis using s' by (intro exI [of _ s']) (simp add: seg_lo_def)
qed

section \<open>The kernel\<close>

text \<open>
  The kernel image starts at the second sector.  Its program headers lie in the first page; every segment can be
  read by sectors and lies clear of the page the header is read to; and where a later segment, rounded to
  sectors, reaches into an earlier one, both come from the same stretch of the image.
\<close>

definition kimage :: "bytemem \<Rightarrow> bytemem" where "kimage disk i = disk (512 + i)"

definition ph_at :: "bytemem \<Rightarrow> nat \<Rightarrow> nat" where "ph_at b i = unat (e_phoff b) + SIZEOF_PROGHDR * i"
definition ph_pa :: "bytemem \<Rightarrow> nat \<Rightarrow> nat" where "ph_pa b i = unat (p_pa b (ph_at b i))"
definition ph_len :: "bytemem \<Rightarrow> nat \<Rightarrow> nat" where "ph_len b i = unat (p_memsz b (ph_at b i))"
definition ph_off :: "bytemem \<Rightarrow> nat \<Rightarrow> nat" where "ph_off b i = unat (p_offset b (ph_at b i))"

definition kernel_ok :: "bytemem \<Rightarrow> bool" where
  "kernel_ok b \<longleftrightarrow> e_magic b = ELF_MAGIC \<and> unat (e_phoff b) + SIZEOF_PROGHDR * unat (e_phnum b) \<le> 4096
     \<and> (\<forall>i<unat (e_phnum b). ph_pa b i mod 512 = ph_off b i mod 512 \<and> ph_pa b i + ph_len b i + 512 \<le> 2 ^ 32
          \<and> (0x11000 \<le> seg_lo (ph_pa b i) \<or> seg_hi (ph_pa b i) (ph_len b i) \<le> 0x10000))
     \<and> (\<forall>j<unat (e_phnum b). \<forall>i<j. \<forall>a. ph_pa b i \<le> a \<and> a < ph_pa b i + ph_len b i
          \<and> seg_lo (ph_pa b j) \<le> a \<and> a < seg_hi (ph_pa b j) (ph_len b j) \<longrightarrow> ph_off b i + ph_pa b j = ph_off b j + ph_pa b i)"

definition loaded :: "bytemem \<Rightarrow> nat \<Rightarrow> bytemem \<Rightarrow> bool" where
  "loaded b i m \<longleftrightarrow> (\<forall>j<ph_len b i. m (ph_pa b i + j) = b (ph_off b i + j))"

definition hdr_in :: "bytemem \<Rightarrow> bytemem \<Rightarrow> bool" where
  "hdr_in b m \<longleftrightarrow> (\<forall>i<4096. m (0x10000 + i) = b i)"

lemma hdr_in_get:
  assumes "hdr_in b m"
  shows "x + 4 \<le> 4096 \<Longrightarrow> get32 m (0x10000 + x) = get32 b x" "x + 2 \<le> 4096 \<Longrightarrow> get16 m (0x10000 + x) = get16 b x"
proof -
  let ?m = "\<lambda>i. m (0x10000 + i)"
  have "get32 m (0x10000 + x) = get32 ?m x" "get16 m (0x10000 + x) = get16 ?m x" by (simp_all add: get32_def get16_def)
  moreover have "?m i = b i" if "i < 4096" for i using assms that by (simp add: hdr_in_def)
  from this [of "Suc x"] this have "x + 2 \<le> 4096 \<Longrightarrow> get16 ?m x = get16 b x" "x + 4 \<le> 4096 \<Longrightarrow> get32 ?m x = get32 b x"
    by (auto intro!: get32_cong get16_cong)
  ultimately show "x + 4 \<le> 4096 \<Longrightarrow> get32 m (0x10000 + x) = get32 b x" "x + 2 \<le> 4096 \<Longrightarrow> get16 m (0x10000 + x) = get16 b x"
    by simp_all
qed

lemma header_fields:
  assumes "kernel_ok b" "hdr_in b m" "i < unat (e_phnum b)"
  shows "unat (p_pa m (0x10000 + ph_at b i)) = ph_pa b i" "unat (p_memsz m (0x10000 + ph_at b i)) = ph_len b i"
    "unat (p_offset m (0x10000 + ph_at b i)) = ph_off b i"
proof -
  have "SIZEOF_PROGHDR * Suc i \<le> SIZEOF_PROGHDR * unat (e_phnum b)" using assms(3) by (intro mult_le_mono2) simp
  then have l: "ph_at b i + 32 \<le> 4096" using assms(1) by (simp add: kernel_ok_def ph_at_def SIZEOF_PROGHDR_def)
  show "unat (p_pa m (0x10000 + ph_at b i)) = ph_pa b i" "unat (p_memsz m (0x10000 + ph_at b i)) = ph_len b i"
    "unat (p_offset m (0x10000 + ph_at b i)) = ph_off b i"
    using hdr_in_get(1) [OF assms(2), of "ph_at b i + 12"] hdr_in_get(1) [OF assms(2), of "ph_at b i + 20"]
      hdr_in_get(1) [OF assms(2), of "ph_at b i + 4"] l
    by (simp_all add: p_pa_def p_memsz_def p_offset_def ph_pa_def ph_len_def ph_off_def add.commute add.left_commute)
qed

definition todo_sectors :: "bytemem \<Rightarrow> nat \<Rightarrow> nat \<Rightarrow> nat" where
  "todo_sectors b i n = sum_list (map (\<lambda>j. seg_sectors (ph_pa b j) (ph_len b j)) [i..<i + n])"

lemma load_headers_run:
  assumes K: "kernel_ok b" and d: "b = kimage disk"
  shows "i + n = unat (e_phnum b) \<Longrightarrow> unat ph = 0x10000 + ph_at b i \<Longrightarrow> unat eph = 0x10000 + ph_at b (i + n) \<Longrightarrow>
    bdisk s = disk \<Longrightarrow> hdr_in b (bmem s) \<Longrightarrow> 2 * todo_sectors b i n \<le> readies s \<Longrightarrow> \<forall>l<i. loaded b l (bmem s) \<Longrightarrow>
    \<exists>s'. load_headers n ph eph s = Some s' \<and> hdr_in b (bmem s') \<and> (\<forall>l<i + n. loaded b l (bmem s'))"
proof (induction n arbitrary: i ph s)
  case 0
  then show ?case by simp
next
  case (Suc n)
  let ?pa = "ph_pa b i" and ?n = "ph_len b i" and ?off = "ph_off b i"
  have i: "i < unat (e_phnum b)" using Suc.prems(1) by simp
  have td: "todo_sectors b i (Suc n) = seg_sectors ?pa ?n + todo_sectors b (Suc i) n"
    using upt_conv_Cons [of i "i + Suc n"] by (simp add: todo_sectors_def)
  note f = header_fields [OF K Suc.prems(5) i, folded Suc.prems(2)]
  have k: "?pa mod 512 = ?off mod 512" "?pa + ?n + 512 \<le> 2 ^ 32" "0x11000 \<le> seg_lo ?pa \<or> seg_hi ?pa ?n \<le> 0x10000"
    using K i by (simp_all add: kernel_ok_def)
  from readseg_run [of "p_pa (bmem s) (unat ph)" "p_memsz (bmem s) (unat ph)" "p_offset (bmem s) (unat ph)" s, unfolded f] k(1,2) Suc.prems(6) td
  obtain s1 where s1: "readseg (p_pa (bmem s) (unat ph)) (p_memsz (bmem s) (unat ph)) (p_offset (bmem s) (unat ph)) s = Some s1"
      "readies s1 = readies s - 2 * seg_sectors ?pa ?n" "bdisk s1 = disk"
      "\<forall>a. bmem s1 a = (if seg_lo ?pa \<le> a \<and> a < seg_hi ?pa ?n then disk (512 + ?off + a - ?pa) else bmem s a)"
    using Suc.prems(4) by auto
  have h: "hdr_in b (bmem s1)" using Suc.prems(5) k(3) by (auto simp: hdr_in_def s1(4))
  have "loaded b i (bmem s1)"
  proof -
    have "seg_lo ?pa \<le> ?pa + j \<and> ?pa + j < seg_hi ?pa ?n" if "j < ?n" for j
      using that div_mult_mod_eq [of ?pa 512] div_mult_mod_eq [of "?pa + ?n + 511" 512] mod_less_divisor [of 512 "?pa + ?n + 511"]
      unfolding seg_lo_def seg_hi_def by linarith
    then show ?thesis by (simp add: loaded_def s1(4) d kimage_def add.assoc)
  qed
  moreover have "loaded b l (bmem s1)" if "l < i" for l
  proof -
    have "bmem s1 (ph_pa b l + j) = b (ph_off b l + j)" if "j < ph_len b l" for j
    proof (cases "seg_lo ?pa \<le> ph_pa b l + j \<and> ph_pa b l + j < seg_hi ?pa ?n")
      case True
      then have "ph_off b l + ?pa = ?off + ph_pa b l" using K i \<open>l < i\<close> that unfolding kernel_ok_def by (metis le_add1 nat_add_left_cancel_less)
      then have "512 + ?off + (ph_pa b l + j) - ?pa = 512 + (ph_off b l + j)" by simp
      then show ?thesis using True by (simp add: s1(4) d kimage_def)
    next
      case False
      then show ?thesis using Suc.prems(7) \<open>l < i\<close> that by (auto simp: s1(4) loaded_def)
    qed
    then show ?thesis by (simp add: loaded_def)
  qed
  ultimately have l: "\<forall>l<Suc i. loaded b l (bmem s1)" by (simp add: less_Suc_eq)
  have ph: "ph_at b (Suc i) = ph_at b i + 32" "ph_at b (i + Suc n) = ph_at b i + 32 * Suc n" "ph_at b (i + Suc n) \<le> 4096"
    using K Suc.prems(1) by (simp_all add: ph_at_def SIZEOF_PROGHDR_def kernel_ok_def)
  have "ph < eph" unfolding word_less_nat_alt Suc.prems(2,3) ph(2) by simp
  moreover have "unat (ph + of_nat SIZEOF_PROGHDR) = 0x10000 + ph_at b (Suc i)"
    using Suc.prems(2) ph by (simp add: SIZEOF_PROGHDR_def unat_word_ariths)
  moreover from this have "\<exists>s'. load_headers n (ph + of_nat SIZEOF_PROGHDR) eph s1 = Some s' \<and> hdr_in b (bmem s') \<and> (\<forall>l<Suc i + n. loaded b l (bmem s'))"
    using Suc.prems(1,3,6) td s1(2,3) h l by (intro Suc.IH) simp_all
  ultimately show ?case using s1(1) by auto
qed

text \<open>
  C10: The boot loader loads the kernel.  For a kernel image on the disk with the ELF magic number and
  segments that can be read by sectors, \<open>bootmain\<close> ends, whatever the memory held before, with the jump to the
  entry point of the image, and every segment is in memory at its physical address with the bytes of the image.
\<close>

theorem bootmain_loads:
  assumes K: "kernel_ok (kimage (bdisk s))" and r: "2 * (8 + todo_sectors (kimage (bdisk s)) 0 (unat (e_phnum (kimage (bdisk s))))) \<le> readies s"
  shows "\<exists>s'. bootmain s = Some (Jump (e_entry (kimage (bdisk s))) s') \<and> (\<forall>i<unat (e_phnum (kimage (bdisk s))). loaded (kimage (bdisk s)) i (bmem s'))"
proof -
  let ?b = "kimage (bdisk s)" and ?c = "of_nat SECTSIZE * 8 :: u32"
  have c: "unat ELFHDR = 0x10000" "unat ?c = 4096" by (simp_all add: ELFHDR_def SECTSIZE_def)
  have "seg_sectors (unat ELFHDR) (unat ?c) = 8" "seg_lo (unat ELFHDR) = 0x10000" "seg_hi (unat ELFHDR) (unat ?c) = 0x11000"
    unfolding c by (simp_all add: seg_sectors_def seg_lo_def seg_hi_def)
  with readseg_run [of ELFHDR ?c 0 s] r obtain s1 where s1: "readseg ELFHDR ?c 0 s = Some s1" "readies s1 = readies s - 16" "bdisk s1 = bdisk s"
    "\<forall>a. bmem s1 a = (if 0x10000 \<le> a \<and> a < 0x11000 then bdisk s (512 + a - 0x10000) else bmem s a)" using c by auto
  have h: "hdr_in ?b (bmem s1)" by (simp add: hdr_in_def s1(4) kimage_def)
  have e: "e_magic (\<lambda>i. m (unat ELFHDR + i)) = e_magic ?b" "e_phoff (\<lambda>i. m (unat ELFHDR + i)) = e_phoff ?b"
    "e_phnum (\<lambda>i. m (unat ELFHDR + i)) = e_phnum ?b" "e_entry (\<lambda>i. m (unat ELFHDR + i)) = e_entry ?b" if "hdr_in ?b m" for m
    using that hdr_in_get [OF that, of 0] hdr_in_get [OF that, of 28] hdr_in_get [OF that, of 44] hdr_in_get [OF that, of 24] c(1)
    by (simp_all add: e_magic_def e_phoff_def e_phnum_def e_entry_def get32_def get16_def)
  let ?ph = "ELFHDR + e_phoff ?b" and ?n = "unat (e_phnum ?b)"
  let ?eph = "?ph + of_nat SIZEOF_PROGHDR * ucast (e_phnum ?b)"
  have b: "unat (e_phoff ?b) + 32 * ?n \<le> 4096" using K by (simp add: kernel_ok_def SIZEOF_PROGHDR_def)
  then have p: "unat ?ph = 0x10000 + ph_at ?b 0" using c(1) by (simp add: unat_word_ariths ph_at_def)
  moreover have "unat ?eph = 0x10000 + ph_at ?b (0 + ?n)"
    using p b by (simp add: unat_word_ariths ph_at_def SIZEOF_PROGHDR_def)
  ultimately have "\<exists>s'. load_headers ?n ?ph ?eph s1 = Some s' \<and> hdr_in ?b (bmem s') \<and> (\<forall>l<0 + ?n. loaded ?b l (bmem s'))"
    using s1(2,3) h r by (intro load_headers_run [OF K]) simp_all
  then obtain s2 where s2: "load_headers ?n ?ph ?eph s1 = Some s2" "hdr_in ?b (bmem s2)" "\<forall>l<?n. loaded ?b l (bmem s2)" by auto
  have "e_magic ?b = ELF_MAGIC" using K by (simp add: kernel_ok_def)
  then have "bootmain s = Some (Jump (e_entry ?b) s2)"
    using s1(1) s2(1) e [OF h] e [OF s2(2)] by (simp add: bootmain_def Let_def)
  then show ?thesis using s2(3) by blast
qed

text \<open>A disk with a kernel of one segment of three bytes at \<open>0x100000\<close>.\<close>

definition boot_disk :: bytemem where
  "boot_disk = set32 512 ELF_MAGIC (set32 536 0xF010000C (set32 540 52 (set16 556 1
     (set32 568 4096 (set32 576 0x100000 (set32 584 3 (set_bytes 4608 [1, 2, 3] (\<lambda>_. 0))))))))"

definition boot_start :: bootm where
  "boot_start = \<lparr>bmem = (\<lambda>_. 0xFF), bdisk = boot_disk, bstat = concat (replicate 9 [0x80, 0x40, 0x50]), bport = (\<lambda>_. 0)\<rparr>"

lemma boot_image:
  "e_magic (kimage boot_disk) = ELF_MAGIC" "e_phoff (kimage boot_disk) = 52" "e_phnum (kimage boot_disk) = 1" "e_entry (kimage boot_disk) = 0xF010000C"
  "ph_at (kimage boot_disk) 0 = 52" "ph_pa (kimage boot_disk) 0 = 0x100000" "ph_len (kimage boot_disk) 0 = 3" "ph_off (kimage boot_disk) 0 = 4096"
proof -
  have g: "get32 (kimage m) x = get32 m (512 + x)" "get16 (kimage m) x = get16 m (512 + x)" for m x by (simp_all add: get32_def get16_def kimage_def)
  show e: "e_magic (kimage boot_disk) = ELF_MAGIC" "e_phoff (kimage boot_disk) = 52" "e_phnum (kimage boot_disk) = 1" "e_entry (kimage boot_disk) = 0xF010000C"
    by (simp_all add: e_magic_def e_phoff_def e_phnum_def e_entry_def g boot_disk_def mem_simps)
  show p: "ph_at (kimage boot_disk) 0 = 52" by (simp add: ph_at_def e)
  show "ph_pa (kimage boot_disk) 0 = 0x100000" "ph_len (kimage boot_disk) 0 = 3" "ph_off (kimage boot_disk) 0 = 4096"
    unfolding ph_pa_def ph_len_def ph_off_def p by (simp_all add: p_pa_def p_memsz_def p_offset_def g boot_disk_def mem_simps)
qed

theorem bootmain_loads_witness:
  "\<exists>s'. bootmain boot_start = Some (Jump 0xF010000C s') \<and> bmem s' 0x100000 = 1 \<and> bmem s' 0x100002 = 3"
proof -
  let ?b = "kimage boot_disk"
  have d: "bdisk boot_start = boot_disk" by (simp add: boot_start_def)
  have k: "kernel_ok ?b" by (simp add: kernel_ok_def boot_image SIZEOF_PROGHDR_def seg_lo_def seg_hi_def)
  have "length (filter disk_ready (concat (replicate n vs))) = n * length (filter disk_ready vs)" for n vs by (induction n) simp_all
  then have "readies boot_start = 18" by (simp add: readies_def boot_start_def disk_ready_def)
  moreover have "todo_sectors ?b 0 1 = 1" by (simp add: todo_sectors_def boot_image seg_sectors_def)
  ultimately have r: "2 * (8 + todo_sectors ?b 0 (unat (e_phnum ?b))) \<le> readies boot_start" by (simp add: boot_image(3))
  have "\<exists>s'. bootmain boot_start = Some (Jump (e_entry ?b) s') \<and> (\<forall>i<unat (e_phnum ?b). loaded ?b i (bmem s'))"
    using bootmain_loads [of boot_start, unfolded d, OF k r] .
  then obtain s' where s': "bootmain boot_start = Some (Jump 0xF010000C s')" "\<forall>j<3. bmem s' (0x100000 + j) = ?b (4096 + j)"
    by (auto simp: boot_image loaded_def)
  have "?b 4096 = 1" "?b 4098 = 3" by (simp_all add: kimage_def boot_disk_def set32_other set16_other)
  then show ?thesis using s'(1) s'(2) [rule_format, of 0] s'(2) [rule_format, of 2] by (intro exI [of _ s']) simp
qed

section \<open>The entry page directory\<close>

text \<open>The bytes of a table of words in memory.\<close>

definition words_at :: "bytemem \<Rightarrow> nat \<Rightarrow> u32 list \<Rightarrow> bool" where
  "words_at m a ws \<longleftrightarrow> (\<forall>i<length ws. get32 m (a + 4 * i) = ws ! i)"

lemma entry_flags:
  "page2pa p + PTE_P = page2pa p OR PTE_P" "page2pa p + PTE_P + PTE_W = page2pa p OR PTE_P OR PTE_W"
  "(page2pa p OR PTE_P) AND PTE_P \<noteq> 0" "(page2pa p OR PTE_P) AND PTE_W = 0"
  "(page2pa p OR PTE_P OR PTE_W) AND PTE_P \<noteq> 0" "(page2pa p OR PTE_P OR PTE_W) AND PTE_W \<noteq> 0"
proof -
  have w: "PTE_P = push_bit 0 1" "PTE_W = push_bit 1 1" by (simp_all add: mmu_consts push_bit_eq_mult)
  have b: "bit (page2pa p) n \<Longrightarrow> 12 \<le> n" for n by (auto simp: page2pa_def bit_simps)
  then have z: "\<not> bit (page2pa p) n" if "n < 12" for n using that not_le by blast
  show o: "page2pa p + PTE_P = page2pa p OR PTE_P" unfolding w by (intro disjunctive_add) (auto simp: bit_simps dest: b)
  show "page2pa p + PTE_P + PTE_W = page2pa p OR PTE_P OR PTE_W"
    unfolding o unfolding w by (subst disjunctive_add) (auto simp: bit_simps or.assoc dest: b)
  have "bit ((page2pa p OR PTE_P) AND PTE_P) 0" "bit ((page2pa p OR PTE_P OR PTE_W) AND PTE_P) 0" "bit ((page2pa p OR PTE_P OR PTE_W) AND PTE_W) 1"
    unfolding w by (simp_all add: bit_simps)
  then show "(page2pa p OR PTE_P) AND PTE_P \<noteq> 0" "(page2pa p OR PTE_P OR PTE_W) AND PTE_P \<noteq> 0" "(page2pa p OR PTE_P OR PTE_W) AND PTE_W \<noteq> 0"
    by fastforce+
  show "(page2pa p OR PTE_P) AND PTE_W = 0" unfolding w using z [of 1] by (intro bit_word_eqI) (auto simp: bit_simps)
qed

lemma entry_page:
  assumes "p < 1048576"
  shows "pa2page (page2pa p OR PTE_P) = p" "pa2page (page2pa p OR PTE_P OR PTE_W) = p"
proof -
  have "(0 :: u32) AND NOT 0xFFF = 0" "PTE_W AND NOT 0xFFF = 0" by (simp_all add: mmu_consts)
  note l = PTE_ADDR_low [OF this(1), of p] PTE_ADDR_low [OF this(2), of p]
  show "pa2page (page2pa p OR PTE_P) = p" using unat_PTE_ADDR [of "page2pa p OR PTE_P"] l(1) page2pa_nat [OF assms] by simp
  show "pa2page (page2pa p OR PTE_P OR PTE_W) = p"
    using unat_PTE_ADDR [of "page2pa p OR PTE_W OR PTE_P"] l(2) page2pa_nat [OF assms] by (simp add: or.commute)
qed

lemma entry_pgtable_nth: "i < 1024 \<Longrightarrow> entry_pgtable ! i = page2pa i OR PTE_P OR PTE_W"
  by (simp add: entry_pgtable_def page2pa_def push_bit_eq_mult mult.commute)

lemma entry_pgdir_nth:
  assumes "i < 1024"
  shows "entry_pgdir (KERNBASE + of_nat (p * 4096)) ! i =
    (if i = 0 then page2pa p OR PTE_P else if i = 960 then page2pa p OR PTE_P OR PTE_W else 0)"
proof -
  have "page2pa p = of_nat (p * 4096)" by (simp add: page2pa_def push_bit_eq_mult)
  moreover have "unat (drop_bit 22 KERNBASE) = 960" by (simp add: mmu_consts drop_bit_eq_div unat_div)
  ultimately show ?thesis using assms entry_flags(1,2) [of p] by (simp add: entry_pgdir_def nth_list_update)
qed

text \<open>
  C24: The page directory of the entry code.  Once it is loaded, every address of the first four megabytes can be
  read at its own number, where the loader runs, and read and written \<open>KERNBASE\<close> higher, where the kernel is
  linked; the low addresses are not writable, and every other address is unmapped.
\<close>

theorem entry_pgdir_maps:
  assumes "words_at m dir (entry_pgdir (KERNBASE + of_nat (p * 4096)))" "words_at m (p * 4096) entry_pgtable" "p < 1024"
  shows "translate dir wr va m =
    (if unat va < 4194304 then (if wr then None else Some (unat va))
     else if unat KERNBASE \<le> unat va \<and> unat va < unat KERNBASE + 4194304 then Some (unat va - unat KERNBASE) else None)"
proof -
  let ?i = "vpn va div 1024" and ?j = "vpn va mod 1024"
  have va: "unat va = (?i * 1024 + ?j) * 4096 + unat va mod 4096" unfolding div_mult_mod_eq vpn_def ..
  have "unat va < 4294967296" by simp
  then have i: "?i < 1024" unfolding vpn_def by (simp add: div_mult2_eq [symmetric] less_mult_imp_div_less)
  define pt where "pt = KERNBASE + of_nat (p * 4096)"
  note nth = entry_pgdir_nth [OF i, of p, folded pt_def]
  let ?e = "entry_pgdir pt ! ?i"
  have "length (entry_pgdir pt) = 1024" by (simp add: entry_pgdir_def)
  then have e: "get32 m (pde_addr dir va) = ?e" using assms(1) [folded pt_def] i by (simp add: words_at_def pde_addr_def vpn_indices)
  have "pa2page ?e = p" if "?e \<noteq> 0" using that nth entry_page [of p] assms(3) by (auto split: if_splits)
  then have t: "get32 m (pte_addr ?e va) = page2pa ?j OR PTE_P OR PTE_W" if "?e \<noteq> 0"
    using that assms(2) entry_pgtable_nth [of ?j] by (simp add: addr_ent(2) words_at_def entry_pgtable_def)
  have j: "unat (PTE_ADDR (page2pa ?j OR PTE_P OR PTE_W)) + unat (PGOFF va) = ?j * 4096 + unat va mod 4096"
    by (simp add: unat_PTE_ADDR unat_PGOFF entry_page)
  have kb: "unat KERNBASE = 960 * 4194304" by (simp add: mmu_consts)
  have "(x * 1024 + y) * 4096 = x * 4194304 + y * 4096" for x y :: nat by simp
  with va have x: "unat va = ?i * 4194304 + (?j * 4096 + unat va mod 4096)" by (simp only: add.assoc)
  have "?j < 1024" "unat va mod 4096 < 4096" by simp_all
  then have y: "?j * 4096 + unat va mod 4096 < 4194304" by linarith
  have c: "?i = 0 \<longleftrightarrow> unat va < 4194304" "?i = 960 \<longleftrightarrow> unat KERNBASE \<le> unat va \<and> unat va < unat KERNBASE + 4194304"
    "?i = 0 \<Longrightarrow> ?j * 4096 + unat va mod 4096 = unat va" "?i = 960 \<Longrightarrow> ?j * 4096 + unat va mod 4096 = unat va - unat KERNBASE"
    using x y unfolding kb by linarith+
  show ?thesis
  proof (cases "?e = 0")
    case True
    moreover have "page2pa p OR PTE_P \<noteq> 0" "page2pa p OR PTE_P OR PTE_W \<noteq> 0" using entry_flags(3,5) [of p] zero_and_eq [of PTE_P] by metis+
    ultimately have "?i \<noteq> 0" "?i \<noteq> 960" using nth by (auto split: if_splits)
    then show ?thesis using c(1,2) True e by (simp add: translate_def)
  next
    case False
    then have "?i = 0 \<or> ?i = 960" using nth by (auto split: if_splits)
    then show ?thesis
    proof
      assume i0: "?i = 0"
      then have "unat va < 4194304" "?e = page2pa p OR PTE_P" using c(1) nth by simp_all
      then show ?thesis unfolding translate_def Let_def e t [OF False] j c(3) [OF i0] using entry_flags(3,4) [of p] entry_flags(5) [of ?j] by simp
    next
      assume i1: "?i = 960"
      then have "unat KERNBASE \<le> unat va \<and> unat va < unat KERNBASE + 4194304" "\<not> unat va < 4194304" "?e = page2pa p OR PTE_P OR PTE_W"
        using c(1,2) nth by simp_all
      then show ?thesis unfolding translate_def Let_def e t [OF False] j c(4) [OF i1] using entry_flags(5,6) [of p] entry_flags(5,6) [of ?j] by simp
    qed
  qed
qed

text \<open>The two tables at the second and third page of a memory.\<close>

fun put_words :: "nat \<Rightarrow> u32 list \<Rightarrow> bytemem \<Rightarrow> bytemem" where
  "put_words a [] m = m"
| "put_words a (w # ws) m = set32 a w (put_words (a + 4) ws m)"

lemma put_words_other: "b + 4 \<le> a \<or> a + 4 * length ws \<le> b \<Longrightarrow> get32 (put_words a ws m) b = get32 m b"
  by (induction ws arbitrary: a) (auto simp: get32_set32_other)

lemma words_at_put: "words_at (put_words a ws m) a ws"
  unfolding words_at_def
proof (intro allI impI)
  fix i assume "i < length ws"
  then show "get32 (put_words a ws m) (a + 4 * i) = ws ! i"
  proof (induction ws arbitrary: a i)
    case (Cons w ws)
    then show ?case using Cons.IH [of "i - 1" "a + 4"] by (cases i) (auto simp: get32_set32_same get32_set32_other add.assoc)
  qed simp
qed

theorem entry_pgdir_maps_witness:
  "\<exists>m. translate 4096 False 0x7C00 m = Some 0x7C00 \<and> translate 4096 True 0x7C00 m = None
     \<and> translate 4096 True 0xF0100000 m = Some 0x100000 \<and> translate 4096 False 0x400000 m = None"
proof -
  let ?d = "entry_pgdir (KERNBASE + of_nat (2 * 4096))"
  let ?m = "put_words 4096 ?d (put_words (2 * 4096) entry_pgtable (\<lambda>_. 0))"
  have l: "length ?d = 1024" "length entry_pgtable = 1024" by (simp_all add: entry_pgdir_def entry_pgtable_def)
  have "words_at ?m (2 * 4096) entry_pgtable"
    using words_at_put [of "2 * 4096" entry_pgtable "\<lambda>_. 0"] l put_words_other [of _ 4096 ?d] by (simp add: words_at_def)
  note t = entry_pgdir_maps [OF words_at_put this]
  show ?thesis by (intro exI [of _ ?m] conjI) (subst t, simp, simp add: mmu_consts)+
qed

end
