(* ===== verification/ShLex.thy ===== *)
theory ShLex
  imports CString
begin

text \<open>
  The tokenizer of the shell (\<open>_gettoken\<close> and \<open>gettoken\<close> of \<open>sh.c\<close>), on byte-addressed memory: it overwrites
  white space and symbols in the line by NUL bytes, so that the words it returns are strings.  A loop that
  looks for the end of a word may run out of the line, so the loops are partial functions.

  Main result: the tokens it delivers are those of the specification \<open>tokens\<close>, in order, each word as
  a NUL-terminated string in the line, and then 0 for ever.
\<close>

section \<open>Definitions\<close>

definition WHITESPACE :: "u8 list" where "WHITESPACE = [32, 9, 13, 10]"
definition SYMBOLS :: "u8 list" where "SYMBOLS = [60, 124, 62, 38, 59, 40, 41]"

text \<open>\<open>strchr(lit, c)\<close> for a string literal, as a truth value.\<close>

definition strchr_lit :: "u8 list \<Rightarrow> u8 \<Rightarrow> bool" where
  "strchr_lit lit c \<longleftrightarrow> c \<in> set lit"

partial_function (option) skip_white :: "nat \<Rightarrow> bytemem \<Rightarrow> (nat \<times> bytemem) option" where
  "skip_white s m = (if strchr_lit WHITESPACE (m s) then skip_white (Suc s) (m(s := 0)) else Some (s, m))"

partial_function (option) word_end :: "nat \<Rightarrow> bytemem \<Rightarrow> nat option" where
  "word_end s m = (if m s \<noteq> 0 \<and> \<not> strchr_lit (WHITESPACE @ SYMBOLS) (m s) then word_end (Suc s) m else Some s)"

text \<open>
  The token type, \<open>*p1\<close>, \<open>*p2\<close> and the memory; a null pointer is 0 and leaves the two pointers alone.
\<close>

definition gettoken1 :: "nat \<Rightarrow> nat \<Rightarrow> nat \<Rightarrow> bytemem \<Rightarrow> ((u8 \<times> nat \<times> nat) \<times> bytemem) option" where
  "gettoken1 s p1 p2 m =
     (if s = 0 then Some ((0, p1, p2), m)
      else do {
        (s, m) \<leftarrow> skip_white s m;
        if m s = 0 then Some ((0, 0, 0), m)
        else if strchr_lit SYMBOLS (m s) then Some ((m s, s, Suc s), m(s := 0))
        else do { e \<leftarrow> word_end s m; Some ((119, s, e), m) }
      })"

text \<open>The static variables of \<open>gettoken\<close>, and its two uses.\<close>

record lexst =
  nc :: u8
  np1 :: nat
  np2 :: nat

definition gettoken_init :: "nat \<Rightarrow> lexst \<Rightarrow> bytemem \<Rightarrow> (lexst \<times> bytemem) option" where
  "gettoken_init s l m = do {
     ((c, p1, p2), m) \<leftarrow> gettoken1 s (np1 l) (np2 l) m;
     Some (\<lparr>nc = c, np1 = p1, np2 = p2\<rparr>, m)
   }"

definition gettoken :: "lexst \<Rightarrow> bytemem \<Rightarrow> ((u8 \<times> nat) \<times> lexst \<times> bytemem) option" where
  "gettoken l m = do {
     ((c, p1, p2), m) \<leftarrow> gettoken1 (np2 l) (np1 l) (np2 l) m;
     Some ((nc l, np1 l), \<lparr>nc = c, np1 = p1, np2 = p2\<rparr>, m)
   }"

section \<open>The specification\<close>

definition blank :: "u8 \<Rightarrow> bool" where "blank c \<longleftrightarrow> c \<in> set WHITESPACE"
definition symbol :: "u8 \<Rightarrow> bool" where "symbol c \<longleftrightarrow> c \<in> set SYMBOLS"
definition plain :: "u8 \<Rightarrow> bool" where "plain c \<longleftrightarrow> \<not> blank c \<and> \<not> symbol c"

datatype tok = Sym u8 | Word "u8 list"

function tokens :: "u8 list \<Rightarrow> tok list" where
  "tokens [] = []"
| "tokens (c # cs) =
     (if blank c then tokens cs
      else if symbol c then Sym c # tokens cs
      else Word (c # takeWhile plain cs) # tokens (dropWhile plain cs))"
  by pat_completeness auto
termination
  by (relation "measure length") (auto simp: le_imp_less_Suc length_dropWhile_le)

text \<open>A caller that takes all tokens, as the loop of \<open>runcmd\<close> does.\<close>

partial_function (option) lex_all :: "lexst \<Rightarrow> bytemem \<Rightarrow> ((u8 \<times> nat) list \<times> lexst \<times> bytemem) option" where
  "lex_all l m = do {
     ((c, t), l, m) \<leftarrow> gettoken l m;
     if c = 0 then Some ([], l, m)
     else do { (ts, l, m) \<leftarrow> lex_all l m; Some ((c, t) # ts, l, m) }
   }"

fun tok_at :: "bytemem \<Rightarrow> u8 \<times> nat \<Rightarrow> tok \<Rightarrow> bool" where
  "tok_at m (c, t) (Sym x) = (c = x)"
| "tok_at m (c, t) (Word w) = (c = 119 \<and> str_at m t w)"

section \<open>Lemmas\<close>

lemma strchr_lit_strchr:
  assumes "str_at m a lit" "a \<noteq> 0"
  shows "\<exists>r. strchr m a c = Some r \<and> (r \<noteq> 0) = strchr_lit lit c"
  using strchr_str [OF assms(1), of c] assms(2) by (auto simp: strchr_lit_def)

lemma chars:
  "strchr_lit WHITESPACE c = blank c" "strchr_lit SYMBOLS c = symbol c" "strchr_lit (WHITESPACE @ SYMBOLS) c = (\<not> plain c)"
  "\<not> blank 0" "\<not> symbol 0" "plain 0" "\<not> symbol 119"
  by (auto simp: strchr_lit_def blank_def symbol_def plain_def WHITESPACE_def SYMBOLS_def)

lemma tokens_skip: "tokens cs = tokens (dropWhile blank cs)"
  by (induction cs) auto

lemma str_at_append: "str_at m s (xs @ ys) \<longleftrightarrow> get_bytes m s (length xs) = xs \<and> 0 \<notin> set xs \<and> str_at m (s + length xs) ys"
  by (induction xs arbitrary: s) (auto simp: get_bytes_Suc)

lemma str_at_later:
  assumes "str_at m s cs" "\<And>x. s \<le> x \<Longrightarrow> m' x = m x"
  shows "str_at m' s cs"
proof -
  have "str_at m' s cs = str_at m s cs" by (rule str_at_cong) (rule assms(2), simp)
  then show ?thesis using assms(1) by blast
qed

lemma skip_white_run:
  "str_at m s cs \<Longrightarrow> skip_white s m = Some (s + length (takeWhile blank cs), set_bytes s (replicate (length (takeWhile blank cs)) 0) m)"
proof (induction cs arbitrary: s m)
  case Nil
  then show ?case by (subst skip_white.simps) (simp add: chars)
next
  case (Cons c cs)
  show ?case
  proof (cases "blank c")
    case True
    have "str_at (m(s := 0)) (Suc s) cs" using Cons.prems by (auto intro: str_at_later [of m "Suc s" cs])
    from Cons.IH [OF this] show ?thesis using True Cons.prems by (subst skip_white.simps) (simp add: chars fun_upd_def)
  next
    case False
    then show ?thesis using Cons.prems by (subst skip_white.simps) (simp add: chars)
  qed
qed

lemma word_end_run: "str_at m s cs \<Longrightarrow> word_end s m = Some (s + length (takeWhile plain cs))"
  by (induction cs arbitrary: s) (subst word_end.simps, auto simp: chars)+


text \<open>
  What the static variables hold before a call: the token to return, and the rest of the line to scan.
  A word has no terminator yet; the rest begins with a character that ends it, which the next call
  overwrites.
\<close>

inductive pending :: "lexst \<Rightarrow> bytemem \<Rightarrow> tok list \<Rightarrow> bool" where
  pend_done: "nc l = 0 \<Longrightarrow> np2 l = 0 \<Longrightarrow> pending l m []"
| pend_sym: "nc l = c \<Longrightarrow> c \<noteq> 0 \<Longrightarrow> np2 l \<noteq> 0 \<Longrightarrow> str_at m (np2 l) r \<Longrightarrow> pending l m (Sym c # tokens r)"
| pend_word: "nc l = 119 \<Longrightarrow> np2 l = np1 l + length w \<Longrightarrow> np2 l \<noteq> 0 \<Longrightarrow> get_bytes m (np1 l) (length w) = w \<Longrightarrow> 0 \<notin> set w \<Longrightarrow>
    str_at m (np2 l) r \<Longrightarrow> (r = [] \<or> \<not> plain (hd r)) \<Longrightarrow> pending l m (Word w # tokens r)"

lemma gettoken1_run:
  assumes s: "str_at m s cs" "s \<noteq> 0"
  shows "\<exists>c p1 p2 m'. gettoken1 s q1 q2 m = Some ((c, p1, p2), m') \<and> pending \<lparr>nc = c, np1 = p1, np2 = p2\<rparr> m' (tokens cs) \<and>
    (\<forall>x. x < s \<longrightarrow> m' x = m x) \<and> (p2 = 0 \<or> s < p2) \<and> (cs = [] \<or> \<not> plain (hd cs) \<longrightarrow> m' s = 0)"
proof -
  define k ds where "k = length (takeWhile blank cs)" and "ds = dropWhile blank cs"
  define m' where "m' = set_bytes s (replicate k 0) m"
  have sk: "skip_white s m = Some (s + k, m')" using skip_white_run [OF s(1)] by (simp add: k_def m'_def)
  have "str_at m s (takeWhile blank cs @ ds)" using s(1) by (simp add: ds_def)
  then have "str_at m (s + k) ds" by (simp only: str_at_append k_def)
  then have ds: "str_at m' (s + k) ds" by (rule str_at_later) (simp add: m'_def set_bytes_apply)
  have below: "\<forall>x. x < s \<longrightarrow> m' x = m x" by (simp add: m'_def set_bytes_apply)
  have z: "0 < k \<Longrightarrow> m' s = 0" by (simp add: m'_def set_bytes_apply)
  have k0: "k = 0 \<Longrightarrow> ds = cs" by (cases cs) (auto simp: k_def ds_def split: if_splits)
  have tk: "tokens cs = tokens ds" using tokens_skip [of cs] by (simp add: ds_def)
  show ?thesis
  proof (cases ds)
    case Nil
    then have "gettoken1 s q1 q2 m = Some ((0, 0, 0), m')" using s sk ds by (simp add: gettoken1_def)
    moreover have "m' s = 0" using z k0 ds Nil by (cases "k = 0") auto
    ultimately show ?thesis using Nil below tk by (auto intro: pend_done)
  next
    case (Cons c r)
    then have nb: "\<not> blank c" using hd_dropWhile [of blank cs] by (auto simp: ds_def)
    have c: "m' (s + k) = c" "c \<noteq> 0" "str_at m' (Suc (s + k)) r" using ds Cons by simp_all
    show ?thesis
    proof (cases "symbol c")
      case True
      have "gettoken1 s q1 q2 m = Some ((c, s + k, Suc (s + k)), m'(s + k := 0))"
        using True s sk c by (simp add: gettoken1_def chars)
      moreover have "str_at (m'(s + k := 0)) (Suc (s + k)) r" by (rule str_at_later [OF c(3)]) simp
      moreover have "(m'(s + k := 0)) s = 0" using z by (cases "k = 0") auto
      ultimately show ?thesis using True nb below c tk Cons by (auto intro: pend_sym)
    next
      case False
      then have p: "plain c" using nb by (simp add: plain_def)
      define w where "w = takeWhile plain ds"
      have we: "word_end (s + k) m' = Some (s + k + length w)" using word_end_run [OF ds] by (simp add: w_def)
      have "str_at m' (s + k) (w @ dropWhile plain ds)" using ds by (simp add: w_def)
      note w = this [unfolded str_at_append]
      have w1: "0 < length w" using Cons p by (simp add: w_def)
      have "gettoken1 s q1 q2 m = Some ((119, s + k, s + k + length w), m')"
        using False s sk c we by (simp add: gettoken1_def chars)
      moreover have "tokens cs = Word w # tokens (dropWhile plain ds)"
        using Cons False nb p by (simp add: tk w_def)
      moreover have "pending \<lparr>nc = 119, np1 = s + k, np2 = s + k + length w\<rparr> m' (Word w # tokens (dropWhile plain ds))"
        using w w1 hd_dropWhile [of plain ds] by (intro pend_word) auto
      moreover have "cs = [] \<or> \<not> plain (hd cs) \<longrightarrow> m' s = 0"
        using z k0 Cons p by (cases "k = 0") auto
      ultimately show ?thesis using below w1 by auto
    qed
  qed
qed

lemma gettoken_run:
  assumes "pending l m (t # ts)"
  shows "\<exists>l' m'. gettoken l m = Some ((nc l, np1 l), l', m') \<and> nc l \<noteq> 0 \<and> pending l' m' ts \<and> (\<forall>x. x < np2 l \<longrightarrow> m' x = m x) \<and>
    np2 l \<noteq> 0 \<and> (np2 l' = 0 \<or> np2 l < np2 l') \<and> tok_at m' (nc l, np1 l) t \<and> (case t of Sym c \<Rightarrow> True | Word w \<Rightarrow> np1 l + length w = np2 l)"
  using assms
proof cases
  case (pend_sym c r)
  then show ?thesis using gettoken1_run [of m "np2 l" r "np1 l" "np2 l"] by (auto simp: gettoken_def)
next
  case (pend_word w r)
  obtain c p1 p2 m' where g: "gettoken1 (np2 l) (np1 l) (np2 l) m = Some ((c, p1, p2), m')"
    "pending \<lparr>nc = c, np1 = p1, np2 = p2\<rparr> m' (tokens r)" "\<forall>x. x < np2 l \<longrightarrow> m' x = m x" "p2 = 0 \<or> np2 l < p2" "m' (np2 l) = 0"
    using gettoken1_run [of m "np2 l" r "np1 l" "np2 l"] pend_word by auto
  have "get_bytes m' (np1 l) (length w) = get_bytes m (np1 l) (length w)"
    using g(3) pend_word by (intro get_bytes_cong) simp
  then have "str_at m' (np1 l) w" using str_at_append [of m' "np1 l" w "[]"] pend_word g(5) by simp
  then show ?thesis using g pend_word by (auto simp: gettoken_def)
qed

lemma gettoken_done:
  "nc l = 0 \<Longrightarrow> np2 l = 0 \<Longrightarrow> \<exists>t l'. gettoken l m = Some ((0, t), l', m) \<and> nc l' = 0 \<and> np2 l' = 0"
  by (simp add: gettoken_def gettoken1_def)

lemma lex_all_run:
  "pending l m ts \<Longrightarrow> \<exists>os l' m'. lex_all l m = Some (os, l', m') \<and> list_all2 (tok_at m') os ts \<and> pending l' m' [] \<and>
     (\<forall>x. np2 l = 0 \<or> x < np2 l \<longrightarrow> m' x = m x)"
proof (induction ts arbitrary: l m)
  case Nil
  then have "nc l = 0" "np2 l = 0" by (auto elim: pending.cases)
  from gettoken_done [OF this, of m] show ?case by (subst lex_all.simps) (auto intro: pend_done)
next
  case (Cons t ts)
  obtain l1 m1 where g: "gettoken l m = Some ((nc l, np1 l), l1, m1)" "nc l \<noteq> 0" "pending l1 m1 ts" "\<forall>x. x < np2 l \<longrightarrow> m1 x = m x"
    "np2 l \<noteq> 0" "np2 l1 = 0 \<or> np2 l < np2 l1" "tok_at m1 (nc l, np1 l) t"
    "case t of Sym c \<Rightarrow> True | Word w \<Rightarrow> np1 l + length w = np2 l"
    using gettoken_run [OF Cons.prems] by blast
  obtain os l' m' where r: "lex_all l1 m1 = Some (os, l', m')" "list_all2 (tok_at m') os ts" "pending l' m' []"
    "\<forall>x. np2 l1 = 0 \<or> x < np2 l1 \<longrightarrow> m' x = m1 x" using Cons.IH [OF g(3)] by blast
  have fr: "m' x = m1 x" if "x \<le> np2 l" for x using r(4) g(6) that by auto
  have "tok_at m' (nc l, np1 l) t"
  proof (cases t)
    case (Word w)
    then have "str_at m' (np1 l) w = str_at m1 (np1 l) w" using g(8) by (intro str_at_cong fr) simp
    then show ?thesis using g(7) Word by simp
  qed (use g(7) in simp)
  then show ?case using g r fr by (subst lex_all.simps) auto
qed

lemma lex_line:
  assumes "str_at m s cs" "s \<noteq> 0"
  shows "\<exists>l1 m1 os l2 m2. gettoken_init s l m = Some (l1, m1) \<and> lex_all l1 m1 = Some (os, l2, m2) \<and>
    list_all2 (tok_at m2) os (tokens cs) \<and> (\<exists>t l3. gettoken l2 m2 = Some ((0, t), l3, m2) \<and> nc l3 = 0 \<and> np2 l3 = 0) \<and>
    (\<forall>x. x < s \<longrightarrow> m2 x = m x)"
proof -
  obtain c p1 p2 m1 where g: "gettoken1 s (np1 l) (np2 l) m = Some ((c, p1, p2), m1)"
    "pending \<lparr>nc = c, np1 = p1, np2 = p2\<rparr> m1 (tokens cs)" "\<forall>x. x < s \<longrightarrow> m1 x = m x" "p2 = 0 \<or> s < p2"
    using gettoken1_run [OF assms] by blast
  obtain os l2 m2 where r: "lex_all \<lparr>nc = c, np1 = p1, np2 = p2\<rparr> m1 = Some (os, l2, m2)" "list_all2 (tok_at m2) os (tokens cs)"
    "pending l2 m2 []" "\<forall>x. p2 = 0 \<or> x < p2 \<longrightarrow> m2 x = m1 x" using lex_all_run [OF g(2)] by auto
  have "nc l2 = 0" "np2 l2 = 0" using r(3) by (auto elim: pending.cases)
  note d = gettoken_done [OF this, of m2]
  have "\<forall>x. x < s \<longrightarrow> m2 x = m x" using g(3,4) r(4) by auto
  with g(1) r(1,2) d show ?thesis by (auto simp: gettoken_init_def)
qed

section \<open>Properties\<close>

text \<open>
  C38: the shell's tokenizer is correct: started on a NUL-terminated line it always ends, and the calls that
  follow deliver exactly the tokens of the line, in order, as the specification splits it: a symbol as its
  character, a word as 'w' with a pointer to a NUL-terminated string that holds it once all tokens have been
  taken.  From then on every call returns 0.  Memory below the line is not touched.
\<close>

theorem gettoken_tokens:
  assumes "str_at m s cs" "s \<noteq> 0"
  shows "\<exists>l1 m1 os l2 m2. gettoken_init s l m = Some (l1, m1) \<and> lex_all l1 m1 = Some (os, l2, m2) \<and>
    list_all2 (tok_at m2) os (tokens cs) \<and> (\<exists>t l3. gettoken l2 m2 = Some ((0, t), l3, m2) \<and> nc l3 = 0 \<and> np2 l3 = 0) \<and>
    (\<forall>x. x < s \<longrightarrow> m2 x = m x)"
  by (rule lex_line [OF assms])

text \<open>The line \<open>ls >a|b\<close> at address 64.\<close>

definition sh_line :: "u8 list" where "sh_line = [108, 115, 32, 62, 97, 124, 98]"

theorem gettoken_tokens_witness:
  "tokens sh_line = [Word [108, 115], Sym 62, Word [97], Sym 124, Word [98]] \<and>
   (\<exists>l1 m1 os l2 m2. gettoken_init 64 \<lparr>nc = 0, np1 = 0, np2 = 0\<rparr> (set_bytes 64 sh_line (\<lambda>_. 0)) = Some (l1, m1) \<and>
     lex_all l1 m1 = Some (os, l2, m2) \<and> list_all2 (tok_at m2) os (tokens sh_line))"
proof -
  have "str_at (set_bytes 64 sh_line (\<lambda>_. 0)) 64 sh_line" by (simp add: sh_line_def set_bytes_apply)
  from gettoken_tokens [OF this, of "\<lparr>nc = 0, np1 = 0, np2 = 0\<rparr>"] show ?thesis
    by (auto simp: sh_line_def blank_def symbol_def plain_def WHITESPACE_def SYMBOLS_def)
qed

end
