(* ===== verification/Shell.thy ===== *)
theory Shell
  imports ShLex UStdio
begin

text \<open>
  The commands of the shell (\<open>sh.c\<close>): the current path, \<open>cd\<close> and the other built-in commands, the parsing
  of a command line with its redirections, and the choice of what to run.

  The state is the memory of the shell, its descriptors and file server, and the tokenizer.  Where the linker
  and the stack put the arrays and the string literals is not known to the source: these addresses are fields of
  the state that nothing changes.  \<open>None\<close> stands for a call that does not come back.  A pipe, a program
  to spawn and \<open>pingpong\<close> end the model of \<open>runcmd\<close>, with the arguments it has then.  The variable \<open>debug\<close> is 0.
\<close>

section \<open>State\<close>

record shell =
  smem :: bytemem
  senv :: uenv
  slex :: lexst
  curpath :: nat
  oldpath :: nat
  fullpath :: nat
  iobuf :: nat
  target :: nat
  direntry :: nat
  argv0buf :: nat
  lit :: "u8 list \<Rightarrow> nat"
  flag :: "u8 \<Rightarrow> int"
  st_junk :: stat

definition BUFSIZ :: nat where "BUFSIZ = 1024"
definition MAXARGS :: nat where "MAXARGS = 16"

definition text_of :: "string \<Rightarrow> u8 list" where "text_of s = map of_char s"

definition NL :: string where "NL = [CHR 0x0A]"

abbreviation (input) set_mem :: "bytemem \<Rightarrow> shell \<Rightarrow> shell" where "set_mem m s \<equiv> s\<lparr>smem := m\<rparr>"

text \<open>The string a call receives by its address.\<close>

partial_function (option) str_of :: "bytemem \<Rightarrow> nat \<Rightarrow> u8 list option" where
  "str_of m a = (if m a = 0 then Some [] else do { cs \<leftarrow> str_of m (Suc a); Some (m a # cs) })"

text \<open>\<open>printf\<close> and \<open>cprintf\<close> with a literal format.\<close>

definition sh_printf :: "string \<Rightarrow> u32 list \<Rightarrow> shell \<Rightarrow> shell option" where
  "sh_printf fmt ap s = do { (r, u) \<leftarrow> printf (smem s) (lit s (text_of fmt)) ap (senv s); Some (s\<lparr>senv := u\<rparr>) }"

definition sh_cprintf :: "string \<Rightarrow> u32 list \<Rightarrow> shell \<Rightarrow> shell option" where
  "sh_cprintf fmt ap s = do { (r, u) \<leftarrow> vcprintf_u (smem s) (lit s (text_of fmt)) ap (senv s); Some (s\<lparr>senv := u\<rparr>) }"

section \<open>Calls on files, with the path in memory\<close>

definition sh_open :: "nat \<Rightarrow> u32 \<Rightarrow> shell \<Rightarrow> (int \<times> shell) option" where
  "sh_open path mode s = do {
     p \<leftarrow> str_of (smem s) path;
     (r, u) \<leftarrow> open_fd p mode (senv s);
     Some (r, s\<lparr>senv := u\<rparr>)
   }"

definition sh_close :: "int \<Rightarrow> shell \<Rightarrow> shell option" where
  "sh_close fd s = do { (r, u) \<leftarrow> close fd (senv s); Some (s\<lparr>senv := u\<rparr>) }"

text \<open>The variable \<open>st\<close> of the caller, which keeps what it held when the call fails.\<close>

definition sh_stat :: "nat \<Rightarrow> shell \<Rightarrow> ((int \<times> stat) \<times> shell) option" where
  "sh_stat path s = do {
     p \<leftarrow> str_of (smem s) path;
     ((r, st), u) \<leftarrow> stat_path p (senv s);
     Some ((r, case st of None \<Rightarrow> st_junk s | Some st \<Rightarrow> st), s\<lparr>senv := u\<rparr>)
   }"

definition sh_readn :: "int \<Rightarrow> nat \<Rightarrow> nat \<Rightarrow> shell \<Rightarrow> (int \<times> shell) option" where
  "sh_readn fd a n s = do {
     ((r, bs), u) \<leftarrow> readn fd n (senv s);
     Some (r, s\<lparr>senv := u, smem := set_bytes a bs (smem s)\<rparr>)
   }"

definition sh_write :: "int \<Rightarrow> nat \<Rightarrow> nat \<Rightarrow> shell \<Rightarrow> (int \<times> shell) option" where
  "sh_write fd a n s = do {
     (r, u) \<leftarrow> write_fd fd (get_bytes (smem s) a n) (senv s);
     Some (r, s\<lparr>senv := u\<rparr>)
   }"

section \<open>Paths\<close>

text \<open>The loop that looks for the last slash; \<open>i\<close> is an \<open>int\<close>, and \<open>curpath[-1]\<close> the byte before the array.\<close>

function last_slash :: "bytemem \<Rightarrow> nat \<Rightarrow> int \<Rightarrow> int" where
  "last_slash m base i = (if m (nat (int base + i)) \<noteq> CH_SLASH \<and> 1 < i then last_slash m base (i - 1) else i)"
  by auto
termination
  by (relation "measure (\<lambda>(m, base, i). nat i)") auto

declare last_slash.simps [simp del]

definition update_curpath :: "nat \<Rightarrow> int \<Rightarrow> shell \<Rightarrow> shell option" where
  "update_curpath post sz s = do {
     let m = smem s;
     let cur = curpath s;
     len \<leftarrow> strlen m cur;
     if 0 < sz then do {
       let (m, len) = (if m post \<noteq> CH_SLASH \<and> m (nat (int cur + len - 1)) \<noteq> CH_SLASH
                       then (m(cur + nat len := CH_SLASH), len + 1) else (m, len));
       let m = snd (memcpy (cur + nat len) post (nat sz) m);
       Some (set_mem (m(cur + nat (len + sz) := 0)) s)
     }
     else Some (set_mem (m(nat (int cur + last_slash m cur (len - 1)) := 0)) s)
   }"

definition update_fullpath :: "nat \<Rightarrow> shell \<Rightarrow> shell option" where
  "update_fullpath post s = do {
     len \<leftarrow> strlen (smem s) (curpath s);
     (r, m) \<leftarrow> strcpy (fullpath s) (curpath s) (smem s);
     let (m, len) = (if m (nat (int (curpath s) + len - 1)) \<noteq> CH_SLASH
                     then (m(fullpath s + nat len := CH_SLASH, fullpath s + nat (len + 1) := 0), len + 1) else (m, len));
     (r, m) \<leftarrow> strcpy (fullpath s + nat len) post m;
     Some (set_mem m s)
   }"

section \<open>cd\<close>

partial_function (option) name_end :: "bytemem \<Rightarrow> nat \<Rightarrow> nat \<Rightarrow> nat option" where
  "name_end m path e = (if m (path + e) \<noteq> CH_SLASH \<and> m (path + e) \<noteq> 0 then name_end m path (Suc e) else Some e)"

text \<open>The loop over the entries of the directory: whether the name was found, after the update of the path.\<close>

partial_function (option) cd_search :: "int \<Rightarrow> nat \<Rightarrow> shell \<Rightarrow> (bool \<times> shell) option" where
  "cd_search fd e s = do {
     (n, s) \<leftarrow> sh_readn fd (direntry s) DIRESIZE s;
     if n \<noteq> int DIRESIZE then Some (False, s)
     else do {
       c \<leftarrow> strcmp (smem s) (direntry s) (target s);
       if c \<noteq> 0 then cd_search fd e s
       else do {
         dd \<leftarrow> strcmp (smem s) (direntry s) (lit s (text_of ''..''));
         rt \<leftarrow> strcmp (smem s) (curpath s) (lit s (text_of ''/''));
         if dd = 0 \<and> rt \<noteq> 0 then do { s \<leftarrow> update_curpath (lit s []) (-1) s; Some (True, s) }
         else do {
           d \<leftarrow> strcmp (smem s) (direntry s) (lit s (text_of ''.''));
           if dd \<noteq> 0 \<and> d \<noteq> 0 then do { s \<leftarrow> update_curpath (target s) (int e) s; Some (True, s) }
           else Some (True, s)
         }
       }
     }
   }"

partial_function (option) cd :: "nat \<Rightarrow> shell \<Rightarrow> (int \<times> shell) option" where
  "cd path s =
     (if smem s path = 0 then Some (0, s)
      else do {
        let path = (if smem s path = CH_SLASH then Suc path else path);
        e \<leftarrow> name_end (smem s) path 0;
        if smem s (path + e) = 0 \<and> e = 0 then Some (0, s)
        else do {
          let s = set_mem ((snd (memcpy (target s) path e (smem s)))(target s + e := 0)) s;
          if MAXNAMELEN < e then do {
            s \<leftarrow> update_fullpath (target s) s;
            s \<leftarrow> sh_printf (''cd %s: %e'' @ NL) [of_nat (fullpath s), word_of_int (- E_BAD_NAME)] s;
            Some (-1, s)
          }
          else if smem s (path + e) \<noteq> 0 \<and> e = 0 then do {
            s \<leftarrow> update_fullpath (lit s (text_of ''/'')) s;
            s \<leftarrow> sh_printf (''cd %s: %e'' @ NL) [of_nat (fullpath s), word_of_int (- E_BAD_PATH)] s;
            Some (-1, s)
          }
          else do {
            s \<leftarrow> update_fullpath (target s) s;
            ((r, st), s) \<leftarrow> sh_stat (curpath s) s;
            if r < 0 then do {
              s \<leftarrow> sh_printf (''cd %s: %e'' @ NL) [of_nat (fullpath s), word_of_int r] s;
              Some (r, s)
            }
            else if st_isdir st = 0 then do {
              s \<leftarrow> sh_printf (''cd %s: not a directory'' @ NL) [of_nat (fullpath s)] s;
              Some (r, s)
            }
            else do {
              (fd, s) \<leftarrow> sh_open (curpath s) O_RDONLY s;
              if fd < 0 then do {
                s \<leftarrow> sh_printf (''cd %s: %e'' @ NL) [of_nat path, word_of_int fd] s;
                Some (fd, s)
              }
              else do {
                (found, s) \<leftarrow> cd_search fd e s;
                if found then do {
                  s \<leftarrow> sh_close fd s;
                  cd (path + e) s
                }
                else do {
                  s \<leftarrow> sh_printf (''cd %s: no such directory'' @ NL) [of_nat (fullpath s)] s;
                  s \<leftarrow> sh_close fd s;
                  Some (-1, s)
                }
              }
            }
          }
        }
      })"

definition pwd :: "shell \<Rightarrow> shell option" where
  "pwd s = sh_printf (''    %s'' @ NL) [of_nat (curpath s)] s"

section \<open>The other commands\<close>

text \<open>\<open>panic\<close> is the result \<open>False\<close>.\<close>

partial_function (option) cat :: "int \<Rightarrow> shell \<Rightarrow> (bool \<times> shell) option" where
  "cat f s = do {
     ((n, bs), u) \<leftarrow> read_fd f (of_nat BUFSIZ) (senv s);
     let s = s\<lparr>senv := u, smem := set_bytes (iobuf s) bs (smem s)\<rparr>;
     if 0 < n \<and> n < int BUFSIZ then do {
       (r, s) \<leftarrow> sh_write 1 (iobuf s) (nat n) s;
       if r \<noteq> n then Some (False, s) else cat f s
     }
     else Some (0 \<le> n, s)
   }"

definition abs_path :: "nat \<Rightarrow> shell \<Rightarrow> (nat \<times> shell) option" where
  "abs_path path s =
     (if smem s path \<noteq> CH_SLASH then do { s \<leftarrow> update_fullpath path s; Some (fullpath s, s) } else Some (path, s))"

definition mkdir :: "nat \<Rightarrow> shell \<Rightarrow> shell option" where
  "mkdir path s = do {
     (path, s) \<leftarrow> abs_path path s;
     ((r, st), s) \<leftarrow> sh_stat path s;
     if r < 0 then do {
       s \<leftarrow> (if r \<noteq> - E_NOT_FOUND then sh_printf ''mkdir %s: %e'' [of_nat path, word_of_int r] s else Some s);
       p \<leftarrow> str_of (smem s) path;
       (r, u) \<leftarrow> makedir p (senv s);
       let s = s\<lparr>senv := u\<rparr>;
       if r < 0 then sh_printf ''mkdir %s: %e'' [of_nat path, word_of_int r] s else Some s
     }
     else sh_printf (''mkdir %s: %e'' @ NL) [of_nat path, word_of_int (- E_FILE_EXISTS)] s
   }"

definition rm :: "nat \<Rightarrow> shell \<Rightarrow> shell option" where
  "rm path s = do {
     (path, s) \<leftarrow> abs_path path s;
     ((r, st), s) \<leftarrow> sh_stat path s;
     if r < 0 then sh_printf (''rm %s: %e'' @ NL) [of_nat path, word_of_int r] s
     else if st_isdir st \<noteq> 0 \<and> of_nat (2 * DIRESIZE) < (st_size st :: u32) then
       sh_printf (''rm %s: not an empty directory'' @ NL) [of_nat path] s
     else do {
       p \<leftarrow> str_of (smem s) path;
       (r, u) \<leftarrow> remove p (senv s);
       let s = s\<lparr>senv := u\<rparr>;
       if r < 0 then sh_printf (''rm %s: %e'' @ NL) [of_nat path, word_of_int r] s else Some s
     }
   }"

text \<open>A null prefix is \<open>None\<close>.\<close>

definition ls1 :: "nat option \<Rightarrow> bool \<Rightarrow> u32 \<Rightarrow> nat \<Rightarrow> shell \<Rightarrow> shell option" where
  "ls1 prefix isdir sz name s = do {
     s \<leftarrow> sh_printf ''%6d %c '' [sz, if isdir then 100 else 45] s;
     s \<leftarrow> (case prefix of
             None \<Rightarrow> Some s
           | Some p \<Rightarrow> do {
               len \<leftarrow> strlen (smem s) p;
               let sep = (if smem s p \<noteq> 0 \<and> smem s (nat (int p + len - 1)) \<noteq> CH_SLASH then lit s (text_of ''/'') else lit s []);
               sh_printf ''%s%s'' [of_nat p, of_nat sep] s
             });
     s \<leftarrow> sh_printf ''%s'' [of_nat name] s;
     sh_printf NL [] s
   }"

text \<open>The loop of \<open>lsdir\<close>, with the result of the last \<open>readn\<close> and the variable \<open>st\<close>.\<close>

partial_function (option) lsdir_loop :: "int \<Rightarrow> nat \<Rightarrow> stat \<Rightarrow> shell \<Rightarrow> (int \<times> shell) option" where
  "lsdir_loop fd prefix st s = do {
     (n, s) \<leftarrow> sh_readn fd (direntry s) DIRESIZE s;
     if n \<noteq> int DIRESIZE then Some (n, s)
     else if smem s (direntry s) = 0 then lsdir_loop fd prefix st s
     else do {
       s \<leftarrow> update_fullpath (direntry s) s;
       p \<leftarrow> str_of (smem s) (fullpath s);
       ((r, st'), u) \<leftarrow> stat_path p (senv s);
       let s = s\<lparr>senv := u\<rparr>;
       let st = (case st' of None \<Rightarrow> st | Some st' \<Rightarrow> st');
       s \<leftarrow> (if r < 0 then sh_printf (''ls %s: %e'' @ NL) [of_nat (fullpath s), word_of_int r] s else Some s);
       s \<leftarrow> ls1 (Some prefix) (st_isdir st \<noteq> 0) (st_size st) (direntry s) s;
       lsdir_loop fd prefix st s
     }
   }"

definition lsdir :: "nat \<Rightarrow> nat \<Rightarrow> shell \<Rightarrow> (bool \<times> shell) option" where
  "lsdir path prefix s = do {
     (fd, s) \<leftarrow> sh_open path O_RDONLY s;
     if fd < 0 then do { s \<leftarrow> sh_printf (''ls %s: %e'' @ NL) [of_nat path, word_of_int fd] s; Some (True, s) }
     else do {
       (n, s) \<leftarrow> lsdir_loop fd prefix (st_junk s) s;
       s \<leftarrow> sh_close fd s;
       Some (n = 0, s)
     }
   }"

definition ls :: "nat \<Rightarrow> nat \<Rightarrow> shell \<Rightarrow> (bool \<times> shell) option" where
  "ls path prefix s = do {
     (path, s) \<leftarrow> (if smem s path = 46 then do { s \<leftarrow> update_fullpath path s; Some (fullpath s, s) } else Some (path, s));
     ((r, st), s) \<leftarrow> sh_stat path s;
     s \<leftarrow> (if r < 0 then sh_printf ''ls %s: %e'' [of_nat path, word_of_int r] s else Some s);
     if st_isdir st \<noteq> 0 \<and> flag s 100 = 0 then lsdir path path s
     else do { s \<leftarrow> ls1 None (st_isdir st \<noteq> 0) (st_size st) path s; Some (True, s) }
   }"

definition save_curpath :: "shell \<Rightarrow> (bool \<times> shell) option" where
  "save_curpath s = do {
     (fd, s) \<leftarrow> sh_open (lit s (text_of ''/.global_var'')) (O_WRONLY OR O_CREAT) s;
     if fd < 0 then Some (False, s)
     else do {
       len \<leftarrow> strlen (smem s) (curpath s);
       (r, s) \<leftarrow> sh_write fd (curpath s) (nat len) s;
       s \<leftarrow> sh_close fd s;
       Some (True, s)
     }
   }"

definition load_curpath :: "shell \<Rightarrow> shell option" where
  "load_curpath s = do {
     (fd, s) \<leftarrow> sh_open (lit s (text_of ''/.global_var'')) O_RDONLY s;
     s \<leftarrow> (if fd < 0 then sh_printf ''open %s: %e'' [of_nat (lit s (text_of ''/.global_var'')), word_of_int fd] s else Some s);
     (n, s) \<leftarrow> sh_readn fd (curpath s) MAXPATHLEN s;
     sh_close fd (set_mem ((smem s)(nat (int (curpath s) + n) := 0)) s)
   }"

text \<open>The arguments after the command, with a blank between two of them and a line break at the end.\<close>

fun echo_args :: "nat list \<Rightarrow> bool \<Rightarrow> shell \<Rightarrow> shell option" where
  "echo_args [] first s = Some s"
| "echo_args (a # as) first s = do {
     s \<leftarrow> (if first then Some s else do { (r, s) \<leftarrow> sh_write 1 (lit s (text_of '' '')) 1 s; Some s });
     len \<leftarrow> strlen (smem s) a;
     (r, s) \<leftarrow> sh_write 1 a (nat len) s;
     echo_args as False s
   }"

definition echo :: "nat list \<Rightarrow> shell \<Rightarrow> shell option" where
  "echo args s = do {
     s \<leftarrow> echo_args args True s;
     (r, s) \<leftarrow> sh_write 1 (lit s (text_of NL)) 1 s;
     Some s
   }"

text \<open>The program \<open>echo.c\<close>, with its option.\<close>

definition echo_umain :: "nat list \<Rightarrow> shell \<Rightarrow> shell option" where
  "echo_umain argv s = do {
     n \<leftarrow> (if 1 < length argv then do { c \<leftarrow> strcmp (smem s) (argv ! 1) (lit s (text_of ''-n'')); Some (c = 0) } else Some False);
     s \<leftarrow> echo_args (drop (if n then 2 else 1) argv) True s;
     if n then Some s else do { (r, s) \<leftarrow> sh_write 1 (lit s (text_of NL)) 1 s; Some s }
   }"

section \<open>Running a command\<close>

datatype sh_end = Returned | Exited | Panicked | Runit "nat list" | Piped "nat list" | Spawn "nat list" | Pingpong

text \<open>\<open>exit\<close> closes the descriptors before the environment is destroyed.\<close>

definition sh_exit :: "shell \<Rightarrow> (sh_end \<times> shell) option" where
  "sh_exit s = do { u \<leftarrow> close_all (senv s); Some (Exited, s\<lparr>senv := u\<rparr>) }"

text \<open>The file a redirection names becomes descriptor \<open>onto\<close>; the result is false after an error.\<close>

definition redirect :: "nat \<Rightarrow> u32 \<Rightarrow> int \<Rightarrow> string \<Rightarrow> shell \<Rightarrow> (bool \<times> shell) option" where
  "redirect t mode onto msg s = do {
     s \<leftarrow> update_fullpath t s;
     (fd, s) \<leftarrow> sh_open (fullpath s) mode s;
     if fd < 0 then do { s \<leftarrow> sh_cprintf msg [of_nat t, word_of_int fd] s; Some (False, s) }
     else if fd \<noteq> onto then do {
       (r, u) \<leftarrow> dup fd onto (senv s);
       s \<leftarrow> sh_close fd (s\<lparr>senv := u\<rparr>);
       Some (True, s)
     }
     else Some (True, s)
   }"

definition sh_token :: "shell \<Rightarrow> ((u8 \<times> nat) \<times> shell) option" where
  "sh_token s = do { (t, l, m) \<leftarrow> gettoken (slex s) (smem s); Some (t, s\<lparr>slex := l, smem := m\<rparr>) }"

text \<open>
  The parsing loop: the arguments in reverse, until the line ends (the jump to \<open>runit\<close>), a pipe
  begins, or the shell gives up.
\<close>

partial_function (option) parse_cmd :: "nat list \<Rightarrow> shell \<Rightarrow> (sh_end \<times> shell) option" where
  "parse_cmd argv s = do {
     ((c, t), s) \<leftarrow> sh_token s;
     if c = 119 then
       (if length argv = MAXARGS then do { s \<leftarrow> sh_cprintf (''too many arguments'' @ NL) [] s; sh_exit s }
        else parse_cmd (t # argv) s)
     else if c = 60 then do {
       ((c, t), s) \<leftarrow> sh_token s;
       if c \<noteq> 119 then do { s \<leftarrow> sh_cprintf (''syntax error: < not followed by word'' @ NL) [] s; sh_exit s }
       else do {
         (ok, s) \<leftarrow> redirect t O_RDONLY 0 ''open %s for read: %e'' s;
         if ok then parse_cmd argv s else sh_exit s
       }
     }
     else if c = 62 then do {
       ((c, t), s) \<leftarrow> sh_token s;
       if c \<noteq> 119 then do { s \<leftarrow> sh_cprintf (''syntax error: > not followed by word'' @ NL) [] s; sh_exit s }
       else do {
         (ok, s) \<leftarrow> redirect t (O_WRONLY OR O_CREAT OR O_TRUNC) 1 ''open %s for write: %e'' s;
         if ok then parse_cmd argv s else sh_exit s
       }
     }
     else if c = 124 then Some (Piped (rev argv), s)
     else if c = 0 then Some (Runit (rev argv), s)
     else Some (Panicked, s)
   }"

text \<open>The comparison of \<open>argv[0]\<close> with the name of a command, byte by byte.\<close>

definition is_cmd :: "string \<Rightarrow> nat \<Rightarrow> shell \<Rightarrow> bool" where
  "is_cmd name a s \<longleftrightarrow> get_bytes (smem s) a (Suc (length name)) = text_of name @ [0]"

definition run_cd :: "nat list \<Rightarrow> shell \<Rightarrow> (sh_end \<times> shell) option" where
  "run_cd argv s =
     (if length argv = 1 then do {
        (r, m) \<leftarrow> strcpy (curpath s) (lit s (text_of ''/'')) (smem s);
        Some (Returned, set_mem m s)
      }
      else if length argv = 2 then do {
        (r, m) \<leftarrow> strcpy (oldpath s) (curpath s) (smem s);
        (arg, m) \<leftarrow> (if m (argv ! 1) = CH_SLASH then do {
                      let m = m(curpath s := CH_SLASH, argv0buf s := 0);
                      (r, m) \<leftarrow> strcpy (argv0buf s) (Suc (argv ! 1)) m;
                      Some (argv0buf s, m)
                    } else Some (argv ! 1, m));
        (r, s) \<leftarrow> cd arg (set_mem m s);
        s \<leftarrow> (if r < 0 then do { (q, m) \<leftarrow> strcpy (curpath s) (oldpath s) (smem s); Some (set_mem m s) } else Some s);
        (ok, s) \<leftarrow> save_curpath s;
        Some (if ok then Returned else Panicked, s)
      }
      else do { s \<leftarrow> sh_printf (''usage: cd [path]'' @ NL) [] s; Some (Returned, s) })"

fun run_cat :: "nat list \<Rightarrow> shell \<Rightarrow> (bool \<times> shell) option" where
  "run_cat [] s = Some (True, s)"
| "run_cat (a # as) s = do {
     s \<leftarrow> update_fullpath a s;
     (f, s) \<leftarrow> sh_open (fullpath s) O_RDONLY s;
     if f < 0 then do { s \<leftarrow> sh_printf (''can'' @ [CHR 0x27] @ ''t open %s: %e'' @ NL) [of_nat a, word_of_int f] s; run_cat as s }
     else do {
       (ok, s) \<leftarrow> cat f s;
       if \<not> ok then Some (False, s)
       else do { s \<leftarrow> sh_close f s; run_cat as s }
     }
   }"

text \<open>From the label \<open>runit\<close>, up to the program to spawn or the exchange of messages with a forked child.\<close>

definition runit :: "nat list \<Rightarrow> shell \<Rightarrow> (sh_end \<times> shell) option" where
  "runit argv s =
     (if argv = [] then Some (Returned, s)
      else if is_cmd ''cd'' (argv ! 0) s then run_cd argv s
      else if is_cmd ''pwd'' (argv ! 0) s then do { s \<leftarrow> pwd s; sh_exit s }
      else if is_cmd ''rm'' (argv ! 0) s then do {
        s \<leftarrow> (if length argv \<noteq> 2 then sh_printf (''usage: rm [path]'' @ NL) [] s
              else do { s \<leftarrow> update_fullpath (argv ! 1) s; rm (fullpath s) s });
        sh_exit s
      }
      else if is_cmd ''mkdir'' (argv ! 0) s then do {
        s \<leftarrow> (if length argv \<noteq> 2 then sh_printf (''usage: mkdir [path]'' @ NL) [] s
              else do { s \<leftarrow> update_fullpath (argv ! 1) s; mkdir (fullpath s) s });
        sh_exit s
      }
      else if is_cmd ''echo'' (argv ! 0) s then do { s \<leftarrow> echo (tl argv) s; sh_exit s }
      else if is_cmd ''pingpong'' (argv ! 0) s then Some (Pingpong, s)
      else if is_cmd ''cat'' (argv ! 0) s then do {
        (ok, s) \<leftarrow> (if length argv = 1 then cat 0 s else run_cat (tl argv) s);
        if ok then sh_exit s else Some (Panicked, s)
      }
      else if is_cmd ''ls'' (argv ! 0) s then do {
        (ok, s) \<leftarrow> (if length argv = 1 then ls (curpath s) (curpath s) s else ls (argv ! 1) (argv ! 1) s);
        if ok then sh_exit s else Some (Panicked, s)
      }
      else if smem s (argv ! 0) \<noteq> CH_SLASH then do {
        (r, m) \<leftarrow> strcpy (argv0buf s) (curpath s) (smem s);
        (r, m) \<leftarrow> strcpy (argv0buf s + 1) (argv ! 0) m;
        Some (Spawn (argv0buf s # tl argv), set_mem m s)
      }
      else Some (Spawn argv, s))"

definition runcmd :: "nat \<Rightarrow> shell \<Rightarrow> (sh_end \<times> shell) option" where
  "runcmd line s = do {
     (l, m) \<leftarrow> gettoken_init line (slex s) (smem s);
     (e, s) \<leftarrow> parse_cmd [] (s\<lparr>slex := l, smem := m\<rparr>);
     case e of Runit argv \<Rightarrow> runit argv s | _ \<Rightarrow> Some (e, s)
   }"

end
