(* ===== verification/ShellProps.thy ===== *)
theory ShellProps
  imports Shell
begin

text \<open>
  The current path of the shell as a list of directory names, and a command line from the text to the output.
\<close>

section \<open>The current path\<close>

text \<open>The components of a path, and how they are written.\<close>

definition comp_ok :: "u8 list \<Rightarrow> bool" where
  "comp_ok c \<longleftrightarrow> c \<noteq> [] \<and> 0 \<notin> set c \<and> CH_SLASH \<notin> set c"

definition render :: "u8 list list \<Rightarrow> u8 list" where
  "render cs = (if cs = [] then [CH_SLASH] else concat (map (\<lambda>c. CH_SLASH # c) cs))"

definition at_path :: "shell \<Rightarrow> u8 list list \<Rightarrow> bool" where
  "at_path s cs \<longleftrightarrow> str_at (smem s) (curpath s) (render cs) \<and> (\<forall>c\<in>set cs. comp_ok c)"

lemma render_ok:
  assumes "\<forall>c\<in>set cs. comp_ok c"
  shows "0 \<notin> set (render cs)" "render cs \<noteq> []" "last (render cs) = CH_SLASH \<longleftrightarrow> cs = []"
proof -
  show "0 \<notin> set (render cs)" using assms by (auto simp: render_def comp_ok_def CH_SLASH_def)
  show "render cs \<noteq> []" by (cases cs) (simp_all add: render_def)
  show "last (render cs) = CH_SLASH \<longleftrightarrow> cs = []"
  proof (cases cs rule: rev_cases)
    case (snoc ds c)
    then have "c \<noteq> []" "CH_SLASH \<notin> set c" using assms by (auto simp: comp_ok_def)
    then have "last c \<noteq> CH_SLASH" using last_in_set by metis
    then show ?thesis using snoc \<open>c \<noteq> []\<close> by (simp add: render_def)
  qed (simp add: render_def)
qed

lemma render_snoc: "render (cs @ [c]) = (if cs = [] then [] else render cs) @ CH_SLASH # c"
  by (simp add: render_def)

lemma str_at_last:
  assumes "str_at m a cs" "cs \<noteq> []"
  shows "m (nat (int a + int (length cs) - 1)) = last cs"
proof -
  have "nat (int a + int (length cs) - 1) = a + (length cs - 1)" using assms(2) by (cases cs) auto
  then show ?thesis using str_at_nth [OF assms(1), of "length cs - 1"] assms(2) by (simp add: last_conv_nth)
qed

text \<open>Going down.\<close>

lemma push_run:
  assumes p: "at_path s cs" and c: "comp_ok c" "get_bytes (smem s) post (length c) = c"
    and apart: "post + length c \<le> curpath s \<or> curpath s + length (render (cs @ [c])) < post"
  shows "\<exists>s'. update_curpath post (int (length c)) s = Some s' \<and> at_path s' (cs @ [c]) \<and> curpath s' = curpath s
    \<and> (\<forall>x. x < curpath s \<or> curpath s + length (render (cs @ [c])) < x \<longrightarrow> smem s' x = smem s x)"
proof -
  let ?m = "smem s" and ?b = "curpath s" and ?r = "render cs" and ?r' = "render (cs @ [c])"
  have str: "str_at ?m ?b ?r" and ok: "\<forall>c\<in>set cs. comp_ok c" using p by (simp_all add: at_path_def)
  note R = render_ok [OF ok]
  have ch: "?m post = c ! 0" "c ! 0 \<noteq> CH_SLASH" "0 < length c"
    using c nth_get_bytes [of 0 "length c" ?m post] nth_mem [of 0 c] by (auto simp: comp_ok_def)
  define q where "q = (if cs = [] then ?r else ?r @ [CH_SLASH])"
  have r': "?r' = q @ c" by (simp add: q_def render_snoc) (simp add: render_def)
  define m1 where "m1 = (if cs = [] then ?m else ?m(?b + length ?r := CH_SLASH))"
  have m1: "m1 (?b + i) = q ! i" if "i < length q" for i
    using that str_at_nth [OF str] by (auto simp: q_def m1_def nth_append less_Suc_eq)
  have "get_bytes m1 post (length c) = get_bytes ?m post (length c)"
    using apart r' by (intro get_bytes_cong) (auto simp: m1_def q_def)
  then have post: "get_bytes m1 post (length c) = c" using c(2) by simp
  let ?m2 = "(set_bytes (?b + length q) c m1)(?b + length q + length c := 0)"
  have "update_curpath post (int (length c)) s = Some (s\<lparr>smem := ?m2\<rparr>)"
    using str_at_last [OF str R(2)] R(3) ch post
    by (cases "cs = []") (simp_all add: update_curpath_def strlen_str [OF str] Let_def memcpy_def memmove_copy m1_def q_def nat_add_distrib add.assoc)
  moreover have "str_at ?m2 ?b (q @ c)"
  proof (rule str_atI)
    show "?m2 (?b + i) = (q @ c) ! i" if "i < length (q @ c)" for i
      using that m1 [of i] by (auto simp: set_bytes_apply nth_append)
    show "0 \<notin> set (q @ c)" using R(1) c(1) by (auto simp: q_def comp_ok_def CH_SLASH_def)
  qed simp
  moreover have "?m2 x = ?m x" if "x < ?b \<or> ?b + length (q @ c) < x" for x
    using that by (auto simp: set_bytes_apply m1_def q_def)
  ultimately show ?thesis using ok c(1) r' by (intro exI [of _ "s\<lparr>smem := ?m2\<rparr>"]) (auto simp: at_path_def)
qed

text \<open>Going up.\<close>

lemma last_slash_run:
  assumes "\<And>j. q < j \<Longrightarrow> j \<le> q + k \<Longrightarrow> m (b + j) \<noteq> CH_SLASH" "m (b + q) = CH_SLASH \<or> q \<le> 1" "1 \<le> q"
  shows "last_slash m b (int (q + k)) = int q"
  using assms(1)
proof (induction k)
  case 0
  have "nat (int b + int q) = b + q" by simp
  then show ?case using assms(2,3) by (subst last_slash.simps) auto
next
  case (Suc k)
  have "nat (int b + int (q + Suc k)) = b + (q + Suc k)" by simp
  then have "last_slash m b (int (q + Suc k)) = last_slash m b (int (q + Suc k) - 1)"
    using Suc.prems [of "q + Suc k"] assms(3) by (subst last_slash.simps) auto
  then show ?case using Suc by simp
qed

lemma pop_run:
  assumes p: "at_path s (cs @ [c])"
  shows "\<exists>s'. update_curpath post (-1) s = Some s' \<and> at_path s' cs \<and> curpath s' = curpath s
    \<and> (\<forall>x. x < curpath s \<or> curpath s + length (render (cs @ [c])) < x \<longrightarrow> smem s' x = smem s x)"
proof -
  let ?m = "smem s" and ?b = "curpath s" and ?r = "render (cs @ [c])" and ?k = "length (render cs)"
  have str: "str_at ?m ?b ?r" and ok: "\<forall>c\<in>set cs. comp_ok c" "comp_ok c" using p by (simp_all add: at_path_def)
  note R = render_ok [OF ok(1)]
  have cc: "0 < length c" "CH_SLASH \<notin> set c" using ok(2) by (simp_all add: comp_ok_def)
  have pre: "\<exists>k. length ?r - 1 = ?k + k \<and> ?r ! i = render cs ! i" if "i < ?k" for i
    using that cc by (cases c) (auto simp: render_snoc nth_append render_def split: if_splits)
  obtain k where k: "length ?r - 1 = ?k + k" using pre [of 0] R(2) by auto
  have "?m (?b + j) \<noteq> CH_SLASH" if "?k < j" "j \<le> ?k + k" for j
  proof -
    have j: "j < length ?r" using that k by simp
    then have "?r ! j \<in> set c" using that by (cases "cs = []") (auto simp: render_snoc nth_append render_def nth_Cons' split: if_splits intro!: nth_mem)
    then show ?thesis using cc(2) str_at_nth [OF str j] by metis
  qed
  moreover have "?m (?b + ?k) = CH_SLASH \<or> ?k \<le> 1"
    using str_at_nth [OF str, of ?k] by (auto simp: render_snoc nth_append render_def)
  moreover have "1 \<le> ?k" using R(2) by (cases "render cs") auto
  ultimately have ls: "last_slash ?m ?b (int (?k + k)) = int ?k" by (intro last_slash_run)
  let ?m2 = "?m(?b + ?k := 0)"
  have "0 < length ?r" by (simp add: render_snoc)
  then have "int (length ?r) - 1 = int (?k + k)" unfolding k [symmetric] by linarith
  then have "update_curpath post (-1) s = Some (s\<lparr>smem := ?m2\<rparr>)"
    using ls by (simp add: update_curpath_def strlen_str [OF str] Let_def nat_int_add)
  moreover have "str_at ?m2 ?b (render cs)"
  proof (rule str_atI)
    show "?m2 (?b + i) = render cs ! i" if "i < ?k" for i
      using that pre [OF that] str_at_nth [OF str, of i] k by auto
  qed (use R(1) in simp_all)
  moreover have "?k \<le> length ?r" using k by linarith
  ultimately show ?thesis using ok by (intro exI [of _ "s\<lparr>smem := ?m2\<rparr>"]) (auto simp: at_path_def)
qed

text \<open>
  C39: The current path of the shell is a stack of directory names.  \<open>update_curpath\<close> with a name adds it at the
  end, with a slash before it where one is needed, also at the root; with a negative size it takes the last name
  off, down to the root and no further.  So a step down and a step up lead back to where the shell was.  Memory
  outside the longer of the two paths and its terminator is not touched; that the path fits into the array is up to the caller.
\<close>

theorem update_curpath_stack:
  assumes "at_path s cs" "comp_ok c" "get_bytes (smem s) post (length c) = c"
    "post + length c \<le> curpath s \<or> curpath s + length (render (cs @ [c])) < post"
  shows "\<exists>s1 s2. update_curpath post (int (length c)) s = Some s1 \<and> str_at (smem s1) (curpath s) (render (cs @ [c]))
    \<and> update_curpath any (-1) s1 = Some s2 \<and> str_at (smem s2) (curpath s) (render cs)
    \<and> (\<forall>x. x < curpath s \<or> curpath s + length (render (cs @ [c])) < x \<longrightarrow> smem s2 x = smem s x)"
proof -
  from push_run [OF assms] obtain s1 where s1: "update_curpath post (int (length c)) s = Some s1" "at_path s1 (cs @ [c])" "curpath s1 = curpath s"
    "\<forall>x. x < curpath s \<or> curpath s + length (render (cs @ [c])) < x \<longrightarrow> smem s1 x = smem s x" by blast
  from pop_run [OF s1(2), of any] obtain s2 where s2: "update_curpath any (-1) s1 = Some s2" "at_path s2 cs" "curpath s2 = curpath s1"
    "\<forall>x. x < curpath s1 \<or> curpath s1 + length (render (cs @ [c])) < x \<longrightarrow> smem s2 x = smem s1 x" by blast
  then show ?thesis using s1 s2 by (intro exI [of _ s1] exI [of _ s2]) (simp add: at_path_def)
qed

text \<open>A shell at \<open>/a\<close> with the name \<open>bc\<close> at address 500.\<close>

definition sh_start :: shell where
  "sh_start = \<lparr>smem = set_bytes 600 [47, 97] (set_bytes 500 [98, 99] (\<lambda>_. 0)), senv = img_uenv, slex = \<lparr>nc = 0, np1 = 0, np2 = 0\<rparr>,
     curpath = 600, oldpath = 800, fullpath = 1000, iobuf = 2000, target = 3100, direntry = 3200, argv0buf = 4000,
     lit = (\<lambda>t. if t = [32] then 100 else 102), flag = (\<lambda>_. 0), st_junk = \<lparr>st_name = [], st_size = 0, st_isdir = 0\<rparr>\<rparr>"

theorem update_curpath_stack_witness:
  "\<exists>s1 s2. update_curpath 500 2 sh_start = Some s1 \<and> str_at (smem s1) 600 [47, 97, 47, 98, 99]
     \<and> update_curpath 500 (-1) s1 = Some s2 \<and> str_at (smem s2) 600 [47, 97]"
proof -
  have a: "at_path sh_start [[97]]" "comp_ok [98, 99]" "get_bytes (smem sh_start) 500 (length [98 :: u8, 99]) = [98, 99]"
    "500 + length [98 :: u8, 99] \<le> curpath sh_start \<or> curpath sh_start + length (render ([[97]] @ [[98, 99]])) < 500"
    by (simp_all add: at_path_def sh_start_def render_def comp_ok_def CH_SLASH_def set_bytes_apply get_bytes_def upt_rec)
  from update_curpath_stack [OF a, of 500] obtain s1 s2 where
    s: "update_curpath 500 2 sh_start = Some s1" "str_at (smem s1) 600 (render [[97], [98, 99]])" "update_curpath 500 (-1) s1 = Some s2" "str_at (smem s2) 600 (render [[97]])"
    by (auto simp: sh_start_def)
  then show ?thesis using s by (intro exI [of _ s1] exI [of _ s2]) (simp add: render_def CH_SLASH_def)
qed

section \<open>From the line to the arguments\<close>

lemma parse_words:
  "lex_all (slex s) (smem s) = Some (os, l', m') \<Longrightarrow> \<forall>o'\<in>set os. fst o' = 119 \<Longrightarrow> length acc + length os \<le> MAXARGS \<Longrightarrow>
   parse_cmd acc s = Some (Runit (rev acc @ map snd os), s\<lparr>slex := l', smem := m'\<rparr>)"
proof (induction os arbitrary: s acc)
  case Nil
  then obtain t where "gettoken (slex s) (smem s) = Some ((0, t), l', m')"
    by (subst (asm) lex_all.simps) (auto split: if_splits simp: bind_Some_iff)
  then show ?case by (subst parse_cmd.simps) (simp add: sh_token_def)
next
  case (Cons p os)
  obtain c t where p: "p = (c, t)" by force
  from Cons.prems(1) obtain l1 m1 where g: "gettoken (slex s) (smem s) = Some ((c, t), l1, m1)" "lex_all l1 m1 = Some (os, l', m')"
    by (subst (asm) lex_all.simps) (auto split: if_splits simp: p bind_Some_iff)
  have "parse_cmd (t # acc) (s\<lparr>slex := l1, smem := m1\<rparr>) = Some (Runit (rev (t # acc) @ map snd os), s\<lparr>slex := l1, smem := m1, slex := l', smem := m'\<rparr>)"
    by (rule Cons.IH) (use g(2) Cons.prems(2,3) in simp_all)
  then show ?case using g(1) Cons.prems(2,3) by (subst parse_cmd.simps) (simp add: sh_token_def p)
qed

lemma text_of_simps [simp]: "text_of [] = []" "text_of (c # s) = of_char c # text_of s" "length (text_of s) = length s"
  by (simp_all add: text_of_def)

lemma get_bytes_snoc: "get_bytes m a (Suc n) = get_bytes m a n @ [m (a + n)]"
  by (rule nth_equalityI) (auto simp: nth_append less_Suc_eq)

lemma is_cmd_str:
  assumes "str_at (smem s) a cs" "0 \<notin> set (text_of name)"
  shows "is_cmd name a s \<longleftrightarrow> cs = text_of name"
proof
  assume c: "is_cmd name a s"
  have "get_bytes (smem s) a (length (text_of name)) = text_of name" "smem s (a + length (text_of name)) = 0" using c by (simp_all add: is_cmd_def get_bytes_snoc)
  then have "str_at (smem s) a (text_of name)" using str_at_append [of "smem s" a "text_of name" "[]"] assms(2) by simp
  then show "cs = text_of name" using assms(1) str_at_unique by blast
next
  assume "cs = text_of name"
  then have "get_bytes (smem s) a (length (text_of name)) = text_of name \<and> smem s (a + length (text_of name)) = 0"
    using assms(1) str_at_append [of "smem s" a "text_of name" "[]"] by simp
  then show "is_cmd name a s" unfolding is_cmd_def by (simp add: get_bytes_snoc)
qed

section \<open>Echo\<close>

fun joined :: "u8 list list \<Rightarrow> u8 list" where
  "joined [] = []"
| "joined [w] = w"
| "joined (w # v # ws) = w @ 32 # joined (v # ws)"

lemma cons_write:
  assumes "cons_ready fd n (senv s)" "get_bytes (smem s) a k = bs" "0 \<notin> set bs"
  shows "sh_write fd a k s = Some (int k, s\<lparr>senv := (senv s)\<lparr>cons_out := cons_out (senv s) @ bs\<rparr>\<rparr>)"
proof -
  have "length bs = k" using assms(2) by auto
  then show ?thesis using assms devcons_write_out [OF assms(3), of "senv s"]
    by (auto simp: sh_write_def cons_ready_def write_fd_def devcons_write_def)
qed

lemma cons_ready_out [simp]: "cons_ready fd n (u\<lparr>cons_out := x\<rparr>) = cons_ready fd n u"
  by (simp add: cons_ready_def)

lemma echo_args_run:
  "list_all2 (str_at (smem s)) as ws \<Longrightarrow> cons_ready 1 n (senv s) \<Longrightarrow> smem s (lit s (text_of '' '')) = 32 \<Longrightarrow>
   echo_args as first s = Some (s\<lparr>senv := (senv s)\<lparr>cons_out := cons_out (senv s) @ (if first \<or> ws = [] then [] else [32]) @ joined ws\<rparr>\<rparr>)"
proof (induction as arbitrary: s ws first)
  case (Cons a as)
  obtain w ws' where ws: "ws = w # ws'" "str_at (smem s) a w" "list_all2 (str_at (smem s)) as ws'" using Cons.prems(1) by (cases ws) auto
  have w: "get_bytes (smem s) a (length w) = w" "0 \<notin> set w" using ws(2) str_at_append [of "smem s" a w "[]"] by simp_all
  have sp: "get_bytes (smem s) (lit s (text_of '' '')) 1 = [32]" using Cons.prems(3) by (simp add: get_bytes_Suc)
  let ?s1 = "if first then s else s\<lparr>senv := (senv s)\<lparr>cons_out := cons_out (senv s) @ [32]\<rparr>\<rparr>"
  have 1: "(if first then Some s else do { (r, s) \<leftarrow> sh_write 1 (lit s (text_of '' '')) 1 s; Some s }) = Some ?s1"
    using cons_write [OF Cons.prems(2) sp] by simp
  have s1: "cons_ready 1 n (senv ?s1)" "smem ?s1 = smem s" "lit ?s1 = lit s" using Cons.prems(2) by simp_all
  let ?s2 = "?s1\<lparr>senv := (senv ?s1)\<lparr>cons_out := cons_out (senv ?s1) @ w\<rparr>\<rparr>"
  have 2: "sh_write 1 a (length w) ?s1 = Some (int (length w), ?s2)" using cons_write [OF s1(1), of a "length w" w] w s1(2) by simp
  have 3: "echo_args as False ?s2 = Some (?s2\<lparr>senv := (senv ?s2)\<lparr>cons_out := cons_out (senv ?s2) @ (if False \<or> ws' = [] then [] else [32]) @ joined ws'\<rparr>\<rparr>)"
    by (rule Cons.IH) (use ws(3) s1 Cons.prems(3) in simp_all)
  have "echo_args (a # as) first s = echo_args as False ?s2"
    using 2 strlen_str [of "smem ?s1" a w] ws(2) s1(2) unfolding echo_args.simps 1 by simp
  also have "\<dots> = Some (s\<lparr>senv := (senv s)\<lparr>cons_out := cons_out (senv s) @ (if first \<or> ws = [] then [] else [32]) @ joined ws\<rparr>\<rparr>)"
    unfolding 3 by (cases ws') (simp_all add: ws(1))
  finally show ?case .
qed simp

lemma tok_words:
  assumes "list_all2 (tok_at m) os (map Word ws)"
  shows "\<forall>o'\<in>set os. fst o' = 119" "list_all2 (str_at m) (map snd os) ws" "length os = length ws"
proof -
  have "\<forall>o'\<in>set os. fst o' = 119" if "list_all2 (tok_at m) os (map Word ws)" for os ws
    using that by (induction os arbitrary: ws) (auto simp: list_all2_Cons1 Cons_eq_map_conv)
  moreover have "list_all2 (str_at m) (map snd os) ws" if "list_all2 (tok_at m) os (map Word ws)" for os ws
    using that by (induction os arbitrary: ws) (auto simp: list_all2_Cons1 Cons_eq_map_conv)
  ultimately show "\<forall>o'\<in>set os. fst o' = 119" "list_all2 (str_at m) (map snd os) ws" using assms by blast+
  show "length os = length ws" using list_all2_lengthD [OF assms] by simp
qed

text \<open>
  C23: A command line from its text to its output.  When the shell runs a line of words that begins with
  \<open>echo\<close> and has at most sixteen words, with the console as standard output, it prints the other words, one
  blank between two of them and a line break at the end, whatever the white space of the line, and exits.
\<close>

theorem echo_line:
  assumes "str_at (smem s) line cs" "line \<noteq> 0" "tokens cs = map Word (text_of ''echo'' # ws)" "length ws < MAXARGS"
    and c: "cons_ready 1 n (senv s)"
    and lits: "lit s (text_of '' '') < line" "smem s (lit s (text_of '' '')) = 32" "lit s (text_of NL) < line" "smem s (lit s (text_of NL)) = 10"
  shows "\<exists>s'. runcmd line s = sh_exit s' \<and> cons_out (senv s') = cons_out (senv s) @ joined ws @ [10]"
proof -
  from lex_line [OF assms(1,2), of "slex s"] obtain l1 m1 os l2 m2 where
    g: "gettoken_init line (slex s) (smem s) = Some (l1, m1)" "lex_all l1 m1 = Some (os, l2, m2)" "list_all2 (tok_at m2) os (tokens cs)"
      "\<forall>x. x < line \<longrightarrow> m2 x = smem s x" by blast
  note t = tok_words [OF g(3) [unfolded assms(3)]]
  obtain e as where as: "map snd os = e # as" "str_at m2 e (text_of ''echo'')" "list_all2 (str_at m2) as ws"
    using t(2) by (auto simp: list_all2_Cons2)
  let ?s1 = "s\<lparr>slex := l2, smem := m2\<rparr>"
  have p: "parse_cmd [] (s\<lparr>slex := l1, smem := m1\<rparr>) = Some (Runit (e # as), ?s1)"
    using parse_words [of "s\<lparr>slex := l1, smem := m1\<rparr>" os l2 m2 "[]"] g(2) t(1,3) assms(4) as(1) by (simp add: MAXARGS_def)
  have se: "str_at (smem ?s1) e (text_of ''echo'')" using as(2) by simp
  let ?s2 = "?s1\<lparr>senv := (senv s)\<lparr>cons_out := cons_out (senv s) @ joined ws\<rparr>\<rparr>"
  let ?s3 = "?s1\<lparr>senv := (senv s)\<lparr>cons_out := cons_out (senv s) @ joined ws @ [10]\<rparr>\<rparr>"
  have a: "echo_args as True ?s1 = Some ?s2"
    using echo_args_run [of ?s1 as ws n True] as(3) c lits g(4) by simp
  have "get_bytes m2 (lit s (text_of NL)) 1 = [10]" using lits g(4) by (simp add: get_bytes_Suc)
  then have "sh_write 1 (lit s (text_of NL)) 1 ?s2 = Some (1, ?s3)"
    using cons_write [of 1 n ?s2 "lit s (text_of NL)" 1 "[10]"] c by simp
  then have "echo as ?s1 = Some ?s3" using a by (simp add: echo_def del: One_nat_def)
  moreover have "is_cmd ''echo'' e ?s1" "\<not> is_cmd ''cd'' e ?s1" "\<not> is_cmd ''pwd'' e ?s1" "\<not> is_cmd ''rm'' e ?s1" "\<not> is_cmd ''mkdir'' e ?s1"
    using is_cmd_str [OF se] by simp_all
  ultimately have "runit (e # as) ?s1 = sh_exit ?s3" by (simp add: runit_def)
  then have "runcmd line s = sh_exit ?s3" using g(1) p by (simp add: runcmd_def)
  then show ?thesis by (intro exI [of _ ?s3]) simp
qed

text \<open>The line \<open>echo  a bc\<close> on the console.\<close>

theorem echo_line_witness:
  "\<exists>s s'. runcmd 200 s = sh_exit s' \<and> cons_out (senv s') = cons_out (senv s) @ [97, 32, 98, 99, 10]"
proof -
  let ?l = "[101, 99, 104, 111, 32, 32, 97, 32, 98, 99] :: u8 list"
  let ?u = "img_uenv\<lparr>fdtab := [1 \<mapsto> 9], server := set_fd 9 (\<lambda>_. zero_fd\<lparr>fd_dev_id := 99, fd_omode := 2\<rparr>) (server img_uenv)\<rparr>"
  let ?s = "sh_start\<lparr>smem := set_bytes 200 ?l (set_bytes 100 [32, 0, 10] (\<lambda>_. 0)), senv := ?u\<rparr>"
  have l: "str_at (smem ?s) 200 ?l" by (simp add: set_bytes_apply)
  have t: "tokens ?l = map Word (text_of ''echo'' # [[97], [98, 99]])"
    by (simp add: blank_def symbol_def plain_def WHITESPACE_def SYMBOLS_def)
  have c: "cons_ready 1 n (senv ?s)" for n
    by (simp add: cons_ready_def with_fd_def fd_lookup_def the_fd_def dev_lookup_def MAXFD_def serv_consts)
  have "\<exists>s'. runcmd 200 ?s = sh_exit s' \<and> cons_out (senv s') = cons_out (senv ?s) @ joined [[97], [98, 99]] @ [10]"
    by (rule echo_line [OF l _ t _ c]) (simp_all add: MAXARGS_def NL_def sh_start_def)
  then obtain s' where "runcmd 200 ?s = sh_exit s'" "cons_out (senv s') = cons_out (senv ?s) @ joined [[97], [98, 99]] @ [10]" by blast
  then show ?thesis by (intro exI [of _ ?s] exI [of _ s'] conjI) simp_all
qed

end
