(* ===== verification/Ls.thy ===== *)
theory Ls
  imports Shell Args
begin

text \<open>
  The program \<open>ls\<close> (\<open>ls.c\<close>), on the state of \<open>Shell\<close>: its own \<open>curpath\<close>, \<open>flag\<close> and \<open>fullpath\<close> are the fields of
  these names, and \<open>curpathlen\<close> is passed along.  The result is false when the program has ended in a panic.
\<close>

definition ls_ls1 :: "nat option \<Rightarrow> bool \<Rightarrow> u32 \<Rightarrow> nat \<Rightarrow> shell \<Rightarrow> shell option" where
  "ls_ls1 prefix isdir sz name s = do {
     s \<leftarrow> (if flag s 108 \<noteq> 0 then sh_printf ''%11d %c '' [sz, if isdir then 100 else 45] s else Some s);
     s \<leftarrow> (case prefix of
             None \<Rightarrow> Some s
           | Some p \<Rightarrow> do {
               len \<leftarrow> strlen (smem s) p;
               let sep = (if smem s p \<noteq> 0 \<and> smem s (nat (int p + len - 1)) \<noteq> CH_SLASH then lit s (text_of ''/'') else lit s []);
               sh_printf ''%s%s'' [of_nat p, of_nat sep] s
             });
     s \<leftarrow> sh_printf ''%s'' [of_nat name] s;
     s \<leftarrow> (if flag s 70 \<noteq> 0 \<and> isdir then sh_printf ''/'' [] s else Some s);
     sh_printf NL [] s
   }"

text \<open>The loop over the entries, with the result of the last \<open>readn\<close>; \<open>None\<close> after a panic.\<close>

partial_function (option) ls_lsdir_loop :: "int \<Rightarrow> nat \<Rightarrow> int \<Rightarrow> nat \<Rightarrow> shell \<Rightarrow> (int option \<times> shell) option" where
  "ls_lsdir_loop fd path len prefix s = do {
     (n, s) \<leftarrow> sh_readn fd (direntry s) DIRESIZE s;
     if n \<noteq> int DIRESIZE then Some (Some n, s)
     else if smem s (direntry s) = 0 then ls_lsdir_loop fd path len prefix s
     else do {
       (r, m) \<leftarrow> strcpy (fullpath s) path (smem s);
       (r, m) \<leftarrow> strcpy (fullpath s + nat len) (direntry s) m;
       ((r, st), s) \<leftarrow> sh_stat (fullpath s) (s\<lparr>smem := m\<rparr>);
       if r < 0 then Some (None, s)
       else do {
         s \<leftarrow> ls_ls1 (Some prefix) (st_isdir st \<noteq> 0) (st_size st) (direntry s) s;
         ls_lsdir_loop fd path len prefix s
       }
     }
   }"

definition ls_lsdir :: "nat \<Rightarrow> nat \<Rightarrow> shell \<Rightarrow> (bool \<times> shell) option" where
  "ls_lsdir path prefix s = do {
     len \<leftarrow> strlen (smem s) path;
     (fd, s) \<leftarrow> sh_open path O_RDONLY s;
     if fd < 0 then Some (False, s)
     else do {
       (n, s) \<leftarrow> ls_lsdir_loop fd path len prefix s;
       Some (n = Some 0, s)
     }
   }"

definition ls_ls :: "int \<Rightarrow> nat \<Rightarrow> nat \<Rightarrow> shell \<Rightarrow> (bool \<times> shell) option" where
  "ls_ls curpathlen path prefix s = do {
     (path, s) \<leftarrow> (if smem s path = 46 then do {
                    (r, m) \<leftarrow> strcpy (fullpath s) (curpath s) (smem s);
                    (r, m) \<leftarrow> strcpy (nat (int (fullpath s) + curpathlen)) path m;
                    Some (fullpath s, s\<lparr>smem := m\<rparr>)
                  } else Some (path, s));
     ((r, st), s) \<leftarrow> sh_stat path s;
     if r < 0 then Some (False, s)
     else if st_isdir st \<noteq> 0 \<and> flag s 100 = 0 then ls_lsdir path path s
     else do { s \<leftarrow> ls_ls1 None (st_isdir st \<noteq> 0) (st_size st) path s; Some (True, s) }
   }"

text \<open>The length that is read; \<open>None\<close> after a panic.\<close>

definition ls_load_curpath :: "shell \<Rightarrow> (int option \<times> shell) option" where
  "ls_load_curpath s = do {
     (fd, s) \<leftarrow> sh_open (lit s (text_of ''/.global_var'')) O_RDONLY s;
     if fd < 0 then Some (None, s)
     else do {
       (n, s) \<leftarrow> sh_readn fd (curpath s) MAXPATHLEN s;
       s \<leftarrow> sh_close fd (s\<lparr>smem := (smem s)(nat (int (curpath s) + n) := 0)\<rparr>);
       Some (Some n, s)
     }
   }"

text \<open>The options; the result is false when \<open>usage\<close> has ended the program.\<close>

partial_function (option) ls_options :: "argstate \<Rightarrow> shell \<Rightarrow> ((bool \<times> argstate) \<times> shell) option" where
  "ls_options a s = do {
     (i, a) \<leftarrow> argnext a;
     if i < 0 then Some ((True, a), s)
     else if i = 100 \<or> i = 70 \<or> i = 108 then ls_options a (s\<lparr>flag := (flag s)(word_of_int i := flag s (word_of_int i) + 1)\<rparr>)
     else do { s \<leftarrow> sh_printf (''usage: ls [file...]'' @ NL) [] s; (e, s) \<leftarrow> sh_exit s; Some ((False, a), s) }
   }"

fun ls_each :: "int \<Rightarrow> nat list \<Rightarrow> shell \<Rightarrow> (bool \<times> shell) option" where
  "ls_each curpathlen [] s = Some (True, s)"
| "ls_each curpathlen (p # ps) s = do {
     (ok, s) \<leftarrow> ls_ls curpathlen p p s;
     if ok then ls_each curpathlen ps s else Some (False, s)
   }"

text \<open>
  The arguments are strings in \<open>Args\<close> and addresses here: \<open>addr\<close> gives the address of an argument, and
  a null pointer is 0.
\<close>

definition ls_umain :: "nat \<Rightarrow> (nat \<Rightarrow> u8 list option) \<Rightarrow> (u8 list \<Rightarrow> nat) \<Rightarrow> shell \<Rightarrow> (bool \<times> shell) option" where
  "ls_umain argc argv addr s = do {
     (len, s) \<leftarrow> ls_load_curpath s;
     (case len of
        None \<Rightarrow> Some (False, s)
      | Some len \<Rightarrow> do {
          ((ok, a), s) \<leftarrow> ls_options (argstart argc argv) s;
          if \<not> ok then Some (True, s)
          else if as_argc a = 1 then ls_ls len (curpath s) (curpath s) s
          else ls_each len (map (\<lambda>i. case as_argv a i of None \<Rightarrow> 0 | Some t \<Rightarrow> addr t) [1..<as_argc a]) s
        })
   }"

end
