(* ===== verification/Pic.thy ===== *)
theory Pic
  imports Trap
begin

text \<open>
  The two interrupt controllers (\<open>picirq.c\<close>).  The state is the mask the kernel keeps, its flag \<open>didinit\<close> and the
  two chips; each chip follows the programming sequence of the 8259A: a first command word starts the
  initialisation, the words after it on the data port give the vector offset, the cascade line and the mode, and
  once these are complete the data port holds the mask.  What \<open>irq_setmask_8259A\<close> prints is the list of the
  enabled lines.

  Main result: after \<open>pic_init\<close> exactly the lines of the timer, the keyboard, the slave and the serial port are
  let through, line \<open>n\<close> at the vector \<open>IRQ_OFFSET + n\<close>; but of these only the timer has a gate.
\<close>

section \<open>The chip\<close>

record chip =
  icw_next :: nat
  icw4_next :: bool
  vec_base :: u8
  imr :: u8

definition chip_cmd :: "u8 \<Rightarrow> chip \<Rightarrow> chip" where
  "chip_cmd v c = (if v AND 0x10 \<noteq> 0 then c\<lparr>icw_next := 2, icw4_next := (v AND 1 \<noteq> 0), imr := 0\<rparr> else c)"

definition chip_data :: "u8 \<Rightarrow> chip \<Rightarrow> chip" where
  "chip_data v c =
     (if icw_next c = 2 then c\<lparr>vec_base := v AND 0xF8, icw_next := 3\<rparr>
      else if icw_next c = 3 then c\<lparr>icw_next := if icw4_next c then 4 else 0\<rparr>
      else if icw_next c = 4 then c\<lparr>icw_next := 0\<rparr>
      else c\<lparr>imr := v\<rparr>)"

section \<open>The driver\<close>

record pic =
  irq_mask_8259A :: u16
  didinit :: bool
  pic1 :: chip
  pic2 :: chip
  printed :: "nat list"

definition IO_PIC1 :: nat where "IO_PIC1 = 0x20"
definition IO_PIC2 :: nat where "IO_PIC2 = 0xA0"
definition IRQ_SLAVE :: nat where "IRQ_SLAVE = 2"

text \<open>The initial value of the mask: every line but four.\<close>

definition irq_mask_start :: u16 where
  "irq_mask_start = 0xFFFF AND NOT (push_bit IRQ_SLAVE 1 OR push_bit (unat IRQ_TIMER) 1 OR push_bit (unat IRQ_SERIAL) 1 OR push_bit (unat IRQ_KBD) 1)"

definition pic_outb :: "nat \<Rightarrow> u8 \<Rightarrow> pic \<Rightarrow> pic" where
  "pic_outb port v s =
     (if port = IO_PIC1 then s\<lparr>pic1 := chip_cmd v (pic1 s)\<rparr>
      else if port = IO_PIC1 + 1 then s\<lparr>pic1 := chip_data v (pic1 s)\<rparr>
      else if port = IO_PIC2 then s\<lparr>pic2 := chip_cmd v (pic2 s)\<rparr>
      else if port = IO_PIC2 + 1 then s\<lparr>pic2 := chip_data v (pic2 s)\<rparr>
      else s)"

definition irq_setmask_8259A :: "u16 \<Rightarrow> pic \<Rightarrow> pic" where
  "irq_setmask_8259A m s =
     (let s = s\<lparr>irq_mask_8259A := m\<rparr> in
      if \<not> didinit s then s
      else
        (let s = pic_outb (IO_PIC1 + 1) (ucast m) s;
             s = pic_outb (IO_PIC2 + 1) (ucast (drop_bit 8 m)) s in
         s\<lparr>printed := printed s @ filter (\<lambda>i. NOT m AND push_bit i 1 \<noteq> 0) [0..<16]\<rparr>))"

text \<open>The initialisation words, in the order in which they are written.\<close>

definition pic_words :: "(nat \<times> u8) list" where
  "pic_words =
     [(IO_PIC1 + 1, 0xFF), (IO_PIC2 + 1, 0xFF),
      (IO_PIC1, 0x11), (IO_PIC1 + 1, ucast IRQ_OFFSET), (IO_PIC1 + 1, push_bit IRQ_SLAVE 1), (IO_PIC1 + 1, 0x3),
      (IO_PIC2, 0x11), (IO_PIC2 + 1, ucast (IRQ_OFFSET + 8)), (IO_PIC2 + 1, of_nat IRQ_SLAVE), (IO_PIC2 + 1, 0x01),
      (IO_PIC1, 0x68), (IO_PIC1, 0x0A), (IO_PIC2, 0x68), (IO_PIC2, 0x0A)]"

definition pic_init :: "pic \<Rightarrow> pic" where
  "pic_init s =
     (let s = fold (\<lambda>(port, v). pic_outb port v) pic_words (s\<lparr>didinit := True\<rparr>) in
      if irq_mask_8259A s \<noteq> 0xFFFF then irq_setmask_8259A (irq_mask_8259A s) s else s)"

section \<open>Properties\<close>

text \<open>The vector at which an interrupt line reaches the processor; the slave goes through its line of the master.\<close>

definition open_line :: "chip \<Rightarrow> nat \<Rightarrow> bool" where
  "open_line c i \<longleftrightarrow> icw_next c = 0 \<and> \<not> bit (imr c) i"

definition irq_vector :: "pic \<Rightarrow> nat \<Rightarrow> nat option" where
  "irq_vector s n =
     (if n < 8 then if open_line (pic1 s) n then Some (unat (vec_base (pic1 s)) + n) else None
      else if n < 16 then if open_line (pic1 s) IRQ_SLAVE \<and> open_line (pic2 s) (n - 8) then Some (unat (vec_base (pic2 s)) + (n - 8)) else None
      else None)"

lemma irq_mask_value: "irq_mask_start = 0xFFE8"
  by (simp add: irq_mask_start_def IRQ_SLAVE_def IRQ_TIMER_def IRQ_SERIAL_def IRQ_KBD_def push_bit_eq_mult)

lemma pic_outb_ports:
  "pic_outb 0x20 v s = s\<lparr>pic1 := chip_cmd v (pic1 s)\<rparr>" "pic_outb 0x21 v s = s\<lparr>pic1 := chip_data v (pic1 s)\<rparr>"
  "pic_outb 0xA0 v s = s\<lparr>pic2 := chip_cmd v (pic2 s)\<rparr>" "pic_outb 0xA1 v s = s\<lparr>pic2 := chip_data v (pic2 s)\<rparr>"
  by (simp_all add: pic_outb_def IO_PIC1_def IO_PIC2_def)

lemma chip_words:
  "chip_cmd 0x11 c = c\<lparr>icw_next := 2, icw4_next := True, imr := 0\<rparr>" "chip_cmd 0x68 c = c" "chip_cmd 0x0A c = c"
  "icw_next c = 2 \<Longrightarrow> chip_data v c = c\<lparr>vec_base := v AND 0xF8, icw_next := 3\<rparr>"
  "icw_next c = 3 \<Longrightarrow> icw4_next c \<Longrightarrow> chip_data v c = c\<lparr>icw_next := 4\<rparr>"
  "icw_next c = 4 \<Longrightarrow> chip_data v c = c\<lparr>icw_next := 0\<rparr>" "icw_next c = 0 \<Longrightarrow> chip_data v c = c\<lparr>imr := v\<rparr>"
  by (simp_all add: chip_cmd_def chip_data_def)

text \<open>One chip, from the word that masks it to the one that sets its mask.\<close>

lemma chip_init:
  assumes "icw_next c = 0"
  shows "chip_cmd 0x0A (chip_cmd 0x68 (chip_data w4 (chip_data w3 (chip_data w2 (chip_cmd 0x11 (chip_data 0xFF c)))))) =
    c\<lparr>icw_next := 0, icw4_next := True, imr := 0, vec_base := w2 AND 0xF8\<rparr>"
  using assms by (cases c) (simp add: chip_words)

lemma pic_init_chips:
  assumes "irq_mask_8259A s = irq_mask_start" "icw_next (pic1 s) = 0" "icw_next (pic2 s) = 0"
  shows "pic1 (pic_init s) = (pic1 s)\<lparr>icw_next := 0, icw4_next := True, imr := 0xE8, vec_base := 32\<rparr>"
    "pic2 (pic_init s) = (pic2 s)\<lparr>icw_next := 0, icw4_next := True, imr := 0xFF, vec_base := 40\<rparr>"
proof -
  let ?s = "fold (\<lambda>(port, v). pic_outb port v) pic_words (s\<lparr>didinit := True\<rparr>)"
  have w: "pic_words = [(0x21, 0xFF), (0xA1, 0xFF), (0x20, 0x11), (0x21, 32), (0x21, 4), (0x21, 3), (0xA0, 0x11), (0xA1, 40), (0xA1, 2), (0xA1, 1),
      (0x20, 0x68), (0x20, 0x0A), (0xA0, 0x68), (0xA0, 0x0A)]"
    by (simp add: pic_words_def IO_PIC1_def IO_PIC2_def IRQ_OFFSET_def IRQ_SLAVE_def push_bit_eq_mult)
  have f: "pic1 ?s = (pic1 s)\<lparr>icw_next := 0, icw4_next := True, imr := 0, vec_base := 32\<rparr>" "pic2 ?s = (pic2 s)\<lparr>icw_next := 0, icw4_next := True, imr := 0, vec_base := 40\<rparr>"
    "irq_mask_8259A ?s = 0xFFE8" "didinit ?s"
    using assms(1) unfolding w by (simp_all add: pic_outb_ports chip_init [OF assms(2)] chip_init [OF assms(3)] irq_mask_value)
  have "pic_init s = irq_setmask_8259A 0xFFE8 ?s" by (simp add: pic_init_def f(3) Let_def)
  then show "pic1 (pic_init s) = (pic1 s)\<lparr>icw_next := 0, icw4_next := True, imr := 0xE8, vec_base := 32\<rparr>"
    "pic2 (pic_init s) = (pic2 s)\<lparr>icw_next := 0, icw4_next := True, imr := 0xFF, vec_base := 40\<rparr>"
    using f by (simp_all add: irq_setmask_8259A_def IO_PIC1_def IO_PIC2_def pic_outb_ports chip_words Let_def drop_bit_eq_div)
qed

text \<open>
  C40: The interrupt controllers and the gates do not fit together.  After \<open>pic_init\<close> exactly the timer, the
  keyboard, the slave and the serial port are let through, each line \<open>n\<close> at the vector \<open>IRQ_OFFSET + n\<close>; yet
  \<open>trap_init\<close> has a gate only for the timer, so a key press or a character on the serial port while
  interrupts are enabled finds no gate, and the code in \<open>trap_dispatch\<close> that would handle it is not reached.
\<close>

theorem irq_lines_and_gates:
  assumes "irq_mask_8259A s = irq_mask_start" "icw_next (pic1 s) = 0" "icw_next (pic2 s) = 0"
  shows "irq_vector (pic_init s) n = (if n \<in> {unat IRQ_TIMER, unat IRQ_KBD, IRQ_SLAVE, unat IRQ_SERIAL} then Some (unat IRQ_OFFSET + n) else None)
    \<and> ((\<exists>v. irq_vector (pic_init s) n = Some v \<and> trap_init v \<noteq> None) \<longleftrightarrow> n = unat IRQ_TIMER)"
proof -
  have "\<not> bit (0xE8 :: u8) i \<longleftrightarrow> i \<in> {0, 1, 2, 4}" if "i < 8" for i
  proof -
    have "i = 0 \<or> i = 1 \<or> i = 2 \<or> i = 3 \<or> i = 4 \<or> i = 5 \<or> i = 6 \<or> i = 7" using that by linarith
    then show ?thesis by (elim disjE) (simp_all add: bit_iff_odd)
  qed
  moreover have "bit (0xFF :: u8) i" if "i < 8" for i
  proof -
    have "(0xFF :: u8) = mask 8" by (simp add: mask_eq_exp_minus_1)
    then show ?thesis using that by (simp only: bit_mask_iff) simp
  qed
  ultimately have v: "irq_vector (pic_init s) n = (if n \<in> {0, 1, 2, 4} then Some (32 + n) else None)"
    unfolding irq_vector_def open_line_def pic_init_chips [OF assms] IRQ_SLAVE_def by auto
  have "trap_init 33 = None" "trap_init 34 = None" "trap_init 36 = None" "trap_init 32 \<noteq> None"
    by (simp_all add: trap_init_def T_SYSCALL_def IRQ_OFFSET_def IRQ_TIMER_def)
  then show ?thesis unfolding v by (auto simp: IRQ_TIMER_def IRQ_KBD_def IRQ_SLAVE_def IRQ_SERIAL_def IRQ_OFFSET_def)
qed

theorem irq_lines_and_gates_witness:
  "\<exists>s. irq_vector (pic_init s) 1 = Some 33 \<and> trap_init 33 = None"
proof -
  let ?c = "\<lparr>icw_next = 0, icw4_next = False, vec_base = 8, imr = 0\<rparr>"
  let ?s = "\<lparr>irq_mask_8259A = irq_mask_start, didinit = False, pic1 = ?c, pic2 = ?c, printed = []\<rparr>"
  have "irq_vector (pic_init ?s) 1 = Some 33" "\<not> (\<exists>v. irq_vector (pic_init ?s) 1 = Some v \<and> trap_init v \<noteq> None)"
    using irq_lines_and_gates [of ?s 1] by (simp_all add: IRQ_TIMER_def IRQ_KBD_def IRQ_OFFSET_def)
  then show ?thesis by (intro exI [of _ ?s]) simp
qed

end
