(* ===== verification/Ipc.thy ===== *)
theory Ipc
  imports CowProps
begin

text \<open>
  Messages between user programs (\<open>ipc.c\<close>) and \<open>wait.c\<close>.  The functions give up the processor in the middle of a call.
  What the rest of the system does until the caller runs again is the parameter \<open>resume\<close>: it takes the outcome of
  the system call to the state in which the caller goes on, or to \<open>None\<close> if it never does.  The array \<open>envs\<close>
  is mapped read-only for user programs.
\<close>

section \<open>Definitions\<close>

text \<open>A null page is passed as the address \<open>-1\<close>, which stands for no page.\<close>

definition pg_arg :: "u32 \<Rightarrow> u32" where "pg_arg pg = (if pg = 0 then -1 else pg)"

text \<open>
  The value returned, and what is stored in \<open>*from_env_store\<close> and \<open>*perm_store\<close>: the zeros stored after an error
  are overwritten at once.
\<close>

definition ipc_received :: "nat \<Rightarrow> kern \<Rightarrow> u32 \<times> i32 \<times> u32" where
  "ipc_received me k = (env_ipc_value (envs k me), env_ipc_from (envs k me), env_ipc_perm (envs k me))"

definition ipc_recv :: "(i32 kout \<Rightarrow> kern option) \<Rightarrow> nat \<Rightarrow> u32 \<Rightarrow> kern \<Rightarrow> (u32 \<times> i32 \<times> u32) uout option" where
  "ipc_recv resume me pg k =
     (case sys_ipc_recv_u (pg_arg pg) k of
        Done r k \<Rightarrow> Some (Done (ipc_received me k) k)
      | Away m \<Rightarrow> (case resume m of None \<Rightarrow> None | Some k \<Rightarrow> Some (Done (ipc_received me k) k))
      | UPanic k \<Rightarrow> Some (UPanic k) | UFault k \<Rightarrow> Some (UFault k))"

partial_function (option) ipc_send :: "(i32 kout \<Rightarrow> kern option) \<Rightarrow> i32 \<Rightarrow> u32 \<Rightarrow> u32 \<Rightarrow> u32 \<Rightarrow> kern \<Rightarrow> unit uout option" where
  "ipc_send resume to_env val pg perm k =
     (case sys_ipc_try_send_u to_env val (pg_arg pg) perm k of
        Done r k \<Rightarrow>
          if r = 0 then Some (Done () k)
          else if r \<noteq> err E_IPC_NOT_RECV then Some (UPanic k)
          else (case sys_yield_u k of
                  Done q k \<Rightarrow> ipc_send resume to_env val pg perm k
                | Away m \<Rightarrow> (case resume m of None \<Rightarrow> None | Some k \<Rightarrow> ipc_send resume to_env val pg perm k)
                | UPanic k \<Rightarrow> Some (UPanic k) | UFault k \<Rightarrow> Some (UFault k))
      | UPanic k \<Rightarrow> Some (UPanic k) | UFault k \<Rightarrow> Some (UFault k) | Away m \<Rightarrow> Some (Away m))"

text \<open>The environment the file server runs in is found by its type.\<close>

definition ipc_find_env :: "env_type \<Rightarrow> kern \<Rightarrow> i32" where
  "ipc_find_env type k =
     (case find (\<lambda>i. env_type (envs k i) = type) [0..<NENV] of None \<Rightarrow> 0 | Some i \<Rightarrow> env_id (envs k i))"

text \<open>Waiting for an environment to exit (\<open>wait.c\<close>).\<close>

partial_function (option) wait :: "(i32 kout \<Rightarrow> kern option) \<Rightarrow> i32 \<Rightarrow> kern \<Rightarrow> unit uout option" where
  "wait resume envid k =
     (let e = envs k (ENVX envid) in
      if env_id e = envid \<and> env_status e \<noteq> ENV_FREE then
        (case sys_yield_u k of
           Done q k \<Rightarrow> wait resume envid k
         | Away m \<Rightarrow> (case resume m of None \<Rightarrow> None | Some k \<Rightarrow> wait resume envid k)
         | UPanic k \<Rightarrow> Some (UPanic k) | UFault k \<Rightarrow> Some (UFault k))
      else Some (Done () k))"

section \<open>Lemmas\<close>

lemma kbind_eq_Ret: "kbind m f = Ret z k' \<longleftrightarrow> (\<exists>x k. m = Ret x k \<and> f x k = Ret z k')"
  by (cases m) auto

lemma pg_arg_null [simp]: "UTOP \<le> pg_arg 0" "\<not> pg_arg 0 < UTOP"
  by (simp_all add: pg_arg_def mmu_consts)

lemma sys_yield_away: "sys_yield_u k = Away (sched_yield k)"
  by (auto simp: sys_yield_u_def syscall_u_def syscall_def sys_defs sys_yield_def sched_yield_no_return split: kout.splits)

lemma err_not_recv: "err E_IPC_NOT_RECV \<noteq> 0" "sint (err E_IPC_NOT_RECV) < 0"
  by (simp_all add: err_def E_IPC_NOT_RECV_def)

lemma try_send_stub:
  "sys_ipc_try_send e v va p k = Ret r k' \<Longrightarrow> sint r \<le> 0 \<Longrightarrow> sys_ipc_try_send_u e v va p k = Done r k'"
  by (simp add: sys_ipc_try_send_u_def syscall_u_def syscall_def sys_defs)

lemma ipc_recv_waits:
  assumes "curenv k = Some c" "resume = (\<lambda>_. Some k')" "pg = 0 \<or> va_ok pg"
  shows "ipc_recv resume me pg k = Some (Done (ipc_received me k') k')"
proof -
  let ?m = "sys_ipc_recv (pg_arg pg) k"
  have "\<not> (pg_arg pg < UTOP \<and> pg_arg pg mod PGSIZE \<noteq> 0)" using assms(3) pg_arg_null(2) by (auto simp: pg_arg_def va_ok_def)
  then have "?m \<noteq> Ret r k1" for r k1
    using assms(1) by (auto simp: sys_ipc_recv_def sched_yield_no_return kbind_eq_Ret)
  then have "sys_ipc_recv_u (pg_arg pg) k = Away ?m"
    by (auto simp: sys_ipc_recv_u_def syscall_u_def syscall_def sys_defs split: kout.splits)
  then show ?thesis using assms(2) by (simp add: ipc_recv_def)
qed

lemma ipc_send_retry:
  assumes "envid2env to_env False k = Some (0, Some e)" "\<not> env_ipc_recving (envs k e)"
    and "resume (sched_yield k) = Some k1"
  shows "ipc_send resume to_env val pg perm k = ipc_send resume to_env val pg perm k1"
proof -
  have "sys_ipc_try_send to_env val (pg_arg pg) perm k = Ret (err E_IPC_NOT_RECV) k"
    using assms(1,2) by (simp add: sys_ipc_try_send_def)
  then have "sys_ipc_try_send_u to_env val (pg_arg pg) perm k = Done (err E_IPC_NOT_RECV) k"
    by (rule try_send_stub) (use err_not_recv in simp)
  then show ?thesis
    using assms(3) by (subst ipc_send.simps) (simp add: err_not_recv sys_yield_away)
qed

lemma ipc_send_retries:
  assumes "\<And>i. i < n \<Longrightarrow> envid2env to_env False (ks i) = Some (0, Some e) \<and> \<not> env_ipc_recving (envs (ks i) e)
      \<and> resume (sched_yield (ks i)) = Some (ks (Suc i))"
  shows "ipc_send resume to_env val pg perm (ks 0) = ipc_send resume to_env val pg perm (ks n)"
  using assms
proof (induction n)
  case (Suc n)
  then show ?case using ipc_send_retry [of to_env "ks n" e resume "ks (Suc n)"] by simp
qed simp

text \<open>
  \<open>wait\<close> returns in the first state in which it finds the slot free or used again.
\<close>

lemma wait_returns:
  assumes "\<And>i. i < n \<Longrightarrow> env_id (envs (ks i) (ENVX envid)) = envid \<and> env_status (envs (ks i) (ENVX envid)) \<noteq> ENV_FREE
      \<and> resume (sched_yield (ks i)) = Some (ks (Suc i))"
    and "env_id (envs (ks n) (ENVX envid)) = envid \<Longrightarrow> env_status (envs (ks n) (ENVX envid)) = ENV_FREE"
  shows "wait resume envid (ks 0) = Some (Done () (ks n))"
proof -
  have "wait resume envid (ks 0) = wait resume envid (ks n)"
    using assms(1)
  proof (induction n)
    case (Suc n)
    then have "wait resume envid (ks n) = wait resume envid (ks (Suc n))"
      by (subst wait.simps) (simp add: sys_yield_away)
    then show ?case using Suc by simp
  qed simp
  also have "\<dots> = Some (Done () (ks n))" using assms(2) by (subst wait.simps) (auto simp: Let_def)
  finally show ?thesis .
qed

section \<open>Delivery\<close>

text \<open>What a delivered message leaves: \<open>p\<close> is the permission the receiver finds, \<open>k\<close> the state before.\<close>

definition delivered :: "i32 \<Rightarrow> nat \<Rightarrow> nat \<Rightarrow> u32 \<Rightarrow> u32 \<Rightarrow> kern \<Rightarrow> kern \<Rightarrow> bool" where
  "delivered to_env c e value p k k' \<longleftrightarrow>
     ipc_received e k' = (value, env_id (envs k c), p) \<and> env_status (envs k' e) = ENV_RUNNABLE
     \<and> reg_eax (tf_regs (env_tf (envs k' e))) = 0 \<and> (\<forall>i. i \<noteq> e \<longrightarrow> envs k' i = envs k i) \<and> curenv k' = curenv k
     \<and> (\<forall>v va q. sys_ipc_try_send to_env v va q k' = Ret (err E_IPC_NOT_RECV) k')"

lemma deliver_run:
  assumes "envid2env to_env False k = Some (0, Some e)" "curenv k = Some c"
    and "k1 = upd_env e (\<lambda>x. x\<lparr>env_ipc_recving := False, env_ipc_perm := p\<rparr>) (put_vm v k)"
  shows "\<exists>k'. ipc_deliver e value k1 = Ret 0 k' \<and> delivered to_env c e value p k k' \<and> kvm k' = kvm (put_vm v k)
    \<and> env_pgdir (envs k' e) = env_pgdir (envs k e)"
proof -
  let ?k = "upd_env e (\<lambda>x. x\<lparr>env_ipc_from := env_id (envs k1 c), env_ipc_value := value, env_status := ENV_RUNNABLE,
      env_tf := (env_tf x)\<lparr>tf_regs := (tf_regs (env_tf x))\<lparr>reg_eax := 0\<rparr>\<rparr>\<rparr>) k1"
  have "ipc_deliver e value k1 = Ret 0 ?k" using assms(2,3) by (simp add: ipc_deliver_def Let_def)
  moreover have "envid2env to_env False ?k = Some (0, Some e)"
    using assms by (auto simp: envid2env_def Let_def split: if_splits)
  then have "sys_ipc_try_send to_env u va q ?k = Ret (err E_IPC_NOT_RECV) ?k" for u va q
    using assms(3) by (simp add: sys_ipc_try_send_def)
  ultimately show ?thesis using assms(3) by (intro exI [of _ ?k]) (auto simp: delivered_def ipc_received_def)
qed

lemma put_vm_same: "put_vm (kvm k) k = k"
  by (simp add: put_vm_def)

text \<open>Without a page the permission stays what it was.\<close>

lemma try_send_value:
  assumes "envid2env to_env False k = Some (0, Some e)" "curenv k = Some c" "env_ipc_recving (envs k e)" "UTOP \<le> srcva"
  shows "\<exists>k'. sys_ipc_try_send to_env value srcva perm k = Ret 0 k' \<and> delivered to_env c e value (env_ipc_perm (envs k e)) k k' \<and> kvm k' = kvm k"
proof -
  let ?k = "upd_env e (\<lambda>x. x\<lparr>env_ipc_recving := False\<rparr>) k"
  have k: "?k = upd_env e (\<lambda>x. x\<lparr>env_ipc_recving := False, env_ipc_perm := env_ipc_perm (envs k e)\<rparr>) (put_vm (kvm k) k)"
    by (simp add: upd_env_def put_vm_def)
  have "\<not> srcva < UTOP" using assms(4) by simp
  then have "sys_ipc_try_send to_env value srcva perm k = ipc_deliver e value ?k"
    using assms(1,3) by (simp add: sys_ipc_try_send_def Let_def)
  then show ?thesis using deliver_run [OF assms(1,2) k] by (auto simp: put_vm_same)
qed

text \<open>A page that may be sent with \<open>perm\<close>: its address, the permissions, and that it is mapped, writable if \<open>perm\<close> says so.\<close>

definition sendable :: "kern \<Rightarrow> nat \<Rightarrow> u32 \<Rightarrow> u32 \<Rightarrow> bool" where
  "sendable k d pg perm \<longleftrightarrow> va_ok pg \<and> perm_ok perm \<and> amap (kvm k) d (vpn pg) \<noteq> 0
     \<and> (perm AND PTE_W \<noteq> 0 \<longrightarrow> amap (kvm k) d (vpn pg) AND PTE_W \<noteq> 0)"

lemma try_send_checked:
  assumes "envid2env to_env False k = Some (0, Some e)" "curenv k = Some c" "env_ipc_recving (envs k e)"
    and "env_pgdir (envs k c) = Some (ds * 4096)" "sendable k ds pg perm"
  defines "k1 \<equiv> upd_env e (\<lambda>x. x\<lparr>env_ipc_recving := False\<rparr>) k"
  shows "sys_ipc_try_send to_env value pg perm k =
    (if env_ipc_dstva (envs k e) < UTOP then
       (case insert_in e (pa2page (amap (kvm k) ds (vpn pg))) (env_ipc_dstva (envs k e)) perm k1 of
          None \<Rightarrow> Panic
        | Some (r, k) \<Rightarrow> if r < 0 then Ret (of_int r) (upd_env e (\<lambda>x. x\<lparr>env_ipc_perm := 0\<rparr>) k)
            else ipc_deliver e value (upd_env e (\<lambda>x. x\<lparr>env_ipc_perm := perm\<rparr>) k))
     else ipc_deliver e value k1)"
proof -
  note s = assms(5) [unfolded sendable_def]
  have pd: "pde (vm_of k1) ds (vpn pg div 1024) \<noteq> 0" using s by (auto simp: amap_def k1_def)
  have am: "amap (vm_of k1) ds (vpn pg) = amap (kvm k) ds (vpn pg)" by (simp add: k1_def)
  have g: "get32 (pmem (kvm k)) (pa2page (pde (vm_of k1) ds (vpn pg div 1024)) * 4096 + 4 * (vpn pg mod 1024)) = amap (kvm k) ds (vpn pg)"
    using pd by (simp add: amap_def ent_def k1_def)
  have r: "pg = ROUNDDOWN pg PGSIZE" "pg < UTOP"
    using s fault_addr(1) [of pg] va_ok_page(2) [of pg] va_okD [of pg] by (auto intro: unat_eqI)
  have "page_lookup (ds * 4096) pg (vm_of k1) = (Some (pa2page (amap (kvm k) ds (vpn pg)),
      pa2page (pde (vm_of k1) ds (vpn pg div 1024)) * 4096 + 4 * (vpn pg mod 1024)), vm_of k1)"
    using lookup_found [OF pd] am by simp
  moreover have "env_pgdir (envs k1 c) = Some (ds * 4096)" "put_vm (vm_of k1) k1 = k1" "curenv k1 = Some c"
    "env_ipc_dstva (envs k1 e) = env_ipc_dstva (envs k e)" "pmem (kvm k1) = pmem (kvm k)" using assms(2,4) by (auto simp: k1_def)
  moreover have "\<not> (perm AND PTE_W \<noteq> 0 \<and> amap (kvm k) ds (vpn pg) AND PTE_W = 0)" using s by blast
  ultimately show ?thesis using assms(1,3) s r g by (simp add: sys_ipc_try_send_def Let_def k1_def [symmetric]) argo
qed

lemma try_send_no_page:
  assumes "envid2env to_env False k = Some (0, Some e)" "curenv k = Some c" "env_ipc_recving (envs k e)"
    and "env_pgdir (envs k c) = Some (ds * 4096)" "sendable k ds pg perm" "UTOP \<le> env_ipc_dstva (envs k e)"
  shows "\<exists>k'. sys_ipc_try_send to_env value pg perm k = Ret 0 k' \<and> delivered to_env c e value (env_ipc_perm (envs k e)) k k' \<and> kvm k' = kvm k"
proof -
  let ?k = "upd_env e (\<lambda>x. x\<lparr>env_ipc_recving := False\<rparr>) k"
  have k: "?k = upd_env e (\<lambda>x. x\<lparr>env_ipc_recving := False, env_ipc_perm := env_ipc_perm (envs k e)\<rparr>) (put_vm (kvm k) k)"
    by (simp add: upd_env_def put_vm_def)
  have "\<not> env_ipc_dstva (envs k e) < UTOP" using assms(6) by simp
  then show ?thesis using try_send_checked [OF assms(1-5), of "value"] deliver_run [OF assms(1,2) k] by (auto simp: put_vm_same)
qed

lemma try_send_page:
  assumes k: "kinv k" "kmem k xs" "envid2env to_env False k = Some (0, Some e)" "curenv k = Some c" "env_ipc_recving (envs k e)"
    and d: "env_pgdir (envs k c) = Some (ds * 4096)" "env_pgdir (envs k e) = Some (dd * 4096)" "env_status (envs k e) \<noteq> ENV_FREE"
    and pg: "sendable k ds pg perm" "va_ok dst" "env_ipc_dstva (envs k e) = dst"
    and room: "card (maps (kvm k) (kdirs k) (pa2page (amap (kvm k) ds (vpn pg)))) + 1 < 65536" "pde (kvm k) dd (vpn dst div 1024) \<noteq> 0 \<or> xs \<noteq> []"
  shows "\<exists>k'. sys_ipc_try_send to_env value pg perm k = Ret 0 k' \<and> delivered to_env c e value perm k k'
     \<and> (\<forall>d'\<in>kdirs k. \<forall>n<UPG. amap (kvm k') d' n =
          (if d' = dd \<and> n = vpn dst then page2pa (pa2page (amap (kvm k) ds (vpn pg))) OR perm OR PTE_P else amap (kvm k) d' n))
     \<and> kept (kdirs k) (kvm k) (kvm k')"
proof -
  let ?k = "upd_env e (\<lambda>x. x\<lparr>env_ipc_recving := False\<rparr>) k" and ?p = "pa2page (amap (kvm k) ds (vpn pg))"
  have c: "env_status (envs k c) \<noteq> ENV_FREE" using k(1,4) by (auto simp: kinv_def)
  have kd: "kdirs ?k = kdirs k" using d(3) by (intro kdirs_upd) simp_all
  note s = pg(1) [unfolded sendable_def]
  have M: "spare (kvm k) (kdirs k) ?p" "?p \<notin> set xs" "unat (pp_ref (kvm k) ?p) = card (maps (kvm k) (kdirs k) ?p)" "maps (kvm k) (kdirs k) ?p \<noteq> {}"
    using mapped_spare [OF ms_invD(1) [OF k(2)] kdirsI [OF c d(1)] vpn_user [OF va_okD]] s by blast+
  have h: "kmem ?k xs" "env_status (envs ?k e) \<noteq> ENV_FREE" "env_pgdir (envs ?k e) = Some (dd * 4096)" "va_ok dst" "perm_ok perm"
    "spare (kvm ?k) (kdirs ?k) ?p" "?p \<notin> set xs" "unat (pp_ref (kvm ?k) ?p) = card (maps (kvm ?k) (kdirs ?k) ?p)"
    "card (maps (kvm ?k) (kdirs ?k) ?p) + 1 < 65536" "kern_pgdir (kvm ?k) \<noteq> ?p * 4096" "pde (kvm ?k) dd (vpn dst div 1024) \<noteq> 0 \<or> xs \<noteq> []"
    unfolding kd using k(2) d pg(2) s M room kmem_pgdir [OF k(2), of ?p] by simp_all
  from insert_in_ms [OF this] obtain v where
    v: "insert_in e ?p dst perm ?k = Some (0, put_vm v ?k)" "kept (kdirs k) (kvm k) v"
      "\<forall>d'\<in>kdirs k. \<forall>n<UPG. amap v d' n = (if d' = dd \<and> n = vpn dst then page2pa ?p OR perm OR PTE_P else amap (kvm k) d' n)"
    unfolding kd upd_env_fields by blast
  have u: "upd_env e (\<lambda>x. x\<lparr>env_ipc_perm := perm\<rparr>) (put_vm v ?k)
      = upd_env e (\<lambda>x. x\<lparr>env_ipc_recving := False, env_ipc_perm := perm\<rparr>) (put_vm v k)" by (simp add: upd_env_def put_vm_def)
  from deliver_run [OF k(3,4) u, of "value"] obtain k' where
    k': "ipc_deliver e value (upd_env e (\<lambda>x. x\<lparr>env_ipc_perm := perm\<rparr>) (put_vm v ?k)) = Ret 0 k'" "delivered to_env c e value perm k k'"
      "kvm k' = kvm (put_vm v k)" by blast
  have "dst < UTOP" using pg(2) va_okD by blast
  then have "sys_ipc_try_send to_env value pg perm k = Ret 0 k'"
    using try_send_checked [OF k(3-5) d(1) pg(1), of "value"] v(1) k'(1) unfolding pg(3) by simp
  moreover have "amap (kvm k') = amap v" "kept (kdirs k) (kvm k) (kvm k')" using v(2) k'(3) by simp_all
  ultimately show ?thesis using v(3) k'(2) by (intro exI [of _ k']) simp
qed

section \<open>Properties\<close>


text \<open>The running environment sends the page at \<open>0x800000\<close> to its child, which waits for one at \<open>0x801000\<close> after a while.\<close>

definition kern_msg :: kern where
  "kern_msg = upd_env 1 (\<lambda>x. x\<lparr>env_ipc_dstva := 0x801000\<rparr>) kern_fork"

lemma kern_msg_ok: "kinv kern_msg" "kdirs kern_msg = {1, 4}" "kmem kern_msg [7, 8, 10, 11, 12, 13, 14, 15]"
proof -
  have e: "env_status (envs kern_fork 1) \<noteq> ENV_FREE" by (simp add: kern_fork_def kern_as_def kern_two_def)
  show "kinv kern_msg" unfolding kern_msg_def by (rule kinv_upd [OF kern_fork_ok(1) e]) (use e in simp_all)
  show d: "kdirs kern_msg = {1, 4}" unfolding kern_msg_def kern_fork_ok(2) [symmetric] by (rule kdirs_upd [OF e]) (use e in simp_all)
  show "kmem kern_msg [7, 8, 10, 11, 12, 13, 14, 15]" unfolding d using kern_fork_ok(3) by (simp add: kern_fork_ok(2) kern_msg_def)
qed


end
