(* ===== verification/Spec2Isabelle.thy ===== *)
theory Spec2Isabelle
  imports FsProps CreateProps CString Args FaultProps StdioProps Pipe CowProps SchedProps SegProps UStdio OpenProps BootProps ShellProps Ls Pic Ipc
begin

text \<open>
  DamnOS is a small 32-bit kernel with user-level file system, in the exokernel style of a teaching system.
  Its parts under \<open>src/src\<close>, and the theories that model them:

  \<^item> The file system \<open>damnfs.c\<close>, a user-level server.  \<open>BlockCache\<close> has the disk (\<open>ide.c\<close>) and the cache of
    blocks mapped at \<open>DISKMAP\<close> with its page-fault handler and \<open>flush_block\<close>; \<open>Bitmap\<close> the superblock and its
    two bitmaps; \<open>DamnFS\<close> inodes, directories, path names and the operations on files.  The state \<open>fs\<close> holds
    the cache memory, which blocks are mapped and dirty, and the disk; every access of the code to a mapped
    structure is an access to that memory and may fault.
  \<^item> The server's requests \<open>serv.c\<close> in \<open>Serv\<close>: open files, descriptor pages with the kernel's reference
    counts, the request page, every handler and one round of the loop.  Its clients \<open>fd.c\<close> and \<open>file.c\<close> and the
    console device \<open>uconsole.c\<close> in \<open>File\<close>, for descriptors of files and of the console.
  \<^item> Pipes, \<open>pipe.c\<close>, in \<open>Pipe\<close>: each call is a program of micro-steps, one per access to shared memory, and
    an inductive relation interleaves one reader, one writer and any number of other environments that share and
    close the ends, one page at a time.
  \<^item> The kernel: memory macros (\<open>util.h\<close>) in \<open>Mmu\<close>, physical pages and page tables (\<open>pmap.c\<close>) in \<open>Pmap\<close>,
    the console (\<open>console.c\<close>) in \<open>Console\<close>, environments, scheduling and the lock (\<open>env.c\<close>, \<open>sched.c\<close>,
    \<open>spinlock.c\<close>) in \<open>Env\<close>, traps and system calls (\<open>trap.c\<close>) in \<open>Trap\<close>.  Page tables are bytes of physical
    memory; a kernel call ends in a value of \<open>kout\<close>: a return, entry to user mode, halting, the monitor, a
    panic, or spinning on the lock.
  \<^item> User level, over the system calls: the stubs (\<open>syscall.c\<close>), the copy-on-write \<open>fork\<close> and its page-fault
    handler (\<open>fork.c\<close>, \<open>pgfault.c\<close>, \<open>pageref.c\<close>) in \<open>User\<close>; loading a program (\<open>spawn.c\<close>) in \<open>Spawn\<close>, over the
    kernel and the file client together; messages (\<open>ipc.c\<close>) and \<open>wait.c\<close> in \<open>Ipc\<close>, with the rest of the
    system, which runs until the caller goes on, as a parameter.  A user program sees memory through the page tables of its
    environment; its outcome \<open>uout\<close> is a value, a panic, a fault, or that another environment runs.
  \<^item> The libraries: \<open>string.c\<close> in \<open>CString\<close>, \<open>args.c\<close> in \<open>Args\<close>, formatted output and line input of
    \<open>stdio.c\<close> in \<open>Stdio\<close>, the buffered output of user programs in \<open>UStdio\<close>.
  \<^item> The shell \<open>sh.c\<close>: its tokenizer in \<open>ShLex\<close>, paths, built-in commands and command lines in \<open>Shell\<close>; the
    programs \<open>echo.c\<close> (there too) and \<open>ls.c\<close> (\<open>Ls\<close>).
  \<^item> Starting up: the boot loader \<open>main.c\<close> and the page directory of the entry code (\<open>entrypgdir.c\<close>) in \<open>Boot\<close>,
    the interrupt controllers (\<open>picirq.c\<close>) in \<open>Pic\<close>.

  \<open>Prelude\<close> has what the components share: little-endian memory accesses, word lemmas, the error numbers,
  and the interfaces that several components implement as locales (a first-fit allocator, a stack of free
  elements, a byte queue), each interpreted on the code's own operations.

  What is shown.

  \<^item> File system, on a memory \<open>m\<close> that the server's state shows (\<open>sees s m\<close>, in \<open>FsView\<close>: cache over disk):
    faults are transparent and flushes durable; allocation is first fit and undone by release; \<open>FileOps\<close> and
    \<open>FileSpec\<close> follow the loops of reading, writing, truncating and flushing, and \<open>FsProps\<close> concludes that what
    is written is read back, that a write touches no other file and no other block, and that truncation frees
    exactly the blocks past the new size.  \<open>DirProps\<close> proves that \<open>file_open\<close> implements path resolution,
    \<open>CreateProps\<close> that a created file is found by its path.
  \<^item> Server and client, in \<open>ServProps\<close>: the table of open files keeps its invariant under every request, and
    a client reads back through its descriptor what it wrote, through all layers down to the disk.  \<open>OpenProps\<close>:
    a path that is opened and read gives the bytes of the file it names.  \<open>UStdio\<close>: formatted text arrives whole
    and in order on the console and in a file, which both provide the interface \<open>text_sink\<close>.
  \<^item> Pipes: under every interleaving the bytes come out in order and none is lost or invented.  End of
    file is only reported when the other end has gone, as long as no end is half forked at that moment; the races by which it is
    reported too early are exhibited.
  \<^item> Kernel: \<open>PmapProps\<close> for the page allocator and mappings, \<open>EnvProps\<close> for environments and scheduling,
    \<open>TrapProps\<close> and \<open>FaultProps\<close> for the invariant of the environment table under every trap, permissions,
    messages, and the page-fault upcall; \<open>ConsoleProps\<close> for the input queue and the bounds of the screen.
    \<open>AddrSpace\<close> views the page tables of all environments as maps from virtual pages to entries, and proves that
    mapping and unmapping change one entry of one map; \<open>MemCalls\<close> and \<open>KernMem\<close> carry this through the system
    calls.  \<open>SchedProps\<close>: a runnable environment is scheduled within one round if none exits, and how others can prevent it.
  \<^item> User level: \<open>ForkProps\<close> and \<open>CowProps\<close> prove that \<open>fork\<close> copies the address space, that the handler makes
    a page private, and that read-only pages are not protected; \<open>SpawnProps\<close> and \<open>SegProps\<close> that a program gets its arguments and its segments;
    \<open>Ipc\<close> that a message reaches its receiver however often the sender has to try.  \<open>ShLex\<close> and
    \<open>ShellProps\<close>: the tokens of a line, the current path as a stack of names, and a command line from its text to
    its output.
  \<^item> Starting up, in \<open>BootProps\<close> and \<open>Pic\<close>: the loader puts every segment of the kernel in place; what the
    entry page directory maps; which interrupt lines are open and which of them have a gate.
  \<^item> Libraries: \<open>memmove\<close> is a simultaneous copy, \<open>strtol\<close> evaluates its digits and inverts printing,
    \<open>vsnprintf\<close> stays in its buffer, \<open>readline\<close> implements line editing, \<open>argnext\<close> delivers the options.

  Conventions.  A result \<open>None\<close> of an operation of the file system or of \<open>Pmap\<close> is a panic or an access the
  program may not make; loops that run until a byte in memory ends them are partial functions into \<open>option\<close>, and
  the theorems state that they return.  No definition uses fuel; the loop over the program headers in
  \<open>Boot\<close> is bounded by their number, at which it ends.  Hardware answers (whether a disk transfer
  or a page allocation of the server succeeds, the bytes of the serial port and of the keyboard, CMOS) are
  fields of the states.

  A trap is one step of the kernel.  The gate of the system calls leaves interrupts enabled, and an interrupt
  inside a system call is not modelled.

  Not modelled: the processor primitives of \<open>x86.h\<close> but for the port accesses of the boot loader, the assembly
  files, and \<open>i386_init\<close>, which calls the initialisations of the parts in turn; the handshake of the disk controller
  in \<open>ide.c\<close>; the kernel monitor and the texts of panics, which are interactive debugging output; the creation of
  pipes; the pipelines and the main loop of the shell, which fork and wait; and the host tool
  \<open>damn_operate.c\<close>, whose header \<open>myfs.h\<close> is not part of the repository.
\<close>

end
